(* ===== verification/C4_Prelude.thy ===== *)
theory C4_Prelude
  imports Main "HOL-Library.Word" "HOL-Library.Monad_Syntax"
begin

text \<open>
  The prelude of the development: the machine types of the i386 target, the typed heaps
  in which the kernel's structs live, the flag macros of \<^verbatim>\<open>include/c4/common.h\<close>, the error
  codes of \<^verbatim>\<open>include/c4/error.h\<close>, and the generic lemmas on words and options that every
  component uses.

  Conventions of the whole development.
  \<^item> A C function that can fault (dereference \<^verbatim>\<open>NULL\<close>, index outside an array, spin forever)
    is a function into \<open>option\<close>; \<open>None\<close> is the fault. State is passed explicitly.
  \<^item> Memory always holds something: a typed heap is a total function from addresses to
    struct contents, and an allocation leaves the old contents in place, so code that
    forgets to initialise a field reads whatever was there before.
  \<^item> \<^verbatim>\<open>unsigned\<close>, \<^verbatim>\<open>uint32_t\<close>, \<^verbatim>\<open>uintptr_t\<close> and pointers are 32-bit words that wrap.
  \<^item> Output by \<^verbatim>\<open>debug_printf\<close> is not part of the state.
\<close>

unbundle bit_operations_syntax

type_synonym u8 = "8 word"
type_synonym u16 = "16 word"
type_synonym u32 = "32 word"
type_synonym u64 = "64 word"
type_synonym ptr = u32
type_synonym 'a heap = "ptr \<Rightarrow> 'a"

text \<open>\<^verbatim>\<open>NULL\<close>, and the size of a page (\<^verbatim>\<open>arch/x86/include/c4/arch/paging.h\<close>).\<close>

abbreviation NULL :: ptr where "NULL \<equiv> 0"

definition PAGE_SIZE :: u32 where "PAGE_SIZE = 0x1000"

definition KERNEL_BASE :: u32 where "KERNEL_BASE = 0xfd000000"

text \<open>Rules that the components' proofs share.\<close>

named_theorems c4_enum \<open>values of the source's enum constants\<close>
named_theorems c4_frame \<open>what an operation leaves alone\<close>

subsection \<open>Error codes\<close>

text \<open>A syscall returns an \<^verbatim>\<open>int\<close>; an error code is returned negated.\<close>

definition C4_ERROR_NONE :: int where [c4_enum]: "C4_ERROR_NONE = 0"
definition C4_ERROR_INVALID_ARGUMENT :: int where [c4_enum]: "C4_ERROR_INVALID_ARGUMENT = 1"
definition C4_ERROR_INVALID_OBJECT :: int where [c4_enum]: "C4_ERROR_INVALID_OBJECT = 2"
definition C4_ERROR_INVALID_PLATFORM :: int where [c4_enum]: "C4_ERROR_INVALID_PLATFORM = 3"
definition C4_ERROR_PERMISSION_DENIED :: int where [c4_enum]: "C4_ERROR_PERMISSION_DENIED = 4"
definition C4_ERROR_NOT_IMPLEMENTED :: int where [c4_enum]: "C4_ERROR_NOT_IMPLEMENTED = 5"
definition C4_ERROR_ENTITY_FULL :: int where [c4_enum]: "C4_ERROR_ENTITY_FULL = 6"

subsection \<open>Flag macros\<close>

definition SET_FLAG :: "u32 \<Rightarrow> u32 \<Rightarrow> u32" where
  "SET_FLAG flags field = flags OR field"

definition UNSET_FLAG :: "u32 \<Rightarrow> u32 \<Rightarrow> u32" where
  "UNSET_FLAG flags field = flags AND NOT field"

definition FLAG :: "u32 \<Rightarrow> u32 \<Rightarrow> bool" where
  "FLAG flags field \<longleftrightarrow> flags AND field \<noteq> 0"

lemma FLAG_SET_FLAG [simp]: "field \<noteq> 0 \<Longrightarrow> FLAG (SET_FLAG flags field) field"
  by (simp add: FLAG_def SET_FLAG_def word_ao_absorbs)

lemma FLAG_UNSET_FLAG [simp]: "\<not> FLAG (UNSET_FLAG flags field) field"
  by (simp add: FLAG_def UNSET_FLAG_def and.assoc)

lemma FLAG_UNSET_other: "a AND b = 0 \<Longrightarrow> FLAG (UNSET_FLAG flags a) b = FLAG flags b"
proof -
  assume ab: "a AND b = 0"
  have "(flags AND NOT a) AND b = flags AND b"
  proof (rule bit_word_eqI)
    fix n assume n: "n < LENGTH(32)"
    from ab have "\<not> (bit a n \<and> bit b n)"
      by (metis bit_0_eq bit_and_iff bot_apply bot_bool_def)
    with n show "bit ((flags AND NOT a) AND b) n = bit (flags AND b) n"
      by (auto simp: bit_simps)
  qed
  then show ?thesis by (simp add: FLAG_def UNSET_FLAG_def)
qed

lemma FLAG_SET_other: "a AND b = 0 \<Longrightarrow> FLAG (SET_FLAG flags a) b = FLAG flags b"
  by (simp add: FLAG_def SET_FLAG_def word_ao_dist)

subsection \<open>Locks\<close>

text \<open>
  \<^verbatim>\<open>lock_t\<close> of \<^verbatim>\<open>include/c4/syncronization.h\<close> is an atomic flag. \<^verbatim>\<open>lock_trylock\<close> is its
  test-and-set; \<^verbatim>\<open>lock_spinlock\<close> on a flag that is already set never ends on the processor that
  set it, which is \<open>None\<close>.
\<close>

type_synonym lock_t = bool

definition lock_trylock :: "lock_t \<Rightarrow> bool \<times> lock_t" where
  "lock_trylock lock = (\<not> lock, True)"

definition lock_spinlock :: "lock_t \<Rightarrow> lock_t option" where
  "lock_spinlock lock = (case lock_trylock lock of (True, l) \<Rightarrow> Some l | (False, l) \<Rightarrow> None)"

definition lock_unlock :: "lock_t \<Rightarrow> lock_t" where
  "lock_unlock lock = False"

lemma lock_spinlock_simps [simp]:
  "lock_spinlock False = Some True" "lock_spinlock True = None" "lock_unlock l = False"
  by (simp_all add: lock_spinlock_def lock_trylock_def lock_unlock_def)

subsection \<open>Words\<close>

lemma unat_u32_less [simp]: "unat (x :: u32) < 4294967296"
  using unsigned_less [of x] by simp

lemma unat_add_u32: "unat a + unat b < 4294967296 \<Longrightarrow> unat (a + b :: u32) = unat a + unat b"
  using unat_add_lem [of a b] by simp

lemma unat_mult_u32: "unat a * unat b < 4294967296 \<Longrightarrow> unat (a * b :: u32) = unat a * unat b"
  using unat_mult_lem [of a b] by simp

lemma unat_of_nat_u32: "n < 4294967296 \<Longrightarrow> unat (of_nat n :: u32) = n"
  by (simp add: unat_of_nat take_bit_eq_mod)

lemma unat_Suc_u32: "i < limit \<Longrightarrow> unat (i + 1 :: u32) = Suc (unat i)"
  using unat_add_u32 [of i 1] unat_u32_less [of limit]
  by (simp add: word_less_nat_alt)

lemma word_minus_one_max: "(-1 :: u32) = 0xffffffff"
  by simp

lemma unat_minus_one_u32 [simp]: "unat (-1 :: u32) = 4294967295"
  by (simp add: word_minus_one_max)

lemmas u32_nat = word_less_nat_alt word_le_nat_alt word_unat_eq_iff

subsection \<open>Options\<close>

lemma bind_eq_SomeE:
  assumes "Option.bind m f = Some y"
  obtains x where "m = Some x" and "f x = Some y"
  using assms by (cases m) auto

subsection \<open>Doubly linked lists\<close>

text \<open>
  \<open>dlseg prv nxt q p bs q' p'\<close>: following \<open>nxt\<close> from \<open>p\<close> one meets the nodes \<open>bs\<close> and then \<open>p'\<close>;
  the \<open>prv\<close> pointers run back to \<open>q\<close>, and \<open>q'\<close> is the last node (\<open>q\<close> when there is none).
\<close>

fun dlseg :: "(ptr \<Rightarrow> ptr) \<Rightarrow> (ptr \<Rightarrow> ptr) \<Rightarrow> ptr \<Rightarrow> ptr \<Rightarrow> ptr list \<Rightarrow> ptr \<Rightarrow> ptr \<Rightarrow> bool" where
  "dlseg prv nxt q p [] q' p' \<longleftrightarrow> q' = q \<and> p' = p"
| "dlseg prv nxt q p (b # bs) q' p' \<longleftrightarrow>
     p = b \<and> b \<noteq> NULL \<and> prv b = q \<and> dlseg prv nxt b (nxt b) bs q' p'"

lemma dlseg_append:
  "dlseg prv nxt q p (xs @ ys) q' p' \<longleftrightarrow>
    (\<exists>q1 p1. dlseg prv nxt q p xs q1 p1 \<and> dlseg prv nxt q1 p1 ys q' p')"
  by (induction xs arbitrary: q p) auto

lemma dlseg_cong:
  "(\<And>b. b \<in> set bs \<Longrightarrow> prv b = prv' b \<and> nxt b = nxt' b) \<Longrightarrow>
    dlseg prv nxt q p bs q' p' = dlseg prv' nxt' q p bs q' p'"
  by (induction bs arbitrary: q p) auto

lemma dlseg_last: "dlseg prv nxt q p bs q' p' \<Longrightarrow> q' = (if bs = [] then q else last bs)"
  by (induction bs arbitrary: q p) auto

lemma dlseg_first: "dlseg prv nxt q p bs q' p' \<Longrightarrow> p = (if bs = [] then p' else hd bs)"
  by (cases bs) auto

lemma dlseg_NULL: "dlseg prv nxt q p bs q' p' \<Longrightarrow> NULL \<notin> set bs"
  by (induction bs arbitrary: q p) auto

lemma dlseg_unique:
  "dlseg prv nxt q p xs q1 NULL \<Longrightarrow> dlseg prv nxt q p ys q2 NULL \<Longrightarrow> xs = ys"
proof (induction xs arbitrary: q p ys)
  case Nil
  then show ?case by (cases ys) auto
next
  case (Cons x xs)
  then show ?case by (cases ys) auto
qed

text \<open>Redirecting the end of a segment, and its beginning.\<close>

lemma dlseg_set_next:
  assumes "dlseg prv nxt q p (bs @ [b]) q' p'" and "distinct (bs @ [b])"
    and "\<And>c. prv' c = prv c" and "\<And>c. c \<noteq> b \<Longrightarrow> nxt' c = nxt c" and "nxt' b = n"
  shows "dlseg prv' nxt' q p (bs @ [b]) b n"
proof -
  have "dlseg prv' nxt' q p bs q1 p1 = dlseg prv nxt q p bs q1 p1" for q1 p1
  proof (rule dlseg_cong)
    fix c assume "c \<in> set bs"
    then have "c \<noteq> b" using assms(2) by auto
    then show "prv' c = prv c \<and> nxt' c = nxt c" using assms(3,4) by simp
  qed
  then show ?thesis using assms by (auto simp: dlseg_append)
qed

lemma dlseg_set_prev:
  assumes "dlseg prv nxt q p (b # bs) q' p'" and "distinct (b # bs)"
    and "\<And>c. c \<noteq> b \<Longrightarrow> prv' c = prv c" and "\<And>c. nxt' c = nxt c" and "prv' b = n"
  shows "dlseg prv' nxt' n p (b # bs) q' p'"
proof -
  have "dlseg prv' nxt' b q1 bs q' p' = dlseg prv nxt b q1 bs q' p'" for q1
  proof (rule dlseg_cong)
    fix c assume "c \<in> set bs"
    then have "c \<noteq> b" using assms(2) by auto
    then show "prv' c = prv c \<and> nxt' c = nxt c" using assms(3,4) by simp
  qed
  then show ?thesis using assms by auto
qed

end
