(* ===== verification/C4_Bitmap.thy ===== *)
theory C4_Bitmap
  imports C4_Prelude
begin

text \<open>
  The bitmap of \<^verbatim>\<open>include/c4/klib/bitmap.h\<close>: an array of 32-bit sections, one bit per item.
  The four inline functions are modelled as written, on the array as a list of words; an
  access outside the array is \<open>None\<close>. The abstraction \<open>bits\<close> is the set of items whose bit is
  set, and the lemmas state each function over it.
\<close>

type_synonym bitmap_ent_t = u32
type_synonym bitmap = "bitmap_ent_t list"

definition BITMAP_BPS :: u32 where "BITMAP_BPS = 32"
definition BITMAP_ENT_FULL :: bitmap_ent_t where "BITMAP_ENT_FULL = 0xffffffff"

definition bitmap_get :: "bitmap \<Rightarrow> u32 \<Rightarrow> bool option" where
  "bitmap_get bitmap i =
     (let bitindex = unat (i div BITMAP_BPS);
          offset = unat (i mod BITMAP_BPS)
      in if bitindex < length bitmap
         then Some (drop_bit offset (bitmap ! bitindex) AND 1 \<noteq> 0)
         else None)"

definition bitmap_set :: "bitmap \<Rightarrow> u32 \<Rightarrow> bitmap option" where
  "bitmap_set bitmap i =
     (let bitindex = unat (i div BITMAP_BPS);
          offset = unat (i mod BITMAP_BPS)
      in if bitindex < length bitmap
         then let bitvalue = bitmap ! bitindex
              in Some (bitmap[bitindex := bitvalue OR push_bit offset 1])
         else None)"

definition bitmap_unset :: "bitmap \<Rightarrow> u32 \<Rightarrow> bitmap option" where
  "bitmap_unset bitmap i =
     (let bitindex = unat (i div BITMAP_BPS);
          offset = unat (i mod BITMAP_BPS)
      in if bitindex < length bitmap
         then let bitvalue = bitmap ! bitindex
              in Some (bitmap[bitindex := bitvalue AND NOT (push_bit offset 1)])
         else None)"

text \<open>The loop of \<^verbatim>\<open>bitmap_first_free\<close> from index \<open>i\<close> on; \<^verbatim>\<open>-1\<close> is the word of all ones.\<close>

function bitmap_first_free_from :: "bitmap \<Rightarrow> u32 \<Rightarrow> u32 \<Rightarrow> u32 option" where
  "bitmap_first_free_from bitmap i limit =
     (if i < limit
      then (case bitmap_get bitmap i of
              None \<Rightarrow> None
            | Some b \<Rightarrow> if b = False then Some i
                        else bitmap_first_free_from bitmap (i + 1) limit)
      else Some (-1))"
  by pat_completeness auto
termination
  by (relation "measure (\<lambda>(bitmap, i, limit). unat limit - unat i)")
     (auto simp: unat_Suc_u32 word_less_nat_alt)

declare bitmap_first_free_from.simps [simp del]

definition bitmap_first_free :: "bitmap \<Rightarrow> u32 \<Rightarrow> u32 option" where
  "bitmap_first_free bitmap limit = bitmap_first_free_from bitmap 0 limit"

subsection \<open>The set of items in use\<close>

definition bits :: "bitmap \<Rightarrow> nat set" where
  "bits bm = {n. n < 32 * length bm \<and> bit (bm ! (n div 32)) (n mod 32)}"

lemma finite_bits [simp]: "finite (bits bm)"
  by (rule finite_subset [of _ "{..< 32 * length bm}"]) (auto simp: bits_def)

lemma unat_div_BPS: "unat (i div BITMAP_BPS) = unat i div 32"
  by (simp add: BITMAP_BPS_def unat_div)

lemma unat_mod_BPS: "unat (i mod BITMAP_BPS) = unat i mod 32"
  by (simp add: BITMAP_BPS_def unat_mod)

lemma div_32_less_iff: "n div 32 < (l :: nat) \<longleftrightarrow> n < 32 * l"
  by auto

lemma drop_bit_and_1: "drop_bit n w AND 1 \<noteq> (0 :: 'a :: len word) \<longleftrightarrow> bit w n"
  by (simp add: and_one_eq bit_iff_odd_drop_bit mod2_eq_if)

lemmas bitmap_nat = unat_div_BPS unat_mod_BPS div_32_less_iff Let_def

lemma bitmap_get_eq:
  "bitmap_get bm i = (if unat i < 32 * length bm then Some (unat i \<in> bits bm) else None)"
  by (simp add: bitmap_get_def bitmap_nat drop_bit_and_1 bits_def)

lemma bitmap_set_None: "bitmap_set bm i = None \<longleftrightarrow> 32 * length bm \<le> unat i"
  by (auto simp: bitmap_set_def bitmap_nat)

lemma bitmap_unset_None: "bitmap_unset bm i = None \<longleftrightarrow> 32 * length bm \<le> unat i"
  by (auto simp: bitmap_unset_def bitmap_nat)

lemma div_mod_32_eq_iff: "m div 32 = n div 32 \<and> m mod 32 = n mod 32 \<longleftrightarrow> m = (n :: nat)"
  by (metis div_mult_mod_eq)

lemma bitmap_setD:
  assumes "bitmap_set bm i = Some bm'"
  shows "length bm' = length bm" and "bits bm' = insert (unat i) (bits bm)"
proof -
  from assms have i: "unat i < 32 * length bm"
    and bm': "bm' = bm[unat i div 32 := bm ! (unat i div 32) OR push_bit (unat i mod 32) 1]"
    by (auto simp: bitmap_set_def bitmap_nat split: if_splits)
  show "length bm' = length bm" by (simp add: bm')
  have *: "bit (bm' ! (n div 32)) (n mod 32) \<longleftrightarrow> n = unat i \<or> bit (bm ! (n div 32)) (n mod 32)"
    if "n < 32 * length bm" for n
    using that i div_mod_32_eq_iff [of n "unat i"]
    by (auto simp: bm' nth_list_update bit_simps div_32_less_iff)
  then show "bits bm' = insert (unat i) (bits bm)"
    using i by (auto simp: bits_def bm')
qed

lemma bitmap_unsetD:
  assumes "bitmap_unset bm i = Some bm'"
  shows "length bm' = length bm" and "bits bm' = bits bm - {unat i}"
proof -
  from assms have i: "unat i < 32 * length bm"
    and bm': "bm' = bm[unat i div 32 := bm ! (unat i div 32) AND NOT (push_bit (unat i mod 32) 1)]"
    by (auto simp: bitmap_unset_def bitmap_nat split: if_splits)
  show "length bm' = length bm" by (simp add: bm')
  have *: "bit (bm' ! (n div 32)) (n mod 32) \<longleftrightarrow> n \<noteq> unat i \<and> bit (bm ! (n div 32)) (n mod 32)"
    if "n < 32 * length bm" for n
    using that i div_mod_32_eq_iff [of n "unat i"]
    by (auto simp: bm' nth_list_update bit_simps div_32_less_iff)
  then show "bits bm' = bits bm - {unat i}"
    using i by (auto simp: bits_def bm')
qed

lemma bitmap_set_Some: "unat i < 32 * length bm \<Longrightarrow> \<exists>bm'. bitmap_set bm i = Some bm'"
  using bitmap_set_None [of bm i] by (cases "bitmap_set bm i") auto

lemma bitmap_unset_Some: "unat i < 32 * length bm \<Longrightarrow> \<exists>bm'. bitmap_unset bm i = Some bm'"
  using bitmap_unset_None [of bm i] by (cases "bitmap_unset bm i") auto

text \<open>
  \<^verbatim>\<open>bitmap_first_free\<close> on an array that covers the limit: it returns the least free index, or
  \<^verbatim>\<open>-1\<close> when every index below the limit is taken.
\<close>

lemma bitmap_first_free_from_eq:
  assumes "unat limit \<le> 32 * length bm" and "unat i \<le> unat limit"
  shows "bitmap_first_free_from bm i limit =
    (if {unat i ..< unat limit} \<subseteq> bits bm then Some (-1)
     else Some (of_nat (LEAST n. unat i \<le> n \<and> n \<notin> bits bm)))"
  using assms
proof (induction bm i limit rule: bitmap_first_free_from.induct)
  case (1 bm i limit)
  show ?case
  proof (cases "i < limit")
    case False
    with "1.prems" have "unat i = unat limit" by (simp add: u32_nat)
    then show ?thesis using False by (simp add: bitmap_first_free_from.simps)
  next
    case True
    then have get: "bitmap_get bm i = Some (unat i \<in> bits bm)"
      using "1.prems" by (simp add: bitmap_get_eq word_less_nat_alt)
    have suc: "unat (i + 1) = Suc (unat i)" using True by (rule unat_Suc_u32)
    have ivl: "{unat i ..< unat limit} = insert (unat i) {Suc (unat i) ..< unat limit}"
      using True by (auto simp: word_less_nat_alt)
    show ?thesis
    proof (cases "unat i \<in> bits bm")
      case False
      then have "(LEAST n. unat i \<le> n \<and> n \<notin> bits bm) = unat i"
        by (intro Least_equality) auto
      then show ?thesis
        using True get False by (simp add: bitmap_first_free_from.simps [of bm i] ivl)
    next
      case used: True
      have "(\<lambda>n. Suc (unat i) \<le> n \<and> n \<notin> bits bm) = (\<lambda>n. unat i \<le> n \<and> n \<notin> bits bm)"
        using used by (auto simp: fun_eq_iff Suc_le_eq order.order_iff_strict)
      moreover have "unat (i + 1) \<le> unat limit"
        using True suc by (simp add: word_less_nat_alt)
      ultimately show ?thesis
        using "1.IH" [OF True get] "1.prems" True get used suc ivl
        by (simp add: bitmap_first_free_from.simps [of bm i])
    qed
  qed
qed

lemma bitmap_first_free_eq:
  assumes "unat limit \<le> 32 * length bm"
  shows "bitmap_first_free bm limit =
    (if {..< unat limit} \<subseteq> bits bm then Some (-1)
     else Some (of_nat (LEAST n. n \<notin> bits bm)))"
  using bitmap_first_free_from_eq [of limit bm 0] assms
  by (simp add: bitmap_first_free_def lessThan_atLeast0)

lemma Least_free_less:
  fixes S :: "nat set"
  assumes "\<not> {..< m} \<subseteq> S"
  shows "(LEAST n. n \<notin> S) < m" and "(LEAST n. n \<notin> S) \<notin> S"
    and "k < (LEAST n. n \<notin> S) \<Longrightarrow> k \<in> S"
proof -
  from assms obtain n where n: "n < m" "n \<notin> S" by auto
  show "(LEAST n. n \<notin> S) < m" using Least_le [of "\<lambda>n. n \<notin> S" n] n by simp
  show "(LEAST n. n \<notin> S) \<notin> S" using n(2) by (rule LeastI)
  show "k \<in> S" if "k < (LEAST n. n \<notin> S)" using not_less_Least [OF that] by simp
qed

lemma bitmap_first_free_cases:
  assumes "unat limit \<le> 32 * length bm"
  obtains (full) "bitmap_first_free bm limit = Some (-1)" and "{..< unat limit} \<subseteq> bits bm"
  | (free) i where "bitmap_first_free bm limit = Some i" and "unat i < unat limit"
      and "unat i \<notin> bits bm" and "{..< unat i} \<subseteq> bits bm"
proof (cases "{..< unat limit} \<subseteq> bits bm")
  case True
  then show thesis using full bitmap_first_free_eq [OF assms] by simp
next
  case False
  let ?n = "LEAST n. n \<notin> bits bm"
  note least = Least_free_less [OF False]
  have "unat (of_nat ?n :: u32) = ?n"
    using least(1) unat_u32_less [of limit] by (intro unat_of_nat_u32) linarith
  moreover have "{..< ?n} \<subseteq> bits bm"
    by (rule subsetI, drule lessThan_iff [THEN iffD1], erule least(3))
  ultimately show thesis
    using free [of "of_nat ?n"] bitmap_first_free_eq [OF assms] False least(1,2) by simp
qed

text \<open>
  On a bitmap that covers \<open>limit\<close> items, \<^verbatim>\<open>bitmap_first_free\<close> returns the least index
  below the limit whose bit is clear, and \<^verbatim>\<open>-1\<close> exactly when all of them are set; marking
  that index with \<^verbatim>\<open>bitmap_set\<close> and clearing it again with \<^verbatim>\<open>bitmap_unset\<close> gives back the
  same set of used items.
\<close>

theorem bitmap_first_free_least:
  assumes "unat limit \<le> 32 * length bm"
  shows "\<exists>i. bitmap_first_free bm limit = Some i \<and>
    (if {..< unat limit} \<subseteq> bits bm then i = -1
     else unat i < unat limit \<and> unat i \<notin> bits bm \<and> {..< unat i} \<subseteq> bits bm \<and>
       (\<exists>bm1 bm2. bitmap_set bm i = Some bm1 \<and> bits bm1 = insert (unat i) (bits bm) \<and>
          bitmap_unset bm1 i = Some bm2 \<and> bits bm2 = bits bm))"
  using assms
proof (cases rule: bitmap_first_free_cases)
  case full
  then show ?thesis by simp
next
  case (free i)
  then have lt: "unat i < 32 * length bm" using assms by simp
  from bitmap_set_Some [OF lt] obtain bm1 where 1: "bitmap_set bm i = Some bm1" by blast
  note b1 = bitmap_setD [OF 1]
  from bitmap_unset_Some [of i bm1] lt b1 obtain bm2 where 2: "bitmap_unset bm1 i = Some bm2" by auto
  have "bits bm2 = bits bm" using bitmap_unsetD(2) [OF 2] b1(2) free(3) by auto
  then show ?thesis using free 1 2 b1 by auto
qed

text \<open>An instance on two sections of which the first is full.\<close>

theorem bitmap_first_free_least_witness:
  "\<exists>i. bitmap_first_free [BITMAP_ENT_FULL, 1] 40 = Some i \<and> unat i \<notin> bits [BITMAP_ENT_FULL, 1] \<and>
    {..< unat i} \<subseteq> bits [BITMAP_ENT_FULL, 1]"
proof -
  have "39 \<notin> bits [BITMAP_ENT_FULL, 1]"
    by (simp add: bits_def)
  then have "\<not> {..< unat (40 :: u32)} \<subseteq> bits [BITMAP_ENT_FULL, 1]"
    using subsetD [of "{..< 40 :: nat}" _ 39] by auto
  with bitmap_first_free_least [of 40 "[BITMAP_ENT_FULL, 1]"] show ?thesis by auto
qed

end
