(* ===== verification/C4_Region.thy ===== *)
theory C4_Region
  imports C4_Bitmap
begin

text \<open>
  The page region allocator of \<^verbatim>\<open>src/mm/region.c\<close>: a region is a run of pages with a bitmap of
  the pages in use. In \<^verbatim>\<open>REGION_MODE_VIRTUAL\<close> an allocation also maps the page and a release
  unmaps it; \<^verbatim>\<open>map_page\<close> and \<^verbatim>\<open>unmap_page\<close> (\<^verbatim>\<open>arch/x86/paging.c\<close>) allocate in turn from the
  physical region, so they are arguments here, over a paging state of any type, and are
  supplied by the paging component.

  The locale \<open>allocator\<close> states what every client of an allocator relies on (pages here,
  slab objects later), and the region allocator is interpreted in it.
\<close>

definition REGION_MODE_VIRTUAL :: u32 where [c4_enum]: "REGION_MODE_VIRTUAL = 0"
definition REGION_MODE_PHYSICAL :: u32 where [c4_enum]: "REGION_MODE_PHYSICAL = 1"

text \<open>\<^verbatim>\<open>region_t\<close>; the array its \<^verbatim>\<open>bitmap\<close> field points to is owned by the region alone, and
  the field holds its contents.\<close>

record region_t =
  r_bitmap :: bitmap
  r_vaddress :: ptr
  r_num_pages :: u32
  r_available :: u32
  r_page_flags :: u32
  r_mode :: u32

type_synonym 'p map_page_fn = "u32 \<Rightarrow> ptr \<Rightarrow> 'p \<Rightarrow> 'p option"
type_synonym 'p unmap_page_fn = "ptr \<Rightarrow> 'p \<Rightarrow> 'p option"

definition region_alloc ::
  "'p map_page_fn \<Rightarrow> region_t \<Rightarrow> 'p \<Rightarrow> (ptr \<times> region_t \<times> 'p) option" where
  "region_alloc map_page region p =
     (if r_available region = 0 then Some (NULL, region, p)
      else do {
        n \<leftarrow> bitmap_first_free (r_bitmap region) (r_num_pages region);
        let addr = r_vaddress region + n * PAGE_SIZE;
        bm \<leftarrow> bitmap_set (r_bitmap region) n;
        let region' = region\<lparr>r_bitmap := bm, r_available := r_available region - 1\<rparr>;
        p' \<leftarrow> (if r_mode region = REGION_MODE_VIRTUAL
               then map_page (r_page_flags region) addr p else Some p);
        Some (addr, region', p')
      })"

definition region_free ::
  "'p unmap_page_fn \<Rightarrow> region_t \<Rightarrow> ptr \<Rightarrow> 'p \<Rightarrow> (region_t \<times> 'p) option" where
  "region_free unmap_page region page p =
     (let n = (page - r_vaddress region) div PAGE_SIZE
      in do {
        p' \<leftarrow> (if r_mode region = REGION_MODE_VIRTUAL then unmap_page page p else Some p);
        bm \<leftarrow> bitmap_unset (r_bitmap region) n;
        Some (region\<lparr>r_bitmap := bm, r_available := r_available region + 1\<rparr>, p')
      })"

text \<open>The loop of \<^verbatim>\<open>region_init_at\<close> that clears the bitmap.\<close>

function region_clear_from :: "bitmap \<Rightarrow> u32 \<Rightarrow> u32 \<Rightarrow> bitmap option" where
  "region_clear_from bitmap i num_pages =
     (if i < num_pages
      then (case bitmap_unset bitmap i of
              None \<Rightarrow> None
            | Some bm \<Rightarrow> region_clear_from bm (i + 1) num_pages)
      else Some bitmap)"
  by pat_completeness auto
termination
  by (relation "measure (\<lambda>(bitmap, i, n). unat n - unat i)")
     (auto simp: unat_Suc_u32 word_less_nat_alt)

declare region_clear_from.simps [simp del]

definition region_init_at ::
  "ptr \<Rightarrow> bitmap \<Rightarrow> u32 \<Rightarrow> u32 \<Rightarrow> u32 \<Rightarrow> region_t option" where
  "region_init_at vaddress bitmap num_pages page_flags mode = do {
     bm \<leftarrow> region_clear_from bitmap 0 num_pages;
     Some \<lparr>r_bitmap = bm, r_vaddress = vaddress, r_num_pages = num_pages,
           r_available = num_pages, r_page_flags = page_flags, r_mode = mode\<rparr>
   }"

subsection \<open>The allocator interface\<close>

text \<open>
  What a client relies on: an allocation returns \<^verbatim>\<open>NULL\<close> and changes nothing that is live, or
  returns an address that was not live and is live afterwards; a release of a live address
  makes it available again. \<open>inv\<close> is the allocator's invariant, \<open>live\<close> the addresses handed
  out.
\<close>

locale allocator =
  fixes inv :: "'s \<Rightarrow> bool"
    and alloc :: "'s \<Rightarrow> (ptr \<times> 's) option"
    and release :: "ptr \<Rightarrow> 's \<Rightarrow> 's option"
    and live :: "'s \<Rightarrow> ptr set"
  assumes null_not_live: "inv s \<Longrightarrow> NULL \<notin> live s"
    and alloc_inv: "inv s \<Longrightarrow> alloc s = Some (a, s') \<Longrightarrow> inv s'"
    and alloc_null: "inv s \<Longrightarrow> alloc s = Some (NULL, s') \<Longrightarrow> live s' = live s"
    and alloc_live: "inv s \<Longrightarrow> alloc s = Some (a, s') \<Longrightarrow> a \<noteq> NULL \<Longrightarrow>
      a \<notin> live s \<and> live s' = insert a (live s)"
    and release_inv: "inv s \<Longrightarrow> a \<in> live s \<Longrightarrow> release a s = Some s' \<Longrightarrow> inv s'"
    and release_live: "inv s \<Longrightarrow> a \<in> live s \<Longrightarrow> release a s = Some s' \<Longrightarrow> live s' = live s - {a}"
begin

text \<open>Any number of allocations in a row: the addresses are distinct and fresh.\<close>

fun alloc_many :: "nat \<Rightarrow> 's \<Rightarrow> (ptr list \<times> 's) option" where
  "alloc_many 0 s = Some ([], s)"
| "alloc_many (Suc n) s = do {
     (a, s1) \<leftarrow> alloc s;
     (as, s2) \<leftarrow> alloc_many n s1;
     Some (a # as, s2)
   }"

lemma alloc_many_inv: "inv s \<Longrightarrow> alloc_many n s = Some (as, s') \<Longrightarrow> inv s'"
proof (induction n arbitrary: s as)
  case 0
  then show ?case by simp
next
  case (Suc n)
  from Suc.prems(2) obtain a s1 as2 where "alloc s = Some (a, s1)"
    and "alloc_many n s1 = Some (as2, s')"
    by (auto elim!: bind_eq_SomeE)
  with Suc.prems(1) show ?case by (blast intro: alloc_inv Suc.IH)
qed

lemma alloc_many_distinct:
  assumes "inv s" and "alloc_many n s = Some (as, s')" and "NULL \<notin> set as"
  shows "distinct as \<and> set as \<inter> live s = {} \<and> live s' = live s \<union> set as"
  using assms
proof (induction n arbitrary: s as)
  case 0
  then show ?case by simp
next
  case (Suc n)
  from Suc.prems(2) obtain a s1 as2 where a: "alloc s = Some (a, s1)"
    and as2: "alloc_many n s1 = Some (as2, s')" and as: "as = a # as2"
    by (auto elim!: bind_eq_SomeE)
  from Suc.prems(3) as have nn: "a \<noteq> NULL" "NULL \<notin> set as2" by auto
  have s1: "inv s1" "a \<notin> live s" "live s1 = insert a (live s)"
    using alloc_inv [OF Suc.prems(1) a] alloc_live [OF Suc.prems(1) a nn(1)] by auto
  from Suc.IH [OF s1(1) as2 nn(2)] s1 as show ?case by auto
qed

lemma release_alloc_live:
  assumes "inv s" and "alloc s = Some (a, s1)" and "a \<noteq> NULL" and "release a s1 = Some s2"
  shows "inv s2 \<and> live s2 = live s"
proof -
  from alloc_live [OF assms(1-3)] have l: "a \<notin> live s" "live s1 = insert a (live s)" by auto
  have "inv s1" using assms(1,2) by (rule alloc_inv)
  then show ?thesis
    using release_inv [OF _ _ assms(4)] release_live [OF _ _ assms(4)] l by auto
qed

end

subsection \<open>The region's invariant\<close>

definition page_addr :: "region_t \<Rightarrow> nat \<Rightarrow> ptr" where
  "page_addr r n = r_vaddress r + of_nat n * PAGE_SIZE"

text \<open>
  The bitmap covers the region, \<^verbatim>\<open>available\<close> counts the clear bits, and the pages lie between
  a page-aligned non-zero base and the top of the address space.
\<close>

definition region_inv :: "region_t \<Rightarrow> bool" where
  "region_inv r \<longleftrightarrow>
     unat (r_num_pages r) \<le> 32 * length (r_bitmap r) \<and>
     unat (r_available r) = card ({..< unat (r_num_pages r)} - bits (r_bitmap r)) \<and>
     unat (r_vaddress r) mod 4096 = 0 \<and> r_vaddress r \<noteq> 0 \<and>
     unat (r_vaddress r) + 4096 * unat (r_num_pages r) \<le> 2 ^ 32"

definition region_live :: "region_t \<Rightarrow> ptr set" where
  "region_live r = page_addr r ` {n \<in> bits (r_bitmap r). n < unat (r_num_pages r)}"

lemma unat_page_addr:
  assumes "region_inv r" and "n < unat (r_num_pages r)"
  shows "unat (page_addr r n) = unat (r_vaddress r) + 4096 * n"
proof -
  from assms have n: "unat (r_vaddress r) + 4096 * n < 4294967296"
    by (auto simp: region_inv_def)
  then have "unat (of_nat n * PAGE_SIZE) = n * 4096"
    using unat_mult_u32 [of "of_nat n" PAGE_SIZE]
    by (simp add: unat_of_nat_u32 PAGE_SIZE_def)
  then show ?thesis
    using n unat_add_u32 [of "r_vaddress r" "of_nat n * PAGE_SIZE"]
    by (simp add: page_addr_def)
qed

lemma page_addr_inj:
  assumes "region_inv r" and "m < unat (r_num_pages r)" and "n < unat (r_num_pages r)"
    and "page_addr r m = page_addr r n"
  shows "m = n"
proof -
  have "unat (r_vaddress r) + 4096 * m = unat (page_addr r m)"
    using assms(1,2) by (rule unat_page_addr [symmetric])
  also have "\<dots> = unat (r_vaddress r) + 4096 * n"
    unfolding assms(4) using assms(1,3) by (rule unat_page_addr)
  finally show ?thesis by simp
qed

lemma page_addr_nonnull:
  assumes "region_inv r" and "n < unat (r_num_pages r)"
  shows "page_addr r n \<noteq> NULL"
proof
  assume "page_addr r n = NULL"
  then have "unat (r_vaddress r) + 4096 * n = 0"
    using unat_page_addr [OF assms] by simp
  then have "r_vaddress r = 0" by (simp add: unat_eq_zero)
  with assms(1) show False by (simp add: region_inv_def)
qed

lemma page_addr_aligned: "region_inv r \<Longrightarrow> n < unat (r_num_pages r) \<Longrightarrow>
    unat (page_addr r n) mod 4096 = 0"
  by (simp add: unat_page_addr) (simp add: region_inv_def)

text \<open>The index that \<^verbatim>\<open>region_free\<close> computes: flag bits in the low twelve bits do not matter.\<close>

lemma page_index:
  assumes "region_inv r" and "n < unat (r_num_pages r)" and "unat k < 4096"
  shows "(page_addr r n + k - r_vaddress r) div PAGE_SIZE = of_nat n"
proof -
  have eq: "page_addr r n + k - r_vaddress r = of_nat n * PAGE_SIZE + k"
    by (simp add: page_addr_def)
  from assms have n: "4096 * n + unat k < 4294967296" by (auto simp: region_inv_def)
  then have m: "unat (of_nat n * PAGE_SIZE) = n * 4096"
    using unat_mult_u32 [of "of_nat n" PAGE_SIZE]
    by (simp add: unat_of_nat_u32 PAGE_SIZE_def)
  then have "unat (of_nat n * PAGE_SIZE + k) = n * 4096 + unat k"
    using n unat_add_u32 [of "of_nat n * PAGE_SIZE" k] by simp
  then have "unat ((of_nat n * PAGE_SIZE + k) div PAGE_SIZE) = n"
    using assms(3) by (simp add: unat_div PAGE_SIZE_def)
  then have "unat ((page_addr r n + k - r_vaddress r) div PAGE_SIZE) = n"
    by (simp only: eq)
  then show ?thesis
    using n by (intro word_unat_eq_iff [THEN iffD2]) (simp add: unat_of_nat_u32)
qed

lemma page_index_0:
  "region_inv r \<Longrightarrow> n < unat (r_num_pages r) \<Longrightarrow>
    (page_addr r n - r_vaddress r) div PAGE_SIZE = of_nat n"
  using page_index [of r n 0] by simp

subsection \<open>Allocation\<close>

lemma card_free_insert:
  assumes "n < m" and "n \<notin> S"
  shows "card ({..< m :: nat} - insert n S) = card ({..< m} - S) - 1"
proof -
  have "{..< m} - insert n S = ({..< m} - S) - {n}" by auto
  then show ?thesis using assms by (simp add: card_Diff_singleton)
qed

lemma card_free_remove:
  assumes "n < m" and "n \<in> S"
  shows "card ({..< m :: nat} - (S - {n})) = Suc (card ({..< m} - S))"
proof -
  have "{..< m} - (S - {n}) = insert n ({..< m} - S)" using assms by auto
  then show ?thesis using assms by simp
qed

lemma region_available_0_iff:
  "region_inv r \<Longrightarrow> r_available r = 0 \<longleftrightarrow> {..< unat (r_num_pages r)} \<subseteq> bits (r_bitmap r)"
proof -
  assume inv: "region_inv r"
  have "r_available r = 0 \<longleftrightarrow> card ({..< unat (r_num_pages r)} - bits (r_bitmap r)) = 0"
    using inv by (simp add: region_inv_def flip: unat_eq_0)
  then show ?thesis by auto
qed

lemma unat_pred_u32: "a \<noteq> 0 \<Longrightarrow> unat (a - 1 :: u32) = unat a - 1"
  by (simp add: unat_minus_one)

text \<open>
  The steps before the page is mapped: with a free page the first free index is found, its
  bit is set and the invariant holds again.
\<close>

lemma region_take:
  assumes inv: "region_inv r" and av: "r_available r \<noteq> 0"
  obtains n bm where "n < unat (r_num_pages r)" and "n \<notin> bits (r_bitmap r)"
    and "{..< n} \<subseteq> bits (r_bitmap r)"
    and "bitmap_first_free (r_bitmap r) (r_num_pages r) = Some (of_nat n)"
    and "bitmap_set (r_bitmap r) (of_nat n) = Some bm"
    and "bits bm = insert n (bits (r_bitmap r))"
    and "region_inv (r\<lparr>r_bitmap := bm, r_available := r_available r - 1\<rparr>)"
proof -
  from inv have cover: "unat (r_num_pages r) \<le> 32 * length (r_bitmap r)"
    by (simp add: region_inv_def)
  from av inv have nfull: "\<not> {..< unat (r_num_pages r)} \<subseteq> bits (r_bitmap r)"
    by (simp add: region_available_0_iff)
  from cover show thesis
  proof (cases rule: bitmap_first_free_cases)
    case full
    with nfull show thesis by simp
  next
    case (free i)
    then obtain bm where bm: "bitmap_set (r_bitmap r) i = Some bm"
      using cover bitmap_set_Some [of i "r_bitmap r"] by auto
    note bits = bitmap_setD [OF bm]
    have "region_inv (r\<lparr>r_bitmap := bm, r_available := r_available r - 1\<rparr>)"
      using inv free(2,3) bits av
      by (simp add: region_inv_def card_free_insert unat_pred_u32)
    then show thesis using that [of "unat i" bm] free bm bits by simp
  qed
qed

lemma region_alloc_full [simp]:
  "r_available r = 0 \<Longrightarrow> region_alloc mp r p = Some (NULL, r, p)"
  by (simp add: region_alloc_def)

text \<open>A region with a free page: the exact result of \<^verbatim>\<open>region_alloc\<close>.\<close>

lemma region_alloc_eq:
  assumes "r_available r \<noteq> 0"
    and "bitmap_first_free (r_bitmap r) (r_num_pages r) = Some (of_nat n)"
    and "bitmap_set (r_bitmap r) (of_nat n) = Some bm"
  shows "region_alloc mp r p =
      (if r_mode r = REGION_MODE_VIRTUAL
       then map_option (\<lambda>p'. (page_addr r n,
              r\<lparr>r_bitmap := bm, r_available := r_available r - 1\<rparr>, p'))
              (mp (r_page_flags r) (page_addr r n) p)
       else Some (page_addr r n, r\<lparr>r_bitmap := bm, r_available := r_available r - 1\<rparr>, p))"
  using assms
  by (cases "mp (r_page_flags r) (page_addr r n) p")
     (simp_all add: region_alloc_def page_addr_def)

lemma page_addr_upd [simp]:
  "page_addr (r\<lparr>r_bitmap := bm, r_available := a\<rparr>) n = page_addr r n"
  by (simp add: page_addr_def)

lemma region_live_insert:
  assumes "region_inv r" and "n < unat (r_num_pages r)" and "n \<notin> bits (r_bitmap r)"
    and "bits bm = insert n (bits (r_bitmap r))"
  shows "region_live (r\<lparr>r_bitmap := bm, r_available := a\<rparr>) =
      insert (page_addr r n) (region_live r)"
    and "page_addr r n \<notin> region_live r"
proof -
  show "region_live (r\<lparr>r_bitmap := bm, r_available := a\<rparr>) =
      insert (page_addr r n) (region_live r)"
    using assms(2,4) by (auto simp: region_live_def)
  show "page_addr r n \<notin> region_live r"
    using assms(1-3) by (auto simp: region_live_def dest: page_addr_inj)
qed

text \<open>Inversion of a successful allocation, in either mode.\<close>

lemma region_alloc_SomeD:
  assumes inv: "region_inv r" and res: "region_alloc mp r p = Some (a, r', p')"
  shows "region_inv r'"
    and "r_vaddress r' = r_vaddress r" and "r_num_pages r' = r_num_pages r"
    and "r_mode r' = r_mode r" and "r_page_flags r' = r_page_flags r"
    and "a = NULL \<Longrightarrow> r' = r \<and> p' = p \<and> r_available r = 0"
    and "a \<noteq> NULL \<Longrightarrow> a \<notin> region_live r \<and> region_live r' = insert a (region_live r) \<and>
      r_available r \<noteq> 0 \<and> (\<exists>n < unat (r_num_pages r). a = page_addr r n)"
proof -
  have "region_inv r' \<and> r_vaddress r' = r_vaddress r \<and> r_num_pages r' = r_num_pages r \<and>
    r_mode r' = r_mode r \<and> r_page_flags r' = r_page_flags r \<and>
    (a = NULL \<longrightarrow> r' = r \<and> p' = p \<and> r_available r = 0) \<and>
    (a \<noteq> NULL \<longrightarrow> a \<notin> region_live r \<and> region_live r' = insert a (region_live r) \<and>
      r_available r \<noteq> 0 \<and> (\<exists>n < unat (r_num_pages r). a = page_addr r n))"
  proof (cases "r_available r = 0")
    case True
    with res inv show ?thesis by simp
  next
    case False
    from inv False obtain n bm where n: "n < unat (r_num_pages r)" "n \<notin> bits (r_bitmap r)"
      and ff: "bitmap_first_free (r_bitmap r) (r_num_pages r) = Some (of_nat n)"
      and bm: "bitmap_set (r_bitmap r) (of_nat n) = Some bm"
      and bits: "bits bm = insert n (bits (r_bitmap r))"
      and inv': "region_inv (r\<lparr>r_bitmap := bm, r_available := r_available r - 1\<rparr>)"
      by (rule region_take)
    from res region_alloc_eq [OF False ff bm, of mp p]
    have a: "a = page_addr r n" and r': "r' = r\<lparr>r_bitmap := bm, r_available := r_available r - 1\<rparr>"
      by (auto split: if_splits)
    show ?thesis
      using a r' inv' n False page_addr_nonnull [OF inv n(1)]
        region_live_insert [OF inv n bits]
      by auto
  qed
  then show "region_inv r'"
    and "r_vaddress r' = r_vaddress r" and "r_num_pages r' = r_num_pages r"
    and "r_mode r' = r_mode r" and "r_page_flags r' = r_page_flags r"
    and "a = NULL \<Longrightarrow> r' = r \<and> p' = p \<and> r_available r = 0"
    and "a \<noteq> NULL \<Longrightarrow> a \<notin> region_live r \<and> region_live r' = insert a (region_live r) \<and>
      r_available r \<noteq> 0 \<and> (\<exists>n < unat (r_num_pages r). a = page_addr r n)"
    by blast+
qed

subsection \<open>Release\<close>

lemma region_live_remove:
  assumes "region_inv r" and "n < unat (r_num_pages r)" and "n \<in> bits (r_bitmap r)"
    and "bits bm = bits (r_bitmap r) - {n}"
  shows "region_live (r\<lparr>r_bitmap := bm, r_available := a\<rparr>) = region_live r - {page_addr r n}"
  using assms by (auto simp: region_live_def dest: page_addr_inj)

text \<open>
  \<^verbatim>\<open>region_free\<close> of a page in use, given by any address inside the page.
\<close>

lemma region_put:
  assumes inv: "region_inv r" and n: "n < unat (r_num_pages r)" "n \<in> bits (r_bitmap r)"
  obtains bm where "bitmap_unset (r_bitmap r) (of_nat n) = Some bm"
    and "region_inv (r\<lparr>r_bitmap := bm, r_available := r_available r + 1\<rparr>)"
    and "region_live (r\<lparr>r_bitmap := bm, r_available := r_available r + 1\<rparr>) =
      region_live r - {page_addr r n}"
proof -
  from inv n(1) have lt: "n < 32 * length (r_bitmap r)" by (simp add: region_inv_def)
  from n(1) have u: "unat (of_nat n :: u32) = n"
    using unat_u32_less [of "r_num_pages r"] by (intro unat_of_nat_u32) linarith
  with lt obtain bm where bm: "bitmap_unset (r_bitmap r) (of_nat n) = Some bm"
    using bitmap_unset_Some [of "of_nat n" "r_bitmap r"] by auto
  note bits = bitmap_unsetD [OF bm, unfolded u]
  let ?r' = "r\<lparr>r_bitmap := bm, r_available := r_available r + 1\<rparr>"
  have "card ({..< unat (r_num_pages r)} - bits (r_bitmap r)) < unat (r_num_pages r)"
    using psubset_card_mono [of "{..< unat (r_num_pages r)}"
      "{..< unat (r_num_pages r)} - bits (r_bitmap r)"] n by auto
  then have "unat (r_available r) < unat (r_num_pages r)"
    using inv by (simp add: region_inv_def)
  then have "unat (r_available r + 1) = Suc (unat (r_available r))"
    by (intro unat_Suc_u32 [of _ "r_num_pages r"]) (simp add: word_less_nat_alt)
  then have "region_inv ?r'"
    using inv bits n by (simp add: region_inv_def card_free_remove)
  moreover have "region_live ?r' = region_live r - {page_addr r n}"
    using region_live_remove [OF inv n bits(2)] .
  ultimately show thesis using that [of bm] bm by simp
qed

lemma region_free_eq:
  assumes "region_inv r" and "n < unat (r_num_pages r)" and "unat k < 4096"
    and "bitmap_unset (r_bitmap r) (of_nat n) = Some bm"
  shows "region_free um r (page_addr r n + k) p =
      (if r_mode r = REGION_MODE_VIRTUAL
       then map_option (\<lambda>p'. (r\<lparr>r_bitmap := bm, r_available := r_available r + 1\<rparr>, p'))
              (um (page_addr r n + k) p)
       else Some (r\<lparr>r_bitmap := bm, r_available := r_available r + 1\<rparr>, p))"
  using page_index [OF assms(1-3)] assms(4)
  by (cases "um (page_addr r n + k) p") (simp_all add: region_free_def)

lemma region_free_SomeD:
  assumes inv: "region_inv r" and a: "a \<in> region_live r"
    and res: "region_free um r a p = Some (r', p')"
  shows "region_inv r'" and "region_live r' = region_live r - {a}"
    and "r_vaddress r' = r_vaddress r" and "r_num_pages r' = r_num_pages r"
    and "r_mode r' = r_mode r" and "r_page_flags r' = r_page_flags r"
proof -
  from a obtain n where n: "n < unat (r_num_pages r)" "n \<in> bits (r_bitmap r)"
    and an: "a = page_addr r n"
    by (auto simp: region_live_def)
  from inv n obtain bm where bm: "bitmap_unset (r_bitmap r) (of_nat n) = Some bm"
    and r1: "region_inv (r\<lparr>r_bitmap := bm, r_available := r_available r + 1\<rparr>)"
      "region_live (r\<lparr>r_bitmap := bm, r_available := r_available r + 1\<rparr>) =
       region_live r - {page_addr r n}"
    by (rule region_put)
  from res region_free_eq [OF inv n(1) _ bm, of 0 um p] an
  have "r' = r\<lparr>r_bitmap := bm, r_available := r_available r + 1\<rparr>"
    by (cases "um (page_addr r n) p") (auto split: if_splits)
  then show "region_inv r'" and "region_live r' = region_live r - {a}"
    and "r_vaddress r' = r_vaddress r" and "r_num_pages r' = r_num_pages r"
    and "r_mode r' = r_mode r" and "r_page_flags r' = r_page_flags r"
    using r1 an by simp_all
qed

subsection \<open>Initialisation\<close>

lemma region_clear_from_SomeD:
  assumes "unat num_pages \<le> 32 * length bm" and "unat i \<le> unat num_pages"
  shows "\<exists>bm'. region_clear_from bm i num_pages = Some bm' \<and> length bm' = length bm \<and>
    bits bm' = bits bm - {unat i ..< unat num_pages}"
  using assms
proof (induction bm i num_pages rule: region_clear_from.induct)
  case (1 bm i num_pages)
  show ?case
  proof (cases "i < num_pages")
    case False
    with "1.prems" show ?thesis
      by (auto simp: region_clear_from.simps [of bm] u32_nat)
  next
    case True
    then have suc: "unat (i + 1) = Suc (unat i)" by (rule unat_Suc_u32)
    from True "1.prems" obtain bm1 where bm1: "bitmap_unset bm i = Some bm1"
      using bitmap_unset_Some [of i bm] by (auto simp: word_less_nat_alt)
    note d = bitmap_unsetD [OF bm1]
    have "unat (i + 1) \<le> unat num_pages" using True suc by (simp add: word_less_nat_alt)
    with "1.IH" [OF True bm1] "1.prems" d suc
    obtain bm' where bm': "region_clear_from bm1 (i + 1) num_pages = Some bm'"
      "length bm' = length bm" "bits bm' = bits bm1 - {Suc (unat i) ..< unat num_pages}"
      by auto
    have "{unat i ..< unat num_pages} = insert (unat i) {Suc (unat i) ..< unat num_pages}"
      using True by (auto simp: word_less_nat_alt)
    then have "bits bm' = bits bm - {unat i ..< unat num_pages}"
      using bm'(3) d(2) by auto
    then show ?thesis
      using True bm1 bm' by (simp add: region_clear_from.simps [of bm i])
  qed
qed

lemma region_init_at_inv:
  assumes "unat num_pages \<le> 32 * length bm" and "unat v mod 4096 = 0" and "v \<noteq> 0"
    and "unat v + 4096 * unat num_pages \<le> 2 ^ 32"
  shows "\<exists>r. region_init_at v bm num_pages flags m = Some r \<and> region_inv r \<and>
    region_live r = {} \<and> r_num_pages r = num_pages \<and> r_available r = num_pages \<and>
    r_vaddress r = v \<and> r_mode r = m \<and> r_page_flags r = flags"
proof -
  from region_clear_from_SomeD [of num_pages bm 0] assms(1) obtain bm' where
    bm': "region_clear_from bm 0 num_pages = Some bm'" "length bm' = length bm"
      "bits bm' = bits bm - {0 ..< unat num_pages}" by auto
  have "{..< unat num_pages} - bits bm' = {..< unat num_pages}" using bm'(3) by auto
  then show ?thesis
    using assms bm' by (auto simp: region_init_at_def region_inv_def region_live_def)
qed

subsection \<open>A physical region is an allocator\<close>

text \<open>
  In \<^verbatim>\<open>REGION_MODE_PHYSICAL\<close> no page is mapped, so the mapping functions and the paging state
  are irrelevant and an allocation or a release never faults.
\<close>

definition phys_region_inv :: "region_t \<Rightarrow> bool" where
  "phys_region_inv r \<longleftrightarrow> region_inv r \<and> r_mode r = REGION_MODE_PHYSICAL"

definition phys_alloc :: "region_t \<Rightarrow> (ptr \<times> region_t) option" where
  "phys_alloc r = map_option (\<lambda>(a, r', _). (a, r')) (region_alloc (\<lambda>_ _ _. None) r ())"

definition phys_release :: "ptr \<Rightarrow> region_t \<Rightarrow> region_t option" where
  "phys_release a r = map_option fst (region_free (\<lambda>_ _. None) r a ())"

lemma phys_alloc_SomeD:
  "phys_alloc r = Some (a, r') \<Longrightarrow> region_alloc (\<lambda>_ _ _. None) r () = Some (a, r', ())"
  by (auto simp: phys_alloc_def)

lemma phys_release_SomeD:
  "phys_release a r = Some r' \<Longrightarrow> region_free (\<lambda>_ _. None) r a () = Some (r', ())"
  by (auto simp: phys_release_def)

interpretation phys: allocator phys_region_inv phys_alloc phys_release region_live
proof (unfold_locales, goal_cases)
  case (1 r)
  then show ?case by (auto simp: phys_region_inv_def region_live_def page_addr_nonnull)
next
  case (2 r a r')
  then show ?case
    by (auto simp: phys_region_inv_def dest: phys_alloc_SomeD region_alloc_SomeD(1,4))
next
  case (3 r r')
  then show ?case
    by (auto simp: phys_region_inv_def dest!: phys_alloc_SomeD dest: region_alloc_SomeD(6))
next
  case (4 r a r')
  then show ?case
    by (auto simp: phys_region_inv_def dest!: phys_alloc_SomeD dest: region_alloc_SomeD(7))
next
  case (5 r a r')
  then show ?case
    by (auto simp: phys_region_inv_def dest!: phys_release_SomeD dest: region_free_SomeD(1,5))
next
  case (6 r a r')
  then show ?case
    by (auto simp: phys_region_inv_def dest!: phys_release_SomeD dest: region_free_SomeD(2))
qed

lemma phys_alloc_total: "phys_region_inv r \<Longrightarrow> \<exists>a r'. phys_alloc r = Some (a, r')"
proof -
  assume inv: "phys_region_inv r"
  show ?thesis
  proof (cases "r_available r = 0")
    case True
    then show ?thesis by (simp add: phys_alloc_def)
  next
    case False
    from inv have "region_inv r" by (simp add: phys_region_inv_def)
    from this False obtain n bm where
      "bitmap_first_free (r_bitmap r) (r_num_pages r) = Some (of_nat n)"
      "bitmap_set (r_bitmap r) (of_nat n) = Some bm" by (rule region_take)
    from region_alloc_eq [OF False this, of "\<lambda>_ _ _. None" "()"] inv show ?thesis
      by (simp add: phys_alloc_def phys_region_inv_def c4_enum)
  qed
qed

text \<open>\<^verbatim>\<open>available\<close> goes down by one with every page handed out.\<close>

lemma region_alloc_available:
  assumes "region_inv r" and "region_alloc mp r p = Some (a, r', p')" and "r_available r \<noteq> 0"
  shows "unat (r_available r) = Suc (unat (r_available r'))"
proof -
  from assms(1,3) obtain n bm where
    ff: "bitmap_first_free (r_bitmap r) (r_num_pages r) = Some (of_nat n)"
      "bitmap_set (r_bitmap r) (of_nat n) = Some bm" by (rule region_take)
  from assms(2) region_alloc_eq [OF assms(3) ff, of mp p]
  have "r_available r' = r_available r - 1" by (auto split: if_splits)
  moreover have "unat (r_available r) \<noteq> 0" using assms(3) by (simp add: unat_eq_zero)
  ultimately show ?thesis using assms(3) by (simp add: unat_pred_u32)
qed

lemma phys_alloc_step:
  assumes "phys_region_inv r" and "r_available r \<noteq> 0"
  obtains a r' where "phys_alloc r = Some (a, r')" and "a \<noteq> NULL" and "phys_region_inv r'"
    and "unat (r_available r) = Suc (unat (r_available r'))"
proof -
  from phys_alloc_total [OF assms(1)] obtain a r' where a: "phys_alloc r = Some (a, r')" by blast
  have ri: "region_inv r" using assms(1) by (simp add: phys_region_inv_def)
  note d = region_alloc_SomeD [OF ri phys_alloc_SomeD [OF a]]
  show thesis
    using that [OF a _ phys.alloc_inv [OF assms(1) a]] d(6) assms(2)
      region_alloc_available [OF ri phys_alloc_SomeD [OF a] assms(2)] by auto
qed

lemma phys_alloc_many_total:
  "phys_region_inv r \<Longrightarrow> n \<le> unat (r_available r) \<Longrightarrow>
    \<exists>as r'. phys.alloc_many n r = Some (as, r') \<and> length as = n \<and> NULL \<notin> set as \<and>
      unat (r_available r') = unat (r_available r) - n"
proof (induction n arbitrary: r)
  case 0
  then show ?case by simp
next
  case (Suc n)
  then have "r_available r \<noteq> 0" by auto
  from phys_alloc_step [OF Suc.prems(1) this] obtain a r1 where
    a: "phys_alloc r = Some (a, r1)" "a \<noteq> NULL" "phys_region_inv r1"
      "unat (r_available r) = Suc (unat (r_available r1))" .
  from Suc.IH [OF a(3)] Suc.prems(2) a(4) obtain as r' where
    "phys.alloc_many n r1 = Some (as, r')" "length as = n" "NULL \<notin> set as"
    "unat (r_available r') = unat (r_available r1) - n" by auto
  with a show ?case by auto
qed

text \<open>
  From a physical region with at least \<open>n\<close> pages available, \<open>n\<close> successive
  \<^verbatim>\<open>region_alloc\<close> calls return \<open>n\<close> distinct pages, none of them \<^verbatim>\<open>NULL\<close> or in use before; after
  them exactly these pages are in use besides the old ones, \<^verbatim>\<open>available\<close> has gone down by \<open>n\<close>
  and the invariant holds.
\<close>

theorem region_alloc_distinct:
  assumes "phys_region_inv r" and "n \<le> unat (r_available r)"
  shows "\<exists>as r'. phys.alloc_many n r = Some (as, r') \<and> length as = n \<and> NULL \<notin> set as \<and>
    distinct as \<and> set as \<inter> region_live r = {} \<and> region_live r' = region_live r \<union> set as \<and>
    unat (r_available r') = unat (r_available r) - n \<and> phys_region_inv r'"
proof -
  from phys_alloc_many_total [OF assms] obtain as r' where
    as: "phys.alloc_many n r = Some (as, r')" "length as = n" "NULL \<notin> set as"
      "unat (r_available r') = unat (r_available r) - n" by blast
  with phys.alloc_many_distinct [OF assms(1) as(1,3)] phys.alloc_many_inv [OF assms(1) as(1)]
  show ?thesis by auto
qed

text \<open>An instance on a fresh region of 40 pages at \<^verbatim>\<open>0x1000\<close>.\<close>

theorem region_alloc_distinct_witness:
  "\<exists>r as r'. region_init_at 0x1000 [0xdead, 0xbeef] 40 0 REGION_MODE_PHYSICAL = Some r \<and>
    phys.alloc_many 40 r = Some (as, r') \<and> distinct as \<and> r_available r' = 0"
proof -
  from region_init_at_inv [of 40 "[0xdead, 0xbeef]" "0x1000" 0 REGION_MODE_PHYSICAL] obtain r where
    r: "region_init_at 0x1000 [0xdead, 0xbeef] 40 0 REGION_MODE_PHYSICAL = Some r"
      "phys_region_inv r" "r_available r = 40" by (auto simp: phys_region_inv_def)
  from region_alloc_distinct [OF r(2), of 40] r(3) obtain as r' where
    "phys.alloc_many 40 r = Some (as, r')" "distinct as" "unat (r_available r') = 0" by auto
  with r(1) show ?thesis by (auto simp: unat_eq_zero)
qed

text \<open>
  \<^verbatim>\<open>region_alloc\<close> in either mode, when the mapping succeeds: a region with no page
  available gives \<^verbatim>\<open>NULL\<close> and stays as it is; otherwise the page handed out lies inside the
  region, is page aligned and was free, and \<^verbatim>\<open>region_free\<close> of any address inside that page
  (provided the unmapping succeeds) takes the region back to the same pages in use.
\<close>

theorem region_alloc_free:
  assumes inv: "region_inv r" and res: "region_alloc mp r p = Some (a, r', p')"
    and k: "unat k < 4096" and um: "um (a + k) q = Some q'"
  shows "if r_available r = 0 then a = NULL \<and> r' = r \<and> p' = p
    else a \<notin> region_live r \<and> unat a mod 4096 = 0 \<and> unat (r_vaddress r) \<le> unat a \<and>
      unat a + 4096 \<le> unat (r_vaddress r) + 4096 * unat (r_num_pages r) \<and>
      region_inv r' \<and> region_live r' = insert a (region_live r) \<and>
      (\<exists>r2 q2. region_free um r' (a + k) q = Some (r2, q2) \<and> region_inv r2 \<and>
         region_live r2 = region_live r \<and> r_available r2 = r_available r)"
proof (cases "r_available r = 0")
  case True
  with res show ?thesis by simp
next
  case False
  note d = region_alloc_SomeD [OF inv res]
  have "a \<noteq> NULL" using d(6) False by auto
  from d(7) [OF this] obtain n where n: "n < unat (r_num_pages r)" "a = page_addr r n"
    and l: "a \<notin> region_live r" "region_live r' = insert a (region_live r)" by auto
  have n': "n < unat (r_num_pages r')" "a = page_addr r' n"
    using n d(2,3) by (simp_all add: page_addr_def)
  then have nb: "n \<in> bits (r_bitmap r')"
    using l(2) d(1) by (auto simp: region_live_def dest: page_addr_inj)
  from region_put [OF d(1) n'(1) nb] obtain bm where
    bm: "bitmap_unset (r_bitmap r') (of_nat n) = Some bm"
    and r2: "region_inv (r'\<lparr>r_bitmap := bm, r_available := r_available r' + 1\<rparr>)"
      "region_live (r'\<lparr>r_bitmap := bm, r_available := r_available r' + 1\<rparr>) =
        region_live r' - {page_addr r' n}" .
  have "r_available r' + 1 = r_available r"
    using region_alloc_available [OF inv res False] unat_Suc_u32 [of "r_available r'" "r_available r"]
    by (simp add: u32_nat)
  moreover have "\<exists>q2. region_free um r' (a + k) q =
      Some (r'\<lparr>r_bitmap := bm, r_available := r_available r' + 1\<rparr>, q2)"
    using region_free_eq [OF d(1) n'(1) k bm, of um q] um n'(2) by auto
  ultimately show ?thesis
    using False l n unat_page_addr [OF inv n(1)] page_addr_aligned [OF inv n(1)] d(1) r2 n' 
    by auto
qed

text \<open>On a fresh virtual region whose mapping functions log the pages they are called with.\<close>

theorem region_alloc_free_witness:
  "\<exists>r r1 r2 q. region_init_at 0xd0000000 [5] 2 PAGE_SIZE REGION_MODE_VIRTUAL = Some r \<and>
    region_alloc (\<lambda>f v log. Some (v # log)) r [] = Some (0xd0000000, r1, [0xd0000000]) \<and>
    region_free (\<lambda>v log. Some (v # log)) r1 0xd0000fff [] = Some (r2, q) \<and>
    region_live r2 = {}"
proof -
  let ?r = "\<lparr>r_bitmap = [4], r_vaddress = 0xd0000000, r_num_pages = 2, r_available = 2,
     r_page_flags = PAGE_SIZE, r_mode = REGION_MODE_VIRTUAL\<rparr>"
  let ?r1 = "?r\<lparr>r_bitmap := [5], r_available := 1\<rparr>"
  have i: "region_init_at 0xd0000000 [5] 2 PAGE_SIZE REGION_MODE_VIRTUAL = Some ?r"
    by (simp add: region_init_at_def region_clear_from.simps bitmap_unset_def BITMAP_BPS_def)
  have inv: "region_inv ?r \<and> region_live ?r = {}"
    using region_init_at_inv [of 2 "[5]" "0xd0000000" PAGE_SIZE REGION_MODE_VIRTUAL] i by auto
  have a: "region_alloc (\<lambda>f v log. Some (v # log)) ?r [] = Some (0xd0000000, ?r1, [0xd0000000])"
    by (simp add: region_alloc_def bitmap_first_free_def bitmap_first_free_from.simps
        bitmap_get_def bitmap_set_def BITMAP_BPS_def)
  from region_alloc_free [OF conjunct1 [OF inv] a, of "0xfff" "\<lambda>v log. Some (v # log)" "[]"] inv
  show ?thesis using i a by auto
qed

end
