(* ===== verification/C4_Paging.thy ===== *)
theory C4_Paging
  imports C4_Region
begin

text \<open>
  The x86 paging code: \<^verbatim>\<open>arch/x86/paging.c\<close> with the inline functions of
  \<^verbatim>\<open>arch/x86/include/c4/arch/paging.h\<close>.

  The code reaches the page tables through a recursive mapping: entry 1023 of the page
  directory is the directory itself, so the directory appears at \<^verbatim>\<open>0xfffff000\<close> and the table of
  entry \<^verbatim>\<open>e\<close> at \<^verbatim>\<open>0xffc00000 | (e << 12)\<close>. The model keeps this: physical memory is a function
  from word addresses to words, \<open>mmu_translate\<close> is the processor's two-level walk from \<^verbatim>\<open>cr3\<close>,
  and the C code's reads and writes go through it (\<open>vload\<close>, \<open>vstore\<close>), a page fault being
  \<open>None\<close>. The lemmas show that under the recursive mapping the code edits exactly the entry
  it means to. The translation cache is seen through the one instruction the code has for it: the
  operands of \<^verbatim>\<open>invlpg\<close> are logged.
\<close>

subsection \<open>Constants and address arithmetic\<close>

definition PAGE_READ :: u32 where [c4_enum]: "PAGE_READ = 1"
definition PAGE_WRITE :: u32 where [c4_enum]: "PAGE_WRITE = 2"
definition PAGE_EXECUTE :: u32 where [c4_enum]: "PAGE_EXECUTE = 4"
definition PAGE_SUPERVISOR :: u32 where [c4_enum]: "PAGE_SUPERVISOR = 8"

definition PAGE_ARCH_PRESENT :: u32 where [c4_enum]: "PAGE_ARCH_PRESENT = 1"
definition PAGE_ARCH_WRITABLE :: u32 where [c4_enum]: "PAGE_ARCH_WRITABLE = 2"
definition PAGE_ARCH_SUPERVISOR :: u32 where [c4_enum]: "PAGE_ARCH_SUPERVISOR = 4"
definition PAGE_ARCH_ACCESSED :: u32 where [c4_enum]: "PAGE_ARCH_ACCESSED = 0x20"
definition PAGE_ARCH_4MB_ENTRY :: u32 where [c4_enum]: "PAGE_ARCH_4MB_ENTRY = 0x80"

definition IO_PHYS_BASE :: u32 where "IO_PHYS_BASE = 0xfec00000"
definition IO_VIRTUAL_BASE :: u32 where "IO_VIRTUAL_BASE = 0xfe800000"

definition page_dir_entry :: "ptr \<Rightarrow> u32" where
  "page_dir_entry vaddress = drop_bit 22 vaddress"

definition page_table_entry :: "ptr \<Rightarrow> u32" where
  "page_table_entry vaddress = drop_bit 12 vaddress AND 0x3ff"

definition low_virt_to_phys :: "u32 \<Rightarrow> u32" where
  "low_virt_to_phys addr = addr - KERNEL_BASE"

definition low_phys_to_virt :: "u32 \<Rightarrow> u32" where
  "low_phys_to_virt addr = addr + KERNEL_BASE"

definition io_phys_to_virt :: "u32 \<Rightarrow> u32" where
  "io_phys_to_virt addr = (addr - IO_PHYS_BASE) + IO_VIRTUAL_BASE"

definition io_virt_to_phys :: "u32 \<Rightarrow> u32" where
  "io_virt_to_phys addr = (addr - IO_VIRTUAL_BASE) + IO_PHYS_BASE"

definition is_kernel_address :: "ptr \<Rightarrow> bool" where
  "is_kernel_address addr \<longleftrightarrow> addr \<ge> KERNEL_BASE"

definition is_user_address :: "ptr \<Rightarrow> bool" where
  "is_user_address addr \<longleftrightarrow> \<not> is_kernel_address addr"

text \<open>Generic page flags to x86 flags.\<close>

definition page_flags :: "u32 \<Rightarrow> u32" where
  "page_flags flags =
     push_bit 1 (of_bool (flags AND PAGE_WRITE \<noteq> 0))
     OR push_bit 2 (of_bool (\<not> (flags AND PAGE_SUPERVISOR \<noteq> 0)))
     OR PAGE_ARCH_PRESENT"

definition add_page_flags :: "ptr \<Rightarrow> u32 \<Rightarrow> u32" where
  "add_page_flags addr flags = addr OR page_flags flags"

definition page_current_table_entry :: "u32 \<Rightarrow> ptr" where
  "page_current_table_entry entry = 0xffc00000 OR push_bit 12 entry"

definition current_page_dir :: ptr where
  "current_page_dir = 0xfffff000"

subsection \<open>The machine: physical memory, cr3 and the page walk\<close>

record paging =
  pg_mem :: "u32 \<Rightarrow> u32"
  pg_cr3 :: u32
  pg_phys :: region_t
  pg_kernel_dir :: ptr
  pg_arg_slot :: ptr
  pg_invlpg :: "ptr list"

text \<open>The frame an entry points to, and the physical address of word \<open>i\<close> of it.\<close>

definition frame_of :: "u32 \<Rightarrow> u32" where
  "frame_of f = f AND NOT 0xfff"

definition frame_word :: "u32 \<Rightarrow> u32 \<Rightarrow> u32" where
  "frame_word f i = frame_of f OR push_bit 2 i"

definition present :: "u32 \<Rightarrow> bool" where
  "present e \<longleftrightarrow> e AND PAGE_ARCH_PRESENT \<noteq> 0"

definition is_4mb :: "u32 \<Rightarrow> bool" where
  "is_4mb e \<longleftrightarrow> e AND PAGE_ARCH_4MB_ENTRY \<noteq> 0"

definition mmu_translate :: "paging \<Rightarrow> ptr \<Rightarrow> u32 option" where
  "mmu_translate pg v =
     (let de = pg_mem pg (frame_word (pg_cr3 pg) (drop_bit 22 v))
      in if \<not> present de then None
         else if is_4mb de then Some ((de AND 0xffc00000) OR (v AND 0x3fffff))
         else let te = pg_mem pg (frame_word de (drop_bit 12 v AND 0x3ff))
              in if present te then Some (frame_of te OR (v AND 0xfff)) else None)"

definition vload :: "paging \<Rightarrow> ptr \<Rightarrow> u32 option" where
  "vload pg v = map_option (pg_mem pg) (mmu_translate pg v)"

definition vstore :: "ptr \<Rightarrow> u32 \<Rightarrow> paging \<Rightarrow> paging option" where
  "vstore v x pg = map_option (\<lambda>a. pg\<lparr>pg_mem := (pg_mem pg)(a := x)\<rparr>) (mmu_translate pg v)"

subsection \<open>The operations\<close>

text \<open>
  \<^verbatim>\<open>alloc_phys_page\<close> and \<^verbatim>\<open>free_phys_page\<close> call the region allocator on \<^verbatim>\<open>physical_region\<close>, which is
  in physical mode; in virtual mode \<^verbatim>\<open>map_page\<close> would call itself without end, hence the
  callback \<open>None\<close> in \<open>phys_alloc\<close> and \<open>phys_release\<close>.
\<close>

definition alloc_phys_page :: "paging \<Rightarrow> (ptr \<times> paging) option" where
  "alloc_phys_page pg = do {
     (a, r) \<leftarrow> phys_alloc (pg_phys pg);
     Some (a, pg\<lparr>pg_phys := r\<rparr>)
   }"

definition free_phys_page :: "ptr \<Rightarrow> paging \<Rightarrow> paging option" where
  "free_phys_page addr pg = do {
     r \<leftarrow> phys_release addr (pg_phys pg);
     Some (pg\<lparr>pg_phys := r\<rparr>)
   }"

text \<open>
  \<^verbatim>\<open>page_phys_addr\<close>: the entry that maps an address, flags included except the accessed bit;
  without a mapping the code spins forever.
\<close>

definition page_phys_addr :: "ptr \<Rightarrow> paging \<Rightarrow> u32 option" where
  "page_phys_addr vaddress pg =
     (let dirent = page_dir_entry vaddress;
          tableent = page_table_entry vaddress;
          dir = current_page_dir;
          table = page_current_table_entry dirent
      in do {
        d \<leftarrow> vload pg (dir + 4 * dirent);
        ret \<leftarrow> (if d \<noteq> 0
                then (if d AND PAGE_ARCH_4MB_ENTRY \<noteq> 0
                      then Some (d OR push_bit 12 tableent)
                      else do {
                        t \<leftarrow> vload pg (table + 4 * tableent);
                        Some (if t \<noteq> 0 then t else 0)
                      })
                else Some 0);
        if ret = 0 then None else Some (ret AND NOT PAGE_ARCH_ACCESSED)
      })"

definition map_phys_page :: "u32 \<Rightarrow> ptr \<Rightarrow> ptr \<Rightarrow> paging \<Rightarrow> paging option" where
  "map_phys_page perms vaddr raddr pg =
     (let dirent = page_dir_entry vaddr;
          tableent = page_table_entry vaddr;
          dir = current_page_dir;
          table = page_current_table_entry dirent
      in do {
        d \<leftarrow> vload pg (dir + 4 * dirent);
        pg1 \<leftarrow> (if d = 0
                then do {
                  (page, pg') \<leftarrow> alloc_phys_page pg;
                  vstore (dir + 4 * dirent) (add_page_flags page PAGE_WRITE) pg'
                }
                else Some pg);
        vstore (table + 4 * tableent) (add_page_flags raddr perms) pg1
      })"

definition map_page :: "u32 \<Rightarrow> ptr \<Rightarrow> paging \<Rightarrow> paging option" where
  "map_page perms vaddr pg = do {
     (raddr, pg') \<leftarrow> alloc_phys_page pg;
     map_phys_page perms vaddr raddr pg'
   }"

definition map_phys_page_4mb :: "u32 \<Rightarrow> ptr \<Rightarrow> ptr \<Rightarrow> paging \<Rightarrow> paging option" where
  "map_phys_page_4mb perms vaddr raddr pg =
     (let dirent = page_dir_entry vaddr;
          dir = current_page_dir
      in vstore (dir + 4 * dirent) (add_page_flags raddr perms OR PAGE_ARCH_4MB_ENTRY) pg)"

text \<open>
  The operand \<^verbatim>\<open>"m"(paddr)\<close> of \<^verbatim>\<open>invalidate_page\<close> is the memory of the parameter itself and not what it points to, so
  the page that leaves the translation cache is the one the argument lies on: \<open>pg_arg_slot\<close>, the place on the
  kernel stack where the compiler keeps it.
\<close>

definition invalidate_page :: "ptr \<Rightarrow> paging \<Rightarrow> paging" where
  "invalidate_page paddr pg = pg\<lparr>pg_invlpg := pg_invlpg pg @ [pg_arg_slot pg]\<rparr>"

definition unmap_page :: "ptr \<Rightarrow> paging \<Rightarrow> paging option" where
  "unmap_page vaddress pg =
     (let dirent = page_dir_entry vaddress;
          tableent = page_table_entry vaddress;
          dir = current_page_dir;
          table = page_current_table_entry dirent
      in do {
        d \<leftarrow> vload pg (dir + 4 * dirent);
        if d \<noteq> 0
        then do {
          t \<leftarrow> vload pg (table + 4 * tableent);
          if t \<noteq> 0
          then do {
            let paddr = t;
            pg1 \<leftarrow> vstore (table + 4 * tableent) 0 pg;
            free_phys_page paddr (invalidate_page paddr pg1)
          }
          else Some pg
        }
        else Some pg
      })"

definition set_page_dir :: "ptr \<Rightarrow> paging \<Rightarrow> paging option" where
  "set_page_dir dir pg = do {
     addr \<leftarrow> page_phys_addr dir pg;
     Some (pg\<lparr>pg_cr3 := addr OR (PAGE_ARCH_PRESENT OR PAGE_ARCH_WRITABLE)\<rparr>)
   }"

text \<open>
  \<^verbatim>\<open>init_paging\<close>: the recursive entry is written through the boot mapping of the directory
  at its virtual address.
\<close>

definition init_paging :: "ptr \<Rightarrow> region_t \<Rightarrow> paging \<Rightarrow> paging option" where
  "init_paging boot_page_dir phys_map pg = do {
     let pg1 = pg\<lparr>pg_kernel_dir := boot_page_dir\<rparr>;
     pg2 \<leftarrow> vstore (boot_page_dir + 4 * 1023)
              (low_virt_to_phys boot_page_dir OR PAGE_ARCH_PRESENT OR PAGE_ARCH_WRITABLE) pg1;
     Some (pg2\<lparr>pg_phys := phys_map\<rparr>)
   }"

subsection \<open>Bit lemmas\<close>

lemma u32_0xfff: "(0xfff :: u32) = mask 12"
  by (simp add: mask_eq_exp_minus_1)

lemma u32_0x3ff: "(0x3ff :: u32) = mask 10"
  by (simp add: mask_eq_exp_minus_1)

lemma u32_0xffc00000: "(0xffc00000 :: u32) = NOT (mask 22)"
  by (simp add: mask_eq_exp_minus_1)

lemma u32_0xfffff000: "(0xfffff000 :: u32) = NOT (mask 12)"
  by (simp add: mask_eq_exp_minus_1)

lemma bit_less_1024:
  assumes "(i :: u32) < 1024" and "bit i n" shows "n < 10"
proof -
  have "unat (drop_bit 10 i) = 0"
    using assms(1) by (simp add: unsigned_drop_bit_eq drop_bit_eq_div word_less_nat_alt unat_div)
  then have "drop_bit 10 i = 0" by (simp add: unat_eq_zero)
  then have "\<not> bit (drop_bit 10 i) (n - 10)" by simp
  with assms(2) show ?thesis by (cases "n < 10") (auto simp: bit_drop_bit_eq)
qed

lemma page_dir_entry_less: "page_dir_entry v < 1024"
proof -
  have "unat v < 2 ^ 32" using unsigned_less [of v] by simp
  then show ?thesis
    by (simp add: page_dir_entry_def word_less_nat_alt drop_bit_eq_div unat_div
        less_mult_imp_div_less)
qed

lemma page_table_entry_less: "page_table_entry v < 1024"
proof -
  have "drop_bit 12 v AND 0x3ff \<le> 0x3ff" by (rule word_and_le1)
  then show ?thesis by (simp add: page_table_entry_def order_le_less_trans)
qed

lemma mult4_push: "4 * (t :: u32) = push_bit 2 t"
  by (simp add: push_bit_eq_mult)

text \<open>The fields of an address in the recursive window.\<close>

lemma window_or:
  assumes "e < 1024" and "t < 1024"
  shows "page_current_table_entry e + 4 * t = (NOT (mask 22) OR push_bit 12 e) OR push_bit 2 t"
proof -
  let ?w = "NOT (mask 22) OR push_bit 12 e"
  have "?w AND push_bit 2 t = 0"
    by (rule bit_word_eqI)
       (use bit_less_1024 [OF assms(2)] in \<open>fastforce simp: bit_simps\<close>)
  then have "?w + push_bit 2 t = ?w OR push_bit 2 t"
    using word_plus_and_or [of ?w "push_bit 2 t"] by simp
  then show ?thesis
    by (simp only: page_current_table_entry_def u32_0xffc00000 mult4_push)
qed

lemma window_fields:
  assumes "e < 1024" and "t < 1024"
  shows "drop_bit 22 (page_current_table_entry e + 4 * t) = 1023"
    and "drop_bit 12 (page_current_table_entry e + 4 * t) AND 0x3ff = e"
    and "(page_current_table_entry e + 4 * t) AND 0xfff = push_bit 2 t"
proof -
  note lt = bit_less_1024 [OF assms(1)] bit_less_1024 [OF assms(2)]
  show "drop_bit 22 (page_current_table_entry e + 4 * t) = 1023"
    unfolding window_or [OF assms] u32_0x3ff by (intro bit_word_eqI) (use lt in \<open>fastforce simp: bit_simps\<close>)
  show "drop_bit 12 (page_current_table_entry e + 4 * t) AND 0x3ff = e"
    unfolding window_or [OF assms] u32_0x3ff
    by (intro bit_word_eqI) (use lt in \<open>fastforce simp: bit_simps\<close>)
  show "(page_current_table_entry e + 4 * t) AND 0xfff = push_bit 2 t"
    unfolding window_or [OF assms] u32_0xfff
    by (intro bit_word_eqI) (use lt in \<open>fastforce simp: bit_simps\<close>)
qed

lemma current_page_dir_window: "current_page_dir = page_current_table_entry 1023"
  by (simp add: current_page_dir_def page_current_table_entry_def)

lemma frame_word_page: "i < 1024 \<Longrightarrow> frame_of (frame_word f i) = frame_of f"
  unfolding frame_word_def frame_of_def u32_0xfff
  by (intro bit_word_eqI) (use bit_less_1024 [of i] in \<open>fastforce simp: bit_simps\<close>)

lemma frame_word_index: "i < 1024 \<Longrightarrow> frame_word f i AND 0xfff = push_bit 2 i"
  unfolding frame_word_def frame_of_def u32_0xfff
  by (intro bit_word_eqI) (use bit_less_1024 [of i] in \<open>fastforce simp: bit_simps\<close>)

lemma push_bit_2_inj: "i < 1024 \<Longrightarrow> j < 1024 \<Longrightarrow> push_bit 2 i = push_bit 2 (j :: u32) \<Longrightarrow> i = j"
proof -
  assume a: "i < 1024" "j < 1024" "push_bit 2 i = push_bit 2 j"
  have *: "drop_bit 2 (push_bit 2 k) = k" if "k < 1024" for k :: u32
    by (intro bit_word_eqI) (use bit_less_1024 [OF that] in \<open>fastforce simp: bit_simps\<close>)
  from a show "i = j" by (metis *)
qed

lemma frame_word_eq_iff:
  assumes "i < 1024" and "j < 1024"
  shows "frame_word f i = frame_word g j \<longleftrightarrow> frame_of f = frame_of g \<and> i = j"
proof
  assume eq: "frame_word f i = frame_word g j"
  then show "frame_of f = frame_of g \<and> i = j"
    using frame_word_page [OF assms(1), of f] frame_word_page [OF assms(2), of g]
      frame_word_index [OF assms(1), of f] frame_word_index [OF assms(2), of g]
      push_bit_2_inj [OF assms] by simp
next
  assume "frame_of f = frame_of g \<and> i = j"
  then show "frame_word f i = frame_word g j" by (simp add: frame_word_def)
qed

subsection \<open>The invariant of the recursive mapping\<close>

text \<open>
  \<open>dir_word pg e\<close> is entry \<open>e\<close> of the current directory, \<open>table_word pg e t\<close> entry \<open>t\<close> of the
  table it points to.
\<close>

definition dir_word :: "paging \<Rightarrow> u32 \<Rightarrow> u32" where
  "dir_word pg e = pg_mem pg (frame_word (pg_cr3 pg) e)"

definition table_word :: "paging \<Rightarrow> u32 \<Rightarrow> u32 \<Rightarrow> u32" where
  "table_word pg e t = pg_mem pg (frame_word (dir_word pg e) t)"

text \<open>
  The invariant: the last directory entry is the directory itself; every non-zero entry is
  present; two entries that point to tables point to different frames (so no table is the
  directory); no table lies in a free page of the physical region.
\<close>

definition paging_inv :: "paging \<Rightarrow> bool" where
  "paging_inv pg \<longleftrightarrow>
     phys_region_inv (pg_phys pg) \<and>
     frame_of (dir_word pg 1023) = frame_of (pg_cr3 pg) \<and>
     present (dir_word pg 1023) \<and> \<not> is_4mb (dir_word pg 1023) \<and>
     (\<forall>e < 1024. dir_word pg e \<noteq> 0 \<longrightarrow> present (dir_word pg e)) \<and>
     (\<forall>e < 1024. \<forall>e' < 1024. present (dir_word pg e) \<and> \<not> is_4mb (dir_word pg e) \<and>
        present (dir_word pg e') \<and> \<not> is_4mb (dir_word pg e') \<and>
        frame_of (dir_word pg e) = frame_of (dir_word pg e') \<longrightarrow> e = e') \<and>
     (\<forall>e < 1024. \<forall>n < unat (r_num_pages (pg_phys pg)). present (dir_word pg e) \<and>
        \<not> is_4mb (dir_word pg e) \<and> n \<notin> bits (r_bitmap (pg_phys pg)) \<longrightarrow>
        frame_of (dir_word pg e) \<noteq> page_addr (pg_phys pg) n)"

lemma paging_invD:
  assumes "paging_inv pg"
  shows "phys_region_inv (pg_phys pg)"
    and "frame_of (dir_word pg 1023) = frame_of (pg_cr3 pg)"
    and "present (dir_word pg 1023)" and "\<not> is_4mb (dir_word pg 1023)"
    and "e < 1024 \<Longrightarrow> dir_word pg e \<noteq> 0 \<Longrightarrow> present (dir_word pg e)"
    and "e < 1024 \<Longrightarrow> e' < 1024 \<Longrightarrow> present (dir_word pg e) \<Longrightarrow> \<not> is_4mb (dir_word pg e) \<Longrightarrow>
      present (dir_word pg e') \<Longrightarrow> \<not> is_4mb (dir_word pg e') \<Longrightarrow>
      frame_of (dir_word pg e) = frame_of (dir_word pg e') \<Longrightarrow> e = e'"
  using assms unfolding paging_inv_def by blast+

lemma mmu_translate_eq:
  "mmu_translate pg v =
     (let de = dir_word pg (page_dir_entry v)
      in if \<not> present de then None
         else if is_4mb de then Some ((de AND 0xffc00000) OR (v AND 0x3fffff))
         else let te = table_word pg (page_dir_entry v) (page_table_entry v)
              in if present te then Some (frame_of te OR (v AND 0xfff)) else None)"
  by (simp add: mmu_translate_def dir_word_def table_word_def page_dir_entry_def
      page_table_entry_def Let_def)

text \<open>The window on a table translates to the table's own word.\<close>

lemma mmu_translate_window:
  assumes rec: "frame_of (dir_word pg 1023) = frame_of (pg_cr3 pg)"
    "present (dir_word pg 1023)" "\<not> is_4mb (dir_word pg 1023)"
    and e: "e < 1024" and t: "t < 1024"
  shows "mmu_translate pg (page_current_table_entry e + 4 * t) =
    (if present (dir_word pg e) then Some (frame_word (dir_word pg e) t) else None)"
proof -
  have tw: "table_word pg 1023 e = dir_word pg e"
    using rec(1) by (simp add: table_word_def dir_word_def frame_word_def)
  show ?thesis
    using rec tw window_fields [OF e t]
    by (simp add: mmu_translate_eq page_dir_entry_def page_table_entry_def frame_word_def)
qed

lemma mmu_translate_dir:
  assumes "frame_of (dir_word pg 1023) = frame_of (pg_cr3 pg)"
    "present (dir_word pg 1023)" "\<not> is_4mb (dir_word pg 1023)" and "e < 1024"
  shows "mmu_translate pg (current_page_dir + 4 * e) = Some (frame_word (pg_cr3 pg) e)"
  using mmu_translate_window [OF assms(1-3), of 1023 e] assms
  by (simp add: current_page_dir_window frame_word_def)

subsection \<open>Editing an entry\<close>

lemma and_mask_0_bits: "(a :: u32) AND mask k = 0 \<Longrightarrow> n < k \<Longrightarrow> \<not> bit a n"
  by (metis bit_0_eq bit_and_iff bit_mask_iff bot_apply bot_bool_def bit_imp_le_length possible_bit_def
      impossible_bit not_le_imp_less)

lemma aligned_and:
  assumes "unat (a :: u32) mod 4096 = 0" shows "frame_of a = a"
proof -
  have "unat (a mod 4096) = 0" using assms by (simp add: unat_mod)
  then have "a mod 2 ^ 12 = 0" by (simp add: unat_eq_zero)
  then have "a AND mask 12 = 0" 
    using word_mod_2p_is_mask [of 12 a] by simp
  then have "\<not> bit a n" if "n < 12" for n using that by (rule and_mask_0_bits)
  then show ?thesis unfolding frame_of_def u32_0xfff by (intro bit_word_eqI) (auto simp: bit_simps)
qed

lemma page_flags_cases: "page_flags f = 1 \<or> page_flags f = 3 \<or> page_flags f = 5 \<or> page_flags f = 7"
  by (cases "f AND PAGE_WRITE = 0"; cases "f AND PAGE_SUPERVISOR = 0")
     (simp_all add: page_flags_def PAGE_ARCH_PRESENT_def push_bit_eq_mult)

lemma add_page_flags_frame: "frame_of (add_page_flags a f) = frame_of a"
  using page_flags_cases [of f] by (auto simp: add_page_flags_def frame_of_def word_ao_dist)

lemma add_page_flags_present: "present (add_page_flags a f)"
  using page_flags_cases [of f]
  by (auto simp: add_page_flags_def present_def PAGE_ARCH_PRESENT_def word_ao_dist)

lemma add_page_flags_4mb: "is_4mb (add_page_flags a f) = is_4mb a"
  using page_flags_cases [of f]
  by (auto simp: add_page_flags_def is_4mb_def PAGE_ARCH_4MB_ENTRY_def word_ao_dist)

lemma not_4mb_aligned: "frame_of a = a \<Longrightarrow> \<not> is_4mb a"
proof -
  assume a: "frame_of a = a"
  have "frame_of a AND PAGE_ARCH_4MB_ENTRY = 0"
    by (simp add: frame_of_def PAGE_ARCH_4MB_ENTRY_def and.assoc)
  with a show ?thesis by (simp add: is_4mb_def)
qed

lemma paging_inv_4: assumes "paging_inv pg"
  shows "e < 1024 \<Longrightarrow> n < unat (r_num_pages (pg_phys pg)) \<Longrightarrow> n \<notin> bits (r_bitmap (pg_phys pg)) \<Longrightarrow>
    present (dir_word pg e) \<Longrightarrow> \<not> is_4mb (dir_word pg e) \<Longrightarrow>
    frame_of (dir_word pg e) \<noteq> page_addr (pg_phys pg) n"
  using assms unfolding paging_inv_def by blast

lemma vload_dir: "paging_inv pg \<Longrightarrow> e < 1024 \<Longrightarrow>
    vload pg (current_page_dir + 4 * e) = Some (dir_word pg e)"
  by (simp add: vload_def mmu_translate_dir paging_invD(2-4)) (simp add: dir_word_def)

lemma vload_table: "paging_inv pg \<Longrightarrow> e < 1024 \<Longrightarrow> t < 1024 \<Longrightarrow> present (dir_word pg e) \<Longrightarrow>
    vload pg (page_current_table_entry e + 4 * t) = Some (table_word pg e t)"
  by (simp add: vload_def mmu_translate_window paging_invD(2-4) table_word_def)

lemma vstore_dir: "paging_inv pg \<Longrightarrow> e < 1024 \<Longrightarrow>
    vstore (current_page_dir + 4 * e) x pg =
      Some (pg\<lparr>pg_mem := (pg_mem pg)(frame_word (pg_cr3 pg) e := x)\<rparr>)"
  by (simp add: vstore_def mmu_translate_dir paging_invD(2-4))

lemma vstore_table: "paging_inv pg \<Longrightarrow> e < 1024 \<Longrightarrow> t < 1024 \<Longrightarrow> present (dir_word pg e) \<Longrightarrow>
    vstore (page_current_table_entry e + 4 * t) x pg =
      Some (pg\<lparr>pg_mem := (pg_mem pg)(frame_word (dir_word pg e) t := x)\<rparr>)"
  by (simp add: vstore_def mmu_translate_window paging_invD(2-4))

definition set_entry :: "u32 \<Rightarrow> u32 \<Rightarrow> u32 \<Rightarrow> paging \<Rightarrow> paging" where
  "set_entry e t x pg = pg\<lparr>pg_mem := (pg_mem pg)(frame_word (dir_word pg e) t := x)\<rparr>"

definition add_table :: "u32 \<Rightarrow> u32 \<Rightarrow> region_t \<Rightarrow> paging \<Rightarrow> paging" where
  "add_table e x r pg =
     pg\<lparr>pg_mem := (pg_mem pg)(frame_word (pg_cr3 pg) e := x), pg_phys := r\<rparr>"

text \<open>Writing an entry of a table changes that entry only, and no directory entry.\<close>

lemma set_entry_words:
  assumes inv: "paging_inv pg" and e: "e < 1023" and t: "t < 1024"
    and tab: "present (dir_word pg e)" "\<not> is_4mb (dir_word pg e)"
  shows "e' < 1024 \<Longrightarrow> dir_word (set_entry e t x pg) e' = dir_word pg e'"
    and "e' < 1024 \<Longrightarrow> t' < 1024 \<Longrightarrow> present (dir_word pg e') \<Longrightarrow> \<not> is_4mb (dir_word pg e') \<Longrightarrow>
      table_word (set_entry e t x pg) e' t' =
        (if e' = e \<and> t' = t then x else table_word pg e' t')"
proof -
  have e1: "e < 1024" using e by (simp add: u32_nat)
  have "frame_of (dir_word pg e) \<noteq> frame_of (pg_cr3 pg)"
    using paging_invD(6) [OF inv e1, of 1023] paging_invD(2-4) [OF inv] tab e by auto
  then have ne: "frame_word (pg_cr3 pg) i \<noteq> frame_word (dir_word pg e) t" if "i < 1024" for i
    using frame_word_eq_iff [OF that t, of "pg_cr3 pg" "dir_word pg e"] by auto
  show d: "dir_word (set_entry e t x pg) e' = dir_word pg e'" if "e' < 1024" for e'
    using ne [OF that] by (simp add: dir_word_def set_entry_def)
  assume e': "e' < 1024" and t': "t' < 1024"
    and tab': "present (dir_word pg e')" "\<not> is_4mb (dir_word pg e')"
  have "frame_word (dir_word pg e') t' = frame_word (dir_word pg e) t \<longleftrightarrow> e' = e \<and> t' = t"
    using frame_word_eq_iff [OF t' t] paging_invD(6) [OF inv e' e1 tab' tab] by auto
  then show "table_word (set_entry e t x pg) e' t' =
        (if e' = e \<and> t' = t then x else table_word pg e' t')"
    unfolding table_word_def d [OF e'] by (simp add: set_entry_def)
qed

lemma set_entry_inv:
  assumes "paging_inv pg" and "e < 1023" and "t < 1024"
    and "present (dir_word pg e)" "\<not> is_4mb (dir_word pg e)"
  shows "paging_inv (set_entry e t x pg)"
proof -
  note d = set_entry_words(1) [OF assms]
  have [simp]: "pg_phys (set_entry e t x pg) = pg_phys pg" "pg_cr3 (set_entry e t x pg) = pg_cr3 pg"
    by (simp_all add: set_entry_def)
  have "(1023 :: u32) < 1024" by simp
  with assms(1) show ?thesis unfolding paging_inv_def by (simp add: d cong: conj_cong)
qed

subsection \<open>Adding a table\<close>

lemma alloc_phys_page_fresh:
  assumes inv: "paging_inv pg" and a: "phys_alloc (pg_phys pg) = Some (a, r)" "a \<noteq> NULL"
  obtains n where "n < unat (r_num_pages (pg_phys pg))" and "n \<notin> bits (r_bitmap (pg_phys pg))"
    and "a = page_addr (pg_phys pg) n" and "phys_region_inv r" and "frame_of a = a"
    and "r_num_pages r = r_num_pages (pg_phys pg)" and "r_vaddress r = r_vaddress (pg_phys pg)"
    and "region_live r = insert a (region_live (pg_phys pg))" and "a \<notin> region_live (pg_phys pg)"
proof -
  have ri: "region_inv (pg_phys pg)" and pi: "phys_region_inv (pg_phys pg)"
    using paging_invD(1) [OF inv] by (auto simp: phys_region_inv_def)
  note d = region_alloc_SomeD [OF ri phys_alloc_SomeD [OF a(1)]]
  from d(7) [OF a(2)] obtain n where n: "n < unat (r_num_pages (pg_phys pg))"
    "a = page_addr (pg_phys pg) n" and l: "a \<notin> region_live (pg_phys pg)"
    "region_live r = insert a (region_live (pg_phys pg))" by auto
  have "n \<notin> bits (r_bitmap (pg_phys pg))" using l(1) n by (auto simp: region_live_def)
  moreover have "frame_of a = a" using page_addr_aligned [OF ri n(1)] n(2) aligned_and by simp
  ultimately show thesis
    using that [of n] n l d(2,3) phys.alloc_inv [OF pi a(1)] by simp
qed

lemma bits_free_live:
  assumes "region_inv r" and "n < unat (r_num_pages r)"
  shows "page_addr r n \<in> region_live r \<longleftrightarrow> n \<in> bits (r_bitmap r)"
  using assms by (auto simp: region_live_def dest: page_addr_inj)

lemma page_addr_cong: "r_vaddress r = r_vaddress r' \<Longrightarrow> page_addr r n = page_addr r' n"
  by (simp add: page_addr_def)

lemma add_table_dir:
  assumes "e < 1024" and "e' < 1024"
  shows "dir_word (add_table e x r pg) e' = (if e' = e then x else dir_word pg e')"
  using frame_word_eq_iff [OF assms(2,1), of "pg_cr3 pg" "pg_cr3 pg"]
  by (simp add: dir_word_def add_table_def)

text \<open>Linking a fresh table in changes no other table's words.\<close>

lemma add_table_words:
  assumes inv: "paging_inv pg" and e: "e < 1023" and e': "e' < 1023" "e' \<noteq> e" and t': "t' < 1024"
    and tab': "present (dir_word pg e')" "\<not> is_4mb (dir_word pg e')"
  shows "table_word (add_table e x r pg) e' t' = table_word pg e' t'"
proof -
  have lt: "e < 1024" "e' < 1024" using e e' by (simp_all add: u32_nat)
  have "frame_of (dir_word pg e') \<noteq> frame_of (pg_cr3 pg)"
    using paging_invD(6) [OF inv lt(2), of 1023] paging_invD(2-4) [OF inv] tab' e' by auto
  then have "frame_word (dir_word pg e') t' \<noteq> frame_word (pg_cr3 pg) e"
    using frame_word_eq_iff [OF t' lt(1)] by simp
  then show ?thesis
    using e' by (simp add: table_word_def add_table_dir lt) (simp add: add_table_def)
qed

lemma add_table_inv:
  assumes inv: "paging_inv pg" and e: "e < 1023"
    and a: "phys_alloc (pg_phys pg) = Some (a, r)" "a \<noteq> NULL"
  shows "paging_inv (add_table e (add_page_flags a f) r pg)"
proof -
  from inv a obtain n where n: "n < unat (r_num_pages (pg_phys pg))"
    "n \<notin> bits (r_bitmap (pg_phys pg))" "a = page_addr (pg_phys pg) n"
    and r: "phys_region_inv r" "frame_of a = a" "r_num_pages r = r_num_pages (pg_phys pg)"
    "r_vaddress r = r_vaddress (pg_phys pg)" "region_live r = insert a (region_live (pg_phys pg))"
    by (rule alloc_phys_page_fresh)
  let ?x = "add_page_flags a f" and ?pg = "add_table e (add_page_flags a f) r pg"
  have ri: "region_inv (pg_phys pg)" "region_inv r"
    using paging_invD(1) [OF inv] r(1) by (auto simp: phys_region_inv_def)
  have x: "frame_of ?x = a" "present ?x" "\<not> is_4mb ?x"
    using r(2) by (auto simp: add_page_flags_frame add_page_flags_present add_page_flags_4mb
        not_4mb_aligned)
  have e1: "e < 1024" using e by (simp add: u32_nat)
  have pa: "page_addr r m = page_addr (pg_phys pg) m" for m by (rule page_addr_cong) (rule r(4))
  note d = add_table_dir [OF e1]
  have fresh: "frame_of (dir_word pg e') \<noteq> a" if "e' < 1024" "present (dir_word pg e')"
    "\<not> is_4mb (dir_word pg e')" for e'
    using paging_inv_4 [OF inv that(1) n(1,2) that(2,3)] n(3) by simp
  have free: "m \<notin> bits (r_bitmap r) \<Longrightarrow> m \<notin> bits (r_bitmap (pg_phys pg)) \<and> page_addr r m \<noteq> a"
    if "m < unat (r_num_pages r)" for m
    using bits_free_live [OF ri(2) that] bits_free_live [OF ri(1), of m] that r(3,5) pa by auto
  show ?thesis
    unfolding paging_inv_def
  proof (intro conjI allI impI)
    show "phys_region_inv (pg_phys ?pg)" using r(1) by (simp add: add_table_def)
    have "dir_word ?pg 1023 = dir_word pg 1023" using d [of 1023] e by auto
    then show "frame_of (dir_word ?pg 1023) = frame_of (pg_cr3 ?pg)" "present (dir_word ?pg 1023)"
      "\<not> is_4mb (dir_word ?pg 1023)"
      using paging_invD(2-4) [OF inv] by (simp_all add: add_table_def)
  next
    fix e' assume "e' < 1024" "dir_word ?pg e' \<noteq> 0"
    then show "present (dir_word ?pg e')"
      using d x paging_invD(5) [OF inv] by (auto split: if_splits)
  next
    fix e1 e2 assume lt: "e1 < 1024" "e2 < 1024" and "present (dir_word ?pg e1) \<and>
       \<not> is_4mb (dir_word ?pg e1) \<and> present (dir_word ?pg e2) \<and> \<not> is_4mb (dir_word ?pg e2) \<and>
       frame_of (dir_word ?pg e1) = frame_of (dir_word ?pg e2)"
    then show "e1 = e2"
      using d [OF lt(1)] d [OF lt(2)] x fresh [of e1] fresh [of e2] paging_invD(6) [OF inv lt]
      by (auto split: if_splits)
  next
    fix e1 m assume lt: "e1 < 1024" "m < unat (r_num_pages (pg_phys ?pg))" and "present (dir_word ?pg e1) \<and>
       \<not> is_4mb (dir_word ?pg e1) \<and> m \<notin> bits (r_bitmap (pg_phys ?pg))"
    moreover have "pg_phys ?pg = r" by (simp add: add_table_def)
    ultimately show "frame_of (dir_word ?pg e1) \<noteq> page_addr (pg_phys ?pg) m"
      using d [OF lt(1)] x free [of m] r(3) pa paging_inv_4 [OF inv lt(1), of m]
      by (auto split: if_splits)
  qed
qed

subsection \<open>Mapping and unmapping a page\<close>

lemma mmu_translate_phys_upd [simp]: "mmu_translate (pg\<lparr>pg_phys := r\<rparr>) = mmu_translate pg"
  by (simp add: fun_eq_iff mmu_translate_def Let_def)

lemma vstore_dir_add_table:
  "paging_inv pg \<Longrightarrow> e < 1024 \<Longrightarrow>
    vstore (current_page_dir + 4 * e) x (pg\<lparr>pg_phys := r\<rparr>) = Some (add_table e x r pg)"
  by (simp add: vstore_def mmu_translate_dir paging_invD(2-4)) (simp add: add_table_def)

lemma map_phys_page_present:
  assumes "paging_inv pg" and "page_dir_entry v < 1023" and "dir_word pg (page_dir_entry v) \<noteq> 0"
  shows "map_phys_page perms v raddr pg =
    Some (set_entry (page_dir_entry v) (page_table_entry v) (add_page_flags raddr perms) pg)"
  using assms paging_invD(5) [OF assms(1) page_dir_entry_less assms(3)]
  by (simp add: map_phys_page_def Let_def vload_dir page_dir_entry_less page_table_entry_less
      vstore_table set_entry_def)

lemma map_phys_page_new:
  assumes inv: "paging_inv pg" and e: "page_dir_entry v < 1023"
    and d: "dir_word pg (page_dir_entry v) = 0"
    and a: "phys_alloc (pg_phys pg) = Some (a, r)" "a \<noteq> NULL"
  shows "map_phys_page perms v raddr pg =
    Some (set_entry (page_dir_entry v) (page_table_entry v) (add_page_flags raddr perms)
      (add_table (page_dir_entry v) (add_page_flags a PAGE_WRITE) r pg))"
proof -
  let ?e = "page_dir_entry v" and ?x = "add_page_flags a PAGE_WRITE"
  have "present (dir_word (add_table ?e ?x r pg) ?e)"
    by (simp add: add_table_dir page_dir_entry_less add_page_flags_present)
  then show ?thesis
    using inv e d a add_table_inv [OF inv e a]
    by (simp add: map_phys_page_def Let_def vload_dir page_dir_entry_less alloc_phys_page_def
        vstore_dir_add_table page_table_entry_less vstore_table set_entry_def)
qed

text \<open>A fresh table holds what its frame held before: it is not cleared.\<close>

lemma add_table_own:
  assumes inv: "paging_inv pg" and e: "e < 1023" and a: "phys_alloc (pg_phys pg) = Some (a, r)" "a \<noteq> NULL"
  shows "\<forall>t < 1024. table_word (add_table e (add_page_flags a f) r pg) e t = pg_mem pg (frame_word a t)"
proof (intro allI impI)
  fix t :: u32 assume t: "t < 1024"
  from inv a obtain n where n: "n < unat (r_num_pages (pg_phys pg))" "n \<notin> bits (r_bitmap (pg_phys pg))"
    "a = page_addr (pg_phys pg) n" "frame_of a = a" by (rule alloc_phys_page_fresh)
  have e1: "e < 1024" using e by (simp add: u32_nat)
  have "frame_of (pg_cr3 pg) \<noteq> a"
    using paging_inv_4 [OF inv, of 1023 n] paging_invD(2-4) [OF inv] n by simp
  then have "frame_word a t \<noteq> frame_word (pg_cr3 pg) e"
    using frame_word_eq_iff [OF t e1, of a "pg_cr3 pg"] n(4) by auto
  moreover have "frame_word (add_page_flags a f) t = frame_word a t"
    by (simp add: frame_word_def add_page_flags_frame)
  ultimately show "table_word (add_table e (add_page_flags a f) r pg) e t = pg_mem pg (frame_word a t)"
    by (simp add: table_word_def add_table_dir e1) (simp add: add_table_def)
qed

text \<open>Two addresses on the same page.\<close>

definition same_page :: "ptr \<Rightarrow> ptr \<Rightarrow> bool" where
  "same_page v w \<longleftrightarrow> page_dir_entry w = page_dir_entry v \<and> page_table_entry w = page_table_entry v"

lemma set_entry_translate:
  assumes inv: "paging_inv pg" and e: "page_dir_entry v < 1023"
    and tab: "present (dir_word pg (page_dir_entry v))" "\<not> is_4mb (dir_word pg (page_dir_entry v))"
  shows "mmu_translate (set_entry (page_dir_entry v) (page_table_entry v) x pg) w =
    (if same_page v w then if present x then Some (frame_of x OR (w AND 0xfff)) else None
     else mmu_translate pg w)"
proof -
  note w = set_entry_words [OF inv e page_table_entry_less [of v] tab]
  show ?thesis
    using tab w(1) [of "page_dir_entry w" x] w(2) [of "page_dir_entry w" "page_table_entry w" x]
    by (auto simp: mmu_translate_eq same_page_def page_dir_entry_less page_table_entry_less Let_def)
qed

lemma add_table_translate:
  assumes "paging_inv pg" and "page_dir_entry v < 1023" and "page_dir_entry w < 1023"
    and "page_dir_entry w \<noteq> page_dir_entry v"
  shows "mmu_translate (add_table (page_dir_entry v) x r pg) w = mmu_translate pg w"
  using assms add_table_words [OF assms(1,2,3,4) page_table_entry_less [of w], where x = x and r = r]
  by (simp add: mmu_translate_eq add_table_dir page_dir_entry_less Let_def)

lemma dirent_less_1024: "e < 1023 \<Longrightarrow> e < (1024 :: u32)"
  by (simp add: u32_nat)

lemma phys_alloc_available:
  assumes "phys_region_inv r" and "r_available r \<noteq> 0"
  obtains a r' where "phys_alloc r = Some (a, r')" and "a \<noteq> NULL"
proof -
  from phys_alloc_total [OF assms(1)] obtain a r' where a: "phys_alloc r = Some (a, r')" by blast
  moreover have "region_inv r" using assms(1) by (simp add: phys_region_inv_def)
  from region_alloc_SomeD(6) [OF this phys_alloc_SomeD [OF a]] assms(2) have "a \<noteq> NULL" by auto
  ultimately show thesis by (rule that)
qed

text \<open>
  The two shapes a successful \<^verbatim>\<open>map_phys_page\<close> has: it writes the entry of a table that is
  there, or it links a fresh table in first. \<open>mp_table\<close> is the state in between.
\<close>

definition needs_table :: "paging \<Rightarrow> ptr \<Rightarrow> bool" where
  "needs_table pg v \<longleftrightarrow> dir_word pg (page_dir_entry v) = 0"

definition tabled :: "paging \<Rightarrow> ptr \<Rightarrow> paging \<Rightarrow> bool" where
  "tabled pg v pg1 \<longleftrightarrow> paging_inv pg1 \<and> present (dir_word pg1 (page_dir_entry v)) \<and>
     \<not> is_4mb (dir_word pg1 (page_dir_entry v)) \<and>
     (\<forall>w. page_dir_entry w < 1023 \<and> page_dir_entry w \<noteq> page_dir_entry v \<longrightarrow> mmu_translate pg1 w = mmu_translate pg w) \<and>
     region_live (pg_phys pg) \<subseteq> region_live (pg_phys pg1) \<and>
     (\<forall>e' < 1024. e' \<noteq> page_dir_entry v \<longrightarrow> dir_word pg1 e' = dir_word pg e') \<and>
     unat (r_available (pg_phys pg)) = unat (r_available (pg_phys pg1)) + of_bool (needs_table pg v) \<and>
     (if needs_table pg v then \<exists>a r. phys_alloc (pg_phys pg) = Some (a, r) \<and>
        (\<forall>t < 1024. table_word pg1 (page_dir_entry v) t = pg_mem pg (frame_word a t))
      else pg1 = pg)"

lemma map_phys_page_cases:
  assumes inv: "paging_inv pg" and e: "page_dir_entry v < 1023"
    and n4: "\<not> is_4mb (dir_word pg (page_dir_entry v))"
    and av: "needs_table pg v \<Longrightarrow> r_available (pg_phys pg) \<noteq> 0"
  obtains pg1 where "tabled pg v pg1" and "\<forall>perms raddr. map_phys_page perms v raddr pg =
      Some (set_entry (page_dir_entry v) (page_table_entry v) (add_page_flags raddr perms) pg1)"
proof (cases "needs_table pg v")
  case False
  then have d: "dir_word pg (page_dir_entry v) \<noteq> 0" by (simp add: needs_table_def)
  have "tabled pg v pg"
    using False inv paging_invD(5) [OF inv _ d] n4 by (simp add: tabled_def page_dir_entry_less)
  then show thesis using that map_phys_page_present [OF inv e d] by blast
next
  case True
  then have d: "dir_word pg (page_dir_entry v) = 0" by (simp add: needs_table_def)
  from phys_alloc_step [OF paging_invD(1) [OF inv] av [OF True]]
  obtain a r where a: "phys_alloc (pg_phys pg) = Some (a, r)" "a \<noteq> NULL"
    and left: "unat (r_available (pg_phys pg)) = Suc (unat (r_available r))" .
  have fa: "frame_of a = a" "region_live r = insert a (region_live (pg_phys pg))"
    using inv a by (rule alloc_phys_page_fresh, simp)+
  let ?pg1 = "add_table (page_dir_entry v) (add_page_flags a PAGE_WRITE) r pg"
  have p: "pg_phys ?pg1 = r" by (simp add: add_table_def)
  have "tabled pg v ?pg1"
    unfolding tabled_def p
    using True left fa(2) a(1) add_table_inv [OF inv e a] add_table_own [OF inv e a] not_4mb_aligned [OF fa(1)]
    by (auto simp: add_table_dir page_dir_entry_less add_page_flags_present add_page_flags_4mb
        intro: add_table_translate [OF inv e])
  then show thesis using that map_phys_page_new [OF inv e d a] by blast
qed

lemma tabledD:
  assumes "tabled pg v pg1"
  shows "paging_inv pg1" and "present (dir_word pg1 (page_dir_entry v))" and "\<not> is_4mb (dir_word pg1 (page_dir_entry v))"
    and "region_live (pg_phys pg) \<subseteq> region_live (pg_phys pg1)"
    and "unat (r_available (pg_phys pg)) = unat (r_available (pg_phys pg1)) + of_bool (needs_table pg v)"
    and "\<not> needs_table pg v \<Longrightarrow> pg1 = pg"
    and "e' < 1024 \<Longrightarrow> e' \<noteq> page_dir_entry v \<Longrightarrow> dir_word pg1 e' = dir_word pg e'"
    and "page_dir_entry w < 1023 \<Longrightarrow> \<not> needs_table pg v \<or> page_dir_entry w \<noteq> page_dir_entry v \<Longrightarrow>
      mmu_translate pg1 w = mmu_translate pg w"
    and "needs_table pg v \<Longrightarrow> \<exists>a r. phys_alloc (pg_phys pg) = Some (a, r) \<and>
      (\<forall>t < 1024. table_word pg1 (page_dir_entry v) t = pg_mem pg (frame_word a t))"
  using assms unfolding tabled_def by (auto split: if_splits)

text \<open>
  C2: \<^verbatim>\<open>map_phys_page\<close> on a page whose directory entry is a table or is empty with a physical
  page to spare: it returns, every address of the page then translates to the same offset in
  the frame it was given, and the paging invariant is kept. If the table was there, every other page
  translates as before. If it was not, every page under another directory entry translates as
  before, and the other pages of the new table translate by the words its frame happened to
  hold: the code does not clear it.
\<close>

theorem map_phys_page_translates:
  assumes "paging_inv pg" and "page_dir_entry v < 1023" and "frame_of raddr = raddr"
    and "\<not> is_4mb (dir_word pg (page_dir_entry v))"
    and "needs_table pg v \<longrightarrow> r_available (pg_phys pg) \<noteq> 0"
  shows "\<exists>pg'. map_phys_page perms v raddr pg = Some pg' \<and> paging_inv pg' \<and>
    (\<forall>w. same_page v w \<longrightarrow> mmu_translate pg' w = Some (raddr OR (w AND 0xfff))) \<and>
    (\<not> needs_table pg v \<longrightarrow> (\<forall>w. \<not> same_page v w \<longrightarrow> mmu_translate pg' w = mmu_translate pg w)) \<and>
    (needs_table pg v \<longrightarrow>
      (\<forall>w. page_dir_entry w < 1023 \<and> page_dir_entry w \<noteq> page_dir_entry v \<longrightarrow>
         mmu_translate pg' w = mmu_translate pg w) \<and>
      (\<exists>a r. phys_alloc (pg_phys pg) = Some (a, r) \<and>
        (\<forall>w. page_dir_entry w = page_dir_entry v \<and> \<not> same_page v w \<longrightarrow>
           mmu_translate pg' w =
             (let te = pg_mem pg (frame_word a (page_table_entry w))
              in if present te then Some (frame_of te OR (w AND 0xfff)) else None))))"
proof -
  have av: "needs_table pg v \<Longrightarrow> r_available (pg_phys pg) \<noteq> 0" using assms(5) by simp
  from assms(1,2,4) av obtain pg1 where t: "tabled pg v pg1"
    and run: "\<forall>perms raddr. map_phys_page perms v raddr pg =
      Some (set_entry (page_dir_entry v) (page_table_entry v) (add_page_flags raddr perms) pg1)"
    by (rule map_phys_page_cases)
  let ?pg' = "set_entry (page_dir_entry v) (page_table_entry v) (add_page_flags raddr perms) pg1"
  note pg1 = tabledD(1-3) [OF t] and same = tabledD(6) [OF t] and eq = tabledD(8) [OF t] and new = tabledD(9) [OF t]
  note tr = set_entry_translate [OF pg1(1) assms(2) pg1(2,3), of "add_page_flags raddr perms"]
  have "needs_table pg v \<Longrightarrow> \<exists>a r. phys_alloc (pg_phys pg) = Some (a, r) \<and>
      (\<forall>w. page_dir_entry w = page_dir_entry v \<and> \<not> same_page v w \<longrightarrow> mmu_translate ?pg' w =
         (let te = pg_mem pg (frame_word a (page_table_entry w))
          in if present te then Some (frame_of te OR (w AND 0xfff)) else None))"
    using new pg1(2,3) page_table_entry_less by (fastforce simp: tr mmu_translate_eq [of pg1] Let_def)
  moreover have "page_dir_entry w \<noteq> page_dir_entry v \<Longrightarrow> \<not> same_page v w" for w by (simp add: same_page_def)
  moreover have "mmu_translate ?pg' w = mmu_translate pg w" if "\<not> needs_table pg v" "\<not> same_page v w" for w
    using tr [of w] that same [OF that(1)] by simp
  moreover have "mmu_translate ?pg' w = Some (raddr OR (w AND 0xfff))" if "same_page v w" for w
    using tr [of w] that assms(3) by (simp add: add_page_flags_present add_page_flags_frame)
  ultimately show ?thesis
    using run set_entry_inv [OF pg1(1) assms(2) page_table_entry_less pg1(2,3)] tr eq
    by (intro exI [of _ ?pg']) simp
qed

text \<open>The entry \<^verbatim>\<open>unmap_page\<close> clears, and the frame it gives back.\<close>

lemma frame_of_split:
  shows "x = frame_of x + (x AND 0xfff)" and "unat (x AND 0xfff) < 4096"
proof -
  have "frame_of x AND (x AND 0xfff) = 0" "frame_of x OR (x AND 0xfff) = x"
    unfolding frame_of_def u32_0xfff by (intro bit_word_eqI; auto simp: bit_simps)+
  then show "x = frame_of x + (x AND 0xfff)"
    using word_plus_and_or [of "frame_of x" "x AND 0xfff"] by simp
  have "x AND 0xfff \<le> 0xfff" by (rule word_and_le1)
  then show "unat (x AND 0xfff) < 4096" by (simp add: word_le_nat_alt)
qed

lemma phys_release_frame:
  assumes inv: "phys_region_inv r" and x: "frame_of x \<in> region_live r"
  obtains r' where "phys_release x r = Some r'" and "phys_region_inv r'"
    and "region_live r' = region_live r - {frame_of x}"
    and "r_num_pages r' = r_num_pages r" and "r_vaddress r' = r_vaddress r"
proof -
  have ri: "region_inv r" and m: "r_mode r = REGION_MODE_PHYSICAL"
    using inv by (auto simp: phys_region_inv_def)
  from x obtain n where n: "n < unat (r_num_pages r)" "n \<in> bits (r_bitmap r)"
    and fx: "frame_of x = page_addr r n" by (auto simp: region_live_def)
  from region_put [OF ri n] obtain bm where bm: "bitmap_unset (r_bitmap r) (of_nat n) = Some bm"
    and i: "region_inv (r\<lparr>r_bitmap := bm, r_available := r_available r + 1\<rparr>)"
    and l: "region_live (r\<lparr>r_bitmap := bm, r_available := r_available r + 1\<rparr>) =
      region_live r - {page_addr r n}" .
  have "x = page_addr r n + (x AND 0xfff)" using frame_of_split(1) [of x] fx by simp
  with region_free_eq [OF ri n(1) frame_of_split(2) [of x] bm, of "\<lambda>_ _. None" "()"]
  have "phys_release x r = Some (r\<lparr>r_bitmap := bm, r_available := r_available r + 1\<rparr>)"
    using m by (simp add: phys_release_def c4_enum)
  then show thesis by (rule that) (use i l m fx in \<open>simp_all add: phys_region_inv_def\<close>)
qed

lemma paging_inv_phys_upd:
  assumes inv: "paging_inv pg" and r: "phys_region_inv r" "r_num_pages r = r_num_pages (pg_phys pg)"
    "r_vaddress r = r_vaddress (pg_phys pg)" "region_live r = region_live (pg_phys pg) - {a}"
    and a: "\<And>e. e < 1024 \<Longrightarrow> present (dir_word pg e) \<Longrightarrow> \<not> is_4mb (dir_word pg e) \<Longrightarrow>
      frame_of (dir_word pg e) \<noteq> a"
  shows "paging_inv (pg\<lparr>pg_phys := r\<rparr>)"
proof -
  have d: "dir_word (pg\<lparr>pg_phys := r\<rparr>) e = dir_word pg e" for e by (simp add: dir_word_def)
  have ri: "region_inv (pg_phys pg)" "region_inv r"
    using paging_invD(1) [OF inv] r(1) by (auto simp: phys_region_inv_def)
  have "frame_of (dir_word pg e) \<noteq> page_addr r n" if "e < 1024" "n < unat (r_num_pages r)"
    "present (dir_word pg e)" "\<not> is_4mb (dir_word pg e)" "n \<notin> bits (r_bitmap r)" for e n
    using bits_free_live [OF ri(2) that(2)] bits_free_live [OF ri(1), of n] r that
      paging_inv_4 [OF inv that(1), of n] a [OF that(1,3,4)] page_addr_cong [OF r(3), of n] by auto
  then show ?thesis
    using inv r(1) unfolding paging_inv_def by (simp add: d)
qed

lemma invalidate_page_same [simp]:
  "pg_mem (invalidate_page p pg) = pg_mem pg" "pg_cr3 (invalidate_page p pg) = pg_cr3 pg"
  "pg_phys (invalidate_page p pg) = pg_phys pg" "dir_word (invalidate_page p pg) = dir_word pg"
  "mmu_translate (invalidate_page p pg) = mmu_translate pg" "paging_inv (invalidate_page p pg) = paging_inv pg"
  "pg_invlpg (invalidate_page p pg) = pg_invlpg pg @ [pg_arg_slot pg]"
proof -
  show d: "dir_word (invalidate_page p pg) = dir_word pg" by (simp add: fun_eq_iff dir_word_def invalidate_page_def)
  show "mmu_translate (invalidate_page p pg) = mmu_translate pg"
    by (simp add: fun_eq_iff mmu_translate_def invalidate_page_def Let_def)
  show "paging_inv (invalidate_page p pg) = paging_inv pg"
    unfolding paging_inv_def d by (simp add: invalidate_page_def)
qed (simp_all add: invalidate_page_def)

text \<open>
  C36: \<^verbatim>\<open>unmap_page\<close> on a mapped page whose frame is a live page of the physical region and holds no
  page table of the current directory: by the tables the page no longer translates and every other
  page translates as before, the frame is free again (whatever flags the entry carried), and the
  invariant is kept. The one page flushed from the translation cache is that of the argument on the
  stack, so a cached translation of the unmapped page survives.
\<close>

theorem unmap_page_releases:
  assumes inv: "paging_inv pg" and e: "page_dir_entry v < 1023"
    and tab: "present (dir_word pg (page_dir_entry v))" "\<not> is_4mb (dir_word pg (page_dir_entry v))"
    and te: "te = table_word pg (page_dir_entry v) (page_table_entry v)" "te \<noteq> 0"
    and fr: "frame_of te \<in> region_live (pg_phys pg)"
    and nt: "\<forall>e' < 1024. present (dir_word pg e') \<and> \<not> is_4mb (dir_word pg e') \<longrightarrow>
      frame_of (dir_word pg e') \<noteq> frame_of te"
  shows "\<exists>pg'. unmap_page v pg = Some pg' \<and> paging_inv pg' \<and>
    region_live (pg_phys pg') = region_live (pg_phys pg) - {frame_of te} \<and>
    (\<forall>w. mmu_translate pg' w = (if same_page v w then None else mmu_translate pg w)) \<and>
    pg_invlpg pg' = pg_invlpg pg @ [pg_arg_slot pg]"
proof -
  let ?pg1 = "set_entry (page_dir_entry v) (page_table_entry v) 0 pg"
  from phys_release_frame [OF paging_invD(1) [OF inv] fr] obtain r where
    r: "phys_release te (pg_phys pg) = Some r" "phys_region_inv r"
      "region_live r = region_live (pg_phys pg) - {frame_of te}"
      "r_num_pages r = r_num_pages (pg_phys pg)" "r_vaddress r = r_vaddress (pg_phys pg)" .
  have p1: "pg_phys ?pg1 = pg_phys pg" by (simp add: set_entry_def)
  have d0: "dir_word pg (page_dir_entry v) \<noteq> 0" using tab(1) by (auto simp: present_def)
  let ?pg2 = "invalidate_page te ?pg1"
  have run: "unmap_page v pg = Some (?pg2\<lparr>pg_phys := r\<rparr>)"
    using r(1) te d0 p1
    by (simp add: unmap_page_def Let_def vload_dir [OF inv] vload_table [OF inv] tab
        vstore_table [OF inv] page_dir_entry_less page_table_entry_less free_phys_page_def
        flip: set_entry_def)
  have i1: "paging_inv ?pg1" by (rule set_entry_inv [OF inv e page_table_entry_less tab])
  note dw = set_entry_words(1) [OF inv e page_table_entry_less tab]
  have "paging_inv (?pg2\<lparr>pg_phys := r\<rparr>)"
    by (rule paging_inv_phys_upd [where a = "frame_of te"])
       (use i1 r p1 nt dw in auto)
  moreover have "\<not> present 0" by (simp add: present_def)
  moreover have "pg_invlpg ?pg1 = pg_invlpg pg" "pg_arg_slot ?pg1 = pg_arg_slot pg" by (simp_all add: set_entry_def)
  ultimately show ?thesis
    using run r(3) set_entry_translate [OF inv e tab] by simp
qed

lemma alloc_phys_page_inv:
  assumes inv: "paging_inv pg" and a: "phys_alloc (pg_phys pg) = Some (a, r)" "a \<noteq> NULL"
  shows "paging_inv (pg\<lparr>pg_phys := r\<rparr>)"
proof -
  from inv a obtain n where r: "phys_region_inv r" "r_num_pages r = r_num_pages (pg_phys pg)"
    "r_vaddress r = r_vaddress (pg_phys pg)" "region_live r = insert a (region_live (pg_phys pg))"
    by (rule alloc_phys_page_fresh)
  have d: "dir_word (pg\<lparr>pg_phys := r\<rparr>) e = dir_word pg e" for e by (simp add: dir_word_def)
  have ri: "region_inv (pg_phys pg)" "region_inv r"
    using paging_invD(1) [OF inv] r(1) by (auto simp: phys_region_inv_def)
  have "frame_of (dir_word pg e) \<noteq> page_addr r n" if "e < 1024" "n < unat (r_num_pages r)"
    "present (dir_word pg e)" "\<not> is_4mb (dir_word pg e)" "n \<notin> bits (r_bitmap r)" for e n
    using bits_free_live [OF ri(2) that(2)] bits_free_live [OF ri(1), of n] r that
      paging_inv_4 [OF inv that(1), of n] page_addr_cong [OF r(3), of n] by auto
  then show ?thesis
    using inv r(1) unfolding paging_inv_def by (simp add: d)
qed

text \<open>
  \<^verbatim>\<open>map_page\<close> with two physical pages to spare: it takes a frame that was not in use, maps
  the page to it, and leaves the other pages' translations alone.
\<close>

theorem map_page_fresh:
  assumes inv: "paging_inv pg" and e: "page_dir_entry v < 1023"
    and n4: "\<not> is_4mb (dir_word pg (page_dir_entry v))"
    and av: "2 \<le> unat (r_available (pg_phys pg))"
  shows "\<exists>f pg'. map_page perms v pg = Some pg' \<and> paging_inv pg' \<and>
    f \<notin> region_live (pg_phys pg) \<and> f \<in> region_live (pg_phys pg') \<and> frame_of f = f \<and>
    (\<forall>w. same_page v w \<longrightarrow> mmu_translate pg' w = Some (f OR (w AND 0xfff))) \<and>
    (\<forall>w. page_dir_entry w < 1023 \<and> \<not> same_page v w \<and>
       (\<not> needs_table pg v \<or> page_dir_entry w \<noteq> page_dir_entry v) \<longrightarrow>
       mmu_translate pg' w = mmu_translate pg w)"
proof -
  have "r_available (pg_phys pg) \<noteq> 0" using av by auto
  from phys_alloc_step [OF paging_invD(1) [OF inv] this] obtain f r where
    f: "phys_alloc (pg_phys pg) = Some (f, r)" "f \<noteq> NULL"
      "unat (r_available (pg_phys pg)) = Suc (unat (r_available r))" .
  have fr: "frame_of f = f" "f \<notin> region_live (pg_phys pg)" "f \<in> region_live r"
    using inv f(1,2) by (rule alloc_phys_page_fresh, simp)+
  let ?pg = "pg\<lparr>pg_phys := r\<rparr>"
  have d: "dir_word ?pg i = dir_word pg i" for i by (simp add: dir_word_def)
  have "r_available (pg_phys ?pg) \<noteq> 0" using f(3) av by auto
  then have av': "needs_table ?pg v \<Longrightarrow> r_available (pg_phys ?pg) \<noteq> 0" by simp
  from alloc_phys_page_inv [OF inv f(1,2)] e n4 [folded d] av' obtain pg1 where t: "tabled ?pg v pg1"
    and pg': "\<forall>perms raddr. map_phys_page perms v raddr ?pg =
      Some (set_entry (page_dir_entry v) (page_table_entry v) (add_page_flags raddr perms) pg1)"
    by (rule map_phys_page_cases)
  note pg1 = tabledD(1-3) [OF t] and eq = tabledD(8) [OF t] and live = tabledD(4) [OF t]
  have nt: "needs_table ?pg v = needs_table pg v" by (simp add: needs_table_def d)
  note tr = set_entry_translate [OF pg1(1) e pg1(2,3)]
  have "pg_phys (set_entry x y z pg1) = pg_phys pg1" for x y z by (simp add: set_entry_def)
  moreover have "map_page perms v pg = map_phys_page perms v f ?pg"
    using f(1) by (simp add: map_page_def alloc_phys_page_def)
  ultimately show ?thesis
    using pg' set_entry_inv [OF pg1(1) e page_table_entry_less pg1(2,3)] tr eq [unfolded nt] fr live
    by (intro exI [of _ f]) (auto simp: add_page_flags_present add_page_flags_frame)
qed

subsection \<open>A concrete directory\<close>

text \<open>
  A small machine: the directory in frame \<^verbatim>\<open>0x1000\<close> with its recursive entry, a table in frame
  \<^verbatim>\<open>0x2000\<close> for directory entry 0, and page 0 mapped to frame \<^verbatim>\<open>0x3000\<close>; the physical region
  has the four frames from \<^verbatim>\<open>0x1000\<close> on, the last of them free.
\<close>

definition small_paging :: paging where
  "small_paging =
     \<lparr>pg_mem = (\<lambda>_. 0)(frame_word 0x1000 1023 := 0x1003, frame_word 0x1000 0 := 0x2003,
                       frame_word 0x2000 0 := 0x3003),
      pg_cr3 = 0x1003,
      pg_phys = \<lparr>r_bitmap = [7], r_vaddress = 0x1000, r_num_pages = 4, r_available = 1,
                 r_page_flags = 0, r_mode = REGION_MODE_PHYSICAL\<rparr>,
      pg_kernel_dir = 0xfd001000, pg_arg_slot = 0xfd050ff0, pg_invlpg = []\<rparr>"

lemma frame_of_small: "frame_of 0x1003 = 0x1000" "frame_of 0x2003 = 0x2000" "frame_of 0x1000 = 0x1000"
  "frame_of 0x2000 = 0x2000" "frame_of 0x3003 = 0x3000" "frame_of 0x4000 = 0x4000"
  by (simp_all add: frame_of_def)

lemma small_dir: "e < 1024 \<Longrightarrow> dir_word small_paging e =
    (if e = 1023 then 0x1003 else if e = 0 then 0x2003 else 0)"
  by (simp add: dir_word_def small_paging_def frame_word_eq_iff frame_of_small)

lemma small_table: "t < 1024 \<Longrightarrow> table_word small_paging 0 t = (if t = 0 then 0x3003 else 0)"
  by (simp add: table_word_def small_dir)
     (simp add: small_paging_def frame_word_eq_iff frame_of_small)

lemma small_bits: "bits [7] = {0, 1, 2}"
proof -
  have "bit (mask m :: int) n \<longleftrightarrow> n < m" for m n by (simp add: bit_mask_iff)
  from this [of 3] have "bit (7 :: int) n \<longleftrightarrow> n < 3" for n by (simp add: mask_eq_exp_minus_1)
  moreover have "n < 32 \<and> n < 3 \<longleftrightarrow> n \<in> {0, 1, 2 :: nat}" for n by auto
  ultimately show ?thesis by (simp add: bits_def set_eq_iff cong: conj_cong)
qed

lemma small_region:
  "region_live (pg_phys small_paging) = {0x1000, 0x2000, 0x3000}"
  "phys_region_inv (pg_phys small_paging)"
proof -
  have "{n. (n = 0 \<or> n = 1 \<or> n = 2) \<and> n < (4::nat)} = {0, 1, 2}" by auto
  then show "region_live (pg_phys small_paging) = {0x1000, 0x2000, 0x3000}"
    by (simp add: region_live_def small_paging_def small_bits page_addr_def PAGE_SIZE_def)
  have "{..< 4} - {0, 1, 2 :: nat} = {3}" by auto
  then show "phys_region_inv (pg_phys small_paging)"
    by (simp add: phys_region_inv_def region_inv_def small_paging_def small_bits)
qed

lemma small_paging_inv: "paging_inv small_paging"
proof -
  have free: "n = 3" if "n < unat (r_num_pages (pg_phys small_paging))"
    "n \<notin> bits (r_bitmap (pg_phys small_paging))" for n
    using that by (auto simp: small_paging_def small_bits)
  have "page_addr (pg_phys small_paging) 3 = 0x4000"
    by (simp add: page_addr_def small_paging_def PAGE_SIZE_def)
  then have 4: "frame_of (dir_word small_paging e) \<noteq> page_addr (pg_phys small_paging) n"
    if "e < 1024" "n < unat (r_num_pages (pg_phys small_paging))"
      "n \<notin> bits (r_bitmap (pg_phys small_paging))" "present (dir_word small_paging e)" for e n
    using free [OF that(2,3)] that(1,4)
    by (auto simp: small_dir frame_of_small present_def split: if_splits)
  have cr3: "pg_cr3 small_paging = 0x1003" by (simp add: small_paging_def)
  show ?thesis
    unfolding paging_inv_def
    using small_region(2) 4
    by (auto simp: small_dir cr3 frame_of_small present_def is_4mb_def c4_enum split: if_splits)
qed

text \<open>C2 on the small machine: page \<^verbatim>\<open>0x5000\<close> to the free frame.\<close>

theorem map_phys_page_translates_witness:
  "\<exists>pg'. map_phys_page PAGE_WRITE 0x5000 0x4000 small_paging = Some pg' \<and> paging_inv pg' \<and>
    mmu_translate pg' 0x5123 = Some 0x4123 \<and> mmu_translate pg' 0x123 = Some 0x3123"
proof -
  have e: "page_dir_entry 0x5000 = 0" "page_dir_entry 0x5123 = 0" "page_table_entry 0x5000 = 5"
    "page_table_entry 0x5123 = 5" "page_dir_entry 0x123 = 0" "page_table_entry 0x123 = 0"
    by (simp_all add: page_dir_entry_def page_table_entry_def drop_bit_eq_div)
  have p: "\<not> is_4mb (dir_word small_paging (page_dir_entry 0x5000))" "\<not> needs_table small_paging 0x5000"
    by (simp_all add: e small_dir is_4mb_def c4_enum needs_table_def)
  from map_phys_page_translates [of small_paging "0x5000" "0x4000" PAGE_WRITE] obtain pg' where
    pg': "map_phys_page PAGE_WRITE 0x5000 0x4000 small_paging = Some pg'" "paging_inv pg'"
    "\<forall>w. same_page 0x5000 w \<longrightarrow> mmu_translate pg' w = Some (0x4000 OR (w AND 0xfff))"
    "\<forall>w. page_dir_entry w < 1023 \<and> \<not> same_page 0x5000 w \<longrightarrow>
      mmu_translate pg' w = mmu_translate small_paging w"
    using p small_paging_inv by (auto simp: e frame_of_small)
  have "mmu_translate pg' 0x5123 = Some 0x4123"
    using pg'(3) [rule_format, of "0x5123"] by (simp add: same_page_def e)
  moreover have "mmu_translate pg' 0x123 = mmu_translate small_paging 0x123"
    using pg'(4) [rule_format, of "0x123"] by (simp add: same_page_def e)
  then have "mmu_translate pg' 0x123 = Some 0x3123"
    by (simp add: mmu_translate_eq e small_dir small_table present_def is_4mb_def c4_enum frame_of_small)
  ultimately show ?thesis using pg' by blast
qed

text \<open>C36 on the small machine: page 0 is unmapped and frame \<^verbatim>\<open>0x3000\<close> is free again.\<close>

theorem unmap_page_releases_witness:
  "\<exists>pg'. unmap_page 0x123 small_paging = Some pg' \<and> mmu_translate pg' 0 = None \<and>
    region_live (pg_phys pg') = {0x1000, 0x2000}"
proof -
  have e: "page_dir_entry 0x123 = 0" "page_table_entry 0x123 = 0" "page_dir_entry 0 = 0"
    "page_table_entry 0 = 0"
    by (simp_all add: page_dir_entry_def page_table_entry_def drop_bit_eq_div)
  have h: "0x3003 = table_word small_paging (page_dir_entry 0x123) (page_table_entry 0x123)"
    "present (dir_word small_paging (page_dir_entry 0x123))"
    "\<not> is_4mb (dir_word small_paging (page_dir_entry 0x123))"
    "frame_of 0x3003 \<in> region_live (pg_phys small_paging)"
    by (simp_all add: e small_dir small_table present_def is_4mb_def c4_enum frame_of_small small_region)
  have "\<forall>e' < 1024. present (dir_word small_paging e') \<and> \<not> is_4mb (dir_word small_paging e') \<longrightarrow>
      frame_of (dir_word small_paging e') \<noteq> frame_of 0x3003"
    by (auto simp: small_dir frame_of_small present_def split: if_splits)
  from unmap_page_releases [OF small_paging_inv _ h(2,3,1) _ h(4) this]
  obtain pg' where "unmap_page 0x123 small_paging = Some pg'"
    "region_live (pg_phys pg') = region_live (pg_phys small_paging) - {frame_of 0x3003}"
    "\<forall>w. mmu_translate pg' w = (if same_page 0x123 w then None else mmu_translate small_paging w)"
    by (auto simp: e)
  then show ?thesis by (auto simp: small_region frame_of_small same_page_def e)
qed

text \<open>The small machine with a fifth frame.\<close>

definition small_paging5 :: paging where
  "small_paging5 = small_paging\<lparr>pg_phys := (pg_phys small_paging)\<lparr>r_num_pages := 5, r_available := 2\<rparr>\<rparr>"

lemma small_paging5_inv: "paging_inv small_paging5"
proof -
  have d: "dir_word small_paging5 e = dir_word small_paging e" for e
    by (simp add: dir_word_def small_paging5_def)
  have "{..< 5} - {0, 1, 2 :: nat} = {3, 4}" by auto
  then have r: "phys_region_inv (pg_phys small_paging5)"
    by (simp add: small_paging5_def phys_region_inv_def region_inv_def small_paging_def small_bits)
  have pa: "page_addr (pg_phys small_paging5) 3 = 0x4000" "page_addr (pg_phys small_paging5) 4 = 0x5000"
    by (simp_all add: page_addr_def small_paging5_def small_paging_def PAGE_SIZE_def)
  have "n = 3 \<or> n = 4" if "n < unat (r_num_pages (pg_phys small_paging5))"
    "n \<notin> bits (r_bitmap (pg_phys small_paging5))" for n
    using that by (auto simp: small_paging5_def small_paging_def small_bits)
  with pa have 4: "frame_of (dir_word small_paging e) \<noteq> page_addr (pg_phys small_paging5) n"
    if "e < 1024" "n < unat (r_num_pages (pg_phys small_paging5))"
      "n \<notin> bits (r_bitmap (pg_phys small_paging5))" "present (dir_word small_paging e)" for e n
    using that by (fastforce simp: small_dir frame_of_small present_def split: if_splits)
  have "pg_cr3 small_paging5 = pg_cr3 small_paging" by (simp add: small_paging5_def)
  then show ?thesis
    using small_paging_inv r 4 unfolding paging_inv_def d by simp
qed

text \<open>a page under an empty directory entry, with five pages in the physical region.\<close>

theorem map_page_fresh_witness:
  "\<exists>f pg'. map_page PAGE_WRITE 0x400123 small_paging5 = Some pg' \<and> f \<notin> {0x1000, 0x2000, 0x3000} \<and>
    mmu_translate pg' 0x400456 = Some (f OR 0x456) \<and> mmu_translate pg' 0x123 = Some 0x3123"
proof -
  have e: "page_dir_entry 0x400123 = 1" "page_dir_entry 0x400456 = 1" "page_table_entry 0x400123 = 0"
    "page_table_entry 0x400456 = 0" "page_dir_entry 0x123 = 0" "page_table_entry 0x123 = 0"
    by (simp_all add: page_dir_entry_def page_table_entry_def drop_bit_eq_div)
  have d: "dir_word small_paging5 i = dir_word small_paging i"
    "table_word small_paging5 i j = table_word small_paging i j" for i j
    by (simp_all add: dir_word_def table_word_def small_paging5_def)
  have "\<not> is_4mb (dir_word small_paging5 (page_dir_entry 0x400123))"
    by (simp add: d e small_dir is_4mb_def)
  moreover have "2 \<le> unat (r_available (pg_phys small_paging5))" by (simp add: small_paging5_def)
  ultimately obtain f pg' where pg': "map_page PAGE_WRITE 0x400123 small_paging5 = Some pg'"
    "f \<notin> region_live (pg_phys small_paging5)"
    "\<forall>w. same_page 0x400123 w \<longrightarrow> mmu_translate pg' w = Some (f OR (w AND 0xfff))"
    "\<forall>w. page_dir_entry w < 1023 \<and> \<not> same_page 0x400123 w \<and>
       (\<not> needs_table small_paging5 0x400123 \<or> page_dir_entry w \<noteq> page_dir_entry 0x400123) \<longrightarrow>
       mmu_translate pg' w = mmu_translate small_paging5 w"
    using map_page_fresh [OF small_paging5_inv, of "0x400123" PAGE_WRITE] by (auto simp: e)
  have "{n. (n = 0 \<or> n = 1 \<or> n = 2) \<and> n < (5::nat)} = {0, 1, 2}" by auto
  then have "region_live (pg_phys small_paging5) = {0x1000, 0x2000, 0x3000}"
    by (simp add: region_live_def small_paging5_def small_paging_def small_bits page_addr_def PAGE_SIZE_def)
  moreover have "mmu_translate pg' 0x400456 = Some (f OR 0x456)"
    using pg'(3) [rule_format, of "0x400456"] by (simp add: same_page_def e)
  moreover have "mmu_translate pg' 0x123 = mmu_translate small_paging5 0x123"
    using pg'(4) [rule_format, of "0x123"] by (simp add: same_page_def e)
  then have "mmu_translate pg' 0x123 = Some 0x3123"
    by (simp add: mmu_translate_eq e d small_dir small_table present_def is_4mb_def c4_enum frame_of_small)
  ultimately show ?thesis using pg'(1,2) by auto
qed

end
