(* ===== verification/C4_Slab.thy ===== *)
theory C4_Slab
  imports C4_Paging
begin

text \<open>
  The slab allocator of \<^verbatim>\<open>src/mm/slab.c\<close>, on top of the global region of \<^verbatim>\<open>src/mm/region.c\<close>.

  A slab hands out objects of one size from page-sized blocks. The first slot of a block is
  its header (\<^verbatim>\<open>slab_blk_t\<close>) with a 32-bit map of the slots in use; the blocks of a slab are on
  one of three doubly linked lists, by whether they are free, partly used or full. The state
  \<open>mm\<close> of memory management holds the global region, the paging state beneath it, the block
  headers in a heap keyed by block address, and the kernel's slabs.

  Every \<^verbatim>\<open>slab_init_at\<close> call of the kernel passes \<^verbatim>\<open>region_get_global()\<close>, so the slab's \<^verbatim>\<open>region\<close>
  field is not kept. Constructors and destructors are code addresses; a call of one is
  recorded in \<open>mm_calls\<close>, and no slab of the kernel has one.
\<close>

text \<open>The kernel's slabs: the \<^verbatim>\<open>static slab_t\<close> objects of the sources.\<close>

datatype slab_id = queue_slab | cap_space_slab | atree_slab | thread_slab | addr_space_slab
  | phys_frame_slab | message_queue_slab | message_queue_async_slab | message_node_slab

datatype slab_which = free_list | partial_list | full_list

record slab_blk_t =
  blk_magic :: u32
  blk_map :: bitmap_ent_t
  blk_slab :: slab_id
  blk_prev :: ptr
  blk_next :: ptr
  blk_list :: "(slab_id \<times> slab_which) option"

record slab_list_t =
  sll_first :: ptr
  sll_size :: u32

record slab_t =
  sl_lock :: lock_t
  sl_free :: slab_list_t
  sl_partial :: slab_list_t
  sl_full :: slab_list_t
  sl_ctor :: ptr
  sl_dtor :: ptr
  sl_obj_size :: u32
  sl_total_pages :: u32

definition MAGIC :: u32 where [c4_enum]: "MAGIC = 0xabadc0de"
definition MAX_FREE_SLABS :: u32 where [c4_enum]: "MAX_FREE_SLABS = 2"

record mm =
  mm_region :: region_t
  mm_region_init :: bool
  mm_pg :: paging
  mm_blks :: "slab_blk_t heap"
  mm_slabs :: "slab_id \<Rightarrow> slab_t"
  mm_calls :: "(ptr \<times> ptr) list"

subsection \<open>The global region\<close>

definition region_init_global :: "ptr \<Rightarrow> mm \<Rightarrow> mm option" where
  "region_init_global addr m =
     (if \<not> mm_region_init m
      then do {
        r \<leftarrow> region_init_at addr (r_bitmap (mm_region m)) (32 * BITMAP_BPS)
               (PAGE_READ OR PAGE_WRITE OR PAGE_SUPERVISOR) REGION_MODE_VIRTUAL;
        Some (m\<lparr>mm_region := r, mm_region_init := True\<rparr>)
      }
      else Some m)"

definition region_global_is_inited :: "mm \<Rightarrow> bool" where
  "region_global_is_inited m = mm_region_init m"

text \<open>\<^verbatim>\<open>region_alloc(region_get_global())\<close> and \<^verbatim>\<open>region_free(region_get_global(), page)\<close>.\<close>

definition global_alloc :: "mm \<Rightarrow> (ptr \<times> mm) option" where
  "global_alloc m = do {
     (a, r, p) \<leftarrow> region_alloc map_page (mm_region m) (mm_pg m);
     Some (a, m\<lparr>mm_region := r, mm_pg := p\<rparr>)
   }"

definition global_free :: "ptr \<Rightarrow> mm \<Rightarrow> mm option" where
  "global_free page m = do {
     (r, p) \<leftarrow> region_free unmap_page (mm_region m) page (mm_pg m);
     Some (m\<lparr>mm_region := r, mm_pg := p\<rparr>)
   }"

subsection \<open>Blocks and their lists\<close>

fun slab_get_list :: "slab_which \<Rightarrow> slab_t \<Rightarrow> slab_list_t" where
  "slab_get_list free_list s = sl_free s"
| "slab_get_list partial_list s = sl_partial s"
| "slab_get_list full_list s = sl_full s"

fun slab_set_list :: "slab_which \<Rightarrow> slab_list_t \<Rightarrow> slab_t \<Rightarrow> slab_t" where
  "slab_set_list free_list l s = s\<lparr>sl_free := l\<rparr>"
| "slab_set_list partial_list l s = s\<lparr>sl_partial := l\<rparr>"
| "slab_set_list full_list l s = s\<lparr>sl_full := l\<rparr>"

definition get_list :: "slab_id \<times> slab_which \<Rightarrow> mm \<Rightarrow> slab_list_t" where
  "get_list l m = slab_get_list (snd l) (mm_slabs m (fst l))"

definition upd_list :: "slab_id \<times> slab_which \<Rightarrow> (slab_list_t \<Rightarrow> slab_list_t) \<Rightarrow> mm \<Rightarrow> mm" where
  "upd_list l f m =
     m\<lparr>mm_slabs := (mm_slabs m)(fst l := slab_set_list (snd l) (f (get_list l m)) (mm_slabs m (fst l)))\<rparr>"

definition upd_blk :: "ptr \<Rightarrow> (slab_blk_t \<Rightarrow> slab_blk_t) \<Rightarrow> mm \<Rightarrow> mm" where
  "upd_blk b f m = m\<lparr>mm_blks := (mm_blks m)(b := f (mm_blks m b))\<rparr>"

definition upd_slab :: "slab_id \<Rightarrow> (slab_t \<Rightarrow> slab_t) \<Rightarrow> mm \<Rightarrow> mm" where
  "upd_slab s f m = m\<lparr>mm_slabs := (mm_slabs m)(s := f (mm_slabs m s))\<rparr>"

definition slab_delist_block :: "ptr \<Rightarrow> mm \<Rightarrow> mm option" where
  "slab_delist_block blk m =
     (if blk = NULL then None
      else case blk_list (mm_blks m blk) of
        None \<Rightarrow> Some m
      | Some l \<Rightarrow>
          (let m1 = (if blk_prev (mm_blks m blk) \<noteq> NULL
                     then upd_blk (blk_prev (mm_blks m blk)) (blk_next_update (\<lambda>_. blk_next (mm_blks m blk))) m
                     else m);
               m2 = (if blk_next (mm_blks m1 blk) \<noteq> NULL
                     then upd_blk (blk_next (mm_blks m1 blk)) (blk_prev_update (\<lambda>_. blk_prev (mm_blks m1 blk))) m1
                     else m1);
               m3 = (if sll_first (get_list l m2) = blk
                     then upd_list l (sll_first_update (\<lambda>_. blk_next (mm_blks m2 blk))) m2
                     else m2)
           in Some (upd_list l (sll_size_update (\<lambda>n. n - 1)) m3)))"

definition slab_insert_block :: "ptr \<Rightarrow> slab_id \<times> slab_which \<Rightarrow> mm \<Rightarrow> mm option" where
  "slab_insert_block blk l m =
     (if blk = NULL then None
      else let m1 = (if sll_first (get_list l m) = NULL
                     then upd_blk blk (blk_next_update (\<lambda>_. NULL))
                            (upd_list l (sll_first_update (\<lambda>_. blk)) m)
                     else let m' = upd_blk (sll_first (get_list l m)) (blk_prev_update (\<lambda>_. blk)) m;
                              m'' = upd_blk blk (blk_next_update (\<lambda>_. sll_first (get_list l m'))) m'
                          in upd_list l (sll_first_update (\<lambda>_. blk)) m'');
               m2 = upd_blk blk (blk_list_update (\<lambda>_. Some l) \<circ> blk_prev_update (\<lambda>_. NULL)) m1
           in Some (upd_list l (sll_size_update (\<lambda>n. n + 1)) m2))"

definition slab_move_block :: "ptr \<Rightarrow> slab_id \<times> slab_which \<Rightarrow> mm \<Rightarrow> mm option" where
  "slab_move_block blk l m = do {
     m1 \<leftarrow> slab_delist_block blk m;
     slab_insert_block blk l m1
   }"

definition slab_pop_block :: "slab_id \<times> slab_which \<Rightarrow> mm \<Rightarrow> (ptr \<times> mm) option" where
  "slab_pop_block l m = (let temp = sll_first (get_list l m) in do {
     m1 \<leftarrow> slab_delist_block temp m;
     Some (temp, m1)
   })"

text \<open>\<^verbatim>\<open>bitmap_set\<close> and \<^verbatim>\<open>bitmap_unset\<close> on \<^verbatim>\<open>&blk->map\<close>, an array of one section.\<close>

definition map_set :: "bitmap_ent_t \<Rightarrow> u32 \<Rightarrow> bitmap_ent_t option" where
  "map_set w n = map_option hd (bitmap_set [w] n)"

definition map_unset :: "bitmap_ent_t \<Rightarrow> u32 \<Rightarrow> bitmap_ent_t option" where
  "map_unset w n = map_option hd (bitmap_unset [w] n)"

definition slab_alloc_block :: "slab_id \<Rightarrow> mm \<Rightarrow> (ptr \<times> mm) option" where
  "slab_alloc_block slab m = do {
     (blk, m1) \<leftarrow> global_alloc m;
     if blk = NULL then None
     else do {
       let m2 = upd_blk blk (\<lambda>b. b\<lparr>blk_magic := 0xabadc0de, blk_map := 0, blk_slab := slab,
                                   blk_list := None\<rparr>) m1;
       w \<leftarrow> map_set (blk_map (mm_blks m2 blk)) 0;
       let m3 = upd_blk blk (blk_map_update (\<lambda>_. w)) m2;
       Some (blk, upd_slab slab (sl_total_pages_update (\<lambda>n. n + 1)) m3)
     }
   }"

definition slab_dealloc_free_block :: "slab_id \<Rightarrow> mm \<Rightarrow> mm option" where
  "slab_dealloc_free_block slab m =
     (if sll_size (sl_free (mm_slabs m slab)) > MAX_FREE_SLABS
      then do {
        (block, m1) \<leftarrow> slab_pop_block (slab, free_list) m;
        global_free block m1
      }
      else Some m)"

subsection \<open>Allocation and release\<close>

text \<open>
  The block selection of \<^verbatim>\<open>slab_alloc\<close> from the label \<^verbatim>\<open>retry\<close> on; the second time round it does
  not go back again.
\<close>

function slab_pick :: "bool \<Rightarrow> slab_id \<Rightarrow> mm \<Rightarrow> (ptr \<times> mm) option" where
  "slab_pick retried slab m =
     (if sll_first (sl_partial (mm_slabs m slab)) \<noteq> NULL
      then Some (sll_first (sl_partial (mm_slabs m slab)), m)
      else if sll_first (sl_free (mm_slabs m slab)) \<noteq> NULL
      then Some (sll_first (sl_free (mm_slabs m slab)), m)
      else (case slab_alloc_block slab m of
              None \<Rightarrow> None
            | Some (temp, m1) \<Rightarrow>
                (case slab_move_block temp (slab, free_list) m1 of
                   None \<Rightarrow> None
                 | Some m2 \<Rightarrow> if \<not> retried then slab_pick True slab m2 else Some (NULL, m2))))"
  by pat_completeness auto
termination by (relation "measure (\<lambda>(retried, _, _). if retried then 0 else 1)") auto

declare slab_pick.simps [simp del]

definition call_fn :: "ptr \<Rightarrow> ptr \<Rightarrow> mm \<Rightarrow> mm" where
  "call_fn f arg m = (if f \<noteq> NULL then m\<lparr>mm_calls := mm_calls m @ [(f, arg)]\<rparr> else m)"

definition slab_lock :: "slab_id \<Rightarrow> mm \<Rightarrow> mm option" where
  "slab_lock slab m = do {
     l \<leftarrow> lock_spinlock (sl_lock (mm_slabs m slab));
     Some (upd_slab slab (sl_lock_update (\<lambda>_. l)) m)
   }"

definition slab_unlock :: "slab_id \<Rightarrow> mm \<Rightarrow> mm" where
  "slab_unlock slab m = upd_slab slab (sl_lock_update lock_unlock) m"

definition slab_alloc :: "slab_id \<Rightarrow> mm \<Rightarrow> (ptr \<times> mm) option" where
  "slab_alloc slab m = do {
     m0 \<leftarrow> slab_lock slab m;
     (block, m1) \<leftarrow> slab_pick False slab m0;
     if block \<noteq> NULL
     then do {
       n \<leftarrow> bitmap_first_free [blk_map (mm_blks m1 block)] BITMAP_BPS;
       let addr = block + n * sl_obj_size (mm_slabs m1 slab);
       w \<leftarrow> map_set (blk_map (mm_blks m1 block)) n;
       let m2 = upd_blk block (blk_map_update (\<lambda>_. w)) m1;
       m3 \<leftarrow> (if blk_map (mm_blks m2 block) = BITMAP_ENT_FULL
              then slab_move_block block (slab, full_list) m2
              else if blk_list (mm_blks m2 block) = Some (slab, free_list)
              then slab_move_block block (slab, partial_list) m2
              else Some m2);
       Some (addr, slab_unlock slab (call_fn (sl_ctor (mm_slabs m3 slab)) addr m3))
     }
     else Some (NULL, slab_unlock slab m1)
   }"

definition slab_free :: "slab_id \<Rightarrow> ptr \<Rightarrow> mm \<Rightarrow> mm option" where
  "slab_free slab ptr m = do {
     m0 \<leftarrow> slab_lock slab m;
     if ptr \<noteq> NULL
     then let temp = ptr;
              addr = temp div PAGE_SIZE * PAGE_SIZE;
              pos = (temp - addr) div (PAGE_SIZE div BITMAP_BPS);
              block = addr
          in if block = NULL then None
             else if blk_magic (mm_blks m0 block) \<noteq> MAGIC then Some (slab_unlock slab m0)
             else do {
               let m1 = call_fn (sl_dtor (mm_slabs m0 slab)) addr m0;
               w \<leftarrow> map_unset (blk_map (mm_blks m1 block)) pos;
               let m2 = upd_blk block (blk_map_update (\<lambda>_. w)) m1;
               m3 \<leftarrow> (if blk_map (mm_blks m2 block) = 1
                      then do {
                        m' \<leftarrow> slab_move_block block (slab, free_list) m2;
                        slab_dealloc_free_block slab m'
                      }
                      else if blk_list (mm_blks m2 block) = Some (slab, full_list)
                      then slab_move_block block (slab, partial_list) m2
                      else Some m2);
               Some (slab_unlock slab m3)
             }
     else Some (slab_unlock slab m0)
   }"

definition slab_adjust_size :: "u32 \<Rightarrow> u32" where
  "slab_adjust_size sz =
     (let min_size = PAGE_SIZE div BITMAP_BPS
      in if sz \<ge> min_size then (sz div min_size) * min_size + sz mod min_size
         else min_size)"

definition slab_init_at :: "slab_id \<Rightarrow> u32 \<Rightarrow> ptr \<Rightarrow> ptr \<Rightarrow> mm \<Rightarrow> mm" where
  "slab_init_at slab obj_size ctor dtor m =
     m\<lparr>mm_slabs := (mm_slabs m)(slab :=
        \<lparr>sl_lock = lock_unlock False,
         sl_free = \<lparr>sll_first = NULL, sll_size = 0\<rparr>,
         sl_partial = \<lparr>sll_first = NULL, sll_size = 0\<rparr>,
         sl_full = \<lparr>sll_first = NULL, sll_size = 0\<rparr>,
         sl_ctor = ctor, sl_dtor = dtor,
         sl_obj_size = slab_adjust_size obj_size, sl_total_pages = 0\<rparr>)\<rparr>"

subsection \<open>Linked lists of blocks\<close>

text \<open>A segment of a block list.\<close>

definition dls :: "slab_blk_t heap \<Rightarrow> ptr \<Rightarrow> ptr \<Rightarrow> ptr list \<Rightarrow> ptr \<Rightarrow> ptr \<Rightarrow> bool" where
  "dls h = dlseg (\<lambda>b. blk_prev (h b)) (\<lambda>b. blk_next (h b))"

lemma dls_simps [simp]:
  "dls h q p [] q' p' \<longleftrightarrow> q' = q \<and> p' = p"
  "dls h q p (b # bs) q' p' \<longleftrightarrow>
     p = b \<and> b \<noteq> NULL \<and> blk_prev (h b) = q \<and> dls h b (blk_next (h b)) bs q' p'"
  by (simp_all add: dls_def)

lemma dls_append:
  "dls h q p (xs @ ys) q' p' \<longleftrightarrow> (\<exists>q1 p1. dls h q p xs q1 p1 \<and> dls h q1 p1 ys q' p')"
  unfolding dls_def by (rule dlseg_append)

lemma dls_last: "dls h q p bs q' p' \<Longrightarrow> q' = (if bs = [] then q else last bs)"
  unfolding dls_def by (rule dlseg_last)

lemma dls_first: "dls h q p bs q' p' \<Longrightarrow> p = (if bs = [] then p' else hd bs)"
  unfolding dls_def by (rule dlseg_first)

lemma dls_NULL: "dls h q p bs q' p' \<Longrightarrow> NULL \<notin> set bs"
  unfolding dls_def by (rule dlseg_NULL)

lemma dls_unique: "dls h q p xs q1 NULL \<Longrightarrow> dls h q p ys q2 NULL \<Longrightarrow> xs = ys"
  unfolding dls_def by (rule dlseg_unique)

lemma dls_cong:
  "(\<And>b. b \<in> set bs \<Longrightarrow> blk_prev (h b) = blk_prev (h' b) \<and> blk_next (h b) = blk_next (h' b)) \<Longrightarrow>
    dls h q p bs q' p' = dls h' q p bs q' p'"
  unfolding dls_def by (rule dlseg_cong)

lemma dls_fun_upd: "b \<notin> set bs \<Longrightarrow> dls (h(b := x)) q p bs q' p' = dls h q p bs q' p'"
  by (rule dls_cong) auto

lemma dls_set_next:
  "dls h q p (bs @ [b]) q' p' \<Longrightarrow> distinct (bs @ [b]) \<Longrightarrow>
    dls (h(b := (h b)\<lparr>blk_next := n\<rparr>)) q p (bs @ [b]) b n"
  unfolding dls_def by (erule (1) dlseg_set_next) simp_all

lemma dls_set_prev:
  "dls h q p (b # bs) q' p' \<Longrightarrow> distinct (b # bs) \<Longrightarrow>
    dls (h(b := (h b)\<lparr>blk_prev := n\<rparr>)) n p (b # bs) q' p'"
  unfolding dls_def by (erule (1) dlseg_set_prev) simp_all

text \<open>A block taken out of the middle.\<close>

definition unlink :: "ptr \<Rightarrow> slab_blk_t heap \<Rightarrow> slab_blk_t heap" where
  "unlink b h =
     (let h1 = (if blk_prev (h b) \<noteq> NULL
                then h(blk_prev (h b) := (h (blk_prev (h b)))\<lparr>blk_next := blk_next (h b)\<rparr>) else h)
      in if blk_next (h1 b) \<noteq> NULL
         then h1(blk_next (h1 b) := (h1 (blk_next (h1 b)))\<lparr>blk_prev := blk_prev (h1 b)\<rparr>) else h1)"

lemma unlink_dls:
  assumes l: "dls h NULL f (xs @ b # ys) q NULL" and d: "distinct (xs @ b # ys)"
  shows "\<exists>q'. dls (unlink b h) NULL (if f = b then blk_next (h b) else f) (xs @ ys) q' NULL"
    and "f = b \<longleftrightarrow> xs = []"
    and "blk_next (unlink b h b) = blk_next (h b)"
proof -
  from l obtain q1 where xs: "dls h NULL f xs q1 b" and b: "b \<noteq> NULL" "blk_prev (h b) = q1"
    and ys: "dls h b (blk_next (h b)) ys q NULL" by (auto simp: dls_append)
  have q1: "q1 = (if xs = [] then NULL else last xs)" using dls_last [OF xs] .
  have n: "blk_next (h b) = (if ys = [] then NULL else hd ys)" using dls_first [OF ys] .
  have nn: "NULL \<notin> set (xs @ b # ys)" using dls_NULL [OF l] .
  show f: "f = b \<longleftrightarrow> xs = []" using dls_first [OF xs] d by (cases xs) auto
  let ?n = "blk_next (h b)"
  define h1 where "h1 = (if q1 \<noteq> NULL then h(q1 := (h q1)\<lparr>blk_next := ?n\<rparr>) else h)"
  have q1b: "q1 \<noteq> b" using q1 b d by (cases xs rule: rev_cases) auto
  have h1b: "h1 b = h b" using q1b by (simp add: h1_def)
  have xs1: "dls h1 NULL (if xs = [] then ?n else f) xs q1 ?n"
  proof (cases xs rule: rev_cases)
    case Nil
    then show ?thesis using q1 by simp
  next
    case (snoc zs z)
    then have "q1 = z" "z \<noteq> NULL" using q1 nn by auto
    then show ?thesis
      using dls_set_next [of h NULL f zs z q1 b ?n] xs snoc d by (simp add: h1_def)
  qed
  have "q1 \<notin> set ys" using q1 nn d by (cases xs rule: rev_cases) auto
  then have ys1: "dls h1 b ?n ys q NULL" using ys by (simp add: h1_def dls_fun_upd)
  have u: "unlink b h = (if ?n \<noteq> NULL then h1(?n := (h1 ?n)\<lparr>blk_prev := q1\<rparr>) else h1)"
    unfolding unlink_def b(2) h1_def [symmetric] Let_def h1b ..
  have nb: "?n \<noteq> b" using n b d by (cases ys) auto
  then show "blk_next (unlink b h b) = ?n" using h1b by (simp add: u)
  have nxs: "?n \<notin> set xs" using n nn d by (cases ys) auto
  have "dls (unlink b h) NULL (if xs = [] then ?n else f) xs q1 ?n"
    using xs1 nxs by (cases "xs = []") (auto simp: u dls_fun_upd)
  moreover have "\<exists>q'. dls (unlink b h) q1 ?n ys q' NULL"
  proof (cases ys)
    case Nil
    then show ?thesis using n by simp
  next
    case (Cons y zs)
    then have "?n = y" "y \<noteq> NULL" using n nn by auto
    then show ?thesis using dls_set_prev [of h1 b ?n y zs q NULL q1] ys1 Cons d by (auto simp: u)
  qed
  ultimately show "\<exists>q'. dls (unlink b h) NULL (if f = b then ?n else f) (xs @ ys) q' NULL"
    using f unfolding dls_append by (cases "xs = []") (simp_all, blast+)
qed

lemma unlink_fields [simp]:
  "blk_map (unlink b h c) = blk_map (h c)" "blk_magic (unlink b h c) = blk_magic (h c)"
  "blk_list (unlink b h c) = blk_list (h c)" "blk_slab (unlink b h c) = blk_slab (h c)"
  by (simp_all add: unlink_def Let_def)

lemma unlink_other:
  assumes "dls h NULL f (xs @ b # ys) q NULL" and "c \<notin> set (xs @ b # ys)"
  shows "unlink b h c = h c"
proof -
  from assms(1) obtain q1 where xs: "dls h NULL f xs q1 b" and b: "blk_prev (h b) = q1" "b \<noteq> NULL"
    and ys: "dls h b (blk_next (h b)) ys q NULL" by (auto simp: dls_append)
  have "q1 \<noteq> NULL \<Longrightarrow> q1 \<in> set xs" using dls_last [OF xs] by (auto split: if_splits)
  moreover have "blk_next (h b) \<noteq> NULL \<Longrightarrow> blk_next (h b) \<in> set ys"
    using dls_first [OF ys] by (auto split: if_splits)
  moreover have "q1 = b \<Longrightarrow> q1 \<in> set xs" using b(2) calculation(1) by auto
  ultimately show ?thesis using assms(2) b
    by (auto simp: unlink_def Let_def)
qed


subsection \<open>The invariant of a slab\<close>

text \<open>\<open>list_ok m l bs\<close>: the blocks of list \<open>l\<close> are \<open>bs\<close>, in this order.\<close>

definition list_ok :: "mm \<Rightarrow> slab_id \<times> slab_which \<Rightarrow> ptr list \<Rightarrow> bool" where
  "list_ok m l bs \<longleftrightarrow>
     (\<exists>q. dls (mm_blks m) NULL (sll_first (get_list l m)) bs q NULL) \<and> distinct bs \<and>
     sll_size (get_list l m) = of_nat (length bs) \<and> (\<forall>b \<in> set bs. blk_list (mm_blks m b) = Some l)"

text \<open>The map a block of each list has: bit 0 is the header's slot.\<close>

fun map_ok :: "slab_which \<Rightarrow> bitmap_ent_t \<Rightarrow> bool" where
  "map_ok free_list w \<longleftrightarrow> w = 1"
| "map_ok partial_list w \<longleftrightarrow> bit w 0 \<and> w \<noteq> BITMAP_ENT_FULL \<and> w \<noteq> 1"
| "map_ok full_list w \<longleftrightarrow> w = BITMAP_ENT_FULL"

text \<open>
  A slab whose blocks are \<open>L free_list\<close>, \<open>L partial_list\<close> and \<open>L full_list\<close>: pages of the global
  region, each with the map its list asks for. Objects are 128 to 132 bytes apart, the range
  in which \<^verbatim>\<open>slab_free\<close> finds the slot of an object again. At 132 bytes, the size of a thread, the
  object in the last slot starts at offset 4092 and runs into the next page; objects are distinct by
  address, and what lies behind that one is outside the model.
\<close>

definition slab_core :: "mm \<Rightarrow> slab_id \<Rightarrow> (slab_which \<Rightarrow> ptr list) \<Rightarrow> bool" where
  "slab_core m s L \<longleftrightarrow>
     128 \<le> sl_obj_size (mm_slabs m s) \<and> sl_obj_size (mm_slabs m s) \<le> 132 \<and>
     (\<forall>w. list_ok m (s, w) (L w) \<and> (\<forall>b \<in> set (L w). b \<in> region_live (mm_region m) \<and>
        blk_magic (mm_blks m b) = MAGIC \<and> map_ok w (blk_map (mm_blks m b))))"

lemma get_upd_list [simp]:
  "get_list l (upd_list l' f m) = (if l = l' then f (get_list l m) else get_list l m)"
  by (cases l; cases l'; cases "snd l"; cases "snd l'") (auto simp: get_list_def upd_list_def)

lemma upd_list_simps [simp]:
  "mm_blks (upd_list l f m) = mm_blks m" "mm_region (upd_list l f m) = mm_region m"
  "mm_pg (upd_list l f m) = mm_pg m" "mm_calls (upd_list l f m) = mm_calls m"
  "sl_lock (mm_slabs (upd_list l f m) s) = sl_lock (mm_slabs m s)"
  "sl_ctor (mm_slabs (upd_list l f m) s) = sl_ctor (mm_slabs m s)"
  "sl_dtor (mm_slabs (upd_list l f m) s) = sl_dtor (mm_slabs m s)"
  "sl_obj_size (mm_slabs (upd_list l f m) s) = sl_obj_size (mm_slabs m s)"
  by (cases l; cases "snd l"; auto simp: upd_list_def)+

lemma upd_list_slabs: "s' \<noteq> fst l \<Longrightarrow> mm_slabs (upd_list l f m) s' = mm_slabs m s'"
  by (simp add: upd_list_def)

lemma upd_blk_simps [simp]:
  "mm_blks (upd_blk b f m) = (mm_blks m)(b := f (mm_blks m b))"
  "get_list l (upd_blk b f m) = get_list l m" "mm_region (upd_blk b f m) = mm_region m"
  "mm_pg (upd_blk b f m) = mm_pg m" "mm_calls (upd_blk b f m) = mm_calls m"
  "mm_slabs (upd_blk b f m) = mm_slabs m"
  by (simp_all add: upd_blk_def get_list_def)

text \<open>The parts of the state that moving a block between lists leaves alone.\<close>

definition links_only :: "mm \<Rightarrow> mm \<Rightarrow> bool" where
  "links_only m m' \<longleftrightarrow> mm_region m' = mm_region m \<and> mm_pg m' = mm_pg m \<and> mm_calls m' = mm_calls m \<and>
     (\<forall>c. blk_map (mm_blks m' c) = blk_map (mm_blks m c) \<and>
          blk_magic (mm_blks m' c) = blk_magic (mm_blks m c)) \<and>
     (\<forall>s. sl_lock (mm_slabs m' s) = sl_lock (mm_slabs m s) \<and>
          sl_ctor (mm_slabs m' s) = sl_ctor (mm_slabs m s) \<and>
          sl_dtor (mm_slabs m' s) = sl_dtor (mm_slabs m s) \<and>
          sl_obj_size (mm_slabs m' s) = sl_obj_size (mm_slabs m s))"

lemma links_only_trans: "links_only m m1 \<Longrightarrow> links_only m1 m2 \<Longrightarrow> links_only m m2"
  by (auto simp: links_only_def)

lemma list_ok_unchanged:
  assumes "list_ok m l bs" and "get_list l m' = get_list l m"
    and "\<And>b. b \<in> set bs \<Longrightarrow> mm_blks m' b = mm_blks m b"
  shows "list_ok m' l bs"
  using assms dls_cong [of bs "mm_blks m'" "mm_blks m"] by (auto simp: list_ok_def)

lemma list_ok_disjoint: "list_ok m l xs \<Longrightarrow> list_ok m l' ys \<Longrightarrow> l \<noteq> l' \<Longrightarrow> set xs \<inter> set ys = {}"
  by (auto simp: list_ok_def)

lemma slab_delist_ok:
  assumes ok: "list_ok m l (xs @ b # ys)"
  obtains m' where "slab_delist_block b m = Some m'" and "list_ok m' l (xs @ ys)"
    and "links_only m m'" and "\<And>c. blk_list (mm_blks m' c) = blk_list (mm_blks m c)"
    and "\<And>c. c \<notin> set (xs @ b # ys) \<Longrightarrow> mm_blks m' c = mm_blks m c"
    and "\<And>l'. l' \<noteq> l \<Longrightarrow> get_list l' m' = get_list l' m"
    and "\<And>s'. s' \<noteq> fst l \<Longrightarrow> mm_slabs m' s' = mm_slabs m s'"
proof -
  let ?h = "mm_blks m" and ?f = "sll_first (get_list l m)"
  from ok obtain q where d: "dls ?h NULL ?f (xs @ b # ys) q NULL" "distinct (xs @ b # ys)"
    and sz: "sll_size (get_list l m) = of_nat (length (xs @ b # ys))"
    and bl: "\<forall>c \<in> set (xs @ b # ys). blk_list (?h c) = Some l" by (auto simp: list_ok_def)
  note u = unlink_dls [OF d]
  have b: "b \<noteq> NULL" "blk_list (?h b) = Some l" using dls_NULL [OF d(1)] bl by auto
  define m2 where "m2 = m\<lparr>mm_blks := unlink b ?h\<rparr>"
  let ?m' = "upd_list l (sll_size_update (\<lambda>n. n - 1))
    (if ?f = b then upd_list l (sll_first_update (\<lambda>_. blk_next (?h b))) m2 else m2)"
  have m2: "get_list k m2 = get_list k m" "mm_blks m2 = unlink b ?h" "mm_region m2 = mm_region m"
    "mm_pg m2 = mm_pg m" "mm_calls m2 = mm_calls m" "mm_slabs m2 = mm_slabs m" for k
    by (simp_all add: m2_def get_list_def)
  have run: "slab_delist_block b m = Some ?m'"
    using b u(3) unfolding slab_delist_block_def m2_def
    by (simp add: Let_def unlink_def upd_blk_def get_list_def)
  show thesis
  proof (rule that [OF run])
    show "list_ok ?m' l (xs @ ys)"
      using u(1,2) d(2) sz bl by (auto simp: list_ok_def m2)
    show "links_only m ?m'" by (simp add: links_only_def m2)
    show "mm_blks ?m' c = ?h c" if "c \<notin> set (xs @ b # ys)" for c
      using unlink_other [OF d(1) that] by (simp add: m2)
  qed (simp_all add: m2 upd_list_slabs)
qed

lemma slab_insert_ok:
  assumes ok: "list_ok m l bs" and b: "b \<noteq> NULL" "b \<notin> set bs"
  obtains m' where "slab_insert_block b l m = Some m'" and "list_ok m' l (b # bs)"
    and "links_only m m'" and "\<And>c. c \<notin> set (b # bs) \<Longrightarrow> mm_blks m' c = mm_blks m c"
    and "\<And>l'. l' \<noteq> l \<Longrightarrow> get_list l' m' = get_list l' m"
    and "\<And>c. c \<noteq> b \<Longrightarrow> blk_list (mm_blks m' c) = blk_list (mm_blks m c)"
    and "\<And>s'. s' \<noteq> fst l \<Longrightarrow> mm_slabs m' s' = mm_slabs m s'"
proof -
  let ?h = "mm_blks m" and ?f = "sll_first (get_list l m)"
  from ok obtain q where d: "dls ?h NULL ?f bs q NULL" "distinct bs"
    and sz: "sll_size (get_list l m) = of_nat (length bs)"
    and bl: "\<forall>c \<in> set bs. blk_list (?h c) = Some l" by (auto simp: list_ok_def)
  define h1 where "h1 = (if ?f = NULL then ?h else ?h(?f := (?h ?f)\<lparr>blk_prev := b\<rparr>))"
  define h2 where "h2 = h1(b := (h1 b)\<lparr>blk_prev := NULL, blk_next := ?f, blk_list := Some l\<rparr>)"
  have f: "?f = (if bs = [] then NULL else hd bs)" using dls_first [OF d(1)] .
  have fb: "?f \<noteq> b" using f b by (cases bs) auto
  have nn: "NULL \<notin> set bs" by (rule dls_NULL [OF d(1)])
  have "\<exists>q'. dls h1 b ?f bs q' NULL"
  proof (cases bs)
    case Nil
    then show ?thesis using f by simp
  next
    case (Cons y ys)
    then show ?thesis using dls_set_prev [of ?h NULL ?f y ys q NULL b] d f nn by (auto simp: h1_def)
  qed
  then have "\<exists>q'. dls h2 b ?f bs q' NULL" using b by (simp add: h2_def dls_fun_upd)
  then have dl: "\<exists>q'. dls h2 NULL b (b # bs) q' NULL" using b by (simp add: h2_def)
  have run: "\<exists>m'. slab_insert_block b l m = Some m' \<and> mm_blks m' = h2 \<and>
    get_list l m' = \<lparr>sll_first = b, sll_size = sll_size (get_list l m) + 1\<rparr> \<and>
    (\<forall>l'. l' \<noteq> l \<longrightarrow> get_list l' m' = get_list l' m) \<and> links_only m m' \<and>
    (\<forall>s'. s' \<noteq> fst l \<longrightarrow> mm_slabs m' s' = mm_slabs m s')"
    using b fb
    by (auto simp: slab_insert_block_def h1_def h2_def Let_def fun_eq_iff links_only_def upd_list_slabs)
  then obtain m' where m': "slab_insert_block b l m = Some m'" "mm_blks m' = h2"
    "get_list l m' = \<lparr>sll_first = b, sll_size = sll_size (get_list l m) + 1\<rparr>"
    "\<And>l'. l' \<noteq> l \<Longrightarrow> get_list l' m' = get_list l' m" "links_only m m'"
    "\<And>s'. s' \<noteq> fst l \<Longrightarrow> mm_slabs m' s' = mm_slabs m s'" by blast
  show thesis
  proof (rule that [OF m'(1) _ m'(5) _ m'(4) _ m'(6)])
    show "list_ok m' l (b # bs)"
      using dl d(2) b sz bl m' fb by (auto simp: list_ok_def h2_def h1_def add.commute)
    show "mm_blks m' c = ?h c" if "c \<notin> set (b # bs)" for c
    proof -
      have "?f \<noteq> NULL \<Longrightarrow> ?f \<noteq> c" using f that by (cases bs) auto
      then show ?thesis using that by (auto simp: m' h2_def h1_def)
    qed
    show "blk_list (mm_blks m' c) = blk_list (?h c)" if "c \<noteq> b" for c
      using that by (simp add: m' h2_def h1_def)
  qed
qed


text \<open>What an operation on slab \<open>s\<close> leaves alone: every other slab with its blocks.\<close>

definition kept :: "slab_id \<Rightarrow> mm \<Rightarrow> mm \<Rightarrow> bool" where
  "kept s m m' \<longleftrightarrow> (\<forall>s'. s' \<noteq> s \<longrightarrow> mm_slabs m' s' = mm_slabs m s') \<and>
     (\<forall>s' L w b. s' \<noteq> s \<and> slab_core m s' L \<and> b \<in> set (L w) \<longrightarrow>
        mm_blks m' b = mm_blks m b \<and> b \<in> region_live (mm_region m'))"

lemma kept_core:
  assumes "kept s m m'" and "s' \<noteq> s" and "slab_core m s' L"
  shows "slab_core m' s' L"
proof -
  have k: "mm_slabs m' s' = mm_slabs m s'"
    "\<And>w b. b \<in> set (L w) \<Longrightarrow> mm_blks m' b = mm_blks m b \<and> b \<in> region_live (mm_region m')"
    using assms by (auto simp: kept_def)
  then have "list_ok m' (s', w) (L w)" for w
    using assms(3) list_ok_unchanged [of m "(s', w)" "L w" m']
    by (auto simp: slab_core_def get_list_def)
  then show ?thesis using assms(3) k by (auto simp: slab_core_def)
qed

lemma kept_trans:
  assumes "kept s m m1" and "kept s m1 m2" shows "kept s m m2"
  unfolding kept_def
proof (intro conjI allI impI)
  fix s' assume "s' \<noteq> s"
  then show "mm_slabs m2 s' = mm_slabs m s'" using assms by (simp add: kept_def)
next
  fix s' L w b assume a: "s' \<noteq> s \<and> slab_core m s' L \<and> b \<in> set (L w)"
  then have "slab_core m1 s' L" using kept_core [OF assms(1)] by blast
  with a assms show "mm_blks m2 b = mm_blks m b" "b \<in> region_live (mm_region m2)"
    unfolding kept_def by metis+
qed

lemma slab_core_block:
  assumes "slab_core m s L" and "b \<in> set (L w)"
  shows "b \<in> region_live (mm_region m)" and "blk_magic (mm_blks m b) = MAGIC"
    and "map_ok w (blk_map (mm_blks m b))" and "blk_list (mm_blks m b) = Some (s, w)"
    and "b \<noteq> NULL"
proof -
  have ok: "list_ok m (s, w) (L w)" using assms(1) by (simp add: slab_core_def)
  then obtain q where "dls (mm_blks m) NULL (sll_first (get_list (s, w) m)) (L w) q NULL"
    by (auto simp: list_ok_def)
  from dls_NULL [OF this] assms(2) show "b \<noteq> NULL" by auto
  show "blk_list (mm_blks m b) = Some (s, w)" using ok assms(2) by (simp add: list_ok_def)
qed (use assms in \<open>auto simp: slab_core_def\<close>)

text \<open>
  Changing a block of slab \<open>s\<close> (its list is one of the slab's), or a page that no slab can
  have, keeps the other slabs.
\<close>

lemma kept_blocks:
  assumes "\<And>s'. s' \<noteq> s \<Longrightarrow> mm_slabs m' s' = mm_slabs m s'"
    and "\<And>c s' w. mm_blks m' c \<noteq> mm_blks m c \<or> c \<notin> region_live (mm_region m') \<Longrightarrow>
      c \<in> region_live (mm_region m) \<Longrightarrow> blk_list (mm_blks m c) = Some (s', w) \<Longrightarrow> s' = s"
  shows "kept s m m'"
  unfolding kept_def
proof (intro conjI allI impI)
  fix s' L w b assume a: "s' \<noteq> s \<and> slab_core m s' L \<and> b \<in> set (L w)"
  then have "b \<in> region_live (mm_region m)" "blk_list (mm_blks m b) = Some (s', w)"
    by (auto dest: slab_core_block)
  with a assms(2) [of b s' w] show "mm_blks m' b = mm_blks m b" "b \<in> region_live (mm_region m')"
    by auto
qed (use assms(1) in auto)

text \<open>A block that is on none of the lists of a slab is put on one of them, and the others stay.\<close>

lemma slab_insert_lists:
  assumes ok: "\<And>w. list_ok m (s, w) (L w)" and b: "b \<noteq> NULL" "\<And>w. b \<notin> set (L w)"
  obtains m' where "slab_insert_block b (s, v) m = Some m'" and "\<And>w. list_ok m' (s, w) ((L(v := b # L v)) w)"
    and "links_only m m'" and "\<And>c. c \<notin> set (b # L v) \<Longrightarrow> mm_blks m' c = mm_blks m c"
    and "\<And>s'. s' \<noteq> s \<Longrightarrow> mm_slabs m' s' = mm_slabs m s'"
proof -
  from ok [of v] b(1) b(2) [of v] obtain m' where m': "slab_insert_block b (s, v) m = Some m'"
    "list_ok m' (s, v) (b # L v)" "links_only m m'" "\<And>c. c \<notin> set (b # L v) \<Longrightarrow> mm_blks m' c = mm_blks m c"
    "\<And>l'. l' \<noteq> (s, v) \<Longrightarrow> get_list l' m' = get_list l' m"
    "\<And>s'. s' \<noteq> fst (s, v) \<Longrightarrow> mm_slabs m' s' = mm_slabs m s'" by (rule slab_insert_ok) blast
  have "list_ok m' (s, w) ((L(v := b # L v)) w)" for w
  proof (cases "w = v")
    case False
    have "set (L w) \<inter> set (L v) = {}" using list_ok_disjoint [OF ok ok] False by blast
    then have "mm_blks m' c = mm_blks m c" if "c \<in> set (L w)" for c
      using that b(2) [of w] by (intro m'(4)) auto
    then show ?thesis using False m'(5) by (simp add: list_ok_unchanged [OF ok [of w]])
  qed (use m'(2) in simp)
  then show thesis using that m' by auto
qed

lemma slab_move_ok:
  assumes ok: "\<And>w. list_ok m (s, w) (L w)" and b: "b \<in> set (L w1)" and w: "w1 \<noteq> w2"
  obtains m' where "slab_move_block b (s, w2) m = Some m'"
    and "\<And>w. list_ok m' (s, w) ((L(w1 := remove1 b (L w1), w2 := b # L w2)) w)"
    and "links_only m m'" and "\<And>s'. s' \<noteq> s \<Longrightarrow> mm_slabs m' s' = mm_slabs m s'"
    and "\<And>c. mm_blks m' c \<noteq> mm_blks m c \<Longrightarrow> \<exists>w. blk_list (mm_blks m c) = Some (s, w)"
proof -
  from b obtain xs ys where L: "L w1 = xs @ b # ys" "b \<notin> set xs" by (metis split_list_first)
  let ?K = "L(w1 := xs @ ys)"
  have r: "L(w1 := remove1 b (L w1), w2 := b # L w2) = ?K(w2 := b # ?K w2)" using L w by (simp add: remove1_append)
  have bl: "\<And>w c. c \<in> set (L w) \<Longrightarrow> blk_list (mm_blks m c) = Some (s, w)"
    using ok by (auto simp: list_ok_def)
  have okb: "list_ok m (s, w1) (xs @ b # ys)" using ok [of w1] L by simp
  then obtain m1 where m1: "slab_delist_block b m = Some m1" "list_ok m1 (s, w1) (xs @ ys)"
    "links_only m m1" "\<And>c. c \<notin> set (xs @ b # ys) \<Longrightarrow> mm_blks m1 c = mm_blks m c"
    "\<And>l'. l' \<noteq> (s, w1) \<Longrightarrow> get_list l' m1 = get_list l' m"
    "\<And>s'. s' \<noteq> fst (s, w1) \<Longrightarrow> mm_slabs m1 s' = mm_slabs m s'" by (rule slab_delist_ok) blast
  have "c \<notin> set (xs @ b # ys)" if "c \<in> set (L w)" "w \<noteq> w1" for c w
    using bl [OF that(1)] bl [of c w1] L that(2) by auto
  then have "list_ok m1 (s, w) (?K w)" for w
    using m1(2,4,5) list_ok_unchanged [OF ok [of w], of m1] by (cases "w = w1") auto
  moreover have "b \<noteq> NULL" using m1(1) by (auto simp: slab_delist_block_def)
  moreover have "b \<notin> set (?K w)" for w
    using okb bl [OF b] bl [of b w] by (cases "w = w1") (auto simp: list_ok_def)
  ultimately obtain m2 where m2: "slab_insert_block b (s, w2) m1 = Some m2"
    "\<And>w. list_ok m2 (s, w) ((?K(w2 := b # ?K w2)) w)" "links_only m1 m2"
    "\<And>c. c \<notin> set (b # ?K w2) \<Longrightarrow> mm_blks m2 c = mm_blks m1 c" "\<And>s'. s' \<noteq> s \<Longrightarrow> mm_slabs m2 s' = mm_slabs m1 s'"
    by (rule slab_insert_lists) blast
  show thesis
  proof (rule that [OF _ _ links_only_trans [OF m1(3) m2(3)]])
    show "slab_move_block b (s, w2) m = Some m2" using m1(1) m2(1) by (simp add: slab_move_block_def)
    show "mm_slabs m2 s' = mm_slabs m s'" if "s' \<noteq> s" for s' using that m1(6) m2(5) by simp
    show "\<exists>w. blk_list (mm_blks m c) = Some (s, w)" if c: "mm_blks m2 c \<noteq> mm_blks m c" for c
    proof -
      from c m1(4) [of c] m2(4) [of c] have "c \<in> set (xs @ b # ys) \<or> c \<in> set (b # ?K w2)" by metis
      then have "c \<in> set (L w1) \<or> c \<in> set (L w2)" using L w by auto
      then show ?thesis using bl by blast
    qed
    show "list_ok m2 (s, w) ((L(w1 := remove1 b (L w1), w2 := b # L w2)) w)" for w unfolding r by (rule m2(2))
  qed
qed

subsection \<open>The slot map of a block\<close>

lemma bits_single: "bits [w] = {n. n < 32 \<and> bit w n}"
  by (auto simp: bits_def)

lemma bits_single_inject: "bits [v] = bits [w] \<longleftrightarrow> v = (w :: u32)"
proof
  assume eq: "bits [v] = bits [w]"
  show "v = w"
  proof (rule bit_word_eqI)
    fix n assume "n < LENGTH(32)"
    then show "bit v n = bit w n" using eq by (auto simp: bits_single set_eq_iff)
  qed
qed simp

lemma bits_full: "bits [BITMAP_ENT_FULL] = {..< 32}"
proof -
  have full: "BITMAP_ENT_FULL = -1" by (simp add: BITMAP_ENT_FULL_def)
  show ?thesis unfolding full by (auto simp: bits_single)
qed

lemma bits_one: "bits [1] = {0}"
  by (auto simp: bits_single bit_1_iff)

lemma map_setD:
  assumes "map_set w n = Some w'" shows "bits [w'] = insert (unat n) (bits [w])"
proof -
  from assms obtain ws where ws: "bitmap_set [w] n = Some ws" "w' = hd ws" by (auto simp: map_set_def)
  from bitmap_setD [OF ws(1)] ws(2) show ?thesis by (cases ws) auto
qed

lemma map_unsetD:
  assumes "map_unset w n = Some w'" shows "bits [w'] = bits [w] - {unat n}"
proof -
  from assms obtain ws where ws: "bitmap_unset [w] n = Some ws" "w' = hd ws" by (auto simp: map_unset_def)
  from bitmap_unsetD [OF ws(1)] ws(2) show ?thesis by (cases ws) auto
qed

lemma map_first_free:
  assumes "w \<noteq> BITMAP_ENT_FULL"
  obtains n w' where "bitmap_first_free [w] BITMAP_BPS = Some n" and "unat n < 32"
    and "unat n \<notin> bits [w]" and "map_set w n = Some w'" and "bits [w'] = insert (unat n) (bits [w])"
proof -
  have b: "unat BITMAP_BPS = 32" by (simp add: BITMAP_BPS_def)
  have nf: "\<not> {..< 32} \<subseteq> bits [w]"
  proof
    assume "{..< 32} \<subseteq> bits [w]"
    then have "bits [w] = bits [BITMAP_ENT_FULL]" unfolding bits_full by (auto simp: bits_single)
    with assms show False by (simp only: bits_single_inject)
  qed
  have le: "unat BITMAP_BPS \<le> 32 * length [w]" by (simp add: b)
  have "\<exists>n. bitmap_first_free [w] BITMAP_BPS = Some n \<and> unat n < 32 \<and> unat n \<notin> bits [w]"
    by (rule bitmap_first_free_cases [OF le]) (use nf b in auto)
  then obtain n where n: "bitmap_first_free [w] BITMAP_BPS = Some n" "unat n < 32"
    "unat n \<notin> bits [w]" by blast
  from bitmap_set_Some [of n "[w]"] n obtain ws where "bitmap_set [w] n = Some ws" by auto
  then have w': "map_set w n = Some (hd ws)" by (simp add: map_set_def)
  show thesis by (rule that [OF n w' map_setD [OF w']])
qed


subsection \<open>Objects of a slab\<close>

definition slot :: "mm \<Rightarrow> slab_id \<Rightarrow> ptr \<Rightarrow> nat \<Rightarrow> ptr" where
  "slot m s b n = b + of_nat n * sl_obj_size (mm_slabs m s)"

definition slab_objs :: "mm \<Rightarrow> slab_id \<Rightarrow> (slab_which \<Rightarrow> ptr list) \<Rightarrow> ptr set" where
  "slab_objs m s L = {slot m s b n | w b n. b \<in> set (L w) \<and> n \<in> bits [blk_map (mm_blks m b)] \<and> n \<noteq> 0}"

lemma aligned_room:
  assumes "x mod 4096 = 0" and "x < 4294967296" shows "x + 4096 \<le> (4294967296 :: nat)"
proof -
  have "x = 4096 * (x div 4096)" using assms(1) by auto
  moreover have "x div 4096 < 1048576" using assms(2) by (simp add: less_mult_imp_div_less)
  ultimately show ?thesis by linarith
qed

lemma aligned_div: "x mod 4096 = 0 \<Longrightarrow> k < 4096 \<Longrightarrow> (x + k) div 4096 = x div (4096 :: nat)"
  by (simp add: div_add1_eq)

lemma slot_nat:
  assumes "region_inv r" and "b \<in> region_live r" and z: "128 \<le> z" "z \<le> (132 :: u32)" and n: "n < 32"
  shows "unat (b + of_nat n * z) = unat b + n * unat z" and "n * unat z < 4096"
    and "unat b mod 4096 = 0" and "n * unat z div 128 = n"
proof -
  show al: "unat b mod 4096 = 0"
    using assms(1,2) page_addr_aligned by (auto simp: region_live_def)
  have z': "128 \<le> unat z" "unat z \<le> 132" using z by (simp_all add: word_le_nat_alt)
  have "n * unat z \<le> 31 * 132" using z' n by (intro mult_mono) auto
  then show lt: "n * unat z < 4096" by simp
  have "unat b + 4096 \<le> 4294967296" using al unat_u32_less [of b] by (rule aligned_room)
  with lt have "unat b + n * unat z < 4294967296" by simp
  moreover have "unat (of_nat n * z) = n * unat z"
    using unat_mult_u32 [of "of_nat n" z] lt n by (simp add: unat_of_nat_u32)
  ultimately show "unat (b + of_nat n * z) = unat b + n * unat z" using unat_add_u32 [of b] by simp
  have "n * unat z = 128 * n + n * (unat z - 128)" using z'(1) by (simp add: diff_mult_distrib2)
  moreover have "n * (unat z - 128) \<le> 31 * 4" using n z' by (intro mult_mono) auto
  ultimately show "n * unat z div 128 = n" by simp
qed

text \<open>\<^verbatim>\<open>slab_free\<close> recovers the block and the slot from the address.\<close>

lemma slot_decode:
  assumes "region_inv r" and "b \<in> region_live r" and "128 \<le> z" "z \<le> 132" and "n < 32"
  shows "(b + of_nat n * z) div PAGE_SIZE * PAGE_SIZE = b"
    and "unat ((b + of_nat n * z - b) div (PAGE_SIZE div BITMAP_BPS)) = n"
proof -
  note a = slot_nat [OF assms]
  have d: "unat ((b + of_nat n * z) div PAGE_SIZE) = unat b div 4096"
    using a(1) aligned_div [OF a(3,2)] by (simp add: PAGE_SIZE_def unat_div)
  have "unat b div 4096 * 4096 = unat b" using a(3) by auto
  moreover have "unat b div 4096 < 1048576" by (simp add: less_mult_imp_div_less)
  ultimately have "unat ((b + of_nat n * z) div PAGE_SIZE * PAGE_SIZE) = unat b"
    using unat_mult_u32 [of "(b + of_nat n * z) div PAGE_SIZE" PAGE_SIZE] d
    by (simp add: PAGE_SIZE_def)
  then show "(b + of_nat n * z) div PAGE_SIZE * PAGE_SIZE = b" by (simp add: word_unat_eq_iff)
  have "unat (of_nat n * z) = n * unat z"
    using unat_mult_u32 [of "of_nat n" z] a(2) assms(5) by (simp add: unat_of_nat_u32)
  then show "unat ((b + of_nat n * z - b) div (PAGE_SIZE div BITMAP_BPS)) = n"
    using a(4) by (simp add: PAGE_SIZE_def BITMAP_BPS_def unat_div)
qed

lemma slot_nonnull:
  assumes "region_inv r" and "b \<in> region_live r" and "128 \<le> sl_obj_size (mm_slabs m s)" "sl_obj_size (mm_slabs m s) \<le> 132"
    and "n < 32" and "b \<noteq> NULL"
  shows "slot m s b n \<noteq> NULL"
  using slot_nat(1) [OF assms(1-5)] assms(6) by (auto simp: slot_def unat_eq_zero)

lemma slab_core_size:
  "slab_core m s L \<Longrightarrow> 128 \<le> sl_obj_size (mm_slabs m s)" "slab_core m s L \<Longrightarrow> sl_obj_size (mm_slabs m s) \<le> 132"
  by (simp_all add: slab_core_def)

lemma slot_inj:
  assumes "region_inv r" and z: "128 \<le> z" "z \<le> 132"
    and b: "b \<in> region_live r" "n < 32" and b': "b' \<in> region_live r" "n' < 32"
    and eq: "b + of_nat n * z = b' + of_nat n' * z"
  shows "b = b' \<and> n = n'"
proof -
  have bb: "b = b'"
    using slot_decode(1) [OF assms(1) b(1) z b(2)] slot_decode(1) [OF assms(1) b'(1) z b'(2)] eq by simp
  have "n = unat ((b + of_nat n * z - b) div (PAGE_SIZE div BITMAP_BPS))"
    using slot_decode(2) [OF assms(1) b(1) z b(2)] by simp
  also have "\<dots> = n'"
    using slot_decode(2) [OF assms(1) b'(1) z b'(2)] eq bb by simp
  finally show ?thesis using bb by simp
qed

subsection \<open>Picking a block\<close>

lemma global_allocD:
  assumes inv: "region_inv (mm_region m)" and a: "global_alloc m = Some (b, m')"
  shows "region_inv (mm_region m')" and "mm_blks m' = mm_blks m" and "mm_slabs m' = mm_slabs m"
    and "mm_calls m' = mm_calls m"
    and "b = NULL \<Longrightarrow> m' = m"
    and "b \<noteq> NULL \<Longrightarrow> b \<notin> region_live (mm_region m) \<and>
      region_live (mm_region m') = insert b (region_live (mm_region m))"
proof -
  from a obtain r p where r: "region_alloc map_page (mm_region m) (mm_pg m) = Some (b, r, p)"
    and m': "m' = m\<lparr>mm_region := r, mm_pg := p\<rparr>" by (auto simp: global_alloc_def elim!: bind_eq_SomeE)
  note d = region_alloc_SomeD [OF inv r]
  show "region_inv (mm_region m')" "mm_blks m' = mm_blks m" "mm_slabs m' = mm_slabs m"
    "mm_calls m' = mm_calls m" using d(1) by (simp_all add: m')
  show "m' = m" if "b = NULL" using d(6) [OF that] by (simp add: m')
  show "b \<notin> region_live (mm_region m) \<and>
      region_live (mm_region m') = insert b (region_live (mm_region m))" if "b \<noteq> NULL"
    using d(7) [OF that] by (simp add: m')
qed

lemma upd_slab_simps [simp]:
  "mm_blks (upd_slab s f m) = mm_blks m" "mm_region (upd_slab s f m) = mm_region m"
  "mm_pg (upd_slab s f m) = mm_pg m" "mm_calls (upd_slab s f m) = mm_calls m"
  "mm_slabs (upd_slab s f m) = (mm_slabs m)(s := f (mm_slabs m s))"
  by (simp_all add: upd_slab_def)

lemma slab_core_cong:
  assumes "slab_core m s L" and "\<And>w. get_list (s, w) m' = get_list (s, w) m"
    and "sl_obj_size (mm_slabs m' s) = sl_obj_size (mm_slabs m s)"
    and "\<And>w b. b \<in> set (L w) \<Longrightarrow> mm_blks m' b = mm_blks m b"
    and "region_live (mm_region m) \<subseteq> region_live (mm_region m')"
  shows "slab_core m' s L"
proof -
  have "list_ok m' (s, w) (L w)" for w
    using list_ok_unchanged [of m "(s, w)" "L w" m'] assms by (auto simp: slab_core_def)
  then show ?thesis using assms by (auto simp: slab_core_def)
qed

lemma get_list_upd_slab:
  assumes "\<And>x. sl_free (f x) = sl_free x" "\<And>x. sl_partial (f x) = sl_partial x"
    "\<And>x. sl_full (f x) = sl_full x"
  shows "get_list l (upd_slab s f m) = get_list l m"
  using assms by (cases l; cases "snd l") (auto simp: get_list_def)

lemma slab_alloc_block_ok:
  assumes inv: "region_inv (mm_region m)" and core: "slab_core m s L"
    and a: "slab_alloc_block s m = Some (b, m')"
  shows "region_inv (mm_region m')" and "slab_core m' s L" and "kept s m m'"
    and "b \<notin> set (L w)" and "b \<noteq> NULL" and "b \<in> region_live (mm_region m')"
    and "blk_list (mm_blks m' b) = None" and "blk_map (mm_blks m' b) = 1"
    and "blk_magic (mm_blks m' b) = MAGIC" and "sl_lock (mm_slabs m' s) = sl_lock (mm_slabs m s)"
    and "\<And>c. c \<noteq> b \<Longrightarrow> mm_blks m' c = mm_blks m c"
    and "get_list l m' = get_list l m" and "sl_obj_size (mm_slabs m' s) = sl_obj_size (mm_slabs m s)"
    and "region_live (mm_region m) \<subseteq> region_live (mm_region m')"
proof -
  have s0: "map_set 0 0 = Some 1" by (simp add: map_set_def bitmap_set_def BITMAP_BPS_def)
  from a obtain m1 where m1: "global_alloc m = Some (b, m1)" "b \<noteq> NULL"
    and m': "m' = upd_slab s (sl_total_pages_update (\<lambda>n. n + 1)) (upd_blk b (\<lambda>x. x\<lparr>blk_magic := MAGIC,
      blk_slab := s, blk_list := None, blk_map := 1\<rparr>) m1)"
    using s0 by (auto simp: slab_alloc_block_def Let_def upd_blk_def MAGIC_def upd_slab_def
        elim!: bind_eq_SomeE split: if_splits)
  note g = global_allocD [OF inv m1(1)]
  have live: "b \<notin> region_live (mm_region m)"
    "region_live (mm_region m') = insert b (region_live (mm_region m))"
    using g(6) [OF m1(2)] by (simp_all add: m')
  show "region_inv (mm_region m')" using g(1) by (simp add: m')
  show nb: "b \<notin> set (L w)" for w using slab_core_block(1) [OF core] live(1) by blast
  show "b \<noteq> NULL" by (rule m1(2))
  show "b \<in> region_live (mm_region m')" "region_live (mm_region m) \<subseteq> region_live (mm_region m')"
    using live by auto
  show "blk_list (mm_blks m' b) = None" "blk_map (mm_blks m' b) = 1" "blk_magic (mm_blks m' b) = MAGIC"
    "sl_lock (mm_slabs m' s) = sl_lock (mm_slabs m s)" "sl_obj_size (mm_slabs m' s) = sl_obj_size (mm_slabs m s)"
    by (simp_all add: m' g)
  show oth: "mm_blks m' c = mm_blks m c" if "c \<noteq> b" for c using that by (simp add: m' g)
  have gl: "get_list l m' = get_list l m1" for l by (simp add: m' get_list_upd_slab)
  then show gl': "get_list l m' = get_list l m" for l using g(3) by (simp add: get_list_def)
  show "slab_core m' s L"
    by (rule slab_core_cong [OF core gl']) (use nb oth live in \<open>auto simp: m' g\<close>)
  show "kept s m m'"
    by (rule kept_blocks) (use live oth in \<open>auto simp: m' g split: if_splits\<close>)
qed


lemma list_first:
  assumes "list_ok m l bs"
  shows "sll_first (get_list l m) = (if bs = [] then NULL else hd bs)"
  using assms dls_first by (fastforce simp: list_ok_def)

lemma list_first_NULL: "list_ok m l bs \<Longrightarrow> sll_first (get_list l m) = NULL \<longleftrightarrow> bs = []"
  using list_first [of m l bs] by (cases bs) (auto simp: list_ok_def)

lemma get_list_simps [simp]:
  "get_list (s, free_list) m = sl_free (mm_slabs m s)"
  "get_list (s, partial_list) m = sl_partial (mm_slabs m s)"
  "get_list (s, full_list) m = sl_full (mm_slabs m s)"
  by (simp_all add: get_list_def)

text \<open>A block that is on no list is only inserted.\<close>

lemma slab_move_fresh:
  "b \<noteq> NULL \<Longrightarrow> blk_list (mm_blks m b) = None \<Longrightarrow> slab_move_block b l m = slab_insert_block b l m"
  by (simp add: slab_move_block_def slab_delist_block_def)

lemma slab_insert_core:
  assumes core: "slab_core m s L" and b: "b \<noteq> NULL" "\<And>w. b \<notin> set (L w)" "b \<in> region_live (mm_region m)"
    "blk_magic (mm_blks m b) = MAGIC" "map_ok w (blk_map (mm_blks m b))"
    and bl: "blk_list (mm_blks m b) = None"
  obtains m' where "slab_insert_block b (s, w) m = Some m'" and "slab_core m' s (L(w := b # L w))"
    and "links_only m m'" and "kept s m m'"
proof -
  have ok: "list_ok m (s, w) (L w)" for w using core by (simp add: slab_core_def)
  from ok b(1,2) obtain m' where m': "slab_insert_block b (s, w) m = Some m'"
    "\<And>v. list_ok m' (s, v) ((L(w := b # L w)) v)" "links_only m m'"
    "\<And>c. c \<notin> set (b # L w) \<Longrightarrow> mm_blks m' c = mm_blks m c" "\<And>s'. s' \<noteq> s \<Longrightarrow> mm_slabs m' s' = mm_slabs m s'"
    by (rule slab_insert_lists) blast
  have "slab_core m' s (L(w := b # L w))"
    using core m'(2,3) b by (auto simp: slab_core_def links_only_def)
  moreover have "kept s m m'"
  proof (rule kept_blocks)
    fix c s' v assume c: "mm_blks m' c \<noteq> mm_blks m c \<or> c \<notin> region_live (mm_region m')"
      "c \<in> region_live (mm_region m)" "blk_list (mm_blks m c) = Some (s', v)"
    then have "mm_blks m' c \<noteq> mm_blks m c" using m'(3) by (simp add: links_only_def)
    then have "c = b \<or> c \<in> set (L w)" using m'(4) by auto
    then show "s' = s" using slab_core_block(4) [OF core, of c w] c(3) bl by auto
  qed (use m' in \<open>auto simp: links_only_def\<close>)
  ultimately show thesis using that m' by blast
qed


lemma slab_objs_cong:
  assumes "sl_obj_size (mm_slabs m' s) = sl_obj_size (mm_slabs m s)"
    and "\<And>w b. b \<in> set (L w) \<Longrightarrow> blk_map (mm_blks m' b) = blk_map (mm_blks m b)"
    and "(\<Union>w. set (L' w)) = (\<Union>w. set (L w))"
  shows "slab_objs m' s L' = slab_objs m s L"
proof -
  have obj: "slab_objs k s K = {slot k s b n | b n. b \<in> (\<Union>w. set (K w)) \<and> n \<in> bits [blk_map (mm_blks k b)] \<and> n \<noteq> 0}"
    for k K by (auto simp: slab_objs_def)
  have slot: "slot m' s = slot m s" using assms(1) by (simp add: slot_def fun_eq_iff)
  show ?thesis unfolding obj assms(3) slot using assms(2) by auto metis+
qed

lemma slab_objs_insert:
  assumes "\<And>w. b \<notin> set (L w)" and "blk_map (mm_blks m b) = 1"
  shows "slab_objs m s (L(v := b # L v)) = slab_objs m s L"
  using assms by (force simp: slab_objs_def bits_one split: if_splits)

text \<open>The case of \<^verbatim>\<open>slab_alloc\<close> in which a new block is made and put on the free list.\<close>

lemma slab_new_block_ok:
  assumes inv: "region_inv (mm_region m)" and core: "slab_core m s L" and m1: "slab_alloc_block s m = Some (t, m1)"
    and m2: "slab_move_block t (s, free_list) m1 = Some m2"
  defines "L' \<equiv> L(free_list := t # L free_list)"
  shows "t \<noteq> NULL" and "region_inv (mm_region m2)" and "slab_core m2 s L'" and "kept s m m2"
    and "slab_objs m2 s L' = slab_objs m s L" and "sl_lock (mm_slabs m2 s) = sl_lock (mm_slabs m s)"
    and "region_live (mm_region m) \<subseteq> region_live (mm_region m2)"
proof -
  note a = slab_alloc_block_ok [OF inv core m1]
  have "map_ok free_list (blk_map (mm_blks m1 t))" using a(8) by simp
  from a(2,5,4,6,9) this a(7) obtain m2' where "slab_insert_block t (s, free_list) m1 = Some m2'" "slab_core m2' s L'"
    "links_only m1 m2'" "kept s m1 m2'" unfolding L'_def by (rule slab_insert_core)
  moreover from this(1) have "m2' = m2" using m2 slab_move_fresh [OF a(5,7)] by simp
  ultimately have i: "slab_core m2 s L'" "links_only m1 m2" "kept s m1 m2" by simp_all
  show "t \<noteq> NULL" "slab_core m2 s L'" by (fact a(5) i(1))+
  show "region_inv (mm_region m2)" "sl_lock (mm_slabs m2 s) = sl_lock (mm_slabs m s)"
    "region_live (mm_region m) \<subseteq> region_live (mm_region m2)" using a(1,10,14) i(2) by (simp_all add: links_only_def)
  show "kept s m m2" by (rule kept_trans [OF a(3) i(3)])
  have "blk_map (mm_blks m2 c) = blk_map (mm_blks m c)" if "c \<in> set (L w)" for w c
  proof -
    have "c \<noteq> t" using a(4) [of w] that by blast
    then show ?thesis using a(11) [of c] i(2) by (simp add: links_only_def)
  qed
  then have "slab_objs m2 s L = slab_objs m s L"
    by (intro slab_objs_cong) (use a(13) i(2) in \<open>simp_all add: links_only_def\<close>)
  moreover have "slab_objs m2 s L' = slab_objs m2 s L"
    unfolding L'_def by (rule slab_objs_insert) (use a(4,8) i(2) in \<open>simp_all add: links_only_def\<close>)
  ultimately show "slab_objs m2 s L' = slab_objs m s L" by simp
qed

lemma slab_pick_ok:
  assumes inv: "region_inv (mm_region m)" and core: "slab_core m s L"
    and p: "slab_pick False s m = Some (b, m')"
  obtains L' w where "region_inv (mm_region m')" and "slab_core m' s L'" and "b \<in> set (L' w)"
    and "w \<noteq> full_list" and "kept s m m'" and "slab_objs m' s L' = slab_objs m s L"
    and "sl_lock (mm_slabs m' s) = sl_lock (mm_slabs m s)"
    and "region_live (mm_region m) \<subseteq> region_live (mm_region m')"
proof -
  have ok: "list_ok m (s, w) (L w)" for w using core by (simp add: slab_core_def)
  have refl: "kept s m m" by (rule kept_blocks) auto
  let ?p = "sll_first (sl_partial (mm_slabs m s))" and ?f = "sll_first (sl_free (mm_slabs m s))"
  consider (partial) "?p \<noteq> NULL" | (free) "?p = NULL" "?f \<noteq> NULL" | (none) "?p = NULL" "?f = NULL" by blast
  then show thesis
  proof cases
    case partial
    then have "b = ?p" "m' = m" using p by (auto simp: slab_pick.simps [of False])
    moreover have "L partial_list \<noteq> []" "?p = hd (L partial_list)"
      using list_first_NULL [OF ok [of partial_list]] list_first [OF ok [of partial_list]] partial by auto
    ultimately show thesis using that [of L partial_list] inv core refl by auto
  next
    case free
    then have "b = ?f" "m' = m" using p by (auto simp: slab_pick.simps [of False])
    moreover have "L free_list \<noteq> []" "?f = hd (L free_list)"
      using list_first_NULL [OF ok [of free_list]] list_first [OF ok [of free_list]] free by auto
    ultimately show thesis using that [of L free_list] inv core refl by auto
  next
    case none
    then obtain t m1 m2 where m1: "slab_alloc_block s m = Some (t, m1)"
      and m2: "slab_move_block t (s, free_list) m1 = Some m2" and p2: "slab_pick True s m2 = Some (b, m')"
      using p by (auto simp: slab_pick.simps [of False] split: option.splits)
    note a = slab_new_block_ok [OF inv core m1 m2]
    let ?L = "L(free_list := t # L free_list)"
    have "list_ok m2 (s, w) (?L w)" for w using a(3) by (simp add: slab_core_def)
    note ok2 = this [of partial_list] this [of free_list]
    have "L partial_list = []" using list_first_NULL [OF ok [of partial_list]] none by simp
    then have "sll_first (sl_partial (mm_slabs m2 s)) = NULL" "sll_first (sl_free (mm_slabs m2 s)) = t"
      using list_first_NULL [OF ok2(1)] list_first [OF ok2(2)] by simp_all
    then have "b = t" "m' = m2" using p2 a(1) by (auto simp: slab_pick.simps [of True])
    then show thesis using that [of ?L free_list] a by simp
  qed
qed


subsection \<open>Changing the map of a block\<close>

lemma list_ok_map [simp]: "list_ok (upd_blk b (blk_map_update f) m) l bs = list_ok m l bs"
  using dls_cong [of bs "mm_blks (upd_blk b (blk_map_update f) m)" "mm_blks m"]
  by (auto simp: list_ok_def)

lemma moved_union:
  assumes "b \<in> set (L w1)" and "distinct (L w1)" and "w1 \<noteq> w2"
  shows "(\<Union>w. set ((L(w1 := remove1 b (L w1), w2 := b # L w2)) w)) = (\<Union>w. set (L w))" (is "(\<Union>w. set (?L w)) = _")
proof (intro equalityI subsetI)
  fix c assume "c \<in> (\<Union>w. set (?L w))"
  then obtain w where "c \<in> set (?L w)" by blast
  then have "c \<in> set (L w1) \<or> c \<in> set (L w2) \<or> c \<in> set (L w)"
    using assms(1) set_remove1_subset [of b "L w1"] by (auto split: if_splits)
  then show "c \<in> (\<Union>w. set (L w))" by blast
next
  fix c assume "c \<in> (\<Union>w. set (L w))"
  then obtain w where "c \<in> set (L w)" by blast
  then have "c \<in> set (?L (if c = b then w2 else w))" using assms by auto
  then show "c \<in> (\<Union>w. set (?L w))" by blast
qed

text \<open>
  A block whose map is changed to \<open>v\<close> and that is put on the list \<open>v\<close> belongs to, as both
  \<^verbatim>\<open>slab_alloc\<close> and \<^verbatim>\<open>slab_free\<close> do it.
\<close>

lemma slab_remap:
  assumes core: "slab_core m s L" and b: "b \<in> set (L w1)" and v: "map_ok w2 v"
  obtains m' L' where
    "if w1 = w2 then m' = upd_blk b (blk_map_update (\<lambda>_. v)) m
     else slab_move_block b (s, w2) (upd_blk b (blk_map_update (\<lambda>_. v)) m) = Some m'"
    and "slab_core m' s L'" and "(\<Union>w. set (L' w)) = (\<Union>w. set (L w))"
    and "kept s m m'" and "links_only (upd_blk b (blk_map_update (\<lambda>_. v)) m) m'"
    and "b \<in> set (L' w2)"
proof -
  let ?m2 = "upd_blk b (blk_map_update (\<lambda>_. v)) m"
  have bl: "blk_list (mm_blks m b) = Some (s, w1)" by (rule slab_core_block(4) [OF core b])
  have ok: "list_ok ?m2 (s, w) (L w)" for w using core by (simp add: slab_core_def)
  have other: "c \<in> set (L w) \<Longrightarrow> w \<noteq> w1 \<Longrightarrow> c \<noteq> b" for c w
    using slab_core_block(4) [OF core] bl by auto
  show thesis
  proof (cases "w1 = w2")
    case True
    have "slab_core ?m2 s L"
      using core ok v True other by (auto simp: slab_core_def)
    moreover have "kept s m ?m2" by (rule kept_blocks) (use bl in \<open>auto split: if_splits\<close>)
    ultimately show thesis using that [of ?m2 L] True b by (auto simp: links_only_def)
  next
    case False
    from ok b False obtain m' where m': "slab_move_block b (s, w2) ?m2 = Some m'"
      "\<And>w. list_ok m' (s, w) ((L(w1 := remove1 b (L w1), w2 := b # L w2)) w)" "links_only ?m2 m'"
      "\<And>s'. s' \<noteq> s \<Longrightarrow> mm_slabs m' s' = mm_slabs ?m2 s'"
      "\<And>c. mm_blks m' c \<noteq> mm_blks ?m2 c \<Longrightarrow> \<exists>w. blk_list (mm_blks ?m2 c) = Some (s, w)"
      by (rule slab_move_ok) blast
    let ?L = "L(w1 := remove1 b (L w1), w2 := b # L w2)"
    have d: "distinct (L w1)" using ok [of w1] by (simp add: list_ok_def)
    have fields: "blk_map (mm_blks m' c) = (if c = b then v else blk_map (mm_blks m c))"
      "blk_magic (mm_blks m' c) = blk_magic (mm_blks m c)" "mm_region m' = mm_region m"
      "sl_obj_size (mm_slabs m' s) = sl_obj_size (mm_slabs m s)" for c
      using m'(3) by (auto simp: links_only_def)
    have "c \<in> region_live (mm_region m) \<and> blk_magic (mm_blks m c) = MAGIC \<and>
        map_ok w (if c = b then v else blk_map (mm_blks m c))" if "c \<in> set (?L w)" for c w
    proof (cases "c = b")
      case True
      then have "w = w2" using that other [of b w] d False by (auto split: if_splits)
      then show ?thesis using True v slab_core_block [OF core b] by simp
    next
      case False
      then have "c \<in> set (L w)" using that d by (auto split: if_splits)
      then show ?thesis using False slab_core_block [OF core, of c w] by simp
    qed
    then have "slab_core m' s ?L"
      using m'(2) core unfolding slab_core_def fields by simp
    moreover have "(\<Union>w. set (?L w)) = (\<Union>w. set (L w))" by (rule moved_union [of b L w1 w2, OF b d False])
    moreover have "kept s m m'"
    proof (rule kept_blocks)
      fix c s' w assume c: "mm_blks m' c \<noteq> mm_blks m c \<or> c \<notin> region_live (mm_region m')"
        "c \<in> region_live (mm_region m)" "blk_list (mm_blks m c) = Some (s', w)"
      show "s' = s"
      proof (cases "mm_blks m' c \<noteq> mm_blks ?m2 c")
        case True
        from m'(5) [OF this] c(3) show ?thesis by (auto split: if_splits)
      next
        case False
        then show ?thesis using c bl fields by (auto split: if_splits)
      qed
    qed (use m'(4) in simp)
    ultimately show thesis using that [of m' ?L] False m'(1,3) by auto
  qed
qed

lemma slab_objs_alt:
  "slab_objs m s L = (\<lambda>(b, n). slot m s b n) ` (SIGMA b : (\<Union>w. set (L w)). bits [blk_map (mm_blks m b)] - {0})"
  by (force simp: slab_objs_def)

lemma Sigma_insert_at:
  "b \<in> U \<Longrightarrow> n \<noteq> z \<Longrightarrow> Sigma U (\<lambda>c. (if c = b then insert n (B b) else B c) - {z}) =
    insert (b, n) (Sigma U (\<lambda>c. B c - {z}))"
  by (auto split: if_splits)

lemma Sigma_remove_at:
  "Sigma U (\<lambda>c. (if c = b then B b - {n} else B c) - {z}) = Sigma U (\<lambda>c. B c - {z}) - {(b, n)}"
  by (auto split: if_splits)

lemma slab_objs_remap:
  assumes inv: "region_inv (mm_region m)" and core: "slab_core m s L" and b: "b \<in> set (L w)"
    and L': "(\<Union>w. set (L' w)) = (\<Union>w. set (L w))"
    and lk: "links_only (upd_blk b (blk_map_update (\<lambda>_. v)) m) m'" and n: "n \<noteq> 0" "n < 32"
  shows "bits [v] = insert n (bits [blk_map (mm_blks m b)]) \<Longrightarrow>
      slab_objs m' s L' = insert (slot m s b n) (slab_objs m s L)"
    and "bits [v] = bits [blk_map (mm_blks m b)] - {n} \<Longrightarrow> n \<in> bits [blk_map (mm_blks m b)] \<Longrightarrow>
      slab_objs m' s L' = slab_objs m s L - {slot m s b n}"
    and "n \<notin> bits [blk_map (mm_blks m b)] \<Longrightarrow> slot m s b n \<notin> slab_objs m s L"
proof -
  let ?U = "\<Union>w. set (L w)" and ?B = "\<lambda>c. bits [blk_map (mm_blks m c)]"
  let ?f = "\<lambda>(c, k). slot m s c k"
  have slot: "slot m' s = slot m s" using lk by (auto simp: links_only_def slot_def fun_eq_iff)
  have B': "bits [blk_map (mm_blks m' c)] = (if c = b then bits [v] else ?B c)" for c
    using lk by (auto simp: links_only_def)
  have bu: "b \<in> ?U" using b by auto
  have live: "c \<in> region_live (mm_region m)" if "c \<in> ?U" for c
    using that slab_core_block(1) [OF core] by auto
  note z = slab_core_size [OF core]
  have inj: "inj_on ?f (?U \<times> {..< 32})"
  proof (rule inj_onI)
    fix x y assume "x \<in> ?U \<times> {..< 32}" "y \<in> ?U \<times> {..< 32}" "?f x = ?f y"
    then show "x = y"
      using slot_inj [OF inv z live _ live, of "fst x" "snd x" "fst y" "snd y"]
      by (cases x; cases y) (simp add: slot_def)
  qed
  have sub: "Sigma ?U (\<lambda>c. ?B c - {0}) \<subseteq> ?U \<times> {..< 32}" by (auto simp: bits_single)
  have obj': "slab_objs m' s L' = ?f ` Sigma ?U (\<lambda>c. (if c = b then bits [v] else ?B c) - {0})"
    unfolding slab_objs_alt L' slot B' ..
  show "slab_objs m' s L' = insert (slot m s b n) (slab_objs m s L)"
    if v: "bits [v] = insert n (?B b)"
  proof -
    have "Sigma ?U (\<lambda>c. (if c = b then bits [v] else ?B c) - {0}) =
        insert (b, n) (Sigma ?U (\<lambda>c. ?B c - {0}))"
      unfolding v by (rule Sigma_insert_at [OF bu n(1)])
    then show ?thesis unfolding obj' slab_objs_alt [of m s L] by simp
  qed
  show "slab_objs m' s L' = slab_objs m s L - {slot m s b n}"
    if v: "bits [v] = ?B b - {n}" "n \<in> ?B b"
  proof -
    have "Sigma ?U (\<lambda>c. (if c = b then bits [v] else ?B c) - {0}) =
        Sigma ?U (\<lambda>c. ?B c - {0}) - {(b, n)}"
      unfolding v(1) by (rule Sigma_remove_at)
    moreover have "?f ` (Sigma ?U (\<lambda>c. ?B c - {0}) - {(b, n)}) =
        ?f ` Sigma ?U (\<lambda>c. ?B c - {0}) - ?f ` {(b, n)}"
      by (rule inj_on_image_set_diff [OF inj]) (use sub bu v n in \<open>auto simp: bits_single\<close>)
    ultimately show ?thesis unfolding obj' slab_objs_alt [of m s L] by simp
  qed
  show "slot m s b n \<notin> slab_objs m s L" if "n \<notin> ?B b"
  proof
    assume "slot m s b n \<in> slab_objs m s L"
    then have "?f (b, n) \<in> ?f ` Sigma ?U (\<lambda>c. ?B c - {0})" unfolding slab_objs_alt by simp
    then obtain x where x: "?f (b, n) = ?f x" "x \<in> Sigma ?U (\<lambda>c. ?B c - {0})" by (rule imageE)
    have "(b, n) \<in> ?U \<times> {..< 32}" using bu n(2) by simp
    with inj_onD [OF inj x(1)] x(2) sub have "x = (b, n)" by blast
    with x(2) that show False by simp
  qed
qed


subsection \<open>The slab as an allocator\<close>

definition slab_inv :: "slab_id \<Rightarrow> mm \<Rightarrow> bool" where
  "slab_inv s m \<longleftrightarrow> region_inv (mm_region m) \<and> \<not> sl_lock (mm_slabs m s) \<and> (\<exists>L. slab_core m s L)"

text \<open>The addresses handed out by \<^verbatim>\<open>slab_alloc\<close> and not yet given back.\<close>

definition slab_live :: "slab_id \<Rightarrow> mm \<Rightarrow> ptr set" where
  "slab_live s m = {a. \<exists>L. slab_core m s L \<and> a \<in> slab_objs m s L}"

lemma slab_core_unique:
  assumes "slab_core m s L" and "slab_core m s L'" shows "L = L'"
proof
  fix w
  have "list_ok m (s, w) (L w)" "list_ok m (s, w) (L' w)" using assms by (simp_all add: slab_core_def)
  then show "L w = L' w" using dls_unique by (fastforce simp: list_ok_def)
qed

lemma slab_live_eq: "slab_core m s L \<Longrightarrow> slab_live s m = slab_objs m s L"
proof -
  assume "slab_core m s L"
  then have "slab_core m s L' \<longleftrightarrow> L' = L" for L' using slab_core_unique by blast
  then show ?thesis by (simp add: slab_live_def)
qed

lemma slab_live_cong:
  assumes "slab_core m s L" and "\<And>w b. b \<in> set (L w) \<Longrightarrow> mm_blks m' b = mm_blks m b"
    and "sl_obj_size (mm_slabs m' s) = sl_obj_size (mm_slabs m s)" and "slab_core m' s L"
  shows "slab_live s m' = slab_live s m"
  unfolding slab_live_eq [OF assms(1)] slab_live_eq [OF assms(4)]
  by (rule slab_objs_cong) (use assms in auto)

text \<open>Other slabs keep their invariant and their objects.\<close>

lemma kept_slab:
  assumes "kept s m m'" and "region_inv (mm_region m')" and "s' \<noteq> s" and "slab_inv s' m"
  shows "slab_inv s' m'" and "slab_live s' m' = slab_live s' m"
proof -
  from assms(4) obtain L where L: "slab_core m s' L" by (auto simp: slab_inv_def)
  have L': "slab_core m' s' L" by (rule kept_core [OF assms(1,3) L])
  have k: "mm_slabs m' s' = mm_slabs m s'" "\<And>w b. b \<in> set (L w) \<Longrightarrow> mm_blks m' b = mm_blks m b"
    using assms(1,3) L by (auto simp: kept_def)
  then show "slab_inv s' m'" using assms(2,4) L' by (auto simp: slab_inv_def)
  show "slab_live s' m' = slab_live s' m" by (rule slab_live_cong [OF L]) (use k L' in auto)
qed

lemma upd_lock_core:
  assumes "slab_core m s L"
  shows "slab_core (upd_slab s (sl_lock_update f) m) s L"
    and "slab_objs (upd_slab s (sl_lock_update f) m) s L = slab_objs m s L"
    and "kept s m (upd_slab s (sl_lock_update f) m)"
proof -
  show "slab_core (upd_slab s (sl_lock_update f) m) s L"
    by (rule slab_core_cong [OF assms]) (simp_all add: get_list_upd_slab del: get_list_simps)
  show "slab_objs (upd_slab s (sl_lock_update f) m) s L = slab_objs m s L"
    by (rule slab_objs_cong) simp_all
  show "kept s m (upd_slab s (sl_lock_update f) m)" by (rule kept_blocks) auto
qed

lemma call_fn_simps [simp]:
  "mm_blks (call_fn f a m) = mm_blks m" "mm_region (call_fn f a m) = mm_region m"
  "mm_slabs (call_fn f a m) = mm_slabs m" "get_list l (call_fn f a m) = get_list l m"
  "mm_pg (call_fn f a m) = mm_pg m"
  by (simp_all add: call_fn_def get_list_def)

lemma call_fn_core:
  assumes "slab_core m s L"
  shows "slab_core (call_fn f a m) s L" and "slab_objs (call_fn f a m) s L = slab_objs m s L"
    and "kept s m (call_fn f a m)"
proof -
  show "slab_core (call_fn f a m) s L" by (rule slab_core_cong [OF assms]) simp_all
  show "slab_objs (call_fn f a m) s L = slab_objs m s L" by (rule slab_objs_cong) simp_all
  show "kept s m (call_fn f a m)" by (rule kept_blocks) auto
qed

lemma slab_finish:
  assumes "slab_core m s L" and "region_inv (mm_region m)"
  shows "slab_inv s (slab_unlock s (call_fn f a m))"
    and "slab_live s (slab_unlock s (call_fn f a m)) = slab_objs m s L"
    and "kept s m (slab_unlock s (call_fn f a m))"
proof -
  note c = call_fn_core [OF assms(1), of f a]
  note u = upd_lock_core [OF c(1), of lock_unlock]
  show "slab_inv s (slab_unlock s (call_fn f a m))"
    using u(1) assms(2) by (auto simp: slab_inv_def slab_unlock_def)
  show "slab_live s (slab_unlock s (call_fn f a m)) = slab_objs m s L"
    using slab_live_eq [OF u(1)] u(2) c(2) by (simp add: slab_unlock_def)
  show "kept s m (slab_unlock s (call_fn f a m))"
    using kept_trans [OF c(3) u(3)] by (simp add: slab_unlock_def)
qed

lemma slab_lockD:
  assumes "slab_lock s m = Some m0" and "slab_core m s L"
  shows "slab_core m0 s L" and "slab_objs m0 s L = slab_objs m s L" and "kept s m m0"
    and "mm_region m0 = mm_region m"
proof -
  have m0: "m0 = upd_slab s (sl_lock_update (\<lambda>_. True)) m"
    using assms(1) by (cases "sl_lock (mm_slabs m s)") (auto simp: slab_lock_def)
  show "slab_core m0 s L" "slab_objs m0 s L = slab_objs m s L" "kept s m m0" "mm_region m0 = mm_region m"
    using upd_lock_core [OF assms(2), of "\<lambda>_. True"] by (simp_all add: m0)
qed

lemma map_ok_after_set:
  assumes "map_ok w v" and "w \<noteq> full_list" and "bits [v'] = insert n (bits [v])" and "n \<noteq> 0"
  shows "map_ok (if v' = BITMAP_ENT_FULL then full_list else partial_list) v'"
proof -
  have "0 \<in> bits [v]" using assms(1,2) by (cases w) (auto simp: bits_single)
  then have "0 \<in> bits [v']" "n \<in> bits [v']" using assms(3) by simp_all
  moreover have "v' \<noteq> 1" using \<open>n \<in> bits [v']\<close> assms(4) bits_one by (cases "v' = 1") simp_all
  ultimately show ?thesis by (simp add: bits_single)
qed


lemma slab_alloc_ok:
  assumes inv: "slab_inv s m" and a: "slab_alloc s m = Some (p, m')"
  shows "slab_inv s m' \<and> kept s m m' \<and> p \<noteq> NULL \<and> p \<notin> slab_live s m \<and>
    slab_live s m' = insert p (slab_live s m) \<and> region_inv (mm_region m') \<and>
    region_live (mm_region m) \<subseteq> region_live (mm_region m')"
proof -
  from inv obtain L where L: "slab_core m s L" and r: "region_inv (mm_region m)"
    by (auto simp: slab_inv_def)
  from a obtain m0 b m1 where m0: "slab_lock s m = Some m0" and pick: "slab_pick False s m0 = Some (b, m1)"
    by (auto simp: slab_alloc_def elim!: bind_eq_SomeE)
  note l = slab_lockD [OF m0 L]
  from l(4) r have r0: "region_inv (mm_region m0)" by simp
  from r0 l(1) pick obtain L1 w where c1: "region_inv (mm_region m1)" "slab_core m1 s L1"
    "b \<in> set (L1 w)" "w \<noteq> full_list" "kept s m0 m1" "slab_objs m1 s L1 = slab_objs m0 s L"
    "region_live (mm_region m0) \<subseteq> region_live (mm_region m1)"
    by (rule slab_pick_ok)
  note blk = slab_core_block [OF c1(2,3)]
  let ?v = "blk_map (mm_blks m1 b)"
  have "?v \<noteq> BITMAP_ENT_FULL" using blk(3) c1(4)
    by (cases w) (auto simp: BITMAP_ENT_FULL_def)
  then obtain n v' where n: "bitmap_first_free [?v] BITMAP_BPS = Some n" "unat n < 32"
    "unat n \<notin> bits [?v]" "map_set ?v n = Some v'" "bits [v'] = insert (unat n) (bits [?v])"
    by (rule map_first_free)
  have "0 \<in> bits [?v]" using blk(3) c1(4) by (cases w) (auto simp: bits_single)
  then have n0: "unat n \<noteq> 0" using n(3) by metis
  define w2 where "w2 = (if v' = BITMAP_ENT_FULL then full_list else partial_list)"
  have ok2: "map_ok w2 v'" unfolding w2_def by (rule map_ok_after_set [OF blk(3) c1(4) n(5) n0])
  let ?m2 = "upd_blk b (blk_map_update (\<lambda>_. v')) m1"
  from c1(2,3) ok2 obtain m3 L3 where m3: "if w = w2 then m3 = ?m2 else slab_move_block b (s, w2) ?m2 = Some m3"
    "slab_core m3 s L3" "(\<Union>w. set (L3 w)) = (\<Union>w. set (L1 w))" "kept s m1 m3" "links_only ?m2 m3"
    by (rule slab_remap)
  have run: "(if blk_map (mm_blks ?m2 b) = BITMAP_ENT_FULL then slab_move_block b (s, full_list) ?m2
      else if blk_list (mm_blks ?m2 b) = Some (s, free_list) then slab_move_block b (s, partial_list) ?m2
      else Some ?m2) = Some m3"
  proof (cases "v' = BITMAP_ENT_FULL")
    case True
    then have "w2 = full_list" by (simp add: w2_def)
    then show ?thesis using True m3(1) c1(4) by simp
  next
    case False
    then have "w2 = partial_list" by (simp add: w2_def)
    then show ?thesis using False m3(1) blk(4) c1(4) by (cases w) simp_all
  qed
  have p: "p = b + n * sl_obj_size (mm_slabs m1 s)"
    and m': "m' = slab_unlock s (call_fn (sl_ctor (mm_slabs m3 s)) p m3)"
    using a m0 pick blk(5) n run by (auto simp: slab_alloc_def Let_def)
  have slot: "p = slot m1 s b (unat n)" by (simp add: p slot_def)
  note objs = slab_objs_remap [OF c1(1,2,3) m3(3,5) n0 n(2)]
  have r3: "region_inv (mm_region m3)" using m3(5) c1(1) by (simp add: links_only_def)
  note fin = slab_finish [OF m3(2) r3, of "sl_ctor (mm_slabs m3 s)" p, folded m']
  have live: "slab_live s m = slab_objs m1 s L1"
    using slab_live_eq [OF L] l(2) c1(6) by simp
  have "p \<notin> slab_live s m" "slab_live s m' = insert p (slab_live s m)"
    using objs(1) [OF n(5)] objs(3) [OF n(3)] fin(2) live slot by simp_all
  moreover have "p \<noteq> NULL" unfolding slot by (rule slot_nonnull [OF c1(1) blk(1) slab_core_size [OF c1(2)] n(2) blk(5)])
  moreover have "region_inv (mm_region m')" using fin(1) by (simp add: slab_inv_def)
  moreover have "kept s m m'"
    using kept_trans [OF l(3) kept_trans [OF c1(5) kept_trans [OF m3(4) fin(3)]]] .
  moreover have "region_live (mm_region m) \<subseteq> region_live (mm_region m')"
    using c1(7) l(4) m3(5) by (simp add: m' slab_unlock_def links_only_def)
  ultimately show ?thesis using fin(1) by blast
qed


lemma global_freeD:
  assumes inv: "region_inv (mm_region m)" and a: "a \<in> region_live (mm_region m)"
    and f: "global_free a m = Some m'"
  shows "region_inv (mm_region m')" and "mm_blks m' = mm_blks m" and "mm_slabs m' = mm_slabs m"
    and "region_live (mm_region m') = region_live (mm_region m) - {a}"
proof -
  from f obtain r p where r: "region_free unmap_page (mm_region m) a (mm_pg m) = Some (r, p)"
    and m': "m' = m\<lparr>mm_region := r, mm_pg := p\<rparr>" by (auto simp: global_free_def elim!: bind_eq_SomeE)
  from region_free_SomeD [OF inv a r] show "region_inv (mm_region m')" "mm_blks m' = mm_blks m"
    "mm_slabs m' = mm_slabs m" "region_live (mm_region m') = region_live (mm_region m) - {a}"
    by (simp_all add: m')
qed

text \<open>Giving the first free block back to the region.\<close>

lemma slab_drop_block:
  assumes inv: "region_inv (mm_region m)" and core: "slab_core m s L" and L: "L free_list = b # bs"
    and d: "slab_delist_block b m = Some m1" and f: "global_free b m1 = Some m2"
  shows "slab_core m2 s (L(free_list := bs)) \<and> kept s m m2 \<and> region_inv (mm_region m2) \<and>
    slab_objs m2 s (L(free_list := bs)) = slab_objs m s L"
proof -
  have ok: "list_ok m (s, w) (L w)" for w using core by (simp add: slab_core_def)
  have b: "b \<in> set (L free_list)" using L by simp
  note blk = slab_core_block [OF core b]
  have "list_ok m (s, free_list) ([] @ b # bs)" using ok [of free_list] L by simp
  then obtain m1' where m1': "slab_delist_block b m = Some m1'" "list_ok m1' (s, free_list) ([] @ bs)"
    "links_only m m1'" "\<And>c. blk_list (mm_blks m1' c) = blk_list (mm_blks m c)"
    "\<And>c. c \<notin> set ([] @ b # bs) \<Longrightarrow> mm_blks m1' c = mm_blks m c"
    "\<And>l'. l' \<noteq> (s, free_list) \<Longrightarrow> get_list l' m1' = get_list l' m"
    "\<And>s'. s' \<noteq> fst (s, free_list) \<Longrightarrow> mm_slabs m1' s' = mm_slabs m s'" by (rule slab_delist_ok) blast
  have "m1' = m1" using d m1'(1) by simp
  note m1 = m1' [unfolded this]
  have reg: "mm_region m1 = mm_region m" using m1(3) by (simp add: links_only_def)
  note g = global_freeD [OF _ _ f, unfolded reg, OF inv blk(1)]
  have lk: "blk_map (mm_blks m1 c) = blk_map (mm_blks m c)" "blk_magic (mm_blks m1 c) = blk_magic (mm_blks m c)"
    "sl_obj_size (mm_slabs m1 s) = sl_obj_size (mm_slabs m s)" for c
    using m1(3) by (auto simp: links_only_def)
  let ?L = "L(free_list := bs)"
  have disj: "c \<in> set (L w) \<Longrightarrow> w \<noteq> free_list \<Longrightarrow> c \<notin> set (b # bs)" for c w
    using list_ok_disjoint [OF ok [of w] ok [of free_list]] L by auto
  have "list_ok m1 (s, w) (?L w)" for w
    using m1(2) list_ok_unchanged [OF ok [of w], of m1] m1(5,6) disj [of _ w]
    by (cases "w = free_list") auto
  then have ok2: "list_ok m2 (s, w) (?L w)" for w
    using list_ok_unchanged [of m1 "(s, w)" "?L w" m2] g(2,3) by (simp add: get_list_def)
  have sub: "c \<in> set (L w) \<and> c \<noteq> b" if "c \<in> set (?L w)" for c w
    using that disj [of c w] L ok [of free_list] by (cases "w = free_list") (auto simp: list_ok_def)
  have "slab_core m2 s ?L"
    unfolding slab_core_def
  proof (intro conjI allI ballI)
    fix w c assume "c \<in> set (?L w)"
    with sub [OF this] slab_core_block [OF core, of c w]
    show "c \<in> region_live (mm_region m2)" "blk_magic (mm_blks m2 c) = MAGIC"
      "map_ok w (blk_map (mm_blks m2 c))" by (simp_all add: g lk)
  qed (use core ok2 in \<open>simp_all add: slab_core_def g lk\<close>)
  moreover have "kept s m m2"
  proof (rule kept_blocks)
    fix c s' w assume c: "mm_blks m2 c \<noteq> mm_blks m c \<or> c \<notin> region_live (mm_region m2)"
      "c \<in> region_live (mm_region m)" "blk_list (mm_blks m c) = Some (s', w)"
    have "c \<in> set (b # bs)"
    proof (rule ccontr)
      assume "c \<notin> set (b # bs)"
      then have "mm_blks m2 c = mm_blks m c" "c \<noteq> b" using m1(5) [of c] g(2) by simp_all
      with c(1,2) show False using g(4) by simp
    qed
    then show "s' = s" using slab_core_block(4) [OF core, of c free_list] L c(3) by simp
  qed (use m1(7) g(3) in simp)
  moreover have "slab_objs m2 s ?L = slab_objs m s L"
  proof -
    have "\<And>w. b \<notin> set (?L w)" using sub by blast
    then have "slab_objs m2 s (?L(free_list := b # ?L free_list)) = slab_objs m2 s ?L"
      by (rule slab_objs_insert) (use blk(3) in \<open>simp add: g lk\<close>)
    moreover have "?L(free_list := b # ?L free_list) = L" using L by auto
    moreover have "slab_objs m2 s L = slab_objs m s L"
      by (rule slab_objs_cong) (simp_all add: g lk)
    ultimately show ?thesis by simp
  qed
  ultimately show ?thesis using g(1) by blast
qed

lemma slab_dealloc_ok:
  assumes inv: "region_inv (mm_region m)" and core: "slab_core m s L"
    and d: "slab_dealloc_free_block s m = Some m'"
  obtains L' where "slab_core m' s L'" and "kept s m m'" and "region_inv (mm_region m')"
    and "slab_objs m' s L' = slab_objs m s L"
proof (cases "sll_size (sl_free (mm_slabs m s)) > MAX_FREE_SLABS")
  case False
  then have "m' = m" using d by (simp add: slab_dealloc_free_block_def)
  moreover have "kept s m m" by (rule kept_blocks) auto
  ultimately show thesis using that inv core by blast
next
  case True
  have ok: "list_ok m (s, free_list) (L free_list)" using core by (simp add: slab_core_def)
  from True d obtain m1 where m1: "slab_delist_block (sll_first (sl_free (mm_slabs m s))) m = Some m1"
    "global_free (sll_first (sl_free (mm_slabs m s))) m1 = Some m'"
    by (auto simp: slab_dealloc_free_block_def slab_pop_block_def Let_def elim!: bind_eq_SomeE)
  have "sll_first (sl_free (mm_slabs m s)) \<noteq> NULL"
    using m1(1) by (auto simp: slab_delist_block_def)
  then obtain b bs where L: "L free_list = b # bs" "sll_first (sl_free (mm_slabs m s)) = b"
    using list_first_NULL [OF ok] list_first [OF ok] by (cases "L free_list") auto
  from slab_drop_block [OF inv core L(1) m1 [unfolded L(2)]] show thesis using that by blast
qed


lemma map_ok_after_unset:
  assumes "map_ok w v" and "n \<in> bits [v]" and "n \<noteq> 0" and "bits [v'] = bits [v] - {n}"
  shows "w \<noteq> free_list" and "map_ok (if v' = 1 then free_list else partial_list) v'"
proof -
  show "w \<noteq> free_list" using assms(1-3) bits_one by (cases w) auto
  have "n \<notin> bits [v']" "n < 32" using assms(2,4) by (auto simp: bits_single)
  then have "v' \<noteq> BITMAP_ENT_FULL" using bits_full by (cases "v' = BITMAP_ENT_FULL") simp_all
  moreover have "0 \<in> bits [v]"
  proof (cases w)
    case full_list
    then show ?thesis using assms(1) bits_full by simp
  qed (use assms(1) in \<open>auto simp: bits_single\<close>)
  then have "0 \<in> bits [v']" using assms(3,4) by simp
  ultimately show "map_ok (if v' = 1 then free_list else partial_list) v'" by (simp add: bits_single)
qed

lemma slab_free_unfold:
  assumes "slab_lock s m = Some m0" and "p \<noteq> NULL" and "p div PAGE_SIZE * PAGE_SIZE = b" and "b \<noteq> NULL"
    and "blk_magic (mm_blks m0 b) = MAGIC"
    and "map_unset (blk_map (mm_blks m0 b)) ((p - b) div (PAGE_SIZE div BITMAP_BPS)) = Some v"
  shows "slab_free s p m = map_option (slab_unlock s)
    (let m2 = upd_blk b (blk_map_update (\<lambda>_. v)) (call_fn (sl_dtor (mm_slabs m0 s)) b m0)
     in if v = 1 then do { m' \<leftarrow> slab_move_block b (s, free_list) m2; slab_dealloc_free_block s m' }
        else if blk_list (mm_blks m0 b) = Some (s, full_list) then slab_move_block b (s, partial_list) m2
        else Some m2)"
  using assms by (simp add: slab_free_def Let_def map_conv_bind_option o_def)

text \<open>The list a block goes to after an object of it is released, and the page it may give back.\<close>

lemma slab_relist_ok:
  assumes r: "region_inv (mm_region m3)" and core: "slab_core m3 s L"
    and m3: "if w = (if v = 1 then free_list else partial_list) then m3 = m2
      else slab_move_block b (s, if v = 1 then free_list else partial_list) m2 = Some m3"
    and w: "w \<noteq> free_list" and bl: "bl = Some (s, w)"
    and run: "(if v = 1 then do { m' \<leftarrow> slab_move_block b (s, free_list) m2; slab_dealloc_free_block s m' }
      else if bl = Some (s, full_list) then slab_move_block b (s, partial_list) m2 else Some m2) = Some m4"
  shows "\<exists>L'. slab_core m4 s L' \<and> kept s m3 m4 \<and> region_inv (mm_region m4) \<and> slab_objs m4 s L' = slab_objs m3 s L"
proof (cases "v = 1")
  case True
  then have "slab_dealloc_free_block s m3 = Some m4" using m3 w run by auto
  from slab_dealloc_ok [OF r core this] show ?thesis by blast
next
  case False
  then have "m4 = m3" using m3 w bl run by (cases w) auto
  moreover have "kept s m3 m3" by (rule kept_blocks) auto
  ultimately show ?thesis using core r by blast
qed

text \<open>The block and the slot of a live object, as \<^verbatim>\<open>slab_free\<close> computes them from its address.\<close>

lemma slab_obj_slot:
  assumes r: "region_inv (mm_region m)" and core: "slab_core m s L" and p: "p \<in> slab_objs m s L"
  obtains w b n v where "b \<in> set (L w)" and "n \<in> bits [blk_map (mm_blks m b)]" and "n \<noteq> 0" and "n < 32"
    and "p = slot m s b n" and "p \<noteq> NULL" and "p div PAGE_SIZE * PAGE_SIZE = b"
    and "map_unset (blk_map (mm_blks m b)) ((p - b) div (PAGE_SIZE div BITMAP_BPS)) = Some v"
    and "bits [v] = bits [blk_map (mm_blks m b)] - {n}"
proof -
  from p obtain w b n where b: "b \<in> set (L w)" and n: "n \<in> bits [blk_map (mm_blks m b)]" "n \<noteq> 0"
    and pn: "p = slot m s b n" by (auto simp: slab_objs_def)
  have n32: "n < 32" using n(1) by (simp add: bits_single)
  note blk = slab_core_block [OF core b]
  note z = slab_core_size [OF core]
  note dec = slot_decode [OF r blk(1) z n32, folded slot_def, folded pn]
  have p0: "p \<noteq> NULL" unfolding pn by (rule slot_nonnull [OF r blk(1) z n32 blk(5)])
  let ?v = "blk_map (mm_blks m b)" and ?pos = "(p - b) div (PAGE_SIZE div BITMAP_BPS)"
  from bitmap_unset_Some [of ?pos "[?v]"] dec(2) n32 obtain ws where
    "bitmap_unset [?v] ?pos = Some ws" by auto
  then obtain v where v: "map_unset ?v ?pos = Some v" by (simp add: map_unset_def)
  have "bits [v] = bits [?v] - {n}" using map_unsetD [OF v] dec(2) by simp
  from that [OF b n n32 pn p0 dec(1) v this] show thesis .
qed

lemma slab_free_ok:
  assumes inv: "slab_inv s m" and p: "p \<in> slab_live s m" and f: "slab_free s p m = Some m'"
  shows "slab_inv s m' \<and> kept s m m' \<and> slab_live s m' = slab_live s m - {p} \<and>
    region_inv (mm_region m')"
proof -
  from inv obtain L where L: "slab_core m s L" and r: "region_inv (mm_region m)"
    by (auto simp: slab_inv_def)
  from f obtain m0 where m0: "slab_lock s m = Some m0" by (auto simp: slab_free_def elim!: bind_eq_SomeE)
  note l = slab_lockD [OF m0 L]
  define m1 where "m1 = call_fn (sl_dtor (mm_slabs m0 s)) (p div PAGE_SIZE * PAGE_SIZE) m0"
  note c = call_fn_core [OF l(1), of "sl_dtor (mm_slabs m0 s)" "p div PAGE_SIZE * PAGE_SIZE", folded m1_def]
  have r1: "region_inv (mm_region m1)" using r l(4) by (simp add: m1_def)
  have live: "slab_live s m = slab_objs m1 s L" using slab_live_eq [OF L] l(2) c(2) by simp
  have "p \<in> slab_objs m1 s L" using p live by simp
  with r1 c(1) obtain w b n v' where b: "b \<in> set (L w)" and n: "n \<in> bits [blk_map (mm_blks m1 b)]" "n \<noteq> 0"
    and n32: "n < 32" and pn: "p = slot m1 s b n" and p0: "p \<noteq> NULL" and dec: "p div PAGE_SIZE * PAGE_SIZE = b"
    and v': "map_unset (blk_map (mm_blks m1 b)) ((p - b) div (PAGE_SIZE div BITMAP_BPS)) = Some v'"
    and bv: "bits [v'] = bits [blk_map (mm_blks m1 b)] - {n}" by (rule slab_obj_slot)
  note blk = slab_core_block [OF c(1) b]
  note mo = map_ok_after_unset [OF blk(3) n bv]
  define w2 where "w2 = (if v' = 1 then free_list else partial_list)"
  let ?m2 = "upd_blk b (blk_map_update (\<lambda>_. v')) m1"
  from c(1) b mo(2) [folded w2_def] obtain m3 L3 where
    m3: "if w = w2 then m3 = ?m2 else slab_move_block b (s, w2) ?m2 = Some m3"
    "slab_core m3 s L3" "(\<Union>w. set (L3 w)) = (\<Union>w. set (L w))" "kept s m1 m3" "links_only ?m2 m3"
    by (rule slab_remap)
  have r3: "region_inv (mm_region m3)" using m3(5) r1 by (simp add: links_only_def)
  have objs: "slab_objs m3 s L3 = slab_live s m - {p}"
    using slab_objs_remap(2) [OF r1 c(1) b m3(3,5) n(2) n32 bv n(1)] live pn by simp
  have kept3: "kept s m m3" using kept_trans [OF l(3) kept_trans [OF c(3) m3(4)]] .
  have m1: "call_fn (sl_dtor (mm_slabs m0 s)) b m0 = m1" using dec by (simp add: m1_def)
  have "blk_magic (mm_blks m0 b) = MAGIC"
    "map_unset (blk_map (mm_blks m0 b)) ((p - b) div (PAGE_SIZE div BITMAP_BPS)) = Some v'"
    using blk(2) v' by (simp_all add: m1_def)
  note f [unfolded slab_free_unfold [OF m0 p0 dec blk(5) this] Let_def m1]
  then obtain m4 where m4: "m' = slab_unlock s m4" and step: "(if v' = 1
      then do { m' \<leftarrow> slab_move_block b (s, free_list) ?m2; slab_dealloc_free_block s m' }
      else if blk_list (mm_blks m0 b) = Some (s, full_list) then slab_move_block b (s, partial_list) ?m2 else Some ?m2) = Some m4"
    by (auto simp only: map_option_eq_Some)
  have "blk_list (mm_blks m0 b) = Some (s, w)" using blk(4) by (simp add: m1_def)
  from slab_relist_ok [OF r3 m3(2) m3(1) [unfolded w2_def] mo(1) this step] obtain L4 where
    L4: "slab_core m4 s L4" "kept s m3 m4" "region_inv (mm_region m4)" "slab_objs m4 s L4 = slab_objs m3 s L3" by blast
  have "call_fn NULL NULL m4 = m4" by (simp add: call_fn_def)
  with slab_finish [OF L4(1,3), of NULL NULL]
  have fin: "slab_inv s m'" "slab_live s m' = slab_objs m4 s L4" "kept s m4 m'"
    by (simp_all add: m4)
  moreover have "kept s m m'" using kept_trans [OF kept3 kept_trans [OF L4(2) fin(3)]] .
  ultimately show ?thesis using objs L4(4) by (auto simp: slab_inv_def)
qed

text \<open>
  With fewer than \<^verbatim>\<open>MAX_FREE_SLABS\<close> free blocks no page goes back to the region, and the release of a
  live object returns.
\<close>

lemma slab_free_total:
  assumes inv: "slab_inv s m" and p: "p \<in> slab_live s m"
    and few: "sll_size (sl_free (mm_slabs m s)) < MAX_FREE_SLABS"
  shows "\<exists>m'. slab_free s p m = Some m'"
proof -
  from inv obtain L where L: "slab_core m s L" and r: "region_inv (mm_region m)" and nl: "\<not> sl_lock (mm_slabs m s)"
    by (auto simp: slab_inv_def)
  from nl obtain m0 where m0: "slab_lock s m = Some m0" "m0 = upd_slab s (sl_lock_update (\<lambda>_. True)) m"
    by (simp add: slab_lock_def)
  note l = slab_lockD [OF m0(1) L]
  have r0: "region_inv (mm_region m0)" using r l(4) by simp
  have "p \<in> slab_objs m0 s L" using p slab_live_eq [OF L] l(2) by simp
  with r0 l(1) obtain w b n v where b: "b \<in> set (L w)" and n: "n \<in> bits [blk_map (mm_blks m0 b)]" "n \<noteq> 0"
    and p0: "p \<noteq> NULL" and dec: "p div PAGE_SIZE * PAGE_SIZE = b"
    and v: "map_unset (blk_map (mm_blks m0 b)) ((p - b) div (PAGE_SIZE div BITMAP_BPS)) = Some v"
    and bv: "bits [v] = bits [blk_map (mm_blks m0 b)] - {n}" by (rule slab_obj_slot)
  note blk = slab_core_block [OF l(1) b]
  note w = map_ok_after_unset(1) [OF blk(3) n bv]
  let ?m2 = "upd_blk b (blk_map_update (\<lambda>_. v)) (call_fn (sl_dtor (mm_slabs m0 s)) b m0)"
  have ok: "list_ok ?m2 (s, w) (L w)" for w
    using call_fn_core(1) [OF l(1), of "sl_dtor (mm_slabs m0 s)" b] by (simp add: slab_core_def)
  have mv: "\<exists>m3. slab_move_block b (s, w2) ?m2 = Some m3 \<and>
      list_ok m3 (s, w2) (b # L w2)" if "w2 \<noteq> w" for w2
  proof -
    have "w \<noteq> w2" using that by simp
    from ok b this obtain m3 where "slab_move_block b (s, w2) ?m2 = Some m3"
      "\<And>x. list_ok m3 (s, x) ((L(w := remove1 b (L w), w2 := b # L w2)) x)" by (rule slab_move_ok) blast
    from this(1) this(2) [of w2] show ?thesis by auto
  qed
  have "sll_size (sl_free (mm_slabs m s)) = of_nat (length (L free_list))"
    using L by (auto simp: slab_core_def list_ok_def dest: spec [of _ free_list])
  then have "\<not> MAX_FREE_SLABS < of_nat (length (b # L free_list))"
    using few by (simp add: MAX_FREE_SLABS_def) unat_arith
  then have "\<exists>m4. slab_dealloc_free_block s m3 = Some m4" if "list_ok m3 (s, free_list) (b # L free_list)" for m3
    using that by (simp add: slab_dealloc_free_block_def list_ok_def)
  then show ?thesis
    unfolding slab_free_unfold [OF m0(1) p0 dec blk(5,2) v] Let_def
    using mv [of free_list] mv [of partial_list] w blk(4) by (auto 4 4)
qed

interpretation slab: allocator "slab_inv s" "slab_alloc s" "slab_free s" "slab_live s" for s
proof (unfold_locales, goal_cases)
  case (1 m)
  then obtain L where L: "slab_core m s L" and r: "region_inv (mm_region m)"
    by (auto simp: slab_inv_def)
  have "slot m s b n \<noteq> NULL" if "b \<in> set (L w)" "n \<in> bits [blk_map (mm_blks m b)]" for b n w
    by (rule slot_nonnull [OF r slab_core_block(1) [OF L that(1)] slab_core_size [OF L]])
      (use that slab_core_block(5) [OF L that(1)] in \<open>auto simp: bits_single\<close>)
  then show ?case by (auto simp: slab_live_eq [OF L] slab_objs_def)
qed (use slab_alloc_ok slab_free_ok in \<open>blast+\<close>)

subsection \<open>Allocation succeeds\<close>

lemma slab_pick_total:
  assumes inv: "region_inv (mm_region m)" and core: "slab_core m s L"
    and av: "L partial_list \<noteq> [] \<or> L free_list \<noteq> [] \<or> (\<exists>b m1. global_alloc m = Some (b, m1) \<and> b \<noteq> NULL)"
  shows "\<exists>b m'. slab_pick False s m = Some (b, m') \<and> b \<noteq> NULL"
proof -
  have ok: "list_ok m (s, w) (L w)" for w using core by (simp add: slab_core_def)
  show ?thesis
  proof (cases "L partial_list \<noteq> [] \<or> L free_list \<noteq> []")
    case True
    then show ?thesis
      using list_first_NULL [OF ok [of partial_list]] list_first_NULL [OF ok [of free_list]]
      by (auto simp: slab_pick.simps [of False])
  next
    case False
    with av obtain b m1 where g: "global_alloc m = Some (b, m1)" "b \<noteq> NULL" by auto
    have "map_set 0 0 = Some 1" by (simp add: map_set_def bitmap_set_def BITMAP_BPS_def)
    then obtain m2 where m2: "slab_alloc_block s m = Some (b, m2)"
      using g by (auto simp: slab_alloc_block_def Let_def)
    note a = slab_alloc_block_ok [OF inv core m2]
    have "map_ok free_list (blk_map (mm_blks m2 b))" using a(8) by simp
    from a(2,5,4,6,9) this a(7) obtain m3 where m3: "slab_insert_block b (s, free_list) m2 = Some m3"
      "slab_core m3 s (L(free_list := b # L free_list))" by (rule slab_insert_core)
    have "list_ok m3 (s, w) ((L(free_list := b # L free_list)) w)" for w
      using m3(2) by (simp add: slab_core_def)
    from list_first_NULL [OF this [of free_list]] have f: "sll_first (sl_free (mm_slabs m3 s)) \<noteq> NULL" by simp
    have "sll_first (sl_partial (mm_slabs m s)) = NULL" "sll_first (sl_free (mm_slabs m s)) = NULL"
      using False list_first_NULL [OF ok [of partial_list]] list_first_NULL [OF ok [of free_list]] by auto
    then have "slab_pick False s m = slab_pick True s m3"
      using m2 m3(1) slab_move_fresh [OF a(5,7)] by (simp add: slab_pick.simps [of False])
    then show ?thesis using f by (auto simp: slab_pick.simps [of True])
  qed
qed

lemma slab_alloc_total:
  assumes inv: "slab_inv s m" and core: "slab_core m s L"
    and av: "L partial_list \<noteq> [] \<or> L free_list \<noteq> [] \<or> (\<exists>b m1. global_alloc m = Some (b, m1) \<and> b \<noteq> NULL)"
  shows "\<exists>p m'. slab_alloc s m = Some (p, m')"
proof -
  have r: "region_inv (mm_region m)" and nl: "\<not> sl_lock (mm_slabs m s)"
    using inv by (auto simp: slab_inv_def)
  then obtain m0 where m0: "slab_lock s m = Some m0" "m0 = upd_slab s (sl_lock_update (\<lambda>_. True)) m"
    by (simp add: slab_lock_def)
  note l = slab_lockD [OF m0(1) core]
  have "\<exists>b m1. global_alloc m0 = Some (b, m1) \<and> b \<noteq> NULL"
    if "global_alloc m = Some (b, m1)" "b \<noteq> NULL" for b m1
    using that by (auto simp: global_alloc_def m0(2) elim!: bind_eq_SomeE)
  with av have av0: "L partial_list \<noteq> [] \<or> L free_list \<noteq> [] \<or>
    (\<exists>b m1. global_alloc m0 = Some (b, m1) \<and> b \<noteq> NULL)" by blast
  have r0: "region_inv (mm_region m0)" using r l(4) by simp
  from slab_pick_total [OF r0 l(1) av0] obtain b m1 where p: "slab_pick False s m0 = Some (b, m1)" "b \<noteq> NULL"
    by blast
  from r0 l(1) p(1) obtain L1 w where c1: "slab_core m1 s L1" "b \<in> set (L1 w)" "w \<noteq> full_list"
    by (rule slab_pick_ok)
  note blk = slab_core_block [OF c1(1,2)]
  have "blk_map (mm_blks m1 b) \<noteq> BITMAP_ENT_FULL" using blk(3) c1(3)
    by (cases w) (auto simp: BITMAP_ENT_FULL_def)
  then obtain n v where n: "bitmap_first_free [blk_map (mm_blks m1 b)] BITMAP_BPS = Some n"
    "map_set (blk_map (mm_blks m1 b)) n = Some v" by (rule map_first_free)
  let ?m2 = "upd_blk b (blk_map_update (\<lambda>_. v)) m1"
  have ok: "list_ok ?m2 (s, w) (L1 w)" for w using c1(1) by (simp add: slab_core_def)
  have mv: "\<exists>m3. slab_move_block b (s, w2) ?m2 = Some m3" if "w2 \<noteq> w" for w2
  proof -
    have "w \<noteq> w2" using that by simp
    from ok c1(2) this obtain m3 where "slab_move_block b (s, w2) ?m2 = Some m3" by (rule slab_move_ok)
    then show ?thesis ..
  qed
  have "\<exists>m3. (if blk_map (mm_blks ?m2 b) = BITMAP_ENT_FULL then slab_move_block b (s, full_list) ?m2
      else if blk_list (mm_blks ?m2 b) = Some (s, free_list) then slab_move_block b (s, partial_list) ?m2
      else Some ?m2) = Some m3"
    using mv [of full_list] mv [of partial_list] blk(4) c1(3) by auto
  then obtain m3 where "(if blk_map (mm_blks ?m2 b) = BITMAP_ENT_FULL then slab_move_block b (s, full_list) ?m2
      else if blk_list (mm_blks ?m2 b) = Some (s, free_list) then slab_move_block b (s, partial_list) ?m2
      else Some ?m2) = Some m3" by blast
  then show ?thesis using m0(1) p n by (simp add: slab_alloc_def Let_def)
qed

lemma slab_init_ok:
  assumes "region_inv (mm_region m)" and "128 \<le> slab_adjust_size sz" and "slab_adjust_size sz \<le> 132"
  shows "slab_inv s (slab_init_at s sz c d m)" and "slab_live s (slab_init_at s sz c d m) = {}"
    and "kept s m (slab_init_at s sz c d m)" and "slab_core (slab_init_at s sz c d m) s (\<lambda>_. [])"
proof -
  let ?m = "slab_init_at s sz c d m"
  have "get_list (s, w) ?m = \<lparr>sll_first = NULL, sll_size = 0\<rparr>" for w
    by (cases w) (simp_all add: slab_init_at_def)
  then have core: "slab_core ?m s (\<lambda>_. [])"
    using assms(2,3) unfolding slab_core_def list_ok_def by (simp add: slab_init_at_def)
  then show "slab_core ?m s (\<lambda>_. [])" .
  show "slab_inv s ?m"
    using core assms(1) by (auto simp: slab_inv_def slab_init_at_def)
  show "slab_live s ?m = {}" by (simp add: slab_live_eq [OF core] slab_objs_def)
  show "kept s m ?m" by (rule kept_blocks) (auto simp: slab_init_at_def)
qed


subsection \<open>Properties of the slab allocator\<close>

text \<open>
  C10: \<^verbatim>\<open>slab_alloc\<close> on a slab whose invariant holds and that has a block with room, or for which
  the global region has a page: it returns an address that is not \<^verbatim>\<open>NULL\<close> and not one of the
  slab's live objects, which is live afterwards; the invariant is kept, and so are the
  invariant and the objects of every other slab.
\<close>

theorem slab_alloc_fresh:
  assumes "slab_inv s m" and "slab_core m s L"
    and "L partial_list \<noteq> [] \<or> L free_list \<noteq> [] \<or> (\<exists>b m1. global_alloc m = Some (b, m1) \<and> b \<noteq> NULL)"
  shows "\<exists>p m'. slab_alloc s m = Some (p, m') \<and> p \<noteq> NULL \<and> p \<notin> slab_live s m \<and>
    slab_live s m' = insert p (slab_live s m) \<and> slab_inv s m' \<and>
    (\<forall>s'. s' \<noteq> s \<and> slab_inv s' m \<longrightarrow> slab_inv s' m' \<and> slab_live s' m' = slab_live s' m)"
proof -
  from slab_alloc_total [OF assms] obtain p m' where p: "slab_alloc s m = Some (p, m')" by blast
  from slab_alloc_ok [OF assms(1) p] show ?thesis using p kept_slab [of s m m'] by blast
qed

text \<open>
  C35: an object that \<^verbatim>\<open>slab_alloc\<close> handed out goes back with \<^verbatim>\<open>slab_free\<close>: while the slab has fewer
  than \<^verbatim>\<open>MAX_FREE_SLABS\<close> free blocks, so that no page is returned to the region, the call returns and
  the live objects are those from before the allocation; the invariant holds again, and every other
  slab has kept its invariant and its objects. Any other live object can be released instead with the
  same effect, and a release that does return a page to the region, when it returns at all, takes
  just its object out as well.
\<close>

theorem slab_free_releases:
  assumes "slab_inv s m" and "slab_alloc s m = Some (p, m1)"
  shows "(sll_size (sl_free (mm_slabs m1 s)) < MAX_FREE_SLABS \<longrightarrow>
      (\<exists>m2. slab_free s p m1 = Some m2 \<and> slab_live s m2 = slab_live s m) \<and>
      (\<forall>q \<in> slab_live s m1. slab_free s q m1 \<noteq> None)) \<and>
    (\<forall>q m2. q \<in> slab_live s m1 \<and> slab_free s q m1 = Some m2 \<longrightarrow>
      slab_live s m2 = insert p (slab_live s m) - {q} \<and> slab_inv s m2 \<and>
      (\<forall>s'. s' \<noteq> s \<and> slab_inv s' m \<longrightarrow> slab_inv s' m2 \<and> slab_live s' m2 = slab_live s' m))"
proof -
  have a: "slab_inv s m1" "slab_live s m1 = insert p (slab_live s m)" "kept s m m1" "p \<notin> slab_live s m"
    using slab_alloc_ok [OF assms] by blast+
  have tot: "slab_free s q m1 \<noteq> None"
    if "q \<in> slab_live s m1" "sll_size (sl_free (mm_slabs m1 s)) < MAX_FREE_SLABS" for q
    using slab_free_total [OF a(1) that] by simp
  have rel: "slab_live s m2 = insert p (slab_live s m) - {q} \<and> slab_inv s m2 \<and>
      (\<forall>s'. s' \<noteq> s \<and> slab_inv s' m \<longrightarrow> slab_inv s' m2 \<and> slab_live s' m2 = slab_live s' m)"
    if "q \<in> slab_live s m1" "slab_free s q m1 = Some m2" for q m2
  proof -
    note f = slab_free_ok [OF a(1) that]
    then have "kept s m m2" "region_inv (mm_region m2)" using kept_trans [OF a(3)] by blast+
    then show ?thesis using f kept_slab [of s m m2] unfolding a(2) by blast
  qed
  have "\<exists>m2. slab_free s p m1 = Some m2 \<and> slab_live s m2 = slab_live s m"
    if "sll_size (sl_free (mm_slabs m1 s)) < MAX_FREE_SLABS"
  proof -
    have p: "p \<in> slab_live s m1" using a(2) by simp
    from tot [OF p that] obtain m2 where m2: "slab_free s p m1 = Some m2" by blast
    with rel [OF p m2] a(4) show ?thesis by auto
  qed
  with tot rel show ?thesis by blast
qed

subsection \<open>A concrete memory\<close>

text \<open>Every slab of the kernel with one free block, in a region of 32 pages.\<close>

fun slab_idx :: "slab_id \<Rightarrow> nat" where
  "slab_idx queue_slab = 0" | "slab_idx cap_space_slab = 1" | "slab_idx atree_slab = 2"
| "slab_idx thread_slab = 3" | "slab_idx addr_space_slab = 4" | "slab_idx phys_frame_slab = 5"
| "slab_idx message_queue_slab = 6" | "slab_idx message_queue_async_slab = 7"
| "slab_idx message_node_slab = 8"

fun idx_slab :: "nat \<Rightarrow> slab_id" where
  "idx_slab n = (if n = 0 then queue_slab else if n = 1 then cap_space_slab else if n = 2 then atree_slab
    else if n = 3 then thread_slab else if n = 4 then addr_space_slab else if n = 5 then phys_frame_slab
    else if n = 6 then message_queue_slab else if n = 7 then message_queue_async_slab
    else message_node_slab)"

definition boot_page :: "slab_id \<Rightarrow> ptr" where
  "boot_page s = 0xd0000000 + of_nat (slab_idx s) * PAGE_SIZE"

definition boot_mm :: mm where
  "boot_mm =
     \<lparr>mm_region = \<lparr>r_bitmap = [0x1ff], r_vaddress = 0xd0000000, r_num_pages = 32, r_available = 23,
                   r_page_flags = 11, r_mode = REGION_MODE_VIRTUAL\<rparr>,
      mm_region_init = True, mm_pg = small_paging,
      mm_blks = (\<lambda>b. let s = idx_slab (unat ((b - 0xd0000000) div PAGE_SIZE)) in
        \<lparr>blk_magic = MAGIC, blk_map = 1, blk_slab = s, blk_prev = NULL, blk_next = NULL,
         blk_list = Some (s, free_list)\<rparr>),
      mm_slabs = (\<lambda>s. \<lparr>sl_lock = False, sl_free = \<lparr>sll_first = boot_page s, sll_size = 1\<rparr>,
        sl_partial = \<lparr>sll_first = NULL, sll_size = 0\<rparr>, sl_full = \<lparr>sll_first = NULL, sll_size = 0\<rparr>,
        sl_ctor = NULL, sl_dtor = NULL, sl_obj_size = 128, sl_total_pages = 1\<rparr>),
      mm_calls = []\<rparr>"

lemma bits_511: "bits [0x1ff] = {..< 9}"
proof -
  have "bit (mask m :: int) n \<longleftrightarrow> n < m" for m n by (simp add: bit_mask_iff)
  from this [of 9] have "bit (511 :: int) n \<longleftrightarrow> n < 9" for n by (simp add: mask_eq_exp_minus_1)
  moreover have "n < 32 \<and> n < 9 \<longleftrightarrow> n \<in> {..< 9 :: nat}" for n by auto
  ultimately show ?thesis by (simp add: bits_def set_eq_iff cong: conj_cong)
qed

lemma boot_region: "region_inv (mm_region boot_mm)"
  "region_live (mm_region boot_mm) = (\<lambda>n. 0xd0000000 + of_nat n * PAGE_SIZE) ` {..< 9}"
proof -
  have "{..< 32} - {..< 9 :: nat} = {9 ..< 32}" by auto
  then show "region_inv (mm_region boot_mm)"
    by (simp add: region_inv_def boot_mm_def bits_511)
  have "{n. n < 9 \<and> n < (32 :: nat)} = {..< 9}" by auto
  then show "region_live (mm_region boot_mm) = (\<lambda>n. 0xd0000000 + of_nat n * PAGE_SIZE) ` {..< 9}"
    by (simp add: region_live_def boot_mm_def bits_511 page_addr_def [abs_def])
qed

lemma boot_core: "slab_core boot_mm s (\<lambda>w. if w = free_list then [boot_page s] else [])"
proof -
  have lt: "slab_idx s < 9" by (cases s) simp_all
  have idx: "idx_slab (unat ((boot_page s - 0xd0000000) div PAGE_SIZE)) = s"
    by (cases s) (simp_all add: boot_page_def PAGE_SIZE_def)
  have nn: "boot_page s \<noteq> NULL" by (cases s) (simp_all add: boot_page_def PAGE_SIZE_def)
  have live: "boot_page s \<in> region_live (mm_region boot_mm)"
    unfolding boot_region boot_page_def using lt by blast
  have b: "mm_blks boot_mm (boot_page s) = \<lparr>blk_magic = MAGIC, blk_map = 1, blk_slab = s,
      blk_prev = NULL, blk_next = NULL, blk_list = Some (s, free_list)\<rparr>"
    unfolding boot_mm_def by (simp add: Let_def idx del: idx_slab.simps)
  have sl: "sl_free (mm_slabs boot_mm s) = \<lparr>sll_first = boot_page s, sll_size = 1\<rparr>"
    "sl_partial (mm_slabs boot_mm s) = \<lparr>sll_first = NULL, sll_size = 0\<rparr>"
    "sl_full (mm_slabs boot_mm s) = \<lparr>sll_first = NULL, sll_size = 0\<rparr>"
    "sl_obj_size (mm_slabs boot_mm s) = 128" by (simp_all add: boot_mm_def)
  have "list_ok boot_mm (s, w) (if w = free_list then [boot_page s] else [])" for w
    by (cases w) (simp_all add: list_ok_def sl b nn)
  then show ?thesis by (auto simp: slab_core_def sl b live)
qed

lemma boot_slab: "slab_inv s boot_mm" "slab_live s boot_mm = {}"
proof -
  have "\<not> sl_lock (mm_slabs boot_mm s)" by (simp add: boot_mm_def)
  with boot_core [of s] boot_region(1) show "slab_inv s boot_mm" by (auto simp: slab_inv_def)
  have "blk_map (mm_blks boot_mm b) = 1" for b by (simp add: boot_mm_def Let_def)
  then show "slab_live s boot_mm = {}"
    by (simp add: slab_live_eq [OF boot_core] slab_objs_def bits_one)
qed

text \<open>C10 on that memory.\<close>

theorem slab_alloc_fresh_witness:
  "\<exists>p m'. slab_alloc thread_slab boot_mm = Some (p, m') \<and> p \<noteq> NULL \<and> slab_live thread_slab m' = {p} \<and>
    slab_live queue_slab m' = {}"
  using slab_alloc_fresh [OF boot_slab(1) boot_core, of thread_slab] boot_slab(1) [of queue_slab]
  by (force simp: boot_slab)

text \<open>C35 on that memory: two objects are allocated and the second is freed again, then the first.\<close>

theorem slab_free_releases_witness:
  "\<exists>m1 m2 m3 m4. slab_alloc queue_slab boot_mm = Some (0xd0000080, m1) \<and>
    slab_alloc queue_slab m1 = Some (0xd0000100, m2) \<and>
    slab_free queue_slab 0xd0000100 m2 = Some m3 \<and> slab_live queue_slab m3 = {0xd0000080} \<and>
    slab_free queue_slab 0xd0000080 m2 = Some m4 \<and> slab_live queue_slab m4 = {0xd0000100}"
proof -
  have "case slab_alloc queue_slab boot_mm of None \<Rightarrow> False
    | Some (p1, m1) \<Rightarrow> p1 = 0xd0000080 \<and>
      (case slab_alloc queue_slab m1 of None \<Rightarrow> False
       | Some (p2, m2) \<Rightarrow> p2 = 0xd0000100 \<and> sll_size (sl_free (mm_slabs m2 queue_slab)) < MAX_FREE_SLABS)"
    by code_simp
  then obtain m1 m2 where m1: "slab_alloc queue_slab boot_mm = Some (0xd0000080, m1)"
    and m2: "slab_alloc queue_slab m1 = Some (0xd0000100, m2)"
    and few: "sll_size (sl_free (mm_slabs m2 queue_slab)) < MAX_FREE_SLABS" by (auto split: option.splits)
  have 1: "slab_inv queue_slab m1" "slab_live queue_slab m1 = {0xd0000080}"
    using slab_alloc_ok [OF boot_slab(1) m1] boot_slab(2) by auto
  have 2: "slab_live queue_slab m2 = {0xd0000080, 0xd0000100}"
    using slab_alloc_ok [OF 1(1) m2] 1(2) by auto
  note rt = slab_free_releases [OF 1(1) m2]
  note ret = mp [OF conjunct1 [OF rt] few]
  from conjunct1 [OF ret] obtain m3 where m3: "slab_free queue_slab 0xd0000100 m2 = Some m3"
    "slab_live queue_slab m3 = {0xd0000080}" unfolding 1(2) by blast
  have l: "0xd0000080 \<in> slab_live queue_slab m2" using 2 by simp
  from bspec [OF conjunct2 [OF ret] l] obtain m4 where m4: "slab_free queue_slab 0xd0000080 m2 = Some m4"
    by blast
  from conjunct2 [OF rt, rule_format, OF conjI [OF l m4]] 1(2)
  have "slab_live queue_slab m4 = {0xd0000100}" by auto
  then show ?thesis using m1 m2 m3 m4 by blast
qed

end
