(* ===== verification/C4_Queue.thy ===== *)
theory C4_Queue
  imports C4_Slab
begin

text \<open>
  The generic queue of \<^verbatim>\<open>src/klib/queue.c\<close> and \<^verbatim>\<open>include/c4/klib/queue.h\<close>: a doubly linked
  list of nodes from the queue slab, pushed and popped at both ends.

  \<open>kq\<close> is the first layer of the kernel's state: memory management, the heap of queue nodes and
  the flag \<^verbatim>\<open>slab_initialized\<close> of \<^verbatim>\<open>queue.c\<close>. The later components extend this record with their
  own heaps and globals, and their operations are functions on the extended record. A
  \<^verbatim>\<open>queue_t\<close> is always part of another struct and is passed and returned by value.

  The locale \<open>deque\<close> is the contract the clients (endpoints, mutexes) use; it is interpreted on
  the linked lists.
\<close>

record queue_node_t =
  qn_data :: ptr
  qn_next :: ptr
  qn_prev :: ptr

record queue_t =
  q_front :: ptr
  q_back :: ptr
  q_items :: u32

record kq =
  k_mm :: mm
  k_nodes :: "queue_node_t heap"
  k_queue_init :: bool

subsection \<open>Memory management from the kernel's state\<close>

definition k_slab_alloc :: "slab_id \<Rightarrow> 'a kq_scheme \<Rightarrow> (ptr \<times> 'a kq_scheme) option" where
  "k_slab_alloc s k = do { (p, m) \<leftarrow> slab_alloc s (k_mm k); Some (p, k\<lparr>k_mm := m\<rparr>) }"

definition k_slab_free :: "slab_id \<Rightarrow> ptr \<Rightarrow> 'a kq_scheme \<Rightarrow> 'a kq_scheme option" where
  "k_slab_free s p k = do { m \<leftarrow> slab_free s p (k_mm k); Some (k\<lparr>k_mm := m\<rparr>) }"

definition k_slab_init :: "slab_id \<Rightarrow> u32 \<Rightarrow> 'a kq_scheme \<Rightarrow> 'a kq_scheme" where
  "k_slab_init s sz k = k\<lparr>k_mm := slab_init_at s sz NULL NULL (k_mm k)\<rparr>"

definition k_global_alloc :: "'a kq_scheme \<Rightarrow> (ptr \<times> 'a kq_scheme) option" where
  "k_global_alloc k = do { (p, m) \<leftarrow> global_alloc (k_mm k); Some (p, k\<lparr>k_mm := m\<rparr>) }"

definition k_global_free :: "ptr \<Rightarrow> 'a kq_scheme \<Rightarrow> 'a kq_scheme option" where
  "k_global_free p k = do { m \<leftarrow> global_free p (k_mm k); Some (k\<lparr>k_mm := m\<rparr>) }"

subsection \<open>The operations\<close>

definition sizeof_queue_node_t :: u32 where "sizeof_queue_node_t = 12"

definition queue_slab_init :: "'a kq_scheme \<Rightarrow> 'a kq_scheme" where
  "queue_slab_init k =
     (if \<not> k_queue_init k
      then k_slab_init queue_slab sizeof_queue_node_t (k\<lparr>k_queue_init := True\<rparr>)
      else k)"

definition queue_init :: queue_t where
  "queue_init = \<lparr>q_front = NULL, q_back = NULL, q_items = 0\<rparr>"

definition queue_create :: "'a kq_scheme \<Rightarrow> (ptr \<times> 'a kq_scheme) option" where
  "queue_create k = k_slab_alloc queue_slab (queue_slab_init k)"

definition upd_node :: "ptr \<Rightarrow> (queue_node_t \<Rightarrow> queue_node_t) \<Rightarrow> 'a kq_scheme \<Rightarrow> 'a kq_scheme option" where
  "upd_node p f k =
     (if p = NULL then None else Some (k\<lparr>k_nodes := (k_nodes k)(p := f (k_nodes k p))\<rparr>))"

definition queue_node_create :: "ptr \<Rightarrow> 'a kq_scheme \<Rightarrow> (ptr \<times> 'a kq_scheme) option" where
  "queue_node_create data k = do {
     (ret, k1) \<leftarrow> k_slab_alloc queue_slab (queue_slab_init k);
     k2 \<leftarrow> upd_node ret (\<lambda>n. n\<lparr>qn_data := data, qn_next := NULL, qn_prev := NULL\<rparr>) k1;
     Some (ret, k2)
   }"

definition queue_node_free :: "ptr \<Rightarrow> 'a kq_scheme \<Rightarrow> 'a kq_scheme option" where
  "queue_node_free node k = k_slab_free queue_slab node k"

definition queue_push_front :: "queue_t \<Rightarrow> ptr \<Rightarrow> 'a kq_scheme \<Rightarrow> (queue_t \<times> 'a kq_scheme) option" where
  "queue_push_front queue data k = do {
     (node, k1) \<leftarrow> queue_node_create data k;
     k2 \<leftarrow> upd_node node (qn_next_update (\<lambda>_. q_front queue)) k1;
     let queue1 = queue\<lparr>q_front := node, q_items := q_items queue + 1\<rparr>;
     if q_back queue1 = NULL then Some (queue1\<lparr>q_back := node\<rparr>, k2)
     else do {
       k3 \<leftarrow> upd_node (qn_next (k_nodes k2 node)) (qn_prev_update (\<lambda>_. node)) k2;
       Some (queue1, k3)
     }
   }"

definition queue_push_back :: "queue_t \<Rightarrow> ptr \<Rightarrow> 'a kq_scheme \<Rightarrow> (queue_t \<times> 'a kq_scheme) option" where
  "queue_push_back queue data k = do {
     (node, k1) \<leftarrow> queue_node_create data k;
     k2 \<leftarrow> upd_node node (qn_prev_update (\<lambda>_. q_back queue)) k1;
     let queue1 = queue\<lparr>q_back := node, q_items := q_items queue + 1\<rparr>;
     if q_front queue1 = NULL then Some (queue1\<lparr>q_front := node\<rparr>, k2)
     else do {
       k3 \<leftarrow> upd_node (qn_prev (k_nodes k2 node)) (qn_next_update (\<lambda>_. node)) k2;
       Some (queue1, k3)
     }
   }"

definition queue_pop_front :: "queue_t \<Rightarrow> 'a kq_scheme \<Rightarrow> (ptr \<times> queue_t \<times> 'a kq_scheme) option" where
  "queue_pop_front queue k =
     (let node = q_front queue
      in if node = NULL then Some (NULL, queue, k)
         else do {
           let queue1 = queue\<lparr>q_front := qn_next (k_nodes k node), q_items := q_items queue - 1\<rparr>;
           (queue2, k1) \<leftarrow> (if q_front queue1 = NULL then Some (queue1\<lparr>q_back := NULL\<rparr>, k)
                            else do {
                              k' \<leftarrow> upd_node (qn_next (k_nodes k node)) (qn_prev_update (\<lambda>_. NULL)) k;
                              Some (queue1, k')
                            });
           let ret = qn_data (k_nodes k1 node);
           k2 \<leftarrow> queue_node_free node k1;
           Some (ret, queue2, k2)
         })"

definition queue_pop_back :: "queue_t \<Rightarrow> 'a kq_scheme \<Rightarrow> (ptr \<times> queue_t \<times> 'a kq_scheme) option" where
  "queue_pop_back queue k =
     (let node = q_back queue
      in if node = NULL then Some (NULL, queue, k)
         else do {
           let queue1 = queue\<lparr>q_back := qn_prev (k_nodes k node), q_items := q_items queue - 1\<rparr>;
           (queue2, k1) \<leftarrow> (if q_back queue1 = NULL then Some (queue1\<lparr>q_front := NULL\<rparr>, k)
                            else do {
                              k' \<leftarrow> upd_node (qn_prev (k_nodes k node)) (qn_next_update (\<lambda>_. NULL)) k;
                              Some (queue1, k')
                            });
           let ret = qn_data (k_nodes k1 node);
           k2 \<leftarrow> queue_node_free node k1;
           Some (ret, queue2, k2)
         })"

text \<open>The peek functions return the node, not its data.\<close>

definition queue_peek_front :: "queue_t \<Rightarrow> ptr" where
  "queue_peek_front queue = q_front queue"

definition queue_peek_back :: "queue_t \<Rightarrow> ptr" where
  "queue_peek_back queue = q_back queue"

text \<open>
  \<^verbatim>\<open>queue_pop_min\<close> on two queues; \<open>cmp\<close> is the comparison the caller passes. The result is the
  popped value with both queues.
\<close>

definition queue_pop_min ::
  "queue_t \<Rightarrow> queue_t \<Rightarrow> (ptr \<Rightarrow> ptr \<Rightarrow> int) \<Rightarrow> 'a kq_scheme \<Rightarrow> (ptr \<times> queue_t \<times> queue_t \<times> 'a kq_scheme) option" where
  "queue_pop_min a b cmp k =
     (if q_items a = 0 \<and> q_items b = 0 then Some (NULL, a, b, k)
      else if q_items a = 0 then do { (r, b', k') \<leftarrow> queue_pop_front b k; Some (r, a, b', k') }
      else if q_items b = 0 then do { (r, a', k') \<leftarrow> queue_pop_front a k; Some (r, a', b, k') }
      else let diff = cmp (queue_peek_front a) (queue_peek_front b)
           in if diff \<le> 0 then do { (r, a', k') \<leftarrow> queue_pop_front a k; Some (r, a', b, k') }
              else do { (r, b', k') \<leftarrow> queue_pop_front b k; Some (r, a, b', k') })"

text \<open>\<^verbatim>\<open>TYPESAFE_QUEUE(thread_t, thread_queue)\<close>: wrappers of the functions above.\<close>

type_synonym thread_queue = queue_t

definition thread_queue_init :: thread_queue where "thread_queue_init = queue_init"

definition thread_queue_push_front :: "thread_queue \<Rightarrow> ptr \<Rightarrow> 'a kq_scheme \<Rightarrow> (thread_queue \<times> 'a kq_scheme) option" where
  "thread_queue_push_front queue data = queue_push_front queue data"

definition thread_queue_push_back :: "thread_queue \<Rightarrow> ptr \<Rightarrow> 'a kq_scheme \<Rightarrow> (thread_queue \<times> 'a kq_scheme) option" where
  "thread_queue_push_back queue data = queue_push_back queue data"

definition thread_queue_pop_front :: "thread_queue \<Rightarrow> 'a kq_scheme \<Rightarrow> (ptr \<times> thread_queue \<times> 'a kq_scheme) option" where
  "thread_queue_pop_front queue = queue_pop_front queue"

definition thread_queue_pop_back :: "thread_queue \<Rightarrow> 'a kq_scheme \<Rightarrow> (ptr \<times> thread_queue \<times> 'a kq_scheme) option" where
  "thread_queue_pop_back queue = queue_pop_back queue"

subsection \<open>The contract\<close>

text \<open>
  A line: \<open>rep s xs\<close> says that in state \<open>s\<close> the values \<open>xs\<close> are waiting. \<open>put\<close> adds a value at the
  end and \<open>get\<close> takes the first, when they return.
\<close>

locale fifo =
  fixes rep :: "'s \<Rightarrow> 'a list \<Rightarrow> bool"
    and put :: "'a \<Rightarrow> 's \<Rightarrow> 's option"
    and get :: "'s \<Rightarrow> ('a \<times> 's) option"
  assumes put_rep: "rep s xs \<Longrightarrow> put x s = Some s' \<Longrightarrow> rep s' (xs @ [x])"
    and get_rep: "rep s (x # xs) \<Longrightarrow> get s = Some (y, s') \<Longrightarrow> y = x \<and> rep s' xs"
begin

fun put_all :: "'a list \<Rightarrow> 's \<Rightarrow> 's option" where
  "put_all [] s = Some s"
| "put_all (x # xs) s = do { s' \<leftarrow> put x s; put_all xs s' }"

fun get_many :: "nat \<Rightarrow> 's \<Rightarrow> ('a list \<times> 's) option" where
  "get_many 0 s = Some ([], s)"
| "get_many (Suc n) s = do {
     (x, s1) \<leftarrow> get s;
     (xs, s2) \<leftarrow> get_many n s1;
     Some (x # xs, s2)
   }"

lemma put_all_rep: "rep s xs \<Longrightarrow> put_all ys s = Some s' \<Longrightarrow> rep s' (xs @ ys)"
proof (induction ys arbitrary: s xs)
  case (Cons y ys)
  then obtain s1 where "put y s = Some s1" "put_all ys s1 = Some s'" by (auto elim!: bind_eq_SomeE)
  with Cons.IH [OF put_rep] Cons.prems(1) show ?case by fastforce
qed simp

lemma get_many_rep:
  "rep s xs \<Longrightarrow> n \<le> length xs \<Longrightarrow> get_many n s = Some (ys, s') \<Longrightarrow> ys = take n xs \<and> rep s' (drop n xs)"
proof (induction n arbitrary: s xs ys)
  case (Suc n)
  then obtain x xs' where xs: "xs = x # xs'" by (cases xs) auto
  from Suc.prems(3) obtain y s1 zs where 1: "get s = Some (y, s1)"
    and 2: "get_many n s1 = Some (zs, s')" and ys: "ys = y # zs"
    by (auto elim!: bind_eq_SomeE)
  from get_rep [OF Suc.prems(1) [unfolded xs] 1] have "y = x" "rep s1 xs'" by blast+
  with Suc.IH [OF _ _ 2, of xs'] Suc.prems(2) xs ys show ?case by simp
qed simp

lemma first_in_first_out:
  assumes "rep s []" and "put_all xs s = Some s1" and "get_many (length xs) s1 = Some (ys, s2)"
  shows "ys = xs \<and> rep s2 []"
  using get_many_rep [OF put_all_rep [OF assms(1,2)] _ assms(3)] by simp

end

text \<open>
  \<open>rep s q ns xs\<close>: in state \<open>s\<close> the queue \<open>q\<close> has the nodes \<open>ns\<close> and holds \<open>xs\<close>. An operation on one
  queue keeps every queue it shares no node with.
\<close>

locale deque =
  fixes rep :: "'s \<Rightarrow> 'q \<Rightarrow> ptr list \<Rightarrow> ptr list \<Rightarrow> bool"
    and push_front push_back :: "'q \<Rightarrow> ptr \<Rightarrow> 's \<Rightarrow> ('q \<times> 's) option"
    and pop_front pop_back :: "'q \<Rightarrow> 's \<Rightarrow> (ptr \<times> 'q \<times> 's) option"
  assumes rep_length: "rep s q ns xs \<Longrightarrow> length ns = length xs"
    and push_front_rep: "rep s q ns xs \<Longrightarrow> push_front q x s = Some (q', s') \<Longrightarrow>
      \<exists>n. rep s' q' (n # ns) (x # xs) \<and>
        (\<forall>r ms ys. rep s r ms ys \<and> set ms \<inter> set ns = {} \<longrightarrow> rep s' r ms ys \<and> n \<notin> set ms)"
    and push_back_rep: "rep s q ns xs \<Longrightarrow> push_back q x s = Some (q', s') \<Longrightarrow>
      \<exists>n. rep s' q' (ns @ [n]) (xs @ [x]) \<and>
        (\<forall>r ms ys. rep s r ms ys \<and> set ms \<inter> set ns = {} \<longrightarrow> rep s' r ms ys \<and> n \<notin> set ms)"
    and pop_front_empty: "rep s q [] [] \<Longrightarrow> pop_front q s = Some (NULL, q, s)"
    and pop_back_empty: "rep s q [] [] \<Longrightarrow> pop_back q s = Some (NULL, q, s)"
    and pop_front_rep: "rep s q (n # ns) (x # xs) \<Longrightarrow> pop_front q s = Some (y, q', s') \<Longrightarrow>
      y = x \<and> rep s' q' ns xs \<and>
        (\<forall>r ms ys. rep s r ms ys \<and> set ms \<inter> set (n # ns) = {} \<longrightarrow> rep s' r ms ys)"
    and pop_back_rep: "rep s q (ns @ [n]) (xs @ [x]) \<Longrightarrow> pop_back q s = Some (y, q', s') \<Longrightarrow>
      y = x \<and> rep s' q' ns xs \<and>
        (\<forall>r ms ys. rep s r ms ys \<and> set ms \<inter> set (ns @ [n]) = {} \<longrightarrow> rep s' r ms ys)"

text \<open>Pushed at the back and popped at the front, a queue is a line.\<close>

sublocale deque \<subseteq> line: fifo "\<lambda>(q, s) xs. \<exists>ns. rep s q ns xs" "\<lambda>x (q, s). push_back q x s"
  "\<lambda>(q, s). pop_front q s"
proof (unfold_locales, goal_cases)
  case (1 s xs x s')
  then show ?case using push_back_rep by (cases s; cases s') (auto, blast)
next
  case (2 s x xs y s')
  then obtain q t q' t' ns where e: "s = (q, t)" "s' = (q', t')" "pop_front q t = Some (y, q', t')"
    and r: "rep t q ns (x # xs)" by (cases s; cases s') auto
  from rep_length [OF r] obtain n ms where "ns = n # ms" by (cases ns) auto
  with pop_front_rep [of t q n ms x xs y q' t'] e r show ?case by auto
qed

subsection \<open>The linked list implements it\<close>

definition nls :: "queue_node_t heap \<Rightarrow> ptr \<Rightarrow> ptr \<Rightarrow> ptr list \<Rightarrow> ptr \<Rightarrow> ptr \<Rightarrow> bool" where
  "nls h = dlseg (\<lambda>b. qn_prev (h b)) (\<lambda>b. qn_next (h b))"

lemma nls_simps [simp]:
  "nls h q p [] q' p' \<longleftrightarrow> q' = q \<and> p' = p"
  "nls h q p (b # bs) q' p' \<longleftrightarrow>
     p = b \<and> b \<noteq> NULL \<and> qn_prev (h b) = q \<and> nls h b (qn_next (h b)) bs q' p'"
  by (simp_all add: nls_def)

lemma nls_append:
  "nls h q p (xs @ ys) q' p' \<longleftrightarrow> (\<exists>q1 p1. nls h q p xs q1 p1 \<and> nls h q1 p1 ys q' p')"
  unfolding nls_def by (rule dlseg_append)

lemma nls_cong:
  "(\<And>b. b \<in> set bs \<Longrightarrow> h b = h' b) \<Longrightarrow> nls h q p bs q' p' = nls h' q p bs q' p'"
  unfolding nls_def by (rule dlseg_cong) simp

lemma nls_fun_upd: "b \<notin> set bs \<Longrightarrow> nls (h(b := x)) q p bs q' p' = nls h q p bs q' p'"
  by (rule nls_cong) auto

lemma nls_set_next:
  "nls h q p (bs @ [b]) q' p' \<Longrightarrow> distinct (bs @ [b]) \<Longrightarrow>
    nls (h(b := (h b)\<lparr>qn_next := n\<rparr>)) q p (bs @ [b]) b n"
  unfolding nls_def by (erule (1) dlseg_set_next) simp_all

lemma nls_set_prev:
  "nls h q p (b # bs) q' p' \<Longrightarrow> distinct (b # bs) \<Longrightarrow>
    nls (h(b := (h b)\<lparr>qn_prev := n\<rparr>)) n p (b # bs) q' p'"
  unfolding nls_def by (erule (1) dlseg_set_prev) simp_all

lemma nls_last: "nls h q p bs q' p' \<Longrightarrow> q' = (if bs = [] then q else last bs)"
  unfolding nls_def by (rule dlseg_last)

lemma nls_first: "nls h q p bs q' p' \<Longrightarrow> p = (if bs = [] then p' else hd bs)"
  unfolding nls_def by (rule dlseg_first)

lemma nls_NULL: "nls h q p bs q' p' \<Longrightarrow> NULL \<notin> set bs"
  unfolding nls_def by (rule dlseg_NULL)

text \<open>
  The nodes in use: before the first \<^verbatim>\<open>queue_node_create\<close> the slab is not set up and there are
  none.
\<close>

definition qslab_inv :: "'a kq_scheme \<Rightarrow> bool" where
  "qslab_inv k \<longleftrightarrow> (if k_queue_init k then slab_inv queue_slab (k_mm k) else region_inv (mm_region (k_mm k)))"

definition qslab_live :: "'a kq_scheme \<Rightarrow> ptr set" where
  "qslab_live k = (if k_queue_init k then slab_live queue_slab (k_mm k) else {})"

lemma qslab_nodes [simp]:
  "qslab_inv (k\<lparr>k_nodes := h\<rparr>) = qslab_inv k" "qslab_live (k\<lparr>k_nodes := h\<rparr>) = qslab_live k"
  by (simp_all add: qslab_inv_def qslab_live_def)

definition queue_rep :: "'a kq_scheme \<Rightarrow> queue_t \<Rightarrow> ptr list \<Rightarrow> ptr list \<Rightarrow> bool" where
  "queue_rep k q ns xs \<longleftrightarrow> qslab_inv k \<and> nls (k_nodes k) NULL (q_front q) ns (q_back q) NULL \<and>
     distinct ns \<and> set ns \<subseteq> qslab_live k \<and> q_items q = of_nat (length ns) \<and>
     xs = map (\<lambda>n. qn_data (k_nodes k n)) ns"

lemma queue_init_rep: "qslab_inv k \<Longrightarrow> queue_rep k queue_init [] []"
  by (simp add: queue_rep_def queue_init_def)

lemma queue_slab_init_ok:
  assumes "qslab_inv k"
  shows "slab_inv queue_slab (k_mm (queue_slab_init k))"
    and "slab_live queue_slab (k_mm (queue_slab_init k)) = qslab_live k"
    and "k_queue_init (queue_slab_init k)" and "k_nodes (queue_slab_init k) = k_nodes k"
proof -
  have sz: "slab_adjust_size sizeof_queue_node_t = 128"
    by (simp add: slab_adjust_size_def sizeof_queue_node_t_def PAGE_SIZE_def BITMAP_BPS_def)
  have i: "region_inv (mm_region m) \<Longrightarrow> slab_inv queue_slab (slab_init_at queue_slab sizeof_queue_node_t NULL NULL m) \<and>
      slab_live queue_slab (slab_init_at queue_slab sizeof_queue_node_t NULL NULL m) = {}" for m
    using slab_init_ok(1,2) [of m sizeof_queue_node_t] sz by simp
  from assms i [of "k_mm k"] show "slab_inv queue_slab (k_mm (queue_slab_init k))"
    "slab_live queue_slab (k_mm (queue_slab_init k)) = qslab_live k"
    by (auto simp: qslab_inv_def qslab_live_def queue_slab_init_def k_slab_init_def)
qed (simp_all add: queue_slab_init_def k_slab_init_def)

text \<open>A new node is not one of those in use; the rest of the heap stays.\<close>

lemma queue_node_create_ok:
  assumes inv: "qslab_inv k" and c: "queue_node_create x k = Some (n, k')"
  shows "n \<noteq> NULL" and "n \<notin> qslab_live k" and "qslab_inv k'"
    and "qslab_live k' = insert n (qslab_live k)"
    and "k_nodes k' = (k_nodes k)(n := \<lparr>qn_data = x, qn_next = NULL, qn_prev = NULL\<rparr>)"
proof -
  let ?k = "queue_slab_init k"
  note s = queue_slab_init_ok [OF inv]
  from c obtain m where a: "slab_alloc queue_slab (k_mm ?k) = Some (n, m)" and nn: "n \<noteq> NULL"
    and k': "k' = ?k\<lparr>k_mm := m, k_nodes := (k_nodes k)(n := (k_nodes k n)\<lparr>qn_data := x, qn_next := NULL, qn_prev := NULL\<rparr>)\<rparr>"
    by (auto simp: queue_node_create_def k_slab_alloc_def upd_node_def s(4) split: if_splits
        elim!: bind_eq_SomeE)
  from slab_alloc_ok [OF s(1) a] s(2,3) show "n \<notin> qslab_live k" "qslab_inv k'"
    "qslab_live k' = insert n (qslab_live k)"
    by (auto simp: k' qslab_inv_def qslab_live_def)
  show "n \<noteq> NULL" by (rule nn)
  show "k_nodes k' = (k_nodes k)(n := \<lparr>qn_data = x, qn_next = NULL, qn_prev = NULL\<rparr>)"
    by (cases "k_nodes k n") (simp add: k')
qed

text \<open>A queue whose nodes an operation does not touch.\<close>

lemma queue_rep_frame:
  assumes "queue_rep k r ms ys" and "qslab_inv k'" and "set ms \<subseteq> qslab_live k'"
    and "\<And>b. b \<in> set ms \<Longrightarrow> k_nodes k' b = k_nodes k b"
  shows "queue_rep k' r ms ys"
  using assms nls_cong [of ms "k_nodes k'" "k_nodes k"] by (auto simp: queue_rep_def)

text \<open>A queue that has grown by a node at one of its ends, and the queues that do not share its nodes.\<close>

lemma queue_grow:
  assumes rep: "queue_rep k q ns xs" and n: "n \<notin> qslab_live k" "qslab_inv k'" "qslab_live k' = insert n (qslab_live k)"
    and seg: "nls (k_nodes k') NULL (q_front q') ns' (q_back q') NULL" and ns': "ns' = n # ns \<or> ns' = ns @ [n]"
    and it: "q_items q' = q_items q + 1" and x: "qn_data (k_nodes k' n) = x"
    and data: "\<And>c. c \<in> set ns \<Longrightarrow> qn_data (k_nodes k' c) = qn_data (k_nodes k c)"
    and rest: "\<And>c. c \<notin> insert n (set ns) \<Longrightarrow> k_nodes k' c = k_nodes k c"
  shows "queue_rep k' q' ns' (if ns' = n # ns then x # xs else xs @ [x]) \<and>
    (\<forall>r ms ys. queue_rep k r ms ys \<and> set ms \<inter> set ns = {} \<longrightarrow> queue_rep k' r ms ys \<and> n \<notin> set ms)"
proof -
  have d: "distinct ns" "set ns \<subseteq> qslab_live k" "q_items q = of_nat (length ns)" "xs = map (\<lambda>n. qn_data (k_nodes k n)) ns"
    using rep by (auto simp: queue_rep_def)
  have nns: "n \<notin> set ns" using n(1) d(2) by auto
  have "map (\<lambda>n. qn_data (k_nodes k' n)) ns' = (if ns' = n # ns then x # xs else xs @ [x])"
    using ns' data x d(4) nns by auto
  then have "queue_rep k' q' ns' (if ns' = n # ns then x # xs else xs @ [x])"
    using n seg d nns it ns' by (auto simp: queue_rep_def add.commute)
  moreover have "queue_rep k' r ms ys \<and> n \<notin> set ms" if ms: "queue_rep k r ms ys" "set ms \<inter> set ns = {}" for r ms ys
  proof -
    have "set ms \<subseteq> qslab_live k" using ms(1) by (simp add: queue_rep_def)
    then show ?thesis
      using queue_rep_frame [OF ms(1), of k'] n rest ms(2) by fastforce
  qed
  ultimately show ?thesis by blast
qed

lemma queue_push_back_ok:
  assumes rep: "queue_rep k q ns xs" and p: "queue_push_back q x k = Some (q', k')"
  shows "\<exists>n. queue_rep k' q' (ns @ [n]) (xs @ [x]) \<and>
    (\<forall>r ms ys. queue_rep k r ms ys \<and> set ms \<inter> set ns = {} \<longrightarrow> queue_rep k' r ms ys \<and> n \<notin> set ms)"
proof -
  have inv: "qslab_inv k" and ls: "nls (k_nodes k) NULL (q_front q) ns (q_back q) NULL"
    and d: "distinct ns" "set ns \<subseteq> qslab_live k" using rep by (auto simp: queue_rep_def)
  from p obtain n k1 where c: "queue_node_create x k = Some (n, k1)"
    by (auto simp: queue_push_back_def elim!: bind_eq_SomeE)
  note n = queue_node_create_ok [OF inv c]
  let ?b = "q_back q"
  have b: "?b = (if ns = [] then NULL else last ns)" using nls_last [OF ls] .
  have fn: "q_front q = NULL \<longleftrightarrow> ns = []" using nls_first [OF ls] nls_NULL [OF ls] by (cases ns) auto
  have nns: "n \<notin> set ns" using n(2) d(2) by auto
  have bn: "?b \<noteq> n" using b n(1) nns by (cases ns rule: rev_cases) auto
  define h1 where "h1 = (k_nodes k)(n := \<lparr>qn_data = x, qn_next = NULL, qn_prev = ?b\<rparr>)"
  define h2 where "h2 = (if ns = [] then h1 else h1(?b := (h1 ?b)\<lparr>qn_next := n\<rparr>))"
  have q': "q' = \<lparr>q_front = (if ns = [] then n else q_front q), q_back = n, q_items = q_items q + 1\<rparr>"
    and k': "k' = k1\<lparr>k_nodes := h2\<rparr>"
    using p c n(1,5) fn bn
    by (auto simp: queue_push_back_def upd_node_def h1_def h2_def fun_upd_twist split: if_splits)
  have hn: "h2 n = \<lparr>qn_data = x, qn_next = NULL, qn_prev = ?b\<rparr>" using bn by (simp add: h2_def h1_def)
  have h1: "nls h1 NULL (q_front q) ns ?b NULL" using ls nns by (simp add: h1_def nls_fun_upd)
  have seg: "nls h2 NULL (if ns = [] then n else q_front q) (ns @ [n]) n NULL"
  proof (cases ns rule: rev_cases)
    case Nil
    then show ?thesis using hn n(1) b by simp
  next
    case (snoc zs z)
    then have "?b = z" using b by simp
    then have "nls h2 NULL (q_front q) ns z n"
      using nls_set_next [of h1 NULL "q_front q" zs z ?b NULL n] h1 d(1) snoc by (simp add: h2_def)
    then show ?thesis using snoc hn n(1) \<open>?b = z\<close> by (auto simp: nls_append)
  qed
  have "queue_rep k' q' (ns @ [n]) (if ns @ [n] = n # ns then x # xs else xs @ [x]) \<and>
    (\<forall>r ms ys. queue_rep k r ms ys \<and> set ms \<inter> set ns = {} \<longrightarrow> queue_rep k' r ms ys \<and> n \<notin> set ms)"
    by (rule queue_grow [OF rep n(2)]) (use n(3,4) seg nns b hn in \<open>auto simp: k' q' h2_def h1_def\<close>)
  moreover have "ns @ [n] = n # ns \<Longrightarrow> ns = []" using nns by (cases ns) auto
  moreover have "ns = [] \<Longrightarrow> xs = []" using rep by (simp add: queue_rep_def)
  ultimately show ?thesis by (auto split: if_splits)
qed

lemma queue_push_front_ok:
  assumes rep: "queue_rep k q ns xs" and p: "queue_push_front q x k = Some (q', k')"
  shows "\<exists>n. queue_rep k' q' (n # ns) (x # xs) \<and>
    (\<forall>r ms ys. queue_rep k r ms ys \<and> set ms \<inter> set ns = {} \<longrightarrow> queue_rep k' r ms ys \<and> n \<notin> set ms)"
proof -
  have inv: "qslab_inv k" and ls: "nls (k_nodes k) NULL (q_front q) ns (q_back q) NULL"
    and d: "distinct ns" "set ns \<subseteq> qslab_live k" using rep by (auto simp: queue_rep_def)
  from p obtain n k1 where c: "queue_node_create x k = Some (n, k1)"
    by (auto simp: queue_push_front_def elim!: bind_eq_SomeE)
  note n = queue_node_create_ok [OF inv c]
  let ?f = "q_front q"
  have f: "?f = (if ns = [] then NULL else hd ns)" using nls_first [OF ls] .
  have bn: "q_back q = NULL \<longleftrightarrow> ns = []" using nls_last [OF ls] nls_NULL [OF ls] by (cases ns rule: rev_cases) auto
  have nns: "n \<notin> set ns" using n(2) d(2) by auto
  have fn: "?f \<noteq> n" using f n(1) nns by (cases ns) auto
  define h1 where "h1 = (k_nodes k)(n := \<lparr>qn_data = x, qn_next = ?f, qn_prev = NULL\<rparr>)"
  define h2 where "h2 = (if ns = [] then h1 else h1(?f := (h1 ?f)\<lparr>qn_prev := n\<rparr>))"
  have q': "q' = \<lparr>q_front = n, q_back = (if ns = [] then n else q_back q), q_items = q_items q + 1\<rparr>"
    and k': "k' = k1\<lparr>k_nodes := h2\<rparr>"
    using p c n(1,5) bn fn
    by (auto simp: queue_push_front_def upd_node_def h1_def h2_def fun_upd_twist split: if_splits)
  have hn: "h2 n = \<lparr>qn_data = x, qn_next = ?f, qn_prev = NULL\<rparr>" using fn by (simp add: h2_def h1_def)
  have h1: "nls h1 NULL ?f ns (q_back q) NULL" using ls nns by (simp add: h1_def nls_fun_upd)
  have seg: "nls h2 NULL n (n # ns) (if ns = [] then n else q_back q) NULL"
  proof (cases ns)
    case Nil
    then show ?thesis using hn n(1) f by simp
  next
    case (Cons z zs)
    then have "?f = z" using f by simp
    then show ?thesis
      using nls_set_prev [of h1 NULL ?f z zs "q_back q" NULL n] h1 d(1) Cons hn n(1)
      by (simp add: h2_def)
  qed
  have "queue_rep k' q' (n # ns) (if n # ns = n # ns then x # xs else xs @ [x]) \<and>
    (\<forall>r ms ys. queue_rep k r ms ys \<and> set ms \<inter> set ns = {} \<longrightarrow> queue_rep k' r ms ys \<and> n \<notin> set ms)"
    by (rule queue_grow [OF rep n(2)]) (use n(3,4) seg nns f hn in \<open>auto simp: k' q' h2_def h1_def hd_in_set\<close>)
  then show ?thesis by auto
qed

lemma queue_node_free_ok:
  assumes inv: "qslab_inv k" and n: "n \<in> qslab_live k" and f: "queue_node_free n k = Some k'"
  shows "qslab_inv k'" and "qslab_live k' = qslab_live k - {n}" and "k_nodes k' = k_nodes k"
    and "k_queue_init k' = k_queue_init k"
proof -
  from n have i: "k_queue_init k" by (auto simp: qslab_live_def split: if_splits)
  with inv n have s: "slab_inv queue_slab (k_mm k)" "n \<in> slab_live queue_slab (k_mm k)"
    by (auto simp: qslab_inv_def qslab_live_def)
  from f obtain m where m: "slab_free queue_slab n (k_mm k) = Some m" and k': "k' = k\<lparr>k_mm := m\<rparr>"
    by (auto simp: queue_node_free_def k_slab_free_def elim!: bind_eq_SomeE)
  from slab_free_ok [OF s m] i show "qslab_inv k'" "qslab_live k' = qslab_live k - {n}"
    "k_nodes k' = k_nodes k" "k_queue_init k' = k_queue_init k"
    by (auto simp: k' qslab_inv_def qslab_live_def)
qed

text \<open>Popping: the shape of the result, for either end.\<close>

lemma queue_rep_drop:
  assumes "qslab_inv k" and "queue_node_free n (k\<lparr>k_nodes := h\<rparr>) = Some k'" and "n \<in> qslab_live k"
    and "nls h NULL f ns b NULL" and "distinct ns" and "set ns \<subseteq> qslab_live k - {n}"
    and "\<And>c. c \<in> set ns \<Longrightarrow> qn_data (h c) = qn_data (k_nodes k c)"
  shows "queue_rep k' \<lparr>q_front = f, q_back = b, q_items = of_nat (length ns)\<rparr> ns
      (map (\<lambda>n. qn_data (k_nodes k n)) ns)"
    and "queue_rep k r ms ys \<Longrightarrow> n \<notin> set ms \<Longrightarrow> (\<And>c. c \<in> set ms \<Longrightarrow> h c = k_nodes k c) \<Longrightarrow>
      queue_rep k' r ms ys"
proof -
  have "qslab_inv (k\<lparr>k_nodes := h\<rparr>)" "n \<in> qslab_live (k\<lparr>k_nodes := h\<rparr>)"
    using assms(1,3) by simp_all
  note fr = queue_node_free_ok [OF this assms(2)]
  have live: "qslab_live k' = qslab_live k - {n}" using fr(2) by simp
  then show "queue_rep k' \<lparr>q_front = f, q_back = b, q_items = of_nat (length ns)\<rparr> ns
      (map (\<lambda>n. qn_data (k_nodes k n)) ns)"
    using assms fr(1,3) by (simp add: queue_rep_def)
  show "queue_rep k' r ms ys"
    if "queue_rep k r ms ys" "n \<notin> set ms" "\<And>c. c \<in> set ms \<Longrightarrow> h c = k_nodes k c"
  proof (rule queue_rep_frame [OF that(1) fr(1)])
    show "set ms \<subseteq> qslab_live k'" using that(1,2) live by (auto simp: queue_rep_def)
  qed (use that(3) fr(3) in simp)
qed

lemma queue_pop_front_ok:
  assumes rep: "queue_rep k q (n # ns) (x # xs)" and p: "queue_pop_front q k = Some (y, q', k')"
  shows "y = x \<and> queue_rep k' q' ns xs \<and>
    (\<forall>r ms ys. queue_rep k r ms ys \<and> set ms \<inter> set (n # ns) = {} \<longrightarrow> queue_rep k' r ms ys)"
proof -
  let ?h = "k_nodes k" and ?n = "qn_next (k_nodes k n)"
  have inv: "qslab_inv k" and ls: "nls ?h NULL (q_front q) (n # ns) (q_back q) NULL"
    and d: "distinct (n # ns)" "set (n # ns) \<subseteq> qslab_live k" and it: "q_items q = of_nat (length (n # ns))"
    and xs: "x = qn_data (?h n)" "xs = map (\<lambda>n. qn_data (?h n)) ns" using rep by (auto simp: queue_rep_def)
  have n: "q_front q = n" "n \<noteq> NULL" and seg: "nls ?h n ?n ns (q_back q) NULL" using ls by auto
  have nx: "?n = (if ns = [] then NULL else hd ns)" using nls_first [OF seg] .
  have nn: "NULL \<notin> set ns" using nls_NULL [OF seg] .
  define h where "h = (if ns = [] then ?h else ?h(?n := (?h ?n)\<lparr>qn_prev := NULL\<rparr>))"
  have hn: "h n = ?h n" using nx d(1) n(2) by (cases ns) (auto simp: h_def)
  have nz: "?n = NULL \<longleftrightarrow> ns = []" using nx nn by (cases ns) auto
  obtain k2 where f: "queue_node_free n (k\<lparr>k_nodes := h\<rparr>) = Some k2" and y: "y = x" "k' = k2"
    and q': "q' = \<lparr>q_front = ?n, q_back = (if ns = [] then NULL else q_back q), q_items = of_nat (length ns)\<rparr>"
    using p n nz it hn xs(1)
    by (auto simp: queue_pop_front_def upd_node_def Let_def h_def elim!: bind_eq_SomeE split: if_splits)
  have seg': "nls h NULL ?n ns (if ns = [] then NULL else q_back q) NULL"
  proof (cases ns)
    case Nil
    then show ?thesis using nx by simp
  next
    case (Cons z zs)
    then show ?thesis
      using nls_set_prev [of ?h n ?n z zs "q_back q" NULL NULL] seg d(1) nx by (simp add: h_def)
  qed
  have dat: "qn_data (h c) = qn_data (?h c)" for c by (simp add: h_def)
  have live: "n \<in> qslab_live k" "set ns \<subseteq> qslab_live k - {n}" using d by auto
  note dr = queue_rep_drop [OF inv f live(1) seg' _ live(2)]
  have "queue_rep k' q' ns xs" using dr(1) d(1) dat by (simp add: q' y xs)
  moreover have "queue_rep k' r ms ys" if "queue_rep k r ms ys" "set ms \<inter> set (n # ns) = {}" for r ms ys
  proof -
    have "ns \<noteq> [] \<Longrightarrow> ?n \<notin> set ms" using nx that(2) by (cases ns) auto
    then have "h c = ?h c" if "c \<in> set ms" for c using that by (auto simp: h_def)
    then show ?thesis using dr(2) [OF _ _ that(1)] d(1) dat that(2) by (simp add: y)
  qed
  ultimately show ?thesis using y by blast
qed

lemma queue_pop_back_ok:
  assumes rep: "queue_rep k q (ns @ [n]) (xs @ [x])" and p: "queue_pop_back q k = Some (y, q', k')"
  shows "y = x \<and> queue_rep k' q' ns xs \<and>
    (\<forall>r ms ys. queue_rep k r ms ys \<and> set ms \<inter> set (ns @ [n]) = {} \<longrightarrow> queue_rep k' r ms ys)"
proof -
  let ?h = "k_nodes k" and ?p = "qn_prev (k_nodes k n)"
  have inv: "qslab_inv k" and ls: "nls ?h NULL (q_front q) (ns @ [n]) (q_back q) NULL"
    and d: "distinct (ns @ [n])" "set (ns @ [n]) \<subseteq> qslab_live k" and it: "q_items q = of_nat (length (ns @ [n]))"
    and xs: "x = qn_data (?h n)" "xs = map (\<lambda>n. qn_data (?h n)) ns" using rep by (auto simp: queue_rep_def)
  have n: "q_back q = n" "n \<noteq> NULL" and seg: "nls ?h NULL (q_front q) ns ?p n"
    using ls by (auto simp: nls_append)
  have px: "?p = (if ns = [] then NULL else last ns)" using nls_last [OF seg] .
  have fx: "q_front q = (if ns = [] then n else hd ns)" using nls_first [OF seg] .
  have nn: "NULL \<notin> set ns" using nls_NULL [OF seg] .
  define h where "h = (if ns = [] then ?h else ?h(?p := (?h ?p)\<lparr>qn_next := NULL\<rparr>))"
  have pn: "?p \<noteq> n" using px d(1) n(2) by (cases ns rule: rev_cases) auto
  then have hn: "h n = ?h n" by (simp add: h_def)
  have pz: "?p = NULL \<longleftrightarrow> ns = []" using px nn by (cases ns rule: rev_cases) auto
  obtain k2 where f: "queue_node_free n (k\<lparr>k_nodes := h\<rparr>) = Some k2" and y: "y = x" "k' = k2"
    and q': "q' = \<lparr>q_front = (if ns = [] then NULL else q_front q), q_back = ?p, q_items = of_nat (length ns)\<rparr>"
    using p n pz it hn xs(1)
    by (auto simp: queue_pop_back_def upd_node_def Let_def h_def elim!: bind_eq_SomeE split: if_splits)
  have seg': "nls h NULL (if ns = [] then NULL else q_front q) ns ?p NULL"
  proof (cases ns rule: rev_cases)
    case Nil
    then show ?thesis using px by simp
  next
    case (snoc zs z)
    then have "?p = z" using px by simp
    then show ?thesis
      using nls_set_next [of ?h NULL "q_front q" zs z ?p n NULL] seg d(1) snoc by (simp add: h_def)
  qed
  have dat: "qn_data (h c) = qn_data (?h c)" for c by (simp add: h_def)
  have live: "n \<in> qslab_live k" "set ns \<subseteq> qslab_live k - {n}" using d by auto
  note dr = queue_rep_drop [OF inv f live(1) seg' _ live(2)]
  have "queue_rep k' q' ns xs" using dr(1) d(1) dat by (simp add: q' y xs)
  moreover have "queue_rep k' r ms ys" if "queue_rep k r ms ys" "set ms \<inter> set (ns @ [n]) = {}" for r ms ys
  proof -
    have "ns \<noteq> [] \<Longrightarrow> ?p \<notin> set ms" using px that(2) by auto
    then have "h c = ?h c" if "c \<in> set ms" for c using that by (auto simp: h_def)
    then show ?thesis using dr(2) [OF _ _ that(1)] d(1) dat that(2) by (simp add: y)
  qed
  ultimately show ?thesis using y by blast
qed

lemma queue_rep_empty: "queue_rep k q [] [] \<Longrightarrow> q = queue_init"
  by (cases q) (simp add: queue_rep_def queue_init_def)

interpretation queue: deque queue_rep queue_push_front queue_push_back queue_pop_front queue_pop_back
proof (unfold_locales, goal_cases)
  case (1 k q ns xs)
  then show ?case by (simp add: queue_rep_def)
next
  case (2 k q ns xs x q' k')
  then show ?case by (rule queue_push_front_ok)
next
  case (3 k q ns xs x q' k')
  then show ?case by (rule queue_push_back_ok)
next
  case (4 k q)
  then show ?case using queue_rep_empty by (fastforce simp: queue_pop_front_def queue_init_def)
next
  case (5 k q)
  then show ?case using queue_rep_empty by (fastforce simp: queue_pop_back_def queue_init_def)
next
  case (6 k q n ns x xs y q' k')
  then show ?case by (rule queue_pop_front_ok)
next
  case (7 k q ns n xs x y q' k')
  then show ?case by (rule queue_pop_back_ok)
qed

subsection \<open>Properties\<close>

text \<open>
  the queue is first in, first out: values pushed at the back of an empty queue come out at
  the front in the order they went in, and the queue is empty again.
\<close>

theorem queue_fifo:
  assumes "queue_rep k q [] []" and "queue.line.put_all xs (q, k) = Some (q1, k1)"
    and "queue.line.get_many (length xs) (q1, k1) = Some (ys, q2, k2)"
  shows "ys = xs \<and> queue_rep k2 q2 [] [] \<and> q2 = queue_init"
proof -
  from assms(1) have "\<exists>ns. queue_rep k q ns []" by blast
  with queue.line.first_in_first_out [of "(q, k)", OF _ assms(2,3)]
  have "ys = xs" "\<exists>ns. queue_rep k2 q2 ns []" by auto
  moreover from this(2) have "queue_rep k2 q2 [] []" using queue.rep_length by fastforce
  ultimately show ?thesis using queue_rep_empty by blast
qed

lemma queue_push_back_None:
  assumes "queue_rep k q ns xs"
  shows "queue_push_back q x k = None \<longleftrightarrow> queue_node_create x k = None"
proof (cases "queue_node_create x k")
  case (Some nk)
  then obtain n k1 where c: "queue_node_create x k = Some (n, k1)" by (cases nk) auto
  have ls: "nls (k_nodes k) NULL (q_front q) ns (q_back q) NULL" and inv: "qslab_inv k"
    using assms by (auto simp: queue_rep_def)
  have "q_front q = (if ns = [] then NULL else hd ns)" using nls_first [OF ls] .
  then have "q_front q \<noteq> NULL \<Longrightarrow> q_back q \<noteq> NULL"
    using nls_last [OF ls] nls_NULL [OF ls] by (cases ns rule: rev_cases) auto
  then show ?thesis
    using c queue_node_create_ok(1) [OF inv c] by (auto simp: queue_push_back_def upd_node_def Let_def)
qed (simp add: queue_push_back_def)

lemma queue_pop_front_None:
  assumes "queue_rep k q (n # ns) xs"
  shows "queue_pop_front q k = None \<longleftrightarrow> slab_free queue_slab n (k_mm k) = None"
proof -
  have "q_front q = n" "n \<noteq> NULL" using assms by (auto simp: queue_rep_def)
  then show ?thesis
    by (auto simp: queue_pop_front_def upd_node_def Let_def queue_node_free_def k_slab_free_def
        split: bind_splits)
qed

lemma queue_pop_front_mm:
  assumes "queue_rep k q (n # ns) xs" and "queue_pop_front q k = Some (x, q', k')"
  shows "slab_free queue_slab n (k_mm k) = Some (k_mm k')"
proof -
  have "q_front q = n" "n \<noteq> NULL" using assms(1) by (auto simp: queue_rep_def)
  then show ?thesis using assms(2)
    by (auto simp: queue_pop_front_def upd_node_def Let_def queue_node_free_def k_slab_free_def
        elim!: bind_eq_SomeE split: if_splits)
qed

text \<open>
  the queue operations return. On a well-formed queue \<^verbatim>\<open>queue_push_back\<close> faults only when the
  allocation of the node does, \<^verbatim>\<open>queue_pop_front\<close> of an empty queue returns \<^verbatim>\<open>NULL\<close> and leaves
  everything as it is, and otherwise it faults only when \<^verbatim>\<open>slab_free\<close> of the first node does.
\<close>

theorem queue_returns:
  assumes "queue_rep k q ns xs"
  shows "(queue_push_back q x k = None \<longleftrightarrow> queue_node_create x k = None) \<and>
    (if ns = [] then queue_pop_front q k = Some (NULL, q, k)
     else queue_pop_front q k = None \<longleftrightarrow> slab_free queue_slab (hd ns) (k_mm k) = None)"
proof (cases ns)
  case Nil
  with assms have "queue_rep k q [] []" by (simp add: queue_rep_def)
  then show ?thesis using queue_push_back_None [OF assms] queue.pop_front_empty Nil by simp
next
  case (Cons n ms)
  then show ?thesis
    using queue_push_back_None [OF assms] queue_pop_front_None [of k q n ms xs] assms by simp
qed

text \<open>
  two queues that share no node do not disturb each other: after pushing to one and popping
  from the other each holds what it should, and their nodes are still disjoint.
\<close>

theorem queue_independent:
  assumes "queue_rep k q ns xs" and "queue_rep k r (m # ms) (y # ys)" and "set (m # ms) \<inter> set ns = {}"
    and "queue_push_back q x k = Some (q1, k1)" and "queue_pop_front r k1 = Some (z, r1, k2)"
  shows "z = y \<and> (\<exists>n. queue_rep k2 q1 (ns @ [n]) (xs @ [x]) \<and> queue_rep k2 r1 ms ys \<and>
    set ms \<inter> set (ns @ [n]) = {})"
proof -
  from queue.push_back_rep [OF assms(1,4)] obtain n where n: "queue_rep k1 q1 (ns @ [n]) (xs @ [x])"
    "queue_rep k1 r (m # ms) (y # ys)" "n \<notin> set (m # ms)" using assms(2,3) by blast
  from queue.pop_front_rep [OF n(2) assms(5)] have "z = y" "queue_rep k2 r1 ms ys"
    "set (ns @ [n]) \<inter> set (m # ms) = {} \<Longrightarrow> queue_rep k2 q1 (ns @ [n]) (xs @ [x])" using n(1) by blast+
  moreover have "set (ns @ [n]) \<inter> set (m # ms) = {}" using n(3) assms(3) by auto
  ultimately show ?thesis by auto
qed

text \<open>The first layer of the kernel's state on the concrete memory.\<close>

definition boot_kq :: kq where
  "boot_kq = \<lparr>k_mm = boot_mm, k_nodes = (\<lambda>_. \<lparr>qn_data = 0xdead, qn_next = 0xbeef, qn_prev = 0xbeef\<rparr>),
    k_queue_init = True\<rparr>"

lemma boot_queue_rep: "queue_rep boot_kq queue_init [] []"
  by (rule queue_init_rep) (simp add: qslab_inv_def boot_kq_def boot_slab)

text \<open>An instance for three values.\<close>

theorem queue_fifo_witness:
  "\<exists>q1 k1 q2 k2. queue.line.put_all [10, 20, 30] (queue_init, boot_kq) = Some (q1, k1) \<and>
    queue.line.get_many 3 (q1, k1) = Some ([10, 20, 30], q2, k2)"
proof -
  have "do {
      (a, k1) \<leftarrow> queue_push_back queue_init 10 boot_kq;
      (b, k2) \<leftarrow> queue_push_back a 20 k1;
      (c, k3) \<leftarrow> queue_push_back b 30 k2;
      (x, d, k4) \<leftarrow> queue_pop_front c k3;
      (y, e, k5) \<leftarrow> queue_pop_front d k4;
      (z, f, k6) \<leftarrow> queue_pop_front e k5;
      Some ()
    } = Some ()" by code_simp
  then obtain q1 k1 ys q2 k2 where 1: "queue.line.put_all [10, 20, 30] (queue_init, boot_kq) = Some (q1, k1)"
    and 2: "queue.line.get_many 3 (q1, k1) = Some (ys, q2, k2)"
    by (auto simp: numeral_3_eq_3 elim!: bind_eq_SomeE)
  from 2 have "queue.line.get_many (length [10, 20, 30 :: ptr]) (q1, k1) = Some (ys, q2, k2)"
    by (simp add: numeral_3_eq_3)
  with queue_fifo [OF boot_queue_rep 1] have "ys = [10, 20, 30]" by blast
  with 1 2 show ?thesis by blast
qed

text \<open>On the empty queue of the boot state.\<close>

theorem queue_returns_witness:
  "queue_push_back queue_init 10 boot_kq \<noteq> None \<and>
    queue_pop_front queue_init boot_kq = Some (NULL, queue_init, boot_kq)"
proof -
  have "\<exists>p m. slab_alloc queue_slab boot_mm = Some (p, m) \<and> p \<noteq> NULL"
    using slab_alloc_total [OF boot_slab(1) boot_core] slab_alloc_ok [OF boot_slab(1)] by fastforce
  then have "queue_node_create 10 boot_kq \<noteq> None"
    by (auto simp: queue_node_create_def queue_slab_init_def boot_kq_def k_slab_alloc_def upd_node_def)
  then show ?thesis using queue_returns [OF boot_queue_rep, of 10] by simp
qed

text \<open>An instance with a queue of one value beside an empty one.\<close>

theorem queue_independent_witness:
  "\<exists>q1 r k1 k2 k3 r1 n. queue_push_back queue_init 7 boot_kq = Some (r, k1) \<and>
    queue_push_back queue_init 8 k1 = Some (q1, k2) \<and> queue_pop_front r k2 = Some (7, r1, k3) \<and>
    queue_rep k3 q1 [n] [8]"
proof -
  have "do {
      (r, k1) \<leftarrow> queue_push_back queue_init 7 boot_kq;
      (q1, k2) \<leftarrow> queue_push_back queue_init 8 k1;
      (x, r1, k3) \<leftarrow> queue_pop_front r k2;
      Some ()
    } = Some ()" by code_simp
  then obtain r k1 q1 k2 x r1 k3 where r: "queue_push_back queue_init 7 boot_kq = Some (r, k1)"
    and q: "queue_push_back queue_init 8 k1 = Some (q1, k2)"
    and x: "queue_pop_front r k2 = Some (x, r1, k3)" by (auto elim!: bind_eq_SomeE)
  from queue.push_back_rep [OF boot_queue_rep r] boot_queue_rep obtain m where
    m: "queue_rep k1 r [m] [7]" "queue_rep k1 queue_init [] []" by auto
  from queue_independent [OF m(2,1) _ q x] show ?thesis using r q x by auto
qed

end
