(* ===== verification/C4_Capability.thy ===== *)
theory C4_Capability
  imports C4_Queue
begin

text \<open>
  Capability tables and spaces: \<^verbatim>\<open>src/capability.c\<close> and \<^verbatim>\<open>include/c4/capability.h\<close>.

  A capability table is a page of 256 entries of 16 bytes; its entry 0 refers to the capability
  space that owns the table. Objects are addressed by 32-bit words read as digits in base 256,
  the least significant first: a digit that hits a capability space goes on in that space's
  table. The model keeps the entries in one heap keyed by entry address, so that, as in the
  code, the entry a lookup returns is a pointer, and the table an entry belongs to is found
  by rounding its address down to a page.
\<close>

definition CAP_ACCESS :: u32 where [c4_enum]: "CAP_ACCESS = 1"
definition CAP_MODIFY :: u32 where [c4_enum]: "CAP_MODIFY = 2"
definition CAP_SHARE :: u32 where [c4_enum]: "CAP_SHARE = 4"
definition CAP_MULTI_USE :: u32 where [c4_enum]: "CAP_MULTI_USE = 8"

definition CAP_TYPE_NULL :: u32 where [c4_enum]: "CAP_TYPE_NULL = 0"
definition CAP_TYPE_IPC_SYNC_ENDPOINT :: u32 where [c4_enum]: "CAP_TYPE_IPC_SYNC_ENDPOINT = 1"
definition CAP_TYPE_IPC_ASYNC_ENDPOINT :: u32 where [c4_enum]: "CAP_TYPE_IPC_ASYNC_ENDPOINT = 2"
definition CAP_TYPE_CAP_SPACE :: u32 where [c4_enum]: "CAP_TYPE_CAP_SPACE = 3"
definition CAP_TYPE_ADDR_SPACE :: u32 where [c4_enum]: "CAP_TYPE_ADDR_SPACE = 4"
definition CAP_TYPE_THREAD :: u32 where [c4_enum]: "CAP_TYPE_THREAD = 5"
definition CAP_TYPE_IO_PORT :: u32 where [c4_enum]: "CAP_TYPE_IO_PORT = 6"
definition CAP_TYPE_PHYS_MEMORY :: u32 where [c4_enum]: "CAP_TYPE_PHYS_MEMORY = 7"
definition CAP_TYPE_RESERVED :: u32 where [c4_enum]: "CAP_TYPE_RESERVED = 8"

definition CAP_INVALID_OBJECT :: u32 where [c4_enum]: "CAP_INVALID_OBJECT = 0"

record cap_entry_t =
  ce_type :: u32
  ce_permissions :: u32
  ce_object :: ptr

definition sizeof_cap_entry_t :: u32 where "sizeof_cap_entry_t = 16"

definition CAP_ENTRIES_PER_PAGE :: u32 where
  "CAP_ENTRIES_PER_PAGE = PAGE_SIZE div sizeof_cap_entry_t"

record cap_space_t =
  cs_table :: ptr
  cs_references :: u32

definition sizeof_cap_space_t :: u32 where "sizeof_cap_space_t = 8"

record kcap = kq +
  k_caps :: "cap_entry_t heap"
  k_cap_spaces :: "cap_space_t heap"
  k_cap_init :: bool

text \<open>\<^verbatim>\<open>table->entries + i\<close>.\<close>

definition cap_slot :: "ptr \<Rightarrow> u32 \<Rightarrow> ptr" where
  "cap_slot table i = table + i * sizeof_cap_entry_t"

definition upd_cap :: "ptr \<Rightarrow> (cap_entry_t \<Rightarrow> cap_entry_t) \<Rightarrow> 'a kcap_scheme \<Rightarrow> 'a kcap_scheme" where
  "upd_cap e f k = k\<lparr>k_caps := (k_caps k)(e := f (k_caps k e))\<rparr>"

subsection \<open>Tables\<close>

text \<open>
  The loop of \<^verbatim>\<open>cap_table_lookup\<close>. \<^verbatim>\<open>NULL\<close> is the answer "no such object"; following a null table
  or a null space is a fault.
\<close>

function cap_table_lookup :: "'a kcap_scheme \<Rightarrow> ptr \<Rightarrow> u32 \<Rightarrow> ptr option" where
  "cap_table_lookup k table object =
     (let offset = object mod CAP_ENTRIES_PER_PAGE;
          object' = object div CAP_ENTRIES_PER_PAGE;
          entry = cap_slot table offset
      in if table = NULL then None
         else if object' = 0 \<and> offset = 0 then Some entry
         else if ce_type (k_caps k entry) = CAP_TYPE_CAP_SPACE
         then let space = ce_object (k_caps k entry)
              in if space = NULL then None
                 else cap_table_lookup k (cs_table (k_cap_spaces k space)) object'
         else if object' \<noteq> 0 then Some NULL
         else Some entry)"
  by pat_completeness auto
termination
proof (relation "measure (\<lambda>(k, table, object). unat object)")
  fix k :: "'a kcap_scheme" and table object offset object' entry space
  assume o: "offset = object mod CAP_ENTRIES_PER_PAGE" "object' = object div CAP_ENTRIES_PER_PAGE"
    and n: "\<not> (object' = 0 \<and> offset = 0)"
  have c: "unat CAP_ENTRIES_PER_PAGE = 256"
    by (simp add: CAP_ENTRIES_PER_PAGE_def PAGE_SIZE_def sizeof_cap_entry_t_def)
  have "object \<noteq> 0" using n o by auto
  then have "unat object \<noteq> 0" by (simp add: unat_eq_zero)
  then have "unat object' < unat object" using o(2) c by (simp add: unat_div)
  then show "((k, cs_table (k_cap_spaces k space), object'), (k, table, object))
      \<in> measure (\<lambda>(k, table, object). unat object)" by simp
qed simp

declare cap_table_lookup.simps [simp del]

text \<open>The loop of \<^verbatim>\<open>cap_table_insert\<close> from index \<open>i\<close> on.\<close>

function cap_table_insert_from ::
  "u32 \<Rightarrow> ptr \<Rightarrow> cap_entry_t \<Rightarrow> 'a kcap_scheme \<Rightarrow> u32 \<times> 'a kcap_scheme" where
  "cap_table_insert_from i table entry k =
     (if i < CAP_ENTRIES_PER_PAGE
      then if ce_type (k_caps k (cap_slot table i)) \<noteq> CAP_TYPE_NULL
           then cap_table_insert_from (i + 1) table entry k
           else (i, upd_cap (cap_slot table i) (\<lambda>_. entry) k)
      else (CAP_INVALID_OBJECT, k))"
  by pat_completeness auto
termination
  by (relation "measure (\<lambda>(i, _, _, _). unat CAP_ENTRIES_PER_PAGE - unat i)")
     (auto simp: unat_Suc_u32 word_less_nat_alt)

declare cap_table_insert_from.simps [simp del]

definition cap_table_insert :: "ptr \<Rightarrow> cap_entry_t \<Rightarrow> 'a kcap_scheme \<Rightarrow> (u32 \<times> 'a kcap_scheme) option" where
  "cap_table_insert table entry k =
     (if table = NULL then None else Some (cap_table_insert_from 0 table entry k))"

definition cap_table_remove :: "ptr \<Rightarrow> u32 \<Rightarrow> 'a kcap_scheme \<Rightarrow> 'a kcap_scheme option" where
  "cap_table_remove table object k =
     (let offset = object mod CAP_ENTRIES_PER_PAGE
      in if table = NULL then None
         else Some (upd_cap (cap_slot table offset) (ce_type_update (\<lambda>_. CAP_TYPE_NULL)) k))"

definition cap_table_replace :: "ptr \<Rightarrow> u32 \<Rightarrow> cap_entry_t \<Rightarrow> 'a kcap_scheme \<Rightarrow> 'a kcap_scheme option" where
  "cap_table_replace table object entry k =
     (let offset = object mod CAP_ENTRIES_PER_PAGE
      in if table = NULL then None
         else Some (upd_cap (cap_slot table offset) (\<lambda>_. entry) k))"

subsection \<open>Spaces\<close>

definition cap_space_init :: "'a kcap_scheme \<Rightarrow> 'a kcap_scheme" where
  "cap_space_init k =
     (if \<not> k_cap_init k
      then (k_slab_init cap_space_slab sizeof_cap_space_t k)\<lparr>k_cap_init := True\<rparr>
      else k)"

definition cap_all_rights :: u32 where
  "cap_all_rights = CAP_ACCESS OR CAP_MODIFY OR CAP_SHARE OR CAP_MULTI_USE"

definition cap_space_create :: "'a kcap_scheme \<Rightarrow> (ptr \<times> 'a kcap_scheme) option" where
  "cap_space_create k = do {
     (ret, k1) \<leftarrow> k_slab_alloc cap_space_slab k;
     if ret \<noteq> NULL
     then do {
       (table, k2) \<leftarrow> k_global_alloc k1;
       if table = NULL
       then do {
         k3 \<leftarrow> k_slab_free cap_space_slab ret k2;
         Some (NULL, k3)
       }
       else do {
         let k3 = k2\<lparr>k_cap_spaces := (k_cap_spaces k2)(ret := (k_cap_spaces k2 ret)\<lparr>cs_table := table\<rparr>)\<rparr>;
         let entry = \<lparr>ce_type = CAP_TYPE_CAP_SPACE, ce_permissions = cap_all_rights, ce_object = ret\<rparr>;
         k4 \<leftarrow> cap_table_replace (cs_table (k_cap_spaces k3 ret)) 0 entry k3;
         Some (ret, k4)
       }
     }
     else Some (ret, k1)
   }"

definition cap_space_free :: "ptr \<Rightarrow> 'a kcap_scheme \<Rightarrow> 'a kcap_scheme option" where
  "cap_space_free space k =
     (if space = NULL then None
      else do {
        k1 \<leftarrow> k_global_free (cs_table (k_cap_spaces k space)) k;
        k_slab_free cap_space_slab space k1
      })"

definition cap_space_lookup :: "'a kcap_scheme \<Rightarrow> ptr \<Rightarrow> u32 \<Rightarrow> ptr option" where
  "cap_space_lookup k space object =
     (if space = NULL then None else cap_table_lookup k (cs_table (k_cap_spaces k space)) object)"

text \<open>\<^verbatim>\<open>cap_entry_root_space\<close>: the owner named in entry 0 of the page an entry lies in.\<close>

definition cap_entry_root_space :: "'a kcap_scheme \<Rightarrow> ptr \<Rightarrow> ptr" where
  "cap_entry_root_space k entry = ce_object (k_caps k (entry AND NOT (PAGE_SIZE - 1)))"

definition cap_space_root_entry :: "'a kcap_scheme \<Rightarrow> ptr \<Rightarrow> ptr option" where
  "cap_space_root_entry k space =
     (if space = NULL then None else Some (cs_table (k_cap_spaces k space)))"

text \<open>Reading an entry through a pointer that may be null.\<close>

definition read_cap :: "'a kcap_scheme \<Rightarrow> ptr \<Rightarrow> cap_entry_t option" where
  "read_cap k e = (if e = NULL then None else Some (k_caps k e))"

definition cap_space_insert :: "ptr \<Rightarrow> cap_entry_t \<Rightarrow> 'a kcap_scheme \<Rightarrow> (u32 \<times> 'a kcap_scheme) option" where
  "cap_space_insert space entry k = do {
     e \<leftarrow> cap_space_root_entry k space;
     space_entry \<leftarrow> read_cap k e;
     if ce_permissions space_entry AND CAP_MODIFY \<noteq> 0
     then cap_table_insert (cs_table (k_cap_spaces k space)) entry k
     else Some (CAP_INVALID_OBJECT, k)
   }"

text \<open>\<^verbatim>\<open>cap_space_share\<close>: its \<^verbatim>\<open>permissions\<close> argument is not used.\<close>

definition cap_space_share ::
  "ptr \<Rightarrow> ptr \<Rightarrow> u32 \<Rightarrow> u32 \<Rightarrow> 'a kcap_scheme \<Rightarrow> (u32 \<times> 'a kcap_scheme) option" where
  "cap_space_share source dest object permissions k = do {
     entry \<leftarrow> cap_space_lookup k source object;
     if entry = NULL \<or> ce_permissions (k_caps k entry) AND CAP_SHARE = 0
     then Some (CAP_INVALID_OBJECT, k)
     else cap_space_insert dest (k_caps k entry) k
   }"

text \<open>
  The check the next three functions share: the entry addressed, and whether the space that owns
  its table may be modified.
\<close>

definition cap_owner_entry :: "'a kcap_scheme \<Rightarrow> ptr \<Rightarrow> cap_entry_t option" where
  "cap_owner_entry k entry = do {
     let root_space = cap_entry_root_space k entry;
     e \<leftarrow> cap_space_root_entry k root_space;
     read_cap k e
   }"

definition cap_space_replace ::
  "ptr \<Rightarrow> u32 \<Rightarrow> cap_entry_t \<Rightarrow> 'a kcap_scheme \<Rightarrow> (bool \<times> 'a kcap_scheme) option" where
  "cap_space_replace space object entry k = do {
     old_entry \<leftarrow> cap_space_lookup k space object;
     if old_entry = NULL then Some (False, k)
     else do {
       space_entry \<leftarrow> cap_owner_entry k old_entry;
       if ce_permissions space_entry AND CAP_MODIFY \<noteq> 0
       then Some (True, upd_cap old_entry (\<lambda>_. entry) k)
       else Some (False, k)
     }
   }"

definition cap_space_remove :: "ptr \<Rightarrow> u32 \<Rightarrow> 'a kcap_scheme \<Rightarrow> (bool \<times> 'a kcap_scheme) option" where
  "cap_space_remove space object k = do {
     entry \<leftarrow> cap_space_lookup k space object;
     if entry = NULL then Some (False, k)
     else do {
       space_entry \<leftarrow> cap_owner_entry k entry;
       if ce_permissions space_entry AND CAP_MODIFY \<noteq> 0
       then Some (True, upd_cap entry (ce_type_update (\<lambda>_. CAP_TYPE_NULL)) k)
       else Some (False, k)
     }
   }"

definition cap_space_restrict :: "ptr \<Rightarrow> u32 \<Rightarrow> u32 \<Rightarrow> 'a kcap_scheme \<Rightarrow> (bool \<times> 'a kcap_scheme) option" where
  "cap_space_restrict space object permissions k = do {
     entry \<leftarrow> cap_space_lookup k space object;
     if entry = NULL then Some (False, k)
     else do {
       space_entry \<leftarrow> cap_owner_entry k entry;
       if ce_permissions space_entry AND CAP_MODIFY = 0 then Some (False, k)
       else if ce_permissions (k_caps k entry) AND permissions \<noteq> permissions then Some (False, k)
       else Some (True, upd_cap entry (ce_permissions_update (\<lambda>_. permissions)) k)
     }
   }"

subsection \<open>Addresses of entries\<close>

lemma cap_epp [simp]: "CAP_ENTRIES_PER_PAGE = 256"
  by (simp add: CAP_ENTRIES_PER_PAGE_def PAGE_SIZE_def sizeof_cap_entry_t_def)

lemma cap_slot_nat:
  assumes "unat t mod 4096 = 0" and "unat i < 256"
  shows "unat (cap_slot t i) = unat t + 16 * unat i"
proof -
  have "unat (i * 16) = 16 * unat i" using unat_mult_u32 [of i 16] assms(2) by simp
  then show ?thesis
    using aligned_room [OF assms(1) unat_u32_less] assms(2) unat_add_u32 [of t "i * 16"]
    by (simp add: cap_slot_def sizeof_cap_entry_t_def)
qed

lemma page_of_slot:
  assumes "unat t mod 4096 = 0" and "unat i < 256"
  shows "cap_slot t i AND NOT (PAGE_SIZE - 1) = t"
proof -
  let ?e = "cap_slot t i"
  have u: "unat ?e = unat t + 16 * unat i" by (rule cap_slot_nat [OF assms])
  have f: "?e AND NOT (PAGE_SIZE - 1) = frame_of ?e" by (simp add: frame_of_def PAGE_SIZE_def)
  have lo: "?e AND 0xfff = ?e mod 4096"
    using word_mod_2p_is_mask [of 12 ?e] by (simp add: u32_0xfff)
  have "unat (?e mod 4096) = 16 * unat i" using u assms by (simp add: unat_mod mod_add_eq [symmetric])
  then have "unat (?e AND 0xfff) = 16 * unat i" unfolding lo .
  moreover have "?e = frame_of ?e + (?e AND 0xfff)" by (rule frame_of_split(1))
  then have "frame_of ?e = ?e - (?e AND 0xfff)" by (metis add_diff_cancel_right')
  ultimately have "unat (frame_of ?e) = unat t"
    using unat_sub [of "?e AND 0xfff" ?e] u by (simp add: word_le_nat_alt)
  then show ?thesis unfolding f by (simp add: word_unat_eq_iff)
qed

lemma cap_slot_0 [simp]: "cap_slot t 0 = t"
  by (simp add: cap_slot_def)

lemma cap_slot_eq_iff:
  assumes "unat t mod 4096 = 0" "unat i < 256" "unat t' mod 4096 = 0" "unat i' < 256"
  shows "cap_slot t i = cap_slot t' i' \<longleftrightarrow> t = t' \<and> i = i'"
proof
  assume eq: "cap_slot t i = cap_slot t' i'"
  then have t: "t = t'" using page_of_slot [OF assms(1,2)] page_of_slot [OF assms(3,4)] by simp
  have "unat t + 16 * unat i = unat t' + 16 * unat i'"
    using cap_slot_nat [OF assms(1,2)] cap_slot_nat [OF assms(3,4)] eq by simp
  then show "t = t' \<and> i = i'" using t by (simp add: word_unat_eq_iff)
qed simp

lemma cap_slot_nonnull:
  assumes "unat t mod 4096 = 0" and "t \<noteq> NULL" and "unat i < 256" shows "cap_slot t i \<noteq> NULL"
  using cap_slot_nat [OF assms(1,3)] assms(2) by (auto simp: word_unat_eq_iff)

subsection \<open>Well-formed capability spaces\<close>

abbreviation cap_tbl :: "'a kcap_scheme \<Rightarrow> ptr \<Rightarrow> ptr" where
  "cap_tbl k sp \<equiv> cs_table (k_cap_spaces k sp)"

text \<open>A space with a page-aligned table whose entry 0 is the space itself.\<close>

definition space_ok :: "'a kcap_scheme \<Rightarrow> ptr \<Rightarrow> bool" where
  "space_ok k sp \<longleftrightarrow> sp \<noteq> NULL \<and> cap_tbl k sp \<noteq> NULL \<and> unat (cap_tbl k sp) mod 4096 = 0 \<and>
     ce_type (k_caps k (cap_tbl k sp)) = CAP_TYPE_CAP_SPACE \<and> ce_object (k_caps k (cap_tbl k sp)) = sp"

text \<open>A set of spaces that is closed under the capability space entries in their tables.\<close>

definition caps_wf :: "'a kcap_scheme \<Rightarrow> ptr set \<Rightarrow> bool" where
  "caps_wf k S \<longleftrightarrow> (\<forall>sp \<in> S. space_ok k sp \<and> (\<forall>i. unat i < 256 \<longrightarrow>
     ce_type (k_caps k (cap_slot (cap_tbl k sp) i)) = CAP_TYPE_CAP_SPACE \<longrightarrow>
     ce_object (k_caps k (cap_slot (cap_tbl k sp) i)) \<in> S))"

lemma caps_wfD:
  assumes "caps_wf k S" and "sp \<in> S"
  shows "sp \<noteq> NULL" and "cap_tbl k sp \<noteq> NULL" and "unat (cap_tbl k sp) mod 4096 = 0"
    and "ce_type (k_caps k (cap_tbl k sp)) = CAP_TYPE_CAP_SPACE"
    and "ce_object (k_caps k (cap_tbl k sp)) = sp"
    and "unat i < 256 \<Longrightarrow> ce_type (k_caps k (cap_slot (cap_tbl k sp) i)) = CAP_TYPE_CAP_SPACE \<Longrightarrow>
      ce_object (k_caps k (cap_slot (cap_tbl k sp) i)) \<in> S"
  using assms by (auto simp: caps_wf_def space_ok_def)

text \<open>
  The naming graph: what entry \<open>d\<close> of a space holds, and the object a number names from a space,
  as its digits in base 256 lead through the graph. Number 0 names the space itself.
\<close>

definition cap_graph :: "'a kcap_scheme \<Rightarrow> ptr \<Rightarrow> nat \<Rightarrow> cap_entry_t" where
  "cap_graph k sp d = k_caps k (cap_slot (cap_tbl k sp) (of_nat d))"

function cap_resolve :: "(ptr \<Rightarrow> nat \<Rightarrow> cap_entry_t) \<Rightarrow> ptr \<Rightarrow> nat \<Rightarrow> (ptr \<times> nat) option" where
  "cap_resolve G sp n =
     (if n = 0 then Some (sp, 0)
      else if ce_type (G sp (n mod 256)) = CAP_TYPE_CAP_SPACE
      then cap_resolve G (ce_object (G sp (n mod 256))) (n div 256)
      else if n div 256 \<noteq> 0 then None
      else Some (sp, n mod 256))"
  by pat_completeness auto
termination by (relation "measure (\<lambda>(G, sp, n). n)") auto

declare cap_resolve.simps [simp del]

lemma cap_table_lookup_resolve:
  assumes "caps_wf k S" and "sp \<in> S"
  shows "cap_table_lookup k (cap_tbl k sp) object =
      Some (case cap_resolve (cap_graph k) sp (unat object) of None \<Rightarrow> NULL
            | Some (sp', d) \<Rightarrow> cap_slot (cap_tbl k sp') (of_nat d)) \<and>
    (\<forall>sp' d. cap_resolve (cap_graph k) sp (unat object) = Some (sp', d) \<longrightarrow> sp' \<in> S \<and> d < 256)"
  using assms(2)
proof (induction "unat object" arbitrary: object sp rule: less_induct)
  case less
  note wf = caps_wfD [OF assms(1) less.prems]
  let ?d = "object mod 256" and ?n = "object div 256"
  have u: "unat ?d = unat object mod 256" "unat ?n = unat object div 256"
    by (simp_all add: unat_mod unat_div)
  have d: "unat ?d < 256" by (simp add: u)
  have g: "cap_graph k sp (unat object mod 256) = k_caps k (cap_slot (cap_tbl k sp) ?d)"
    by (simp add: cap_graph_def u(1) [symmetric])
  have z: "?n = 0 \<and> ?d = 0 \<longleftrightarrow> unat object = 0"
  proof -
    have "?n = 0 \<and> ?d = 0 \<longleftrightarrow> unat object div 256 = 0 \<and> unat object mod 256 = 0"
      by (simp add: word_unat_eq_iff u)
    then show ?thesis by (metis div_0 mod_0 mod_div_trivial mult_div_mod_eq add_0 mult_0_right)
  qed
  have nz: "?n = 0 \<longleftrightarrow> unat object div 256 = 0" by (simp add: word_unat_eq_iff u)
  show ?case
  proof (cases "unat object = 0")
    case True
    then have "object = 0" by (simp add: unat_eq_zero)
    then show ?thesis
      using wf(2) less.prems by (simp add: cap_table_lookup.simps [of k _ 0] cap_resolve.simps [of _ _ 0])
  next
    case False
    let ?e = "k_caps k (cap_slot (cap_tbl k sp) ?d)"
    show ?thesis
    proof (cases "ce_type ?e = CAP_TYPE_CAP_SPACE")
      case True
      have sp2: "ce_object ?e \<in> S" by (rule wf(6) [OF d True])
      have lt: "unat ?n < unat object" using False by (simp add: u)
      have l: "cap_table_lookup k (cap_tbl k sp) object = cap_table_lookup k (cap_tbl k (ce_object ?e)) ?n"
        using wf(2) z False True caps_wfD(1) [OF assms(1) sp2]
        by (auto simp: cap_table_lookup.simps [of k "cap_tbl k sp" object] Let_def)
      have r: "cap_resolve (cap_graph k) sp (unat object) =
          cap_resolve (cap_graph k) (ce_object ?e) (unat ?n)"
        using False True by (simp add: cap_resolve.simps [of _ sp "unat object"] g u)
      show ?thesis unfolding l r using less.hyps [OF lt sp2] .
    next
      case nt: False
      have l: "cap_table_lookup k (cap_tbl k sp) object =
          (if ?n \<noteq> 0 then Some NULL else Some (cap_slot (cap_tbl k sp) ?d))"
        using wf(2) z False nt
        by (auto simp: cap_table_lookup.simps [of k "cap_tbl k sp" object] Let_def)
      have r: "cap_resolve (cap_graph k) sp (unat object) =
          (if unat object div 256 \<noteq> 0 then None else Some (sp, unat object mod 256))"
        using False nt by (simp add: cap_resolve.simps [of _ sp "unat object"] g)
      have "?d = object \<and> unat object < 256" if "unat object div 256 = 0"
        using that by (simp add: word_unat_eq_iff u)
      then show ?thesis using less.prems unfolding l r nz by simp
    qed
  qed
qed

text \<open>The entry a lookup finds lies in the table of one of the spaces, and that space owns it.\<close>

lemma cap_space_lookup_cases:
  assumes wf: "caps_wf k S" and sp: "sp \<in> S"
  obtains (missing) "cap_space_lookup k sp object = Some NULL"
  | (found) sp' i where "cap_space_lookup k sp object = Some (cap_slot (cap_tbl k sp') i)"
      and "sp' \<in> S" and "unat i < 256" and "cap_slot (cap_tbl k sp') i \<noteq> NULL"
      and "cap_entry_root_space k (cap_slot (cap_tbl k sp') i) = sp'"
      and "cap_owner_entry k (cap_slot (cap_tbl k sp') i) = Some (k_caps k (cap_tbl k sp'))"
proof (cases "cap_resolve (cap_graph k) sp (unat object)")
  case None
  then show thesis
    using missing cap_table_lookup_resolve [OF wf sp, of object] caps_wfD(1) [OF wf sp]
    by (simp add: cap_space_lookup_def)
next
  case (Some r)
  then obtain sp' d where r: "cap_resolve (cap_graph k) sp (unat object) = Some (sp', d)" by (cases r) auto
  note l = cap_table_lookup_resolve [OF wf sp, of object]
  let ?i = "of_nat d :: u32"
  from l r have s: "sp' \<in> S" "unat ?i < 256" by (auto simp: unat_of_nat_u32)
  note w = caps_wfD [OF wf s(1)]
  have root: "cap_entry_root_space k (cap_slot (cap_tbl k sp') ?i) = sp'"
    using page_of_slot [OF w(3) s(2)] w(5) by (simp add: cap_entry_root_space_def)
  show thesis
    by (rule found [of sp' ?i])
       (use l r s w root cap_slot_nonnull [OF w(3,2) s(2)] caps_wfD(1) [OF wf sp] in
        \<open>simp_all add: cap_space_lookup_def cap_owner_entry_def cap_space_root_entry_def read_cap_def\<close>)
qed

subsection \<open>Insertion\<close>

lemma cap_table_insert_from_cases:
  assumes "unat i \<le> 256"
  shows "(cap_table_insert_from i table entry k = (CAP_INVALID_OBJECT, k) \<and>
      (\<forall>j. i \<le> j \<and> unat j < 256 \<longrightarrow> ce_type (k_caps k (cap_slot table j)) \<noteq> CAP_TYPE_NULL)) \<or>
    (\<exists>j. i \<le> j \<and> unat j < 256 \<and> ce_type (k_caps k (cap_slot table j)) = CAP_TYPE_NULL \<and>
      (\<forall>j'. i \<le> j' \<and> j' < j \<longrightarrow> ce_type (k_caps k (cap_slot table j')) \<noteq> CAP_TYPE_NULL) \<and>
      cap_table_insert_from i table entry k = (j, upd_cap (cap_slot table j) (\<lambda>_. entry) k))"
  using assms
proof (induction i table entry k rule: cap_table_insert_from.induct)
  case (1 i table entry k)
  show ?case
  proof (cases "i < CAP_ENTRIES_PER_PAGE")
    case False
    then have "\<not> (i \<le> j \<and> unat j < 256)" for j by (auto simp: u32_nat)
    then show ?thesis using False by (intro disjI1) (auto simp: cap_table_insert_from.simps [of i])
  next
    case True
    show ?thesis
    proof (cases "ce_type (k_caps k (cap_slot table i)) = CAP_TYPE_NULL")
      case free: True
      then show ?thesis
        using True by (intro disjI2 exI [of _ i]) (auto simp: cap_table_insert_from.simps [of i] u32_nat)
    next
      case used: False
      have suc: "i + 1 \<le> j \<longleftrightarrow> i < j" for j
        using unat_Suc_u32 [OF True] by (simp add: u32_nat Suc_le_eq)
      have "i \<le> j \<longleftrightarrow> j = i \<or> i < j" for j by auto
      moreover have "cap_table_insert_from i table entry k = cap_table_insert_from (i + 1) table entry k"
        using True used by (simp add: cap_table_insert_from.simps [of i])
      moreover have "unat (i + 1) \<le> 256" using unat_Suc_u32 [OF True] True by (simp add: u32_nat)
      ultimately show ?thesis using "1.IH" [OF True used] used unfolding suc by metis
    qed
  qed
qed

text \<open>Insertion into the table of a well-formed space: its first unused entry, or none.\<close>

lemma cap_table_insert_cases:
  assumes "space_ok k sp"
  obtains (full) "cap_table_insert (cap_tbl k sp) entry k = Some (CAP_INVALID_OBJECT, k)"
      and "\<And>j. unat j < 256 \<Longrightarrow> ce_type (k_caps k (cap_slot (cap_tbl k sp) j)) \<noteq> CAP_TYPE_NULL"
  | (slot) j where "cap_table_insert (cap_tbl k sp) entry k =
        Some (j, upd_cap (cap_slot (cap_tbl k sp) j) (\<lambda>_. entry) k)"
      and "unat j < 256" and "j \<noteq> 0" and "ce_type (k_caps k (cap_slot (cap_tbl k sp) j)) = CAP_TYPE_NULL"
      and "\<And>j'. j' < j \<Longrightarrow> ce_type (k_caps k (cap_slot (cap_tbl k sp) j')) \<noteq> CAP_TYPE_NULL"
proof -
  have 0: "ce_type (k_caps k (cap_slot (cap_tbl k sp) 0)) \<noteq> CAP_TYPE_NULL" "cap_tbl k sp \<noteq> NULL"
    using assms by (simp_all add: space_ok_def c4_enum)
  have "unat (0 :: u32) \<le> 256" by simp
  from cap_table_insert_from_cases [OF this, of "cap_tbl k sp" entry k] show thesis
  proof (elim disjE exE conjE)
    assume "cap_table_insert_from 0 (cap_tbl k sp) entry k = (CAP_INVALID_OBJECT, k)"
      and "\<forall>j. 0 \<le> j \<and> unat j < 256 \<longrightarrow> ce_type (k_caps k (cap_slot (cap_tbl k sp) j)) \<noteq> CAP_TYPE_NULL"
    then show thesis using full 0(2) by (simp add: cap_table_insert_def)
  next
    fix j assume j: "unat j < 256" "ce_type (k_caps k (cap_slot (cap_tbl k sp) j)) = CAP_TYPE_NULL"
      "\<forall>j'. 0 \<le> j' \<and> j' < j \<longrightarrow> ce_type (k_caps k (cap_slot (cap_tbl k sp) j')) \<noteq> CAP_TYPE_NULL"
      "cap_table_insert_from 0 (cap_tbl k sp) entry k = (j, upd_cap (cap_slot (cap_tbl k sp) j) (\<lambda>_. entry) k)"
    moreover have "j \<noteq> 0" using j(2) 0(1) by metis
    ultimately show thesis using slot 0(2) by (simp add: cap_table_insert_def)
  qed
qed

lemma upd_cap_simps [simp]:
  "k_cap_spaces (upd_cap e f k) = k_cap_spaces k" "k_mm (upd_cap e f k) = k_mm k"
  "k_caps (upd_cap e f k) = (k_caps k)(e := f (k_caps k e))"
  by (simp_all add: upd_cap_def)

text \<open>Overwriting an entry other than a table's entry 0 keeps the spaces well-formed.\<close>

lemma caps_wf_upd:
  assumes wf: "caps_wf k S" and sp: "sp \<in> S" and i: "unat i < 256" "i \<noteq> 0"
    and e: "ce_type (f (k_caps k (cap_slot (cap_tbl k sp) i))) = CAP_TYPE_CAP_SPACE \<Longrightarrow>
      ce_object (f (k_caps k (cap_slot (cap_tbl k sp) i))) \<in> S"
  shows "caps_wf (upd_cap (cap_slot (cap_tbl k sp) i) f k) S"
proof -
  let ?k = "upd_cap (cap_slot (cap_tbl k sp) i) f k"
  note w = caps_wfD [OF wf]
  have eq: "cap_slot (cap_tbl k s) j = cap_slot (cap_tbl k sp) i \<longleftrightarrow> cap_tbl k s = cap_tbl k sp \<and> j = i"
    if "s \<in> S" "unat j < 256" for s j
    using cap_slot_eq_iff [OF w(3) [OF that(1)] that(2) w(3) [OF sp] i(1)] .
  have t: "k_caps ?k (cap_tbl k s) = k_caps k (cap_tbl k s)" if "s \<in> S" for s
    using eq [OF that, of 0] i(2) by auto
  show ?thesis
    unfolding caps_wf_def space_ok_def upd_cap_simps(1)
  proof (intro ballI conjI allI impI)
    fix s j assume s: "s \<in> S" "unat j < 256"
      "ce_type (k_caps ?k (cap_slot (cap_tbl k s) j)) = CAP_TYPE_CAP_SPACE"
    then show "ce_object (k_caps ?k (cap_slot (cap_tbl k s) j)) \<in> S"
      using eq [OF s(1,2)] w(6) [OF s(1,2)] e by (auto split: if_splits)
  qed (use w t in \<open>auto simp: space_ok_def\<close>)
qed

text \<open>A number below 256 names an entry of the space itself, if that entry is not a space.\<close>

lemma cap_space_lookup_slot:
  assumes wf: "caps_wf k S" and sp: "sp \<in> S" and j: "unat j < 256"
    and ty: "ce_type (k_caps k (cap_slot (cap_tbl k sp) j)) \<noteq> CAP_TYPE_CAP_SPACE"
  shows "cap_space_lookup k sp j = Some (cap_slot (cap_tbl k sp) j)"
proof -
  have "j div 256 = 0" "j mod 256 = j" using j by (simp_all add: word_unat_eq_iff unat_div unat_mod)
  then show ?thesis
    using ty caps_wfD(1,2) [OF wf sp]
    by (simp add: cap_space_lookup_def cap_table_lookup.simps [of k _ j] Let_def)
qed

lemma cap_space_insert_any:
  assumes wf: "caps_wf k S" and sp: "sp \<in> S"
    and ty: "ce_type entry = CAP_TYPE_CAP_SPACE \<longrightarrow> ce_object entry \<in> S"
  obtains (refused) "cap_space_insert sp entry k = Some (CAP_INVALID_OBJECT, k)"
      and "ce_permissions (k_caps k (cap_tbl k sp)) AND CAP_MODIFY = 0 \<or>
        (\<forall>j. unat j < 256 \<longrightarrow> ce_type (k_caps k (cap_slot (cap_tbl k sp) j)) \<noteq> CAP_TYPE_NULL)"
  | (slot) j where "cap_space_insert sp entry k = Some (j, upd_cap (cap_slot (cap_tbl k sp) j) (\<lambda>_. entry) k)"
      and "ce_permissions (k_caps k (cap_tbl k sp)) AND CAP_MODIFY \<noteq> 0"
      and "unat j < 256" and "j \<noteq> 0" and "ce_type (k_caps k (cap_slot (cap_tbl k sp) j)) = CAP_TYPE_NULL"
      and "\<forall>j' < j. ce_type (k_caps k (cap_slot (cap_tbl k sp) j')) \<noteq> CAP_TYPE_NULL"
      and "caps_wf (upd_cap (cap_slot (cap_tbl k sp) j) (\<lambda>_. entry) k) S"
proof (cases "ce_permissions (k_caps k (cap_tbl k sp)) AND CAP_MODIFY = 0")
  case True
  then show thesis
    using refused caps_wfD(1,2) [OF wf sp]
    by (simp add: cap_space_insert_def cap_space_root_entry_def read_cap_def)
next
  case False
  then have ins: "cap_space_insert sp entry k = cap_table_insert (cap_tbl k sp) entry k"
    using caps_wfD(1,2) [OF wf sp] by (simp add: cap_space_insert_def cap_space_root_entry_def read_cap_def)
  have ok: "space_ok k sp" using wf sp by (simp add: caps_wf_def)
  then show thesis
  proof (cases rule: cap_table_insert_cases [where entry = entry])
    case full
    then show thesis using ins refused by auto
  next
    case (slot j)
    have "caps_wf (upd_cap (cap_slot (cap_tbl k sp) j) (\<lambda>_. entry) k) S"
      by (rule caps_wf_upd [OF wf sp slot(2,3)]) (use ty in blast)
    then show thesis using that(2) slot ins False by simp
  qed
qed

text \<open>A capability that is not a space is found again under its number.\<close>

lemma cap_space_insert_cases:
  assumes wf: "caps_wf k S" and sp: "sp \<in> S"
    and ty: "ce_type entry \<noteq> CAP_TYPE_NULL" "ce_type entry \<noteq> CAP_TYPE_CAP_SPACE"
  obtains (refused) "cap_space_insert sp entry k = Some (CAP_INVALID_OBJECT, k)"
      and "ce_permissions (k_caps k (cap_tbl k sp)) AND CAP_MODIFY = 0 \<or>
        (\<forall>j. unat j < 256 \<longrightarrow> ce_type (k_caps k (cap_slot (cap_tbl k sp) j)) \<noteq> CAP_TYPE_NULL)"
  | (slot) j where "cap_space_insert sp entry k = Some (j, upd_cap (cap_slot (cap_tbl k sp) j) (\<lambda>_. entry) k)"
      and "ce_permissions (k_caps k (cap_tbl k sp)) AND CAP_MODIFY \<noteq> 0"
      and "unat j < 256" and "j \<noteq> 0" and "ce_type (k_caps k (cap_slot (cap_tbl k sp) j)) = CAP_TYPE_NULL"
      and "\<forall>j' < j. ce_type (k_caps k (cap_slot (cap_tbl k sp) j')) \<noteq> CAP_TYPE_NULL"
      and "caps_wf (upd_cap (cap_slot (cap_tbl k sp) j) (\<lambda>_. entry) k) S"
      and "cap_space_lookup (upd_cap (cap_slot (cap_tbl k sp) j) (\<lambda>_. entry) k) sp j =
        Some (cap_slot (cap_tbl k sp) j)"
proof -
  have "ce_type entry = CAP_TYPE_CAP_SPACE \<longrightarrow> ce_object entry \<in> S" using ty(2) by simp
  with wf sp show thesis
  proof (cases rule: cap_space_insert_any)
    case (slot j)
    have "cap_space_lookup (upd_cap (cap_slot (cap_tbl k sp) j) (\<lambda>_. entry) k) sp j =
      Some (cap_slot (cap_tbl k sp) j)"
      using cap_space_lookup_slot [OF slot(7) sp slot(3)] ty by simp
    with slot show thesis by (rule that(2))
  qed (rule that(1))
qed

text \<open>
  Through an entry that holds a space, a number leads on: its low eight bits name the entry, the
  rest is looked up in that space.
\<close>

lemma cap_space_lookup_sub:
  assumes wf: "caps_wf k S" and sp: "sp \<in> S" and j: "unat j < 256" "j \<noteq> 0"
    and e: "k_caps k (cap_slot (cap_tbl k sp) j) = entry" "ce_type entry = CAP_TYPE_CAP_SPACE"
    and n: "unat n < 2 ^ 24"
  shows "cap_space_lookup k sp (j + 256 * n) = cap_space_lookup k (ce_object entry) n"
    and "cap_space_lookup k sp j = Some (cap_tbl k (ce_object entry))"
proof -
  have o: "ce_object entry \<in> S" using caps_wfD(6) [OF wf sp j(1)] e by simp
  note w = caps_wfD [OF wf sp] caps_wfD [OF wf o]
  have step: "cap_space_lookup k sp (j + 256 * n) = cap_space_lookup k (ce_object entry) n"
    if n: "unat n < 2 ^ 24" for n
  proof -
    have u: "unat (j + 256 * n) = unat j + 256 * unat n"
      using j(1) n unat_mult_u32 [of 256 n] unat_add_u32 [of j "256 * n"] by simp
    have "(j + 256 * n) div 256 = n" "(j + 256 * n) mod 256 = j"
      using j(1) u by (simp_all add: word_unat_eq_iff unat_div unat_mod)
    then show ?thesis
      using w j(2) e by (simp add: cap_space_lookup_def cap_table_lookup.simps [of k _ "j + 256 * n"] Let_def)
  qed
  show "cap_space_lookup k sp (j + 256 * n) = cap_space_lookup k (ce_object entry) n" by (rule step [OF n])
  show "cap_space_lookup k sp j = Some (cap_tbl k (ce_object entry))"
    using step [of 0] w by (simp add: cap_space_lookup_def cap_table_lookup.simps [of k _ 0] Let_def)
qed

text \<open>Taking a page from the region keeps every slab with its objects.\<close>

lemma global_alloc_slab:
  assumes "slab_inv s m" and g: "global_alloc m = Some (t, m')"
  shows "slab_inv s m' \<and> slab_live s m' = slab_live s m"
proof -
  from assms(1) obtain L where L: "slab_core m s L" and r: "region_inv (mm_region m)"
    and nl: "\<not> sl_lock (mm_slabs m s)" by (auto simp: slab_inv_def)
  note d = global_allocD [OF r g]
  have sub: "region_live (mm_region m) \<subseteq> region_live (mm_region m')" using d(5,6) by (cases "t = NULL") auto
  have L': "slab_core m' s L"
    by (rule slab_core_cong [OF L]) (use d sub in \<open>simp_all add: get_list_def\<close>)
  have "slab_live s m' = slab_live s m" by (rule slab_live_cong [OF L]) (use d L' in simp_all)
  moreover have "slab_inv s m'" unfolding slab_inv_def using d L' nl by auto
  ultimately show ?thesis by simp
qed

subsection \<open>Properties\<close>

text \<open>
  C13: looking an object up in well-formed capability spaces always returns, and follows the
  naming graph: the entry found is the one the base-256 digits of the number lead to, it lies
  in a table of one of the spaces, and \<^verbatim>\<open>NULL\<close> is returned when the digits go on past an entry
  that is not a capability space.
\<close>

theorem cap_lookup_refines:
  assumes "caps_wf k S" and "sp \<in> S"
  shows "cap_space_lookup k sp object =
      Some (case cap_resolve (cap_graph k) sp (unat object) of None \<Rightarrow> NULL
            | Some (sp', d) \<Rightarrow> cap_slot (cap_tbl k sp') (of_nat d)) \<and>
    (\<forall>sp' d. cap_resolve (cap_graph k) sp (unat object) = Some (sp', d) \<longrightarrow> sp' \<in> S \<and> d < 256)"
  using cap_table_lookup_resolve [OF assms] caps_wfD(1) [OF assms] by (simp add: cap_space_lookup_def)

text \<open>
  C14: inserting a capability; one for a capability space is for one of the well-formed spaces.
  Without the modify right on the space, or when the table is full, the answer is
  \<^verbatim>\<open>CAP_INVALID_OBJECT\<close> and nothing changes. Otherwise the first unused entry, never entry 0, is filled
  and no other entry changes. If the capability is not a space, a lookup of the number returned finds
  the entry filled. If it is one, the number leads into that space: alone it finds the space's own
  entry 0, and with further digits what those name from the space.
\<close>

theorem cap_insert_lookup:
  assumes wf: "caps_wf k S" and sp: "sp \<in> S"
    and ty: "ce_type entry \<noteq> CAP_TYPE_NULL" "ce_type entry = CAP_TYPE_CAP_SPACE \<longrightarrow> ce_object entry \<in> S"
  shows "\<exists>i k'. cap_space_insert sp entry k = Some (i, k') \<and> caps_wf k' S \<and>
    (if ce_permissions (k_caps k (cap_tbl k sp)) AND CAP_MODIFY = 0 \<or>
        (\<forall>j. unat j < 256 \<longrightarrow> ce_type (k_caps k (cap_slot (cap_tbl k sp) j)) \<noteq> CAP_TYPE_NULL)
     then i = CAP_INVALID_OBJECT \<and> k' = k
     else i \<noteq> 0 \<and> unat i < 256 \<and> ce_type (k_caps k (cap_slot (cap_tbl k sp) i)) = CAP_TYPE_NULL \<and>
       (\<forall>j < i. ce_type (k_caps k (cap_slot (cap_tbl k sp) j)) \<noteq> CAP_TYPE_NULL) \<and>
       k_caps k' = (k_caps k)(cap_slot (cap_tbl k sp) i := entry) \<and>
       (if ce_type entry = CAP_TYPE_CAP_SPACE
        then cap_space_lookup k' sp i = Some (cap_tbl k (ce_object entry)) \<and>
          (\<forall>n. unat n < 2 ^ 24 \<longrightarrow>
            cap_space_lookup k' sp (i + 256 * n) = cap_space_lookup k' (ce_object entry) n)
        else cap_space_lookup k' sp i = Some (cap_slot (cap_tbl k sp) i)))"
  using wf sp ty(2)
proof (cases rule: cap_space_insert_any)
  case refused
  then show ?thesis using wf by auto
next
  case (slot j)
  let ?k = "upd_cap (cap_slot (cap_tbl k sp) j) (\<lambda>_. entry) k"
  have "if ce_type entry = CAP_TYPE_CAP_SPACE
    then cap_space_lookup ?k sp j = Some (cap_tbl k (ce_object entry)) \<and>
      (\<forall>n. unat n < 2 ^ 24 \<longrightarrow> cap_space_lookup ?k sp (j + 256 * n) = cap_space_lookup ?k (ce_object entry) n)
    else cap_space_lookup ?k sp j = Some (cap_slot (cap_tbl k sp) j)"
    using cap_space_lookup_slot [OF slot(7) sp slot(3)]
      cap_space_lookup_sub [OF slot(7) sp slot(3,4), of entry] cap_space_lookup_sub(2) [OF slot(7) sp slot(3,4), of entry 0]
    by simp
  then show ?thesis using slot by (intro exI [of _ j] exI [of _ ?k]) auto
qed

text \<open>
  C4: \<^verbatim>\<open>cap_space_restrict\<close> can only take rights away. It returns; no entry gains a permission or
  changes its type or object; when it succeeds, exactly the entry looked up is left with the
  permissions asked for, and the space that owns that entry has the modify right.
\<close>

theorem cap_restrict_shrinks:
  assumes wf: "caps_wf k S" and sp: "sp \<in> S"
  shows "\<exists>b k'. cap_space_restrict sp object p k = Some (b, k') \<and>
    (\<forall>e. ce_permissions (k_caps k' e) AND ce_permissions (k_caps k e) = ce_permissions (k_caps k' e) \<and>
       ce_type (k_caps k' e) = ce_type (k_caps k e) \<and> ce_object (k_caps k' e) = ce_object (k_caps k e)) \<and>
    (if b then \<exists>sp' \<in> S. \<exists>e. cap_space_lookup k sp object = Some e \<and> e \<noteq> NULL \<and>
        cap_entry_root_space k e = sp' \<and>
        ce_permissions (k_caps k (cap_tbl k sp')) AND CAP_MODIFY \<noteq> 0 \<and>
        k_caps k' = (k_caps k)(e := (k_caps k e)\<lparr>ce_permissions := p\<rparr>)
     else k' = k)"
  using wf sp
proof (cases rule: cap_space_lookup_cases [where object = object])
  case missing
  then have "cap_space_restrict sp object p k = Some (False, k)" by (simp add: cap_space_restrict_def)
  then show ?thesis by auto
next
  case (found sp' i)
  let ?e = "cap_slot (cap_tbl k sp') i"
  consider "ce_permissions (k_caps k (cap_tbl k sp')) AND CAP_MODIFY = 0"
    | "ce_permissions (k_caps k (cap_tbl k sp')) AND CAP_MODIFY \<noteq> 0"
      "ce_permissions (k_caps k ?e) AND p \<noteq> p"
    | "ce_permissions (k_caps k (cap_tbl k sp')) AND CAP_MODIFY \<noteq> 0"
      "ce_permissions (k_caps k ?e) AND p = p" by blast
  then show ?thesis
  proof cases
    case 1
    then have "cap_space_restrict sp object p k = Some (False, k)"
      using found by (simp add: cap_space_restrict_def)
    then show ?thesis by auto
  next
    case 2
    then have "cap_space_restrict sp object p k = Some (False, k)"
      using found by (simp add: cap_space_restrict_def)
    then show ?thesis by auto
  next
    case 3
    then have "cap_space_restrict sp object p k =
        Some (True, upd_cap ?e (ce_permissions_update (\<lambda>_. p)) k)"
      using found by (simp add: cap_space_restrict_def)
    then show ?thesis using 3 found by (auto simp: and.commute intro!: bexI [of _ sp'])
  qed
qed

text \<open>
  Replacing and removing an entry are governed by the space that owns the table the entry
  lies in, also when it was reached through other spaces: with the modify right exactly that
  entry is overwritten, or its type cleared; without it, or when nothing is found, the answer
  is false and nothing changes.
\<close>

theorem cap_owner_checked:
  assumes wf: "caps_wf k S" and sp: "sp \<in> S"
  shows "\<exists>e. cap_space_lookup k sp object = Some e \<and>
    (if e \<noteq> NULL \<and> ce_permissions (k_caps k (cap_tbl k (cap_entry_root_space k e))) AND CAP_MODIFY \<noteq> 0
     then cap_space_replace sp object entry k = Some (True, upd_cap e (\<lambda>_. entry) k) \<and>
       cap_space_remove sp object k = Some (True, upd_cap e (ce_type_update (\<lambda>_. CAP_TYPE_NULL)) k)
     else cap_space_replace sp object entry k = Some (False, k) \<and>
       cap_space_remove sp object k = Some (False, k))"
  using wf sp
proof (cases rule: cap_space_lookup_cases [where object = object])
  case missing
  then show ?thesis by (simp add: cap_space_replace_def cap_space_remove_def)
next
  case (found sp' i)
  then show ?thesis by (simp add: cap_space_replace_def cap_space_remove_def)
qed

text \<open>
  Removing a capability space from a table does not remove it. When entry \<open>i\<close> of a space
  holds another space whose root entry has the modify right, \<^verbatim>\<open>cap_space_remove\<close> reports success
  but leaves entry \<open>i\<close> as it is and clears the type of the other space's own entry 0; the next
  insertion into that space then overwrites its root entry and returns \<^verbatim>\<open>CAP_INVALID_OBJECT\<close>.
\<close>

theorem cap_remove_clears_subspace_root:
  assumes wf: "caps_wf k S" and sp: "sp \<in> S" and i: "unat i < 256" "i \<noteq> 0"
    and e: "k_caps k (cap_slot (cap_tbl k sp) i) = c" "ce_type c = CAP_TYPE_CAP_SPACE"
    and m: "ce_permissions (k_caps k (cap_tbl k (ce_object c))) AND CAP_MODIFY \<noteq> 0"
  shows "\<exists>k'. cap_space_remove sp i k = Some (True, k') \<and>
    (ce_object c \<noteq> sp \<longrightarrow> k_caps k' (cap_slot (cap_tbl k sp) i) = c) \<and>
    ce_type (k_caps k' (cap_tbl k (ce_object c))) = CAP_TYPE_NULL \<and>
    (\<exists>k2. cap_space_insert (ce_object c) entry k' = Some (CAP_INVALID_OBJECT, k2) \<and>
       k_caps k2 (cap_tbl k (ce_object c)) = entry)"
proof -
  let ?s = "ce_object c" and ?t = "cap_tbl k (ce_object c)"
  have s: "?s \<in> S" using caps_wfD(6) [OF wf sp i(1)] e by simp
  note w = caps_wfD [OF wf s] and w1 = caps_wfD [OF wf sp]
  have dm: "i div 256 = 0" "i mod 256 = i" using i(1) by (simp_all add: word_unat_eq_iff unat_div unat_mod)
  have "cap_table_lookup k ?t 0 = Some ?t" using w(2) by (simp add: cap_table_lookup.simps [of k _ 0])
  then have l: "cap_space_lookup k sp i = Some ?t"
    using dm i(2) e w(1) w1(1,2) by (simp add: cap_space_lookup_def cap_table_lookup.simps [of k _ i] Let_def)
  have "?t AND NOT (PAGE_SIZE - 1) = ?t" using page_of_slot [OF w(3), of 0] by simp
  then have own: "cap_owner_entry k ?t = Some (k_caps k ?t)"
    using w(1,2,5) by (simp add: cap_owner_entry_def cap_entry_root_space_def cap_space_root_entry_def read_cap_def)
  let ?k' = "upd_cap ?t (ce_type_update (\<lambda>_. CAP_TYPE_NULL)) k"
  have rm: "cap_space_remove sp i k = Some (True, ?k')"
    using l own m w(2) by (simp add: cap_space_remove_def)
  have ne: "cap_slot (cap_tbl k sp) i \<noteq> ?t"
    using cap_slot_eq_iff [OF w1(3) i(1) w(3), of 0] i(2) by simp
  have "cap_space_insert ?s entry ?k' = Some (CAP_INVALID_OBJECT, upd_cap ?t (\<lambda>_. entry) ?k')"
    using w(1,2) m
    by (simp add: cap_space_insert_def cap_space_root_entry_def read_cap_def cap_table_insert_def
        cap_table_insert_from.simps [of 0] CAP_INVALID_OBJECT_def)
  then show ?thesis using rm ne e(1) by auto
qed

text \<open>
  a new capability space: its space object and table page are fresh, it owns its table, and
  the existing spaces are untouched; entries 1 to 255 of its table hold whatever was in the
  page before.
\<close>

theorem cap_space_create_owns:
  assumes wf: "caps_wf k S" and inv: "slab_inv cap_space_slab (k_mm k)"
    and live: "S \<subseteq> slab_live cap_space_slab (k_mm k)"
      "\<forall>s \<in> S. cap_tbl k s \<in> region_live (mm_region (k_mm k))"
    and c: "cap_space_create k = Some (sp, k')" "sp \<noteq> NULL"
  shows "sp \<notin> S \<and> space_ok k' sp \<and> caps_wf k' S \<and> cap_tbl k' sp \<notin> cap_tbl k ` S \<and>
    sp \<in> slab_live cap_space_slab (k_mm k') \<and>
    ce_permissions (k_caps k' (cap_tbl k' sp)) = cap_all_rights \<and>
    (\<forall>e. e \<noteq> cap_tbl k' sp \<longrightarrow> k_caps k' e = k_caps k e)"
proof -
  from c obtain m1 t m2 where a: "slab_alloc cap_space_slab (k_mm k) = Some (sp, m1)"
    and g: "global_alloc m1 = Some (t, m2)" and t: "t \<noteq> NULL"
    and k': "k' = upd_cap t (\<lambda>_. \<lparr>ce_type = CAP_TYPE_CAP_SPACE, ce_permissions = cap_all_rights, ce_object = sp\<rparr>)
      (k\<lparr>k_mm := m2, k_cap_spaces := (k_cap_spaces k)(sp := (k_cap_spaces k sp)\<lparr>cs_table := t\<rparr>)\<rparr>)"
    by (auto simp: cap_space_create_def k_slab_alloc_def k_global_alloc_def cap_table_replace_def Let_def
        elim!: bind_eq_SomeE split: if_splits)
  note al = slab_alloc_ok [OF inv a]
  have spS: "sp \<notin> S" using al live(1) by auto
  note gd = global_allocD [OF _ g]
  have r1: "region_inv (mm_region m1)" using al by blast
  have tl: "t \<notin> region_live (mm_region m1)" "t \<in> region_live (mm_region m2)" using gd(6) [OF r1 t] by auto
  have al_t: "unat t mod 4096 = 0" "t \<notin> cap_tbl k ` S"
  proof -
    show "unat t mod 4096 = 0" using tl(2) page_addr_aligned gd(1) [OF r1] by (auto simp: region_live_def)
    show "t \<notin> cap_tbl k ` S" using tl(1) live(2) al by blast
  qed
  have slab: "slab_inv cap_space_slab m1" using al by blast
  have "sp \<in> slab_live cap_space_slab m2" using global_alloc_slab [OF slab g] al by auto
  moreover have tbl: "cap_tbl k' s = (if s = sp then t else cap_tbl k s)" for s by (simp add: k')
  moreover have "caps_wf k' S"
  proof -
    have ne: "cap_slot (cap_tbl k s) i \<noteq> t" if "s \<in> S" "unat i < 256" for s i
      using cap_slot_eq_iff [OF caps_wfD(3) [OF wf that(1)] that(2) al_t(1), of 0] al_t(2) that(1) by auto
    have "k_caps k' (cap_slot (cap_tbl k s) i) = k_caps k (cap_slot (cap_tbl k s) i)"
      if "s \<in> S" "unat i < 256" for s i using ne [OF that] by (simp add: k')
    moreover from this [of _ 0] have "k_caps k' (cap_tbl k s) = k_caps k (cap_tbl k s)" if "s \<in> S" for s
      using that by simp
    moreover have "cap_tbl k' s = cap_tbl k s" if "s \<in> S" for s using that spS tbl by auto
    ultimately show ?thesis using wf by (simp add: caps_wf_def space_ok_def)
  qed
  ultimately show ?thesis
    using spS al_t t c(2) by (simp add: k' space_ok_def)
qed

subsection \<open>Concrete spaces\<close>

text \<open>
  Two spaces in the boot memory: the first has a thread in entry 1 and the second space in entry
  2, the second has a physical memory frame in entry 1.
\<close>

definition boot_kcap :: kcap where
  "boot_kcap =
     \<lparr>k_mm = boot_mm, k_nodes = k_nodes boot_kq, k_queue_init = True,
      k_caps = (\<lambda>_. \<lparr>ce_type = CAP_TYPE_NULL, ce_permissions = 0, ce_object = NULL\<rparr>)
        (0xd0010000 := \<lparr>ce_type = CAP_TYPE_CAP_SPACE, ce_permissions = 15, ce_object = 0x1000\<rparr>,
         0xd0010010 := \<lparr>ce_type = CAP_TYPE_THREAD, ce_permissions = 3, ce_object = 0x5000\<rparr>,
         0xd0010020 := \<lparr>ce_type = CAP_TYPE_CAP_SPACE, ce_permissions = 1, ce_object = 0x2000\<rparr>,
         0xd0011000 := \<lparr>ce_type = CAP_TYPE_CAP_SPACE, ce_permissions = 15, ce_object = 0x2000\<rparr>,
         0xd0011010 := \<lparr>ce_type = CAP_TYPE_PHYS_MEMORY, ce_permissions = 7, ce_object = 0x6000\<rparr>),
      k_cap_spaces = (\<lambda>_. \<lparr>cs_table = NULL, cs_references = 0\<rparr>)
        (0x1000 := \<lparr>cs_table = 0xd0010000, cs_references = 1\<rparr>,
         0x2000 := \<lparr>cs_table = 0xd0011000, cs_references = 1\<rparr>),
      k_cap_init = True\<rparr>"

lemma boot_kcap_simps:
  "k_mm boot_kcap = boot_mm"
  "cap_tbl boot_kcap 0x1000 = 0xd0010000" "cap_tbl boot_kcap 0x2000 = 0xd0011000"
  by (simp_all add: boot_kcap_def)

lemma boot_caps:
  "k_caps boot_kcap e = (if e = 0xd0010000 then \<lparr>ce_type = CAP_TYPE_CAP_SPACE, ce_permissions = 15, ce_object = 0x1000\<rparr>
    else if e = 0xd0010010 then \<lparr>ce_type = CAP_TYPE_THREAD, ce_permissions = 3, ce_object = 0x5000\<rparr>
    else if e = 0xd0010020 then \<lparr>ce_type = CAP_TYPE_CAP_SPACE, ce_permissions = 1, ce_object = 0x2000\<rparr>
    else if e = 0xd0011000 then \<lparr>ce_type = CAP_TYPE_CAP_SPACE, ce_permissions = 15, ce_object = 0x2000\<rparr>
    else if e = 0xd0011010 then \<lparr>ce_type = CAP_TYPE_PHYS_MEMORY, ce_permissions = 7, ce_object = 0x6000\<rparr>
    else \<lparr>ce_type = CAP_TYPE_NULL, ce_permissions = 0, ce_object = NULL\<rparr>)"
  by (simp add: boot_kcap_def)

lemma boot_caps_wf: "caps_wf boot_kcap {0x1000, 0x2000}"
proof -
  have "ce_type (k_caps boot_kcap e) = CAP_TYPE_CAP_SPACE \<Longrightarrow> ce_object (k_caps boot_kcap e) \<in> {0x1000, 0x2000}"
    for e by (auto simp: boot_caps c4_enum split: if_splits)
  moreover have "space_ok boot_kcap 0x1000" "space_ok boot_kcap 0x2000"
    by (simp_all add: space_ok_def boot_kcap_simps boot_caps)
  ultimately show ?thesis by (auto simp: caps_wf_def)
qed

text \<open>C13: from the first space, \<^verbatim>\<open>0x102\<close> names entry 1 of the second.\<close>

theorem cap_lookup_refines_witness: "cap_space_lookup boot_kcap 0x1000 0x102 = Some 0xd0011010"
proof -
  have "cap_resolve (cap_graph boot_kcap) 0x1000 0x102 = Some (0x2000, 1)"
    by (simp add: cap_resolve.simps cap_graph_def boot_kcap_simps boot_caps cap_slot_def
        sizeof_cap_entry_t_def c4_enum)
  then show ?thesis
    using cap_lookup_refines [OF boot_caps_wf, of "0x1000" "0x102"]
    by (simp add: boot_kcap_simps cap_slot_def sizeof_cap_entry_t_def)
qed

text \<open>
  C14: an endpoint goes into an entry of the first space and is found there; a second capability for
  the space \<^verbatim>\<open>0x2000\<close> leads to that space's own entry 0.
\<close>

theorem cap_insert_lookup_witness:
  "(\<exists>i k'. cap_space_insert 0x1000 \<lparr>ce_type = CAP_TYPE_IPC_SYNC_ENDPOINT, ce_permissions = 3, ce_object = 0x7000\<rparr> boot_kcap =
      Some (i, k') \<and> i \<noteq> 0 \<and> cap_space_lookup k' 0x1000 i = Some (cap_slot 0xd0010000 i)) \<and>
   (\<exists>i k'. cap_space_insert 0x1000 \<lparr>ce_type = CAP_TYPE_CAP_SPACE, ce_permissions = 1, ce_object = 0x2000\<rparr> boot_kcap =
      Some (i, k') \<and> i \<noteq> 0 \<and> cap_space_lookup k' 0x1000 i = Some 0xd0011000)"
proof -
  let ?t = "cap_tbl boot_kcap 0x1000"
  have "ce_type (k_caps boot_kcap (cap_slot ?t 3)) = CAP_TYPE_NULL"
    by (simp add: boot_caps boot_kcap_simps cap_slot_def sizeof_cap_entry_t_def)
  moreover have "unat (3 :: u32) < 256" by simp
  moreover have "ce_permissions (k_caps boot_kcap ?t) AND CAP_MODIFY \<noteq> 0"
    by (simp add: boot_caps boot_kcap_simps c4_enum)
  ultimately have n: "\<not> (ce_permissions (k_caps boot_kcap ?t) AND CAP_MODIFY = 0 \<or>
      (\<forall>j. unat j < 256 \<longrightarrow> ce_type (k_caps boot_kcap (cap_slot ?t j)) \<noteq> CAP_TYPE_NULL))" by blast
  note n' = n [unfolded boot_kcap_simps(2)]
  let ?e = "\<lparr>ce_type = CAP_TYPE_IPC_SYNC_ENDPOINT, ce_permissions = 3, ce_object = 0x7000\<rparr>"
  let ?s = "\<lparr>ce_type = CAP_TYPE_CAP_SPACE, ce_permissions = 1, ce_object = 0x2000\<rparr>"
  have e: "ce_type ?e \<noteq> CAP_TYPE_NULL" "ce_type ?e = CAP_TYPE_CAP_SPACE \<longrightarrow> ce_object ?e \<in> {0x1000, 0x2000}"
    "ce_type ?e \<noteq> CAP_TYPE_CAP_SPACE" by (simp_all add: c4_enum)
  have s: "ce_type ?s \<noteq> CAP_TYPE_NULL" "ce_type ?s = CAP_TYPE_CAP_SPACE \<longrightarrow> ce_object ?s \<in> {0x1000, 0x2000}"
    "ce_type ?s = CAP_TYPE_CAP_SPACE"
    "cap_tbl boot_kcap (ce_object ?s) = 0xd0011000" by (simp_all add: c4_enum boot_kcap_simps)
  have sp: "0x1000 \<in> {0x1000, 0x2000 :: ptr}" by simp
  note ce = cap_insert_lookup [OF boot_caps_wf sp e(1,2), unfolded boot_kcap_simps(2) if_not_P [OF n'] if_not_P [OF e(3)]]
  note cs = cap_insert_lookup [OF boot_caps_wf sp s(1,2), unfolded boot_kcap_simps(2) if_not_P [OF n'] if_P [OF s(3)] s(4)]
  show ?thesis using ce cs by blast
qed

text \<open>C4: the frame reached through the second space is restricted to read access.\<close>

theorem cap_restrict_shrinks_witness:
  "\<exists>k'. cap_space_restrict 0x1000 0x102 CAP_ACCESS boot_kcap = Some (True, k') \<and>
    ce_permissions (k_caps k' 0xd0011010) = CAP_ACCESS"
proof -
  have r: "map_option fst (cap_space_restrict 0x1000 0x102 CAP_ACCESS boot_kcap) = Some True"
    by (simp add: cap_space_restrict_def cap_space_lookup_def cap_table_lookup.simps Let_def boot_kcap_simps
        boot_caps cap_slot_def sizeof_cap_entry_t_def c4_enum cap_owner_entry_def cap_entry_root_space_def
        cap_space_root_entry_def read_cap_def PAGE_SIZE_def)
  have l: "cap_space_lookup boot_kcap 0x1000 0x102 = Some 0xd0011010"
    by (simp add: cap_space_lookup_def cap_table_lookup.simps Let_def boot_kcap_simps
        boot_caps cap_slot_def sizeof_cap_entry_t_def c4_enum)
  from cap_restrict_shrinks [OF boot_caps_wf, of "0x1000" "0x102" CAP_ACCESS] obtain b k' where
    k': "cap_space_restrict 0x1000 0x102 CAP_ACCESS boot_kcap = Some (b, k')"
    and b: "b \<Longrightarrow> \<exists>e. cap_space_lookup boot_kcap 0x1000 0x102 = Some e \<and>
      k_caps k' = (k_caps boot_kcap)(e := (k_caps boot_kcap e)\<lparr>ce_permissions := CAP_ACCESS\<rparr>)"
    by (auto split: if_splits)
  have "b" using r k' by simp
  with b l have "ce_permissions (k_caps k' 0xd0011010) = CAP_ACCESS" by auto
  with k' \<open>b\<close> show ?thesis by auto
qed

text \<open>An instance: the thread in entry 1 of the first space is replaced and removed.\<close>

theorem cap_owner_checked_witness:
  "\<exists>e. cap_space_lookup boot_kcap 0x1000 1 = Some e \<and>
    cap_space_remove 0x1000 1 boot_kcap = Some (True, upd_cap e (ce_type_update (\<lambda>_. CAP_TYPE_NULL)) boot_kcap)"
proof -
  have l: "cap_space_lookup boot_kcap 0x1000 1 = Some 0xd0010010"
    by (simp add: cap_space_lookup_def cap_table_lookup.simps Let_def boot_kcap_simps
        boot_caps cap_slot_def sizeof_cap_entry_t_def c4_enum)
  have "cap_entry_root_space boot_kcap 0xd0010010 = 0x1000"
    by (simp add: cap_entry_root_space_def PAGE_SIZE_def boot_caps)
  then show ?thesis
    using cap_owner_checked [OF boot_caps_wf, of "0x1000" 1] l
    by (simp add: boot_kcap_simps boot_caps c4_enum)
qed

text \<open>An instance: the second space is removed from entry 2 of the first.\<close>

theorem cap_remove_clears_subspace_root_witness:
  "\<exists>k'. cap_space_remove 0x1000 2 boot_kcap = Some (True, k') \<and>
    ce_type (k_caps k' 0xd0010020) = CAP_TYPE_CAP_SPACE \<and> ce_type (k_caps k' 0xd0011000) = CAP_TYPE_NULL"
proof -
  let ?c = "\<lparr>ce_type = CAP_TYPE_CAP_SPACE, ce_permissions = 1, ce_object = 0x2000\<rparr>"
  have s: "cap_slot (cap_tbl boot_kcap 0x1000) 2 = 0xd0010020"
    by (simp add: boot_kcap_simps cap_slot_def sizeof_cap_entry_t_def)
  have c: "k_caps boot_kcap (cap_slot (cap_tbl boot_kcap 0x1000) 2) = ?c" unfolding s by (simp add: boot_caps)
  have m: "ce_permissions (k_caps boot_kcap (cap_tbl boot_kcap (ce_object ?c))) AND CAP_MODIFY \<noteq> 0"
    by (simp add: boot_kcap_simps boot_caps c4_enum)
  from cap_remove_clears_subspace_root [OF boot_caps_wf _ _ _ c _ m] obtain k' where
    "cap_space_remove 0x1000 2 boot_kcap = Some (True, k')"
    "k_caps k' (cap_slot (cap_tbl boot_kcap 0x1000) 2) = ?c"
    "ce_type (k_caps k' (cap_tbl boot_kcap 0x2000)) = CAP_TYPE_NULL" by auto
  then show ?thesis unfolding s by (auto simp: boot_kcap_simps)
qed

text \<open>a space created in the boot state.\<close>

theorem cap_space_create_owns_witness:
  "\<exists>sp k'. cap_space_create boot_kcap = Some (sp, k') \<and> sp \<noteq> NULL \<and> space_ok k' sp"
proof -
  have "case cap_space_create boot_kcap of None \<Rightarrow> False | Some (sp, k') \<Rightarrow> sp \<noteq> NULL" by code_simp
  then obtain sp k' where c: "cap_space_create boot_kcap = Some (sp, k')" "sp \<noteq> NULL"
    by (auto split: option.splits)
  have "caps_wf boot_kcap {}" by (simp add: caps_wf_def)
  moreover have "slab_inv cap_space_slab (k_mm boot_kcap)" by (simp add: boot_kcap_simps boot_slab)
  ultimately show ?thesis using cap_space_create_owns [of boot_kcap "{}", OF _ _ _ _ c] c by auto
qed

end
