(* ===== verification/C4_Andtree.thy ===== *)
theory C4_Andtree
  imports C4_Capability
begin

text \<open>
  The Andersson tree of \<^verbatim>\<open>src/klib/andtree.c\<close>, which holds the scheduler's run and sleep queues:
  a balanced binary search tree of slab-allocated nodes with parent pointers, a sentinel in
  place of missing children, and levels that bound its height.

  The functions are translated at pointer level, on a heap of nodes. The \<^verbatim>\<open>get_key\<close> function
  pointer of a tree is an argument: the key of a data pointer as a 64-bit word, compared as a
  signed difference. Loops that follow pointers, and the recursions, are partial functions into
  \<open>option\<close>: \<open>None\<close> is a null dereference or a loop that does not end.
\<close>

record c4_anode_t =
  an_parent :: ptr
  an_left :: ptr
  an_right :: ptr
  an_level :: u32
  an_data :: ptr

record c4_atree_t =
  at_root :: ptr
  at_nodes :: u32

type_synonym get_key_t = "ptr \<Rightarrow> u64"

record katree = kcap +
  k_anodes :: "c4_anode_t heap"
  k_atree_init :: bool

text \<open>The address of the static object \<^verbatim>\<open>sentinel\<close>, in the kernel image.\<close>

definition sentinel :: ptr where "sentinel = 0xfd030000"

definition LEFT :: bool where "LEFT = False"
definition RIGHT :: bool where "RIGHT = True"

text \<open>\<^verbatim>\<open>node->leaves[i]\<close>.\<close>

definition leaves :: "c4_anode_t \<Rightarrow> bool \<Rightarrow> ptr" where
  "leaves n i = (if i = LEFT then an_left n else an_right n)"

definition set_leaf :: "bool \<Rightarrow> ptr \<Rightarrow> c4_anode_t \<Rightarrow> c4_anode_t" where
  "set_leaf i p n = (if i = LEFT then n\<lparr>an_left := p\<rparr> else n\<lparr>an_right := p\<rparr>)"

definition deref :: "ptr \<Rightarrow> 'a katree_scheme \<Rightarrow> c4_anode_t option" where
  "deref p k = (if p = NULL then None else Some (k_anodes k p))"

definition upd_anode :: "ptr \<Rightarrow> (c4_anode_t \<Rightarrow> c4_anode_t) \<Rightarrow> 'a katree_scheme \<Rightarrow> 'a katree_scheme option" where
  "upd_anode p f k =
     (if p = NULL then None else Some (k\<lparr>k_anodes := (k_anodes k)(p := f (k_anodes k p))\<rparr>))"

definition is_nil :: "ptr \<Rightarrow> 'a katree_scheme \<Rightarrow> bool" where
  "is_nil node k \<longleftrightarrow> node = NULL \<or> an_level (k_anodes k node) = 0"

definition parentside :: "ptr \<Rightarrow> 'a katree_scheme \<Rightarrow> bool" where
  "parentside node k =
     (if node = NULL \<or> an_parent (k_anodes k node) = NULL then RIGHT
      else an_left (k_anodes k (an_parent (k_anodes k node))) \<noteq> node)"

definition direction :: "u64 \<Rightarrow> bool" where
  "direction n \<longleftrightarrow> \<not> (sint n \<le> 0)"

definition atree_compare :: "get_key_t \<Rightarrow> u64 \<Rightarrow> ptr \<Rightarrow> 'a katree_scheme \<Rightarrow> u64 option" where
  "atree_compare get_key key node k = do {
     n \<leftarrow> deref node k;
     Some (key - get_key (an_data n))
   }"

subsection \<open>Searching\<close>

partial_function (option) leftmost :: "ptr \<Rightarrow> 'a katree_scheme \<Rightarrow> ptr option" where [code]:
  "leftmost node k = do {
     n \<leftarrow> deref node k;
     if \<not> is_nil (leaves n LEFT) k then leftmost (leaves n LEFT) k else Some node
   }"

definition find_min_node :: "ptr \<Rightarrow> 'a katree_scheme \<Rightarrow> ptr option" where
  "find_min_node node k = do {
     n \<leftarrow> deref node k;
     if an_level n = 0 then Some NULL else leftmost node k
   }"

partial_function (option) rightmost :: "ptr \<Rightarrow> 'a katree_scheme \<Rightarrow> ptr option" where [code]:
  "rightmost node k = do {
     n \<leftarrow> deref node k;
     if \<not> is_nil (leaves n RIGHT) k then rightmost (leaves n RIGHT) k else Some node
   }"

definition find_max_node :: "ptr \<Rightarrow> 'a katree_scheme \<Rightarrow> ptr option" where
  "find_max_node node k = (if is_nil node k then Some NULL else rightmost node k)"

partial_function (option) find_key_from :: "get_key_t \<Rightarrow> ptr \<Rightarrow> u64 \<Rightarrow> 'a katree_scheme \<Rightarrow> ptr option" where [code]:
  "find_key_from get_key temp key k =
     (if \<not> is_nil temp k
      then do {
        diff \<leftarrow> atree_compare get_key key temp k;
        if diff = 0 then Some temp
        else find_key_from get_key (leaves (k_anodes k temp) (direction diff)) key k
      }
      else Some NULL)"

definition atree_find_key :: "get_key_t \<Rightarrow> c4_atree_t \<Rightarrow> u64 \<Rightarrow> 'a katree_scheme \<Rightarrow> ptr option" where
  "atree_find_key get_key tree key k = find_key_from get_key (at_root tree) key k"

partial_function (option) atree_find_dupe_data ::
  "get_key_t \<Rightarrow> ptr \<Rightarrow> ptr \<Rightarrow> 'a katree_scheme \<Rightarrow> ptr option" where [code]:
  "atree_find_dupe_data get_key node data k =
     (if is_nil node k then Some NULL
      else if an_data (k_anodes k node) = data then Some node
      else do {
        diff \<leftarrow> atree_compare get_key (get_key data) node k;
        a \<leftarrow> (if diff = 0
              then do {
                a0 \<leftarrow> atree_find_dupe_data get_key (leaves (k_anodes k node) LEFT) data k;
                if a0 \<noteq> NULL then Some a0
                else atree_find_dupe_data get_key (leaves (k_anodes k node) RIGHT) data k
              }
              else Some NULL);
        if a \<noteq> NULL then Some a
        else atree_find_dupe_data get_key (leaves (k_anodes k node) (direction diff)) data k
      })"

partial_function (option) find_data_from :: "get_key_t \<Rightarrow> ptr \<Rightarrow> ptr \<Rightarrow> 'a katree_scheme \<Rightarrow> ptr option" where [code]:
  "find_data_from get_key temp data k =
     (if \<not> is_nil temp k
      then do {
        diff \<leftarrow> atree_compare get_key (get_key data) temp k;
        if diff = 0 then atree_find_dupe_data get_key temp data k
        else find_data_from get_key (leaves (k_anodes k temp) (direction diff)) data k
      }
      else Some NULL)"

definition atree_find_data :: "get_key_t \<Rightarrow> c4_atree_t \<Rightarrow> ptr \<Rightarrow> 'a katree_scheme \<Rightarrow> ptr option" where
  "atree_find_data get_key tree data k = find_data_from get_key (at_root tree) data k"

partial_function (option) do_find_at_least :: "get_key_t \<Rightarrow> ptr \<Rightarrow> u64 \<Rightarrow> 'a katree_scheme \<Rightarrow> ptr option" where [code]:
  "do_find_at_least get_key node key k =
     (if is_nil node k then Some NULL
      else do {
        diff \<leftarrow> atree_compare get_key key node k;
        let dir = direction diff;
        if diff = 0 then Some node
        else do {
          temp \<leftarrow> do_find_at_least get_key (leaves (k_anodes k node) dir) key k;
          if sint diff < 0
          then (if temp \<noteq> NULL
                then do {
                  d \<leftarrow> atree_compare get_key key temp k;
                  Some (if sint d > sint diff then temp else node)
                }
                else Some node)
          else Some temp
        }
      })"

definition atree_find_at_least :: "get_key_t \<Rightarrow> c4_atree_t \<Rightarrow> u64 \<Rightarrow> 'a katree_scheme \<Rightarrow> ptr option" where
  "atree_find_at_least get_key tree key k = do_find_at_least get_key (at_root tree) key k"

definition atree_start :: "c4_atree_t \<Rightarrow> 'a katree_scheme \<Rightarrow> ptr option" where
  "atree_start tree k = find_min_node (at_root tree) k"

definition atree_end :: "c4_atree_t \<Rightarrow> 'a katree_scheme \<Rightarrow> ptr option" where
  "atree_end tree k = find_max_node (at_root tree) k"

text \<open>The climbing loop of \<^verbatim>\<open>atree_next\<close> and \<^verbatim>\<open>atree_previous\<close>.\<close>

partial_function (option) climb :: "bool \<Rightarrow> ptr \<Rightarrow> ptr \<Rightarrow> 'a katree_scheme \<Rightarrow> ptr option" where [code]:
  "climb side lst p k =
     (if \<not> is_nil p k \<and> leaves (k_anodes k p) side = lst
      then climb side p (an_parent (k_anodes k p)) k
      else Some p)"

definition atree_next :: "ptr \<Rightarrow> 'a katree_scheme \<Rightarrow> ptr option" where
  "atree_next node k =
     (if node = NULL then Some node
      else do {
        right \<leftarrow> find_min_node (leaves (k_anodes k node) RIGHT) k;
        if \<not> is_nil right k then Some right
        else climb RIGHT node (an_parent (k_anodes k node)) k
      })"

definition atree_previous :: "ptr \<Rightarrow> 'a katree_scheme \<Rightarrow> ptr option" where
  "atree_previous node k =
     (if node = NULL then Some node
      else do {
        left \<leftarrow> find_max_node (leaves (k_anodes k node) LEFT) k;
        if \<not> is_nil left k then Some left
        else climb LEFT node (an_parent (k_anodes k node)) k
      })"

subsection \<open>Rotations and rebalancing\<close>

definition replace_in_parent :: "ptr \<Rightarrow> ptr \<Rightarrow> 'a katree_scheme \<Rightarrow> 'a katree_scheme option" where
  "replace_in_parent node val k = do {
     n \<leftarrow> deref node k;
     k1 \<leftarrow> (if an_parent n \<noteq> NULL then upd_anode (an_parent n) (set_leaf (parentside node k) val) k
            else Some k);
     if \<not> is_nil val k1
     then upd_anode val (an_parent_update (\<lambda>_. an_parent (k_anodes k1 node))) k1
     else Some k1
   }"

definition rotate :: "ptr \<Rightarrow> bool \<Rightarrow> c4_atree_t \<Rightarrow> 'a katree_scheme \<Rightarrow> (ptr \<times> c4_atree_t \<times> 'a katree_scheme) option" where
  "rotate node dir tree k = do {
     n \<leftarrow> deref node k;
     let temp = leaves n (\<not> dir);
     t \<leftarrow> deref temp k;
     k1 \<leftarrow> upd_anode node (set_leaf (\<not> dir) (leaves t dir)) k;
     k2 \<leftarrow> upd_anode temp (set_leaf dir node) k1;
     let c = leaves (k_anodes k2 node) (\<not> dir);
     k3 \<leftarrow> (if c \<noteq> NULL then upd_anode c (an_parent_update (\<lambda>_. node)) k2 else Some k2);
     k4 \<leftarrow> replace_in_parent node temp k3;
     k5 \<leftarrow> upd_anode node (an_parent_update (\<lambda>_. temp)) k4;
     let tree' = (if node = at_root tree then tree\<lparr>at_root := temp\<rparr> else tree);
     Some (temp, tree', k5)
   }"

partial_function (option) atree_skew ::
  "ptr \<Rightarrow> c4_atree_t \<Rightarrow> 'a katree_scheme \<Rightarrow> (ptr \<times> c4_atree_t \<times> 'a katree_scheme) option" where [code]:
  "atree_skew node tree k =
     (if is_nil node k then Some (node, tree, k)
      else do {
        l \<leftarrow> deref (leaves (k_anodes k node) LEFT) k;
        if an_level l = an_level (k_anodes k node)
        then do {
          (ret, tree1, k1) \<leftarrow> rotate node RIGHT tree k;
          (_, tree2, k2) \<leftarrow> atree_skew (leaves (k_anodes k1 ret) RIGHT) tree1 k1;
          Some (ret, tree2, k2)
        }
        else Some (node, tree, k)
      })"

partial_function (option) atree_split ::
  "ptr \<Rightarrow> c4_atree_t \<Rightarrow> 'a katree_scheme \<Rightarrow> (ptr \<times> c4_atree_t \<times> 'a katree_scheme) option" where [code]:
  "atree_split node tree k =
     (if is_nil node k then Some (node, tree, k)
      else do {
        r \<leftarrow> deref (leaves (k_anodes k node) RIGHT) k;
        rr \<leftarrow> deref (leaves r RIGHT) k;
        if an_level (k_anodes k node) = an_level rr
        then do {
          (ret, tree1, k1) \<leftarrow> rotate node LEFT tree k;
          k2 \<leftarrow> upd_anode ret (an_level_update (\<lambda>l. l + 1)) k1;
          (_, tree3, k3) \<leftarrow> atree_split (leaves (k_anodes k2 ret) RIGHT) tree1 k2;
          Some (ret, tree3, k3)
        }
        else Some (node, tree, k)
      })"

definition do_remove_node :: "ptr \<Rightarrow> ptr \<Rightarrow> c4_atree_t \<Rightarrow> 'a katree_scheme \<Rightarrow> (c4_atree_t \<times> 'a katree_scheme) option" where
  "do_remove_node node replacement tree k = do {
     let tree1 = (if node = at_root tree then tree\<lparr>at_root := replacement\<rparr> else tree);
     k1 \<leftarrow> replace_in_parent node replacement k;
     k2 \<leftarrow> k_slab_free atree_slab node k1;
     Some (tree1\<lparr>at_nodes := at_nodes tree1 - 1\<rparr>, k2)
   }"

partial_function (option) count_nodes :: "ptr \<Rightarrow> 'a katree_scheme \<Rightarrow> u32 option" where [code]:
  "count_nodes node k =
     (if node \<noteq> NULL \<and> an_level (k_anodes k node) \<noteq> 0
      then do {
        l \<leftarrow> count_nodes (leaves (k_anodes k node) LEFT) k;
        r \<leftarrow> count_nodes (leaves (k_anodes k node) RIGHT) k;
        Some (l + r + 1)
      }
      else Some 0)"

subsection \<open>Insertion and removal\<close>

text \<open>The loop of \<^verbatim>\<open>atree_bin_insert\<close>.\<close>

partial_function (option) bin_insert_from ::
  "get_key_t \<Rightarrow> ptr \<Rightarrow> ptr \<Rightarrow> 'a katree_scheme \<Rightarrow> 'a katree_scheme option" where [code]:
  "bin_insert_from get_key temp node k =
     (if temp \<noteq> node
      then do {
        n \<leftarrow> deref node k;
        diff \<leftarrow> atree_compare get_key (get_key (an_data n)) temp k;
        let dir = (\<not> (sint diff < 0));
        k1 \<leftarrow> (if is_nil (leaves (k_anodes k temp) dir) k
               then do {
                 k' \<leftarrow> upd_anode temp (set_leaf dir node) k;
                 upd_anode node (an_parent_update (\<lambda>_. temp)) k'
               }
               else Some k);
        bin_insert_from get_key (leaves (k_anodes k1 temp) dir) node k1
      }
      else Some k)"

definition atree_bin_insert ::
  "get_key_t \<Rightarrow> c4_atree_t \<Rightarrow> ptr \<Rightarrow> 'a katree_scheme \<Rightarrow> (c4_atree_t \<times> 'a katree_scheme) option" where
  "atree_bin_insert get_key tree node k =
     (if is_nil (at_root tree) k then Some (tree\<lparr>at_root := node\<rparr>, k)
      else do {
        k1 \<leftarrow> bin_insert_from get_key (at_root tree) node k;
        Some (tree, k1)
      })"

partial_function (option) atree_insert_repair ::
  "c4_atree_t \<Rightarrow> ptr \<Rightarrow> 'a katree_scheme \<Rightarrow> (c4_atree_t \<times> 'a katree_scheme) option" where [code]:
  "atree_insert_repair tree temp k =
     (if temp \<noteq> NULL
      then do {
        (t1, tree1, k1) \<leftarrow> atree_skew temp tree k;
        (t2, tree2, k2) \<leftarrow> atree_split t1 tree1 k1;
        n \<leftarrow> deref t2 k2;
        atree_insert_repair tree2 (an_parent n) k2
      }
      else Some (tree, k))"

text \<open>The loop of \<^verbatim>\<open>atree_remove_repair\<close>.\<close>

partial_function (option) remove_repair_from ::
  "ptr \<Rightarrow> c4_atree_t \<Rightarrow> 'a katree_scheme \<Rightarrow> (c4_atree_t \<times> 'a katree_scheme) option" where [code]:
  "remove_repair_from repair tree k =
     (if is_nil repair k then Some (tree, k)
      else do {
        l \<leftarrow> deref (leaves (k_anodes k repair) LEFT) k;
        r \<leftarrow> deref (leaves (k_anodes k repair) RIGHT) k;
        let lev = an_level (k_anodes k repair);
        if an_level l < lev - 1 \<or> an_level r < lev - 1
        then do {
          k1 \<leftarrow> upd_anode repair (an_level_update (\<lambda>l. l - 1)) k;
          r1 \<leftarrow> deref (leaves (k_anodes k1 repair) RIGHT) k1;
          k2 \<leftarrow> (if an_level r1 > an_level (k_anodes k1 repair)
                 then upd_anode (leaves (k_anodes k1 repair) RIGHT)
                        (an_level_update (\<lambda>_. an_level (k_anodes k1 repair))) k1
                 else Some k1);
          (p3, tree3, k3) \<leftarrow> atree_skew repair tree k2;
          (p4, tree4, k4) \<leftarrow> atree_split p3 tree3 k3;
          n4 \<leftarrow> deref p4 k4;
          (_, tree5, k5) \<leftarrow> atree_split (leaves n4 LEFT) tree4 k4;
          (p6, tree6, k6) \<leftarrow> atree_skew p4 tree5 k5;
          n6 \<leftarrow> deref p6 k6;
          remove_repair_from (an_parent n6) tree6 k6
        }
        else remove_repair_from (an_parent (k_anodes k repair)) tree k
      })"

definition atree_remove_repair :: "c4_atree_t \<Rightarrow> ptr \<Rightarrow> 'a katree_scheme \<Rightarrow> (c4_atree_t \<times> 'a katree_scheme) option" where
  "atree_remove_repair tree node k = do {
     n \<leftarrow> deref node k;
     s0 \<leftarrow> find_max_node (leaves n LEFT) k;
     successor \<leftarrow> (if s0 \<noteq> NULL then Some s0 else find_min_node (leaves n RIGHT) k);
     let temp = (if \<not> is_nil successor k then successor else node);
     let repair = an_parent (k_anodes k temp);
     (tree1, k1) \<leftarrow>
       (if successor \<noteq> NULL
        then do {
          k' \<leftarrow> upd_anode node (an_data_update (\<lambda>_. an_data (k_anodes k successor))) k;
          let s = k_anodes k' successor;
          do_remove_node successor (leaves s (is_nil (leaves s LEFT) k')) tree k'
        }
        else do_remove_node node sentinel tree k);
     remove_repair_from repair tree1 k1
   }"

definition sizeof_c4_anode_t :: u32 where "sizeof_c4_anode_t = 20"

definition make_anode :: "ptr \<Rightarrow> 'a katree_scheme \<Rightarrow> (ptr \<times> 'a katree_scheme) option" where
  "make_anode data k = do {
     (ret, k1) \<leftarrow> k_slab_alloc atree_slab k;
     k2 \<leftarrow> upd_anode ret (\<lambda>_. \<lparr>an_parent = NULL, an_left = sentinel, an_right = sentinel,
                              an_level = 1, an_data = data\<rparr>) k1;
     Some (ret, k2)
   }"

definition atree_insert ::
  "get_key_t \<Rightarrow> c4_atree_t \<Rightarrow> ptr \<Rightarrow> 'a katree_scheme \<Rightarrow> (ptr \<times> c4_atree_t \<times> 'a katree_scheme) option" where
  "atree_insert get_key tree data k = do {
     (node, k1) \<leftarrow> make_anode data k;
     (tree2, k2) \<leftarrow> atree_bin_insert get_key tree node k1;
     (tree3, k3) \<leftarrow> atree_insert_repair tree2 node k2;
     Some (node, tree3\<lparr>at_nodes := at_nodes tree3 + 1\<rparr>, k3)
   }"

definition atree_remove :: "c4_atree_t \<Rightarrow> ptr \<Rightarrow> 'a katree_scheme \<Rightarrow> (c4_atree_t \<times> 'a katree_scheme) option" where
  "atree_remove tree node k = atree_remove_repair tree node k"

definition atree_remove_key ::
  "get_key_t \<Rightarrow> c4_atree_t \<Rightarrow> u64 \<Rightarrow> 'a katree_scheme \<Rightarrow> (ptr \<times> c4_atree_t \<times> 'a katree_scheme) option" where
  "atree_remove_key get_key tree key k = do {
     node \<leftarrow> atree_find_key get_key tree key k;
     if node \<noteq> NULL
     then do {
       (tree1, k1) \<leftarrow> atree_remove tree node k;
       Some (an_data (k_anodes k node), tree1, k1)
     }
     else Some (NULL, tree, k)
   }"

definition atree_remove_data ::
  "get_key_t \<Rightarrow> c4_atree_t \<Rightarrow> ptr \<Rightarrow> 'a katree_scheme \<Rightarrow> (ptr \<times> c4_atree_t \<times> 'a katree_scheme) option" where
  "atree_remove_data get_key tree data k = do {
     node \<leftarrow> atree_find_data get_key tree data k;
     if node \<noteq> NULL
     then do {
       (tree1, k1) \<leftarrow> atree_remove tree node k;
       Some (an_data (k_anodes k node), tree1, k1)
     }
     else Some (NULL, tree, k)
   }"

definition atree_init :: "'a katree_scheme \<Rightarrow> c4_atree_t \<times> 'a katree_scheme" where
  "atree_init k =
     (let k1 = (if \<not> k_atree_init k
                then k_slab_init atree_slab sizeof_c4_anode_t (k\<lparr>k_atree_init := True\<rparr>) else k)
      in (\<lparr>at_root = sentinel, at_nodes = 0\<rparr>, k1))"

definition atree_deinit :: "c4_atree_t \<Rightarrow> c4_atree_t" where
  "atree_deinit tree = tree"

subsection \<open>The balance check\<close>

partial_function (option) check_tree :: "ptr \<Rightarrow> 'a katree_scheme \<Rightarrow> bool option" where [code]:
  "check_tree node k =
     (if is_nil node k then Some True
      else do {
        let n = k_anodes k node;
        left \<leftarrow> check_tree (leaves n LEFT) k;
        right \<leftarrow> check_tree (leaves n RIGHT) k;
        l \<leftarrow> deref (leaves n LEFT) k;
        r \<leftarrow> deref (leaves n RIGHT) k;
        rr \<leftarrow> deref (leaves r RIGHT) k;
        let levels_ok = (\<lambda>c. is_nil c k \<or> (\<not> an_level (k_anodes k c) < an_level n - 1 \<and>
                                          \<not> an_level n < an_level (k_anodes k c)));
        Some (left \<and> right \<and>
          (an_level n > 1 \<longrightarrow>
             \<not> (is_nil (leaves n LEFT) k \<and> is_nil (leaves n RIGHT) k) \<and>
             levels_ok (leaves n LEFT) \<and> levels_ok (leaves n RIGHT)) \<and>
          an_level l \<noteq> an_level n \<and> an_level rr \<noteq> an_level n)
      })"

definition atree_check :: "c4_atree_t \<Rightarrow> 'a katree_scheme \<Rightarrow> bool option" where
  "atree_check tree k = check_tree (at_root tree) k"

end
