(* ===== verification/C4_AATree.thy ===== *)
theory C4_AATree
  imports C4_Andtree "HOL-Library.Tree" "HOL-Library.Multiset"
begin

text \<open>
  The correctness of the Andersson tree of \<^verbatim>\<open>src/klib/andtree.c\<close>. The nodes of the heap are related to a
  functional tree (\<open>tr\<close>) and to the path above a node (\<open>cx\<close>); rotations, skew and split are shown to act
  on it as the functional operations do. On top of these, insertion and removal keep the
  Andersson invariant, the order of the keys, the node count and the node slab, always return,
  and change the line of nodes from left to right by exactly one node (\<open>atree_rep\<close>).
\<close>

section \<open>Trees in the heap\<close>

text \<open>
  The tree a heap holds: at each node its address and level. \<open>tr h par p t\<close> says that \<open>p\<close> points to
  \<open>t\<close>, whose root has the parent \<open>par\<close>; missing children are the sentinel.
\<close>

type_synonym atree = "(ptr \<times> nat) tree"

fun tr :: "c4_anode_t heap \<Rightarrow> ptr \<Rightarrow> ptr \<Rightarrow> atree \<Rightarrow> bool" where
  "tr h par p Leaf \<longleftrightarrow> p = sentinel"
| "tr h par p (Node l (a, lv) r) \<longleftrightarrow> p = a \<and> a \<noteq> NULL \<and> a \<noteq> sentinel \<and> an_parent (h a) = par \<and>
     unat (an_level (h a)) = lv \<and> lv \<noteq> 0 \<and> tr h a (an_left (h a)) l \<and> tr h a (an_right (h a)) r"

text \<open>The nodes from left to right.\<close>

fun addrs :: "atree \<Rightarrow> ptr list" where
  "addrs Leaf = []"
| "addrs (Node l v r) = addrs l @ fst v # addrs r"

text \<open>
  A place in a tree: the nodes above it, from the lowest up, each with the side the place is on, its
  level and its other subtree. \<open>cx h root par p c\<close>: above \<open>p\<close>, whose parent is \<open>par\<close>, the heap has \<open>c\<close>.
\<close>

type_synonym place = "(bool \<times> ptr \<times> nat \<times> atree) list"

text \<open>A node with a subtree on the given side and the other one.\<close>

definition nd :: "bool \<Rightarrow> atree \<Rightarrow> ptr \<times> nat \<Rightarrow> atree \<Rightarrow> atree" where
  "nd d x v y = (if d = LEFT then Node x v y else Node y v x)"

fun cx :: "c4_anode_t heap \<Rightarrow> ptr \<Rightarrow> ptr \<Rightarrow> ptr \<Rightarrow> place \<Rightarrow> bool" where
  "cx h root par p [] \<longleftrightarrow> par = NULL \<and> root = p"
| "cx h root par p ((d, a, lv, s) # c) \<longleftrightarrow> par = a \<and> a \<noteq> NULL \<and> a \<noteq> sentinel \<and> leaves (h a) d = p \<and>
     unat (an_level (h a)) = lv \<and> lv \<noteq> 0 \<and> tr h a (leaves (h a) (\<not> d)) s \<and> cx h root (an_parent (h a)) a c"

fun plug :: "atree \<Rightarrow> place \<Rightarrow> atree" where
  "plug t [] = t"
| "plug t ((d, a, lv, s) # c) = plug (nd d t (a, lv) s) c"

fun caddrs :: "place \<Rightarrow> ptr list" where
  "caddrs [] = []"
| "caddrs ((d, a, lv, s) # c) = a # addrs s @ caddrs c"

definition sentinel_ok :: "c4_anode_t heap \<Rightarrow> bool" where
  "sentinel_ok h \<longleftrightarrow> an_level (h sentinel) = 0 \<and> an_left (h sentinel) = sentinel \<and> an_right (h sentinel) = sentinel"

definition at_place :: "'a katree_scheme \<Rightarrow> c4_atree_t \<Rightarrow> ptr \<Rightarrow> atree \<Rightarrow> place \<Rightarrow> bool" where
  "at_place k tree p t c \<longleftrightarrow> (\<exists>par. tr (k_anodes k) par p t \<and> cx (k_anodes k) (at_root tree) par p c) \<and>
     distinct (addrs t @ caddrs c) \<and> sentinel_ok (k_anodes k)"

lemma sentinel_nonnull [simp]: "sentinel \<noteq> NULL"
  by (simp add: sentinel_def)

lemma leaves_simps [simp]:
  "leaves n LEFT = an_left n" "leaves n RIGHT = an_right n"
  "leaves (set_leaf d p n) d = p" "leaves (set_leaf (\<not> d) p n) d = leaves n d" "leaves (set_leaf d p n) (\<not> d) = leaves n (\<not> d)"
  "leaves (n\<lparr>an_parent := q\<rparr>) d = leaves n d" "leaves (n\<lparr>an_level := l\<rparr>) d = leaves n d"
  "an_parent (set_leaf d p n) = an_parent n" "an_level (set_leaf d p n) = an_level n" "an_data (set_leaf d p n) = an_data n"
  by (simp_all add: leaves_def set_leaf_def LEFT_def RIGHT_def)

lemma tr_nd [simp]:
  "tr h par p (nd d x (a, lv) y) \<longleftrightarrow> p = a \<and> a \<noteq> NULL \<and> a \<noteq> sentinel \<and> an_parent (h a) = par \<and>
     unat (an_level (h a)) = lv \<and> lv \<noteq> 0 \<and> tr h a (leaves (h a) d) x \<and> tr h a (leaves (h a) (\<not> d)) y"
  by (auto simp: nd_def leaves_def LEFT_def)

lemma addrs_nd [simp]: "set (addrs (nd d x v y)) = insert (fst v) (set (addrs x) \<union> set (addrs y))"
  by (auto simp: nd_def)

lemma distinct_nd [simp]:
  "distinct (addrs (nd d x v y)) \<longleftrightarrow> distinct (addrs x) \<and> distinct (addrs y) \<and> fst v \<notin> set (addrs x) \<and>
     fst v \<notin> set (addrs y) \<and> set (addrs x) \<inter> set (addrs y) = {}"
  unfolding nd_def by (cases "d = LEFT") (simp_all, blast+)

lemma tr_cong:
  "(\<And>a. a \<in> set (addrs t) \<Longrightarrow> h' a = h a) \<Longrightarrow> tr h' par p t = tr h par p t"
  by (induction t arbitrary: par p rule: tree.induct) (auto split: prod.splits)

lemma tr_root: "tr h par p t \<Longrightarrow> p = (case t of Leaf \<Rightarrow> sentinel | Node l v r \<Rightarrow> fst v)"
  by (cases t) auto

lemma tr_addrs: "tr h par p t \<Longrightarrow> NULL \<notin> set (addrs t) \<and> sentinel \<notin> set (addrs t)"
  by (induction h par p t rule: tr.induct) auto

lemma tr_reparent:
  assumes "tr h par p t" "distinct (addrs t)"
    and "\<And>a. a \<in> set (addrs t) \<Longrightarrow> a \<noteq> p \<Longrightarrow> h' a = h a" "t \<noteq> Leaf \<Longrightarrow> h' p = (h p)\<lparr>an_parent := q\<rparr>"
  shows "tr h' q p t"
proof (cases t)
  case (Node l v r)
  obtain a lv where v: "v = (a, lv)" by (cases v)
  have a: "p = a" "a \<notin> set (addrs l)" "a \<notin> set (addrs r)" "h' a = (h a)\<lparr>an_parent := q\<rparr>"
    using assms Node v by auto
  have "tr h' a (an_left (h a)) l = tr h a (an_left (h a)) l" "tr h' a (an_right (h a)) r = tr h a (an_right (h a)) r"
    using a assms(3) Node v by (auto intro!: tr_cong)
  then show ?thesis using assms(1) a Node v by simp
qed (use assms in simp)

lemma cx_cong:
  "(\<And>a. a \<in> set (caddrs c) \<Longrightarrow> h' a = h a) \<Longrightarrow> cx h' root par p c = cx h root par p c"
proof (induction c arbitrary: par p)
  case (Cons f c)
  obtain d a lv s where f: "f = (d, a, lv, s)" by (cases f)
  have "tr h' a q s = tr h a q s" for q using Cons.prems f by (intro tr_cong) auto
  then show ?case using Cons f by simp
qed simp

lemma cx_addrs: "cx h root par p c \<Longrightarrow> NULL \<notin> set (caddrs c) \<and> sentinel \<notin> set (caddrs c)"
proof (induction c arbitrary: par p)
  case (Cons f c)
  obtain d a lv s where f: "f = (d, a, lv, s)" by (cases f)
  then show ?case using Cons tr_addrs [of h a _ s] by auto
qed simp

lemma cx_root: "cx h root par p c \<Longrightarrow> c \<noteq> [] \<Longrightarrow> root \<in> set (caddrs c)"
proof (induction c arbitrary: par p)
  case (Cons f c)
  obtain d a lv s where f: "f = (d, a, lv, s)" by (cases f)
  then show ?case using Cons by (cases c) auto
qed simp

lemma level_nil: "tr h par p t \<Longrightarrow> sentinel_ok h \<Longrightarrow> an_level (h p) = 0 \<longleftrightarrow> t = Leaf"
  by (cases t) (auto simp: sentinel_ok_def unat_eq_0)

text \<open>What an operation on the tree structure leaves alone: everything but the links and levels.\<close>

definition same_data :: "'a katree_scheme \<Rightarrow> 'a katree_scheme \<Rightarrow> ptr set \<Rightarrow> bool" where
  "same_data k k' A \<longleftrightarrow> k' = k\<lparr>k_anodes := k_anodes k'\<rparr> \<and> (\<forall>a. an_data (k_anodes k' a) = an_data (k_anodes k a)) \<and>
     (\<forall>a. a \<notin> A \<and> a \<noteq> sentinel \<longrightarrow> k_anodes k' a = k_anodes k a)"

lemma same_data_trans: "same_data k k1 A \<Longrightarrow> same_data k1 k2 A \<Longrightarrow> same_data k k2 A"
proof -
  assume 1: "same_data k k1 A" and 2: "same_data k1 k2 A"
  then have "k2 = k\<lparr>k_anodes := k_anodes k1\<rparr>\<lparr>k_anodes := k_anodes k2\<rparr>" by (metis same_data_def)
  then show ?thesis using 1 2 by (simp add: same_data_def)
qed

text \<open>The place above a node whose parent is made to point to another node.\<close>

lemma cx_redirect:
  assumes cx: "cx h root par a c" and a: "a \<noteq> sentinel" "a \<notin> set (caddrs c)" and dist: "distinct (caddrs c)"
    and par: "par \<noteq> NULL \<Longrightarrow> h' par = set_leaf (an_left (h par) \<noteq> a) b (h par)"
    and rest: "\<And>q. q \<in> set (caddrs c) \<Longrightarrow> q \<noteq> par \<Longrightarrow> h' q = h q"
  shows "cx h' (if a = root then b else root) par b c"
proof (cases c)
  case Nil
  then show ?thesis using cx by simp
next
  case (Cons f c')
  obtain d p lp s where f: "f = (d, p, lp, s)" by (cases f)
  have p: "p = par" "par \<noteq> NULL" "leaves (h par) d = a" "tr h par (leaves (h par) (\<not> d)) s" using cx Cons f by auto
  have "leaves (h par) (\<not> d) \<noteq> a" using tr_root [OF p(4)] a Cons f by (auto split: tree.splits)
  then have side: "(an_left (h par) \<noteq> a) = d" using p(3) by (cases d) (auto simp: leaves_def LEFT_def)
  have "h' q = h q" if "q \<in> set (addrs s @ caddrs c')" for q
    using that rest [of q] dist Cons f p(1) by auto
  then have "tr h' par (leaves (h par) (\<not> d)) s = tr h par (leaves (h par) (\<not> d)) s"
    "cx h' root (an_parent (h par)) par c' = cx h root (an_parent (h par)) par c'"
    by (intro tr_cong cx_cong; simp)+
  moreover have "a \<noteq> root" using cx_root [OF cx] a(2) Cons by auto
  ultimately show ?thesis using cx Cons f p par side by simp
qed

lemma rotate_place:
  assumes "at_place k tree a (nd dir x (a, lv) (nd dir y (b, lw) z)) c"
  shows "\<exists>tree' k'. rotate a dir tree k = Some (b, tree', k') \<and>
    at_place k' tree' b (nd dir (nd dir x (a, lv) y) (b, lw) z) c \<and> at_nodes tree' = at_nodes tree \<and>
    same_data k k' (set (addrs (nd dir x (a, lv) (nd dir y (b, lw) z)) @ caddrs c))"
proof -
  let ?h = "k_anodes k" and ?nb = "\<not> dir"
  from assms obtain par where t: "tr ?h par a (nd dir x (a, lv) (nd dir y (b, lw) z))"
    and cx: "cx ?h (at_root tree) par a c" and d: "distinct (addrs (nd dir x (a, lv) (nd dir y (b, lw) z)) @ caddrs c)"
    and s: "sentinel_ok ?h" by (auto simp: at_place_def)
  define yp where "yp = leaves (?h b) dir"
  from t have a: "a \<noteq> NULL" "a \<noteq> sentinel" "an_parent (?h a) = par" "unat (an_level (?h a)) = lv" "lv \<noteq> 0"
    "tr ?h a (leaves (?h a) dir) x" "leaves (?h a) ?nb = b"
    and b: "b \<noteq> NULL" "b \<noteq> sentinel" "unat (an_level (?h b)) = lw" "lw \<noteq> 0" "an_parent (?h b) = a"
    "tr ?h b yp y" "tr ?h b (leaves (?h b) ?nb) z" by (auto simp: yp_def)
  have dd: "distinct (addrs x)" "distinct (addrs y)" "distinct (addrs z)" "a \<noteq> b" "a \<notin> set (addrs x)" "a \<notin> set (addrs y)"
    "a \<notin> set (addrs z)" "b \<notin> set (addrs x)" "b \<notin> set (addrs y)" "b \<notin> set (addrs z)" "a \<notin> set (caddrs c)" "b \<notin> set (caddrs c)"
    "set (addrs x) \<inter> set (addrs y) = {}" "set (addrs x) \<inter> set (addrs z) = {}" "set (addrs y) \<inter> set (addrs z) = {}"
    "set (addrs x) \<inter> set (caddrs c) = {}" "set (addrs y) \<inter> set (caddrs c) = {}" "set (addrs z) \<inter> set (caddrs c) = {}"
    "distinct (caddrs c)"
    using d by auto
  have nn: "NULL \<notin> set (addrs x)" "sentinel \<notin> set (addrs x)" "NULL \<notin> set (addrs y)" "sentinel \<notin> set (addrs y)"
    "NULL \<notin> set (addrs z)" "sentinel \<notin> set (addrs z)" "NULL \<notin> set (caddrs c)" "sentinel \<notin> set (caddrs c)"
    using tr_addrs [OF a(6)] tr_addrs [OF b(6)] tr_addrs [OF b(7)] cx_addrs [OF cx] by auto
  have yp: "yp \<in> insert sentinel (set (addrs y))" "yp \<noteq> NULL" "y = Leaf \<Longrightarrow> yp = sentinel" "y \<noteq> Leaf \<Longrightarrow> yp \<in> set (addrs y)"
    using tr_root [OF b(6)] nn by (auto split: tree.splits)
  then have ypn: "yp \<noteq> a" "yp \<noteq> b" using dd a b by auto
  have par: "par = NULL \<longleftrightarrow> c = []" "par \<noteq> NULL \<Longrightarrow> par \<in> set (caddrs c)"
    using cx by (cases c; auto)+
  then have pin: "par \<in> insert NULL (set (caddrs c))" by auto
  then have parn: "par \<noteq> a" "par \<noteq> b" "par \<noteq> sentinel" "par \<noteq> yp"
    using a(1) b(1) dd(11,12,17) nn(8) yp(1,2) by auto
  define side where "side = (an_left (?h par) \<noteq> a)"
  define h3 where "h3 = ?h(a := set_leaf ?nb yp (?h a), b := set_leaf dir a (?h b), yp := (?h yp)\<lparr>an_parent := a\<rparr>)"
  define h4 where "h4 = (if par = NULL then h3 else h3(par := set_leaf side b (h3 par)))"
  define h6 where "h6 = h4(b := (h4 b)\<lparr>an_parent := par\<rparr>, a := (h4 a)\<lparr>an_parent := b\<rparr>)"
  let ?k = "k\<lparr>k_anodes := h6\<rparr>" and ?t = "if a = at_root tree then tree\<lparr>at_root := b\<rparr> else tree"
  have lb: "an_level (?h b) \<noteq> 0" using b(3,4) by auto
  have rot: "rotate a dir tree k = Some (b, ?t, ?k)"
    using a b ypn dd(4) yp(2) parn lb
    by (auto simp: rotate_def deref_def upd_anode_def replace_in_parent_def parentside_def is_nil_def Let_def
        h6_def h4_def h3_def side_def yp_def [symmetric] fun_upd_twist)
  have H: "h6 a = (set_leaf ?nb yp (?h a))\<lparr>an_parent := b\<rparr>" "h6 b = (set_leaf dir a (?h b))\<lparr>an_parent := par\<rparr>"
    "h6 yp = (?h yp)\<lparr>an_parent := a\<rparr>" "par \<noteq> NULL \<Longrightarrow> h6 par = set_leaf side b (?h par)"
    "q \<notin> {a, b, yp, par} \<Longrightarrow> h6 q = ?h q" "par = NULL \<Longrightarrow> q \<notin> {a, b, yp} \<Longrightarrow> h6 q = ?h q" for q
    using ypn dd(4) parn by (simp_all add: h6_def h4_def h3_def)
  have s': "sentinel_ok h6"
  proof (cases "yp = sentinel")
    case True
    then show ?thesis using H(3) s by (simp add: sentinel_ok_def)
  next
    case False
    then show ?thesis using H(5) [of sentinel] a(2) b(2) parn(3) s by (auto simp: sentinel_ok_def)
  qed
  have "tr h6 a (leaves (?h a) dir) x = tr ?h a (leaves (?h a) dir) x"
    "tr h6 b (leaves (?h b) ?nb) z = tr ?h b (leaves (?h b) ?nb) z"
    using dd yp(1) nn pin by (intro tr_cong H(5); auto)+
  moreover have "tr h6 a yp y"
    using dd(2,6,9,17) yp(3,4) pin nn(3)
    by (intro tr_reparent [OF b(6)] H(5)) (auto simp: H(3))
  ultimately have t': "tr h6 par b (nd dir (nd dir x (a, lv) y) (b, lw) z)"
    using a b by (simp add: H)
  have "h6 q = ?h q" if "q \<in> set (caddrs c)" "q \<noteq> par" for q
    using that dd(11,12,17) yp(1) nn(8) by (intro H(5)) auto
  with H(4) have "cx h6 (if a = at_root tree then b else at_root tree) par b c"
    by (intro cx_redirect [OF cx a(2) dd(11,19)]) (auto simp: side_def)
  then have c': "cx h6 (at_root ?t) par b c" by (auto split: if_splits)
  have d': "distinct (addrs (nd dir (nd dir x (a, lv) y) (b, lw) z) @ caddrs c)" using d by auto
  have "at_place ?k ?t b (nd dir (nd dir x (a, lv) y) (b, lw) z) c"
    unfolding at_place_def using t' c' d' s' by auto
  moreover have "same_data k ?k (set (addrs (nd dir x (a, lv) (nd dir y (b, lw) z)) @ caddrs c))"
  proof -
    have "an_data (h6 q) = an_data (?h q)" for q using H(5) [of q] a(1)
      by (cases "q = par \<and> par \<noteq> NULL") (auto simp: H(1-4) h6_def h4_def h3_def)
    moreover have "h6 q = ?h q" if "q \<notin> set (addrs (nd dir x (a, lv) (nd dir y (b, lw) z)) @ caddrs c)" "q \<noteq> sentinel" for q
      using that H(5,6) [of q] par yp(1) by (cases "par = NULL") auto
    ultimately show ?thesis by (simp add: same_data_def)
  qed
  ultimately show ?thesis using rot by (intro exI [of _ ?t] exI [of _ ?k]) simp
qed

lemma at_place_up:
  "at_place k tree q x ((d, b, lw, y) # c) \<Longrightarrow> at_place k tree b (nd d x (b, lw) y) c"
  unfolding at_place_def by auto

lemma at_place_down:
  "at_place k tree p (nd d x (b, lw) y) c \<Longrightarrow> at_place k tree (leaves (k_anodes k b) d) x ((d, b, lw, y) # c)"
  unfolding at_place_def by auto

definition root_ptr :: "atree \<Rightarrow> ptr" where
  "root_ptr t = (case t of Leaf \<Rightarrow> sentinel | Node l v r \<Rightarrow> fst v)"

lemma root_ptr_simps [simp]: "root_ptr Leaf = sentinel" "root_ptr (Node l v r) = fst v" "root_ptr (nd d x v y) = fst v"
  by (simp_all add: root_ptr_def nd_def)

lemma at_place_ptr: "at_place k tree p t c \<Longrightarrow> p = root_ptr t"
  unfolding at_place_def root_ptr_def by (auto dest: tr_root)

fun lvl :: "atree \<Rightarrow> nat" where
  "lvl Leaf = 0"
| "lvl (Node l v r) = snd v"

section \<open>Skew and split\<close>

text \<open>The two rebalancing steps on trees.\<close>

function skew_tree :: "atree \<Rightarrow> atree" where
  "skew_tree Leaf = Leaf"
| "skew_tree (Node Leaf v r) = Node Leaf v r"
| "skew_tree (Node (Node ll w lr) v r) =
     (if snd w = snd v then Node ll w (skew_tree (Node lr v r)) else Node (Node ll w lr) v r)"
  by pat_completeness auto
termination by (relation "measure (\<lambda>t. case t of Leaf \<Rightarrow> 0 | Node l v r \<Rightarrow> size l)") auto

fun split_tree :: "atree \<Rightarrow> atree" where
  "split_tree Leaf = Leaf"
| "split_tree (Node l v Leaf) = Node l v Leaf"
| "split_tree (Node l v (Node rl w rr)) =
     (if lvl rr = snd v then Node (Node l v rl) (fst w, Suc (snd w)) (split_tree rr) else Node l v (Node rl w rr))"

lemma tr_level: "tr h par p t \<Longrightarrow> sentinel_ok h \<Longrightarrow> unat (an_level (h p)) = lvl t"
  by (cases t) (auto simp: sentinel_ok_def)

lemma node_is_nd: "Node l v r = nd LEFT l v r" "Node l v r = nd RIGHT r v l"
  by (simp_all add: nd_def LEFT_def RIGHT_def)

lemma not_side [simp]: "(\<not> LEFT) = RIGHT" "(\<not> RIGHT) = LEFT" "(RIGHT = LEFT) = False" "(LEFT = RIGHT) = False"
  by (simp_all add: LEFT_def RIGHT_def)

lemma skew_place:
  assumes "at_place k tree p t c"
  shows "\<exists>tree' k'. atree_skew p tree k = Some (root_ptr (skew_tree t), tree', k') \<and>
    at_place k' tree' (root_ptr (skew_tree t)) (skew_tree t) c \<and> at_nodes tree' = at_nodes tree \<and>
    same_data k k' (set (addrs t @ caddrs c))"
  using assms
proof (induction t arbitrary: k tree p c rule: skew_tree.induct)
  case 1
  then have "is_nil p k" "p = sentinel" by (auto simp: at_place_def is_nil_def sentinel_ok_def)
  with 1 show ?case by (subst atree_skew.simps) (auto simp: same_data_def)
next
  case (2 v r)
  obtain a lv where v: "v = (a, lv)" by (cases v)
  from 2 v have "\<not> is_nil p k" "p = a" "an_left (k_anodes k a) = sentinel" "an_level (k_anodes k sentinel) = 0"
    "an_level (k_anodes k a) \<noteq> 0"
    by (auto simp: at_place_def is_nil_def sentinel_ok_def unat_eq_0)
  with 2 v show ?case by (subst atree_skew.simps) (auto simp: same_data_def deref_def)
next
  case (3 ll w lr v r)
  obtain a lv b lw where v: "v = (a, lv)" "w = (b, lw)" by (cases v; cases w)
  from 3(2) v have p: "p = a" "a \<noteq> NULL" "an_left (k_anodes k a) = b" "b \<noteq> NULL" "an_level (k_anodes k a) \<noteq> 0"
    "unat (an_level (k_anodes k a)) = lv" "unat (an_level (k_anodes k b)) = lw"
    by (auto simp: at_place_def unat_eq_0)
  then have eq: "an_level (k_anodes k b) = an_level (k_anodes k a) \<longleftrightarrow> lw = lv" by (metis word_unat_eq_iff)
  show ?case
  proof (cases "lw = lv")
    case False
    then show ?thesis using 3(2) v p eq by (subst atree_skew.simps) (auto simp: same_data_def deref_def is_nil_def)
  next
    case True
    from 3(2) v p(1) have "at_place k tree a (nd RIGHT r (a, lv) (nd RIGHT lr (b, lw) ll)) c" by (simp add: node_is_nd(2))
    from rotate_place [OF this] obtain tree1 k1 where rot: "rotate a RIGHT tree k = Some (b, tree1, k1)"
      and p1: "at_place k1 tree1 b (nd RIGHT (nd RIGHT r (a, lv) lr) (b, lw) ll) c" "at_nodes tree1 = at_nodes tree"
      and s1: "same_data k k1 (set (addrs (Node (Node ll w lr) v r) @ caddrs c))" by (auto simp: node_is_nd(2) v)
    from at_place_down [OF p1(1)] have "at_place k1 tree1 (an_right (k_anodes k1 b)) (Node lr v r) ((RIGHT, b, lw, ll) # c)"
      by (simp add: v node_is_nd(2))
    from "3.IH" [OF _ this] True v obtain tree2 k2 x where
      sk: "atree_skew (an_right (k_anodes k1 b)) tree1 k1 = Some (x, tree2, k2)"
      and p2: "at_place k2 tree2 x (skew_tree (Node lr v r)) ((RIGHT, b, lw, ll) # c)" "at_nodes tree2 = at_nodes tree1"
      and s2: "same_data k1 k2 (set (addrs (Node lr v r) @ caddrs ((RIGHT, b, lw, ll) # c)))" by auto
    have "set (addrs (Node lr v r) @ caddrs ((RIGHT, b, lw, ll) # c)) = set (addrs (Node (Node ll w lr) v r) @ caddrs c)"
      by (auto simp: v)
    then have "same_data k k2 (set (addrs (Node (Node ll w lr) v r) @ caddrs c))"
      using same_data_trans [OF s1] s2 by simp
    moreover have "at_place k2 tree2 b (Node ll w (skew_tree (Node lr v r))) c"
      using at_place_up [OF p2(1)] by (simp add: v node_is_nd(2))
    moreover have "atree_skew p tree k = Some (b, tree2, k2)"
      using p eq True rot sk by (subst atree_skew.simps) (simp add: is_nil_def deref_def)
    ultimately show ?thesis using True v p1(2) p2(2) by auto
  qed
qed

lemma at_place_level:
  assumes "at_place k tree p (Node x (b, lw) y) c" and "l \<noteq> 0"
  shows "at_place (k\<lparr>k_anodes := (k_anodes k)(b := (k_anodes k b)\<lparr>an_level := l\<rparr>)\<rparr>) tree p (Node x (b, unat l) y) c"
proof -
  let ?h = "k_anodes k" and ?h' = "(k_anodes k)(b := (k_anodes k b)\<lparr>an_level := l\<rparr>)"
  from assms(1) obtain par where t: "tr ?h par p (Node x (b, lw) y)" and c: "cx ?h (at_root tree) par p c"
    and d: "distinct (addrs (Node x (b, lw) y) @ caddrs c)" and s: "sentinel_ok ?h" by (auto simp: at_place_def)
  have "tr ?h' b q x = tr ?h b q x" "tr ?h' b q y = tr ?h b q y" "cx ?h' rt par p c = cx ?h rt par p c" for q rt
    using d by (auto intro!: tr_cong cx_cong)
  moreover have "sentinel_ok ?h'" using s t by (auto simp: sentinel_ok_def)
  ultimately show ?thesis using t c d assms(2) unfolding at_place_def by (auto simp: unat_eq_0)
qed

lemma same_data_level:
  "a \<in> A \<Longrightarrow> same_data k (k\<lparr>k_anodes := (k_anodes k)(a := (k_anodes k a)\<lparr>an_level := l\<rparr>)\<rparr>) A"
  by (auto simp: same_data_def)

lemma split_place:
  assumes "at_place k tree p t c" and "\<forall>v \<in> set_tree t. Suc (snd v) < 2 ^ 32"
  shows "\<exists>tree' k'. atree_split p tree k = Some (root_ptr (split_tree t), tree', k') \<and>
    at_place k' tree' (root_ptr (split_tree t)) (split_tree t) c \<and> at_nodes tree' = at_nodes tree \<and>
    same_data k k' (set (addrs t @ caddrs c))"
  using assms
proof (induction t arbitrary: k tree p c rule: split_tree.induct)
  case 1
  then have "is_nil p k" "p = sentinel" by (auto simp: at_place_def is_nil_def sentinel_ok_def)
  with 1 show ?case by (subst atree_split.simps) (auto simp: same_data_def)
next
  case (2 l v)
  obtain a lv where v: "v = (a, lv)" by (cases v)
  from 2 v have "\<not> is_nil p k" "p = a" "an_right (k_anodes k a) = sentinel" "an_level (k_anodes k sentinel) = 0"
    "an_level (k_anodes k a) \<noteq> 0" "an_right (k_anodes k sentinel) = sentinel"
    by (auto simp: at_place_def is_nil_def sentinel_ok_def unat_eq_0)
  with 2 v show ?case by (subst atree_split.simps) (auto simp: same_data_def deref_def)
next
  case (3 l v rl w rr)
  obtain a lv b lw where v: "v = (a, lv)" "w = (b, lw)" by (cases v; cases w)
  from 3(2) v have p: "p = a" "a \<noteq> NULL" "an_right (k_anodes k a) = b" "b \<noteq> NULL" "an_level (k_anodes k a) \<noteq> 0"
    "unat (an_level (k_anodes k a)) = lv"
    "tr (k_anodes k) b (an_right (k_anodes k b)) rr" "sentinel_ok (k_anodes k)"
    by (auto simp: at_place_def unat_eq_0)
  have nz: "an_right (k_anodes k b) \<noteq> NULL" using tr_root [OF p(7)] tr_addrs [OF p(7)] by (auto split: tree.splits)
  have eq: "an_level (k_anodes k a) = an_level (k_anodes k (an_right (k_anodes k b))) \<longleftrightarrow> lvl rr = lv"
    using tr_level [OF p(7,8)] p(6) by (metis word_unat_eq_iff)
  show ?case
  proof (cases "lvl rr = lv")
    case False
    then show ?thesis using 3(2) v p eq nz
      by (subst atree_split.simps) (auto simp: same_data_def deref_def is_nil_def)
  next
    case True
    let ?A = "set (addrs (Node l v (Node rl w rr)) @ caddrs c)"
    from 3(2) v p(1) have "at_place k tree a (nd LEFT l (a, lv) (nd LEFT rl (b, lw) rr)) c" by (simp add: node_is_nd(1))
    from rotate_place [OF this] obtain tree1 k1 where rot: "rotate a LEFT tree k = Some (b, tree1, k1)"
      and p1: "at_place k1 tree1 b (Node (Node l (a, lv) rl) (b, lw) rr) c" "at_nodes tree1 = at_nodes tree"
      and s1: "same_data k k1 ?A" by (auto simp: node_is_nd(1) v)
    let ?l = "an_level (k_anodes k1 b) + 1"
    let ?k2 = "k1\<lparr>k_anodes := (k_anodes k1)(b := (k_anodes k1 b)\<lparr>an_level := ?l\<rparr>)\<rparr>"
    have "unat (an_level (k_anodes k1 b)) = lw" using p1(1) by (auto simp: at_place_def)
    moreover have "Suc lw < 2 ^ 32" using 3(3) v by simp
    ultimately have l: "unat ?l = Suc lw" by (simp add: unat_word_ariths)
    then have "?l \<noteq> 0" by auto
    from at_place_level [OF p1(1) this] l
    have p2: "at_place ?k2 tree1 b (nd RIGHT rr (b, Suc lw) (Node l v rl)) c" by (simp add: v node_is_nd(2))
    have s2: "same_data k1 ?k2 ?A" by (rule same_data_level) (simp add: v)
    from at_place_down [OF p2]
    have "at_place ?k2 tree1 (an_right (k_anodes ?k2 b)) rr ((RIGHT, b, Suc lw, Node l v rl) # c)" by simp
    from "3.IH" [OF _ this] True v 3(3) obtain tree3 k3 x where
      sp: "atree_split (an_right (k_anodes ?k2 b)) tree1 ?k2 = Some (x, tree3, k3)"
      and p3: "at_place k3 tree3 x (split_tree rr) ((RIGHT, b, Suc lw, Node l v rl) # c)" "at_nodes tree3 = at_nodes tree1"
      and s3: "same_data ?k2 k3 (set (addrs rr @ caddrs ((RIGHT, b, Suc lw, Node l v rl) # c)))" by auto
    have "set (addrs rr @ caddrs ((RIGHT, b, Suc lw, Node l v rl) # c)) = ?A" by (auto simp: v)
    then have "same_data k k3 ?A" using same_data_trans [OF same_data_trans [OF s1 s2]] s3 by simp
    moreover have "at_place k3 tree3 b (Node (Node l v rl) (b, Suc lw) (split_tree rr)) c"
      using at_place_up [OF p3(1)] by (simp add: node_is_nd(2))
    moreover have up: "an_level_update (\<lambda>l. l + 1) (k_anodes k1 b) = (k_anodes k1 b)\<lparr>an_level := ?l\<rparr>"
      by (cases "k_anodes k1 b") simp
    have "atree_split p tree k = Some (b, tree3, k3)"
      using p eq True rot sp nz by (subst atree_split.simps) (simp add: is_nil_def deref_def upd_anode_def up)
    ultimately show ?thesis using True v p1(2) p3(2) by auto
  qed
qed

section \<open>The invariant of Andersson trees\<close>

text \<open>
  A left child is one level below its parent; a right child is too, or is on the same level and then
  has no right child on that level.
\<close>

fun aa_inv :: "atree \<Rightarrow> bool" where
  "aa_inv Leaf \<longleftrightarrow> True"
| "aa_inv (Node l v r) \<longleftrightarrow> aa_inv l \<and> aa_inv r \<and> snd v = Suc (lvl l) \<and>
     (snd v = Suc (lvl r) \<or> (snd v = lvl r \<and> lvl r = Suc (lvl (right r))))"

text \<open>A node with no right child on its own level.\<close>

fun single :: "atree \<Rightarrow> bool" where
  "single Leaf \<longleftrightarrow> False"
| "single (Node l v r) \<longleftrightarrow> lvl r < snd v"

text \<open>What insertion does to a subtree: it keeps its level, or raises it by one if it was not single.\<close>

definition grown :: "atree \<Rightarrow> atree \<Rightarrow> bool" where
  "grown t0 t \<longleftrightarrow> aa_inv t \<and> (lvl t = lvl t0 \<or> (lvl t = Suc (lvl t0) \<and> \<not> single t0 \<and> single t))"

lemma split_tree_id:
  "split_tree (Node l v r) = Node l v r" if "lvl (right r) \<noteq> snd v \<or> r = Leaf"
  using that by (cases r) auto

lemma skew_tree_id: "skew_tree (Node l v r) = Node l v r" if "lvl l \<noteq> snd v \<or> l = Leaf"
  using that by (cases l) auto

lemma aa_right: "aa_inv r \<Longrightarrow> lvl (right r) \<le> lvl r"
  by (cases r) auto

lemma repair_step_left:
  assumes "aa_inv (Node t0 v s)" and "grown t0 t"
  shows "grown (Node t0 v s) (split_tree (skew_tree (Node t v s)))"
proof (cases "lvl t = lvl t0")
  case True
  have v: "snd v = Suc (lvl t0)" "lvl (right s) \<noteq> snd v" using assms(1) aa_right [of s] by auto
  then have "skew_tree (Node t v s) = Node t v s" "split_tree (Node t v s) = Node t v s"
    using True by (simp_all add: skew_tree_id split_tree_id)
  then show ?thesis using assms True by (auto simp: grown_def)
next
  case False
  with assms have r: "lvl t = Suc (lvl t0)" "single t" "aa_inv t" "snd v = Suc (lvl t0)" "aa_inv s" by (auto simp: grown_def)
  then obtain tl w tr where t: "t = Node tl w tr" by (cases t) auto
  with r have w: "snd w = snd v" "lvl tl = lvl t0" "lvl tr = lvl t0" "aa_inv tl" "aa_inv tr" by auto
  have "skew_tree (Node tr v s) = Node tr v s" using w r by (intro skew_tree_id) auto
  with t w have sk: "skew_tree (Node t v s) = Node tl w (Node tr v s)" by simp
  show ?thesis
  proof (cases "lvl s = snd v")
    case True
    then have "split_tree s = s"
      using assms(1) r aa_right [of s] by (cases s) (auto intro!: split_tree_id dest: aa_right)
    with True w sk have "split_tree (skew_tree (Node t v s)) = Node (Node tl w tr) (fst v, Suc (snd v)) s" by simp
    then show ?thesis using True w r assms(1) by (auto simp: grown_def)
  next
    case False
    with w sk have "split_tree (skew_tree (Node t v s)) = Node tl w (Node tr v s)" by simp
    then show ?thesis using False w r assms(1) by (auto simp: grown_def)
  qed
qed

lemma repair_step_right:
  assumes "aa_inv (Node s v t0)" and "grown t0 t"
  shows "grown (Node s v t0) (split_tree (skew_tree (Node s v t)))"
proof -
  have sk: "skew_tree (Node s v t) = Node s v t" using assms(1) by (intro skew_tree_id) auto
  show ?thesis
  proof (cases "lvl (right t) = snd v \<and> t \<noteq> Leaf")
    case False
    then have "split_tree (skew_tree (Node s v t)) = Node s v t" using sk split_tree_id [of t v s] by auto
    moreover have "lvl t = snd v \<Longrightarrow> lvl t = Suc (lvl (right t))"
      using False assms by (cases t) (auto simp: grown_def)
    moreover have "single t0" if "lvl t0 = snd v" using that assms(1) by (cases t0) auto
    ultimately show ?thesis using assms by (auto simp: grown_def)
  next
    case True
    then obtain tl w tr where t: "t = Node tl w tr" "lvl tr = snd v" by (cases t) auto
    have i: "aa_inv t" "aa_inv tl" "aa_inv tr" "snd w = Suc (lvl tl)" using assms(2) t by (auto simp: grown_def)
    have "single t0" if "lvl t0 = snd v" using that assms(1) by (cases t0) auto
    then have w: "snd w = snd v" "lvl tr = Suc (lvl (right tr))" "lvl t0 = snd v"
      using assms t by (auto simp: grown_def)
    have "split_tree tr = tr" using w t i aa_right [of "right tr"] by (cases tr) (auto intro!: split_tree_id dest: aa_right)
    with sk t have sp: "split_tree (skew_tree (Node s v t)) = Node (Node s v tl) (fst w, Suc (snd w)) tr" by simp
    then show ?thesis using w t i assms(1) by (auto simp: grown_def)
  qed
qed

lemma repair_step:
  "aa_inv (nd d t0 v s) \<Longrightarrow> grown t0 t \<Longrightarrow> grown (nd d t0 v s) (split_tree (skew_tree (nd d t v s)))"
  using repair_step_left [of t0 v s t] repair_step_right [of s v t0 t]
  by (cases "d = LEFT") (simp_all add: nd_def del: aa_inv.simps)

lemma addrs_skew [simp]: "addrs (skew_tree t) = addrs t"
  by (induction t rule: skew_tree.induct) auto

lemma addrs_split [simp]: "addrs (split_tree t) = addrs t"
  by (induction t rule: split_tree.induct) auto

lemma set_skew [simp]: "set_tree (skew_tree t) = set_tree t"
  by (induction t rule: skew_tree.induct) auto

text \<open>The height bound: a tree of level \<open>n\<close> has at least \<open>2 ^ n - 1\<close> nodes, so levels do not overflow.\<close>

lemma aa_size: "aa_inv t \<Longrightarrow> 2 ^ lvl t \<le> Suc (length (addrs t))"
proof (induction t)
  case (Node l v r)
  have "2 ^ lvl l \<le> Suc (length (addrs l))" "2 ^ lvl r \<le> Suc (length (addrs r))" using Node by auto
  moreover have "(2 :: nat) ^ lvl l \<le> 2 ^ lvl r" using Node.prems by (intro power_increasing) auto
  moreover have "2 ^ lvl (Node l v r) = 2 * (2 :: nat) ^ lvl l" using Node.prems by simp
  ultimately show ?case unfolding addrs.simps length_append list.size by linarith
qed simp

lemma aa_levels: "aa_inv t \<Longrightarrow> v \<in> set_tree t \<Longrightarrow> snd v \<le> lvl t"
  by (induction t) fastforce+

lemma distinct_ptrs: "distinct (xs :: ptr list) \<Longrightarrow> length xs \<le> 2 ^ 32"
  using card_mono [of "UNIV :: ptr set" "set xs"] by (simp add: distinct_card card_word)

lemma aa_small:
  assumes "aa_inv t" "distinct (addrs t)" "v \<in> set_tree t"
  shows "snd v \<le> 32"
proof -
  have "(2 :: nat) ^ lvl t \<le> Suc (2 ^ 32)" using aa_size [OF assms(1)] distinct_ptrs [OF assms(2)] by linarith
  then have "(2 :: nat) ^ lvl t < 2 ^ 33" by simp
  then have "lvl t < 33" by (rule power_less_imp_less_exp [rotated]) simp
  then show ?thesis using aa_levels [OF assms(1,3)] by linarith
qed

section \<open>Insertion\<close>

text \<open>The nodes before and after a place.\<close>

fun before :: "place \<Rightarrow> ptr list" where
  "before [] = []"
| "before ((d, a, lv, s) # c) = before c @ (if d = LEFT then [] else addrs s @ [a])"

fun after :: "place \<Rightarrow> ptr list" where
  "after [] = []"
| "after ((d, a, lv, s) # c) = (if d = LEFT then a # addrs s else []) @ after c"

lemma addrs_plug: "addrs (plug t c) = before c @ addrs t @ after c"
  by (induction t c rule: plug.induct) (auto simp: nd_def)

lemma set_before_after: "set (caddrs c) = set (before c) \<union> set (after c)"
  by (induction c rule: caddrs.induct) auto

lemma aa_inv_plug: "aa_inv (plug t c) \<Longrightarrow> aa_inv t"
  by (induction t c rule: plug.induct) (auto simp: nd_def split: if_splits)

lemma frame_small:
  assumes "aa_inv (nd d t0 (a, lv) s)" "aa_inv t" "distinct (addrs (nd d t (a, lv) s))" "v \<in> set_tree (nd d t (a, lv) s)"
  shows "snd v \<le> 33"
proof -
  have i: "aa_inv s" "distinct (addrs t)" "distinct (addrs s)" using assms by (auto simp: nd_def split: if_splits)
  have "snd u \<le> 32" if "u \<in> set_tree t \<union> set_tree s" for u using aa_small assms(2) i that by blast
  moreover have "lv \<le> 33"
  proof (cases s)
    case Leaf
    then show ?thesis using assms(1) by (auto simp: nd_def split: if_splits)
  next
    case (Node l w r)
    then have "snd w \<le> 32" using aa_small [OF i(1,3), of w] by simp
    then show ?thesis using assms(1) Node by (auto simp: nd_def split: if_splits)
  qed
  ultimately show ?thesis using assms(4) by (fastforce simp: nd_def split: if_splits)
qed

text \<open>
  The loop of \<^verbatim>\<open>atree_insert_repair\<close> from the parent of a subtree that insertion has grown: it returns,
  the tree is an Andersson tree again, and its nodes are in the same order.
\<close>

lemma insert_repair_place:
  assumes "at_place k tree p t c" "t \<noteq> Leaf" "grown t0 t" "aa_inv (plug t0 c)"
  shows "\<exists>tree' k' t'. atree_insert_repair tree (an_parent (k_anodes k p)) k = Some (tree', k') \<and>
    at_place k' tree' (root_ptr t') t' [] \<and> aa_inv t' \<and> addrs t' = addrs (plug t c) \<and>
    at_nodes tree' = at_nodes tree \<and> same_data k k' (set (addrs t @ caddrs c))"
  using assms
proof (induction c arbitrary: k tree p t t0)
  case Nil
  then have "an_parent (k_anodes k p) = NULL" "p = root_ptr t"
    by (cases t; auto simp: at_place_def)+
  with Nil show ?case
    by (subst atree_insert_repair.simps) (auto simp: grown_def same_data_def)
next
  case (Cons f c)
  obtain d a lv s where f: "f = (d, a, lv, s)" by (cases f)
  let ?u = "nd d t (a, lv) s" and ?orig = "nd d t0 (a, lv) s"
  let ?A = "set (addrs t @ caddrs (f # c))"
  have pl: "at_place k tree a ?u c" using at_place_up Cons.prems(1) f by blast
  have par: "an_parent (k_anodes k p) = a" "a \<noteq> NULL"
    using Cons.prems(1,2) f by (cases t; auto simp: at_place_def)+
  have i0: "aa_inv (plug ?orig c)" using Cons.prems(4) f by simp
  note iu = aa_inv_plug [OF i0]
  have A: "set (addrs ?u @ caddrs c) = ?A" by (auto simp: f)
  from skew_place [OF pl] obtain tree1 k1 where sk: "atree_skew a tree k = Some (root_ptr (skew_tree ?u), tree1, k1)"
    "at_place k1 tree1 (root_ptr (skew_tree ?u)) (skew_tree ?u) c" "at_nodes tree1 = at_nodes tree" "same_data k k1 ?A"
    unfolding A by blast
  have "distinct (addrs ?u)" "aa_inv t" using pl Cons.prems(3) by (simp_all add: at_place_def grown_def)
  from frame_small [OF iu this(2,1)] have "\<forall>v \<in> set_tree (skew_tree ?u). Suc (snd v) < 2 ^ 32" by fastforce
  from split_place [OF sk(2) this] obtain tree2 k2 where
    sp: "atree_split (root_ptr (skew_tree ?u)) tree1 k1 = Some (root_ptr (split_tree (skew_tree ?u)), tree2, k2)"
    "at_place k2 tree2 (root_ptr (split_tree (skew_tree ?u))) (split_tree (skew_tree ?u)) c"
    "at_nodes tree2 = at_nodes tree1" "same_data k1 k2 ?A"
    using A by auto
  let ?t = "split_tree (skew_tree ?u)"
  have g: "grown ?orig ?t" by (rule repair_step [OF iu Cons.prems(3)])
  have ne: "?t \<noteq> Leaf" "root_ptr ?t \<noteq> NULL"
  proof -
    have "addrs ?t \<noteq> []" by (simp add: nd_def)
    then show "?t \<noteq> Leaf" by (metis addrs.simps(1))
    then show "root_ptr ?t \<noteq> NULL" using sp(2) by (cases ?t) (auto simp: at_place_def)
  qed
  from Cons.IH [OF sp(2) ne(1) g i0] obtain tree' k' t' where
    r: "atree_insert_repair tree2 (an_parent (k_anodes k2 (root_ptr ?t))) k2 = Some (tree', k')"
    "at_place k' tree' (root_ptr t') t' []" "aa_inv t'" "addrs t' = addrs (plug ?t c)" "at_nodes tree' = at_nodes tree2"
    "same_data k2 k' (set (addrs ?t @ caddrs c))" by blast
  have "set (addrs ?t @ caddrs c) = ?A" using A by simp
  then have "same_data k k' ?A" using same_data_trans [OF same_data_trans [OF sk(4) sp(4)]] r(6) by simp
  moreover have "atree_insert_repair tree (an_parent (k_anodes k p)) k = Some (tree', k')"
    using par sk(1) sp(1) r(1) ne(2) by (subst atree_insert_repair.simps) (simp add: deref_def)
  moreover have "addrs t' = addrs (plug t (f # c))" using r(4) f by (simp add: addrs_plug nd_def)
  ultimately show ?case using r sk(3) sp(3) by auto
qed

text \<open>Keys are compared by the sign of their difference, which is right for keys that are not negative.\<close>

lemma diff_sign:
  fixes x y :: u64
  assumes "0 \<le> sint x" "0 \<le> sint y"
  shows "sint (x - y) < 0 \<longleftrightarrow> sint x < sint y"
proof -
  have "sint x < 2 ^ 63" "sint y < 2 ^ 63" using sint_lt [of x] sint_lt [of y] by simp_all
  then have "signed_take_bit 63 (sint x - sint y) = sint x - sint y"
    using assms by (intro signed_take_bit_int_eq_self) auto
  moreover have "sint (x - y) = signed_take_bit 63 (sint x - sint y)"
    by (simp add: sint_word_ariths)
  ultimately show ?thesis by linarith
qed

abbreviation node_key :: "get_key_t \<Rightarrow> 'a katree_scheme \<Rightarrow> ptr \<Rightarrow> int" where
  "node_key get_key k a \<equiv> sint (get_key (an_data (k_anodes k a)))"

text \<open>A node that is not in the tree yet.\<close>

definition fresh_node :: "'a katree_scheme \<Rightarrow> ptr \<Rightarrow> bool" where
  "fresh_node k n \<longleftrightarrow> n \<noteq> NULL \<and> n \<noteq> sentinel \<and> an_level (k_anodes k n) = 1 \<and>
     an_left (k_anodes k n) = sentinel \<and> an_right (k_anodes k n) = sentinel"

lemma attach_place:
  assumes pl: "at_place k tree p (nd d Leaf (a, lv) s) c" and n: "fresh_node k n" "n \<notin> set (addrs (nd d Leaf (a, lv) s) @ caddrs c)"
  defines "k' \<equiv> k\<lparr>k_anodes := (k_anodes k)(a := set_leaf d n (k_anodes k a), n := (k_anodes k n)\<lparr>an_parent := a\<rparr>)\<rparr>"
  shows "at_place k' tree n (Node Leaf (n, 1) Leaf) ((d, a, lv, s) # c)"
proof -
  let ?h = "k_anodes k"
  from pl obtain par where t: "tr ?h par p (nd d Leaf (a, lv) s)" and c: "cx ?h (at_root tree) par p c"
    and d: "distinct (addrs (nd d Leaf (a, lv) s) @ caddrs c)" and s: "sentinel_ok ?h" by (auto simp: at_place_def)
  have na: "n \<noteq> a" using n(2) by auto
  have h: "q \<notin> {a, n} \<Longrightarrow> k_anodes k' q = ?h q" for q by (simp add: k'_def)
  have "tr (k_anodes k') a q s = tr ?h a q s" for q
    using d n(2) by (intro tr_cong h) auto
  moreover have "cx (k_anodes k') rt q r c = cx ?h rt q r c" for rt q r
    using d n(2) by (intro cx_cong h) auto
  moreover have "k_anodes k' a = set_leaf d n (?h a)" "k_anodes k' n = (?h n)\<lparr>an_parent := a\<rparr>" using na by (simp_all add: k'_def)
  moreover have "sentinel_ok (k_anodes k')"
    using s h [of sentinel] t n(1) by (auto simp: sentinel_ok_def fresh_node_def)
  ultimately show ?thesis
    using t c d n by (auto simp: at_place_def fresh_node_def)
qed

text \<open>Where a key goes in a line that is sorted: the way down a node leads to the right part of it.\<close>

definition parted :: "(ptr \<Rightarrow> int) \<Rightarrow> int \<Rightarrow> ptr list \<Rightarrow> ptr list \<Rightarrow> ptr list \<Rightarrow> bool" where
  "parted key v as xs ys \<longleftrightarrow> as = xs @ ys \<and> (\<forall>a \<in> set xs. key a \<le> v) \<and> (\<forall>a \<in> set ys. v < key a)"

lemma parted_left:
  "parted key v (addrs l) xs ys \<Longrightarrow> sorted (map key (addrs (Node l (a, lv) r))) \<Longrightarrow> v < key a \<Longrightarrow>
    parted key v (addrs (Node l (a, lv) r)) xs (ys @ a # addrs r)"
  by (fastforce simp: parted_def sorted_append)

lemma parted_right:
  "parted key v (addrs r) xs ys \<Longrightarrow> sorted (map key (addrs (Node l (a, lv) r))) \<Longrightarrow> key a \<le> v \<Longrightarrow>
    parted key v (addrs (Node l (a, lv) r)) (addrs l @ a # xs) ys"
  by (fastforce simp: parted_def sorted_append)

lemma parted_nd:
  assumes "parted key v (addrs x) xs ys" and "sorted (map key (addrs (nd dir x (a, lv) y)))" and "dir \<longleftrightarrow> key a \<le> v"
  shows "\<exists>xs' ys'. parted key v (addrs (nd dir x (a, lv) y)) xs' ys' \<and>
    before ((dir, a, lv, y) # c) @ xs = before c @ xs' \<and> ys @ after ((dir, a, lv, y) # c) = ys' @ after c"
proof (cases dir)
  case True
  then show ?thesis using assms parted_right [of key v x xs ys y a lv]
    by (intro exI [of _ "addrs y @ a # xs"] exI [of _ ys]) (auto simp: nd_def LEFT_def)
next
  case False
  then show ?thesis using assms parted_left [of key v x xs ys a lv y]
    by (intro exI [of _ xs] exI [of _ "ys @ a # addrs y"]) (auto simp: nd_def LEFT_def)
qed

text \<open>One step of the descent: at a node whose child on the way is missing the new node is attached.\<close>

lemma bin_insert_step:
  assumes pl: "at_place k tree a (nd dir x (a, lv) y) c" and n: "n \<noteq> NULL" "n \<noteq> a"
    and dir: "dir = (\<not> sint (get_key (an_data (k_anodes k n)) - get_key (an_data (k_anodes k a))) < 0)"
  defines "k' \<equiv> k\<lparr>k_anodes := (k_anodes k)(a := set_leaf dir n (k_anodes k a), n := (k_anodes k n)\<lparr>an_parent := a\<rparr>)\<rparr>"
  shows "bin_insert_from get_key a n k = (if x = Leaf then Some k' else bin_insert_from get_key (leaves (k_anodes k a) dir) n k)"
proof -
  let ?h = "k_anodes k"
  have x: "a \<noteq> NULL" "tr ?h a (leaves (?h a) dir) x" "sentinel_ok ?h" using pl by (auto simp: at_place_def)
  have nil: "is_nil (leaves (?h a) dir) k \<longleftrightarrow> x = Leaf"
    using level_nil [OF x(2,3)] tr_root [OF x(2)] tr_addrs [OF x(2)] by (auto simp: is_nil_def split: tree.splits)
  have "bin_insert_from get_key a n k =
      do { k1 \<leftarrow> (if x = Leaf then Some k' else Some k); bin_insert_from get_key (leaves (k_anodes k1 a) dir) n k1 }"
    using x(1) n nil by (subst bin_insert_from.simps) (simp add: deref_def atree_compare_def upd_anode_def dir [symmetric] k'_def)
  moreover have "leaves (k_anodes k' a) dir = n" using n by (simp add: k'_def)
  ultimately show ?thesis by (simp add: bin_insert_from.simps [of get_key n])
qed

lemma bin_insert_place:
  assumes "at_place k tree p t c" "t \<noteq> Leaf" "fresh_node k n" "n \<notin> set (addrs t @ caddrs c)"
    and "sorted (map (node_key get_key k) (addrs t))" and "\<forall>a \<in> insert n (set (addrs t)). 0 \<le> node_key get_key k a"
  shows "\<exists>k' c' xs ys. bin_insert_from get_key p n k = Some k' \<and> at_place k' tree n (Node Leaf (n, 1) Leaf) c' \<and>
    plug Leaf c' = plug t c \<and> parted (node_key get_key k) (node_key get_key k n) (addrs t) xs ys \<and>
    before c' = before c @ xs \<and> after c' = ys @ after c \<and> same_data k k' (insert n (set (addrs t @ caddrs c)))"
  using assms
proof (induction t arbitrary: p c)
  case (Node l v r)
  obtain a lv where v: "v = (a, lv)" by (cases v)
  let ?h = "k_anodes k" and ?key = "node_key get_key k"
  define dir where "dir = (\<not> sint (get_key (an_data (?h n)) - get_key (an_data (?h a))) < 0)"
  have key: "0 \<le> ?key a" "0 \<le> ?key n" using Node.prems(6) v by auto
  have dir: "dir \<longleftrightarrow> ?key a \<le> ?key n" using diff_sign [OF key(2,1)] by (auto simp: dir_def)
  define x where "x = (if dir = LEFT then l else r)"
  define y where "y = (if dir = LEFT then r else l)"
  let ?c = "(dir, a, lv, y) # c"
  have t: "Node l v r = nd dir x (a, lv) y" by (cases dir) (auto simp: nd_def x_def y_def v LEFT_def)
  have p: "p = a" "n \<noteq> NULL" "n \<noteq> a" using Node.prems(1,3,4) v by (auto simp: at_place_def fresh_node_def)
  have pl: "at_place k tree a (nd dir x (a, lv) y) c" using Node.prems(1) t p(1) by simp
  note step = bin_insert_step [OF pl p(2,3) dir_def]
  note part = parted_nd [OF _ Node.prems(5) [unfolded t] dir, of _ _ c]
  have A: "insert n (set (addrs (Node l v r) @ caddrs c)) = insert n (set (addrs x @ caddrs ?c))" unfolding t by auto
  have "\<exists>k' c' xs ys. bin_insert_from get_key a n k = Some k' \<and> at_place k' tree n (Node Leaf (n, 1) Leaf) c' \<and>
    plug Leaf c' = plug x ?c \<and> parted ?key (?key n) (addrs x) xs ys \<and> before c' = before ?c @ xs \<and> after c' = ys @ after ?c \<and>
    same_data k k' (insert n (set (addrs x @ caddrs ?c)))"
  proof (cases "x = Leaf")
    case True
    let ?k' = "k\<lparr>k_anodes := (?h)(a := set_leaf dir n (?h a), n := (?h n)\<lparr>an_parent := a\<rparr>)\<rparr>"
    have "n \<notin> set (addrs (nd dir Leaf (a, lv) y) @ caddrs c)" using Node.prems(4) unfolding t True .
    from attach_place [OF pl [unfolded True] Node.prems(3) this]
    have "at_place ?k' tree n (Node Leaf (n, 1) Leaf) ?c" .
    moreover have "same_data k ?k' (insert n (set (addrs x @ caddrs ?c)))" by (auto simp: same_data_def)
    ultimately show ?thesis unfolding step using True by (intro exI [of _ ?k'] exI [of _ ?c]) (simp add: parted_def)
  next
    case False
    have "n \<notin> set (addrs x @ caddrs ?c)" "\<forall>a \<in> insert n (set (addrs x)). 0 \<le> ?key a"
      using Node.prems(4,6) unfolding t by auto
    moreover have "sorted (map ?key (addrs x))" using Node.prems(5) by (simp add: x_def sorted_append)
    moreover have "x = l \<or> x = r" by (simp add: x_def)
    ultimately show ?thesis
      unfolding step if_not_P [OF False]
      using Node.IH(1) [of _ ?c] Node.IH(2) [of _ ?c] at_place_down [OF pl] False Node.prems(3) by blast
  qed
  then obtain k' c' xs ys where r: "bin_insert_from get_key p n k = Some k'" "at_place k' tree n (Node Leaf (n, 1) Leaf) c'"
    "plug Leaf c' = plug (Node l v r) c" "parted ?key (?key n) (addrs x) xs ys" "before c' = before ?c @ xs" "after c' = ys @ after ?c"
    "same_data k k' (insert n (set (addrs (Node l v r) @ caddrs c)))" unfolding p(1) A [unfolded t] t plug.simps by blast
  from part [OF r(4)] obtain xs' ys' where "parted ?key (?key n) (addrs (Node l v r)) xs' ys'" "before c' = before c @ xs'"
    "after c' = ys' @ after c" unfolding r(5,6) t by blast
  then show ?case using r by blast
qed simp

section \<open>The tree as an ordered line\<close>

text \<open>
  \<open>atree_rep get_key k tree ns\<close>: the tree is an Andersson tree with the nodes \<open>ns\<close> from left to right, all
  of them live objects of the slab, in the order of their keys, which are not negative.
\<close>

definition atree_rep :: "get_key_t \<Rightarrow> 'a katree_scheme \<Rightarrow> c4_atree_t \<Rightarrow> ptr list \<Rightarrow> bool" where
  "atree_rep get_key k tree ns \<longleftrightarrow>
     (\<exists>t. at_place k tree (at_root tree) t [] \<and> aa_inv t \<and> addrs t = ns) \<and>
     at_nodes tree = of_nat (length ns) \<and> slab_inv atree_slab (k_mm k) \<and> set ns \<subseteq> slab_live atree_slab (k_mm k) \<and>
     sorted (map (node_key get_key k) ns) \<and> (\<forall>a \<in> set ns. 0 \<le> node_key get_key k a)"

lemma at_place_cong:
  assumes "at_place k tree p t c" "\<And>a. a \<in> insert sentinel (set (addrs t @ caddrs c)) \<Longrightarrow> k_anodes k' a = k_anodes k a"
  shows "at_place k' tree p t c"
proof -
  have "tr (k_anodes k') par p t = tr (k_anodes k) par p t" "cx (k_anodes k') r par p c = cx (k_anodes k) r par p c" for par r
    using assms(2) by (auto intro!: tr_cong cx_cong)
  then show ?thesis using assms by (auto simp: at_place_def sentinel_ok_def)
qed

lemma atree_start_first:
  assumes "atree_rep get_key k tree ns"
  shows "atree_start tree k = Some (if ns = [] then NULL else hd ns)"
proof -
  have go: "leftmost (root_ptr t) k = Some (hd (addrs t))"
    if "tr (k_anodes k) par (root_ptr t) t" "t \<noteq> Leaf" "sentinel_ok (k_anodes k)" for par t
    using that(1,2)
  proof (induction t arbitrary: par)
    case (Node l v r)
    obtain a lv where v: "v = (a, lv)" by (cases v)
    have l: "tr (k_anodes k) a (an_left (k_anodes k a)) l" and a: "a \<noteq> NULL" using Node.prems v by auto
    have lp: "an_left (k_anodes k a) = root_ptr l" using tr_root [OF l] by (simp add: root_ptr_def)
    have "root_ptr l \<noteq> NULL" using tr_addrs [OF l] by (cases l) (auto simp: root_ptr_def)
    then have nil: "is_nil (root_ptr l) k \<longleftrightarrow> l = Leaf" using level_nil [OF l that(3)] lp by (simp add: is_nil_def)
    show ?case
    proof (cases "l = Leaf")
      case True
      then show ?thesis using a nil lp v by (subst leftmost.simps) (simp add: deref_def)
    next
      case False
      then have "addrs l \<noteq> []" by (cases l) auto
      then show ?thesis using False a nil lp v l Node.IH(1) [of a]
        by (subst leftmost.simps) (simp add: deref_def hd_append)
    qed
  qed simp
  from assms obtain t where t: "at_place k tree (at_root tree) t []" "addrs t = ns" by (auto simp: atree_rep_def)
  have p: "at_root tree = root_ptr t" by (rule at_place_ptr [OF t(1)])
  have tr: "tr (k_anodes k) NULL (root_ptr t) t" and s: "sentinel_ok (k_anodes k)" using t p by (auto simp: at_place_def)
  have nz: "root_ptr t \<noteq> NULL" using tr_addrs [OF tr] by (cases t) auto
  have e: "ns = [] \<longleftrightarrow> t = Leaf" using t(2) by (cases t) auto
  show ?thesis
    using go [OF tr _ s] level_nil [OF tr s] nz e t(2) p by (auto simp: atree_start_def find_min_node_def deref_def)
qed

text \<open>The descent from the root, for an empty tree too.\<close>

lemma atree_bin_insert_place:
  assumes pl: "at_place k tree (at_root tree) t []" and fr: "fresh_node k n" "an_parent (k_anodes k n) = NULL" and n: "n \<notin> set (addrs t)"
    and so: "sorted (map (node_key get_key k) (addrs t))" and nn: "\<forall>a \<in> insert n (set (addrs t)). 0 \<le> node_key get_key k a"
  shows "\<exists>tree' k' c. atree_bin_insert get_key tree n k = Some (tree', k') \<and> at_nodes tree' = at_nodes tree \<and>
    at_place k' tree' n (Node Leaf (n, 1) Leaf) c \<and> plug Leaf c = t \<and> addrs t = before c @ after c \<and>
    (\<forall>a \<in> set (before c). node_key get_key k a \<le> node_key get_key k n) \<and>
    (\<forall>a \<in> set (after c). node_key get_key k n < node_key get_key k a) \<and> same_data k k' (insert n (set (addrs t)))"
proof (cases "t = Leaf")
  case True
  then have "is_nil (at_root tree) k" using pl by (auto simp: at_place_def is_nil_def sentinel_ok_def)
  moreover have "at_place k (tree\<lparr>at_root := n\<rparr>) n (Node Leaf (n, 1) Leaf) []"
    using fr pl by (simp add: at_place_def fresh_node_def)
  ultimately show ?thesis using True
    by (intro exI [of _ "tree\<lparr>at_root := n\<rparr>"] exI [of _ k] exI [of _ "[]"]) (simp add: atree_bin_insert_def same_data_def)
next
  case False
  have tr: "tr (k_anodes k) NULL (at_root tree) t" "sentinel_ok (k_anodes k)" using pl by (simp_all add: at_place_def)
  then have "at_root tree \<noteq> NULL" using False by (cases t) auto
  then have nil: "\<not> is_nil (at_root tree) k" using level_nil [OF tr] False by (simp add: is_nil_def)
  have "n \<notin> set (addrs t @ caddrs [])" using n by simp
  from bin_insert_place [OF pl False fr(1) this so nn] obtain k' c where
    "bin_insert_from get_key (at_root tree) n k = Some k'" "at_place k' tree n (Node Leaf (n, 1) Leaf) c"
    "plug Leaf c = t" "parted (node_key get_key k) (node_key get_key k n) (addrs t) (before c) (after c)"
    "same_data k k' (insert n (set (addrs t)))"
    unfolding before.simps after.simps caddrs.simps plug.simps append_Nil append_Nil2 by blast
  then show ?thesis using nil by (intro exI [of _ tree] exI [of _ k'] exI [of _ c]) (simp add: atree_bin_insert_def parted_def)
qed

text \<open>The repair of the tree from the new leaf on.\<close>

lemma insert_leaf_repair:
  assumes pl: "at_place k tree n (Node Leaf (n, 1) Leaf) c" and inv: "aa_inv (plug Leaf c)" and n: "n \<noteq> NULL"
  shows "\<exists>tree' k' t'. atree_insert_repair tree n k = Some (tree', k') \<and> at_place k' tree' (root_ptr t') t' [] \<and> aa_inv t' \<and>
    addrs t' = before c @ n # after c \<and> at_nodes tree' = at_nodes tree \<and> same_data k k' (insert n (set (before c @ after c)))"
proof -
  let ?lf = "Node Leaf (n, 1) Leaf :: atree" and ?A = "insert n (set (before c @ after c))"
  have A: "set (addrs ?lf @ caddrs c) = ?A" by (auto simp: set_before_after)
  from skew_place [OF pl] obtain tree3 k3 where sk: "atree_skew n tree k = Some (n, tree3, k3)"
    "at_place k3 tree3 n ?lf c" "at_nodes tree3 = at_nodes tree" "same_data k k3 ?A" unfolding A by auto
  from split_place [OF sk(2)] obtain tree4 k4 where sp: "atree_split n tree3 k3 = Some (n, tree4, k4)"
    "at_place k4 tree4 n ?lf c" "at_nodes tree4 = at_nodes tree3" "same_data k3 k4 ?A" unfolding A by auto
  have "grown Leaf ?lf" by (simp add: grown_def)
  from insert_repair_place [OF sp(2) _ this] inv obtain tree5 k5 t5 where
    r: "atree_insert_repair tree4 (an_parent (k_anodes k4 n)) k4 = Some (tree5, k5)" "at_place k5 tree5 (root_ptr t5) t5 []"
    "aa_inv t5" "addrs t5 = addrs (plug ?lf c)" "at_nodes tree5 = at_nodes tree4" "same_data k4 k5 ?A" unfolding A by auto
  have "same_data k k5 ?A" using sk(4) sp(4) r(6) by (blast intro: same_data_trans)
  moreover have "atree_insert_repair tree n k = Some (tree5, k5)"
    using sk(1) sp(1) r(1) n by (simp add: atree_insert_repair.simps [of tree n] deref_def)
  ultimately show ?thesis using r sk(3) sp(3) by (auto simp: addrs_plug)
qed

lemma sorted_map_insert:
  "sorted (map f (xs @ ys)) \<Longrightarrow> \<forall>a \<in> set xs. f a \<le> f n \<Longrightarrow> \<forall>a \<in> set ys. f n < f a \<Longrightarrow> sorted (map f (xs @ n # ys))"
  by (auto simp: sorted_append less_imp_le)

text \<open>
  Insertion keeps the invariant, and puts the new node after every node whose key is not greater:
  nodes with equal keys stay in the order of their insertion.
\<close>

lemma atree_insert_rep:
  assumes rep: "atree_rep get_key k tree ns" and al: "slab_alloc atree_slab (k_mm k) = Some (n, m)" "n \<noteq> sentinel"
    and key: "0 \<le> sint (get_key data)"
  shows "\<exists>tree' k' xs ys. atree_insert get_key tree data k = Some (n, tree', k') \<and> ns = xs @ ys \<and>
    atree_rep get_key k' tree' (xs @ n # ys) \<and> n \<notin> set ns \<and> an_data (k_anodes k' n) = data \<and>
    (\<forall>a. a \<noteq> n \<longrightarrow> an_data (k_anodes k' a) = an_data (k_anodes k a)) \<and>
    (\<forall>a \<in> set xs. node_key get_key k a \<le> sint (get_key data)) \<and>
    (\<forall>a \<in> set ys. sint (get_key data) < node_key get_key k a) \<and>
    k' = k\<lparr>k_mm := m, k_anodes := k_anodes k'\<rparr> \<and>
    (\<forall>a. a \<notin> set (n # ns) \<and> a \<noteq> sentinel \<longrightarrow> k_anodes k' a = k_anodes k a)"
proof -
  let ?key = "node_key get_key k"
  from rep obtain t where t: "at_place k tree (at_root tree) t []" "aa_inv t" "addrs t = ns"
    and len: "at_nodes tree = of_nat (length ns)" and slab: "slab_inv atree_slab (k_mm k)"
    and live: "set ns \<subseteq> slab_live atree_slab (k_mm k)" and so: "sorted (map ?key ns)" and nn: "\<forall>a \<in> set ns. 0 \<le> ?key a"
    by (auto simp: atree_rep_def)
  from slab_alloc_ok [OF slab al(1)] have n: "n \<noteq> NULL" "n \<notin> slab_live atree_slab (k_mm k)"
    "slab_inv atree_slab m" "slab_live atree_slab m = insert n (slab_live atree_slab (k_mm k))" by auto
  have nns: "n \<notin> set ns" using live n(2) by auto
  let ?k1 = "k\<lparr>k_mm := m, k_anodes := (k_anodes k)(n := \<lparr>an_parent = NULL, an_left = sentinel, an_right = sentinel,
      an_level = 1, an_data = data\<rparr>)\<rparr>"
  let ?key1 = "node_key get_key ?k1"
  have mk: "make_anode data k = Some (n, ?k1)" using al(1) n(1) by (simp add: make_anode_def k_slab_alloc_def upd_anode_def)
  have key1: "?key1 a = (if a = n then sint (get_key data) else ?key a)" for a by simp
  have so1: "sorted (map ?key1 (addrs t))" using so nns t(3) by (metis (mono_tags, lifting) key1 map_eq_conv)
  have nn1: "\<forall>a \<in> insert n (set (addrs t)). 0 \<le> ?key1 a" using nn key t(3) key1 by auto
  have pl1: "at_place ?k1 tree (at_root tree) t []" by (rule at_place_cong [OF t(1)]) (use nns t(3) al(2) in auto)
  have "fresh_node ?k1 n" "an_parent (k_anodes ?k1 n) = NULL" using n(1) al(2) by (simp_all add: fresh_node_def)
  from atree_bin_insert_place [OF pl1 this _ so1 nn1] nns t(3) obtain tree2 k2 c where
    b: "atree_bin_insert get_key tree n ?k1 = Some (tree2, k2)" "at_nodes tree2 = at_nodes tree"
      "at_place k2 tree2 n (Node Leaf (n, 1) Leaf) c" "plug Leaf c = t" "ns = before c @ after c"
      "\<forall>a \<in> set (before c). ?key1 a \<le> ?key1 n" "\<forall>a \<in> set (after c). ?key1 n < ?key1 a" "same_data ?k1 k2 (insert n (set ns))"
    by metis
  from insert_leaf_repair [OF b(3) _ n(1)] b(4) t(2) obtain tree5 k5 t5 where
    r: "atree_insert_repair tree2 n k2 = Some (tree5, k5)" "at_place k5 tree5 (root_ptr t5) t5 []" "aa_inv t5"
      "addrs t5 = before c @ n # after c" "at_nodes tree5 = at_nodes tree2" "same_data k2 k5 (insert n (set ns))"
    unfolding b(5) by blast
  have "same_data ?k1 k5 (insert n (set ns))" by (rule same_data_trans [OF b(8) r(6)])
  then have f: "k5 = ?k1\<lparr>k_anodes := k_anodes k5\<rparr>" "\<forall>a. an_data (k_anodes k5 a) = an_data (k_anodes ?k1 a)"
    "\<forall>a. a \<notin> insert n (set ns) \<and> a \<noteq> sentinel \<longrightarrow> k_anodes k5 a = k_anodes ?k1 a" by (auto simp: same_data_def)
  have key5: "node_key get_key k5 = ?key1" using f(2) by (auto simp: fun_eq_iff)
  have "sorted (map (node_key get_key k5) (before c @ n # after c))"
    unfolding key5 by (rule sorted_map_insert [OF _ b(6,7)]) (use so1 in \<open>simp only: t(3) b(5)\<close>)
  moreover have "\<forall>a \<in> set (before c @ n # after c). 0 \<le> node_key get_key k5 a"
    using nn1 f(2) unfolding t(3) b(5) by auto
  moreover have "at_root tree5 = root_ptr t5" using r(2) by (auto simp: at_place_def)
  moreover have mm5: "k_mm k5 = m" by (subst f(1)) simp
  moreover have "at_nodes tree5 + 1 = of_nat (length (before c @ n # after c))" using r(5) b(2,5) len by simp
  moreover have "set (before c @ n # after c) \<subseteq> slab_live atree_slab m" using live n(4) unfolding b(5) by auto
  ultimately have rep5: "atree_rep get_key k5 (tree5\<lparr>at_nodes := at_nodes tree5 + 1\<rparr>) (before c @ n # after c)"
    unfolding atree_rep_def using r(2-4) n(3) by (auto simp: at_place_def)
  have "a \<noteq> n" if "a \<in> set (before c) \<or> a \<in> set (after c)" for a using that nns unfolding b(5) by auto
  then have "\<forall>a \<in> set (before c). ?key a \<le> sint (get_key data)" "\<forall>a \<in> set (after c). sint (get_key data) < ?key a"
    using b(6,7) unfolding key1 by simp_all
  moreover have "atree_insert get_key tree data k = Some (n, tree5\<lparr>at_nodes := at_nodes tree5 + 1\<rparr>, k5)"
    using mk b(1) r(1) by (simp add: atree_insert_def)
  moreover have "k5 = k\<lparr>k_mm := m, k_anodes := k_anodes k5\<rparr>" by (subst f(1)) simp
  moreover have "\<forall>a. a \<notin> set (n # ns) \<and> a \<noteq> sentinel \<longrightarrow> k_anodes k5 a = k_anodes k a" using f(3) by auto
  moreover have "an_data (k_anodes k5 n) = data" "\<forall>a. a \<noteq> n \<longrightarrow> an_data (k_anodes k5 a) = an_data (k_anodes k a)" using f(2) by auto
  ultimately show ?thesis using rep5 nns b(5) by blast
qed

section \<open>Removal: the repair of one node\<close>

text \<open>What removal does to a subtree: it keeps its level or lowers it by one.\<close>

definition shrunk :: "atree \<Rightarrow> atree \<Rightarrow> bool" where
  "shrunk t0 t \<longleftrightarrow> aa_inv t \<and> (lvl t = lvl t0 \<and> (single t0 \<longrightarrow> single t) \<or> Suc (lvl t) = lvl t0)"

fun set_lvl :: "nat \<Rightarrow> atree \<Rightarrow> atree" where
  "set_lvl n Leaf = Leaf"
| "set_lvl n (Node l v r) = Node l (fst v, n) r"

fun split_left :: "atree \<Rightarrow> atree" where
  "split_left Leaf = Leaf"
| "split_left (Node l v r) = Node (split_tree l) v r"

text \<open>One round of the loop of \<^verbatim>\<open>atree_remove_repair\<close> on trees.\<close>

fun adjust_tree :: "atree \<Rightarrow> atree" where
  "adjust_tree Leaf = Leaf"
| "adjust_tree (Node l v r) =
     (if lvl l < snd v - 1 \<or> lvl r < snd v - 1
      then skew_tree (split_left (split_tree (skew_tree
             (Node l (fst v, snd v - 1) (if lvl r > snd v - 1 then set_lvl (snd v - 1) r else r)))))
      else Node l v r)"

lemma aa_nodeE:
  assumes "aa_inv t" "lvl t = Suc n"
  obtains l a r where "t = Node l (a, Suc n) r" "aa_inv l" "aa_inv r" "lvl l = n" "lvl r = n \<or> lvl r = Suc n \<and> lvl (right r) = n"
  using assms by (cases t) auto

lemma split_aa [simp]: "aa_inv t \<Longrightarrow> split_tree t = t"
  by (induction t rule: split_tree.induct) (auto dest: aa_right)

lemma skew_aa [simp]: "aa_inv t \<Longrightarrow> skew_tree t = t"
  by (induction t rule: skew_tree.induct) auto

lemma shrunk_refl_level: "aa_inv t \<Longrightarrow> lvl t = lvl t0 \<Longrightarrow> (single t0 \<Longrightarrow> single t) \<Longrightarrow> shrunk t0 t"
  by (auto simp: shrunk_def)

lemma adjust_left:
  assumes i: "aa_inv (Node t0 v s)" and sh: "shrunk t0 t"
  shows "shrunk (Node t0 v s) (adjust_tree (Node t v s))"
proof (cases "lvl t = lvl t0")
  case True
  then show ?thesis using assms by (auto simp: shrunk_def)
next
  case False
  then obtain n where n: "lvl t = n" "lvl t0 = Suc n" "aa_inv t" using sh by (auto simp: shrunk_def)
  obtain a where v: "v = (a, Suc (Suc n))" using i n by (cases v) auto
  have s: "aa_inv s" "lvl s = Suc n \<or> lvl s = Suc (Suc n) \<and> lvl (right s) = Suc n" using i v by auto
  from s(2) show ?thesis
  proof
    assume ls: "lvl s = Suc n"
    from s(1) ls obtain rl b rr where r: "s = Node rl (b, Suc n) rr" "aa_inv rl" "aa_inv rr" "lvl rl = n"
      "lvl rr = n \<or> lvl rr = Suc n \<and> lvl (right rr) = n" by (rule aa_nodeE)
    show ?thesis using r n v by (auto simp: shrunk_def skew_tree_id split_tree_id)
  next
    assume ls: "lvl s = Suc (Suc n) \<and> lvl (right s) = Suc n"
    from s(1) conjunct1 [OF ls] obtain rl b rr where r: "s = Node rl (b, Suc (Suc n)) rr" "aa_inv rl" "aa_inv rr"
      "lvl rl = Suc n" by (rule aa_nodeE)
    have rr: "lvl rr = Suc n" using ls r(1) by simp
    from r(2,4) obtain rll c rlr where rl: "rl = Node rll (c, Suc n) rlr" "aa_inv rll" "aa_inv rlr" "lvl rll = n"
      "lvl rlr = n \<or> lvl rlr = Suc n \<and> lvl (right rlr) = n" by (rule aa_nodeE)
    show ?thesis using r rr rl n v by (auto simp: shrunk_def skew_tree_id split_tree_id)
  qed
qed

lemma adjust_right:
  assumes i: "aa_inv (Node s v t0)" and sh: "shrunk t0 t"
  shows "shrunk (Node s v t0) (adjust_tree (Node s v t))"
proof (cases "lvl t = lvl t0")
  case True
  have "single t0" "single t \<Longrightarrow> lvl t = Suc (lvl (right t))" if "lvl t0 = snd v"
    using that i sh True by (cases t0; cases t; auto simp: shrunk_def)+
  then show ?thesis using assms True by (auto simp: shrunk_def)
next
  case False
  then obtain n where n: "lvl t = n" "lvl t0 = Suc n" "aa_inv t" using sh by (auto simp: shrunk_def)
  obtain a h where v: "v = (a, Suc h)" "lvl s = h" "aa_inv s" using i by (cases v) auto
  have "h = n \<or> h = Suc n" using i n v by auto
  then show ?thesis
  proof
    assume "h = n"
    then show ?thesis using i n v by (auto simp: shrunk_def)
  next
    assume h: "h = Suc n"
    with v obtain ll b lr where l: "s = Node ll (b, Suc n) lr" "aa_inv ll" "aa_inv lr" "lvl ll = n"
      "lvl lr = n \<or> lvl lr = Suc n \<and> lvl (right lr) = n" by (metis aa_nodeE)
    from l(5) show ?thesis
    proof
      assume "lvl lr = n"
      then show ?thesis using l n v h by (auto simp: shrunk_def skew_tree_id split_tree_id)
    next
      assume lr': "lvl lr = Suc n \<and> lvl (right lr) = n"
      from l(3) conjunct1 [OF lr'] obtain lrl c lrr where lr: "lr = Node lrl (c, Suc n) lrr" "aa_inv lrl" "aa_inv lrr"
        "lvl lrl = n" by (rule aa_nodeE)
      have "lvl lrr = n" using lr' lr(1) by simp
      then show ?thesis using l lr n v h by (auto simp: shrunk_def skew_tree_id split_tree_id dest: aa_right)
    qed
  qed
qed

lemma adjust_step:
  "aa_inv (nd d t0 v s) \<Longrightarrow> shrunk t0 t \<Longrightarrow> shrunk (nd d t0 v s) (adjust_tree (nd d t v s))"
  using adjust_left [of t0 v s t] adjust_right [of s v t0 t]
  by (cases "d = LEFT") (simp_all add: nd_def del: aa_inv.simps adjust_tree.simps)

lemma addrs_adjust [simp]: "addrs (adjust_tree t) = addrs t"
proof (cases t)
  case (Node l v r)
  have "addrs (split_left u) = addrs u" "addrs (set_lvl n u) = addrs u" for u n by (cases u; simp)+
  then show ?thesis using Node by simp
qed simp

lemma split_tree_levels: "\<forall>v \<in> set_tree t. snd v \<le> m \<Longrightarrow> v \<in> set_tree (split_tree t) \<Longrightarrow> snd v \<le> Suc m"
proof (induction t rule: split_tree.induct)
  case (3 l u rl w rr)
  show ?case
  proof (cases "lvl rr = snd u")
    case True
    then consider "v \<in> set_tree (Node l u (Node rl w rr))" | "v = (fst w, Suc (snd w))" | "v \<in> set_tree (split_tree rr)"
      using "3.prems"(2) by auto
    then show ?thesis
    proof cases
      case 1
      then have "snd v \<le> m" using "3.prems"(1) by blast
      then show ?thesis by simp
    qed (use 3 True in auto)
  next
    case False
    then have "snd v \<le> m" using "3.prems" by (metis split_tree.simps(3))
    then show ?thesis by simp
  qed
qed (auto intro: le_SucI)

lemma tree_nonempty: "addrs t \<noteq> [] \<Longrightarrow> t \<noteq> Leaf"
  by (cases t) auto

lemma at_place_nonnull: "at_place k tree p t c \<Longrightarrow> p \<noteq> NULL"
  unfolding at_place_def by (cases t) auto

text \<open>An operation on a child, seen from its parent.\<close>

lemma split_left_place:
  assumes pl: "at_place k tree p (Node l (a, lv) r) c" and lv: "\<forall>v \<in> set_tree l. Suc (snd v) < 2 ^ 32"
  shows "\<exists>x tree' k'. atree_split (an_left (k_anodes k a)) tree k = Some (x, tree', k') \<and>
    at_place k' tree' p (Node (split_tree l) (a, lv) r) c \<and> at_nodes tree' = at_nodes tree \<and>
    same_data k k' (set (addrs (Node l (a, lv) r) @ caddrs c))"
proof -
  have p: "p = a" using at_place_ptr [OF pl] by simp
  have "at_place k tree (an_left (k_anodes k a)) l ((LEFT, a, lv, r) # c)"
    using at_place_down [of k tree p LEFT l a lv r c] pl by (simp add: node_is_nd(1))
  from split_place [OF this lv] obtain tree' k' where sp: "atree_split (an_left (k_anodes k a)) tree k = Some (root_ptr (split_tree l), tree', k')"
    "at_place k' tree' (root_ptr (split_tree l)) (split_tree l) ((LEFT, a, lv, r) # c)" "at_nodes tree' = at_nodes tree"
    "same_data k k' (set (addrs l @ caddrs ((LEFT, a, lv, r) # c)))" by blast
  have "set (addrs l @ caddrs ((LEFT, a, lv, r) # c)) = set (addrs (Node l (a, lv) r) @ caddrs c)" by auto
  then show ?thesis using sp at_place_up [OF sp(2)] p by (auto simp: node_is_nd(1))
qed

lemma right_level_place:
  assumes pl: "at_place k tree p (Node l (a, lv) (Node rl (b, lw) rr)) c" and n: "n \<noteq> 0"
  shows "at_place (k\<lparr>k_anodes := (k_anodes k)(b := (k_anodes k b)\<lparr>an_level := n\<rparr>)\<rparr>) tree p
    (Node l (a, lv) (Node rl (b, unat n) rr)) c"
proof -
  let ?k = "k\<lparr>k_anodes := (k_anodes k)(b := (k_anodes k b)\<lparr>an_level := n\<rparr>)\<rparr>"
  have p: "p = a" using at_place_ptr [OF pl] by simp
  have "at_place k tree (an_right (k_anodes k a)) (Node rl (b, lw) rr) ((RIGHT, a, lv, l) # c)"
    using at_place_down [of k tree p RIGHT _ a lv l c] pl by (simp add: node_is_nd(2))
  from at_place_up [OF at_place_level [OF this n]] show ?thesis using p by (simp add: node_is_nd(2))
qed

text \<open>One round of the loop on the heap, up to the parent of the repaired node.\<close>

definition lower_node :: "ptr \<Rightarrow> 'a katree_scheme \<Rightarrow> 'a katree_scheme option" where
  "lower_node p k = do {
     k1 \<leftarrow> upd_anode p (an_level_update (\<lambda>l. l - 1)) k;
     r1 \<leftarrow> deref (leaves (k_anodes k1 p) RIGHT) k1;
     if an_level r1 > an_level (k_anodes k1 p)
     then upd_anode (leaves (k_anodes k1 p) RIGHT) (an_level_update (\<lambda>_. an_level (k_anodes k1 p))) k1
     else Some k1
   }"

definition adjust_node :: "ptr \<Rightarrow> c4_atree_t \<Rightarrow> 'a katree_scheme \<Rightarrow> (ptr \<times> c4_atree_t \<times> 'a katree_scheme) option" where
  "adjust_node p tree k = do {
     k2 \<leftarrow> lower_node p k;
     (p3, tree3, k3) \<leftarrow> atree_skew p tree k2;
     (p4, tree4, k4) \<leftarrow> atree_split p3 tree3 k3;
     n4 \<leftarrow> deref p4 k4;
     (_, tree5, k5) \<leftarrow> atree_split (leaves n4 LEFT) tree4 k4;
     (p6, tree6, k6) \<leftarrow> atree_skew p4 tree5 k5;
     n6 \<leftarrow> deref p6 k6;
     Some (an_parent n6, tree6, k6)
   }"

lemma lower_place:
  assumes pl: "at_place k tree p (Node l (a, lv) r) c" and lv2: "2 \<le> lv"
  shows "\<exists>k'. lower_node p k = Some k' \<and>
    at_place k' tree p (Node l (a, lv - 1) (if lvl r > lv - 1 then set_lvl (lv - 1) r else r)) c \<and>
    same_data k k' (set (addrs (Node l (a, lv) r) @ caddrs c))"
proof -
  let ?A = "set (addrs (Node l (a, lv) r) @ caddrs c)" and ?h = "k_anodes k"
  have p: "p = a" "a \<noteq> NULL" "unat (an_level (?h a)) = lv" using pl by (auto simp: at_place_def)
  let ?n = "an_level (?h a) - 1" and ?q = "an_right (?h a)"
  have n: "unat ?n = lv - 1" using p(3) lv2 by (simp add: unat_sub_if')
  then have n0: "?n \<noteq> 0" using lv2 by auto
  let ?k1 = "k\<lparr>k_anodes := (?h)(a := (?h a)\<lparr>an_level := ?n\<rparr>)\<rparr>"
  have dec: "an_level_update (\<lambda>l. l - 1) (?h a) = (?h a)\<lparr>an_level := ?n\<rparr>" by (cases "?h a") simp
  have pl1: "at_place ?k1 tree p (Node l (a, lv - 1) r) c" using at_place_level [OF pl n0] n by simp
  have tr1: "tr (k_anodes ?k1) a ?q r" "sentinel_ok (k_anodes ?k1)" using pl1 by (auto simp: at_place_def)
  have q: "?q = root_ptr r" "?q \<noteq> NULL"
    using tr_root [OF tr1(1)] tr_addrs [OF tr1(1)] by (auto simp: root_ptr_def split: tree.splits)
  have gt: "an_level (k_anodes ?k1 ?q) > ?n \<longleftrightarrow> lvl r > lv - 1"
    using tr_level [OF tr1] n by (simp add: word_less_nat_alt)
  have e: "leaves (k_anodes ?k1 p) RIGHT = ?q" "an_level (k_anodes ?k1 p) = ?n" using p(1) by simp_all
  have u: "upd_anode p (an_level_update (\<lambda>l. l - 1)) k = Some ?k1" "deref ?q ?k1 = Some (k_anodes ?k1 ?q)"
    using p(1,2) q(2) by (simp_all only: upd_anode_def deref_def dec if_False)
  have run: "lower_node p k = (if lvl r > lv - 1 then upd_anode ?q (an_level_update (\<lambda>_. ?n)) ?k1 else Some ?k1)"
    unfolding lower_node_def u(1) Option.bind.bind_lunit e u(2) gt ..
  have s1: "same_data k ?k1 ?A" by (rule same_data_level) simp
  show ?thesis
  proof (cases "lvl r > lv - 1")
    case False
    then show ?thesis using run pl1 s1 by auto
  next
    case True
    then obtain rl b lw rr where r: "r = Node rl (b, lw) rr" by (cases r) auto
    let ?k2 = "?k1\<lparr>k_anodes := (k_anodes ?k1)(b := (k_anodes ?k1 b)\<lparr>an_level := ?n\<rparr>)\<rparr>"
    have "at_place ?k2 tree p (Node l (a, lv - 1) (set_lvl (lv - 1) r)) c"
      using right_level_place [OF pl1 [unfolded r] n0] n r by simp
    moreover have "same_data ?k1 ?k2 ?A" by (rule same_data_level) (simp add: r)
    moreover have "upd_anode ?q (an_level_update (\<lambda>_. ?n)) ?k1 = Some ?k2" using q r by (simp add: upd_anode_def)
    ultimately show ?thesis using True run same_data_trans [OF s1] by auto
  qed
qed

lemma adjust_place:
  assumes pl: "at_place k tree p (Node l (a, lv) r) c" and b: "\<forall>v \<in> set_tree (Node l (a, lv) r). snd v \<le> 40"
    and low: "lvl l < lv - 1 \<or> lvl r < lv - 1"
  shows "\<exists>tree' k' q. adjust_node p tree k = Some (an_parent (k_anodes k' q), tree', k') \<and>
    at_place k' tree' q (adjust_tree (Node l (a, lv) r)) c \<and> at_nodes tree' = at_nodes tree \<and>
    same_data k k' (set (addrs (Node l (a, lv) r) @ caddrs c))"
proof -
  let ?A = "set (addrs (Node l (a, lv) r) @ caddrs c)"
  define t1 where "t1 = Node l (a, lv - 1) (if lvl r > lv - 1 then set_lvl (lv - 1) r else r)"
  have "2 \<le> lv" using low by auto
  from lower_place [OF pl this] obtain k2 where k2: "lower_node p k = Some k2" "at_place k2 tree p t1 c" "same_data k k2 ?A"
    unfolding t1_def by blast
  have at1: "addrs t1 = addrs (Node l (a, lv) r)" unfolding t1_def by (cases r) auto
  have b1: "\<forall>v \<in> set_tree t1. snd v \<le> 40" using b unfolding t1_def by (cases r) auto
  let ?t2 = "split_tree (skew_tree t1)"
  from skew_place [OF k2(2)] obtain tree3 k3 where
    sk: "atree_skew p tree k2 = Some (root_ptr (skew_tree t1), tree3, k3)" "at_place k3 tree3 (root_ptr (skew_tree t1)) (skew_tree t1) c"
    "at_nodes tree3 = at_nodes tree" "same_data k2 k3 ?A" unfolding at1 set_append by auto
  have "\<forall>v \<in> set_tree (skew_tree t1). Suc (snd v) < 2 ^ 32" using b1 by fastforce
  from split_place [OF sk(2) this] obtain tree4 k4 where
    sp: "atree_split (root_ptr (skew_tree t1)) tree3 k3 = Some (root_ptr ?t2, tree4, k4)"
    "at_place k4 tree4 (root_ptr ?t2) ?t2 c" "at_nodes tree4 = at_nodes tree3" "same_data k3 k4 ?A" using at1 by auto
  have "?t2 \<noteq> Leaf" by (rule tree_nonempty) (simp add: at1)
  then obtain l2 a2 lv2 r2 where t2: "?t2 = Node l2 (a2, lv2) r2" by (cases ?t2) auto
  have "\<forall>v \<in> set_tree ?t2. snd v \<le> 41" using split_tree_levels [of "skew_tree t1" 40] b1 by simp
  then have "\<forall>v \<in> set_tree l2. snd v \<le> 41" using t2 by simp
  then have b2: "\<forall>v \<in> set_tree l2. Suc (snd v) < 2 ^ 32" by (auto dest!: bspec)
  let ?t3 = "Node (split_tree l2) (a2, lv2) r2"
  have at2: "addrs (Node l2 (a2, lv2) r2) = addrs (Node l (a, lv) r)" using at1 t2 by (metis addrs_skew addrs_split)
  from split_left_place [OF sp(2) [unfolded t2] b2] obtain x5 tree5 k5 where
    sl: "atree_split (an_left (k_anodes k4 a2)) tree4 k4 = Some (x5, tree5, k5)"
    "at_place k5 tree5 a2 ?t3 c" "at_nodes tree5 = at_nodes tree4" "same_data k4 k5 ?A" unfolding at2 by auto
  from skew_place [OF sl(2)] obtain tree6 k6 where
    s6: "atree_skew a2 tree5 k5 = Some (root_ptr (skew_tree ?t3), tree6, k6)" "at_place k6 tree6 (root_ptr (skew_tree ?t3)) (skew_tree ?t3) c"
    "at_nodes tree6 = at_nodes tree5" "same_data k5 k6 (set (addrs ?t3 @ caddrs c))" by blast
  have "addrs ?t3 = addrs (Node l (a, lv) r)" using at2 by simp
  then have "same_data k5 k6 ?A" using s6(4) by (simp only:)
  then have "same_data k k6 ?A" using k2(3) sk(4) sp(4) sl(4) by (blast intro: same_data_trans)
  moreover have "adjust_tree (Node l (a, lv) r) = skew_tree (split_left ?t2)"
    using low unfolding t1_def by (simp only: adjust_tree.simps fst_conv snd_conv if_True)
  then have "adjust_tree (Node l (a, lv) r) = skew_tree ?t3" by (simp only: t2 split_left.simps)
  moreover have "a2 \<noteq> NULL" "root_ptr (skew_tree ?t3) \<noteq> NULL" using sl(2) s6(2) at_place_nonnull by blast+
  ultimately show ?thesis
    unfolding adjust_node_def k2(1) Option.bind.simps
    using sk(1,3) sp(1,3) sl(1,3) s6 t2
    by (intro exI [of _ tree6] exI [of _ k6] exI [of _ "root_ptr (skew_tree ?t3)"]) (simp add: deref_def)
qed

lemma remove_repair_unfold:
  "remove_repair_from repair tree k =
     (if is_nil repair k then Some (tree, k)
      else do {
        l \<leftarrow> deref (leaves (k_anodes k repair) LEFT) k;
        r \<leftarrow> deref (leaves (k_anodes k repair) RIGHT) k;
        if an_level l < an_level (k_anodes k repair) - 1 \<or> an_level r < an_level (k_anodes k repair) - 1
        then do {
          (par, tree6, k6) \<leftarrow> adjust_node repair tree k;
          remove_repair_from par tree6 k6
        }
        else remove_repair_from (an_parent (k_anodes k repair)) tree k
      })"
  by (subst remove_repair_from.simps)
     (unfold adjust_node_def lower_node_def Let_def Option.bind_assoc case_prod_beta Option.bind.simps fst_conv snd_conv, rule refl)

definition up_ptr :: "place \<Rightarrow> ptr" where
  "up_ptr c = (case c of [] \<Rightarrow> NULL | (d, a, lv, s) # c' \<Rightarrow> a)"

lemma up_ptr_simps [simp]: "up_ptr [] = NULL" "up_ptr ((d, a, lv, s) # c) = a"
  by (simp_all add: up_ptr_def)

lemma at_place_parent: "at_place k tree p t c \<Longrightarrow> t \<noteq> Leaf \<Longrightarrow> an_parent (k_anodes k p) = up_ptr c"
  by (cases t; cases c) (auto simp: at_place_def)

lemma remove_repair_place:
  assumes "at_place k tree p t c" "shrunk t0 t" "aa_inv (plug t0 c)"
  shows "\<exists>tree' k' t'. remove_repair_from (up_ptr c) tree k = Some (tree', k') \<and>
    at_place k' tree' (root_ptr t') t' [] \<and> aa_inv t' \<and> addrs t' = addrs (plug t c) \<and>
    at_nodes tree' = at_nodes tree \<and> same_data k k' (set (addrs t @ caddrs c))"
  using assms
proof (induction c arbitrary: k tree p t t0)
  case Nil
  then show ?case using at_place_ptr [OF Nil.prems(1)]
    by (subst remove_repair_unfold) (auto simp: is_nil_def shrunk_def same_data_def)
next
  case (Cons f c)
  obtain d a lv s where f: "f = (d, a, lv, s)" by (cases f)
  let ?u = "nd d t (a, lv) s" and ?orig = "nd d t0 (a, lv) s"
  let ?A = "set (addrs t @ caddrs (f # c))"
  have pl: "at_place k tree a ?u c" using at_place_up Cons.prems(1) f by blast
  have i0: "aa_inv (plug ?orig c)" using Cons.prems(3) f by simp
  note iu = aa_inv_plug [OF i0]
  have g: "shrunk ?orig (adjust_tree ?u)" by (rule adjust_step [OF iu Cons.prems(2)])
  have A: "set (addrs ?u @ caddrs c) = ?A" by (auto simp: f)
  have "\<exists>l r. ?u = Node l (a, lv) r" by (simp add: nd_def)
  then obtain l r where lr: "?u = Node l (a, lv) r" by blast
  have h: "a \<noteq> NULL" "unat (an_level (k_anodes k a)) = lv" "lv \<noteq> 0" "tr (k_anodes k) a (an_left (k_anodes k a)) l"
    "tr (k_anodes k) a (an_right (k_anodes k a)) r" "sentinel_ok (k_anodes k)"
    using pl unfolding lr by (auto simp: at_place_def)
  have nn: "an_left (k_anodes k a) \<noteq> NULL" "an_right (k_anodes k a) \<noteq> NULL"
    using tr_root [OF h(4)] tr_addrs [OF h(4)] tr_root [OF h(5)] tr_addrs [OF h(5)] by (auto split: tree.splits)
  have nz: "an_level (k_anodes k a) \<noteq> 0" using h(2,3) by auto
  have "unat (an_level (k_anodes k a) - 1) = lv - 1" using h(2,3) by (simp add: unat_sub_if')
  then have low: "an_level (k_anodes k (an_left (k_anodes k a))) < an_level (k_anodes k a) - 1 \<or>
      an_level (k_anodes k (an_right (k_anodes k a))) < an_level (k_anodes k a) - 1 \<longleftrightarrow> lvl l < lv - 1 \<or> lvl r < lv - 1"
    using tr_level [OF h(4,6)] tr_level [OF h(5,6)] by (simp add: word_less_nat_alt)
  have step: "remove_repair_from (up_ptr (f # c)) tree k =
      (if lvl l < lv - 1 \<or> lvl r < lv - 1 then do { (par, tree6, k6) \<leftarrow> adjust_node a tree k; remove_repair_from par tree6 k6 }
       else remove_repair_from (an_parent (k_anodes k a)) tree k)"
    using f h(1) nn nz low by (subst remove_repair_unfold) (simp add: is_nil_def deref_def)
  have ne: "adjust_tree ?u \<noteq> Leaf" by (rule tree_nonempty) (simp add: nd_def)
  have "\<exists>tree1 k1 q. remove_repair_from (up_ptr (f # c)) tree k = remove_repair_from (up_ptr c) tree1 k1 \<and>
      at_place k1 tree1 q (adjust_tree ?u) c \<and> at_nodes tree1 = at_nodes tree \<and> same_data k k1 ?A"
  proof (cases "lvl l < lv - 1 \<or> lvl r < lv - 1")
    case False
    then have "adjust_tree ?u = ?u" unfolding lr by simp
    moreover have "an_parent (k_anodes k a) = up_ptr c" using at_place_parent [OF pl] unfolding lr by simp
    ultimately show ?thesis using step False pl
      by (intro exI [of _ tree] exI [of _ k] exI [of _ a]) (simp add: same_data_def)
  next
    case True
    have "distinct (addrs ?u)" "aa_inv t" using pl Cons.prems(2) by (simp_all add: at_place_def shrunk_def)
    from frame_small [OF iu this(2,1)] have b: "\<forall>v \<in> set_tree (Node l (a, lv) r). snd v \<le> 40" unfolding lr by fastforce
    from adjust_place [OF pl [unfolded lr] b True] obtain tree1 k1 q where
      ad: "adjust_node a tree k = Some (an_parent (k_anodes k1 q), tree1, k1)" "at_place k1 tree1 q (adjust_tree ?u) c"
      "at_nodes tree1 = at_nodes tree" "same_data k k1 ?A" unfolding lr [symmetric] A by blast
    have "an_parent (k_anodes k1 q) = up_ptr c" by (rule at_place_parent [OF ad(2) ne])
    then show ?thesis using step True ad by auto
  qed
  then obtain tree1 k1 q where s: "remove_repair_from (up_ptr (f # c)) tree k = remove_repair_from (up_ptr c) tree1 k1"
    "at_place k1 tree1 q (adjust_tree ?u) c" "at_nodes tree1 = at_nodes tree" "same_data k k1 ?A" by blast
  from Cons.IH [OF s(2) g i0] obtain tree' k' t' where
    r: "remove_repair_from (up_ptr c) tree1 k1 = Some (tree', k')" "at_place k' tree' (root_ptr t') t' []" "aa_inv t'"
    "addrs t' = addrs (plug (adjust_tree ?u) c)" "at_nodes tree' = at_nodes tree1"
    "same_data k1 k' (set (addrs (adjust_tree ?u) @ caddrs c))" by blast
  have "set (addrs (adjust_tree ?u) @ caddrs c) = ?A" using A by simp
  then have "same_data k k' ?A" using same_data_trans [OF s(4)] r(6) by simp
  moreover have "addrs t' = addrs (plug t (f # c))" using r(4) f by (simp add: addrs_plug)
  ultimately show ?case using r s by auto
qed

section \<open>Removal\<close>

lemma focus_place:
  assumes "at_place k tree p t c" "a \<in> set (addrs t)"
  shows "\<exists>l lv r c'. at_place k tree a (Node l (a, lv) r) c' \<and> plug (Node l (a, lv) r) c' = plug t c"
  using assms
proof (induction t arbitrary: p c)
  case (Node l v r)
  obtain b lv where v: "v = (b, lv)" by (cases v)
  have pl: "at_place k tree p (nd LEFT l (b, lv) r) c" "at_place k tree p (nd RIGHT r (b, lv) l) c"
    using Node.prems(1) v by (simp_all add: node_is_nd [symmetric])
  from Node.prems(2) v consider "a = b" | "a \<in> set (addrs l)" | "a \<in> set (addrs r)" by auto
  then show ?case
  proof cases
    case 1
    then show ?thesis using Node.prems(1) v at_place_ptr [OF Node.prems(1)] by (intro exI) auto
  next
    case 2
    from Node.IH(1) [OF at_place_down [OF pl(1)] 2] show ?thesis by (simp add: v node_is_nd(1) [of l])
  next
    case 3
    from Node.IH(2) [OF at_place_down [OF pl(2)] 3] show ?thesis by (simp add: v node_is_nd(2) [of l _ r])
  qed
qed simp

lemma rightmost_place:
  assumes "at_place k tree p t c" "t \<noteq> Leaf"
  shows "\<exists>l lv c'. rightmost p k = Some (last (addrs t)) \<and>
    at_place k tree (last (addrs t)) (Node l (last (addrs t), lv) Leaf) c' \<and> plug (Node l (last (addrs t), lv) Leaf) c' = plug t c"
  using assms
proof (induction t arbitrary: p c)
  case (Node l v r)
  obtain b lv where v: "v = (b, lv)" by (cases v)
  have pl: "at_place k tree p (nd RIGHT r (b, lv) l) c" using Node.prems(1) v by (simp add: node_is_nd [symmetric])
  have p: "p = b" "b \<noteq> NULL" "tr (k_anodes k) b (an_right (k_anodes k b)) r" "sentinel_ok (k_anodes k)"
    using Node.prems(1) v by (auto simp: at_place_def)
  have nil: "is_nil (an_right (k_anodes k b)) k \<longleftrightarrow> r = Leaf"
    using level_nil [OF p(3,4)] tr_root [OF p(3)] tr_addrs [OF p(3)] by (auto simp: is_nil_def split: tree.splits)
  show ?case
  proof (cases "r = Leaf")
    case True
    then show ?thesis using Node.prems(1) v p nil
      by (subst rightmost.simps) (auto simp: deref_def)
  next
    case False
    from Node.IH(2) [OF at_place_down [OF pl] False] obtain l' lv' c' where
      "rightmost (an_right (k_anodes k b)) k = Some (last (addrs r))"
      "at_place k tree (last (addrs r)) (Node l' (last (addrs r), lv') Leaf) c'"
      "plug (Node l' (last (addrs r), lv') Leaf) c' = plug (Node l v r) c" by (auto simp: v node_is_nd(2) [of l _ r])
    moreover have "last (addrs (Node l v r)) = last (addrs r)" using False by (cases r) auto
    moreover have "rightmost p k = rightmost (an_right (k_anodes k b)) k"
      using p(1,2) nil False by (subst rightmost.simps) (simp add: deref_def)
    ultimately show ?thesis by auto
  qed
qed simp

text \<open>Links and levels are all that matters for the shape.\<close>

lemma tr_links:
  "(\<And>a. an_parent (h' a) = an_parent (h a) \<and> an_left (h' a) = an_left (h a) \<and> an_right (h' a) = an_right (h a) \<and>
     an_level (h' a) = an_level (h a)) \<Longrightarrow> tr h' par p t = tr h par p t"
  by (induction h par p t rule: tr.induct) auto

lemma cx_links:
  assumes "\<And>a. an_parent (h' a) = an_parent (h a) \<and> an_left (h' a) = an_left (h a) \<and> an_right (h' a) = an_right (h a) \<and>
     an_level (h' a) = an_level (h a)"
  shows "cx h' root par p c = cx h root par p c"
proof (induction c arbitrary: par p)
  case (Cons f c)
  then show ?case using assms tr_links [OF assms] by (cases f) (simp add: leaves_def)
qed simp

lemma at_place_data:
  "at_place (k\<lparr>k_anodes := (k_anodes k)(n := (k_anodes k n)\<lparr>an_data := x\<rparr>)\<rparr>) tree p t c = at_place k tree p t c"
proof -
  let ?h' = "(k_anodes k)(n := (k_anodes k n)\<lparr>an_data := x\<rparr>)"
  have "an_parent (?h' a) = an_parent (k_anodes k a) \<and> an_left (?h' a) = an_left (k_anodes k a) \<and>
    an_right (?h' a) = an_right (k_anodes k a) \<and> an_level (?h' a) = an_level (k_anodes k a)" for a by simp
  from tr_links [of ?h', OF this] cx_links [of ?h', OF this] show ?thesis
    by (simp add: at_place_def sentinel_ok_def)
qed

lemma remove_leaf_place:
  assumes pl: "at_place k tree a (Node Leaf (a, lv) Leaf) c" and f: "slab_free atree_slab a (k_mm k) = Some m"
  shows "\<exists>tree' k'. do_remove_node a sentinel tree k = Some (tree', k') \<and> at_place k' tree' sentinel Leaf c \<and>
    at_nodes tree' = at_nodes tree - 1 \<and> k' = k\<lparr>k_mm := m, k_anodes := k_anodes k'\<rparr> \<and>
    (\<forall>b. an_data (k_anodes k' b) = an_data (k_anodes k b)) \<and> (\<forall>b. b \<notin> set (caddrs c) \<longrightarrow> k_anodes k' b = k_anodes k b)"
proof -
  let ?h = "k_anodes k"
  from pl obtain par where cx: "cx ?h (at_root tree) par a c" and d: "a \<notin> set (caddrs c)" "distinct (caddrs c)"
    and s: "sentinel_ok ?h" and a: "a \<noteq> NULL" "a \<noteq> sentinel" "an_parent (?h a) = par" by (auto simp: at_place_def)
  have root: "a = at_root tree \<longleftrightarrow> c = []" using cx cx_root [OF cx] d(1) by (cases "c = []") auto
  show ?thesis
  proof (cases c)
    case Nil
    then have "par = NULL" using cx by simp
    then have "do_remove_node a sentinel tree k =
        Some (tree\<lparr>at_root := sentinel, at_nodes := at_nodes tree - 1\<rparr>, k\<lparr>k_mm := m\<rparr>)"
      using a s f root Nil
      by (simp add: do_remove_node_def replace_in_parent_def deref_def is_nil_def sentinel_ok_def k_slab_free_def Let_def)
    then show ?thesis using Nil s by (auto simp: at_place_def)
  next
    case (Cons g c')
    obtain e p lp u where g: "g = (e, p, lp, u)" by (cases g)
    have p: "par = p" "p \<noteq> NULL" "p \<noteq> sentinel" "leaves (?h p) e = a" "tr ?h p (leaves (?h p) (\<not> e)) u"
      "unat (an_level (?h p)) = lp" "lp \<noteq> 0" "cx ?h (at_root tree) (an_parent (?h p)) p c'" using cx Cons g by auto
    have pa: "p \<noteq> a" using d Cons g by auto
    have "leaves (?h p) (\<not> e) \<noteq> a" using tr_root [OF p(5)] a(2) d(1) Cons g by (auto split: tree.splits)
    then have side: "parentside a k = e" using a p(1,2,4) by (cases e) (auto simp: parentside_def leaves_def LEFT_def)
    let ?h' = "?h(p := set_leaf e sentinel (?h p))"
    have run: "do_remove_node a sentinel tree k = Some (tree\<lparr>at_nodes := at_nodes tree - 1\<rparr>, k\<lparr>k_anodes := ?h', k_mm := m\<rparr>)"
      using a s f root Cons p side pa
      by (simp add: do_remove_node_def replace_in_parent_def deref_def upd_anode_def is_nil_def sentinel_ok_def
          k_slab_free_def Let_def)
    have "p \<notin> set (addrs u)" "p \<notin> set (caddrs c')" using d(2) Cons g by auto
    then have "tr ?h' p q u = tr ?h p q u" "cx ?h' rt q r c' = cx ?h rt q r c'" for q rt r
      by (auto intro!: tr_cong cx_cong)
    then have "at_place (k\<lparr>k_anodes := ?h', k_mm := m\<rparr>) (tree\<lparr>at_nodes := at_nodes tree - 1\<rparr>) sentinel Leaf c"
      using p s d(2) Cons g by (simp add: at_place_def sentinel_ok_def)
    then show ?thesis using run Cons g by (auto simp: set_leaf_def)
  qed
qed

lemma remove_leaf_repair:
  assumes pl: "at_place k tree a (Node Leaf (a, lv) Leaf) c" and f: "slab_free atree_slab a (k_mm k) = Some m"
    and i: "aa_inv (plug (Node Leaf (a, lv) Leaf) c)"
  shows "\<exists>tree' k' t'. (do { (tree1, k1) \<leftarrow> do_remove_node a sentinel tree k; remove_repair_from (up_ptr c) tree1 k1 }) =
      Some (tree', k') \<and> at_place k' tree' (root_ptr t') t' [] \<and> aa_inv t' \<and> addrs t' = before c @ after c \<and>
    at_nodes tree' = at_nodes tree - 1 \<and> k' = k\<lparr>k_mm := m, k_anodes := k_anodes k'\<rparr> \<and>
    (\<forall>b. an_data (k_anodes k' b) = an_data (k_anodes k b)) \<and>
    (\<forall>b. b \<notin> set (caddrs c) \<and> b \<noteq> sentinel \<longrightarrow> k_anodes k' b = k_anodes k b)"
proof -
  from remove_leaf_place [OF pl f] obtain tree1 k1 where r1: "do_remove_node a sentinel tree k = Some (tree1, k1)"
    "at_place k1 tree1 sentinel Leaf c" "at_nodes tree1 = at_nodes tree - 1" "k1 = k\<lparr>k_mm := m, k_anodes := k_anodes k1\<rparr>"
    "\<forall>b. an_data (k_anodes k1 b) = an_data (k_anodes k b)" "\<forall>b. b \<notin> set (caddrs c) \<longrightarrow> k_anodes k1 b = k_anodes k b" by blast
  have "lv = 1" using aa_inv_plug [OF i] by simp
  then have "shrunk (Node Leaf (a, lv) Leaf) Leaf" by (simp add: shrunk_def)
  from remove_repair_place [OF r1(2) this i] obtain tree' k' t' where
    r2: "remove_repair_from (up_ptr c) tree1 k1 = Some (tree', k')" "at_place k' tree' (root_ptr t') t' []" "aa_inv t'"
    "addrs t' = before c @ after c" "at_nodes tree' = at_nodes tree1" "same_data k1 k' (set (caddrs c))"
    by (auto simp: addrs_plug)
  then have "k' = k1\<lparr>k_anodes := k_anodes k'\<rparr>" by (simp add: same_data_def)
  then have "k' = k\<lparr>k_mm := m, k_anodes := k_anodes k1\<rparr>\<lparr>k_anodes := k_anodes k'\<rparr>" by (metis r1(4))
  then have "k' = k\<lparr>k_mm := m, k_anodes := k_anodes k'\<rparr>" by simp
  then show ?thesis using r1 r2 by (auto simp: same_data_def)
qed

text \<open>
  \<^verbatim>\<open>atree_remove_repair\<close> takes the data of the neighbour into the node and removes the neighbour; the
  removed node is always a leaf.
\<close>

lemma leaf_level_0: "aa_inv t \<Longrightarrow> lvl t = 0 \<longleftrightarrow> t = Leaf"
  by (cases t) auto

lemma nil_iff: "tr h par p t \<Longrightarrow> h = k_anodes k \<Longrightarrow> sentinel_ok h \<Longrightarrow> is_nil p k \<longleftrightarrow> t = Leaf"
  using level_nil [of h par p t] tr_root [of h par p t] tr_addrs [of h par p t]
  by (auto simp: is_nil_def split: tree.splits)

lemma at_place_distinct: "at_place k tree p t c \<Longrightarrow> distinct (addrs (plug t c))"
proof -
  have "distinct (addrs t @ caddrs c) \<Longrightarrow> distinct (before c @ addrs t @ after c)"
    by (induction c arbitrary: t rule: caddrs.induct) (auto simp: set_before_after)
  then show "at_place k tree p t c \<Longrightarrow> distinct (addrs (plug t c))" by (simp add: at_place_def addrs_plug)
qed

lemma remove_position:
  assumes "distinct (xs @ n # ys)" "bs @ a # cs = xs @ n # ys"
    and "a = n \<or> (\<exists>rs. cs = n # rs) \<or> (\<exists>ls. bs = ls @ [n])"
  shows "map (\<lambda>b. if b = n then d a else d b) (bs @ cs) = map d (xs @ ys)"
proof -
  have n: "n \<notin> set xs" "n \<notin> set ys" using assms(1) by auto
  from assms(3) show ?thesis
  proof (elim disjE exE)
    assume "a = n"
    then have "bs = xs" "cs = ys" using assms(2) n append_Cons_eq_iff [of n xs ys bs cs] by auto
    then show ?thesis using n by auto
  next
    fix rs assume cs: "cs = n # rs"
    then have "xs @ n # ys = (bs @ [a]) @ n # rs" using assms(2) by simp
    then have "xs = bs @ [a]" "ys = rs" using n append_Cons_eq_iff [of n xs ys "bs @ [a]" rs] by auto
    then show ?thesis using n cs by auto
  next
    fix ls assume bs: "bs = ls @ [n]"
    then have "xs @ n # ys = ls @ n # a # cs" using assms(2) by simp
    then have "xs = ls" "ys = a # cs" using n append_Cons_eq_iff [of n xs ys ls "a # cs"] by auto
    then show ?thesis using n bs by auto
  qed
qed

lemma leaves_True: "leaves n True = an_right n"
  by (simp add: leaves_def LEFT_def)

text \<open>
  The node that leaves the tree in the place of \<open>n\<close>: \<open>n\<close> itself if it is a leaf, else its neighbour to
  the left or to the right, whose data moves to \<open>n\<close>.
\<close>

definition remove_via :: "'a katree_scheme \<Rightarrow> c4_atree_t \<Rightarrow> ptr \<Rightarrow> atree \<Rightarrow> ptr \<Rightarrow> place \<Rightarrow> bool" where
  "remove_via k tree n t a ca \<longleftrightarrow> at_place k tree a (Node Leaf (a, 1) Leaf) ca \<and> plug (Node Leaf (a, 1) Leaf) ca = t \<and>
     (a = n \<or> (\<exists>rs. after ca = n # rs) \<or> (\<exists>ls. before ca = ls @ [n])) \<and>
     atree_remove tree n k = do {
       (tree1, k1) \<leftarrow> do_remove_node a sentinel tree
         (k\<lparr>k_anodes := (k_anodes k)(n := (k_anodes k n)\<lparr>an_data := an_data (k_anodes k a)\<rparr>)\<rparr>);
       remove_repair_from (up_ptr ca) tree1 k1
     }"

lemmas remove_run = atree_remove_def atree_remove_repair_def find_max_node_def find_min_node_def deref_def Let_def
  upd_anode_def sentinel_ok_def is_nil_def leaves_True

lemma remove_via_self:
  assumes pl: "at_place k tree n (Node Leaf (n, 1) Leaf) c"
  shows "remove_via k tree n (plug (Node Leaf (n, 1) Leaf) c) n c"
proof -
  have "n \<noteq> NULL" "an_left (k_anodes k n) = sentinel" "an_right (k_anodes k n) = sentinel" "sentinel_ok (k_anodes k)"
    using pl by (auto simp: at_place_def)
  then have "atree_remove tree n k = do { (tree1, k1) \<leftarrow> do_remove_node n sentinel tree k; remove_repair_from (up_ptr c) tree1 k1 }"
    using at_place_parent [OF pl] by (simp add: remove_run)
  then show ?thesis using pl by (simp add: remove_via_def fun_upd_idem)
qed

lemma remove_via_left:
  assumes pl: "at_place k tree n (Node l (n, lv) r) c" and i: "aa_inv (plug (Node l (n, lv) r) c)" and left: "l \<noteq> Leaf"
  shows "\<exists>ca. remove_via k tree n (plug (Node l (n, lv) r) c) (last (addrs l)) ca"
proof -
  let ?h = "k_anodes k" and ?a = "last (addrs l)"
  have h: "n \<noteq> NULL" "tr ?h n (an_left (?h n)) l" "sentinel_ok ?h" using pl by (auto simp: at_place_def)
  have "at_place k tree (an_left (?h n)) l ((LEFT, n, lv, r) # c)"
    using at_place_down [of k tree n LEFT l n lv r c] pl by (simp add: node_is_nd(1) [of l])
  from rightmost_place [OF this left] obtain l' lv' ca where
    rm: "rightmost (an_left (?h n)) k = Some ?a" "at_place k tree ?a (Node l' (?a, lv') Leaf) ca"
    "plug (Node l' (?a, lv') Leaf) ca = plug (Node l (n, lv) r) c" by (auto simp: node_is_nd(1) [of l])
  have "aa_inv (Node l' (?a, lv') Leaf)" using aa_inv_plug i rm(3) by metis
  then have l': "lv' = 1" "l' = Leaf" using leaf_level_0 [of l'] by auto
  have pa: "at_place k tree ?a (Node Leaf (?a, 1) Leaf) ca" using rm(2) l' by simp
  have a: "?a \<noteq> NULL" "an_left (?h ?a) = sentinel" "an_right (?h ?a) = sentinel" "an_level (?h ?a) \<noteq> 0"
    using pa by (auto simp: at_place_def)
  have ne: "addrs l \<noteq> []" using left by (cases l) auto
  then have an: "?a \<noteq> n" using pl last_in_set [OF ne] by (auto simp: at_place_def)
  have run: "atree_remove tree n k = do {
      (tree1, k1) \<leftarrow> do_remove_node ?a sentinel tree (k\<lparr>k_anodes := (?h)(n := (?h n)\<lparr>an_data := an_data (?h ?a)\<rparr>)\<rparr>);
      remove_repair_from (up_ptr ca) tree1 k1
    }"
    using h nil_iff [OF h(2) refl h(3)] left rm(1) a an at_place_parent [OF pa] by (simp add: remove_run)
  have "before ca @ ?a # after ca = before c @ addrs l @ n # addrs r @ after c"
    using rm(3) l' by (metis addrs.simps addrs_plug append_Cons append_Nil append_assoc fst_conv)
  also have "\<dots> = (before c @ butlast (addrs l)) @ ?a # (n # addrs r @ after c)"
    using ne by (metis append_Cons append_Nil append_assoc append_butlast_last_id)
  finally have eq: "before ca @ ?a # after ca = (before c @ butlast (addrs l)) @ ?a # (n # addrs r @ after c)" .
  have "?a \<notin> set (before ca)" "?a \<notin> set (after ca)" using at_place_distinct [OF pa] by (auto simp: addrs_plug)
  then have "after ca = n # addrs r @ after c" using eq append_Cons_eq_iff by metis
  then show ?thesis using pa rm(3) l' run by (auto simp: remove_via_def)
qed

lemma remove_via_right:
  assumes pl: "at_place k tree n (Node Leaf (n, lv) r) c" and i: "aa_inv (Node Leaf (n, lv) r)" and right: "r \<noteq> Leaf"
  shows "\<exists>b ca. remove_via k tree n (plug (Node Leaf (n, lv) r) c) b ca"
proof -
  let ?h = "k_anodes k"
  have h: "n \<noteq> NULL" "an_left (?h n) = sentinel" "sentinel_ok ?h" using pl by (auto simp: at_place_def)
  have "lvl r = 1" using i right leaf_level_0 [of r] by auto
  then obtain rl b rr where r: "r = Node rl (b, 1) rr" using right by (cases r) auto
  with i have rr: "rl = Leaf" "rr = Leaf" "lv = 1" using leaf_level_0 [of rl] leaf_level_0 [of rr] by auto
  have "at_place k tree (an_right (?h n)) r ((RIGHT, n, lv, Leaf) # c)"
    using at_place_down [of k tree n RIGHT r n lv Leaf c] pl by (simp add: node_is_nd(2) [of Leaf _ r])
  then have pa: "at_place k tree b (Node Leaf (b, 1) Leaf) ((RIGHT, n, 1, Leaf) # c)"
    using r rr at_place_ptr by fastforce
  have b: "b \<noteq> NULL" "an_left (?h b) = sentinel" "an_right (?h b) = sentinel" "an_level (?h b) \<noteq> 0" "an_right (?h n) = b"
    "an_parent (?h b) = n" using pa by (auto simp: at_place_def)
  have bn: "b \<noteq> n" using pl r by (auto simp: at_place_def)
  have "leftmost b k = Some b" using b h(3) by (subst leftmost.simps) (simp add: deref_def is_nil_def sentinel_ok_def)
  then have "atree_remove tree n k = do {
      (tree1, k1) \<leftarrow> do_remove_node b sentinel tree (k\<lparr>k_anodes := (?h)(n := (?h n)\<lparr>an_data := an_data (?h b)\<rparr>)\<rparr>);
      remove_repair_from (up_ptr ((RIGHT, n, 1, Leaf) # c)) tree1 k1
    }"
    using h b bn by (simp add: remove_run)
  then show ?thesis using pa r rr by (intro exI [of _ b] exI [of _ "(RIGHT, n, 1, Leaf) # c"]) (simp add: remove_via_def nd_def)
qed

lemma remove_target:
  assumes pl: "at_place k tree n (Node l (n, lv) r) c" and i: "aa_inv (plug (Node l (n, lv) r) c)"
  obtains a ca where "remove_via k tree n (plug (Node l (n, lv) r) c) a ca"
proof -
  have "aa_inv (Node l (n, lv) r)" by (rule aa_inv_plug [OF i])
  then consider "l = Leaf" "r = Leaf" "lv = 1" | "l \<noteq> Leaf" | "l = Leaf" "r \<noteq> Leaf" "aa_inv (Node Leaf (n, lv) r)" by fastforce
  then show thesis
    using that remove_via_self remove_via_left [OF pl i] remove_via_right pl by cases blast+
qed

text \<open>Removing a node removes its data, at its position, and keeps the rest in order.\<close>

lemma do_remove_node_free: "do_remove_node a v tree k = Some r \<Longrightarrow> slab_free atree_slab a (k_mm k) \<noteq> None"
  by (auto simp: do_remove_node_def replace_in_parent_def upd_anode_def deref_def k_slab_free_def Let_def
      elim!: bind_eq_SomeE split: if_splits)

text \<open>The line that is left when a node is gone and the data of \<open>n\<close> with it.\<close>

lemma atree_rep_shrink:
  assumes rep: "atree_rep get_key k tree (xs @ n # ys)" and eq: "bs @ a # cs = xs @ n # ys" and dn: "distinct (xs @ n # ys)"
    and m: "slab_free atree_slab a (k_mm k) = Some m" "k_mm k' = m"
    and t': "at_place k' tree' (root_ptr t') t' []" "aa_inv t'" "addrs t' = bs @ cs" "at_nodes tree' = at_nodes tree - 1"
    and data: "map (\<lambda>b. an_data (k_anodes k' b)) (bs @ cs) = map (\<lambda>b. an_data (k_anodes k b)) (xs @ ys)"
  shows "atree_rep get_key k' tree' (bs @ cs) \<and> slab_live atree_slab m = slab_live atree_slab (k_mm k) - {a} \<and>
    set (bs @ cs) = set (xs @ n # ys) - {a}"
proof -
  have len: "at_nodes tree = of_nat (length (bs @ a # cs))" and slab: "slab_inv atree_slab (k_mm k)"
    and live: "set (bs @ a # cs) \<subseteq> slab_live atree_slab (k_mm k)" and so: "sorted (map (node_key get_key k) (xs @ n # ys))"
    and nn: "\<forall>a \<in> set (xs @ n # ys). 0 \<le> node_key get_key k a"
    using rep unfolding atree_rep_def eq by blast+
  have keys: "map (node_key get_key k') (bs @ cs) = map (node_key get_key k) (xs @ ys)"
    using arg_cong [OF data, of "map (\<lambda>d. sint (get_key d))"] by (simp add: comp_def)
  have "sorted (map (node_key get_key k') (bs @ cs))" unfolding keys using so by (simp add: sorted_append)
  moreover have "\<forall>x \<in> set (map (node_key get_key k') (bs @ cs)). 0 \<le> x" unfolding keys using nn by auto
  then have "\<forall>b \<in> set (bs @ cs). 0 \<le> node_key get_key k' b" unfolding list.set_map by blast
  moreover have d: "distinct (bs @ a # cs)" using dn by (simp only: eq)
  then have "set (bs @ cs) \<subseteq> slab_live atree_slab (k_mm k) - {a}" using live by auto
  moreover have sl: "slab_inv atree_slab m" "slab_live atree_slab m = slab_live atree_slab (k_mm k) - {a}"
    using slab_free_ok [OF slab _ m(1)] live by auto
  moreover have "at_root tree' = root_ptr t'" using t'(1) by (auto simp: at_place_def)
  ultimately have "atree_rep get_key k' tree' (bs @ cs)" using t' len m(2) unfolding atree_rep_def by auto
  moreover have "set (bs @ cs) = set (bs @ a # cs) - {a}" using d by auto
  ultimately show ?thesis using sl(2) unfolding eq by blast
qed

lemma atree_remove_rep:
  assumes rep: "atree_rep get_key k tree (xs @ n # ys)"
    and fr: "atree_remove tree n k \<noteq> None \<or> (\<forall>a \<in> set (xs @ n # ys). slab_free atree_slab a (k_mm k) \<noteq> None)"
  shows "\<exists>tree' k' ns a. atree_remove tree n k = Some (tree', k') \<and> atree_rep get_key k' tree' ns \<and>
    map (\<lambda>a. an_data (k_anodes k' a)) ns = map (\<lambda>a. an_data (k_anodes k a)) (xs @ ys) \<and>
    k' = k\<lparr>k_mm := k_mm k', k_anodes := k_anodes k'\<rparr> \<and>
    (\<forall>a. a \<notin> set (xs @ n # ys) \<and> a \<noteq> sentinel \<longrightarrow> k_anodes k' a = k_anodes k a) \<and>
    a \<in> set (xs @ n # ys) \<and> set ns = set (xs @ n # ys) - {a} \<and> slab_live atree_slab (k_mm k') = slab_live atree_slab (k_mm k) - {a}"
proof -
  let ?ns = "xs @ n # ys" and ?d = "\<lambda>a. an_data (k_anodes k a)"
  from rep obtain t where t: "at_place k tree (at_root tree) t []" "aa_inv t" "addrs t = ?ns"
    by (auto simp: atree_rep_def)
  have dn: "distinct ?ns" using at_place_distinct [OF t(1)] t(3) by simp
  have "n \<in> set (addrs t)" using t(3) by simp
  from focus_place [OF t(1) this] obtain l lv r c where pl: "at_place k tree n (Node l (n, lv) r) c"
    and pt: "plug (Node l (n, lv) r) c = t" by auto
  from remove_target [OF pl] t(2) pt obtain a ca where pa: "at_place k tree a (Node Leaf (a, 1) Leaf) ca"
    and pca: "plug (Node Leaf (a, 1) Leaf) ca = t" and adj: "a = n \<or> (\<exists>rs. after ca = n # rs) \<or> (\<exists>ls. before ca = ls @ [n])"
    and run: "atree_remove tree n k = do {
      (tree1, k1) \<leftarrow> do_remove_node a sentinel tree (k\<lparr>k_anodes := (k_anodes k)(n := (k_anodes k n)\<lparr>an_data := ?d a\<rparr>)\<rparr>);
      remove_repair_from (up_ptr ca) tree1 k1
    }" unfolding remove_via_def by metis
  let ?k1 = "k\<lparr>k_anodes := (k_anodes k)(n := (k_anodes k n)\<lparr>an_data := ?d a\<rparr>)\<rparr>"
  have eq: "before ca @ a # after ca = ?ns" using pca t(3) by (metis addrs.simps addrs_plug append_Cons append_Nil fst_conv)
  then have a: "a \<in> set ?ns" by (metis in_set_conv_decomp)
  have "atree_remove tree n k \<noteq> None \<Longrightarrow> slab_free atree_slab a (k_mm ?k1) \<noteq> None"
    unfolding run by (auto dest: do_remove_node_free elim!: bind_eq_SomeE)
  then have "slab_free atree_slab a (k_mm k) \<noteq> None" using fr a by fastforce
  then obtain m where m: "slab_free atree_slab a (k_mm k) = Some m" by blast
  have "at_place ?k1 tree a (Node Leaf (a, 1) Leaf) ca" using pa by (simp only: at_place_data)
  moreover have "slab_free atree_slab a (k_mm ?k1) = Some m" using m by simp
  ultimately obtain tree' k' t' where r: "(do { (tree1, k1) \<leftarrow> do_remove_node a sentinel tree ?k1; remove_repair_from (up_ptr ca) tree1 k1 }) =
      Some (tree', k')" "at_place k' tree' (root_ptr t') t' []" "aa_inv t'" "addrs t' = before ca @ after ca"
    "at_nodes tree' = at_nodes tree - 1" "k' = ?k1\<lparr>k_mm := m, k_anodes := k_anodes k'\<rparr>"
    "\<forall>b. an_data (k_anodes k' b) = an_data (k_anodes ?k1 b)" "\<forall>b. b \<notin> set (caddrs ca) \<and> b \<noteq> sentinel \<longrightarrow> k_anodes k' b = k_anodes ?k1 b"
    using remove_leaf_repair [of ?k1 tree a 1 ca m] pca t(2) by metis
  let ?new = "before ca @ after ca"
  have data: "map (\<lambda>b. an_data (k_anodes k' b)) ?new = map ?d (xs @ ys)"
  proof -
    have "(\<lambda>b. an_data (k_anodes k' b)) = (\<lambda>b. if b = n then ?d a else ?d b)" using r(7) by (auto simp: fun_eq_iff)
    then show ?thesis using remove_position [OF dn eq adj, of ?d] by (simp only:)
  qed
  have mm: "k_mm k' = m" by (subst r(6)) simp
  note left = atree_rep_shrink [OF rep eq dn m mm r(2-5) data]
  have frame: "k' = k\<lparr>k_mm := k_mm k', k_anodes := k_anodes k'\<rparr>" by (subst r(6)) (simp add: mm)
  have keep: "\<forall>b. b \<notin> set ?ns \<and> b \<noteq> sentinel \<longrightarrow> k_anodes k' b = k_anodes k b"
  proof (intro allI impI)
    fix b assume b: "b \<notin> set ?ns \<and> b \<noteq> sentinel"
    then have "b \<notin> set (before ca @ a # after ca)" "b \<noteq> n" unfolding eq by auto
    then have "b \<notin> set (caddrs ca)" "b \<noteq> n" by (simp_all add: set_before_after)
    then show "k_anodes k' b = k_anodes k b" using r(8) b by simp
  qed
  show ?thesis using run r(1) data left frame keep a mm
    by (intro exI [of _ tree'] exI [of _ k'] exI [of _ ?new] exI [of _ a]) simp
qed

section \<open>A line ordered by priority\<close>

text \<open>The values in the order of their keys; a new value goes behind those with the same key.\<close>

definition insert_after :: "('d \<Rightarrow> int) \<Rightarrow> 'd \<Rightarrow> 'd list \<Rightarrow> 'd list" where
  "insert_after f x xs = takeWhile (\<lambda>y. f y \<le> f x) xs @ x # dropWhile (\<lambda>y. f y \<le> f x) xs"

lemma insert_after_eq:
  assumes "\<forall>y \<in> set ys. f y \<le> f x" "\<forall>z \<in> set zs. f x < f z"
  shows "insert_after f x (ys @ zs) = ys @ x # zs"
proof -
  have "takeWhile (\<lambda>y. f y \<le> f x) zs = []" "dropWhile (\<lambda>y. f y \<le> f x) zs = zs" using assms(2) by (cases zs; force)+
  then show ?thesis using assms(1) by (simp add: insert_after_def takeWhile_append dropWhile_append)
qed

lemma mset_insert_after [simp]: "mset (insert_after f x xs) = add_mset x (mset xs)"
proof -
  let ?P = "\<lambda>y. f y \<le> f x"
  have "mset (insert_after f x xs) = add_mset x (mset (takeWhile ?P xs @ dropWhile ?P xs))"
    unfolding insert_after_def by (simp del: takeWhile_dropWhile_id)
  then show ?thesis unfolding takeWhile_dropWhile_id .
qed

lemma set_insert_after [simp]: "set (insert_after f x xs) = insert x (set xs)"
  by (metis mset_insert_after set_mset_add_mset_insert set_mset_mset)

lemma insert_after_sort: "insert_after f x (sort_key f xs) = sort_key f (xs @ [x])"
proof (rule sym, rule properties_for_sort_key)
  let ?s = "sort_key f xs"
  let ?a = "takeWhile (\<lambda>y. f y \<le> f x) ?s" and ?b = "dropWhile (\<lambda>y. f y \<le> f x) ?s"
  have b: "f x < f z" if "z \<in> set ?b" for z
  proof -
    have so: "sorted (map f ?b)" using sorted_sort_key [of f xs] by (metis sorted_append map_append takeWhile_dropWhile_id)
    have "?b \<noteq> []" using that by (metis empty_iff empty_set)
    then have "\<not> f (hd ?b) \<le> f x" by (rule hd_dropWhile)
    moreover have "f (hd ?b) \<le> f z" using so that by (cases ?b) auto
    ultimately show ?thesis by simp
  qed
  show "mset (insert_after f x ?s) = mset (xs @ [x])" by simp
  show "filter (\<lambda>y. f k = f y) (insert_after f x ?s) = filter (\<lambda>y. f k = f y) (xs @ [x])" if "k \<in> set (insert_after f x ?s)" for k
  proof -
    have "filter (\<lambda>y. f k = f y) xs = filter (\<lambda>y. f k = f y) (?a @ ?b)" by (simp add: eq_commute [of "f k"] sort_key_stable)
    then have st: "filter (\<lambda>y. f k = f y) xs = filter (\<lambda>y. f k = f y) ?a @ filter (\<lambda>y. f k = f y) ?b"
      unfolding filter_append .
    show ?thesis
    proof (cases "f k = f x")
      case True
      then have "filter (\<lambda>y. f k = f y) ?b = []" using b by (fastforce simp: filter_empty_conv)
      then show ?thesis using st True by (simp add: insert_after_def)
    next
      case False
      then show ?thesis using st by (simp add: insert_after_def)
    qed
  qed
  have "sorted (map f (?a @ ?b))" by simp
  then have "sorted (map f ?a)" "sorted (map f ?b)" unfolding map_append sorted_append by blast+
  moreover have "f y \<le> f x" if "y \<in> set ?a" for y using that by (auto dest: set_takeWhileD)
  ultimately show "sorted (map f (insert_after f x ?s))" using b
    by (fastforce simp: insert_after_def sorted_append intro: order.strict_implies_order)
qed

text \<open>
  \<open>rep s xs\<close>: the values \<open>xs\<close> are waiting, in this order. \<open>put\<close> adds a value with a non-negative key at
  its place and \<open>get\<close> takes the first, when they return.
\<close>

locale prio_line =
  fixes rep :: "'s \<Rightarrow> 'd list \<Rightarrow> bool"
    and key :: "'d \<Rightarrow> int"
    and put :: "'d \<Rightarrow> 's \<Rightarrow> 's option"
    and get :: "'s \<Rightarrow> ('d option \<times> 's) option"
  assumes put_rep: "rep s xs \<Longrightarrow> 0 \<le> key x \<Longrightarrow> put x s = Some s' \<Longrightarrow> rep s' (insert_after key x xs)"
    and get_empty: "rep s [] \<Longrightarrow> get s = Some (None, s)"
    and get_rep: "rep s (x # xs) \<Longrightarrow> get s = Some (y, s') \<Longrightarrow> y = Some x \<and> rep s' xs"
begin

fun put_all :: "'d list \<Rightarrow> 's \<Rightarrow> 's option" where
  "put_all [] s = Some s"
| "put_all (x # xs) s = do { s' \<leftarrow> put x s; put_all xs s' }"

fun get_many :: "nat \<Rightarrow> 's \<Rightarrow> ('d option list \<times> 's) option" where
  "get_many 0 s = Some ([], s)"
| "get_many (Suc n) s = do {
     (x, s1) \<leftarrow> get s;
     (xs, s2) \<leftarrow> get_many n s1;
     Some (x # xs, s2)
   }"

lemma put_all_rep:
  "rep s (sort_key key xs) \<Longrightarrow> \<forall>y \<in> set ys. 0 \<le> key y \<Longrightarrow> put_all ys s = Some s' \<Longrightarrow> rep s' (sort_key key (xs @ ys))"
proof (induction ys arbitrary: s xs)
  case (Cons y ys)
  then obtain s1 where s1: "put y s = Some s1" "put_all ys s1 = Some s'" by (auto elim!: bind_eq_SomeE)
  have "rep s1 (sort_key key (xs @ [y]))"
    using put_rep [OF Cons.prems(1) _ s1(1)] Cons.prems(2) by (simp add: insert_after_sort)
  from Cons.IH [OF this _ s1(2)] Cons.prems(2) show ?case by simp
qed simp

lemma get_many_rep:
  "rep s xs \<Longrightarrow> n \<le> length xs \<Longrightarrow> get_many n s = Some (ys, s') \<Longrightarrow> ys = map Some (take n xs) \<and> rep s' (drop n xs)"
proof (induction n arbitrary: s xs ys)
  case (Suc n)
  then obtain x xs' where xs: "xs = x # xs'" by (cases xs) auto
  from Suc.prems(3) obtain y s1 zs where 1: "get s = Some (y, s1)"
    and 2: "get_many n s1 = Some (zs, s')" and ys: "ys = y # zs"
    by (auto elim!: bind_eq_SomeE)
  from get_rep [OF Suc.prems(1) [unfolded xs] 1] have "y = Some x" "rep s1 xs'" by blast+
  with Suc.IH [OF _ _ 2, of xs'] Suc.prems(2) xs ys show ?case by simp
qed simp

lemma sorts:
  assumes "rep s []" and "\<forall>x \<in> set xs. 0 \<le> key x" and "put_all xs s = Some s1" and "get_many (length xs) s1 = Some (ys, s2)"
  shows "ys = map Some (sort_key key xs) \<and> rep s2 []"
proof -
  have "rep s1 (sort_key key xs)" using put_all_rep [of s "[]" xs] assms(1-3) by simp
  from get_many_rep [OF this _ assms(4)] show ?thesis by simp
qed

end

text \<open>The tree as such a line: its data from left to right, insertion, and removal of the first node.\<close>

definition atree_holds :: "get_key_t \<Rightarrow> c4_atree_t \<times> 'a katree_scheme \<Rightarrow> ptr list \<Rightarrow> bool" where
  "atree_holds get_key s ds \<longleftrightarrow> (\<exists>ns. atree_rep get_key (snd s) (fst s) ns \<and> ds = map (\<lambda>n. an_data (k_anodes (snd s) n)) ns)"

definition atree_put :: "get_key_t \<Rightarrow> ptr \<Rightarrow> c4_atree_t \<times> 'a katree_scheme \<Rightarrow> (c4_atree_t \<times> 'a katree_scheme) option" where
  "atree_put get_key d s = map_option snd (atree_insert get_key (fst s) d (snd s))"

definition atree_get_first :: "c4_atree_t \<times> 'a katree_scheme \<Rightarrow> (ptr option \<times> c4_atree_t \<times> 'a katree_scheme) option" where
  "atree_get_first s = do {
     n \<leftarrow> atree_start (fst s) (snd s);
     if n = NULL then Some (None, s)
     else do {
       s' \<leftarrow> atree_remove (fst s) n (snd s);
       Some (Some (an_data (k_anodes (snd s) n)), s')
     }
   }"

lemma slab_live_not_sentinel:
  assumes "slab_inv s m" shows "sentinel \<notin> slab_live s m"
proof
  assume "sentinel \<in> slab_live s m"
  moreover from assms obtain L where L: "slab_core m s L" and r: "region_inv (mm_region m)" by (auto simp: slab_inv_def)
  ultimately obtain w b n where b: "b \<in> set (L w)" "n \<in> bits [blk_map (mm_blks m b)]" "n \<noteq> 0" "sentinel = slot m s b n"
    by (auto simp: slab_live_eq [OF L] slab_objs_def)
  have z: "128 \<le> sl_obj_size (mm_slabs m s)" "sl_obj_size (mm_slabs m s) \<le> 132" using L by (simp_all add: slab_core_def)
  have "n < 32" using b(2) by (simp add: bits_single)
  note a = slot_nat [OF r slab_core_block(1) [OF L b(1)] z this]
  have "unat sentinel mod 4096 = (n * unat (sl_obj_size (mm_slabs m s))) mod 4096"
    using a(1,3) b(4) by (simp add: slot_def mod_add_left_eq [symmetric])
  moreover have "unat sentinel mod 4096 = 0" by (simp add: sentinel_def)
  ultimately show False using a(2) b(3) z(1) by (simp add: word_le_nat_alt)
qed

lemma slab_alloc_not_sentinel: "slab_inv s m \<Longrightarrow> slab_alloc s m = Some (p, m') \<Longrightarrow> p \<noteq> sentinel"
  using slab_alloc_ok [of s m p m'] slab_live_not_sentinel [of s m'] by blast

lemma atree_rep_nonnull: "atree_rep get_key k tree ns \<Longrightarrow> NULL \<notin> set ns"
  by (auto simp: atree_rep_def at_place_def dest!: tr_addrs)

lemma atree_insert_alloc: "atree_insert get_key tree d k = Some r \<Longrightarrow> \<exists>n m. slab_alloc atree_slab (k_mm k) = Some (n, m)"
  by (auto simp: atree_insert_def make_anode_def k_slab_alloc_def elim!: bind_eq_SomeE split: prod.splits)

interpretation atree: prio_line "atree_holds get_key" "\<lambda>d. sint (get_key d)" "atree_put get_key" atree_get_first for get_key
proof (unfold_locales, goal_cases)
  case (1 s ds d s')
  then obtain ns where rep: "atree_rep get_key (snd s) (fst s) ns" and ds: "ds = map (\<lambda>n. an_data (k_anodes (snd s) n)) ns"
    by (auto simp: atree_holds_def)
  from 1(3) obtain p where ins: "atree_insert get_key (fst s) d (snd s) = Some (p, s')" by (auto simp: atree_put_def)
  then obtain n m where al: "slab_alloc atree_slab (k_mm (snd s)) = Some (n, m)" using atree_insert_alloc by blast
  have "n \<noteq> sentinel" using slab_alloc_not_sentinel [OF _ al] rep by (simp add: atree_rep_def)
  from atree_insert_rep [OF rep al this 1(2)] ins obtain xs ys where
    r: "ns = xs @ ys" "atree_rep get_key (snd s') (fst s') (xs @ n # ys)" "n \<notin> set ns" "an_data (k_anodes (snd s') n) = d"
    "\<forall>a. a \<noteq> n \<longrightarrow> an_data (k_anodes (snd s') a) = an_data (k_anodes (snd s) a)"
    "\<forall>a \<in> set xs. node_key get_key (snd s) a \<le> sint (get_key d)" "\<forall>a \<in> set ys. sint (get_key d) < node_key get_key (snd s) a"
    by fastforce
  let ?d = "\<lambda>n. an_data (k_anodes (snd s) n)"
  have "insert_after (\<lambda>d. sint (get_key d)) d ds = map ?d xs @ d # map ?d ys"
    unfolding ds r(1) map_append by (rule insert_after_eq) (use r(6,7) in auto)
  also have "\<dots> = map (\<lambda>n. an_data (k_anodes (snd s') n)) (xs @ n # ys)" using r(1,3,4,5) by auto
  finally show ?case using r(2) unfolding atree_holds_def by blast
next
  case (2 s)
  then show ?case using atree_start_first by (fastforce simp: atree_holds_def atree_get_first_def)
next
  case (3 s d ds y s')
  then obtain n ns where rep: "atree_rep get_key (snd s) (fst s) (n # ns)" and d: "d = an_data (k_anodes (snd s) n)"
    and ds: "ds = map (\<lambda>n. an_data (k_anodes (snd s) n)) ns" by (auto simp: atree_holds_def)
  have n: "n \<noteq> NULL" using atree_rep_nonnull [OF rep] by auto
  with 3(2) atree_start_first [OF rep] have rm: "atree_remove (fst s) n (snd s) = Some s'" "y = Some d"
    by (auto simp: atree_get_first_def d elim!: bind_eq_SomeE)
  from rep have "atree_rep get_key (snd s) (fst s) ([] @ n # ns)" by simp
  from atree_remove_rep [OF this] rm(1) obtain ms where "atree_rep get_key (snd s') (fst s') ms"
    "map (\<lambda>a. an_data (k_anodes (snd s') a)) ms = ds" by (fastforce simp: ds)
  then show ?case using rm(2) by (auto simp: atree_holds_def)
qed

lemma atree_rep_frame:
  assumes "atree_rep get_key k tree ms" and "\<And>a. a \<in> set ms \<Longrightarrow> k_anodes k' a = k_anodes k a"
    and "sentinel_ok (k_anodes k')" and "slab_inv atree_slab (k_mm k')" and "set ms \<subseteq> slab_live atree_slab (k_mm k')"
  shows "atree_rep get_key k' tree ms"
proof -
  from assms(1) obtain t where t: "at_place k tree (at_root tree) t []" "aa_inv t" "addrs t = ms"
    and so: "sorted (map (node_key get_key k) ms)" by (auto simp: atree_rep_def)
  have "tr (k_anodes k') par p t = tr (k_anodes k) par p t" for par p using assms(2) t(3) by (intro tr_cong) simp
  then have "at_place k' tree (at_root tree) t []" using t(1) assms(3) by (simp add: at_place_def)
  moreover have "map (node_key get_key k') ms = map (node_key get_key k) ms" using assms(2) by simp
  ultimately show ?thesis using assms t so unfolding atree_rep_def by (intro conjI) (auto simp del: map_eq_conv)
qed

lemma atree_rep_key_cong:
  assumes "atree_rep get_key k tree ms" and "\<And>a. a \<in> set ms \<Longrightarrow> get_key' (an_data (k_anodes k a)) = get_key (an_data (k_anodes k a))"
  shows "atree_rep get_key' k tree ms"
proof -
  have "map (node_key get_key' k) ms = map (node_key get_key k) ms" using assms(2) by simp
  then show ?thesis using assms unfolding atree_rep_def by (metis (no_types, lifting))
qed

lemma atree_rep_sentinel: "atree_rep get_key k tree ns \<Longrightarrow> sentinel_ok (k_anodes k)"
  by (auto simp: atree_rep_def at_place_def)

text \<open>Two trees in one heap do not disturb each other.\<close>

lemma atree_insert_two:
  assumes rep: "atree_rep get_key k tree ns" and other: "atree_rep key2 k tree2 ms" "set ns \<inter> set ms = {}"
    and key: "0 \<le> sint (get_key d)" and run: "atree_insert get_key tree d k = Some (n, tree', k')"
  shows "\<exists>ns'. atree_rep get_key k' tree' ns' \<and> atree_rep key2 k' tree2 ms \<and> set ns' \<inter> set ms = {} \<and>
    map (\<lambda>a. an_data (k_anodes k' a)) ns' = insert_after (\<lambda>d. sint (get_key d)) d (map (\<lambda>a. an_data (k_anodes k a)) ns) \<and>
    map (\<lambda>a. an_data (k_anodes k' a)) ms = map (\<lambda>a. an_data (k_anodes k a)) ms \<and>
    k' = k\<lparr>k_mm := k_mm k', k_anodes := k_anodes k'\<rparr>"
proof -
  from run obtain n' m where al: "slab_alloc atree_slab (k_mm k) = Some (n', m)" using atree_insert_alloc by blast
  have slab: "slab_inv atree_slab (k_mm k)" and live: "set ms \<subseteq> slab_live atree_slab (k_mm k)"
    using rep other by (simp_all add: atree_rep_def)
  from slab_alloc_not_sentinel [OF slab al] atree_insert_rep [OF rep al _ key] run obtain xs ys where
    r: "n' = n" "ns = xs @ ys" "atree_rep get_key k' tree' (xs @ n # ys)" "n \<notin> set ns" "an_data (k_anodes k' n) = d"
    "\<forall>a. a \<noteq> n \<longrightarrow> an_data (k_anodes k' a) = an_data (k_anodes k a)"
    "\<forall>a \<in> set xs. node_key get_key k a \<le> sint (get_key d)" "\<forall>a \<in> set ys. sint (get_key d) < node_key get_key k a"
    "k' = k\<lparr>k_mm := m, k_anodes := k_anodes k'\<rparr>" "\<forall>a. a \<notin> set (n # ns) \<and> a \<noteq> sentinel \<longrightarrow> k_anodes k' a = k_anodes k a"
    by auto
  have mm: "k_mm k' = m" by (subst r(9)) simp
  from slab_alloc_ok [OF slab al] r(1) have sl: "slab_inv atree_slab m" "n \<notin> slab_live atree_slab (k_mm k)"
    "slab_live atree_slab m = insert n (slab_live atree_slab (k_mm k))" by auto
  have nm: "n \<notin> set ms" using sl(2) live by auto
  have "sentinel \<notin> set ms" using slab_live_not_sentinel [OF slab] live by auto
  then have same: "k_anodes k' a = k_anodes k a" if "a \<in> set ms" for a using that r(10) nm other(2) by auto
  have "atree_rep key2 k' tree2 ms"
    by (rule atree_rep_frame [OF other(1) same atree_rep_sentinel [OF r(3)]]) (use mm sl live in auto)
  moreover have "insert_after (\<lambda>d. sint (get_key d)) d (map (\<lambda>a. an_data (k_anodes k a)) ns) =
      map (\<lambda>a. an_data (k_anodes k a)) xs @ d # map (\<lambda>a. an_data (k_anodes k a)) ys"
    unfolding r(2) map_append by (rule insert_after_eq) (use r(7,8) in auto)
  moreover have "\<dots> = map (\<lambda>a. an_data (k_anodes k' a)) (xs @ n # ys)" using r(2,4,5,6) by auto
  moreover have "set (xs @ n # ys) \<inter> set ms = {}" using other(2) r(2) nm by auto
  ultimately show ?thesis using r(3,9) mm same by (intro exI [of _ "xs @ n # ys"]) simp
qed

lemma atree_remove_two:
  assumes rep: "atree_rep get_key k tree (n # ns)" and other: "atree_rep key2 k tree2 ms" "set (n # ns) \<inter> set ms = {}"
    and run: "atree_remove tree n k = Some (tree', k')"
  shows "\<exists>ns'. atree_rep get_key k' tree' ns' \<and> atree_rep key2 k' tree2 ms \<and> set ns' \<inter> set ms = {} \<and>
    map (\<lambda>a. an_data (k_anodes k' a)) ns' = map (\<lambda>a. an_data (k_anodes k a)) ns \<and>
    map (\<lambda>a. an_data (k_anodes k' a)) ms = map (\<lambda>a. an_data (k_anodes k a)) ms \<and>
    k' = k\<lparr>k_mm := k_mm k', k_anodes := k_anodes k'\<rparr>"
proof -
  from atree_remove_rep [of get_key k tree "[]" n ns] rep run obtain ns' a where
    r: "atree_rep get_key k' tree' ns'" "map (\<lambda>a. an_data (k_anodes k' a)) ns' = map (\<lambda>a. an_data (k_anodes k a)) ns"
    "k' = k\<lparr>k_mm := k_mm k', k_anodes := k_anodes k'\<rparr>" "\<forall>b. b \<notin> set (n # ns) \<and> b \<noteq> sentinel \<longrightarrow> k_anodes k' b = k_anodes k b"
    "a \<in> set (n # ns)" "set ns' = set (n # ns) - {a}" "slab_live atree_slab (k_mm k') = slab_live atree_slab (k_mm k) - {a}"
    by auto
  have slab: "slab_inv atree_slab (k_mm k)" and live: "set ms \<subseteq> slab_live atree_slab (k_mm k)"
    using rep other by (simp_all add: atree_rep_def)
  have "sentinel \<notin> set ms" using slab_live_not_sentinel [OF slab] live by auto
  then have same: "k_anodes k' b = k_anodes k b" if "b \<in> set ms" for b using that r(4) other(2) by auto
  have "slab_inv atree_slab (k_mm k')" using r(1) by (simp add: atree_rep_def)
  then have "atree_rep key2 k' tree2 ms"
    using atree_rep_frame [OF other(1) same atree_rep_sentinel [OF r(1)]] live r(5,7) other(2) by auto
  then show ?thesis using r same other(2) by (intro exI [of _ ns']) auto
qed

lemma atree_insert_step:
  assumes rep: "atree_rep get_key k tree ns" and run: "atree_insert get_key tree d k = Some (n, tree', k')" and key: "0 \<le> sint (get_key d)"
  shows "\<exists>xs ys. ns = xs @ ys \<and> atree_rep get_key k' tree' (xs @ n # ys) \<and> n \<notin> set ns \<and> an_data (k_anodes k' n) = d \<and>
    (\<forall>a. a \<noteq> n \<longrightarrow> an_data (k_anodes k' a) = an_data (k_anodes k a)) \<and>
    (\<forall>a \<in> set xs. node_key get_key k a \<le> sint (get_key d)) \<and> (\<forall>a \<in> set ys. sint (get_key d) < node_key get_key k a)"
proof -
  obtain n' m where al: "slab_alloc atree_slab (k_mm k) = Some (n', m)" using atree_insert_alloc [OF run] by blast
  have "n' \<noteq> sentinel" using slab_alloc_not_sentinel [OF _ al] rep by (simp add: atree_rep_def)
  from atree_insert_rep [OF rep al this key] run show ?thesis by auto
qed

section \<open>Properties\<close>

text \<open>
  C11. \<^verbatim>\<open>atree_insert\<close> returns whenever the node slab has an object, keeps the Andersson invariant, the order
  of the keys, the node count and every node's data, and adds exactly one node with the given data:
  behind all nodes with a key that is not greater, before those with a greater one.
\<close>

theorem atree_insert_ordered:
  assumes "atree_rep get_key k tree ns" and "slab_alloc atree_slab (k_mm k) = Some (n, m)" and "0 \<le> sint (get_key data)"
  shows "\<exists>tree' k' xs ys. atree_insert get_key tree data k = Some (n, tree', k') \<and> ns = xs @ ys \<and>
    atree_rep get_key k' tree' (xs @ n # ys) \<and> n \<notin> set ns \<and> an_data (k_anodes k' n) = data \<and>
    (\<forall>a. a \<noteq> n \<longrightarrow> an_data (k_anodes k' a) = an_data (k_anodes k a)) \<and>
    (\<forall>a \<in> set xs. node_key get_key k a \<le> sint (get_key data)) \<and>
    (\<forall>a \<in> set ys. sint (get_key data) < node_key get_key k a)"
proof -
  have "slab_inv atree_slab (k_mm k)" using assms(1) by (simp add: atree_rep_def)
  from atree_insert_rep [OF assms(1,2) slab_alloc_not_sentinel [OF this assms(2)] assms(3)] show ?thesis by blast
qed

text \<open>
  C12. \<^verbatim>\<open>atree_remove\<close> of a node of the tree returns when the freed node's page can be given back, and removes
  exactly the data of that node from the line of data; the invariant, the order and the count hold
  for the rest, and nodes outside the tree are not touched.
\<close>

theorem atree_remove_exact:
  assumes "atree_rep get_key k tree (xs @ n # ys)"
    and "\<forall>a \<in> set (xs @ n # ys). slab_free atree_slab a (k_mm k) \<noteq> None"
  shows "\<exists>tree' k' ns. atree_remove tree n k = Some (tree', k') \<and> atree_rep get_key k' tree' ns \<and>
    map (\<lambda>a. an_data (k_anodes k' a)) ns = map (\<lambda>a. an_data (k_anodes k a)) (xs @ ys) \<and>
    set ns \<subseteq> set (xs @ n # ys) \<and>
    (\<forall>a. a \<notin> set (xs @ n # ys) \<and> a \<noteq> sentinel \<longrightarrow> k_anodes k' a = k_anodes k a)"
  using atree_remove_rep [OF assms(1)] assms(2) by (metis Diff_subset)

text \<open>
  C22. Inserting data into an empty tree and taking the first node until none is left gives the data
  sorted by key; data with equal keys comes out in the order it was inserted.
\<close>

theorem atree_sorts:
  assumes "atree_holds get_key s []" and "\<forall>d \<in> set ds. 0 \<le> sint (get_key d)"
    and "atree.put_all get_key ds s = Some s1" and "atree.get_many (length ds) s1 = Some (ys, s2)"
  shows "ys = map Some (sort_key (\<lambda>d. sint (get_key d)) ds) \<and> atree_holds get_key s2 []"
  using atree.sorts [OF assms] .

section \<open>A concrete tree\<close>

definition boot_katree :: katree where
  "boot_katree = \<lparr>k_mm = boot_mm, k_nodes = k_nodes boot_kq, k_queue_init = True,
     k_caps = k_caps boot_kcap, k_cap_spaces = k_cap_spaces boot_kcap, k_cap_init = True,
     k_anodes = (\<lambda>_. \<lparr>an_parent = NULL, an_left = sentinel, an_right = sentinel, an_level = 0, an_data = NULL\<rparr>),
     k_atree_init = True\<rparr>"

definition empty_tree :: c4_atree_t where "empty_tree = \<lparr>at_root = sentinel, at_nodes = 0\<rparr>"

lemma boot_tree: "atree_rep get_key boot_katree empty_tree []"
  unfolding atree_rep_def
  by (intro conjI exI [of _ Leaf]) (simp_all add: at_place_def boot_katree_def empty_tree_def boot_slab sentinel_ok_def)

text \<open>C11 on it: data \<open>9\<close> with key 9.\<close>

theorem atree_insert_ordered_witness:
  "\<exists>n tree' k'. atree_insert ucast empty_tree 9 boot_katree = Some (n, tree', k') \<and> atree_rep ucast k' tree' [n] \<and>
    an_data (k_anodes k' n) = 9"
proof -
  have "slab_alloc atree_slab (k_mm boot_katree) \<noteq> None" by code_simp
  then obtain n m where al: "slab_alloc atree_slab (k_mm boot_katree) = Some (n, m)" by auto
  have "0 \<le> sint (ucast (9 :: u32) :: u64)" by simp
  from atree_insert_ordered [of ucast, OF boot_tree al this] show ?thesis by force
qed

text \<open>The insertions of a state with two nodes.\<close>

lemma two_nodes:
  "\<exists>n1 t1 k1 n2 t2 k2. atree_insert ucast empty_tree 9 boot_katree = Some (n1, t1, k1) \<and>
    atree_insert ucast t1 5 k1 = Some (n2, t2, k2) \<and> atree_rep ucast k2 t2 [n2, n1] \<and>
    an_data (k_anodes k2 n1) = 9 \<and> an_data (k_anodes k2 n2) = 5 \<and>
    (\<forall>a \<in> set [n2, n1]. slab_free atree_slab a (k_mm k2) \<noteq> None)"
proof -
  have "do {
      (n1, t1, k1) \<leftarrow> atree_insert ucast empty_tree 9 boot_katree;
      (n2, t2, k2) \<leftarrow> atree_insert ucast t1 5 k1;
      _ \<leftarrow> slab_free atree_slab n1 (k_mm k2);
      slab_free atree_slab n2 (k_mm k2)
    } \<noteq> None" by code_simp
  then obtain n1 t1 k1 n2 t2 k2 where i1: "atree_insert ucast empty_tree 9 boot_katree = Some (n1, t1, k1)"
    and i2: "atree_insert ucast t1 5 k1 = Some (n2, t2, k2)"
    and f: "slab_free atree_slab n1 (k_mm k2) \<noteq> None" "slab_free atree_slab n2 (k_mm k2) \<noteq> None"
    by (auto elim!: bind_eq_SomeE)
  from atree_insert_step [OF boot_tree i1] have r1: "atree_rep ucast k1 t1 [n1]" "an_data (k_anodes k1 n1) = 9" by auto
  from atree_insert_step [OF r1(1) i2] obtain xs ys where
    r2: "[n1] = xs @ ys" "atree_rep ucast k2 t2 (xs @ n2 # ys)" "n2 \<noteq> n1" "an_data (k_anodes k2 n2) = 5"
    "an_data (k_anodes k2 n1) = 9" "\<forall>a \<in> set xs. node_key ucast k1 a \<le> 5" using r1(2) by auto
  have "xs = []" using r2(1,6) r1(2) by (cases xs) auto
  then show ?thesis using i1 i2 f r2 by auto
qed

text \<open>C12 on it: of two nodes the first is removed.\<close>

theorem atree_remove_exact_witness:
  "\<exists>n2 t2 k2 t3 k3 ns. (\<exists>n1 t1 k1. atree_insert ucast empty_tree 9 boot_katree = Some (n1, t1, k1) \<and>
      atree_insert ucast t1 5 k1 = Some (n2, t2, k2)) \<and>
    atree_remove t2 n2 k2 = Some (t3, k3) \<and> atree_rep ucast k3 t3 ns \<and> map (\<lambda>a. an_data (k_anodes k3 a)) ns = [9]"
proof -
  from two_nodes obtain n1 t1 k1 n2 t2 k2 where r: "atree_insert ucast empty_tree 9 boot_katree = Some (n1, t1, k1)"
    "atree_insert ucast t1 5 k1 = Some (n2, t2, k2)" "atree_rep ucast k2 t2 ([] @ n2 # [n1])" "an_data (k_anodes k2 n1) = 9"
    "\<forall>a \<in> set ([] @ n2 # [n1]). slab_free atree_slab a (k_mm k2) \<noteq> None" by auto
  from atree_remove_exact [OF r(3,5)] obtain t3 k3 ns where a: "atree_remove t2 n2 k2 = Some (t3, k3)" "atree_rep ucast k3 t3 ns"
    "map (\<lambda>a. an_data (k_anodes k3 a)) ns = map (\<lambda>a. an_data (k_anodes k2 a)) ([] @ [n1])" by blast
  have "map (\<lambda>a. an_data (k_anodes k3 a)) ns = [9]" using a(3) r(4) by simp
  with r(1,2) a(1,2) show ?thesis by (intro exI conjI)
qed

text \<open>C22: 9 and 5 come out as 5 and 9.\<close>

theorem atree_sorts_witness:
  "\<exists>s1 s2. atree.put_all ucast [9, 5] (empty_tree, boot_katree) = Some s1 \<and>
    atree.get_many 2 s1 = Some ([Some 5, Some 9], s2)"
proof -
  have h: "atree_holds ucast (empty_tree, boot_katree) []" using boot_tree [of ucast] by (simp add: atree_holds_def)
  have "do {
      a \<leftarrow> atree_put ucast 9 (empty_tree, boot_katree);
      b \<leftarrow> atree_put ucast 5 a;
      (_, c) \<leftarrow> atree_get_first b;
      atree_get_first c
    } \<noteq> None" by code_simp
  then obtain s1 ys s2 where 1: "atree.put_all ucast [9, 5] (empty_tree, boot_katree) = Some s1"
    and 2: "atree.get_many (length [9, 5 :: ptr]) s1 = Some (ys, s2)"
    by (auto simp: numeral_2_eq_2 elim!: bind_eq_SomeE)
  have k: "\<forall>d \<in> set [9, 5 :: ptr]. 0 \<le> sint (ucast d :: u64)" by simp
  have "sort_key (\<lambda>d. sint (ucast d :: u64)) [9, 5 :: ptr] = [5, 9]" by simp
  with atree_sorts [OF h k 1 2] have "ys = [Some 5, Some 9]" by simp
  moreover have "length [9, 5 :: ptr] = 2" by simp
  ultimately show ?thesis using 1 2 by metis
qed

end
