(* ===== verification/C4_State.thy ===== *)
theory C4_State
  imports C4_AATree
begin

text \<open>
  The data of the kernel objects (\<^verbatim>\<open>kobject.h\<close>, \<^verbatim>\<open>syncronization.h\<close>, \<^verbatim>\<open>thread.h\<close>, \<^verbatim>\<open>message.h\<close>,
  \<^verbatim>\<open>mm/addrspace.h\<close>) and the record of the whole kernel state on which synchronisation, the
  scheduler, address spaces, IPC and the system calls operate. These parts call one another, so
  they share one state.

  Each C object is an entry of a typed heap indexed by its address. The \<^verbatim>\<open>kobject_t\<close> embedded in
  an object is kept in the heap \<open>k_kobjs\<close> under the address of the object that contains it. A null
  dereference, a write outside an array and an endless loop are the value \<open>None\<close>.

  Hardware is state the code reads and writes through its own accessors: the time-stamp counter
  is an arbitrary sequence of readings, the local APIC a log of register writes, I/O ports a
  function of what a read returns and a log of writes, the console a log of characters. A
  \<^verbatim>\<open>message_t\<close> buffer that a caller passes by address is a cell of \<open>k_usermsg\<close>.
\<close>

section \<open>Objects\<close>

record mutex_t =
  mx_run_waiting :: u32
  mx_sleep_waiting :: queue_t
  mx_active :: ptr
  mx_lock :: lock_t

record kobject_t =
  ko_mutex :: mutex_t
  ko_type :: u16

definition KOBJECT_TYPE_ADDR_SPACE :: u32 where [c4_enum]: "KOBJECT_TYPE_ADDR_SPACE = 4"
definition KOBJECT_TYPE_THREAD :: u32 where [c4_enum]: "KOBJECT_TYPE_THREAD = 5"
definition KOBJECT_TYPE_PHYS_MEMORY :: u32 where [c4_enum]: "KOBJECT_TYPE_PHYS_MEMORY = 7"

definition MESSAGE_TYPE_NOP :: u32 where [c4_enum]: "MESSAGE_TYPE_NOP = 0"
definition MESSAGE_TYPE_DEBUG_PRINT :: u32 where [c4_enum]: "MESSAGE_TYPE_DEBUG_PRINT = 1"
definition MESSAGE_TYPE_GRANT_OBJECT :: u32 where [c4_enum]: "MESSAGE_TYPE_GRANT_OBJECT = 2"
definition MESSAGE_TYPE_PAGE_FAULT :: u32 where [c4_enum]: "MESSAGE_TYPE_PAGE_FAULT = 9"
definition MESSAGE_TYPE_INTERRUPT :: u32 where [c4_enum]: "MESSAGE_TYPE_INTERRUPT = 16"
definition MESSAGE_TYPE_END_RESERVED :: u32 where [c4_enum]: "MESSAGE_TYPE_END_RESERVED = 0x100"
definition MESSAGE_ASYNC_BLOCK :: u32 where [c4_enum]: "MESSAGE_ASYNC_BLOCK = 1"
definition MESSAGE_MAX_QUEUE_ELEMENTS :: u32 where [c4_enum]: "MESSAGE_MAX_QUEUE_ELEMENTS = 64"

record message_t =
  m_type :: u32
  m_sender :: u32
  m_data0 :: u32
  m_data1 :: u32
  m_data2 :: u32
  m_data3 :: u32
  m_data4 :: u32
  m_data5 :: u32

definition zero_message :: message_t where
  "zero_message = \<lparr>m_type = 0, m_sender = 0, m_data0 = 0, m_data1 = 0, m_data2 = 0,
                   m_data3 = 0, m_data4 = 0, m_data5 = 0\<rparr>"

record message_node_t =
  mn_next :: ptr
  mn_message :: message_t

record msg_queue_t =
  mq_recievers :: thread_queue
  mq_senders :: thread_queue

record msg_queue_async_t =
  maq_recievers :: thread_queue
  maq_first :: ptr
  maq_last :: ptr
  maq_elements :: u32

definition THREAD_DEFAULT_PRIORITY :: u32 where [c4_enum]: "THREAD_DEFAULT_PRIORITY = 2048"

definition THREAD_FLAG_NONE :: u32 where [c4_enum]: "THREAD_FLAG_NONE = 0"
definition THREAD_FLAG_USER :: u32 where [c4_enum]: "THREAD_FLAG_USER = 1"
definition THREAD_FLAG_ROOT_TASK :: u32 where [c4_enum]: "THREAD_FLAG_ROOT_TASK = 2"
definition THREAD_FLAG_PENDING_MSG :: u32 where [c4_enum]: "THREAD_FLAG_PENDING_MSG = 4"
definition THREAD_FLAG_FAULTED :: u32 where [c4_enum]: "THREAD_FLAG_FAULTED = 8"
definition THREAD_FLAG_RUNNING :: u32 where [c4_enum]: "THREAD_FLAG_RUNNING = 16"

definition SCHED_MAX_CPUS :: u32 where [c4_enum]: "SCHED_MAX_CPUS = 32"

definition SCHED_STATE_RUNNING :: u32 where [c4_enum]: "SCHED_STATE_RUNNING = 0"
definition SCHED_STATE_STOPPED :: u32 where [c4_enum]: "SCHED_STATE_STOPPED = 1"
definition SCHED_STATE_WAITING :: u32 where [c4_enum]: "SCHED_STATE_WAITING = 2"
definition SCHED_STATE_WAITING_ASYNC :: u32 where [c4_enum]: "SCHED_STATE_WAITING_ASYNC = 3"
definition SCHED_STATE_SENDING :: u32 where [c4_enum]: "SCHED_STATE_SENDING = 4"
definition SCHED_STATE_SLEEPING :: u32 where [c4_enum]: "SCHED_STATE_SLEEPING = 5"

record thread_regs_t =
  r_ebp :: u32
  r_esp :: u32
  r_eip :: u32
  r_do_user_switch :: u32

record thread_t =
  t_registers :: thread_regs_t
  t_kernel_stack :: ptr
  t_runtime :: u64
  t_start_timestamp :: u64
  t_sleep_target :: u64
  t_addr_space :: ptr
  t_cap_space :: ptr
  t_pager :: ptr
  t_id :: u32
  t_state :: u32
  t_flags :: u32
  t_priority :: u32
  t_message :: message_t

definition zero_thread :: thread_t where
  "zero_thread = \<lparr>t_registers = \<lparr>r_ebp = 0, r_esp = 0, r_eip = 0, r_do_user_switch = 0\<rparr>,
     t_kernel_stack = NULL, t_runtime = 0, t_start_timestamp = 0, t_sleep_target = 0,
     t_addr_space = NULL, t_cap_space = NULL, t_pager = NULL, t_id = 0, t_state = 0,
     t_flags = 0, t_priority = 0, t_message = zero_message\<rparr>"

definition PHYS_FRAME_FLAG_NONE :: u32 where [c4_enum]: "PHYS_FRAME_FLAG_NONE = 0"
definition PHYS_FRAME_FLAG_NONFREEABLE :: u32 where [c4_enum]: "PHYS_FRAME_FLAG_NONFREEABLE = 1"

record phys_frame_t =
  pf_address :: u32
  pf_size :: u32
  pf_flags :: u32
  pf_mappings :: u32

record addr_entry_t =
  ae_addr :: u32
  ae_frame :: ptr
  ae_permissions :: u32

definition sizeof_addr_entry_t :: u32 where "sizeof_addr_entry_t = 12"

definition ADDR_MAP_ENTRIES_PER_PAGE :: nat where
  "ADDR_MAP_ENTRIES_PER_PAGE = unat (PAGE_SIZE div sizeof_addr_entry_t) - 1"

record addr_map_t =
  am_region :: ptr
  am_entries :: u16
  am_used :: u16
  am_map :: "addr_entry_t list"

record addr_space_t =
  as_page_dir :: ptr
  as_map :: ptr
  as_region :: ptr

section \<open>The kernel state\<close>

record kernel = katree +
  k_kobjs :: "kobject_t heap"
  k_threads :: "thread_t heap"
  k_thread_counter :: u32
  k_thread_init :: bool
  k_addr_maps :: "addr_map_t heap"
  k_addr_spaces :: "addr_space_t heap"
  k_phys_frames :: "phys_frame_t heap"
  k_kernel_space :: ptr
  k_addr_space_init :: bool
  k_phys_frame_init :: bool
  k_msg_queues :: "msg_queue_t heap"
  k_msg_async :: "msg_queue_async_t heap"
  k_msg_nodes :: "message_node_t heap"
  k_msg_queue_init :: bool
  k_msg_async_init :: bool
  k_msg_node_init :: bool
  k_sched_lock :: lock_t
  k_run_tree :: c4_atree_t
  k_sleep_tree :: c4_atree_t
  k_current_threads :: "u32 \<Rightarrow> ptr"
  k_idle_threads :: "u32 \<Rightarrow> ptr"
  k_esp_p0 :: "u32 \<Rightarrow> ptr"
  k_num_booted_cpus :: u32
  k_booted_cpus :: u32
  k_listening :: "u32 \<Rightarrow> ptr"
  k_apic_enabled :: bool
  k_apic_id :: u32
  k_apic_log :: "(u32 \<times> u32) list"
  k_cpu_frequency :: u64
  k_tsc :: "nat \<Rightarrow> u64"
  k_tsc_reads :: nat
  k_usermsg :: "message_t heap"
  k_port_in :: "u16 \<Rightarrow> u32"
  k_port_log :: "(nat \<times> u16 \<times> u32) list"
  k_console :: "u32 list"

text \<open>Reads and writes through pointers.\<close>

definition get_thread :: "ptr \<Rightarrow> kernel \<Rightarrow> thread_t option" where
  "get_thread p k = (if p = NULL then None else Some (k_threads k p))"

definition upd_thread :: "ptr \<Rightarrow> (thread_t \<Rightarrow> thread_t) \<Rightarrow> kernel \<Rightarrow> kernel option" where
  "upd_thread p f k =
     (if p = NULL then None else Some (k\<lparr>k_threads := (k_threads k)(p := f (k_threads k p))\<rparr>))"

definition set_mutex :: "ptr \<Rightarrow> (mutex_t \<Rightarrow> mutex_t) \<Rightarrow> kernel \<Rightarrow> kernel option" where
  "set_mutex p f k =
     (if p = NULL then None
      else Some (k\<lparr>k_kobjs := (k_kobjs k)(p := (k_kobjs k p)\<lparr>ko_mutex := f (ko_mutex (k_kobjs k p))\<rparr>)\<rparr>))"

definition get_mutex :: "ptr \<Rightarrow> kernel \<Rightarrow> mutex_t option" where
  "get_mutex p k = (if p = NULL then None else Some (ko_mutex (k_kobjs k p)))"

definition get_frame :: "ptr \<Rightarrow> kernel \<Rightarrow> phys_frame_t option" where
  "get_frame p k = (if p = NULL then None else Some (k_phys_frames k p))"

definition upd_frame :: "ptr \<Rightarrow> (phys_frame_t \<Rightarrow> phys_frame_t) \<Rightarrow> kernel \<Rightarrow> kernel option" where
  "upd_frame p f k =
     (if p = NULL then None else Some (k\<lparr>k_phys_frames := (k_phys_frames k)(p := f (k_phys_frames k p))\<rparr>))"

definition get_addr_space :: "ptr \<Rightarrow> kernel \<Rightarrow> addr_space_t option" where
  "get_addr_space p k = (if p = NULL then None else Some (k_addr_spaces k p))"

definition set_addr_space :: "ptr \<Rightarrow> addr_space_t \<Rightarrow> kernel \<Rightarrow> kernel option" where
  "set_addr_space p s k =
     (if p = NULL then None else Some (k\<lparr>k_addr_spaces := (k_addr_spaces k)(p := s)\<rparr>))"

definition get_addr_map :: "ptr \<Rightarrow> kernel \<Rightarrow> addr_map_t option" where
  "get_addr_map p k = (if p = NULL then None else Some (k_addr_maps k p))"

definition set_addr_map :: "ptr \<Rightarrow> addr_map_t \<Rightarrow> kernel \<Rightarrow> kernel option" where
  "set_addr_map p m k =
     (if p = NULL then None else Some (k\<lparr>k_addr_maps := (k_addr_maps k)(p := m)\<rparr>))"

definition get_msgq :: "ptr \<Rightarrow> kernel \<Rightarrow> msg_queue_t option" where
  "get_msgq p k = (if p = NULL then None else Some (k_msg_queues k p))"

definition set_msgq :: "ptr \<Rightarrow> msg_queue_t \<Rightarrow> kernel \<Rightarrow> kernel option" where
  "set_msgq p q k =
     (if p = NULL then None else Some (k\<lparr>k_msg_queues := (k_msg_queues k)(p := q)\<rparr>))"

definition get_msgaq :: "ptr \<Rightarrow> kernel \<Rightarrow> msg_queue_async_t option" where
  "get_msgaq p k = (if p = NULL then None else Some (k_msg_async k p))"

definition set_msgaq :: "ptr \<Rightarrow> msg_queue_async_t \<Rightarrow> kernel \<Rightarrow> kernel option" where
  "set_msgaq p q k =
     (if p = NULL then None else Some (k\<lparr>k_msg_async := (k_msg_async k)(p := q)\<rparr>))"

definition get_msgnode :: "ptr \<Rightarrow> kernel \<Rightarrow> message_node_t option" where
  "get_msgnode p k = (if p = NULL then None else Some (k_msg_nodes k p))"

definition set_msgnode :: "ptr \<Rightarrow> message_node_t \<Rightarrow> kernel \<Rightarrow> kernel option" where
  "set_msgnode p n k =
     (if p = NULL then None else Some (k\<lparr>k_msg_nodes := (k_msg_nodes k)(p := n)\<rparr>))"

lemmas c4_access = get_thread_def upd_thread_def set_mutex_def get_mutex_def get_frame_def
  upd_frame_def get_addr_space_def set_addr_space_def get_addr_map_def set_addr_map_def
  get_msgq_def set_msgq_def get_msgaq_def set_msgaq_def get_msgnode_def set_msgnode_def

section \<open>Processors, clock and interrupt controller\<close>

text \<open>\<^verbatim>\<open>cpu_register\<close> and the CPU queries of \<^verbatim>\<open>arch/x86/apic-utils.c\<close>.\<close>

definition cpu_register :: "u32 \<Rightarrow> kernel \<Rightarrow> kernel" where
  "cpu_register cpu_num k =
     k\<lparr>k_booted_cpus := k_booted_cpus k OR push_bit (unat cpu_num mod 32) 1,
       k_num_booted_cpus := k_num_booted_cpus k + 1\<rparr>"

definition cpu_is_booted :: "u32 \<Rightarrow> kernel \<Rightarrow> bool" where
  "cpu_is_booted cpu_num k \<longleftrightarrow> k_booted_cpus k AND push_bit (unat cpu_num mod 32) 1 \<noteq> 0"

definition sched_num_cpus :: "kernel \<Rightarrow> u32" where
  "sched_num_cpus k = k_num_booted_cpus k"

definition sched_current_cpu :: "kernel \<Rightarrow> u32" where
  "sched_current_cpu k = (if sched_num_cpus k > 1 then k_apic_id k else 0)"

text \<open>The current CPU as an index of the per-CPU arrays.\<close>

definition cur_cpu :: "kernel \<Rightarrow> u32 option" where
  "cur_cpu k = (if sched_current_cpu k < SCHED_MAX_CPUS then Some (sched_current_cpu k) else None)"

definition sched_current_thread :: "kernel \<Rightarrow> ptr option" where
  "sched_current_thread k = map_option (k_current_threads k) (cur_cpu k)"

lemma sched_current_thread_cong:
  assumes "k_num_booted_cpus k' = k_num_booted_cpus k" "k_apic_id k' = k_apic_id k"
    "k_current_threads k' = k_current_threads k"
  shows "sched_current_thread k' = sched_current_thread k"
  using assms by (simp add: sched_current_thread_def cur_cpu_def sched_current_cpu_def sched_num_cpus_def)

lemma sched_current_thread_upd [simp]:
  "sched_current_thread (k\<lparr>k_threads := a\<rparr>) = sched_current_thread k"
  "sched_current_thread (k\<lparr>k_msg_queues := b\<rparr>) = sched_current_thread k"
  "sched_current_thread (k\<lparr>k_msg_async := c\<rparr>) = sched_current_thread k"
  "sched_current_thread (k\<lparr>k_msg_nodes := d\<rparr>) = sched_current_thread k"
  "sched_current_thread (k\<lparr>k_usermsg := e\<rparr>) = sched_current_thread k"
  "sched_current_thread (k\<lparr>k_caps := f\<rparr>) = sched_current_thread k"
  "sched_current_thread (k\<lparr>k_mm := g\<rparr>) = sched_current_thread k"
  by (rule sched_current_thread_cong; simp)+

definition kernel_stack_set :: "ptr \<Rightarrow> kernel \<Rightarrow> kernel option" where
  "kernel_stack_set addr k = do {
     c \<leftarrow> cur_cpu k;
     Some (k\<lparr>k_esp_p0 := (k_esp_p0 k)(c := addr)\<rparr>)
   }"

definition kernel_stack_get :: "kernel \<Rightarrow> ptr option" where
  "kernel_stack_get k = map_option (k_esp_p0 k) (cur_cpu k)"

definition timer_get_timestamp :: "kernel \<Rightarrow> u64 \<times> kernel" where
  "timer_get_timestamp k = (k_tsc k (k_tsc_reads k), k\<lparr>k_tsc_reads := Suc (k_tsc_reads k)\<rparr>)"

text \<open>A frequency below 1000 makes the divisor zero, which traps.\<close>

definition timer_get_timestamp_ns :: "kernel \<Rightarrow> (u64 \<times> kernel) option" where
  "timer_get_timestamp_ns k =
     (let (tsc, k1) = timer_get_timestamp k
      in if k_cpu_frequency k div 1000 = 0 then None
         else Some ((tsc * 1000000) div (k_cpu_frequency k div 1000), k1))"

definition APIC_REG_INTR_COMMAND_LOWER :: u32 where [c4_enum]: "APIC_REG_INTR_COMMAND_LOWER = 0x310"
definition APIC_REG_INTR_COMMAND_UPPER :: u32 where [c4_enum]: "APIC_REG_INTR_COMMAND_UPPER = 0x300"
definition APIC_IPI_FIXED :: u32 where [c4_enum]: "APIC_IPI_FIXED = 0"

definition apic_is_enabled :: "kernel \<Rightarrow> bool" where
  "apic_is_enabled k = k_apic_enabled k"

definition apic_write :: "u32 \<Rightarrow> u32 \<Rightarrow> kernel \<Rightarrow> kernel" where
  "apic_write reg v k = k\<lparr>k_apic_log := k_apic_log k @ [(reg, v)]\<rparr>"

definition apic_send_ipi :: "u32 \<Rightarrow> u32 \<Rightarrow> kernel \<Rightarrow> kernel" where
  "apic_send_ipi ty lapic_id k =
     (let x = push_bit 24 (lapic_id AND 0xff)
      in apic_write APIC_REG_INTR_COMMAND_UPPER ty (apic_write APIC_REG_INTR_COMMAND_LOWER x k))"

section \<open>A concrete state\<close>

text \<open>
  A small system on the boot memory: one CPU runs thread \<^verbatim>\<open>0x5000\<close>, which has the first boot
  capability space; thread \<^verbatim>\<open>0x5100\<close> waits; nothing is on the run and sleep queues; two physical
  frames, one address space with an empty map, and a synchronous and an asynchronous endpoint
  exist.
\<close>

definition boot_kernel :: kernel where
  "boot_kernel =
     \<lparr>k_mm = boot_mm, k_nodes = k_nodes boot_kq, k_queue_init = True,
      k_caps = k_caps boot_kcap, k_cap_spaces = k_cap_spaces boot_kcap, k_cap_init = True,
      k_anodes = (\<lambda>_. \<lparr>an_parent = NULL, an_left = sentinel, an_right = sentinel, an_level = 0, an_data = NULL\<rparr>),
      k_atree_init = True,
      k_kobjs = (\<lambda>_. \<lparr>ko_mutex = \<lparr>mx_run_waiting = 0, mx_sleep_waiting = queue_init, mx_active = NULL,
                                  mx_lock = False\<rparr>, ko_type = 0\<rparr>),
      k_threads = (\<lambda>_. zero_thread)
        (0x5000 := zero_thread\<lparr>t_id := 1, t_cap_space := 0x1000, t_addr_space := 0x7000,
           t_flags := 17, t_priority := 2048\<rparr>,
         0x5100 := zero_thread\<lparr>t_id := 2, t_cap_space := 0x2000, t_addr_space := 0x7000,
           t_state := SCHED_STATE_WAITING, t_flags := 1, t_priority := 2048\<rparr>,
         0x5f00 := zero_thread\<lparr>t_addr_space := 0x7000, t_priority := 2048\<rparr>),
      k_thread_counter = 3, k_thread_init = True,
      k_addr_maps = (\<lambda>_. \<lparr>am_region = NULL, am_entries = 0, am_used = 0, am_map = []\<rparr>)
        (0x8000 := \<lparr>am_region = 0xfd020000, am_entries = 340, am_used = 0,
           am_map = replicate 340 \<lparr>ae_addr = 0, ae_frame = NULL, ae_permissions = 0\<rparr>\<rparr>),
      k_addr_spaces = (\<lambda>_. \<lparr>as_page_dir = 0xfffff000, as_map = 0x8000, as_region = 0xfd020000\<rparr>),
      k_phys_frames = (\<lambda>_. \<lparr>pf_address = 0x100000, pf_size = 4, pf_flags = 0, pf_mappings = 0\<rparr>)
        (0x6100 := \<lparr>pf_address = 0x200000, pf_size = 2, pf_flags = 0, pf_mappings = 1\<rparr>),
      k_kernel_space = 0x7000, k_addr_space_init = True, k_phys_frame_init = True,
      k_msg_queues = (\<lambda>_. \<lparr>mq_recievers = queue_init, mq_senders = queue_init\<rparr>),
      k_msg_async = (\<lambda>_. \<lparr>maq_recievers = queue_init, maq_first = NULL, maq_last = NULL, maq_elements = 0\<rparr>),
      k_msg_nodes = (\<lambda>_. \<lparr>mn_next = 0xbeef, mn_message = zero_message\<rparr>),
      k_msg_queue_init = True, k_msg_async_init = True, k_msg_node_init = True,
      k_sched_lock = False,
      k_run_tree = \<lparr>at_root = sentinel, at_nodes = 0\<rparr>, k_sleep_tree = \<lparr>at_root = sentinel, at_nodes = 0\<rparr>,
      k_current_threads = (\<lambda>_. NULL)(0 := 0x5000), k_idle_threads = (\<lambda>_. NULL)(0 := 0x5f00),
      k_esp_p0 = (\<lambda>_. NULL), k_num_booted_cpus = 1, k_booted_cpus = 1,
      k_listening = (\<lambda>_. NULL), k_apic_enabled = False, k_apic_id = 0, k_apic_log = [],
      k_cpu_frequency = 1000000, k_tsc = of_nat, k_tsc_reads = 0,
      k_usermsg = (\<lambda>_. zero_message), k_port_in = (\<lambda>_. 0), k_port_log = [], k_console = []\<rparr>"

end
