(* ===== verification/C4_Sync.thy ===== *)
theory C4_Sync
  imports C4_State
begin

text \<open>
  Run-queue insertion (\<^verbatim>\<open>sched_add_thread\<close> of \<^verbatim>\<open>src/scheduler.c\<close>) and the mutexes of kernel objects
  (\<^verbatim>\<open>src/syncronization.c\<close>, \<^verbatim>\<open>kobject.h\<close>).

  A thread that blocks calls \<^verbatim>\<open>sched_thread_yield\<close>, which itself uses these operations when it
  switches threads. The operations therefore take the function \<open>yield\<close> as an argument: the effect
  on the kernel state from the call of \<^verbatim>\<open>sched_thread_yield\<close> until the calling thread runs again.
  The scheduler theory instantiates it.
\<close>

type_synonym yield = "kernel \<Rightarrow> kernel option"

section \<open>Putting a thread on the run queue\<close>

text \<open>
  The keys of the two scheduler trees. The priority of a thread is \<^verbatim>\<open>THREAD_DEFAULT_PRIORITY\<close> from
  its creation on, so the division is by a nonzero word.
\<close>

definition sched_thread_vruntime :: "kernel \<Rightarrow> get_key_t" where
  "sched_thread_vruntime k t = t_runtime (k_threads k t) div ucast (t_priority (k_threads k t))"

definition sched_thread_sleeptime :: "kernel \<Rightarrow> get_key_t" where
  "sched_thread_sleeptime k t = t_sleep_target (k_threads k t)"

definition run_tree_insert :: "ptr \<Rightarrow> kernel \<Rightarrow> kernel option" where
  "run_tree_insert t k = do {
     (_, tree, k1) \<leftarrow> atree_insert (sched_thread_vruntime k) (k_run_tree k) t k;
     Some (k1\<lparr>k_run_tree := tree\<rparr>)
   }"

definition sleep_tree_insert :: "ptr \<Rightarrow> kernel \<Rightarrow> kernel option" where
  "sleep_tree_insert t k = do {
     (_, tree, k1) \<leftarrow> atree_insert (sched_thread_sleeptime k) (k_sleep_tree k) t k;
     Some (k1\<lparr>k_sleep_tree := tree\<rparr>)
   }"

definition sched_spinlock :: "kernel \<Rightarrow> kernel option" where
  "sched_spinlock k = do {
     l \<leftarrow> lock_spinlock (k_sched_lock k);
     Some (k\<lparr>k_sched_lock := l\<rparr>)
   }"

definition sched_unlock :: "kernel \<Rightarrow> kernel" where
  "sched_unlock k = k\<lparr>k_sched_lock := lock_unlock (k_sched_lock k)\<rparr>"

text \<open>The loop of \<^verbatim>\<open>sched_add_thread\<close> that looks for an idle CPU.\<close>

definition find_idle_cpu :: "kernel \<Rightarrow> u32 option" where
  "find_idle_cpu k =
     find (\<lambda>i. k_idle_threads k i \<noteq> NULL \<and> k_current_threads k i = k_idle_threads k i)
       (map of_nat [0..<unat SCHED_MAX_CPUS])"

definition notify_idle_cpu :: "kernel \<Rightarrow> bool \<times> kernel" where
  "notify_idle_cpu k =
     (if apic_is_enabled k
      then (case find_idle_cpu k of
              Some i \<Rightarrow> (True, apic_send_ipi (APIC_IPI_FIXED OR 32) i k)
            | None \<Rightarrow> (False, k))
      else (False, k))"

definition sched_add_thread :: "yield \<Rightarrow> ptr \<Rightarrow> kernel \<Rightarrow> kernel option" where
  "sched_add_thread yield thread k = do {
     k1 \<leftarrow> sched_spinlock k;
     t \<leftarrow> get_thread thread k1;
     if t_state t = SCHED_STATE_RUNNING
     then do {
       k2 \<leftarrow> run_tree_insert thread k1;
       let (sent, k3) = notify_idle_cpu k2;
       cur \<leftarrow> sched_current_thread k3;
       if \<not> sent \<and> cur \<noteq> NULL
          \<and> sint (sched_thread_vruntime k3 cur) < sint (sched_thread_vruntime k3 thread)
       then yield (sched_unlock k3)
       else Some (sched_unlock k3)
     }
     else Some (sched_unlock k1)
   }"

section \<open>Mutexes\<close>

definition mutex_init :: mutex_t where
  "mutex_init = \<lparr>mx_run_waiting = 0, mx_sleep_waiting = queue_init, mx_active = NULL, mx_lock = False\<rparr>"

text \<open>\<^verbatim>\<open>mutex_wait\<close>: try, queue up and yield, until the lock is taken.\<close>

partial_function (option) mutex_wait :: "yield \<Rightarrow> ptr \<Rightarrow> kernel \<Rightarrow> kernel option" where [code]:
  "mutex_wait yield mutex k = do {
     m \<leftarrow> get_mutex mutex k;
     let (taken, l) = lock_trylock (mx_lock m);
     k1 \<leftarrow> set_mutex mutex (mx_lock_update (\<lambda>_. l)) k;
     if taken then Some k1
     else do {
       cur \<leftarrow> sched_current_thread k1;
       k2 \<leftarrow> upd_thread cur (t_state_update (\<lambda>_. SCHED_STATE_WAITING)) k1;
       (q, k3) \<leftarrow> queue_push_back (mx_sleep_waiting m) cur k2;
       k4 \<leftarrow> set_mutex mutex (mx_sleep_waiting_update (\<lambda>_. q)) k3;
       k5 \<leftarrow> yield k4;
       mutex_wait yield mutex k5
     }
   }"

definition mutex_do_spinlock :: "ptr \<Rightarrow> kernel \<Rightarrow> kernel option" where
  "mutex_do_spinlock mutex k = do {
     k1 \<leftarrow> set_mutex mutex (mx_run_waiting_update (\<lambda>n. n + 1)) k;
     m \<leftarrow> get_mutex mutex k1;
     l \<leftarrow> lock_spinlock (mx_lock m);
     k2 \<leftarrow> set_mutex mutex (mx_lock_update (\<lambda>_. l)) k1;
     set_mutex mutex (mx_run_waiting_update (\<lambda>n. n - 1)) k2
   }"

definition mutex_lock :: "yield \<Rightarrow> ptr \<Rightarrow> kernel \<Rightarrow> kernel option" where
  "mutex_lock yield mutex k = do {
     cur \<leftarrow> sched_current_thread k;
     m \<leftarrow> get_mutex mutex k;
     if cur \<noteq> NULL \<and> mx_active m = cur then Some k
     else do {
       k1 \<leftarrow> (if cur = NULL then mutex_do_spinlock mutex k
              else if sched_num_cpus k > 1 then mutex_do_spinlock mutex k
              else mutex_wait yield mutex k);
       cur1 \<leftarrow> sched_current_thread k1;
       set_mutex mutex (mx_active_update (\<lambda>_. cur1)) k1
     }
   }"

definition mutex_unlock :: "yield \<Rightarrow> ptr \<Rightarrow> kernel \<Rightarrow> kernel option" where
  "mutex_unlock yield mutex k = do {
     m \<leftarrow> get_mutex mutex k;
     (next_thread, k1) \<leftarrow>
       (if mx_run_waiting m = 0
        then do {
          (t, q, k') \<leftarrow> queue_pop_front (mx_sleep_waiting m) k;
          k'' \<leftarrow> set_mutex mutex (mx_sleep_waiting_update (\<lambda>_. q)) k';
          Some (t, k'')
        }
        else Some (NULL, k));
     k2 \<leftarrow> set_mutex mutex (mx_lock_update lock_unlock) k1;
     if next_thread \<noteq> NULL
     then do {
       k3 \<leftarrow> upd_thread next_thread (t_state_update (\<lambda>_. SCHED_STATE_RUNNING)) k2;
       sched_add_thread yield next_thread k3
     }
     else Some k2
   }"

definition kobject_lock :: "yield \<Rightarrow> ptr \<Rightarrow> kernel \<Rightarrow> kernel option" where
  "kobject_lock yield obj k = mutex_lock yield obj k"

definition kobject_unlock :: "yield \<Rightarrow> ptr \<Rightarrow> kernel \<Rightarrow> kernel option" where
  "kobject_unlock yield obj k = mutex_unlock yield obj k"

definition kobject_init :: "ptr \<Rightarrow> u32 \<Rightarrow> kernel \<Rightarrow> kernel option" where
  "kobject_init obj type k =
     (if obj = NULL then None
      else Some (k\<lparr>k_kobjs := (k_kobjs k)(obj := \<lparr>ko_mutex = mutex_init, ko_type = ucast type\<rparr>)\<rparr>))"

section \<open>Locking without contention\<close>

text \<open>
  A mutex is quiet when it is free and nobody waits for it. Locking a quiet mutex does not
  block; the state it leads to is \<open>acquire\<close>, and unlocking one nobody sleeps on leads to \<open>release\<close>.
\<close>

definition quiet :: "ptr \<Rightarrow> kernel \<Rightarrow> bool" where
  "quiet p k \<longleftrightarrow> p \<noteq> NULL \<and> mx_run_waiting (ko_mutex (k_kobjs k p)) = 0 \<and>
     mx_sleep_waiting (ko_mutex (k_kobjs k p)) = queue_init \<and> \<not> mx_lock (ko_mutex (k_kobjs k p))"

definition acquire :: "ptr \<Rightarrow> ptr \<Rightarrow> kernel \<Rightarrow> kernel" where
  "acquire cur p k =
     (if cur \<noteq> NULL \<and> mx_active (ko_mutex (k_kobjs k p)) = cur then k
      else k\<lparr>k_kobjs := (k_kobjs k)(p := (k_kobjs k p)\<lparr>ko_mutex :=
             (ko_mutex (k_kobjs k p))\<lparr>mx_lock := True, mx_active := cur\<rparr>\<rparr>)\<rparr>)"

definition release :: "ptr \<Rightarrow> kernel \<Rightarrow> kernel" where
  "release p k = k\<lparr>k_kobjs := (k_kobjs k)(p := (k_kobjs k p)\<lparr>ko_mutex :=
     (ko_mutex (k_kobjs k p))\<lparr>mx_lock := False\<rparr>\<rparr>)\<rparr>"

lemma acquire_fields [simp]:
  shows "k_mm (acquire c p k) = k_mm k"
    "k_nodes (acquire c p k) = k_nodes k"
    "k_queue_init (acquire c p k) = k_queue_init k"
    "k_caps (acquire c p k) = k_caps k"
    "k_cap_spaces (acquire c p k) = k_cap_spaces k"
    "k_cap_init (acquire c p k) = k_cap_init k"
    "k_anodes (acquire c p k) = k_anodes k"
    "k_atree_init (acquire c p k) = k_atree_init k"
    "k_threads (acquire c p k) = k_threads k"
    "k_thread_counter (acquire c p k) = k_thread_counter k"
    "k_thread_init (acquire c p k) = k_thread_init k"
    "k_addr_maps (acquire c p k) = k_addr_maps k"
    "k_addr_spaces (acquire c p k) = k_addr_spaces k"
    "k_phys_frames (acquire c p k) = k_phys_frames k"
    "k_kernel_space (acquire c p k) = k_kernel_space k"
    "k_addr_space_init (acquire c p k) = k_addr_space_init k"
    "k_phys_frame_init (acquire c p k) = k_phys_frame_init k"
    "k_msg_queues (acquire c p k) = k_msg_queues k"
    "k_msg_async (acquire c p k) = k_msg_async k"
    "k_msg_nodes (acquire c p k) = k_msg_nodes k"
    "k_msg_queue_init (acquire c p k) = k_msg_queue_init k"
    "k_msg_async_init (acquire c p k) = k_msg_async_init k"
    "k_msg_node_init (acquire c p k) = k_msg_node_init k"
    "k_sched_lock (acquire c p k) = k_sched_lock k"
    "k_run_tree (acquire c p k) = k_run_tree k"
    "k_sleep_tree (acquire c p k) = k_sleep_tree k"
    "k_current_threads (acquire c p k) = k_current_threads k"
    "k_idle_threads (acquire c p k) = k_idle_threads k"
    "k_esp_p0 (acquire c p k) = k_esp_p0 k"
    "k_num_booted_cpus (acquire c p k) = k_num_booted_cpus k"
    "k_booted_cpus (acquire c p k) = k_booted_cpus k"
    "k_listening (acquire c p k) = k_listening k"
    "k_apic_enabled (acquire c p k) = k_apic_enabled k"
    "k_apic_id (acquire c p k) = k_apic_id k"
    "k_apic_log (acquire c p k) = k_apic_log k"
    "k_cpu_frequency (acquire c p k) = k_cpu_frequency k"
    "k_tsc (acquire c p k) = k_tsc k"
    "k_tsc_reads (acquire c p k) = k_tsc_reads k"
    "k_usermsg (acquire c p k) = k_usermsg k"
    "k_port_in (acquire c p k) = k_port_in k"
    "k_port_log (acquire c p k) = k_port_log k"
    "k_console (acquire c p k) = k_console k"
  by (simp_all add: acquire_def)

lemma release_fields [simp]:
  shows "k_mm (release p k) = k_mm k"
    "k_nodes (release p k) = k_nodes k"
    "k_queue_init (release p k) = k_queue_init k"
    "k_caps (release p k) = k_caps k"
    "k_cap_spaces (release p k) = k_cap_spaces k"
    "k_cap_init (release p k) = k_cap_init k"
    "k_anodes (release p k) = k_anodes k"
    "k_atree_init (release p k) = k_atree_init k"
    "k_threads (release p k) = k_threads k"
    "k_thread_counter (release p k) = k_thread_counter k"
    "k_thread_init (release p k) = k_thread_init k"
    "k_addr_maps (release p k) = k_addr_maps k"
    "k_addr_spaces (release p k) = k_addr_spaces k"
    "k_phys_frames (release p k) = k_phys_frames k"
    "k_kernel_space (release p k) = k_kernel_space k"
    "k_addr_space_init (release p k) = k_addr_space_init k"
    "k_phys_frame_init (release p k) = k_phys_frame_init k"
    "k_msg_queues (release p k) = k_msg_queues k"
    "k_msg_async (release p k) = k_msg_async k"
    "k_msg_nodes (release p k) = k_msg_nodes k"
    "k_msg_queue_init (release p k) = k_msg_queue_init k"
    "k_msg_async_init (release p k) = k_msg_async_init k"
    "k_msg_node_init (release p k) = k_msg_node_init k"
    "k_sched_lock (release p k) = k_sched_lock k"
    "k_run_tree (release p k) = k_run_tree k"
    "k_sleep_tree (release p k) = k_sleep_tree k"
    "k_current_threads (release p k) = k_current_threads k"
    "k_idle_threads (release p k) = k_idle_threads k"
    "k_esp_p0 (release p k) = k_esp_p0 k"
    "k_num_booted_cpus (release p k) = k_num_booted_cpus k"
    "k_booted_cpus (release p k) = k_booted_cpus k"
    "k_listening (release p k) = k_listening k"
    "k_apic_enabled (release p k) = k_apic_enabled k"
    "k_apic_id (release p k) = k_apic_id k"
    "k_apic_log (release p k) = k_apic_log k"
    "k_cpu_frequency (release p k) = k_cpu_frequency k"
    "k_tsc (release p k) = k_tsc k"
    "k_tsc_reads (release p k) = k_tsc_reads k"
    "k_usermsg (release p k) = k_usermsg k"
    "k_port_in (release p k) = k_port_in k"
    "k_port_log (release p k) = k_port_log k"
    "k_console (release p k) = k_console k"
  by (simp_all add: release_def)

lemma sched_current_thread_kobjs [simp]: "sched_current_thread (k\<lparr>k_kobjs := a\<rparr>) = sched_current_thread k"
  by (simp add: sched_current_thread_def cur_cpu_def sched_current_cpu_def sched_num_cpus_def)

lemma sched_current_thread_lock [simp]:
  "sched_current_thread (acquire c p k) = sched_current_thread k"
  "sched_current_thread (release p k) = sched_current_thread k"
  by (simp_all add: acquire_def release_def)

text \<open>Taking or freeing one mutex does not touch another.\<close>

lemma quiet_lock [simp]:
  "p \<noteq> r \<Longrightarrow> quiet r (acquire c p k) = quiet r k" "p \<noteq> r \<Longrightarrow> quiet r (release p k) = quiet r k"
  by (auto simp: quiet_def acquire_def release_def)

lemma mutex_lock_other [simp]:
  "p \<noteq> r \<Longrightarrow> k_kobjs (acquire c p k) r = k_kobjs k r" "p \<noteq> r \<Longrightarrow> k_kobjs (release p k) r = k_kobjs k r"
  by (auto simp: acquire_def release_def)

lemma mutex_lock_same [simp]:
  "mx_sleep_waiting (ko_mutex (k_kobjs (acquire c p k) r)) = mx_sleep_waiting (ko_mutex (k_kobjs k r))"
  "mx_sleep_waiting (ko_mutex (k_kobjs (release p k) r)) = mx_sleep_waiting (ko_mutex (k_kobjs k r))"
  "mx_run_waiting (ko_mutex (k_kobjs (acquire c p k) r)) = mx_run_waiting (ko_mutex (k_kobjs k r))"
  "mx_run_waiting (ko_mutex (k_kobjs (release p k) r)) = mx_run_waiting (ko_mutex (k_kobjs k r))"
  by (auto simp: acquire_def release_def)

lemma kobject_lock_quiet:
  assumes q: "quiet p k" and c: "sched_current_thread k = Some cur"
  shows "kobject_lock yield p k = Some (acquire cur p k)"
proof (cases "cur \<noteq> NULL \<and> mx_active (ko_mutex (k_kobjs k p)) = cur")
  case True
  then show ?thesis using q c
    by (simp add: kobject_lock_def mutex_lock_def acquire_def get_mutex_def quiet_def)
next
  case False
  have w: "mutex_wait yield p k = Some (k\<lparr>k_kobjs := (k_kobjs k)(p := (k_kobjs k p)\<lparr>ko_mutex :=
      (ko_mutex (k_kobjs k p))\<lparr>mx_lock := True\<rparr>\<rparr>)\<rparr>)"
    using q by (subst mutex_wait.simps) (simp add: get_mutex_def set_mutex_def lock_trylock_def quiet_def)
  have s: "mutex_do_spinlock p k = Some (k\<lparr>k_kobjs := (k_kobjs k)(p := (k_kobjs k p)\<lparr>ko_mutex :=
      (ko_mutex (k_kobjs k p))\<lparr>mx_lock := True\<rparr>\<rparr>)\<rparr>)"
    using q by (cases "ko_mutex (k_kobjs k p)") (simp add: mutex_do_spinlock_def get_mutex_def set_mutex_def quiet_def)
  have ne: "mx_active (ko_mutex (k_kobjs k p)) \<noteq> cur \<or> cur = NULL" using False by auto
  show ?thesis
    using q c ne w s unfolding kobject_lock_def mutex_lock_def acquire_def
    by (auto simp: get_mutex_def set_mutex_def quiet_def)
qed

lemma kobject_unlock_empty:
  assumes "p \<noteq> NULL" "mx_sleep_waiting (ko_mutex (k_kobjs k p)) = queue_init"
  shows "kobject_unlock yield p k = Some (release p k)"
  using assms
  by (cases "ko_mutex (k_kobjs k p)")
     (auto simp: kobject_unlock_def mutex_unlock_def get_mutex_def set_mutex_def release_def
      queue_pop_front_def queue_init_def)


section \<open>What the queue operations leave alone\<close>

lemma queue_push_back_more: "queue_push_back q x k = Some (q', k') \<Longrightarrow> kq.more k' = kq.more k"
  by (auto simp: queue_push_back_def queue_node_create_def queue_slab_init_def k_slab_alloc_def
      k_slab_init_def upd_node_def Let_def elim!: bind_eq_SomeE split: if_splits)

lemma queue_pop_front_more: "queue_pop_front q k = Some (x, q', k') \<Longrightarrow> kq.more k' = kq.more k"
  by (auto simp: queue_pop_front_def queue_node_free_def k_slab_free_def upd_node_def Let_def
      elim!: bind_eq_SomeE split: if_splits)

lemma kq_moreD:
  fixes k k' :: kernel
  assumes "kq.more k' = kq.more k"
  shows "k_caps k' = k_caps k"
    "k_cap_spaces k' = k_cap_spaces k"
    "k_cap_init k' = k_cap_init k"
    "k_anodes k' = k_anodes k"
    "k_atree_init k' = k_atree_init k"
    "k_kobjs k' = k_kobjs k"
    "k_threads k' = k_threads k"
    "k_thread_counter k' = k_thread_counter k"
    "k_thread_init k' = k_thread_init k"
    "k_addr_maps k' = k_addr_maps k"
    "k_addr_spaces k' = k_addr_spaces k"
    "k_phys_frames k' = k_phys_frames k"
    "k_kernel_space k' = k_kernel_space k"
    "k_addr_space_init k' = k_addr_space_init k"
    "k_phys_frame_init k' = k_phys_frame_init k"
    "k_msg_queues k' = k_msg_queues k"
    "k_msg_async k' = k_msg_async k"
    "k_msg_nodes k' = k_msg_nodes k"
    "k_msg_queue_init k' = k_msg_queue_init k"
    "k_msg_async_init k' = k_msg_async_init k"
    "k_msg_node_init k' = k_msg_node_init k"
    "k_sched_lock k' = k_sched_lock k"
    "k_run_tree k' = k_run_tree k"
    "k_sleep_tree k' = k_sleep_tree k"
    "k_current_threads k' = k_current_threads k"
    "k_idle_threads k' = k_idle_threads k"
    "k_esp_p0 k' = k_esp_p0 k"
    "k_num_booted_cpus k' = k_num_booted_cpus k"
    "k_booted_cpus k' = k_booted_cpus k"
    "k_listening k' = k_listening k"
    "k_apic_enabled k' = k_apic_enabled k"
    "k_apic_id k' = k_apic_id k"
    "k_apic_log k' = k_apic_log k"
    "k_cpu_frequency k' = k_cpu_frequency k"
    "k_tsc k' = k_tsc k"
    "k_tsc_reads k' = k_tsc_reads k"
    "k_usermsg k' = k_usermsg k"
    "k_port_in k' = k_port_in k"
    "k_port_log k' = k_port_log k"
    "k_console k' = k_console k"
  using assms by (cases k; cases k'; simp)+

lemma queue_rep_kernel_upd [simp]:
  fixes k :: kernel
  shows "queue_rep (k\<lparr>k_threads := a\<rparr>) = queue_rep k" "queue_rep (k\<lparr>k_kobjs := b\<rparr>) = queue_rep k"
    "queue_rep (k\<lparr>k_msg_queues := c\<rparr>) = queue_rep k" "queue_rep (k\<lparr>k_msg_async := d\<rparr>) = queue_rep k"
    "queue_rep (k\<lparr>k_usermsg := e\<rparr>) = queue_rep k" "queue_rep (k\<lparr>k_sched_lock := f\<rparr>) = queue_rep k"
  by (simp_all add: fun_eq_iff queue_rep_def qslab_inv_def qslab_live_def)

section \<open>Properties\<close>

lemma mutex_wait_locks:
  assumes "mutex_wait yield p k = Some k'" shows "p \<noteq> NULL \<and> mx_lock (ko_mutex (k_kobjs k' p))"
  using assms
proof (induction rule: mutex_wait.raw_induct [rotated 1, consumes 1, case_names step])
  case (step mutex_wait yield p k k')
  show ?case
  proof (cases "p = NULL")
    case False
    show ?thesis
    proof (cases "mx_lock (ko_mutex (k_kobjs k p))")
      case True
      with step(2) False show ?thesis
        by (auto simp: get_mutex_def lock_trylock_def elim!: bind_eq_SomeE dest: step(1))
    next
      case free: False
      with step(2) False show ?thesis by (auto simp: get_mutex_def set_mutex_def lock_trylock_def)
    qed
  qed (use step(2) in \<open>simp add: get_mutex_def\<close>)
qed


text \<open>
  C21: \<^verbatim>\<open>mutex_lock\<close> on a mutex that is free and has no waiters takes it at once, on one CPU or on
  several, with or without a current thread; and whenever \<^verbatim>\<open>mutex_lock\<close> returns, whatever ran while
  the caller waited, the lock is held and the thread that runs is recorded as its owner, unless the
  caller was recorded as the owner from the start.
\<close>

theorem mutex_lock_excludes:
  assumes "sched_current_thread k = Some cur"
  shows "(quiet p k \<and> mx_active (ko_mutex (k_kobjs k p)) \<noteq> cur \<longrightarrow>
      (\<exists>k'. mutex_lock yield p k = Some k' \<and> mx_lock (ko_mutex (k_kobjs k' p)) \<and>
        mx_active (ko_mutex (k_kobjs k' p)) = cur)) \<and>
    (\<forall>k'. mutex_lock yield p k = Some k' \<longrightarrow>
      k' = k \<and> cur \<noteq> NULL \<and> mx_active (ko_mutex (k_kobjs k p)) = cur \<or>
      mx_lock (ko_mutex (k_kobjs k' p)) \<and>
      sched_current_thread k' = Some (mx_active (ko_mutex (k_kobjs k' p))))"
proof -
  have "\<exists>k'. mutex_lock yield p k = Some k' \<and> mx_lock (ko_mutex (k_kobjs k' p)) \<and>
      mx_active (ko_mutex (k_kobjs k' p)) = cur"
    if "quiet p k" "mx_active (ko_mutex (k_kobjs k p)) \<noteq> cur"
    using kobject_lock_quiet [OF that(1) assms, of yield] that(2)
    by (auto simp: kobject_lock_def acquire_def)
  moreover have "mx_lock (ko_mutex (k_kobjs k' p)) \<and> sched_current_thread k' = Some (mx_active (ko_mutex (k_kobjs k' p)))"
    if r: "mutex_lock yield p k = Some k'" and n: "\<not> (cur \<noteq> NULL \<and> mx_active (ko_mutex (k_kobjs k p)) = cur)" for k'
  proof -
    from r have p: "p \<noteq> NULL" by (auto simp: mutex_lock_def get_mutex_def elim!: bind_eq_SomeE split: if_splits)
    from r n assms p obtain k1 c1 where
      k1: "(if cur = NULL then mutex_do_spinlock p k else if sched_num_cpus k > 1 then mutex_do_spinlock p k
            else mutex_wait yield p k) = Some k1" and
      c1: "sched_current_thread k1 = Some c1" and
      k': "set_mutex p (mx_active_update (\<lambda>_. c1)) k1 = Some k'"
      unfolding mutex_lock_def by (auto simp: get_mutex_def elim!: bind_eq_SomeE)
    have sp: "mutex_do_spinlock p k = Some k1 \<Longrightarrow> mx_lock (ko_mutex (k_kobjs k1 p))"
      using p by (cases "mx_lock (ko_mutex (k_kobjs k p))")
        (auto simp: mutex_do_spinlock_def get_mutex_def set_mutex_def)
    have "mx_lock (ko_mutex (k_kobjs k1 p))"
      using k1 sp mutex_wait_locks [of yield p k k1] by (auto split: if_splits)
    then show ?thesis using k' c1 p by (auto simp: set_mutex_def)
  qed
  moreover have "k' = k"
    if r: "mutex_lock yield p k = Some k'" and a: "cur \<noteq> NULL \<and> mx_active (ko_mutex (k_kobjs k p)) = cur" for k'
    using r a assms by (auto simp: mutex_lock_def get_mutex_def split: if_splits)
  ultimately show ?thesis by blast
qed

lemma queue_node_create_None:
  fixes k k' :: kernel
  assumes "k_mm k' = k_mm k" "k_queue_init k' = k_queue_init k"
  shows "queue_node_create x k' = None \<longleftrightarrow> queue_node_create x k = None"
  using assms
  by (auto simp: queue_node_create_def queue_slab_init_def k_slab_init_def k_slab_alloc_def upd_node_def
      split: bind_splits)

text \<open>
  on one CPU a thread that finds the mutex held goes to sleep on it: when it yields, its state
  is \<^verbatim>\<open>WAITING\<close>, it is the last thread on the mutex's queue of sleepers, and the lock is still held;
  and what \<^verbatim>\<open>mutex_lock\<close> does after that is to wait again from the state the yield returned in.
\<close>

theorem mutex_lock_blocks:
  assumes cur: "sched_current_thread k = Some cur" "cur \<noteq> NULL" and p: "p \<noteq> NULL"
    and one: "\<not> sched_num_cpus k > 1" and other: "mx_active (ko_mutex (k_kobjs k p)) \<noteq> cur"
    and held: "mx_lock (ko_mutex (k_kobjs k p))"
    and rep: "queue_rep k (mx_sleep_waiting (ko_mutex (k_kobjs k p))) ns ws"
    and node: "queue_node_create cur k \<noteq> None"
  shows "\<exists>k4 n. queue_rep k4 (mx_sleep_waiting (ko_mutex (k_kobjs k4 p))) (ns @ [n]) (ws @ [cur]) \<and>
    t_state (k_threads k4 cur) = SCHED_STATE_WAITING \<and> mx_lock (ko_mutex (k_kobjs k4 p)) \<and>
    mutex_lock yield p k = do {
      k5 \<leftarrow> yield k4;
      k6 \<leftarrow> mutex_wait yield p k5;
      cur1 \<leftarrow> sched_current_thread k6;
      set_mutex p (mx_active_update (\<lambda>_. cur1)) k6
    }"
proof -
  let ?m = "ko_mutex (k_kobjs k p)"
  let ?k2 = "k\<lparr>k_kobjs := (k_kobjs k)(p := (k_kobjs k p)\<lparr>ko_mutex := ?m\<lparr>mx_lock := True\<rparr>\<rparr>),
               k_threads := (k_threads k)(cur := (k_threads k cur)\<lparr>t_state := SCHED_STATE_WAITING\<rparr>)\<rparr>"
  have rep2: "queue_rep ?k2 (mx_sleep_waiting ?m) ns ws" using rep by simp
  have "queue_node_create cur ?k2 \<noteq> None" using node queue_node_create_None [of ?k2 k cur] by simp
  with queue_push_back_None [OF rep2, of cur] obtain q k3 where
    push: "queue_push_back (mx_sleep_waiting ?m) cur ?k2 = Some (q, k3)" by auto
  from queue.push_back_rep [OF rep2 push] obtain n where
    n: "queue_rep k3 q (ns @ [n]) (ws @ [cur])" by blast
  note k3 = kq_moreD [OF queue_push_back_more [OF push]]
  let ?k4 = "k3\<lparr>k_kobjs := (k_kobjs k3)(p := (k_kobjs k3 p)\<lparr>ko_mutex :=
    (ko_mutex (k_kobjs k3 p))\<lparr>mx_sleep_waiting := q\<rparr>\<rparr>)\<rparr>"
  have "mutex_wait yield p k = do { k5 \<leftarrow> yield ?k4; mutex_wait yield p k5 }"
    using held p cur push k3
    by (subst mutex_wait.simps) (simp add: get_mutex_def set_mutex_def lock_trylock_def upd_thread_def)
  then have "mutex_lock yield p k = do {
      k5 \<leftarrow> yield ?k4;
      k6 \<leftarrow> mutex_wait yield p k5;
      cur1 \<leftarrow> sched_current_thread k6;
      set_mutex p (mx_active_update (\<lambda>_. cur1)) k6
    }"
    using cur p one other by (simp add: mutex_lock_def get_mutex_def)
  moreover have "queue_rep ?k4 (mx_sleep_waiting (ko_mutex (k_kobjs ?k4 p))) (ns @ [n]) (ws @ [cur])"
    using n by simp
  moreover have "t_state (k_threads ?k4 cur) = SCHED_STATE_WAITING" "mx_lock (ko_mutex (k_kobjs ?k4 p))"
    using k3 by simp_all
  ultimately show ?thesis by blast
qed


text \<open>
  \<^verbatim>\<open>mutex_unlock\<close> with nobody spinning hands over to the thread that has slept longest: it leaves
  the queue of sleepers, the lock is free, the thread is \<^verbatim>\<open>RUNNING\<close>, and it goes to
  \<^verbatim>\<open>sched_add_thread\<close>; the others keep their order.
\<close>

theorem mutex_unlock_wakes_first:
  assumes p: "p \<noteq> NULL" and w: "w \<noteq> NULL" and sp: "mx_run_waiting (ko_mutex (k_kobjs k p)) = 0"
    and rep: "queue_rep k (mx_sleep_waiting (ko_mutex (k_kobjs k p))) (n # ns) (w # ws)"
    and free: "slab_free queue_slab n (k_mm k) \<noteq> None"
  shows "\<exists>k3. mutex_unlock yield p k = sched_add_thread yield w k3 \<and>
    queue_rep k3 (mx_sleep_waiting (ko_mutex (k_kobjs k3 p))) ns ws \<and>
    \<not> mx_lock (ko_mutex (k_kobjs k3 p)) \<and>
    k_threads k3 = (k_threads k)(w := (k_threads k w)\<lparr>t_state := SCHED_STATE_RUNNING\<rparr>)"
proof -
  let ?m = "ko_mutex (k_kobjs k p)"
  from queue_pop_front_None [OF rep] free obtain z q k1 where
    pop: "queue_pop_front (mx_sleep_waiting ?m) k = Some (z, q, k1)" by (cases "queue_pop_front (mx_sleep_waiting ?m) k") auto
  from queue.pop_front_rep [OF rep pop] have z: "z = w" and r1: "queue_rep k1 q ns ws" by blast+
  note k1 = kq_moreD [OF queue_pop_front_more [OF pop]]
  let ?k3 = "k1\<lparr>k_kobjs := (k_kobjs k)(p := (k_kobjs k p)\<lparr>ko_mutex := ?m\<lparr>mx_sleep_waiting := q, mx_lock := False\<rparr>\<rparr>),
               k_threads := (k_threads k)(w := (k_threads k w)\<lparr>t_state := SCHED_STATE_RUNNING\<rparr>)\<rparr>"
  have "mutex_unlock yield p k = sched_add_thread yield w ?k3"
    using p w sp pop z k1 by (cases ?m) (simp add: mutex_unlock_def get_mutex_def set_mutex_def upd_thread_def)
  moreover have "queue_rep ?k3 (mx_sleep_waiting (ko_mutex (k_kobjs ?k3 p))) ns ws" using r1 by simp
  ultimately show ?thesis by (intro exI [of _ ?k3]) simp
qed

text \<open>
  C40: \<^verbatim>\<open>mutex_unlock\<close> leaves the \<^verbatim>\<open>active\<close> field of the mutex as it is. A thread that locks, unlocks
  and locks again the same mutex, with no other user in between, is taken for its owner the second
  time: \<^verbatim>\<open>mutex_lock\<close> returns without setting the lock, and any other thread can take it.
\<close>

theorem mutex_relock_unprotected:
  assumes q: "quiet p k" and c: "sched_current_thread k = Some cur" "cur \<noteq> NULL"
  shows "\<exists>k1 k2 k3. mutex_lock yield p k = Some k1 \<and> mutex_unlock yield p k1 = Some k2 \<and>
    mutex_lock yield p k2 = Some k3 \<and> \<not> mx_lock (ko_mutex (k_kobjs k3 p)) \<and> quiet p k3"
proof -
  let ?k1 = "acquire cur p k"
  let ?k2 = "release p ?k1"
  have p: "p \<noteq> NULL" using q by (simp add: quiet_def)
  have 1: "mutex_lock yield p k = Some ?k1"
    using kobject_lock_quiet [OF q c(1)] by (simp add: kobject_lock_def)
  have "mx_sleep_waiting (ko_mutex (k_kobjs ?k1 p)) = queue_init" using q by (simp add: quiet_def acquire_def)
  from kobject_unlock_empty [OF p this] have 2: "mutex_unlock yield p ?k1 = Some ?k2"
    by (simp add: kobject_unlock_def)
  have q2: "quiet p ?k2" using q by (auto simp: quiet_def acquire_def release_def)
  have c2: "sched_current_thread ?k2 = Some cur" using c by (auto simp: acquire_def release_def)
  have a: "mx_active (ko_mutex (k_kobjs ?k2 p)) = cur" by (auto simp: acquire_def release_def)
  have "mutex_lock yield p ?k2 = Some ?k2"
    using kobject_lock_quiet [OF q2 c2] a c(2) by (simp add: kobject_lock_def acquire_def)
  with 1 2 q2 show ?thesis by (auto simp: quiet_def)
qed

subsection \<open>Witnesses\<close>

lemma boot_kernel_current: "sched_current_thread boot_kernel = Some 0x5000"
  by (simp add: sched_current_thread_def cur_cpu_def sched_current_cpu_def sched_num_cpus_def boot_kernel_def
      c4_enum)

lemma boot_quiet: "p \<noteq> NULL \<Longrightarrow> quiet p boot_kernel"
  by (simp add: quiet_def boot_kernel_def)

lemma boot_kernel_mm: "k_mm boot_kernel = boot_mm" "k_queue_init boot_kernel"
  by (simp_all add: boot_kernel_def)

lemma boot_node: "queue_node_create x boot_kernel \<noteq> None"
proof -
  have "\<exists>p m. slab_alloc queue_slab boot_mm = Some (p, m) \<and> p \<noteq> NULL"
    using slab_alloc_total [OF boot_slab(1) boot_core] slab_alloc_ok [OF boot_slab(1)] by fastforce
  then show ?thesis
    by (auto simp: queue_node_create_def queue_slab_init_def boot_kernel_mm k_slab_alloc_def upd_node_def)
qed

lemma boot_kernel_rep: "queue_rep boot_kernel queue_init [] []"
  by (rule queue_init_rep) (simp add: qslab_inv_def boot_kernel_mm boot_slab)

text \<open>C21: the current thread of the boot state locks a frame.\<close>

theorem mutex_lock_excludes_witness:
  "\<exists>k'. mutex_lock (\<lambda>_. None) 0x6000 boot_kernel = Some k' \<and> mx_lock (ko_mutex (k_kobjs k' 0x6000)) \<and>
     mx_active (ko_mutex (k_kobjs k' 0x6000)) = 0x5000"
proof -
  have "mx_active (ko_mutex (k_kobjs boot_kernel 0x6000)) \<noteq> 0x5000" by (simp add: boot_kernel_def)
  then show ?thesis
    using mutex_lock_excludes [OF boot_kernel_current, of "0x6000" "\<lambda>_. None"] boot_quiet [of "0x6000"] by simp
qed

definition held_kernel :: kernel where
  "held_kernel = boot_kernel\<lparr>k_kobjs := (\<lambda>_. \<lparr>ko_mutex = \<lparr>mx_run_waiting = 0, mx_sleep_waiting = queue_init,
     mx_active = 0x5100, mx_lock = True\<rparr>, ko_type = 0\<rparr>)\<rparr>"

text \<open>the frame is held by the other thread.\<close>

theorem mutex_lock_blocks_witness:
  "\<exists>(k4 :: kernel) n. queue_rep k4 (mx_sleep_waiting (ko_mutex (k_kobjs k4 0x6000))) [n] [0x5000] \<and>
     t_state (k_threads k4 0x5000) = SCHED_STATE_WAITING"
proof -
  have h: "k_kobjs held_kernel 0x6000 = \<lparr>ko_mutex = \<lparr>mx_run_waiting = 0, mx_sleep_waiting = queue_init,
     mx_active = 0x5100, mx_lock = True\<rparr>, ko_type = 0\<rparr>" by (simp add: held_kernel_def)
  have c: "sched_current_thread held_kernel = Some 0x5000" using boot_kernel_current by (simp add: held_kernel_def)
  have one: "\<not> sched_num_cpus held_kernel > 1" by (simp add: sched_num_cpus_def held_kernel_def boot_kernel_def)
  have rep: "queue_rep held_kernel (mx_sleep_waiting (ko_mutex (k_kobjs held_kernel 0x6000))) [] []"
    using boot_kernel_rep unfolding h by (simp add: held_kernel_def)
  have nd: "queue_node_create 0x5000 held_kernel \<noteq> None"
    using boot_node queue_node_create_None [of held_kernel boot_kernel] by (simp add: held_kernel_def)
  have "(0x5000 :: ptr) \<noteq> NULL" "(0x6000 :: ptr) \<noteq> NULL" "mx_active (ko_mutex (k_kobjs held_kernel 0x6000)) \<noteq> 0x5000"
    "mx_lock (ko_mutex (k_kobjs held_kernel 0x6000))" using h by simp_all
  from mutex_lock_blocks [OF c this(1,2) one this(3,4) rep nd, where yield = "\<lambda>_. None"] show ?thesis
    unfolding append_Nil by blast
qed

text \<open>An instance: a mutex with one sleeper.\<close>

theorem mutex_unlock_wakes_first_witness:
  "\<exists>k k3. mutex_unlock (\<lambda>_. None) 0x6000 k = sched_add_thread (\<lambda>_. None) 0x5100 k3 \<and>
     t_state (k_threads k3 0x5100) = SCHED_STATE_RUNNING \<and> \<not> mx_lock (ko_mutex (k_kobjs k3 0x6000))"
proof -
  have "do {
      (q, k1) \<leftarrow> queue_push_back queue_init 0x5100 boot_kernel;
      (x, r, k2) \<leftarrow> queue_pop_front q k1;
      Some ()
    } = Some ()" by code_simp
  then obtain q k1 r where q: "queue_push_back queue_init 0x5100 boot_kernel = Some (q, k1)"
    and r: "queue_pop_front q k1 = Some r" by (auto elim!: bind_eq_SomeE)
  from queue.push_back_rep [OF boot_kernel_rep q] obtain n where n: "queue_rep k1 q [n] [0x5100]" by auto
  let ?k = "k1\<lparr>k_kobjs := (\<lambda>_. \<lparr>ko_mutex = \<lparr>mx_run_waiting = 0, mx_sleep_waiting = q,
     mx_active = 0x5000, mx_lock = True\<rparr>, ko_type = 0\<rparr>)\<rparr>"
  have rep: "queue_rep ?k (mx_sleep_waiting (ko_mutex (k_kobjs ?k 0x6000))) [n] [0x5100]" using n by simp
  have "slab_free queue_slab n (k_mm ?k) \<noteq> None" using queue_pop_front_None [OF n] r by simp
  from mutex_unlock_wakes_first [OF _ _ _ rep this, where yield = "\<lambda>_. None"] show ?thesis by fastforce
qed

text \<open>C40: on the frame of the boot state.\<close>

theorem mutex_relock_unprotected_witness:
  "\<exists>k1 k2 k3. mutex_lock (\<lambda>_. None) 0x6000 boot_kernel = Some k1 \<and> mutex_unlock (\<lambda>_. None) 0x6000 k1 = Some k2 \<and>
    mutex_lock (\<lambda>_. None) 0x6000 k2 = Some k3 \<and> \<not> mx_lock (ko_mutex (k_kobjs k3 0x6000))"
  using mutex_relock_unprotected [OF boot_quiet boot_kernel_current, of "0x6000" "\<lambda>_. None"] by auto

end
