(* ===== verification/C4_AddrSpace.thy ===== *)
theory C4_AddrSpace
  imports C4_Sync
begin

text \<open>
  Address spaces, address maps and physical frames (\<^verbatim>\<open>src/mm/addrspace.c\<close>, and \<^verbatim>\<open>clone_page_dir\<close> of
  \<^verbatim>\<open>arch/x86/paging.c\<close>).

  An address map is one page: a header and an array of \<^verbatim>\<open>ADDR_MAP_ENTRIES_PER_PAGE\<close> entries kept
  sorted by address. A pointer to an entry is the address \<open>entry_addr mp i\<close>. An access outside the
  array is the value \<open>None\<close>.
\<close>

section \<open>Address maps\<close>

definition zero_entry :: addr_entry_t where
  "zero_entry = \<lparr>ae_addr = 0, ae_frame = NULL, ae_permissions = 0\<rparr>"

definition entry_addr :: "ptr \<Rightarrow> nat \<Rightarrow> ptr" where
  "entry_addr mp i = mp + sizeof_addr_entry_t + of_nat i * sizeof_addr_entry_t"

text \<open>The region of every address space is the global one, whose address stands for it.\<close>

definition region_global :: ptr where "region_global = 0xfd020000"

definition region_alloc_at :: "ptr \<Rightarrow> kernel \<Rightarrow> (ptr \<times> kernel) option" where
  "region_alloc_at region k = (if region = region_global then k_global_alloc k else None)"

definition region_free_at :: "ptr \<Rightarrow> ptr \<Rightarrow> kernel \<Rightarrow> kernel option" where
  "region_free_at region a k = (if region = region_global then k_global_free a k else None)"

definition addr_map_create :: "ptr \<Rightarrow> kernel \<Rightarrow> (ptr \<times> kernel) option" where
  "addr_map_create region k = do {
     (ret, k1) \<leftarrow> region_alloc_at region k;
     if ret \<noteq> NULL
     then do {
       k2 \<leftarrow> set_addr_map ret
              \<lparr>am_region = region, am_entries = of_nat ADDR_MAP_ENTRIES_PER_PAGE, am_used = 0,
               am_map = replicate ADDR_MAP_ENTRIES_PER_PAGE zero_entry\<rparr> k1;
       Some (ret, k2)
     }
     else Some (ret, k1)
   }"

definition addr_map_free :: "ptr \<Rightarrow> kernel \<Rightarrow> kernel option" where
  "addr_map_free mp k =
     (if mp \<noteq> NULL then do {
        m \<leftarrow> get_addr_map mp k;
        region_free_at (am_region m) mp k
      } else Some k)"

definition addr_map_get_root :: "ptr \<Rightarrow> ptr" where
  "addr_map_get_root entry = (if entry \<noteq> NULL then entry - entry mod PAGE_SIZE else NULL)"

text \<open>Element access of \<^verbatim>\<open>map->map[i]\<close>.\<close>

definition am_read :: "addr_entry_t list \<Rightarrow> nat \<Rightarrow> addr_entry_t option" where
  "am_read es i = (if i < length es then Some (es ! i) else None)"

definition am_write :: "nat \<Rightarrow> addr_entry_t \<Rightarrow> addr_entry_t list \<Rightarrow> addr_entry_t list option" where
  "am_write i e es = (if i < length es then Some (es[i := e]) else None)"

text \<open>The two shifting loops; \<open>i\<close> is the loop variable.\<close>

fun shift_up_loop :: "nat \<Rightarrow> nat \<Rightarrow> addr_entry_t list \<Rightarrow> addr_entry_t list option" where
  "shift_up_loop 0 idx es = Some es"
| "shift_up_loop (Suc i) idx es =
     (if Suc i > idx
      then do {
        e \<leftarrow> am_read es i;
        es1 \<leftarrow> am_write (Suc i) e es;
        shift_up_loop i idx es1
      }
      else Some es)"

definition addr_map_shift_upwards :: "nat \<Rightarrow> addr_map_t \<Rightarrow> addr_map_t option" where
  "addr_map_shift_upwards idx m = do {
     es \<leftarrow> shift_up_loop (unat (am_used m)) idx (am_map m);
     es1 \<leftarrow> am_write idx zero_entry es;
     Some (m\<lparr>am_map := es1, am_used := am_used m + 1\<rparr>)
   }"

function shift_down_loop :: "nat \<Rightarrow> nat \<Rightarrow> addr_entry_t list \<Rightarrow> addr_entry_t list option" where
  "shift_down_loop i used es =
     (if i < used
      then do {
        e \<leftarrow> am_read es (i + 1);
        es1 \<leftarrow> am_write i e es;
        shift_down_loop (i + 1) used es1
      }
      else Some es)"
  by auto
termination by (relation "measure (\<lambda>(i, used, _). used - i)") auto

declare shift_down_loop.simps [simp del]

definition addr_map_shift_downwards :: "nat \<Rightarrow> addr_map_t \<Rightarrow> addr_map_t option" where
  "addr_map_shift_downwards idx m = do {
     es \<leftarrow> shift_down_loop idx (unat (am_used m)) (am_map m);
     Some (m\<lparr>am_map := es, am_used := am_used m - 1\<rparr>)
   }"

text \<open>The search loop of \<^verbatim>\<open>addr_map_lookup\<close>, from index \<open>i\<close>.\<close>

function lookup_from :: "kernel \<Rightarrow> nat \<Rightarrow> addr_map_t \<Rightarrow> u32 \<Rightarrow> nat option option" where
  "lookup_from k i m address =
     (if i < unat (am_used m)
      then do {
        e \<leftarrow> am_read (am_map m) i;
        f \<leftarrow> get_frame (ae_frame e) k;
        let start = ae_addr e;
        let fin = start + pf_size f * PAGE_SIZE;
        if address \<ge> start \<and> address < fin then Some (Some i)
        else lookup_from k (i + 1) m address
      }
      else Some None)"
  by auto
termination by (relation "measure (\<lambda>(_, i, m, _). unat (am_used m) - i)") auto

declare lookup_from.simps [simp del]

definition addr_map_lookup :: "ptr \<Rightarrow> u32 \<Rightarrow> kernel \<Rightarrow> ptr option" where
  "addr_map_lookup mp address k = do {
     m \<leftarrow> get_addr_map mp k;
     r \<leftarrow> lookup_from k 0 m address;
     Some (case r of Some i \<Rightarrow> entry_addr mp i | None \<Rightarrow> NULL)
   }"

definition entry_index :: "ptr \<Rightarrow> ptr \<Rightarrow> nat" where
  "entry_index mp entry = unat ((entry - (mp + sizeof_addr_entry_t)) div sizeof_addr_entry_t)"

definition addr_map_remove :: "ptr \<Rightarrow> ptr \<Rightarrow> kernel \<Rightarrow> kernel option" where
  "addr_map_remove mp entry k = do {
     m \<leftarrow> get_addr_map mp k;
     m1 \<leftarrow> addr_map_shift_downwards (entry_index mp entry) m;
     set_addr_map mp m1 k
   }"

text \<open>The placement loop of \<^verbatim>\<open>addr_map_insert\<close>, from index \<open>i\<close>.\<close>

function placement_from :: "nat \<Rightarrow> addr_map_t \<Rightarrow> addr_entry_t \<Rightarrow> nat option option" where
  "placement_from i m entry =
     (if i < unat (am_used m)
      then do {
        e \<leftarrow> am_read (am_map m) i;
        if ae_addr entry < ae_addr e then Some (Some i)
        else placement_from (i + 1) m entry
      }
      else Some None)"
  by auto
termination by (relation "measure (\<lambda>(i, m, _). unat (am_used m) - i)") auto

declare placement_from.simps [simp del]

definition addr_map_insert :: "ptr \<Rightarrow> addr_entry_t \<Rightarrow> kernel \<Rightarrow> (ptr \<times> kernel) option" where
  "addr_map_insert mp entry k = do {
     m \<leftarrow> get_addr_map mp k;
     if am_used m \<ge> am_entries m then Some (NULL, k)
     else do {
       placement \<leftarrow> placement_from 0 m entry;
       (i, m1) \<leftarrow> (case placement of
                     Some i \<Rightarrow> do { m' \<leftarrow> addr_map_shift_upwards i m; Some (i, m') }
                   | None \<Rightarrow> Some (unat (am_used m), m\<lparr>am_used := am_used m + 1\<rparr>));
       es \<leftarrow> am_write i entry (am_map m1);
       k1 \<leftarrow> set_addr_map mp (m1\<lparr>am_map := es\<rparr>) k;
       Some (entry_addr mp i, k1)
     }
   }"

section \<open>Physical frames\<close>

definition sizeof_phys_frame_t :: u32 where "sizeof_phys_frame_t = 44"

definition phys_frame_init :: "kernel \<Rightarrow> kernel" where
  "phys_frame_init k =
     (if \<not> k_phys_frame_init k
      then k_slab_init phys_frame_slab sizeof_phys_frame_t (k\<lparr>k_phys_frame_init := True\<rparr>)
      else k)"

definition phys_frame_create :: "u32 \<Rightarrow> u32 \<Rightarrow> u32 \<Rightarrow> kernel \<Rightarrow> (ptr \<times> kernel) option" where
  "phys_frame_create addr sz flags k = do {
     (ret, k1) \<leftarrow> k_slab_alloc phys_frame_slab k;
     k2 \<leftarrow> upd_frame ret
            (\<lambda>_. \<lparr>pf_address = addr, pf_size = sz, pf_flags = flags, pf_mappings = 0\<rparr>) k1;
     k3 \<leftarrow> kobject_init ret KOBJECT_TYPE_PHYS_MEMORY k2;
     Some (ret, k3)
   }"

definition phys_frame_map :: "ptr \<Rightarrow> kernel \<Rightarrow> kernel option" where
  "phys_frame_map phys k = upd_frame phys (pf_mappings_update (\<lambda>n. n + 1)) k"

definition phys_frame_unmap :: "ptr \<Rightarrow> kernel \<Rightarrow> kernel option" where
  "phys_frame_unmap phys k = upd_frame phys (pf_mappings_update (\<lambda>n. n - 1)) k"

definition phys_frame_split :: "yield \<Rightarrow> ptr \<Rightarrow> u32 \<Rightarrow> kernel \<Rightarrow> (ptr \<times> kernel) option" where
  "phys_frame_split yield phys offset k = do {
     k1 \<leftarrow> kobject_lock yield phys k;
     f \<leftarrow> get_frame phys k1;
     if pf_mappings f \<noteq> 0
     then do { k2 \<leftarrow> kobject_unlock yield phys k1; Some (NULL, k2) }
     else if offset = 0 \<or> offset \<ge> pf_size f
     then do { k2 \<leftarrow> kobject_unlock yield phys k1; Some (NULL, k2) }
     else do {
       (ret, k2) \<leftarrow> phys_frame_create (pf_address f + offset * PAGE_SIZE) (pf_size f - offset)
                      (pf_flags f) k1;
       k3 \<leftarrow> upd_frame phys (pf_size_update (\<lambda>_. offset)) k2;
       k4 \<leftarrow> kobject_unlock yield phys k3;
       Some (ret, k4)
     }
   }"

section \<open>Page directories\<close>

definition with_paging :: "(paging \<Rightarrow> paging option) \<Rightarrow> kernel \<Rightarrow> kernel option" where
  "with_paging f k = do {
     pg \<leftarrow> f (mm_pg (k_mm k));
     Some (k\<lparr>k_mm := (k_mm k)\<lparr>mm_pg := pg\<rparr>\<rparr>)
   }"

text \<open>The copy loop of \<^verbatim>\<open>clone_page_dir\<close>: \<open>n\<close> entries are left.\<close>

fun clone_dir_loop :: "nat \<Rightarrow> ptr \<Rightarrow> ptr \<Rightarrow> paging \<Rightarrow> paging option" where
  "clone_dir_loop 0 newdir dir pg = Some pg"
| "clone_dir_loop (Suc n) newdir dir pg = do {
     let i = 1023 - of_nat (Suc n);
     e \<leftarrow> vload pg (dir + 4 * i);
     pg1 \<leftarrow> vstore (newdir + 4 * i) (e AND NOT PAGE_ARCH_ACCESSED) pg;
     clone_dir_loop n newdir dir pg1
   }"

definition clone_page_dir :: "ptr \<Rightarrow> kernel \<Rightarrow> (ptr \<times> kernel) option" where
  "clone_page_dir dir k = do {
     (newdir, k1) \<leftarrow> k_global_alloc k;
     k2 \<leftarrow> with_paging (\<lambda>pg. do {
            pg1 \<leftarrow> clone_dir_loop 1023 newdir dir pg;
            a \<leftarrow> page_phys_addr newdir pg1;
            vstore (newdir + 4 * 1023) a pg1
          }) k1;
     Some (newdir, k2)
   }"

section \<open>Address spaces\<close>

definition sizeof_addr_space_t :: u32 where "sizeof_addr_space_t = 40"

definition addr_space_init :: "kernel \<Rightarrow> kernel option" where
  "addr_space_init k =
     (if \<not> k_addr_space_init k
      then do {
        let k1 = k_slab_init addr_space_slab sizeof_addr_space_t k;
        (s, k2) \<leftarrow> k_slab_alloc addr_space_slab k1;
        (m, k3) \<leftarrow> addr_map_create region_global k2;
        k4 \<leftarrow> set_addr_space s
               \<lparr>as_page_dir = pg_kernel_dir (mm_pg (k_mm k3)), as_map = m, as_region = region_global\<rparr> k3;
        k5 \<leftarrow> kobject_init s KOBJECT_TYPE_ADDR_SPACE k4;
        Some (k5\<lparr>k_kernel_space := s, k_addr_space_init := True\<rparr>)
      }
      else Some k)"

definition addr_space_clone :: "yield \<Rightarrow> ptr \<Rightarrow> kernel \<Rightarrow> (ptr \<times> kernel) option" where
  "addr_space_clone yield space k = do {
     k1 \<leftarrow> kobject_lock yield space k;
     (ret, k2) \<leftarrow> k_slab_alloc addr_space_slab k1;
     s \<leftarrow> get_addr_space space k2;
     (dir, k3) \<leftarrow> clone_page_dir (as_page_dir s) k2;
     (m, k4) \<leftarrow> addr_map_create (as_region s) k3;
     k5 \<leftarrow> set_addr_space ret \<lparr>as_page_dir = dir, as_map = m, as_region = as_region s\<rparr> k4;
     k6 \<leftarrow> kobject_init ret KOBJECT_TYPE_ADDR_SPACE k5;
     src \<leftarrow> get_addr_map (as_map s) k6;
     k7 \<leftarrow> set_addr_map m src k6;
     k8 \<leftarrow> kobject_unlock yield space k7;
     Some (ret, k8)
   }"

definition addr_space_kernel :: "kernel \<Rightarrow> ptr" where
  "addr_space_kernel k = k_kernel_space k"

definition addr_space_set :: "ptr \<Rightarrow> kernel \<Rightarrow> kernel option" where
  "addr_space_set space k = do {
     s \<leftarrow> get_addr_space space k;
     with_paging (set_page_dir (as_page_dir s)) k
   }"

definition addr_space_make_ent :: "u32 \<Rightarrow> u32 \<Rightarrow> ptr \<Rightarrow> addr_entry_t" where
  "addr_space_make_ent addr permissions frame =
     \<lparr>ae_addr = addr, ae_frame = frame, ae_permissions = permissions\<rparr>"

text \<open>
  The mapping loops step a 32-bit byte offset \<open>page\<close> by \<^verbatim>\<open>PAGE_SIZE\<close> up to \<^verbatim>\<open>phys->size * PAGE_SIZE\<close>,
  which is at most \<open>2^32 - PAGE_SIZE\<close>, so the offset does not wrap and the loop has as many rounds
  as the limit has pages.
\<close>

definition page_limit :: "phys_frame_t \<Rightarrow> u32" where
  "page_limit f = pf_size f * PAGE_SIZE"

fun map_loop :: "nat \<Rightarrow> u32 \<Rightarrow> u32 \<Rightarrow> u32 \<Rightarrow> u32 \<Rightarrow> paging \<Rightarrow> paging option" where
  "map_loop 0 page perms v_start p_start pg = Some pg"
| "map_loop (Suc n) page perms v_start p_start pg = do {
     pg1 \<leftarrow> map_phys_page perms (v_start + page) (p_start + page) pg;
     map_loop n (page + PAGE_SIZE) perms v_start p_start pg1
   }"

fun unmap_loop :: "nat \<Rightarrow> u32 \<Rightarrow> u32 \<Rightarrow> paging \<Rightarrow> paging option" where
  "unmap_loop 0 page v_start pg = Some pg"
| "unmap_loop (Suc n) page v_start pg = do {
     pg1 \<leftarrow> unmap_page (v_start + page) pg;
     unmap_loop n (page + PAGE_SIZE) v_start pg1
   }"

definition addr_space_insert_map :: "yield \<Rightarrow> ptr \<Rightarrow> addr_entry_t \<Rightarrow> kernel \<Rightarrow> (int \<times> kernel) option" where
  "addr_space_insert_map yield space ent k = do {
     let phys = ae_frame ent;
     f0 \<leftarrow> get_frame phys k;
     let v_start = ae_addr ent - ae_addr ent mod PAGE_SIZE;
     let p_start = pf_address f0 - pf_address f0 mod PAGE_SIZE;
     k1 \<leftarrow> kobject_lock yield space k;
     k2 \<leftarrow> kobject_lock yield phys k1;
     k3 \<leftarrow> phys_frame_map (ae_frame ent) k2;
     s \<leftarrow> get_addr_space space k3;
     (_, k4) \<leftarrow> addr_map_insert (as_map s) ent k3;
     f \<leftarrow> get_frame phys k4;
     k5 \<leftarrow> with_paging (map_loop (unat (page_limit f div PAGE_SIZE)) 0 (ae_permissions ent) v_start p_start) k4;
     k6 \<leftarrow> kobject_unlock yield phys k5;
     k7 \<leftarrow> kobject_unlock yield space k6;
     Some (0, k7)
   }"

definition read_entry :: "ptr \<Rightarrow> ptr \<Rightarrow> kernel \<Rightarrow> addr_entry_t option" where
  "read_entry mp entry k = do {
     m \<leftarrow> get_addr_map mp k;
     am_read (am_map m) (entry_index mp entry)
   }"

definition addr_space_remove_map :: "yield \<Rightarrow> ptr \<Rightarrow> ptr \<Rightarrow> kernel \<Rightarrow> (int \<times> kernel) option" where
  "addr_space_remove_map yield space ent k = do {
     s \<leftarrow> get_addr_space space k;
     e \<leftarrow> read_entry (as_map s) ent k;
     let phys = ae_frame e;
     let v_start = ae_addr e - ae_addr e mod PAGE_SIZE;
     k1 \<leftarrow> kobject_lock yield phys k;
     f \<leftarrow> get_frame phys k1;
     k2 \<leftarrow> with_paging (unmap_loop (unat (page_limit f div PAGE_SIZE)) 0 v_start) k1;
     e' \<leftarrow> read_entry (as_map s) ent k2;
     k3 \<leftarrow> phys_frame_unmap (ae_frame e') k2;
     s' \<leftarrow> get_addr_space space k3;
     k4 \<leftarrow> addr_map_remove (as_map s') ent k3;
     k5 \<leftarrow> kobject_unlock yield phys k4;
     Some (0, k5)
   }"

definition addr_space_unmap :: "yield \<Rightarrow> ptr \<Rightarrow> u32 \<Rightarrow> kernel \<Rightarrow> (int \<times> kernel) option" where
  "addr_space_unmap yield space address k = do {
     k1 \<leftarrow> kobject_lock yield space k;
     s \<leftarrow> get_addr_space space k1;
     ent \<leftarrow> addr_map_lookup (as_map s) address k1;
     if ent = NULL
     then do { k2 \<leftarrow> kobject_unlock yield space k1; Some (- C4_ERROR_INVALID_ARGUMENT, k2) }
     else do {
       (_, k2) \<leftarrow> addr_space_remove_map yield space ent k1;
       k3 \<leftarrow> kobject_unlock yield space k2;
       Some (- C4_ERROR_NONE, k3)
     }
   }"

definition am_list :: "addr_map_t \<Rightarrow> addr_entry_t list" where
  "am_list m = take (unat (am_used m)) (am_map m)"

definition am_ok :: "addr_map_t \<Rightarrow> bool" where
  "am_ok m \<longleftrightarrow> length (am_map m) = ADDR_MAP_ENTRIES_PER_PAGE \<and> am_entries m = of_nat ADDR_MAP_ENTRIES_PER_PAGE
     \<and> unat (am_used m) \<le> ADDR_MAP_ENTRIES_PER_PAGE \<and> sorted (map ae_addr (am_list m))"

lemma epp_val [simp]: "ADDR_MAP_ENTRIES_PER_PAGE = 340"
  by (simp add: ADDR_MAP_ENTRIES_PER_PAGE_def PAGE_SIZE_def sizeof_addr_entry_t_def)

lemma placement_from_spec:
  assumes "unat (am_used m) \<le> length (am_map m)"
  shows "\<exists>r. placement_from i m e = Some r \<and>
    (case r of None \<Rightarrow> \<forall>j. i \<le> j \<longrightarrow> j < unat (am_used m) \<longrightarrow> ae_addr (am_map m ! j) \<le> ae_addr e
     | Some p \<Rightarrow> i \<le> p \<and> p < unat (am_used m) \<and> ae_addr e < ae_addr (am_map m ! p)
         \<and> (\<forall>j. i \<le> j \<longrightarrow> j < p \<longrightarrow> ae_addr (am_map m ! j) \<le> ae_addr e))"
  using assms
proof (induction i m e rule: placement_from.induct)
  case (1 i m e)
  show ?case
  proof (cases "i < unat (am_used m)")
    case True
    then have rd: "am_read (am_map m) i = Some (am_map m ! i)"
      using 1 by (simp add: am_read_def)
    show ?thesis
    proof (cases "ae_addr e < ae_addr (am_map m ! i)")
      case True
      then show ?thesis
        using \<open>i < _\<close> rd by (subst placement_from.simps) simp
    next
      case False
      from 1(1) [OF \<open>i < _\<close> rd False 1(2)] obtain r where
        r: "placement_from (i + 1) m e = Some r" and
        s: "case r of None \<Rightarrow> \<forall>j. i + 1 \<le> j \<longrightarrow> j < unat (am_used m) \<longrightarrow> ae_addr (am_map m ! j) \<le> ae_addr e
          | Some p \<Rightarrow> i + 1 \<le> p \<and> p < unat (am_used m) \<and> ae_addr e < ae_addr (am_map m ! p)
             \<and> (\<forall>j. i + 1 \<le> j \<longrightarrow> j < p \<longrightarrow> ae_addr (am_map m ! j) \<le> ae_addr e)"
        by blast
      have "placement_from i m e = Some r"
        using \<open>i < _\<close> rd False r by (subst placement_from.simps) simp
      moreover have "\<And>j. i \<le> j \<Longrightarrow> j = i \<or> i + 1 \<le> j" by auto
      ultimately show ?thesis
        using s False by (intro exI [of _ r]) (fastforce split: option.splits simp: not_less)
    qed
  next
    case False
    then show ?thesis by (subst placement_from.simps) simp
  qed
qed

lemma shift_up_loop_spec:
  assumes "n < length es" "idx \<le> n"
  shows "\<exists>es'. shift_up_loop n idx es = Some es' \<and> length es' = length es \<and>
    (\<forall>j < length es. es' ! j = (if idx < j \<and> j \<le> n then es ! (j - 1) else es ! j))"
  using assms
proof (induction n arbitrary: es)
  case 0
  then show ?case by simp
next
  case (Suc n)
  show ?case
  proof (cases "Suc n > idx")
    case True
    let ?es1 = "es[Suc n := es ! n]"
    have "n < length ?es1" "idx \<le> n" using Suc.prems True by auto
    from Suc.IH [OF this] obtain es' where
      e: "shift_up_loop n idx ?es1 = Some es'" "length es' = length es"
      "\<forall>j<length es. es' ! j = (if idx < j \<and> j \<le> n then ?es1 ! (j - 1) else ?es1 ! j)"
      by auto
    have "shift_up_loop (Suc n) idx es = Some es'"
      using True Suc.prems e(1) by (simp add: am_read_def am_write_def)
    moreover have "\<forall>j<length es. es' ! j = (if idx < j \<and> j \<le> Suc n then es ! (j - 1) else es ! j)"
      using e(3) True Suc.prems by (auto simp: nth_list_update le_Suc_eq)
    ultimately show ?thesis using e(2) by blast
  next
    case False
    with Suc.prems show ?thesis by (intro exI [of _ es]) auto
  qed
qed

lemma shift_down_loop_spec:
  assumes "used < length es" "i \<le> used"
  shows "\<exists>es'. shift_down_loop i used es = Some es' \<and> length es' = length es \<and>
    (\<forall>j < length es. es' ! j = (if i \<le> j \<and> j < used then es ! (j + 1) else es ! j))"
  using assms
proof (induction i used es rule: shift_down_loop.induct)
  case (1 i used es)
  show ?case
  proof (cases "i < used")
    case True
    let ?es1 = "es[i := es ! (i + 1)]"
    have rd: "am_read es (i + 1) = Some (es ! (i + 1))"
      and wr: "am_write i (es ! (i + 1)) es = Some ?es1"
      using True 1(2) by (auto simp: am_read_def am_write_def)
    from 1(1) [OF True rd wr] True 1(2) obtain es' where
      e: "shift_down_loop (i + 1) used ?es1 = Some es'" "length es' = length es"
      "\<forall>j<length es. es' ! j = (if i + 1 \<le> j \<and> j < used then ?es1 ! (j + 1) else ?es1 ! j)"
      by auto
    have "shift_down_loop i used es = Some es'"
      using True rd wr e(1) by (subst shift_down_loop.simps) simp
    moreover have "\<forall>j<length es. es' ! j = (if i \<le> j \<and> j < used then es ! (j + 1) else es ! j)"
      using e(3) True 1(2) by (auto simp: nth_list_update)
    ultimately show ?thesis using e(2) by blast
  next
    case False
    with 1(3) show ?thesis by (intro exI [of _ es]) (subst shift_down_loop.simps, auto)
  qed
qed

text \<open>The position of a new entry: after every entry at a lower or equal address.\<close>

definition am_place :: "u32 \<Rightarrow> addr_entry_t list \<Rightarrow> nat" where
  "am_place a xs = length (takeWhile (\<lambda>e. ae_addr e \<le> a) xs)"

definition am_insert_at :: "nat \<Rightarrow> addr_entry_t \<Rightarrow> addr_entry_t list \<Rightarrow> addr_entry_t list" where
  "am_insert_at i e xs = take i xs @ e # drop i xs"

lemma am_place_le: "am_place a xs \<le> length xs"
  by (simp add: am_place_def length_takeWhile_le)

lemma am_place_eqI:
  assumes "p \<le> length xs" "\<And>j. j < p \<Longrightarrow> ae_addr (xs ! j) \<le> a" "p < length xs \<Longrightarrow> a < ae_addr (xs ! p)"
  shows "am_place a xs = p"
proof -
  have "takeWhile (\<lambda>e. ae_addr e \<le> a) xs = take p xs"
    using assms by (intro takeWhile_eq_take_P_nth) (auto simp: not_le)
  then show ?thesis using assms(1) by (simp add: am_place_def)
qed

lemma sorted_am_insert:
  assumes "sorted (map ae_addr xs)"
  shows "sorted (map ae_addr (am_insert_at (am_place (ae_addr e) xs) e xs))"
proof -
  let ?P = "\<lambda>x. ae_addr x \<le> ae_addr e"
  have t: "take (am_place (ae_addr e) xs) xs = takeWhile ?P xs"
    and d: "drop (am_place (ae_addr e) xs) xs = dropWhile ?P xs"
    by (simp_all add: am_place_def flip: takeWhile_eq_take dropWhile_eq_drop)
  have s: "sorted (map ae_addr (takeWhile ?P xs @ dropWhile ?P xs))"
    using assms by simp
  have le: "\<forall>x \<in> set (takeWhile ?P xs). ?P x" by (auto dest: set_takeWhileD)
  have "\<forall>x \<in> set (dropWhile ?P xs). ae_addr e \<le> ae_addr x"
  proof (cases "dropWhile ?P xs")
    case (Cons y ys)
    then have "\<not> ?P y" using hd_dropWhile [of ?P xs] by (metis list.sel(1) list.discI)
    moreover have "sorted (map ae_addr (y # ys))" using s Cons by (simp add: sorted_append)
    ultimately show ?thesis using Cons by (auto simp: not_le)
  next
    case Nil
    show ?thesis unfolding Nil by simp
  qed
  moreover have "sorted (map ae_addr (takeWhile ?P xs))" "sorted (map ae_addr (dropWhile ?P xs))"
    using s unfolding map_append sorted_append by blast+
  ultimately show ?thesis
    using le unfolding am_insert_at_def t d by (auto simp: sorted_append intro: order_trans)
qed


lemma insert_list_eq:
  assumes "length es' = length es" "n < length es" "p \<le> n"
    and "\<forall>j < length es. es' ! j = (if p < j \<and> j \<le> n then es ! (j - 1) else es ! j)"
  shows "take (Suc n) (es'[p := e]) = am_insert_at p e (take n es)"
proof (rule nth_equalityI)
  show "length (take (Suc n) (es'[p := e])) = length (am_insert_at p e (take n es))"
    using assms(1-3) by (simp add: am_insert_at_def)
next
  fix j assume "j < length (take (Suc n) (es'[p := e]))"
  then have j: "j < Suc n" "j < length es" using assms(1,2) by auto
  show "take (Suc n) (es'[p := e]) ! j = am_insert_at p e (take n es) ! j"
  proof (cases j p rule: linorder_cases)
    case less
    then show ?thesis using j assms by (simp add: am_insert_at_def nth_append)
  next
    case equal
    then show ?thesis using j assms by (simp add: am_insert_at_def nth_append)
  next
    case greater
    then obtain i where "j = Suc i" by (cases j) auto
    then show ?thesis using greater j assms by (simp add: am_insert_at_def nth_append)
  qed
qed

lemma unat_inc16: "unat (u :: u16) < 340 \<Longrightarrow> unat (u + 1) = Suc (unat u)"
  by (simp add: unat_word_ariths)

lemma addr_map_insert_ok:
  fixes e :: addr_entry_t and k :: kernel
  assumes "am_ok (k_addr_maps k mp)" "mp \<noteq> NULL" "unat (am_used (k_addr_maps k mp)) < ADDR_MAP_ENTRIES_PER_PAGE"
  defines "i \<equiv> am_place (ae_addr e) (am_list (k_addr_maps k mp))"
  shows "\<exists>m. addr_map_insert mp e k = Some (entry_addr mp i, k\<lparr>k_addr_maps := (k_addr_maps k)(mp := m)\<rparr>)
    \<and> am_ok m \<and> am_list m = am_insert_at i e (am_list (k_addr_maps k mp))
    \<and> am_used m = am_used (k_addr_maps k mp) + 1"
proof -
  let ?m = "k_addr_maps k mp"
  let ?u = "unat (am_used ?m)"
  have ok: "length (am_map ?m) = 340" "am_entries ?m = 340" "?u < 340" "sorted (map ae_addr (am_list ?m))"
    using assms(1,3) by (auto simp: am_ok_def)
  have lu: "\<not> am_entries ?m \<le> am_used ?m"
    using ok by (simp add: word_le_nat_alt)
  obtain r where r: "placement_from 0 ?m e = Some r"
    "case r of None \<Rightarrow> \<forall>j. 0 \<le> j \<longrightarrow> j < ?u \<longrightarrow> ae_addr (am_map ?m ! j) \<le> ae_addr e
     | Some p \<Rightarrow> 0 \<le> p \<and> p < ?u \<and> ae_addr e < ae_addr (am_map ?m ! p)
         \<and> (\<forall>j. 0 \<le> j \<longrightarrow> j < p \<longrightarrow> ae_addr (am_map ?m ! j) \<le> ae_addr e)"
    using placement_from_spec [of ?m 0 e] ok by auto
  have i: "i = (case r of None \<Rightarrow> ?u | Some p \<Rightarrow> p)"
    unfolding i_def using r(2) ok by (intro am_place_eqI) (auto simp: am_list_def split: option.splits)
  have iu: "i \<le> ?u" using i r(2) by (auto split: option.splits)
  have u1: "unat (am_used ?m + 1) = Suc ?u" using ok by (simp add: unat_inc16)
  obtain m where step: "addr_map_insert mp e k = Some (entry_addr mp i, k\<lparr>k_addr_maps := (k_addr_maps k)(mp := m)\<rparr>)"
    and m: "am_list m = am_insert_at i e (am_list ?m)" "length (am_map m) = 340"
      "am_entries m = 340" "am_used m = am_used ?m + 1"
  proof (cases r)
    case None
    let ?n = "?m\<lparr>am_used := am_used ?m + 1, am_map := (am_map ?m)[?u := e]\<rparr>"
    have "addr_map_insert mp e k = Some (entry_addr mp i, k\<lparr>k_addr_maps := (k_addr_maps k)(mp := ?n)\<rparr>)"
      using None r lu ok assms(2) i
      by (simp add: addr_map_insert_def get_addr_map_def set_addr_map_def am_write_def)
    moreover have "am_list ?n = am_insert_at i e (am_list ?m)"
      using None i ok by (simp add: am_list_def am_insert_at_def u1 take_Suc_conv_app_nth)
    ultimately show ?thesis using that [of ?n] ok by simp
  next
    case (Some p)
    then have p: "i = p" "p < ?u" using i r(2) by auto
    obtain es where es: "shift_up_loop ?u p (am_map ?m) = Some es" "length es = 340"
      "\<forall>j < 340. es ! j = (if p < j \<and> j \<le> ?u then am_map ?m ! (j - 1) else am_map ?m ! j)"
      using shift_up_loop_spec [of ?u "am_map ?m" p] p ok by auto
    let ?n = "?m\<lparr>am_used := am_used ?m + 1, am_map := es[p := e]\<rparr>"
    have "addr_map_insert mp e k = Some (entry_addr mp i, k\<lparr>k_addr_maps := (k_addr_maps k)(mp := ?n)\<rparr>)"
      using Some r lu ok assms(2) p es
      by (simp add: addr_map_insert_def addr_map_shift_upwards_def get_addr_map_def set_addr_map_def am_write_def)
    moreover have "am_list ?n = am_insert_at i e (am_list ?m)"
      using insert_list_eq [of es "am_map ?m" ?u p e] p es ok by (simp add: am_list_def u1)
    ultimately show ?thesis using that [of ?n] ok es by simp
  qed
  have "am_ok m"
    using m ok u1 sorted_am_insert [OF ok(4), of e] unfolding i_def by (simp add: am_ok_def)
  then show ?thesis using step m by blast
qed

lemma addr_map_insert_full:
  assumes "am_ok (k_addr_maps k mp)" "mp \<noteq> NULL" "unat (am_used (k_addr_maps k mp)) = ADDR_MAP_ENTRIES_PER_PAGE"
  shows "addr_map_insert mp e k = Some (NULL, k)"
  using assms by (simp add: addr_map_insert_def get_addr_map_def am_ok_def word_le_nat_alt)


definition covers :: "kernel \<Rightarrow> u32 \<Rightarrow> addr_entry_t \<Rightarrow> bool" where
  "covers k a e \<longleftrightarrow> ae_addr e \<le> a \<and> a < ae_addr e + pf_size (k_phys_frames k (ae_frame e)) * PAGE_SIZE"

definition am_frames :: "addr_map_t \<Rightarrow> bool" where
  "am_frames m \<longleftrightarrow> (\<forall>e \<in> set (am_list m). ae_frame e \<noteq> NULL)"

lemma am_list_nth: "am_ok m \<Longrightarrow> i < unat (am_used m) \<Longrightarrow> am_list m ! i = am_map m ! i"
  by (simp add: am_list_def)

lemma length_am_list: "am_ok m \<Longrightarrow> length (am_list m) = unat (am_used m)"
  by (simp add: am_ok_def am_list_def)

lemma am_frames_nth: "am_ok m \<Longrightarrow> am_frames m \<Longrightarrow> i < unat (am_used m) \<Longrightarrow> ae_frame (am_map m ! i) \<noteq> NULL"
  by (metis am_frames_def am_list_nth length_am_list nth_mem)

lemma lookup_from_miss:
  assumes "am_ok m" "am_frames m" "i \<le> n" "n \<le> unat (am_used m)"
    "\<forall>j. i \<le> j \<longrightarrow> j < n \<longrightarrow> \<not> covers k a (am_map m ! j)"
  shows "lookup_from k i m a = lookup_from k n m a"
  using assms(3,5)
proof (induction "n - i" arbitrary: i)
  case (Suc d)
  then have i: "i < n" "i < unat (am_used m)" using assms(4) by auto
  have "\<not> covers k a (am_map m ! i)" using Suc(4) i by auto
  moreover have "am_read (am_map m) i = Some (am_map m ! i)"
    using assms(1) i by (auto simp: am_read_def am_ok_def)
  moreover note am_frames_nth [OF assms(1,2) i(2)]
  ultimately have "lookup_from k i m a = lookup_from k (i + 1) m a"
    using i by (subst lookup_from.simps) (auto simp: get_frame_def covers_def)
  also have "\<dots> = lookup_from k n m a" using Suc i by auto
  finally show ?case .
qed simp

lemma lookup_from_hit:
  assumes "am_ok m" "am_frames m" "i < unat (am_used m)" "covers k a (am_map m ! i)"
  shows "lookup_from k i m a = Some (Some i)"
proof -
  have "am_read (am_map m) i = Some (am_map m ! i)"
    using assms by (auto simp: am_read_def am_ok_def)
  then show ?thesis
    using assms(3,4) am_frames_nth [OF assms(1-3)] by (subst lookup_from.simps) (auto simp: get_frame_def covers_def)
qed

lemma addr_map_lookup_found:
  assumes "am_ok (k_addr_maps k mp)" "am_frames (k_addr_maps k mp)" "mp \<noteq> NULL"
    "i < unat (am_used (k_addr_maps k mp))" "covers k a (am_list (k_addr_maps k mp) ! i)"
    "\<forall>j < i. \<not> covers k a (am_list (k_addr_maps k mp) ! j)"
  shows "addr_map_lookup mp a k = Some (entry_addr mp i)"
proof -
  have "lookup_from k 0 (k_addr_maps k mp) a = lookup_from k i (k_addr_maps k mp) a"
    using assms by (intro lookup_from_miss) (auto simp: am_list_nth)
  also have "\<dots> = Some (Some i)"
    using assms by (intro lookup_from_hit) (auto simp: am_list_nth)
  finally show ?thesis using assms(3) by (simp add: addr_map_lookup_def get_addr_map_def)
qed

lemma addr_map_lookup_none:
  assumes "am_ok (k_addr_maps k mp)" "am_frames (k_addr_maps k mp)" "mp \<noteq> NULL"
    "\<forall>e \<in> set (am_list (k_addr_maps k mp)). \<not> covers k a e"
  shows "addr_map_lookup mp a k = Some NULL"
proof -
  let ?m = "k_addr_maps k mp"
  have "lookup_from k 0 ?m a = lookup_from k (unat (am_used ?m)) ?m a"
    using assms by (intro lookup_from_miss) (auto simp: am_list_nth length_am_list all_set_conv_all_nth)
  also have "\<dots> = Some None" by (subst lookup_from.simps) simp
  finally show ?thesis using assms(3) by (simp add: addr_map_lookup_def get_addr_map_def)
qed

lemma entry_index_addr: "i < 340 \<Longrightarrow> entry_index mp (entry_addr mp i) = i"
proof -
  assume i: "i < 340"
  have "unat (of_nat i * 12 :: u32) = i * 12"
    using i by (simp add: unat_word_ariths unat_of_nat)
  then show ?thesis
    by (simp add: entry_index_def entry_addr_def sizeof_addr_entry_t_def unat_div)
qed

lemma remove_list_eq:
  assumes "length es' = length es" "n < length es" "i < n"
    and "\<forall>j < length es. es' ! j = (if i \<le> j \<and> j < n then es ! (j + 1) else es ! j)"
  shows "take (n - 1) es' = take i (take n es) @ drop (Suc i) (take n es)"
  using assms by (intro nth_equalityI) (auto simp: nth_append)

lemma sorted_remove_nth: "sorted (map f xs) \<Longrightarrow> sorted (map f (take i xs @ drop (Suc i) xs))"
proof (induction xs arbitrary: i)
  case (Cons x xs)
  then show ?case by (cases i) (auto dest: in_set_takeD in_set_dropD)
qed simp

lemma addr_map_remove_ok:
  assumes "am_ok (k_addr_maps k mp)" "mp \<noteq> NULL"
    "unat (am_used (k_addr_maps k mp)) < ADDR_MAP_ENTRIES_PER_PAGE" "i < unat (am_used (k_addr_maps k mp))"
  shows "\<exists>m. addr_map_remove mp (entry_addr mp i) k = Some (k\<lparr>k_addr_maps := (k_addr_maps k)(mp := m)\<rparr>)
    \<and> am_ok m \<and> am_list m = take i (am_list (k_addr_maps k mp)) @ drop (Suc i) (am_list (k_addr_maps k mp))"
proof -
  let ?m = "k_addr_maps k mp"
  let ?u = "unat (am_used ?m)"
  have ok: "length (am_map ?m) = 340" "am_entries ?m = 340" "sorted (map ae_addr (am_list ?m))"
    using assms(1) by (auto simp: am_ok_def)
  have u1: "unat (am_used ?m - 1) = ?u - 1"
    using assms(4) by (simp add: unat_sub word_le_nat_alt)
  obtain es where es: "shift_down_loop i ?u (am_map ?m) = Some es" "length es = 340"
    "\<forall>j < 340. es ! j = (if i \<le> j \<and> j < ?u then am_map ?m ! (j + 1) else am_map ?m ! j)"
    using shift_down_loop_spec [of ?u "am_map ?m" i] assms ok by auto
  let ?n = "?m\<lparr>am_map := es, am_used := am_used ?m - 1\<rparr>"
  have "addr_map_remove mp (entry_addr mp i) k = Some (k\<lparr>k_addr_maps := (k_addr_maps k)(mp := ?n)\<rparr>)"
    using es assms by (simp add: addr_map_remove_def addr_map_shift_downwards_def get_addr_map_def
        set_addr_map_def entry_index_addr)
  moreover have l: "am_list ?n = take i (am_list ?m) @ drop (Suc i) (am_list ?m)"
    using remove_list_eq [of es "am_map ?m" ?u i] es assms ok by (simp add: am_list_def u1)
  moreover have "sorted (map ae_addr (take i (am_list ?m) @ drop (Suc i) (am_list ?m)))"
    using ok(3) by (rule sorted_remove_nth)
  ultimately show ?thesis using ok es assms u1 by (intro exI [of _ ?n]) (simp add: am_ok_def)
qed

lemma addr_map_remove_out_of_bounds:
  assumes "am_ok (k_addr_maps k mp)" "unat (am_used (k_addr_maps k mp)) = ADDR_MAP_ENTRIES_PER_PAGE"
    "mp \<noteq> NULL" "i < ADDR_MAP_ENTRIES_PER_PAGE"
  shows "addr_map_remove mp (entry_addr mp i) k = None"
proof -
  have "shift_down_loop j 340 es = None" if "j < 340" "length es = 340" for j es
    using that
  proof (induction "340 - j" arbitrary: j es)
    case (Suc d)
    show ?case
    proof (cases "j = 339")
      case True
      then show ?thesis using Suc by (subst shift_down_loop.simps) (simp add: am_read_def)
    next
      case False
      then have "shift_down_loop (j + 1) 340 (es[j := es ! (j + 1)]) = None"
        using Suc by (intro Suc(1)) auto
      then show ?thesis
        using Suc False by (subst shift_down_loop.simps) (simp add: am_read_def am_write_def)
    qed
  qed simp
  from this [of i "am_map (k_addr_maps k mp)"] show ?thesis
    using assms by (simp add: addr_map_remove_def addr_map_shift_downwards_def get_addr_map_def
        entry_index_addr am_ok_def)
qed

lemma same_page_frame: "same_page v w \<longleftrightarrow> frame_of v = frame_of w"
proof
  assume s: "same_page v w"
  have "bit v n = bit w n" if "12 \<le> n" for n
  proof (cases "22 \<le> n")
    case True
    from s have "bit (drop_bit 22 v) (n - 22) = bit (drop_bit 22 w) (n - 22)"
      by (simp add: same_page_def page_dir_entry_def)
    with True show ?thesis by (simp add: bit_simps)
  next
    case False
    from s have "bit (drop_bit 12 v AND 0x3ff) (n - 12) = bit (drop_bit 12 w AND 0x3ff) (n - 12)"
      by (simp add: same_page_def page_table_entry_def)
    moreover have "n - 12 < 10" using False that by arith
    ultimately show ?thesis using that unfolding u32_0x3ff by (simp add: bit_simps)
  qed
  then show "frame_of v = frame_of w"
    unfolding frame_of_def u32_0xfff by (intro bit_word_eqI) (auto simp: bit_simps)
next
  assume f: "frame_of v = frame_of w"
  have b: "bit v n = bit w n" if "12 \<le> n" for n
    using arg_cong [OF f, of "\<lambda>x. bit x n"] that unfolding frame_of_def u32_0xfff
    by (auto simp: bit_simps dest: bit_imp_le_length)
  show "same_page v w"
    unfolding same_page_def page_dir_entry_def page_table_entry_def u32_0x3ff
    by (auto intro!: bit_word_eqI simp: bit_simps b)
qed

lemma frame_aligned: "frame_of v = v \<Longrightarrow> unat v mod 4096 = 0"
proof -
  assume "frame_of v = v"
  with frame_of_split(1) [of v] have "v AND 0xfff = 0" by simp
  then have "v mod 2 ^ 12 = 0" using word_mod_2p_is_mask [of 12 v] by (simp add: u32_0xfff)
  then have "unat (v mod 4096) = 0" by simp
  then show ?thesis by (simp add: unat_mod)
qed

lemma frame_of_add:
  assumes "frame_of v = v" shows "frame_of (v + PAGE_SIZE * x) = v + PAGE_SIZE * x"
proof (rule aligned_and)
  have "unat (v + PAGE_SIZE * x) mod 4096 = (unat v + 4096 * unat x) mod 4096"
    by (simp add: unat_word_ariths PAGE_SIZE_def mod_mod_cancel mod_add_right_eq mod_add_left_eq)
  also have "\<dots> = 0" using frame_aligned [OF assms] by simp
  finally show "unat (v + PAGE_SIZE * x) mod 4096 = 0" .
qed

text \<open>Address of page \<open>i\<close> of a mapping that starts at \<open>v\<close>.\<close>

definition page_at :: "u32 \<Rightarrow> nat \<Rightarrow> u32" where
  "page_at v i = v + PAGE_SIZE * of_nat i"

lemma page_at_frame: "frame_of v = v \<Longrightarrow> frame_of (page_at v i) = page_at v i"
  by (simp add: page_at_def frame_of_add)

lemma page_at_inj:
  assumes "page_at v i = page_at v j" "i < 2 ^ 20" "j < 2 ^ 20" shows "i = j"
proof -
  have u: "unat (PAGE_SIZE * of_nat i) = 4096 * i" if "i < 2 ^ 20" for i
    using that by (simp add: PAGE_SIZE_def unat_word_ariths unat_of_nat)
  have "PAGE_SIZE * of_nat i = PAGE_SIZE * of_nat j" using assms(1) by (simp add: page_at_def)
  from arg_cong [OF this, of unat] show ?thesis unfolding u [OF assms(2)] u [OF assms(3)] by simp
qed

lemma page_at_Suc: "page_at (v + PAGE_SIZE) i = page_at v (Suc i)"
  by (simp add: page_at_def algebra_simps)

lemma page_at_0 [simp]: "page_at v 0 = v"
  by (simp add: page_at_def)

text \<open>
  The directory entries of the range that have no table yet, and a range that can be mapped: it
  stays below the window, meets no 4 MB page, and there is a physical page for every table missing.
\<close>

definition new_tables :: "paging \<Rightarrow> u32 \<Rightarrow> nat \<Rightarrow> u32 set" where
  "new_tables pg v n = (\<lambda>i. page_dir_entry (page_at v i)) ` {i. i < n \<and> needs_table pg (page_at v i)}"

definition mappable :: "paging \<Rightarrow> u32 \<Rightarrow> nat \<Rightarrow> bool" where
  "mappable pg v n \<longleftrightarrow> (\<forall>i < n. page_dir_entry (page_at v i) < 1023 \<and>
       \<not> is_4mb (dir_word pg (page_dir_entry (page_at v i)))) \<and>
     card (new_tables pg v n) \<le> unat (r_available (pg_phys pg))"

lemma map_loop_shift: "map_loop n page perms v p pg = map_loop n 0 perms (v + page) (p + page) pg"
proof (induction n arbitrary: page pg v p)
  case (Suc n)
  have "map_loop n (page + PAGE_SIZE) perms v p = map_loop n PAGE_SIZE perms (v + page) (p + page)"
    using Suc [of "page + PAGE_SIZE" v p] Suc [of PAGE_SIZE "v + page" "p + page"]
    by (intro ext) (simp add: add.assoc)
  then show ?case by simp
qed simp

lemma unmap_loop_shift: "unmap_loop n page v pg = unmap_loop n 0 (v + page) pg"
proof (induction n arbitrary: page pg v)
  case (Suc n)
  have "unmap_loop n (page + PAGE_SIZE) v = unmap_loop n PAGE_SIZE (v + page)"
    using Suc [of "page + PAGE_SIZE" v] Suc [of PAGE_SIZE "v + page"] by (intro ext) (simp add: add.assoc)
  then show ?case by simp
qed simp

text \<open>After the first page of the range, one table less may be missing.\<close>

lemma new_tables_Suc:
  assumes "present (dir_word pg2 (page_dir_entry v))"
    and "\<And>e. e < 1024 \<Longrightarrow> e \<noteq> page_dir_entry v \<Longrightarrow> dir_word pg2 e = dir_word pg e"
  shows "new_tables pg2 (v + PAGE_SIZE) n = new_tables pg v (Suc n) - {page_dir_entry v}"
    and "page_dir_entry v \<in> new_tables pg v (Suc n) \<longleftrightarrow> needs_table pg v"
proof -
  have nt: "needs_table pg2 w \<longleftrightarrow> page_dir_entry w \<noteq> page_dir_entry v \<and> needs_table pg w" for w
    using assms(1) assms(2) [of "page_dir_entry w"]
    by (cases "page_dir_entry w = page_dir_entry v") (auto simp: needs_table_def present_def page_dir_entry_less)
  show "page_dir_entry v \<in> new_tables pg v (Suc n) \<longleftrightarrow> needs_table pg v"
    by (auto simp: new_tables_def needs_table_def intro!: rev_image_eqI [of 0])
  show "new_tables pg2 (v + PAGE_SIZE) n = new_tables pg v (Suc n) - {page_dir_entry v}"
  proof (intro set_eqI iffI)
    fix e assume "e \<in> new_tables pg2 (v + PAGE_SIZE) n"
    then obtain i where "i < n" "needs_table pg2 (page_at v (Suc i))" "e = page_dir_entry (page_at v (Suc i))"
      by (auto simp: new_tables_def page_at_Suc)
    then show "e \<in> new_tables pg v (Suc n) - {page_dir_entry v}"
      by (auto simp: new_tables_def nt intro!: rev_image_eqI [of "Suc i"])
  next
    fix e assume "e \<in> new_tables pg v (Suc n) - {page_dir_entry v}"
    then obtain i where i: "i < Suc n" "needs_table pg (page_at v i)" "e = page_dir_entry (page_at v i)"
      "e \<noteq> page_dir_entry v" by (auto simp: new_tables_def)
    then obtain j where "i = Suc j" by (cases i) auto
    with i show "e \<in> new_tables pg2 (v + PAGE_SIZE) n"
      by (auto simp: new_tables_def nt page_at_Suc intro!: rev_image_eqI [of j])
  qed
qed

lemma mappable_Suc:
  assumes "mappable pg v (Suc n)" and "present (dir_word pg2 (page_dir_entry v))"
    and "\<not> is_4mb (dir_word pg2 (page_dir_entry v))"
    and "\<And>e. e < 1024 \<Longrightarrow> e \<noteq> page_dir_entry v \<Longrightarrow> dir_word pg2 e = dir_word pg e"
    and "unat (r_available (pg_phys pg)) = unat (r_available (pg_phys pg2)) + of_bool (needs_table pg v)"
  shows "mappable pg2 (v + PAGE_SIZE) n"
proof -
  have "finite (new_tables pg v (Suc n))" by (simp add: new_tables_def)
  then have "card (new_tables pg2 (v + PAGE_SIZE) n) + of_bool (needs_table pg v) = card (new_tables pg v (Suc n))"
    using new_tables_Suc [OF assms(2,4), of n] card_Suc_Diff1 [of "new_tables pg v (Suc n)" "page_dir_entry v"]
    by (cases "needs_table pg v") simp_all
  then have "card (new_tables pg2 (v + PAGE_SIZE) n) \<le> unat (r_available (pg_phys pg2))"
    using assms(1,5) by (simp add: mappable_def)
  moreover have "page_dir_entry (page_at (v + PAGE_SIZE) i) < 1023 \<and>
      \<not> is_4mb (dir_word pg2 (page_dir_entry (page_at (v + PAGE_SIZE) i)))" if "i < n" for i
    using assms(1,3) assms(4) [of "page_dir_entry (page_at v (Suc i))"] that
    by (cases "page_dir_entry (page_at v (Suc i)) = page_dir_entry v")
      (auto simp: mappable_def page_at_Suc page_dir_entry_less)
  ultimately show ?thesis by (simp add: mappable_def)
qed

lemma map_loop_ok:
  assumes "paging_inv pg" "mappable pg v n" "frame_of v = v" "frame_of p = p" "n \<le> 2 ^ 20"
  shows "\<exists>pg'. map_loop n 0 perms v p pg = Some pg' \<and> paging_inv pg' \<and>
    (\<forall>i w. i < n \<longrightarrow> same_page (page_at v i) w \<longrightarrow> mmu_translate pg' w = Some (page_at p i OR (w AND 0xfff))) \<and>
    (\<forall>w. (\<forall>i < n. \<not> same_page (page_at v i) w) \<and> page_dir_entry w \<notin> new_tables pg v n \<and>
       (page_dir_entry w < 1023 \<or> new_tables pg v n = {}) \<longrightarrow> mmu_translate pg' w = mmu_translate pg w)"
  using assms
proof (induction n arbitrary: v p pg)
  case (Suc n)
  let ?e = "page_dir_entry v"
  have t: "?e < 1023" "\<not> is_4mb (dir_word pg ?e)"
    using Suc.prems(2) by (force simp: mappable_def dest: spec [of _ 0])+
  have av: "needs_table pg v \<Longrightarrow> r_available (pg_phys pg) \<noteq> 0"
  proof
    assume "needs_table pg v" "r_available (pg_phys pg) = 0"
    moreover from this have "?e \<in> new_tables pg v (Suc n)" by (auto simp: new_tables_def intro!: rev_image_eqI [of 0])
    moreover have "finite (new_tables pg v (Suc n))" by (simp add: new_tables_def)
    ultimately show False using Suc.prems(2) by (auto simp: mappable_def)
  qed
  from Suc.prems(1) t av obtain pg1 where tb: "tabled pg v pg1" and run1: "\<forall>perms raddr.
      map_phys_page perms v raddr pg = Some (set_entry ?e (page_table_entry v) (add_page_flags raddr perms) pg1)"
    by (rule map_phys_page_cases)
  note t1 = tabledD(1-3) [OF tb]
  let ?pg1 = "set_entry ?e (page_table_entry v) (add_page_flags p perms) pg1"
  have step: "map_phys_page perms v p pg = Some ?pg1" using run1 by simp
  have i1: "paging_inv ?pg1" by (rule set_entry_inv [OF t1(1) t(1) page_table_entry_less t1(2,3)])
  have dw: "e < 1024 \<Longrightarrow> dir_word ?pg1 e = dir_word pg1 e" for e
    by (rule set_entry_words(1) [OF t1(1) t(1) page_table_entry_less t1(2,3)])
  have tr: "mmu_translate ?pg1 w = (if same_page v w then Some (p OR (w AND 0xfff)) else mmu_translate pg1 w)" for w
    using set_entry_translate [OF t1(1) t(1) t1(2,3), of "add_page_flags p perms" w] Suc.prems(4)
    by (simp add: add_page_flags_present add_page_flags_frame)
  have d2: "present (dir_word ?pg1 ?e)" "\<not> is_4mb (dir_word ?pg1 ?e)"
    "\<And>e. e < 1024 \<Longrightarrow> e \<noteq> ?e \<Longrightarrow> dir_word ?pg1 e = dir_word pg e"
    using t1 dw tabledD(7) [OF tb] by (simp_all add: page_dir_entry_less)
  have av1: "unat (r_available (pg_phys pg)) = unat (r_available (pg_phys ?pg1)) + of_bool (needs_table pg v)"
    using tabledD(5) [OF tb] by (simp add: set_entry_def)
  note nt = new_tables_Suc [OF d2(1,3), of n]
  have fr: "frame_of (v + PAGE_SIZE) = v + PAGE_SIZE" "frame_of (p + PAGE_SIZE) = p + PAGE_SIZE"
    using frame_of_add [of v 1] frame_of_add [of p 1] Suc.prems by simp_all
  from Suc.IH [OF i1 mappable_Suc [OF Suc.prems(2) d2 av1] fr] Suc.prems(5) obtain pg' where
    run: "map_loop n 0 perms (v + PAGE_SIZE) (p + PAGE_SIZE) ?pg1 = Some pg'" and inv: "paging_inv pg'" and
    new: "\<forall>i w. i < n \<longrightarrow> same_page (page_at (v + PAGE_SIZE) i) w \<longrightarrow>
       mmu_translate pg' w = Some (page_at (p + PAGE_SIZE) i OR (w AND 0xfff))" and
    old: "\<forall>w. (\<forall>i < n. \<not> same_page (page_at (v + PAGE_SIZE) i) w) \<and>
       page_dir_entry w \<notin> new_tables ?pg1 (v + PAGE_SIZE) n \<and>
       (page_dir_entry w < 1023 \<or> new_tables ?pg1 (v + PAGE_SIZE) n = {}) \<longrightarrow>
       mmu_translate pg' w = mmu_translate ?pg1 w"
    by auto
  have "map_loop (Suc n) 0 perms v p pg = Some pg'"
    using step run map_loop_shift [of n PAGE_SIZE perms v p] by simp
  moreover have "mmu_translate pg' w = Some (page_at p i OR (w AND 0xfff))"
    if "i < Suc n" "same_page (page_at v i) w" for i w
  proof (cases i)
    case 0
    then have sv: "same_page v w" using that by simp
    have "\<not> same_page (page_at (v + PAGE_SIZE) j) w" if "j < n" for j
    proof
      assume "same_page (page_at (v + PAGE_SIZE) j) w"
      with sv have "page_at v 0 = page_at v (Suc j)"
        using Suc.prems(3) page_at_frame [OF Suc.prems(3), of "Suc j"] by (simp add: same_page_frame page_at_Suc)
      from page_at_inj [OF this] that Suc.prems(5) show False by simp
    qed
    moreover have "page_dir_entry w = ?e" using sv by (simp add: same_page_def)
    ultimately show ?thesis using old tr [of w] sv 0 t(1) nt(1) by simp
  next
    case (Suc j)
    then show ?thesis using new that by (simp add: page_at_Suc)
  qed
  moreover have "mmu_translate pg' w = mmu_translate pg w"
    if n: "\<forall>i < Suc n. \<not> same_page (page_at v i) w" and w: "page_dir_entry w \<notin> new_tables pg v (Suc n)"
      "page_dir_entry w < 1023 \<or> new_tables pg v (Suc n) = {}" for w
  proof -
    have "\<not> same_page v w" using n by (auto dest: spec [of _ 0])
    moreover have "\<forall>i < n. \<not> same_page (page_at (v + PAGE_SIZE) i) w" using n by (auto simp: page_at_Suc)
    moreover have "mmu_translate pg1 w = mmu_translate pg w"
      using w nt(2) tabledD(6) [OF tb] tabledD(8) [OF tb, of w]
      by (cases "needs_table pg v"; cases "page_dir_entry w = ?e") auto
    ultimately show ?thesis using old tr [of w] w nt(1) by auto
  qed
  ultimately show ?case using inv by auto
qed simp

section \<open>Properties\<close>

text \<open>The first entry of a list that covers an address is what \<^verbatim>\<open>addr_map_lookup\<close> finds.\<close>

lemma read_entry_at:
  assumes "am_ok (k_addr_maps k mp)" "mp \<noteq> NULL" "i < unat (am_used (k_addr_maps k mp))"
  shows "read_entry mp (entry_addr mp i) k = Some (am_list (k_addr_maps k mp) ! i)"
proof -
  have "i < 340" "length (am_map (k_addr_maps k mp)) = 340" using assms by (auto simp: am_ok_def)
  then show ?thesis using assms
    by (simp add: read_entry_def get_addr_map_def am_read_def entry_index_addr am_list_nth)
qed

text \<open>
  \<^verbatim>\<open>addr_map_lookup\<close> on a well-formed map returns: a pointer to the first entry whose address
  range contains the address, and \<^verbatim>\<open>NULL\<close> when no entry's does.
\<close>

theorem addr_map_lookup_first:
  assumes ok: "am_ok (k_addr_maps k mp)" and fr: "am_frames (k_addr_maps k mp)" and mp: "mp \<noteq> NULL"
  shows "\<exists>p. addr_map_lookup mp a k = Some p \<and>
    (case find (covers k a) (am_list (k_addr_maps k mp)) of
       None \<Rightarrow> p = NULL
     | Some e \<Rightarrow> read_entry mp p k = Some e \<and>
         (\<exists>i < unat (am_used (k_addr_maps k mp)). p = entry_addr mp i))"
proof (cases "find (covers k a) (am_list (k_addr_maps k mp))")
  case None
  then have "\<forall>e \<in> set (am_list (k_addr_maps k mp)). \<not> covers k a e" by (simp add: find_None_iff)
  then show ?thesis using addr_map_lookup_none [OF ok fr mp, of a] None by simp
next
  case (Some e)
  then obtain i where i: "i < length (am_list (k_addr_maps k mp))" "covers k a e"
    "e = am_list (k_addr_maps k mp) ! i" "\<forall>j < i. \<not> covers k a (am_list (k_addr_maps k mp) ! j)"
    by (auto simp: find_Some_iff)
  then have iu: "i < unat (am_used (k_addr_maps k mp))" using length_am_list [OF ok] by simp
  have "addr_map_lookup mp a k = Some (entry_addr mp i)"
    by (rule addr_map_lookup_found [OF ok fr mp iu]) (use i in auto)
  then show ?thesis
    using Some read_entry_at [OF ok mp iu] i iu by auto
qed

lemma find_insert_at:
  "find P (am_insert_at i e xs) = (case find P (take i xs) of Some x \<Rightarrow> Some x
     | None \<Rightarrow> if P e then Some e else find P (drop i xs))"
proof -
  have "find P (us @ vs) = (case find P us of Some x \<Rightarrow> Some x | None \<Rightarrow> find P vs)" for us vs
    by (induction us) auto
  then show ?thesis by (simp add: am_insert_at_def split: option.split)
qed

lemma find_split:
  "find P xs = (case find P (take i xs) of Some x \<Rightarrow> Some x | None \<Rightarrow> find P (drop i xs))"
proof -
  have "find P (us @ vs) = (case find P us of Some x \<Rightarrow> Some x | None \<Rightarrow> find P vs)" for us vs
    by (induction us) auto
  from this [of "take i xs" "drop i xs"] show ?thesis by simp
qed

text \<open>
  \<^verbatim>\<open>addr_map_insert\<close> returns. A full map refuses the entry and stays as it is. Otherwise the map
  stays sorted, the entry is added and nothing else changes; an address the new entry covers and no
  old one did is found in it, and the result for every address it does not cover is as before.
\<close>

theorem addr_map_insert_sorted:
  assumes ok: "am_ok (k_addr_maps k mp)" and mp: "mp \<noteq> NULL"
  shows "if unat (am_used (k_addr_maps k mp)) = ADDR_MAP_ENTRIES_PER_PAGE
    then addr_map_insert mp e k = Some (NULL, k)
    else \<exists>p m. addr_map_insert mp e k = Some (p, k\<lparr>k_addr_maps := (k_addr_maps k)(mp := m)\<rparr>) \<and> am_ok m \<and>
      (\<exists>us vs. am_list (k_addr_maps k mp) = us @ vs \<and> am_list m = us @ e # vs) \<and>
      read_entry mp p (k\<lparr>k_addr_maps := (k_addr_maps k)(mp := m)\<rparr>) = Some e \<and>
      (\<forall>a. \<not> covers k a e \<longrightarrow> find (covers k a) (am_list m) = find (covers k a) (am_list (k_addr_maps k mp))) \<and>
      (\<forall>a. covers k a e \<and> find (covers k a) (am_list (k_addr_maps k mp)) = None \<longrightarrow>
         find (covers k a) (am_list m) = Some e)"
proof (cases "unat (am_used (k_addr_maps k mp)) = ADDR_MAP_ENTRIES_PER_PAGE")
  case True
  then show ?thesis using addr_map_insert_full [OF ok mp] by simp
next
  case False
  let ?xs = "am_list (k_addr_maps k mp)"
  let ?i = "am_place (ae_addr e) ?xs"
  have lt: "unat (am_used (k_addr_maps k mp)) < ADDR_MAP_ENTRIES_PER_PAGE"
    using ok False by (simp add: am_ok_def)
  from addr_map_insert_ok [OF ok mp lt, of e] obtain m where
    m: "addr_map_insert mp e k = Some (entry_addr mp ?i, k\<lparr>k_addr_maps := (k_addr_maps k)(mp := m)\<rparr>)"
      "am_ok m" "am_list m = am_insert_at ?i e ?xs" "am_used m = am_used (k_addr_maps k mp) + 1" by blast
  let ?k' = "k\<lparr>k_addr_maps := (k_addr_maps k)(mp := m)\<rparr>"
  have um: "unat (am_used m) = Suc (unat (am_used (k_addr_maps k mp)))"
    using m(4) lt by (simp add: unat_inc16)
  have il: "?i \<le> length ?xs" by (rule am_place_le)
  then have iu: "?i < unat (am_used m)" using um length_am_list [OF ok] by simp
  have "\<exists>us vs. ?xs = us @ vs \<and> am_list m = us @ e # vs"
    unfolding m(3) am_insert_at_def by (metis append_take_drop_id)
  moreover have "am_list m ! ?i = e" using il by (simp add: m(3) am_insert_at_def nth_append)
  then have "read_entry mp (entry_addr mp ?i) ?k' = Some e"
    using read_entry_at [of ?k' mp ?i] m(2) mp iu by simp
  moreover have "\<not> covers k a e \<longrightarrow> find (covers k a) (am_list m) = find (covers k a) ?xs" for a
    unfolding m(3) find_insert_at using find_split [of "covers k a" ?xs ?i] by simp
  moreover have "covers k a e \<and> find (covers k a) ?xs = None \<longrightarrow> find (covers k a) (am_list m) = Some e" for a
    unfolding m(3) find_insert_at using find_split [of "covers k a" ?xs ?i] by (auto split: option.splits)
  ultimately have "\<exists>p m. addr_map_insert mp e k = Some (p, k\<lparr>k_addr_maps := (k_addr_maps k)(mp := m)\<rparr>) \<and> am_ok m \<and>
      (\<exists>us vs. ?xs = us @ vs \<and> am_list m = us @ e # vs) \<and>
      read_entry mp p (k\<lparr>k_addr_maps := (k_addr_maps k)(mp := m)\<rparr>) = Some e \<and>
      (\<forall>a. \<not> covers k a e \<longrightarrow> find (covers k a) (am_list m) = find (covers k a) ?xs) \<and>
      (\<forall>a. covers k a e \<and> find (covers k a) ?xs = None \<longrightarrow> find (covers k a) (am_list m) = Some e)"
    using m(1,2) by blast
  then show ?thesis using False by simp
qed

text \<open>
  removing the entry just inserted brings the old list back, as long as the map is not full
  after the insertion.
\<close>

theorem addr_map_remove_insert:
  assumes ok: "am_ok (k_addr_maps k mp)" and mp: "mp \<noteq> NULL"
    and room: "unat (am_used (k_addr_maps k mp)) + 1 < ADDR_MAP_ENTRIES_PER_PAGE"
  shows "\<exists>p k1 k2. addr_map_insert mp e k = Some (p, k1) \<and> addr_map_remove mp p k1 = Some k2 \<and>
    am_ok (k_addr_maps k2 mp) \<and> am_list (k_addr_maps k2 mp) = am_list (k_addr_maps k mp)"
proof -
  let ?xs = "am_list (k_addr_maps k mp)"
  let ?i = "am_place (ae_addr e) ?xs"
  have lt: "unat (am_used (k_addr_maps k mp)) < ADDR_MAP_ENTRIES_PER_PAGE" using room by simp
  from addr_map_insert_ok [OF ok mp lt, of e] obtain m where
    m: "addr_map_insert mp e k = Some (entry_addr mp ?i, k\<lparr>k_addr_maps := (k_addr_maps k)(mp := m)\<rparr>)"
      "am_ok m" "am_list m = am_insert_at ?i e ?xs" "am_used m = am_used (k_addr_maps k mp) + 1" by blast
  let ?k1 = "k\<lparr>k_addr_maps := (k_addr_maps k)(mp := m)\<rparr>"
  have um: "unat (am_used m) = Suc (unat (am_used (k_addr_maps k mp)))"
    using m(4) lt by (simp add: unat_inc16)
  have il: "?i \<le> length ?xs" by (rule am_place_le)
  then have iu: "?i < unat (am_used m)" using um length_am_list [OF ok] by simp
  from addr_map_remove_ok [of ?k1 mp ?i] m(2) mp um room iu obtain m2 where
    m2: "addr_map_remove mp (entry_addr mp ?i) ?k1 = Some (?k1\<lparr>k_addr_maps := (k_addr_maps ?k1)(mp := m2)\<rparr>)"
      "am_ok m2" "am_list m2 = take ?i (am_list m) @ drop (Suc ?i) (am_list m)" by auto
  have "am_list m2 = ?xs" using m2(3) il by (simp add: m(3) am_insert_at_def min_def)
  then show ?thesis using m(1) m2(1,2) by auto
qed

text \<open>
  \<^verbatim>\<open>addr_map_remove\<close> on a full map reads one entry beyond the array: the shifting loop copies
  \<^verbatim>\<open>map[used]\<close>, which lies outside the page when all entries are in use. Whichever entry is to be
  removed from a full map, the removal does not succeed within bounds.
\<close>

theorem addr_map_remove_full_overruns:
  assumes "am_ok (k_addr_maps k mp)" and "unat (am_used (k_addr_maps k mp)) = ADDR_MAP_ENTRIES_PER_PAGE"
    and "mp \<noteq> NULL" and "i < ADDR_MAP_ENTRIES_PER_PAGE"
  shows "addr_map_remove mp (entry_addr mp i) k = None"
  by (rule addr_map_remove_out_of_bounds [OF assms])

text \<open>
  \<^verbatim>\<open>phys_frame_split\<close> of an unmapped frame at an offset inside it cuts it in two: the frame keeps
  the first \<open>offset\<close> pages, the new one has the rest and starts where the first ends, with the same
  flags and no mappings; a mapped frame, offset 0 and an offset outside the frame are refused, and
  no frame changes.
\<close>

theorem phys_frame_split_partition:
  assumes q: "quiet phys k" and c: "sched_current_thread k = Some cur"
    and al: "k_slab_alloc phys_frame_slab (acquire cur phys k) = Some (new, k1)" "new \<noteq> NULL" "new \<noteq> phys"
  shows "let f = k_phys_frames k phys in
    if pf_mappings f \<noteq> 0 \<or> offset = 0 \<or> pf_size f \<le> offset
    then \<exists>k'. phys_frame_split yield phys offset k = Some (NULL, k') \<and> k_phys_frames k' = k_phys_frames k
    else \<exists>k'. phys_frame_split yield phys offset k = Some (new, k') \<and>
      k_phys_frames k' phys = f\<lparr>pf_size := offset\<rparr> \<and>
      k_phys_frames k' new = \<lparr>pf_address = pf_address f + offset * PAGE_SIZE, pf_size = pf_size f - offset,
        pf_flags = pf_flags f, pf_mappings = 0\<rparr> \<and>
      unat offset + unat (pf_size (k_phys_frames k' new)) = unat (pf_size f) \<and>
      \<not> mx_lock (ko_mutex (k_kobjs k' phys))"
proof -
  let ?f = "k_phys_frames k phys"
  have p: "phys \<noteq> NULL" using q by (simp add: quiet_def)
  have lk: "kobject_lock yield phys k = Some (acquire cur phys k)" by (rule kobject_lock_quiet [OF q c])
  have sl: "mx_sleep_waiting (ko_mutex (k_kobjs (acquire cur phys k) phys)) = queue_init"
    using q by (simp add: quiet_def)
  note k1 = kq_moreD [of k1 "acquire cur phys k"]
  have more: "kq.more k1 = kq.more (acquire cur phys k)"
    using al(1) by (auto simp: k_slab_alloc_def split: option.splits elim!: bind_eq_SomeE)
  show ?thesis
  proof (cases "pf_mappings ?f \<noteq> 0 \<or> offset = 0 \<or> pf_size ?f \<le> offset")
    case True
    have "phys_frame_split yield phys offset k = Some (NULL, release phys (acquire cur phys k))"
      using True p lk kobject_unlock_empty [OF p sl] by (auto simp: phys_frame_split_def get_frame_def)
    then show ?thesis using True by (auto simp: Let_def)
  next
    case False
    let ?k3 = "k1\<lparr>k_kobjs := (k_kobjs k1)(new := \<lparr>ko_mutex = mutex_init, ko_type = ucast KOBJECT_TYPE_PHYS_MEMORY\<rparr>),
      k_phys_frames := (k_phys_frames k1)(new := \<lparr>pf_address = pf_address ?f + offset * PAGE_SIZE,
        pf_size = pf_size ?f - offset, pf_flags = pf_flags ?f, pf_mappings = 0\<rparr>, phys := ?f\<lparr>pf_size := offset\<rparr>)\<rparr>"
    have sl3: "mx_sleep_waiting (ko_mutex (k_kobjs ?k3 phys)) = queue_init"
      using sl al(3) k1(6) [OF more] by simp
    have "phys_frame_split yield phys offset k = Some (new, release phys ?k3)"
      using False p lk al k1 [OF more] kobject_unlock_empty [OF p sl3]
      by (simp add: phys_frame_split_def get_frame_def phys_frame_create_def upd_frame_def kobject_init_def)
    moreover have "unat offset + unat (pf_size ?f - offset) = unat (pf_size ?f)"
      using False by (simp add: unat_sub word_le_nat_alt)
    moreover have "\<not> mx_lock (ko_mutex (k_kobjs (release phys ?k3) phys))" by (simp add: release_def)
    ultimately show ?thesis using False al(3) by (simp add: Let_def)
  qed
qed

lemma page_start: "a - a mod PAGE_SIZE = frame_of a"
proof -
  have "a mod PAGE_SIZE = a AND 0xfff"
    using word_mod_2p_is_mask [of 12 a] by (simp add: PAGE_SIZE_def u32_0xfff)
  then show ?thesis using frame_of_split(1) [of a] by (metis add_diff_cancel_right')
qed

lemma frame_of_idem [simp]: "frame_of (frame_of a) = frame_of a"
  by (simp add: frame_of_def and.assoc)

lemma page_rounds: "unat (page_limit f div PAGE_SIZE) \<le> 2 ^ 20"
proof -
  have "unat (page_limit f) < 2 ^ 32" by (rule order_less_le_trans [OF unsigned_less]) simp
  then have "unat (page_limit f) \<le> 2 ^ 32" by (rule less_imp_le)
  from div_le_mono [OF this, of 4096] have "unat (page_limit f) div 4096 \<le> 2 ^ 32 div 4096" .
  then show ?thesis by (simp add: unat_div PAGE_SIZE_def)
qed

lemma phys_frame_map_eq:
  "p \<noteq> NULL \<Longrightarrow> phys_frame_map p k = Some (k\<lparr>k_phys_frames := (k_phys_frames k)
     (p := (k_phys_frames k p)\<lparr>pf_mappings := pf_mappings (k_phys_frames k p) + 1\<rparr>)\<rparr>)"
  by (cases "k_phys_frames k p") (simp add: phys_frame_map_def upd_frame_def)

text \<open>The state in the critical section of \<^verbatim>\<open>addr_space_insert_map\<close>.\<close>

lemma acquire_two:
  assumes "quiet a k" "quiet b k" "a \<noteq> b" "sched_current_thread k = Some cur"
  shows "kobject_lock yield a k = Some (acquire cur a k)"
    and "kobject_lock yield b (acquire cur a k) = Some (acquire cur b (acquire cur a k))"
  using assms by (auto intro!: kobject_lock_quiet)

lemma release_two:
  assumes "a \<noteq> NULL" "b \<noteq> NULL" "mx_sleep_waiting (ko_mutex (k_kobjs k a)) = queue_init"
    "mx_sleep_waiting (ko_mutex (k_kobjs k b)) = queue_init"
  shows "kobject_unlock yield b k = Some (release b k)"
    and "kobject_unlock yield a (release b k) = Some (release a (release b k))"
  using assms by (auto intro!: kobject_unlock_empty)

text \<open>Inserting into a map that may be full.\<close>

lemma addr_map_insert_any:
  assumes "mp \<noteq> NULL" and "am_ok (k_addr_maps k mp)"
  obtains r m where "addr_map_insert mp ent k = Some (r, k\<lparr>k_addr_maps := (k_addr_maps k)(mp := m)\<rparr>)"
    and "if unat (am_used (k_addr_maps k mp)) = ADDR_MAP_ENTRIES_PER_PAGE then m = k_addr_maps k mp
       else am_ok m \<and> ent \<in> set (am_list m)"
proof (cases "unat (am_used (k_addr_maps k mp)) = ADDR_MAP_ENTRIES_PER_PAGE")
  case True
  have "addr_map_insert mp ent k = Some (NULL, k)" using addr_map_insert_full [of k mp ent] assms True by simp
  moreover have "k\<lparr>k_addr_maps := (k_addr_maps k)(mp := k_addr_maps k mp)\<rparr> = k" by simp
  ultimately show ?thesis using that [of NULL "k_addr_maps k mp"] True by simp
next
  case False
  then have "unat (am_used (k_addr_maps k mp)) < ADDR_MAP_ENTRIES_PER_PAGE" using assms by (simp add: am_ok_def)
  with addr_map_insert_ok [of k mp ent] assms obtain m where
    "addr_map_insert mp ent k = Some (entry_addr mp (am_place (ae_addr ent) (am_list (k_addr_maps k mp))),
       k\<lparr>k_addr_maps := (k_addr_maps k)(mp := m)\<rparr>)"
    "am_ok m" "am_list m = am_insert_at (am_place (ae_addr ent) (am_list (k_addr_maps k mp))) ent (am_list (k_addr_maps k mp))"
    by auto
  then show ?thesis using that False by (auto simp: am_insert_at_def)
qed

text \<open>
  C9: \<^verbatim>\<open>addr_space_insert_map\<close> with both objects unlocked, on a range that stays below the window of
  the page tables and meets no 4 MB page, with a physical page for every table the range lacks: it
  returns 0, the frame has one mapping more, and the entry is in the address map, unless the map
  was full, in which case it is not added and the caller is not told. Every page of the range then
  translates to the corresponding page of the frame; every other page translates as before, except
  those under a directory entry whose table was just made, which hold whatever its frame held.
  Both locks are free again.
\<close>

theorem addr_space_insert_map_maps:
  assumes q: "quiet space k" "quiet (ae_frame ent) k" "space \<noteq> ae_frame ent"
    and c: "sched_current_thread k = Some cur"
    and mp: "mp = as_map (k_addr_spaces k space)" "mp \<noteq> NULL" "am_ok (k_addr_maps k mp)"
    and f: "f = k_phys_frames k (ae_frame ent)" "n = unat (page_limit f div PAGE_SIZE)"
    and pg: "paging_inv (mm_pg (k_mm k))" "mappable (mm_pg (k_mm k)) (frame_of (ae_addr ent)) n"
  shows "\<exists>k'. addr_space_insert_map yield space ent k = Some (0, k') \<and>
    k_phys_frames k' (ae_frame ent) = f\<lparr>pf_mappings := pf_mappings f + 1\<rparr> \<and>
    (if unat (am_used (k_addr_maps k mp)) = ADDR_MAP_ENTRIES_PER_PAGE then k_addr_maps k' = k_addr_maps k
     else ent \<in> set (am_list (k_addr_maps k' mp)) \<and> am_ok (k_addr_maps k' mp)) \<and>
    paging_inv (mm_pg (k_mm k')) \<and>
    (\<forall>i w. i < n \<longrightarrow> same_page (page_at (frame_of (ae_addr ent)) i) w \<longrightarrow>
       mmu_translate (mm_pg (k_mm k')) w = Some (page_at (frame_of (pf_address f)) i OR (w AND 0xfff))) \<and>
    (\<forall>w. (\<forall>i < n. \<not> same_page (page_at (frame_of (ae_addr ent)) i) w) \<and>
       page_dir_entry w \<notin> new_tables (mm_pg (k_mm k)) (frame_of (ae_addr ent)) n \<and>
       (page_dir_entry w < 1023 \<or> new_tables (mm_pg (k_mm k)) (frame_of (ae_addr ent)) n = {}) \<longrightarrow>
       mmu_translate (mm_pg (k_mm k')) w = mmu_translate (mm_pg (k_mm k)) w) \<and>
    \<not> mx_lock (ko_mutex (k_kobjs k' space)) \<and> \<not> mx_lock (ko_mutex (k_kobjs k' (ae_frame ent)))"
proof -
  let ?p = "ae_frame ent"
  let ?k2 = "acquire cur ?p (acquire cur space k)"
  let ?k3 = "?k2\<lparr>k_phys_frames := (k_phys_frames k)(?p := f\<lparr>pf_mappings := pf_mappings f + 1\<rparr>)\<rparr>"
  have nz: "space \<noteq> NULL" "?p \<noteq> NULL" using q by (auto simp: quiet_def)
  have sl: "mx_sleep_waiting (ko_mutex (k_kobjs k space)) = queue_init"
    "mx_sleep_waiting (ko_mutex (k_kobjs k ?p)) = queue_init" using q by (auto simp: quiet_def)
  obtain r m where ins: "addr_map_insert mp ent ?k3 = Some (r, ?k3\<lparr>k_addr_maps := (k_addr_maps k)(mp := m)\<rparr>)"
    and m: "if unat (am_used (k_addr_maps k mp)) = ADDR_MAP_ENTRIES_PER_PAGE then m = k_addr_maps k mp
       else am_ok m \<and> ent \<in> set (am_list m)"
    by (rule addr_map_insert_any [of mp ?k3 ent]) (use mp in auto)
  let ?k4 = "?k3\<lparr>k_addr_maps := (k_addr_maps k)(mp := m)\<rparr>"
  let ?v = "frame_of (ae_addr ent)" and ?a = "frame_of (pf_address f)"
  from map_loop_ok [OF pg _ _ page_rounds [of f, folded f(2)], of ?a "ae_permissions ent"] obtain pg' where
    loop: "map_loop n 0 (ae_permissions ent) ?v ?a (mm_pg (k_mm k)) = Some pg'" and
    pg': "paging_inv pg'"
      "\<forall>i w. i < n \<longrightarrow> same_page (page_at ?v i) w \<longrightarrow> mmu_translate pg' w = Some (page_at ?a i OR (w AND 0xfff))"
      "\<forall>w. (\<forall>i < n. \<not> same_page (page_at ?v i) w) \<and> page_dir_entry w \<notin> new_tables (mm_pg (k_mm k)) ?v n \<and>
         (page_dir_entry w < 1023 \<or> new_tables (mm_pg (k_mm k)) ?v n = {}) \<longrightarrow>
         mmu_translate pg' w = mmu_translate (mm_pg (k_mm k)) w"
    by auto
  let ?k5 = "?k4\<lparr>k_mm := (k_mm k)\<lparr>mm_pg := pg'\<rparr>\<rparr>"
  have sl5: "mx_sleep_waiting (ko_mutex (k_kobjs ?k5 space)) = queue_init"
    "mx_sleep_waiting (ko_mutex (k_kobjs ?k5 ?p)) = queue_init" using sl by simp_all
  have lim: "n = unat (page_limit (f\<lparr>pf_mappings := pf_mappings f + 1\<rparr>) div PAGE_SIZE)"
    using f(2) by (simp add: page_limit_def)
  have "addr_space_insert_map yield space ent k = Some (0, release space (release ?p ?k5))"
    unfolding addr_space_insert_map_def page_start
    using nz acquire_two [OF q c] ins loop release_two [OF nz sl5] mp(1) f(1) lim
    by (simp add: get_frame_def phys_frame_map_eq get_addr_space_def with_paging_def Let_def)
  moreover have "\<not> mx_lock (ko_mutex (k_kobjs (release space (release ?p ?k5)) space))"
    "\<not> mx_lock (ko_mutex (k_kobjs (release space (release ?p ?k5)) ?p))"
    using q(3) by (simp_all add: release_def)
  ultimately show ?thesis using pg' m by auto
qed

subsection \<open>Witnesses\<close>

lemma boot_am: "am_ok (k_addr_maps boot_kernel 0x8000)" "am_list (k_addr_maps boot_kernel 0x8000) = []"
  "am_used (k_addr_maps boot_kernel 0x8000) = 0" "am_frames (k_addr_maps boot_kernel 0x8000)"
  by (simp_all add: am_ok_def am_list_def am_frames_def boot_kernel_def)

definition boot_entry :: addr_entry_t where
  "boot_entry = \<lparr>ae_addr = 0x5000, ae_frame = 0x6000, ae_permissions = PAGE_WRITE\<rparr>"

text \<open>An instance: in a map that has the entry for \<^verbatim>\<open>0x5000\<close> to \<^verbatim>\<open>0x9000\<close>.\<close>

theorem addr_map_lookup_first_witness:
  "\<exists>p k. addr_map_insert 0x8000 boot_entry boot_kernel = Some (p, k) \<and>
     (\<exists>r. addr_map_lookup 0x8000 0x6010 k = Some r \<and> read_entry 0x8000 r k = Some boot_entry)"
proof -
  have lt: "unat (am_used (k_addr_maps boot_kernel 0x8000)) < ADDR_MAP_ENTRIES_PER_PAGE" by (simp add: boot_am)
  from addr_map_insert_ok [OF boot_am(1) _ lt, of boot_entry] obtain p m where
    k: "addr_map_insert 0x8000 boot_entry boot_kernel =
      Some (p, boot_kernel\<lparr>k_addr_maps := (k_addr_maps boot_kernel)(0x8000 := m)\<rparr>)"
    and m: "am_ok m" "am_list m = [boot_entry]" by (auto simp: boot_am am_insert_at_def)
  let ?k = "boot_kernel\<lparr>k_addr_maps := (k_addr_maps boot_kernel)(0x8000 := m)\<rparr>"
  have "am_frames (k_addr_maps ?k 0x8000)" using m by (simp add: am_frames_def boot_entry_def)
  moreover have "find (covers ?k 0x6010) (am_list (k_addr_maps ?k 0x8000)) = Some boot_entry"
    using m by (simp add: covers_def boot_entry_def boot_kernel_def PAGE_SIZE_def)
  ultimately show ?thesis
    using addr_map_lookup_first [of ?k "0x8000" "0x6010"] m(1) k by auto
qed

text \<open>An instance: the same entry, into the empty map.\<close>

theorem addr_map_insert_sorted_witness:
  "\<exists>p m. addr_map_insert 0x8000 boot_entry boot_kernel =
      Some (p, boot_kernel\<lparr>k_addr_maps := (k_addr_maps boot_kernel)(0x8000 := m)\<rparr>) \<and>
    am_ok m \<and> am_list m = [boot_entry] \<and> find (covers boot_kernel 0x8fff) (am_list m) = Some boot_entry"
proof -
  have "covers boot_kernel 0x8fff boot_entry" by (simp add: covers_def boot_entry_def boot_kernel_def PAGE_SIZE_def)
  then show ?thesis
    using addr_map_insert_sorted [OF boot_am(1), of boot_entry] by (auto simp: boot_am)
qed

text \<open>and out again.\<close>

theorem addr_map_remove_insert_witness:
  "\<exists>p k1 k2. addr_map_insert 0x8000 boot_entry boot_kernel = Some (p, k1) \<and>
     addr_map_remove 0x8000 p k1 = Some k2 \<and> am_list (k_addr_maps k2 0x8000) = []"
  using addr_map_remove_insert [OF boot_am(1), of boot_entry] by (auto simp: boot_am)

text \<open>A map full of entries at increasing addresses.\<close>

definition full_kernel :: kernel where
  "full_kernel = boot_kernel\<lparr>k_addr_maps := (\<lambda>_. \<lparr>am_region = 0xfd020000, am_entries = 340, am_used = 340,
     am_map = map (\<lambda>i. \<lparr>ae_addr = of_nat i * PAGE_SIZE, ae_frame = 0x6000, ae_permissions = 0\<rparr>) [0..<340]\<rparr>)\<rparr>"

lemma full_am: "am_ok (k_addr_maps full_kernel 0x8000)"
proof -
  have m: "(of_nat i * PAGE_SIZE \<le> of_nat j * PAGE_SIZE) = (i \<le> j)" if "i < 340" "j < 340" for i j
    using that by (simp add: word_le_nat_alt PAGE_SIZE_def unat_word_ariths unat_of_nat)
  have "sorted (map (\<lambda>i. of_nat i * PAGE_SIZE :: u32) [0..<340])"
    by (auto simp: sorted_iff_nth_mono m)
  then show ?thesis by (simp add: am_ok_def am_list_def full_kernel_def comp_def del: upt_conv_Cons_Cons)
qed

text \<open>An instance: a full map of the boot state.\<close>

theorem addr_map_remove_full_overruns_witness:
  "addr_map_remove 0x8000 (entry_addr 0x8000 7) full_kernel = None"
  using addr_map_remove_full_overruns [OF full_am, of 7] by (simp add: full_kernel_def)

text \<open>An instance: the frame of four pages is cut after the first.\<close>

theorem phys_frame_split_partition_witness:
  "\<exists>new k'. phys_frame_split (\<lambda>_. None) 0x6000 1 boot_kernel = Some (new, k') \<and> new \<noteq> NULL \<and>
     pf_size (k_phys_frames k' 0x6000) = 1 \<and> pf_size (k_phys_frames k' new) = 3 \<and>
     pf_address (k_phys_frames k' new) = 0x101000"
proof -
  have "case slab_alloc phys_frame_slab boot_mm of None \<Rightarrow> False | Some (p, m) \<Rightarrow> p \<noteq> NULL \<and> p \<noteq> 0x6000" by code_simp
  then obtain new m where "slab_alloc phys_frame_slab boot_mm = Some (new, m)" "new \<noteq> NULL" "new \<noteq> 0x6000"
    by (auto split: option.splits)
  then obtain k1 where al: "k_slab_alloc phys_frame_slab (acquire 0x5000 0x6000 boot_kernel) = Some (new, k1)"
    "new \<noteq> NULL" "new \<noteq> 0x6000" by (simp add: k_slab_alloc_def boot_kernel_mm)
  have f: "k_phys_frames boot_kernel 0x6000 = \<lparr>pf_address = 0x100000, pf_size = 4, pf_flags = 0, pf_mappings = 0\<rparr>"
    by (simp add: boot_kernel_def)
  have n: "\<not> ((0 :: u32) \<noteq> 0 \<or> (1 :: u32) = 0 \<or> (4 :: u32) \<le> 1)" by (simp add: word_le_nat_alt)
  from phys_frame_split_partition [OF boot_quiet boot_kernel_current al, of 1 "\<lambda>_. None"]
  show ?thesis using al(2) unfolding f Let_def phys_frame_t.select_convs if_not_P [OF n] by (auto simp: PAGE_SIZE_def)
qed

text \<open>
  C9: the frame of four pages goes to \<^verbatim>\<open>0x500000\<close> of the boot address space, for which there is no
  page table yet; the page at \<^verbatim>\<open>0\<close> is where it was.
\<close>

theorem addr_space_insert_map_maps_witness:
  "\<exists>k'. addr_space_insert_map (\<lambda>_. None) 0x7000 (boot_entry\<lparr>ae_addr := 0x500000\<rparr>) boot_kernel = Some (0, k') \<and>
     mmu_translate (mm_pg (k_mm k')) 0x502123 = Some 0x102123 \<and>
     mmu_translate (mm_pg (k_mm k')) 0x123 = mmu_translate (mm_pg (k_mm boot_kernel)) 0x123 \<and>
     boot_entry\<lparr>ae_addr := 0x500000\<rparr> \<in> set (am_list (k_addr_maps k' 0x8000))"
proof -
  let ?f = "\<lparr>pf_address = 0x100000, pf_size = 4, pf_flags = 0, pf_mappings = 0 :: u32\<rparr>"
  let ?b = "boot_entry\<lparr>ae_addr := 0x500000\<rparr>"
  have f: "?f = k_phys_frames boot_kernel (ae_frame ?b)" by (simp add: boot_kernel_def boot_entry_def)
  have n: "4 = unat (page_limit ?f div PAGE_SIZE)" by (simp add: page_limit_def PAGE_SIZE_def)
  have mp: "0x8000 = as_map (k_addr_spaces boot_kernel 0x7000)" by (simp add: boot_kernel_def)
  have pg: "mm_pg (k_mm boot_kernel) = small_paging" by (simp add: boot_kernel_mm boot_mm_def)
  have fr: "frame_of (ae_addr ?b) = 0x500000" "frame_of (pf_address ?f) = 0x100000"
    by (simp_all add: boot_entry_def frame_of_def)
  have dir: "page_dir_entry (page_at 0x500000 i) = 1" if "i < 4" for i
  proof -
    from that have "i = 0 \<or> i = 1 \<or> i = 2 \<or> i = 3" by arith
    then show ?thesis by (auto simp: page_at_def PAGE_SIZE_def page_dir_entry_def drop_bit_eq_div)
  qed
  have nt: "new_tables small_paging 0x500000 4 = {1}"
    using dir dir [of 0] by (auto simp: new_tables_def needs_table_def small_dir intro!: rev_image_eqI [of 0])
  have av: "r_available (pg_phys small_paging) = 1" by (simp add: small_paging_def)
  have ht: "mappable (mm_pg (k_mm boot_kernel)) (frame_of (ae_addr ?b)) 4"
    unfolding fr pg mappable_def using nt av by (simp add: dir small_dir is_4mb_def)
  have iv: "paging_inv (mm_pg (k_mm boot_kernel))" unfolding pg by (rule small_paging_inv)
  have q: "quiet 0x7000 boot_kernel" "quiet (ae_frame ?b) boot_kernel" "0x7000 \<noteq> ae_frame ?b"
    by (auto intro!: boot_quiet simp: boot_entry_def)
  have sp: "same_page (page_at 0x500000 2) 0x502123"
    by (simp add: same_page_frame frame_of_def page_at_def PAGE_SIZE_def)
  have e0: "page_dir_entry 0x123 = 0" by (simp add: page_dir_entry_def drop_bit_eq_div)
  have w: "(\<forall>i < 4. \<not> same_page (page_at 0x500000 i) 0x123) \<and> page_dir_entry 0x123 \<notin> new_tables small_paging 0x500000 4 \<and>
      (page_dir_entry 0x123 < 1023 \<or> new_tables small_paging 0x500000 4 = {})"
    using dir by (auto simp: same_page_def e0 nt)
  have am: "unat (am_used (k_addr_maps boot_kernel 0x8000)) \<noteq> ADDR_MAP_ENTRIES_PER_PAGE" by (simp add: boot_am)
  from addr_space_insert_map_maps [OF q boot_kernel_current mp _ boot_am(1) f n iv ht, of "\<lambda>_. None"]
  obtain k' where k': "addr_space_insert_map (\<lambda>_. None) 0x7000 ?b boot_kernel = Some (0, k')"
    "?b \<in> set (am_list (k_addr_maps k' 0x8000))"
    "\<forall>i w. i < 4 \<longrightarrow> same_page (page_at 0x500000 i) w \<longrightarrow>
       mmu_translate (mm_pg (k_mm k')) w = Some (page_at 0x100000 i OR (w AND 0xfff))"
    and old: "mmu_translate (mm_pg (k_mm k')) 0x123 = mmu_translate (mm_pg (k_mm boot_kernel)) 0x123"
    unfolding fr if_not_P [OF am] pg using w by auto
  from k'(3) [rule_format, OF _ sp] have "mmu_translate (mm_pg (k_mm k')) 0x502123 = Some 0x102123"
    by (simp add: page_at_def PAGE_SIZE_def)
  with k' old show ?thesis by blast
qed

end
