(* ===== verification/C4_Scheduler.thy ===== *)
theory C4_Scheduler
  imports C4_AddrSpace
begin

text \<open>
  Threads (\<^verbatim>\<open>src/thread.c\<close>, \<^verbatim>\<open>arch/x86/thread.c\<close>) and the scheduler (\<^verbatim>\<open>src/scheduler.c\<close>).

  The context switch itself, \<^verbatim>\<open>sched_do_thread_switch\<close> of \<^verbatim>\<open>arch/x86/scheduler.s\<close>, is the parameter
  \<open>do_switch\<close>: from the switch away from \<open>cur\<close> to \<open>next\<close> until \<open>cur\<close> is resumed, other threads run and
  change the kernel state in ways this thread's code does not determine. \<open>None\<close> is a thread that is
  never resumed.

  \<^verbatim>\<open>sched_thread_yield\<close> calls itself through the mutex operations of the thread switch. The number
  of such nested calls is the fuel of \<open>sched_thread_yield\<close>; the functions before it take the nested
  yield as an argument.
\<close>

type_synonym do_switch = "ptr \<Rightarrow> ptr \<Rightarrow> kernel \<Rightarrow> kernel option"

section \<open>Threads\<close>

definition sizeof_thread_t :: u32 where "sizeof_thread_t = 132"

definition init_threading :: "kernel \<Rightarrow> kernel" where
  "init_threading k =
     (if \<not> k_thread_init k
      then (k_slab_init thread_slab sizeof_thread_t k)\<lparr>k_thread_init := True\<rparr>
      else k)"

definition thread_set_init_state :: "ptr \<Rightarrow> ptr \<Rightarrow> ptr \<Rightarrow> u32 \<Rightarrow> kernel \<Rightarrow> kernel option" where
  "thread_set_init_state thread entry stack flags k = do {
     k1 \<leftarrow> upd_thread thread (\<lambda>_. zero_thread) k;
     (kern_stack, k2) \<leftarrow> k_global_alloc k1;
     upd_thread thread (\<lambda>t. t\<lparr>t_kernel_stack := kern_stack + PAGE_SIZE,
       t_registers := (t_registers t)\<lparr>r_esp := stack, r_eip := entry,
         r_do_user_switch := (if flags AND THREAD_FLAG_USER \<noteq> 0 then 1 else 0)\<rparr>\<rparr>) k2
   }"

definition thread_create :: "ptr \<Rightarrow> ptr \<Rightarrow> ptr \<Rightarrow> u32 \<Rightarrow> kernel \<Rightarrow> (ptr \<times> kernel) option" where
  "thread_create entry space stack flags k = do {
     (ret, k1) \<leftarrow> k_slab_alloc thread_slab k;
     k2 \<leftarrow> thread_set_init_state ret entry stack flags k1;
     k3 \<leftarrow> upd_thread ret (\<lambda>t. t\<lparr>t_id := k_thread_counter k2, t_addr_space := space,
            t_flags := flags, t_cap_space := NULL, t_priority := THREAD_DEFAULT_PRIORITY\<rparr>)
            (k2\<lparr>k_thread_counter := k_thread_counter k2 + 1\<rparr>);
     k4 \<leftarrow> kobject_init ret KOBJECT_TYPE_THREAD k3;
     Some (ret, k4)
   }"

definition thread_create_kthread :: "ptr \<Rightarrow> kernel \<Rightarrow> (ptr \<times> kernel) option" where
  "thread_create_kthread entry k = do {
     (stack, k1) \<leftarrow> k_global_alloc k;
     thread_create entry (addr_space_kernel k1) (stack + PAGE_SIZE) THREAD_FLAG_NONE k1
   }"

definition thread_destroy :: "ptr \<Rightarrow> kernel \<Rightarrow> kernel option" where
  "thread_destroy thread k = k_slab_free thread_slab thread k"

definition thread_set_addrspace :: "ptr \<Rightarrow> ptr \<Rightarrow> kernel \<Rightarrow> kernel option" where
  "thread_set_addrspace thread aspace k = upd_thread thread (t_addr_space_update (\<lambda>_. aspace)) k"

definition thread_set_capspace :: "ptr \<Rightarrow> ptr \<Rightarrow> kernel \<Rightarrow> kernel option" where
  "thread_set_capspace thread cspace k = upd_thread thread (t_cap_space_update (\<lambda>_. cspace)) k"

section \<open>The scheduler\<close>

definition sched_init :: "kernel \<Rightarrow> kernel" where
  "sched_init k =
     (let (run, k1) = atree_init k;
          (sleep, k2) = atree_init k1
      in k2\<lparr>k_run_tree := run, k_sleep_tree := sleep,
            k_current_threads := (\<lambda>_. NULL), k_idle_threads := (\<lambda>_. NULL)\<rparr>)"

text \<open>The address of the function \<^verbatim>\<open>idle_thread\<close>.\<close>

definition idle_thread :: ptr where "idle_thread = 0xfd031000"

definition sched_init_cpu :: "kernel \<Rightarrow> kernel option" where
  "sched_init_cpu k = do {
     c \<leftarrow> cur_cpu k;
     (t, k1) \<leftarrow> thread_create_kthread idle_thread k;
     Some (k1\<lparr>k_idle_threads := (k_idle_threads k1)(c := t),
              k_current_threads := (k_current_threads k1)(c := NULL)\<rparr>)
   }"

text \<open>The wake-up loop of \<^verbatim>\<open>sched_switch_thread\<close>.\<close>

partial_function (option) wake_sleepers :: "ptr \<Rightarrow> kernel \<Rightarrow> kernel option" where [code]:
  "wake_sleepers sleep_node k =
     (if sleep_node \<noteq> NULL
      then do {
        n \<leftarrow> deref sleep_node k;
        let sleeper = an_data n;
        (now, k1) \<leftarrow> timer_get_timestamp_ns k;
        t \<leftarrow> get_thread sleeper k1;
        if now \<ge> t_sleep_target t
        then do {
          (tree, k2) \<leftarrow> atree_remove (k_sleep_tree k1) sleep_node k1;
          k3 \<leftarrow> upd_thread sleeper (\<lambda>t. t\<lparr>t_sleep_target := 0, t_state := SCHED_STATE_RUNNING\<rparr>)
                 (k2\<lparr>k_sleep_tree := tree\<rparr>);
          k4 \<leftarrow> run_tree_insert sleeper k3;
          next_node \<leftarrow> atree_start (k_sleep_tree k4) k4;
          wake_sleepers next_node k4
        }
        else Some k1
      }
      else Some k)"

definition requeue_current :: "u32 \<Rightarrow> kernel \<Rightarrow> kernel option" where
  "requeue_current c k =
     (let cur = k_current_threads k c
      in if cur \<noteq> NULL \<and> cur \<noteq> k_idle_threads k c
            \<and> t_state (k_threads k cur) = SCHED_STATE_RUNNING
         then do {
           k1 \<leftarrow> upd_thread cur (t_flags_update (\<lambda>f. UNSET_FLAG f THREAD_FLAG_RUNNING)) k;
           run_tree_insert cur k1
         }
         else Some k)"

text \<open>The choice of the next thread: the start of the run tree, else the idle thread.\<close>

definition pick_next :: "u32 \<Rightarrow> kernel \<Rightarrow> (ptr \<times> kernel) option" where
  "pick_next c k = do {
     next_node \<leftarrow> atree_start (k_run_tree k) k;
     if next_node \<noteq> NULL
     then do {
       n \<leftarrow> deref next_node k;
       let nxt = an_data n;
       (tree, k1) \<leftarrow> atree_remove (k_run_tree k) next_node k;
       let k2 = k1\<lparr>k_run_tree := tree\<rparr>;
       t \<leftarrow> get_thread nxt k2;
       if t_state t \<noteq> SCHED_STATE_RUNNING \<or> FLAG (t_flags t) THREAD_FLAG_RUNNING
       then Some (k_idle_threads k2 c, k2)
       else Some (nxt, k2)
     }
     else Some (k_idle_threads k c, k)
   }"

definition sched_jump_to_thread :: "yield \<Rightarrow> do_switch \<Rightarrow> ptr \<Rightarrow> kernel \<Rightarrow> kernel option" where
  "sched_jump_to_thread yield do_switch thread k = do {
     c \<leftarrow> cur_cpu k;
     let cur = k_current_threads k c;
     let k1 = k\<lparr>k_current_threads := (k_current_threads k)(c := thread)\<rparr>;
     if cur = thread then Some k1
     else do {
       t \<leftarrow> get_thread thread k1;
       k2 \<leftarrow> (if cur = NULL \<or> t_addr_space t \<noteq> t_addr_space (k_threads k1 cur)
              then do {
                s \<leftarrow> get_addr_space (t_addr_space t) k1;
                _ \<leftarrow> vload (mm_pg (k_mm k1)) (as_page_dir s);
                addr_space_set (t_addr_space t) k1
              }
              else Some k1);
       k3 \<leftarrow> (if cur \<noteq> NULL
              then do {
                sp \<leftarrow> kernel_stack_get k2;
                (now, k') \<leftarrow> timer_get_timestamp_ns k2;
                upd_thread cur (\<lambda>t. t\<lparr>t_kernel_stack := sp,
                  t_runtime := t_runtime t + (now - t_start_timestamp t),
                  t_flags := UNSET_FLAG (t_flags t) THREAD_FLAG_RUNNING\<rparr>) k'
              }
              else Some k2);
       k4 \<leftarrow> kobject_lock yield thread k3;
       k5 \<leftarrow> upd_thread thread (t_flags_update (\<lambda>f. SET_FLAG f THREAD_FLAG_RUNNING)) k4;
       (now, k6) \<leftarrow> timer_get_timestamp_ns k5;
       k7 \<leftarrow> upd_thread thread (t_start_timestamp_update (\<lambda>_. now)) k6;
       t7 \<leftarrow> get_thread thread k7;
       k8 \<leftarrow> kernel_stack_set (t_kernel_stack t7) k7;
       k9 \<leftarrow> (if cur \<noteq> NULL then kobject_unlock yield cur k8 else Some k8);
       do_switch cur thread k9
     }
   }"

definition sched_switch_thread :: "yield \<Rightarrow> do_switch \<Rightarrow> kernel \<Rightarrow> kernel option" where
  "sched_switch_thread yield do_switch k = do {
     k1 \<leftarrow> sched_spinlock k;
     c \<leftarrow> cur_cpu k1;
     k2 \<leftarrow> requeue_current c k1;
     sleep_node \<leftarrow> atree_start (k_sleep_tree k2) k2;
     k3 \<leftarrow> wake_sleepers sleep_node k2;
     (nxt, k4) \<leftarrow> pick_next c k3;
     sched_jump_to_thread yield do_switch nxt (sched_unlock k4)
   }"

primrec sched_thread_yield :: "nat \<Rightarrow> do_switch \<Rightarrow> kernel \<Rightarrow> kernel option" where
  "sched_thread_yield 0 do_switch k = None"
| "sched_thread_yield (Suc n) do_switch k =
     sched_switch_thread (sched_thread_yield n do_switch) do_switch k"

definition sched_thread_continue :: "ptr \<Rightarrow> kernel \<Rightarrow> kernel option" where
  "sched_thread_continue thread k = do {
     k1 \<leftarrow> sched_spinlock k;
     t \<leftarrow> get_thread thread k1;
     k2 \<leftarrow> (if t_state t = SCHED_STATE_STOPPED
            then do {
              k' \<leftarrow> upd_thread thread (\<lambda>t. t\<lparr>t_state := SCHED_STATE_RUNNING,
                     t_flags := UNSET_FLAG (t_flags t) THREAD_FLAG_FAULTED\<rparr>) k1;
              run_tree_insert thread k'
            }
            else Some k1);
     Some (sched_unlock k2)
   }"

definition sched_thread_stop :: "ptr \<Rightarrow> kernel \<Rightarrow> kernel option" where
  "sched_thread_stop thread k = do {
     t \<leftarrow> get_thread thread k;
     if t_state t = SCHED_STATE_RUNNING
     then upd_thread thread (t_state_update (\<lambda>_. SCHED_STATE_STOPPED)) k
     else Some k
   }"

definition sched_thread_kill :: "ptr \<Rightarrow> kernel \<Rightarrow> kernel option" where
  "sched_thread_kill thread k = do {
     c \<leftarrow> cur_cpu k;
     if thread \<noteq> NULL
     then do {
       let k1 = (if thread = k_current_threads k c
                 then k\<lparr>k_current_threads := (k_current_threads k)(c := NULL)\<rparr> else k);
       k2 \<leftarrow> sched_spinlock k1;
       k3 \<leftarrow> sched_thread_stop thread k2;
       thread_destroy thread (sched_unlock k3)
     }
     else Some k
   }"

text \<open>\<^verbatim>\<open>sched_thread_exit\<close> ends in an endless loop: it does not return.\<close>

definition sched_thread_exit :: "yield \<Rightarrow> kernel \<Rightarrow> kernel option" where
  "sched_thread_exit yield k = do {
     cur \<leftarrow> sched_current_thread k;
     k1 \<leftarrow> sched_thread_kill cur k;
     k2 \<leftarrow> yield k1;
     None
   }"

definition sched_thread_sleep :: "yield \<Rightarrow> u32 \<Rightarrow> kernel \<Rightarrow> kernel option" where
  "sched_thread_sleep yield useconds k = do {
     cur \<leftarrow> sched_current_thread k;
     if useconds = 0 then Some k
     else do {
       k1 \<leftarrow> sched_spinlock k;
       k2 \<leftarrow> upd_thread cur (t_state_update (\<lambda>_. SCHED_STATE_SLEEPING)) k1;
       (now, k3) \<leftarrow> timer_get_timestamp_ns k2;
       k4 \<leftarrow> upd_thread cur (t_sleep_target_update (\<lambda>_. now + ucast useconds * 1000)) k3;
       k5 \<leftarrow> sleep_tree_insert cur k4;
       yield (sched_unlock k5)
     }
   }"

section \<open>The queues of the scheduler\<close>

text \<open>
  \<open>sched_rep k rs ss\<close>: the run queue holds the threads \<open>rs\<close> in the order of their virtual runtimes, and the
  sleep queue the threads \<open>ss\<close> in the order of their wake-up times.
\<close>

definition run_key :: "kernel \<Rightarrow> ptr \<Rightarrow> int" where
  "run_key k t = sint (sched_thread_vruntime k t)"

definition sleep_key :: "kernel \<Rightarrow> ptr \<Rightarrow> int" where
  "sleep_key k t = sint (sched_thread_sleeptime k t)"

definition node_data :: "kernel \<Rightarrow> ptr list \<Rightarrow> ptr list" where
  "node_data k ns = map (\<lambda>a. an_data (k_anodes k a)) ns"

definition sched_rep :: "kernel \<Rightarrow> ptr list \<Rightarrow> ptr list \<Rightarrow> bool" where
  "sched_rep k rs ss \<longleftrightarrow> (\<exists>ns ms. atree_rep (sched_thread_vruntime k) k (k_run_tree k) ns \<and>
     atree_rep (sched_thread_sleeptime k) k (k_sleep_tree k) ms \<and> rs = node_data k ns \<and> ss = node_data k ms \<and>
     set ns \<inter> set ms = {})"

text \<open>The state has changed only in what the trees use.\<close>

definition queues_only :: "kernel \<Rightarrow> kernel \<Rightarrow> bool" where
  "queues_only k k' \<longleftrightarrow> k' = k\<lparr>k_mm := k_mm k', k_anodes := k_anodes k', k_run_tree := k_run_tree k', k_sleep_tree := k_sleep_tree k'\<rparr>"

lemma queues_only_fields:
  assumes "queues_only k k'"
  shows "k_threads k' = k_threads k" "k_current_threads k' = k_current_threads k" "k_idle_threads k' = k_idle_threads k"
    "k_sched_lock k' = k_sched_lock k" "k_tsc_reads k' = k_tsc_reads k" "k_tsc k' = k_tsc k"
    "k_cpu_frequency k' = k_cpu_frequency k" "run_key k' = run_key k" "sleep_key k' = sleep_key k"
proof -
  have eq: "k' = k\<lparr>k_mm := k_mm k', k_anodes := k_anodes k', k_run_tree := k_run_tree k', k_sleep_tree := k_sleep_tree k'\<rparr>"
    using assms by (simp add: queues_only_def)
  show th: "k_threads k' = k_threads k" and "k_current_threads k' = k_current_threads k" "k_idle_threads k' = k_idle_threads k"
    "k_sched_lock k' = k_sched_lock k" "k_tsc_reads k' = k_tsc_reads k" "k_tsc k' = k_tsc k"
    "k_cpu_frequency k' = k_cpu_frequency k" by (subst eq, simp)+
  show "run_key k' = run_key k" "sleep_key k' = sleep_key k" using th
    by (auto simp: fun_eq_iff run_key_def sleep_key_def sched_thread_vruntime_def sched_thread_sleeptime_def)
qed

lemma vruntime_cong: "k_threads k' = k_threads k \<Longrightarrow> sched_thread_vruntime k' = sched_thread_vruntime k"
  and sleeptime_cong: "k_threads k' = k_threads k \<Longrightarrow> sched_thread_sleeptime k' = sched_thread_sleeptime k"
  by (simp_all add: fun_eq_iff sched_thread_vruntime_def sched_thread_sleeptime_def)

lemma atree_rep_state:
  "atree_rep get_key k' tree ns = atree_rep get_key k tree ns" if "k_anodes k' = k_anodes k" "k_mm k' = k_mm k"
  using that by (simp add: atree_rep_def at_place_def)

text \<open>A change elsewhere, or to threads that keeps the keys of those in the queues, keeps the queues.\<close>

lemma sched_rep_cong:
  assumes "sched_rep k rs ss" and "k_anodes k' = k_anodes k" "k_mm k' = k_mm k" "k_run_tree k' = k_run_tree k"
    "k_sleep_tree k' = k_sleep_tree k"
    and "\<And>t. t \<in> set rs \<Longrightarrow> sched_thread_vruntime k' t = sched_thread_vruntime k t"
    and "\<And>t. t \<in> set ss \<Longrightarrow> sched_thread_sleeptime k' t = sched_thread_sleeptime k t"
  shows "sched_rep k' rs ss"
proof -
  from assms(1) obtain ns ms where r: "atree_rep (sched_thread_vruntime k) k (k_run_tree k) ns"
    "atree_rep (sched_thread_sleeptime k) k (k_sleep_tree k) ms" "rs = node_data k ns" "ss = node_data k ms" "set ns \<inter> set ms = {}"
    by (auto simp: sched_rep_def)
  have "atree_rep (sched_thread_vruntime k') k (k_run_tree k) ns"
    by (rule atree_rep_key_cong [OF r(1)]) (use assms(6) r(3) in \<open>auto simp: node_data_def\<close>)
  moreover have "atree_rep (sched_thread_sleeptime k') k (k_sleep_tree k) ms"
    by (rule atree_rep_key_cong [OF r(2)]) (use assms(7) r(4) in \<open>auto simp: node_data_def\<close>)
  ultimately show ?thesis
    using r(3-5) assms(2-5) by (auto simp: sched_rep_def node_data_def atree_rep_state [OF assms(2,3)])
qed

lemma sched_rep_sorted: "sched_rep k rs ss \<Longrightarrow> sorted (map (run_key k) rs) \<and> sorted (map (sleep_key k) ss)"
  by (auto simp: sched_rep_def atree_rep_def node_data_def run_key_def sleep_key_def comp_def)

lemma run_tree_insert_rep:
  assumes rep: "sched_rep k rs ss" and key: "0 \<le> run_key k t" and run: "run_tree_insert t k = Some k'"
  shows "sched_rep k' (insert_after (run_key k) t rs) ss \<and> queues_only k k'"
proof -
  from rep obtain ns ms where r: "atree_rep (sched_thread_vruntime k) k (k_run_tree k) ns"
    "atree_rep (sched_thread_sleeptime k) k (k_sleep_tree k) ms" "rs = node_data k ns" "ss = node_data k ms" "set ns \<inter> set ms = {}"
    by (auto simp: sched_rep_def)
  from run obtain n tree k1 where i: "atree_insert (sched_thread_vruntime k) (k_run_tree k) t k = Some (n, tree, k1)"
    and k': "k' = k1\<lparr>k_run_tree := tree\<rparr>" by (auto simp: run_tree_insert_def elim!: bind_eq_SomeE)
  from atree_insert_two [OF r(1,2,5) _ i] key obtain ns' where
    s: "atree_rep (sched_thread_vruntime k) k1 tree ns'" "atree_rep (sched_thread_sleeptime k) k1 (k_sleep_tree k) ms"
    "set ns' \<inter> set ms = {}" "map (\<lambda>a. an_data (k_anodes k1 a)) ns' = insert_after (run_key k) t rs"
    "node_data k1 ms = node_data k ms" "k1 = k\<lparr>k_mm := k_mm k1, k_anodes := k_anodes k1\<rparr>"
    by (auto simp: run_key_def [abs_def] r(3) node_data_def)
  have f: "k_threads k1 = k_threads k" "k_sleep_tree k1 = k_sleep_tree k" by (subst s(6), simp)+
  have th: "k_threads k' = k_threads k" and st: "k_run_tree k' = tree" "k_sleep_tree k' = k_sleep_tree k"
    and ad: "k_anodes k' = k_anodes k1" "k_mm k' = k_mm k1" using f by (simp_all add: k')
  have "sched_rep k' (insert_after (run_key k) t rs) ss"
    unfolding sched_rep_def vruntime_cong [OF th] sleeptime_cong [OF th] st atree_rep_state [OF ad] r(4)
    using s(1-5) by (intro exI [of _ ns'] exI [of _ ms]) (simp add: node_data_def ad)
  moreover have "queues_only k k'" unfolding queues_only_def k' by (subst s(6)) (simp add: f)
  ultimately show ?thesis by blast
qed

lemma sleep_tree_insert_rep:
  assumes rep: "sched_rep k rs ss" and key: "0 \<le> sleep_key k t" and run: "sleep_tree_insert t k = Some k'"
  shows "sched_rep k' rs (insert_after (sleep_key k) t ss) \<and> queues_only k k'"
proof -
  from rep obtain ns ms where r: "atree_rep (sched_thread_vruntime k) k (k_run_tree k) ns"
    "atree_rep (sched_thread_sleeptime k) k (k_sleep_tree k) ms" "rs = node_data k ns" "ss = node_data k ms" "set ms \<inter> set ns = {}"
    by (auto simp: sched_rep_def)
  from run obtain n tree k1 where i: "atree_insert (sched_thread_sleeptime k) (k_sleep_tree k) t k = Some (n, tree, k1)"
    and k': "k' = k1\<lparr>k_sleep_tree := tree\<rparr>" by (auto simp: sleep_tree_insert_def elim!: bind_eq_SomeE)
  from atree_insert_two [OF r(2,1,5) _ i] key obtain ms' where
    s: "atree_rep (sched_thread_sleeptime k) k1 tree ms'" "atree_rep (sched_thread_vruntime k) k1 (k_run_tree k) ns"
    "set ms' \<inter> set ns = {}" "map (\<lambda>a. an_data (k_anodes k1 a)) ms' = insert_after (sleep_key k) t ss"
    "node_data k1 ns = node_data k ns" "k1 = k\<lparr>k_mm := k_mm k1, k_anodes := k_anodes k1\<rparr>"
    by (auto simp: sleep_key_def [abs_def] r(4) node_data_def)
  have f: "k_threads k1 = k_threads k" "k_run_tree k1 = k_run_tree k" by (subst s(6), simp)+
  have th: "k_threads k' = k_threads k" and st: "k_sleep_tree k' = tree" "k_run_tree k' = k_run_tree k"
    and ad: "k_anodes k' = k_anodes k1" "k_mm k' = k_mm k1" using f by (simp_all add: k')
  have "set ns \<inter> set ms' = {}" using s(3) by blast
  then have "sched_rep k' rs (insert_after (sleep_key k) t ss)"
    unfolding sched_rep_def vruntime_cong [OF th] sleeptime_cong [OF th] st atree_rep_state [OF ad] r(3)
    using s(1-5) by (intro exI [of _ ns] exI [of _ ms']) (simp add: node_data_def ad)
  moreover have "queues_only k k'" unfolding queues_only_def k' by (subst s(6)) (simp add: f)
  ultimately show ?thesis by blast
qed

text \<open>Taking the first thread from either queue.\<close>

lemma run_tree_first:
  assumes rep: "sched_rep k rs ss"
  shows "\<exists>n. atree_start (k_run_tree k) k = Some n \<and> (n = NULL \<longleftrightarrow> rs = []) \<and>
    (rs \<noteq> [] \<longrightarrow> an_data (k_anodes k n) = hd rs \<and> (\<forall>tree k1. atree_remove (k_run_tree k) n k = Some (tree, k1) \<longrightarrow>
       sched_rep (k1\<lparr>k_run_tree := tree\<rparr>) (tl rs) ss \<and> queues_only k (k1\<lparr>k_run_tree := tree\<rparr>)))"
proof -
  from rep obtain ns ms where r: "atree_rep (sched_thread_vruntime k) k (k_run_tree k) ns"
    "atree_rep (sched_thread_sleeptime k) k (k_sleep_tree k) ms" "rs = node_data k ns" "ss = node_data k ms" "set ns \<inter> set ms = {}"
    by (auto simp: sched_rep_def)
  note start = atree_start_first [OF r(1)]
  show ?thesis
  proof (cases ns)
    case Nil
    then show ?thesis using start r(3) by (simp add: node_data_def)
  next
    case (Cons n ns1)
    have step: "sched_rep (k1\<lparr>k_run_tree := tree\<rparr>) (tl rs) ss \<and> queues_only k (k1\<lparr>k_run_tree := tree\<rparr>)"
      if rm: "atree_remove (k_run_tree k) n k = Some (tree, k1)" for tree k1
    proof -
      from atree_remove_two [OF r(1) [unfolded Cons] r(2) r(5) [unfolded Cons] rm] obtain ns' where
        s: "atree_rep (sched_thread_vruntime k) k1 tree ns'" "atree_rep (sched_thread_sleeptime k) k1 (k_sleep_tree k) ms"
        "set ns' \<inter> set ms = {}" "node_data k1 ns' = node_data k ns1" "node_data k1 ms = node_data k ms"
        "k1 = k\<lparr>k_mm := k_mm k1, k_anodes := k_anodes k1\<rparr>" unfolding node_data_def by blast
      let ?k = "k1\<lparr>k_run_tree := tree\<rparr>"
      have f: "k_threads k1 = k_threads k" "k_sleep_tree k1 = k_sleep_tree k" by (subst s(6), simp)+
      then have th: "k_threads ?k = k_threads k" and st: "k_run_tree ?k = tree" "k_sleep_tree ?k = k_sleep_tree k"
        and ad: "k_anodes ?k = k_anodes k1" "k_mm ?k = k_mm k1" by simp_all
      have "tl rs = node_data k1 ns'" using Cons r(3) s(4) by (simp add: node_data_def)
      then have "sched_rep ?k (tl rs) ss"
        unfolding sched_rep_def vruntime_cong [OF th] sleeptime_cong [OF th] st atree_rep_state [OF ad] r(4)
        using s(1-5) by (intro exI [of _ ns'] exI [of _ ms]) (simp add: node_data_def ad)
      moreover have "queues_only k ?k" unfolding queues_only_def by (subst s(6)) (simp add: f)
      ultimately show ?thesis by blast
    qed
    have "n \<noteq> NULL" using atree_rep_nonnull [OF r(1)] Cons by auto
    then show ?thesis using start step Cons r(3) by (simp add: node_data_def)
  qed
qed

lemma sleep_tree_first:
  assumes rep: "sched_rep k rs ss"
  shows "\<exists>n. atree_start (k_sleep_tree k) k = Some n \<and> (n = NULL \<longleftrightarrow> ss = []) \<and>
    (ss \<noteq> [] \<longrightarrow> an_data (k_anodes k n) = hd ss \<and> (\<forall>tree k1. atree_remove (k_sleep_tree k) n k = Some (tree, k1) \<longrightarrow>
       sched_rep (k1\<lparr>k_sleep_tree := tree\<rparr>) rs (tl ss) \<and> queues_only k (k1\<lparr>k_sleep_tree := tree\<rparr>)))"
proof -
  from rep obtain ns ms where r: "atree_rep (sched_thread_vruntime k) k (k_run_tree k) ns"
    "atree_rep (sched_thread_sleeptime k) k (k_sleep_tree k) ms" "rs = node_data k ns" "ss = node_data k ms" "set ms \<inter> set ns = {}"
    by (auto simp: sched_rep_def)
  note start = atree_start_first [OF r(2)]
  show ?thesis
  proof (cases ms)
    case Nil
    then show ?thesis using start r(4) by (simp add: node_data_def)
  next
    case (Cons n ms1)
    have step: "sched_rep (k1\<lparr>k_sleep_tree := tree\<rparr>) rs (tl ss) \<and> queues_only k (k1\<lparr>k_sleep_tree := tree\<rparr>)"
      if rm: "atree_remove (k_sleep_tree k) n k = Some (tree, k1)" for tree k1
    proof -
      from atree_remove_two [OF r(2) [unfolded Cons] r(1) r(5) [unfolded Cons] rm] obtain ms' where
        s: "atree_rep (sched_thread_sleeptime k) k1 tree ms'" "atree_rep (sched_thread_vruntime k) k1 (k_run_tree k) ns"
        "set ms' \<inter> set ns = {}" "node_data k1 ms' = node_data k ms1" "node_data k1 ns = node_data k ns"
        "k1 = k\<lparr>k_mm := k_mm k1, k_anodes := k_anodes k1\<rparr>" unfolding node_data_def by blast
      let ?k = "k1\<lparr>k_sleep_tree := tree\<rparr>"
      have f: "k_threads k1 = k_threads k" "k_run_tree k1 = k_run_tree k" by (subst s(6), simp)+
      then have th: "k_threads ?k = k_threads k" and st: "k_sleep_tree ?k = tree" "k_run_tree ?k = k_run_tree k"
        and ad: "k_anodes ?k = k_anodes k1" "k_mm ?k = k_mm k1" by simp_all
      have "tl ss = node_data k1 ms'" using Cons r(4) s(4) by (simp add: node_data_def)
      moreover have "set ns \<inter> set ms' = {}" using s(3) by blast
      ultimately have "sched_rep ?k rs (tl ss)"
        unfolding sched_rep_def vruntime_cong [OF th] sleeptime_cong [OF th] st atree_rep_state [OF ad] r(3)
        using s(1-5) by (intro exI [of _ ns] exI [of _ ms']) (simp add: node_data_def ad)
      moreover have "queues_only k ?k" unfolding queues_only_def by (subst s(6)) (simp add: f)
      ultimately show ?thesis by blast
    qed
    have "n \<noteq> NULL" using atree_rep_nonnull [OF r(2)] Cons by auto
    then show ?thesis using start step Cons r(4) by (simp add: node_data_def)
  qed
qed

section \<open>Waking sleepers\<close>

text \<open>The nanoseconds at the \<open>i\<close>-th reading of the time-stamp counter.\<close>

definition clock_ns :: "kernel \<Rightarrow> nat \<Rightarrow> u64" where
  "clock_ns k i = (k_tsc k i * 1000000) div (k_cpu_frequency k div 1000)"

text \<open>
  The sleepers that are due: each is compared with a new reading of the clock, and the first that is
  not due ends the search.
\<close>

primrec woken :: "kernel \<Rightarrow> nat \<Rightarrow> ptr list \<Rightarrow> ptr list" where
  "woken k i [] = []"
| "woken k i (s # ss) = (if t_sleep_target (k_threads k s) \<le> clock_ns k i then s # woken k (Suc i) ss else [])"

text \<open>The same loop over the list of sleepers.\<close>

definition wake_first :: "ptr \<Rightarrow> kernel \<Rightarrow> kernel option" where
  "wake_first s k = do {
     n \<leftarrow> atree_start (k_sleep_tree k) k;
     (tree, k2) \<leftarrow> atree_remove (k_sleep_tree k) n k;
     k3 \<leftarrow> upd_thread s (\<lambda>t. t\<lparr>t_sleep_target := 0, t_state := SCHED_STATE_RUNNING\<rparr>) (k2\<lparr>k_sleep_tree := tree\<rparr>);
     run_tree_insert s k3
   }"

primrec wake_list :: "ptr list \<Rightarrow> kernel \<Rightarrow> kernel option" where
  "wake_list [] k = Some k"
| "wake_list (s # ss) k = do {
     (now, k1) \<leftarrow> timer_get_timestamp_ns k;
     t \<leftarrow> get_thread s k1;
     if now \<ge> t_sleep_target t then do { k4 \<leftarrow> wake_first s k1; wake_list ss k4 } else Some k1
   }"

lemma timer_cases:
  "timer_get_timestamp_ns k = Some (now, k1) \<Longrightarrow> now = clock_ns k (k_tsc_reads k) \<and> k1 = k\<lparr>k_tsc_reads := Suc (k_tsc_reads k)\<rparr>"
  by (auto simp: timer_get_timestamp_ns_def timer_get_timestamp_def clock_ns_def Let_def split: if_splits)

lemma sched_rep_tsc [simp]: "sched_rep (k\<lparr>k_tsc_reads := i\<rparr>) rs ss = sched_rep k rs ss"
proof -
  have "sched_thread_vruntime (k\<lparr>k_tsc_reads := i\<rparr>) = sched_thread_vruntime k"
    "sched_thread_sleeptime (k\<lparr>k_tsc_reads := i\<rparr>) = sched_thread_sleeptime k"
    by (rule vruntime_cong sleeptime_cong, simp)+
  then show ?thesis by (simp add: sched_rep_def node_data_def atree_rep_state [of "k\<lparr>k_tsc_reads := i\<rparr>" k])
qed

lemma run_key_cong:
  assumes "\<And>t. t_runtime (k_threads k' t) = t_runtime (k_threads k t)" "\<And>t. t_priority (k_threads k' t) = t_priority (k_threads k t)"
  shows "run_key k' = run_key k"
  using assms by (simp add: fun_eq_iff run_key_def sched_thread_vruntime_def)

definition awake :: "thread_t \<Rightarrow> thread_t" where
  "awake t = t\<lparr>t_sleep_target := 0, t_state := SCHED_STATE_RUNNING\<rparr>"

lemma wake_first_rep:
  assumes rep: "sched_rep k rs (s # ss)" and s: "s \<notin> set ss" "0 \<le> run_key k s" and run: "wake_first s k = Some k'"
  shows "sched_rep k' (insert_after (run_key k) s rs) ss \<and> s \<noteq> NULL \<and>
    queues_only (k\<lparr>k_threads := (k_threads k)(s := awake (k_threads k s))\<rparr>) k'"
proof -
  from sleep_tree_first [OF rep] obtain n where n: "atree_start (k_sleep_tree k) k = Some n"
    and rm: "\<And>tree k1. atree_remove (k_sleep_tree k) n k = Some (tree, k1) \<Longrightarrow>
      sched_rep (k1\<lparr>k_sleep_tree := tree\<rparr>) rs ss \<and> queues_only k (k1\<lparr>k_sleep_tree := tree\<rparr>)" by auto
  from run n obtain tree k1 k3 where r: "atree_remove (k_sleep_tree k) n k = Some (tree, k1)"
    "upd_thread s awake (k1\<lparr>k_sleep_tree := tree\<rparr>) = Some k3" "run_tree_insert s k3 = Some k'"
    by (auto simp: wake_first_def awake_def [abs_def] elim!: bind_eq_SomeE)
  let ?k2 = "k1\<lparr>k_sleep_tree := tree\<rparr>"
  have q2: "sched_rep ?k2 rs ss" "queues_only k ?k2" using rm [OF r(1)] by auto
  from r(2) have k3: "s \<noteq> NULL" "k3 = ?k2\<lparr>k_threads := (k_threads ?k2)(s := awake (k_threads ?k2 s))\<rparr>"
    by (auto simp: upd_thread_def split: if_splits)
  have th: "k_threads ?k2 = k_threads k" by (rule queues_only_fields [OF q2(2)])
  have q3: "sched_rep k3 rs ss"
    by (rule sched_rep_cong [OF q2(1)]) (use s(1) in \<open>auto simp: k3(2) sched_thread_vruntime_def sched_thread_sleeptime_def awake_def\<close>)
  have key: "run_key k3 = run_key k" by (rule run_key_cong) (use th in \<open>simp_all add: k3(2) awake_def\<close>)
  from run_tree_insert_rep [OF q3 _ r(3)] s(2) key
  have i: "sched_rep k' (insert_after (run_key k) s rs) ss" "queues_only k3 k'" by simp_all
  let ?a = "(k_threads k)(s := awake (k_threads k s))"
  have "k3 = ?k2\<lparr>k_threads := ?a\<rparr>" using k3(2) th by simp
  moreover have "?k2 = k\<lparr>k_mm := k_mm ?k2, k_anodes := k_anodes ?k2, k_run_tree := k_run_tree ?k2, k_sleep_tree := k_sleep_tree ?k2\<rparr>"
    using q2(2) unfolding queues_only_def .
  then obtain a b c d where "?k2 = k\<lparr>k_mm := a, k_anodes := b, k_run_tree := c, k_sleep_tree := d\<rparr>" by blast
  ultimately have k3': "k3 = k\<lparr>k_mm := a, k_anodes := b, k_run_tree := c, k_sleep_tree := d\<rparr>\<lparr>k_threads := ?a\<rparr>" by simp
  have "k' = k3\<lparr>k_mm := k_mm k', k_anodes := k_anodes k', k_run_tree := k_run_tree k', k_sleep_tree := k_sleep_tree k'\<rparr>"
    using i(2) by (simp add: queues_only_def)
  then have "queues_only (k\<lparr>k_threads := ?a\<rparr>) k'" unfolding queues_only_def k3' by simp
  then show ?thesis using i(1) k3(1) by simp
qed

lemma sleep_start_cong:
  assumes "sched_rep k rs ss" "k_anodes k' = k_anodes k" "k_mm k' = k_mm k" "k_sleep_tree k' = k_sleep_tree k"
  shows "atree_start (k_sleep_tree k') k' = atree_start (k_sleep_tree k) k"
proof -
  from assms(1) obtain ms where r: "atree_rep (sched_thread_sleeptime k) k (k_sleep_tree k) ms" by (auto simp: sched_rep_def)
  then have "atree_rep (sched_thread_sleeptime k) k' (k_sleep_tree k) ms" by (simp add: atree_rep_state [OF assms(2,3)])
  from atree_start_first [OF r] atree_start_first [OF this] show ?thesis using assms(4) by simp
qed

lemma wake_sleepers_list:
  assumes "sched_rep k rs ss" and "distinct ss" and "\<forall>s \<in> set ss. 0 \<le> run_key k s"
  shows "do { n \<leftarrow> atree_start (k_sleep_tree k) k; wake_sleepers n k } = wake_list ss k"
  using assms
proof (induction ss arbitrary: k rs)
  case Nil
  then obtain n where "atree_start (k_sleep_tree k) k = Some n" "n = NULL" using sleep_tree_first by blast
  then show ?case by (simp add: wake_sleepers.simps)
next
  case (Cons s ss)
  from sleep_tree_first [OF Cons.prems(1)] obtain n where n: "atree_start (k_sleep_tree k) k = Some n" "n \<noteq> NULL"
    "an_data (k_anodes k n) = s" by auto
  show ?case
  proof (cases "timer_get_timestamp_ns k")
    case None
    then show ?thesis using n by (simp add: wake_sleepers.simps [of n] deref_def)
  next
    case (Some r)
    then obtain now k1 where t: "timer_get_timestamp_ns k = Some (now, k1)" by (cases r) auto
    note k1 = timer_cases [OF t]
    have rep1: "sched_rep k1 rs (s # ss)" using k1 Cons.prems(1) by simp
    have key1: "run_key k1 = run_key k" by (rule run_key_cong) (use k1 in simp_all)
    have n1: "atree_start (k_sleep_tree k1) k1 = Some n"
      using sleep_start_cong [OF Cons.prems(1), of k1] n(1) k1 by simp
    have d: "deref n k = Some (k_anodes k n)" using n(2) by (simp add: deref_def)
    have run: "wake_sleepers n k = do {
        t \<leftarrow> get_thread s k1;
        if now \<ge> t_sleep_target t
        then do { k4 \<leftarrow> wake_first s k1; n' \<leftarrow> atree_start (k_sleep_tree k4) k4; wake_sleepers n' k4 }
        else Some k1 }"
      using n d n1 t by (simp add: wake_sleepers.simps [of n] wake_first_def case_prod_beta' Option.bind_assoc cong: if_cong)
    have "do { k4 \<leftarrow> wake_first s k1; n' \<leftarrow> atree_start (k_sleep_tree k4) k4; wake_sleepers n' k4 } =
      do { k4 \<leftarrow> wake_first s k1; wake_list ss k4 }"
    proof (cases "wake_first s k1")
      case (Some k4)
      from wake_first_rep [OF rep1 _ _ Some] Cons.prems(2,3) key1
      have w: "sched_rep k4 (insert_after (run_key k1) s rs) ss"
        "queues_only (k1\<lparr>k_threads := (k_threads k1)(s := awake (k_threads k1 s))\<rparr>) k4" by auto
      have "run_key k4 = run_key k1"
        using queues_only_fields(8) [OF w(2)] run_key_cong [of "k1\<lparr>k_threads := (k_threads k1)(s := awake (k_threads k1 s))\<rparr>" k1]
        by (simp add: awake_def)
      then show ?thesis using Cons.IH [OF w(1)] Cons.prems(2,3) key1 Some by simp
    qed simp
    then show ?thesis using n(1) run t by (simp cong: if_cong)
  qed
qed

lemma woken_cong:
  assumes "k_tsc k' = k_tsc k" "k_cpu_frequency k' = k_cpu_frequency k"
    and "\<And>s. s \<in> set ss \<Longrightarrow> t_sleep_target (k_threads k' s) = t_sleep_target (k_threads k s)"
  shows "woken k' i ss = woken k i ss"
  using assms(3) by (induction ss arbitrary: i) (auto simp: clock_ns_def assms(1,2))

lemma woken_prefix: "take (length (woken k i ss)) ss = woken k i ss"
  by (induction ss arbitrary: i) auto

text \<open>What the loop does: the due sleepers become runnable and join the run queue.\<close>

definition wake_threads :: "ptr list \<Rightarrow> thread_t heap \<Rightarrow> thread_t heap" where
  "wake_threads ws h = (\<lambda>t. if t \<in> set ws then awake (h t) else h t)"

definition sched_frame :: "kernel \<Rightarrow> kernel \<Rightarrow> bool" where
  "sched_frame k k' \<longleftrightarrow> k_current_threads k' = k_current_threads k \<and> k_idle_threads k' = k_idle_threads k \<and>
     k_sched_lock k' = k_sched_lock k \<and> k_tsc k' = k_tsc k \<and> k_cpu_frequency k' = k_cpu_frequency k \<and>
     k_num_booted_cpus k' = k_num_booted_cpus k \<and> k_apic_id k' = k_apic_id k \<and> k_caps k' = k_caps k \<and>
     k_kobjs k' = k_kobjs k \<and> k_msg_queues k' = k_msg_queues k"

lemma sched_frame_refl [simp]: "sched_frame k k" by (simp add: sched_frame_def)

lemma sched_frame_trans: "sched_frame k k1 \<Longrightarrow> sched_frame k1 k2 \<Longrightarrow> sched_frame k k2"
  by (simp add: sched_frame_def)

lemma queues_only_frame: "queues_only k k' \<Longrightarrow> sched_frame k k'"
proof -
  assume "queues_only k k'"
  then have eq: "k' = k\<lparr>k_mm := k_mm k', k_anodes := k_anodes k', k_run_tree := k_run_tree k', k_sleep_tree := k_sleep_tree k'\<rparr>"
    by (simp add: queues_only_def)
  show ?thesis unfolding sched_frame_def by (intro conjI; subst eq, simp)
qed

lemma wake_list_rep:
  assumes "sched_rep k rs ss" and "distinct ss" and "\<forall>s \<in> set ss. 0 \<le> run_key k s" and "wake_list ss k = Some k'"
  shows "let ws = woken k (k_tsc_reads k) ss in
    sched_rep k' (fold (insert_after (run_key k)) ws rs) (drop (length ws) ss) \<and> k_threads k' = wake_threads ws (k_threads k) \<and>
    sched_frame k k' \<and> run_key k' = run_key k"
  using assms
proof (induction ss arbitrary: k rs)
  case Nil
  then show ?case by (simp add: wake_threads_def)
next
  case (Cons s ss)
  from Cons.prems(4) obtain now k1 where t: "timer_get_timestamp_ns k = Some (now, k1)" and s: "s \<noteq> NULL"
    and run: "(if now \<ge> t_sleep_target (k_threads k1 s) then do { k4 \<leftarrow> wake_first s k1; wake_list ss k4 } else Some k1) = Some k'"
    by (auto simp: get_thread_def elim!: bind_eq_SomeE split: if_splits)
  note k1 = timer_cases [OF t]
  have rep1: "sched_rep k1 rs (s # ss)" using k1 Cons.prems(1) by simp
  have key1: "run_key k1 = run_key k" by (rule run_key_cong) (use k1 in simp_all)
  show ?case
  proof (cases "t_sleep_target (k_threads k s) \<le> clock_ns k (k_tsc_reads k)")
    case False
    then have "k' = k1" using run k1 by auto
    then show ?thesis using False rep1 key1 k1 by (simp add: wake_threads_def sched_frame_def)
  next
    case True
    then obtain k4 where k4: "wake_first s k1 = Some k4" "wake_list ss k4 = Some k'"
      using run k1 by (auto elim!: bind_eq_SomeE)
    let ?k = "k1\<lparr>k_threads := (k_threads k1)(s := awake (k_threads k1 s))\<rparr>"
    from wake_first_rep [OF rep1 _ _ k4(1)] Cons.prems(2,3) key1
    have w: "sched_rep k4 (insert_after (run_key k) s rs) ss" "queues_only ?k k4" by auto
    note q = queues_only_fields [OF w(2)]
    have key: "run_key k4 = run_key k" using q(8) run_key_cong [of ?k k1] key1 by (simp add: awake_def)
    have wk: "woken k4 (k_tsc_reads k4) ss = woken k (Suc (k_tsc_reads k)) ss"
      using q k1 Cons.prems(2) by (subst woken_cong [of k4 k]) auto
    have fr: "sched_frame k k4" using queues_only_frame [OF w(2)] k1 by (simp add: sched_frame_def)
    have sub: "set (woken k i ss) \<subseteq> set ss" for i by (metis woken_prefix set_take_subset)
    have "s \<notin> set (woken k (Suc (k_tsc_reads k)) ss)" using sub Cons.prems(2) by auto
    then have "wake_threads (woken k (Suc (k_tsc_reads k)) ss) (k_threads k4) =
        wake_threads (s # woken k (Suc (k_tsc_reads k)) ss) (k_threads k)"
      using q(1) k1 by (auto simp: wake_threads_def fun_eq_iff)
    then show ?thesis using Cons.IH [OF w(1) _ _ k4(2)] Cons.prems(2,3) key wk True sched_frame_trans [OF fr]
      by (simp add: Let_def)
  qed
qed

section \<open>Choosing the next thread\<close>

definition requeues :: "u32 \<Rightarrow> kernel \<Rightarrow> bool" where
  "requeues c k \<longleftrightarrow> k_current_threads k c \<noteq> NULL \<and> k_current_threads k c \<noteq> k_idle_threads k c \<and>
     t_state (k_threads k (k_current_threads k c)) = SCHED_STATE_RUNNING"

definition requeued_threads :: "u32 \<Rightarrow> kernel \<Rightarrow> thread_t heap" where
  "requeued_threads c k = (if requeues c k then (k_threads k)(k_current_threads k c :=
     t_flags_update (\<lambda>f. UNSET_FLAG f THREAD_FLAG_RUNNING) (k_threads k (k_current_threads k c))) else k_threads k)"

lemma requeue_current_rep:
  assumes rep: "sched_rep k rs ss" and key: "0 \<le> run_key k (k_current_threads k c)" and run: "requeue_current c k = Some k'"
  shows "sched_rep k' (if requeues c k then insert_after (run_key k) (k_current_threads k c) rs else rs) ss \<and>
    sched_frame k k' \<and> run_key k' = run_key k \<and> k_tsc_reads k' = k_tsc_reads k \<and>
    k_threads k' = requeued_threads c k"
proof (cases "requeues c k")
  case True
  let ?cur = "k_current_threads k c" and ?f = "t_flags_update (\<lambda>f. UNSET_FLAG f THREAD_FLAG_RUNNING)"
  let ?k1 = "k\<lparr>k_threads := (k_threads k)(?cur := ?f (k_threads k ?cur))\<rparr>"
  have ins: "run_tree_insert ?cur ?k1 = Some k'"
    using run True by (auto simp: requeue_current_def requeues_def upd_thread_def Let_def)
  have k1: "sched_rep ?k1 rs ss"
    by (rule sched_rep_cong [OF rep]) (auto simp: sched_thread_vruntime_def sched_thread_sleeptime_def)
  have key1: "run_key ?k1 = run_key k" by (rule run_key_cong) simp_all
  from run_tree_insert_rep [OF k1 _ ins] key key1
  have i: "sched_rep k' (insert_after (run_key k) ?cur rs) ss" "queues_only ?k1 k'" by simp_all
  have "sched_frame k k'" using queues_only_frame [OF i(2)] by (simp add: sched_frame_def)
  then show ?thesis using i(1) True queues_only_fields [OF i(2)] key1 by (simp add: requeued_threads_def)
next
  case False
  then have "k' = k" using run by (auto simp: requeue_current_def requeues_def Let_def split: if_splits)
  then show ?thesis using False rep by (simp add: requeued_threads_def)
qed

definition runnable :: "kernel \<Rightarrow> ptr \<Rightarrow> bool" where
  "runnable k t \<longleftrightarrow> t_state (k_threads k t) = SCHED_STATE_RUNNING \<and> \<not> FLAG (t_flags (k_threads k t)) THREAD_FLAG_RUNNING"

lemma pick_next_rep:
  assumes rep: "sched_rep k rs ss" and run: "pick_next c k = Some (nxt, k')"
  shows "nxt = (if rs \<noteq> [] \<and> runnable k (hd rs) then hd rs else k_idle_threads k c) \<and>
    sched_rep k' (tl rs) ss \<and> sched_frame k k' \<and> k_threads k' = k_threads k \<and> run_key k' = run_key k"
proof -
  from run_tree_first [OF rep] obtain n where n: "atree_start (k_run_tree k) k = Some n" "n = NULL \<longleftrightarrow> rs = []"
    "rs \<noteq> [] \<Longrightarrow> an_data (k_anodes k n) = hd rs"
    and rm: "\<And>tree k1. rs \<noteq> [] \<Longrightarrow> atree_remove (k_run_tree k) n k = Some (tree, k1) \<Longrightarrow>
       sched_rep (k1\<lparr>k_run_tree := tree\<rparr>) (tl rs) ss \<and> queues_only k (k1\<lparr>k_run_tree := tree\<rparr>)" by auto
  show ?thesis
  proof (cases "rs = []")
    case True
    then show ?thesis using n run rep by (auto simp: pick_next_def)
  next
    case False
    with n run obtain tree k1 where r: "atree_remove (k_run_tree k) n k = Some (tree, k1)"
      and k': "k' = k1\<lparr>k_run_tree := tree\<rparr>" and nx: "nxt = (if runnable k' (hd rs) then hd rs else k_idle_threads k' c)"
      by (auto simp: pick_next_def deref_def get_thread_def runnable_def Let_def elim!: bind_eq_SomeE split: if_splits)
    from rm [OF False r] k' have q: "sched_rep k' (tl rs) ss" "queues_only k k'" by auto
    show ?thesis using q nx False queues_only_fields [OF q(2)] queues_only_frame [OF q(2)] by (auto simp: runnable_def)
  qed
qed

lemma fold_insert_sorted:
  "sorted (map f xs) \<Longrightarrow> sorted (map f (fold (insert_after f) ys xs)) \<and> mset (fold (insert_after f) ys xs) = mset xs + mset ys"
proof (induction ys arbitrary: xs)
  case (Cons y ys)
  have "xs = sort_key f xs" using Cons.prems by (simp add: sorted_sort_id sort_key_id_if_sorted)
  then have "insert_after f y xs = sort_key f (xs @ [y])" by (metis insert_after_sort)
  then have "sorted (map f (insert_after f y xs))" by simp
  from Cons.IH [OF this] show ?case by auto
qed simp

text \<open>
  What \<^verbatim>\<open>sched_jump_to_thread\<close> does to the record of the thread it leaves. That thread may be in the run
  queue by then: the queue is in order for the next pass just when the new virtual runtimes are.
\<close>

definition account :: "ptr \<Rightarrow> u32 \<Rightarrow> u64 \<Rightarrow> kernel \<Rightarrow> kernel" where
  "account cur sp now k = k\<lparr>k_threads := (k_threads k)(cur := (k_threads k cur)\<lparr>t_kernel_stack := sp,
     t_runtime := t_runtime (k_threads k cur) + (now - t_start_timestamp (k_threads k cur)),
     t_flags := UNSET_FLAG (t_flags (k_threads k cur)) THREAD_FLAG_RUNNING\<rparr>)\<rparr>"

lemma account_order:
  assumes "sched_rep k rs ss"
  shows "sched_rep (account cur sp now k) rs ss \<longleftrightarrow> sorted (map (run_key (account cur sp now k)) rs) \<and>
    (\<forall>t \<in> set rs. 0 \<le> run_key (account cur sp now k) t)"
proof
  let ?k = "account cur sp now k"
  assume "sched_rep ?k rs ss"
  then show "sorted (map (run_key ?k) rs) \<and> (\<forall>t \<in> set rs. 0 \<le> run_key ?k t)"
    using sched_rep_sorted [of ?k rs ss] by (auto simp: sched_rep_def atree_rep_def node_data_def run_key_def)
next
  let ?k = "account cur sp now k"
  assume so: "sorted (map (run_key ?k) rs) \<and> (\<forall>t \<in> set rs. 0 \<le> run_key ?k t)"
  from assms obtain ns ms where r: "atree_rep (sched_thread_vruntime k) k (k_run_tree k) ns"
    "atree_rep (sched_thread_sleeptime k) k (k_sleep_tree k) ms" "rs = node_data k ns" "ss = node_data k ms" "set ns \<inter> set ms = {}"
    by (auto simp: sched_rep_def)
  have e: "k_anodes ?k = k_anodes k" "k_mm ?k = k_mm k" "k_run_tree ?k = k_run_tree k" "k_sleep_tree ?k = k_sleep_tree k"
    "sched_thread_sleeptime ?k = sched_thread_sleeptime k"
    by (auto simp: account_def sched_thread_sleeptime_def)
  have m: "map (node_key (sched_thread_vruntime ?k) k) ns = map (run_key ?k) rs"
    by (simp add: r(3) node_data_def run_key_def)
  have "\<forall>a \<in> set ns. 0 \<le> node_key (sched_thread_vruntime ?k) k a"
    using so by (simp add: r(3) node_data_def run_key_def)
  then have "atree_rep (sched_thread_vruntime ?k) k (k_run_tree k) ns"
    using r(1) so unfolding atree_rep_def m by blast
  then show "sched_rep ?k rs ss"
    using r unfolding sched_rep_def e node_data_def atree_rep_state [OF e(1,2)] by blast
qed

lemma sched_switch_stages:
  assumes "sched_switch_thread yield do_switch k = Some kf" and "cur_cpu k = Some c"
  obtains k2 n k3 nxt k4 where "requeue_current c (k\<lparr>k_sched_lock := True\<rparr>) = Some k2"
    and "atree_start (k_sleep_tree k2) k2 = Some n" and "wake_sleepers n k2 = Some k3"
    and "pick_next c k3 = Some (nxt, k4)" and "sched_jump_to_thread yield do_switch nxt (sched_unlock k4) = Some kf"
proof -
  from assms(1) obtain k1 where k1: "sched_spinlock k = Some k1" by (auto simp: sched_switch_thread_def elim!: bind_eq_SomeE)
  then have eq1: "k1 = k\<lparr>k_sched_lock := True\<rparr>"
    by (auto simp: sched_spinlock_def lock_spinlock_def lock_trylock_def elim!: bind_eq_SomeE split: if_splits bool.splits)
  have "cur_cpu k1 = cur_cpu k" unfolding eq1 cur_cpu_def sched_current_cpu_def sched_num_cpus_def by simp
  with assms k1 eq1 show thesis by (auto simp: sched_switch_thread_def elim!: bind_eq_SomeE intro: that)
qed

text \<open>
  C8. A pass of the scheduler that starts with the run queue in the order of the virtual runtimes: the
  queue it chooses from holds the threads of the run queue, the running thread if it is still
  runnable, and the sleepers that are due. The thread it switches to is the first of that queue,
  which has the least virtual runtime of all of them, and it leaves the queue; the others stay. If
  the queue is empty, or its first thread is not runnable, the idle thread of the CPU is next. The
  switch is entered with the scheduler's lock free and the rest of the queue in order. It then adds
  the time just used to the runtime of the thread it leaves, even if that thread is back in the
  queue; the queue is in order for the next pass just when the runtimes are sorted after that.
\<close>

theorem sched_switch_picks_least:
  assumes "sched_rep k rs ss" and "distinct ss" and "\<forall>s \<in> set ss. 0 \<le> run_key k s"
    and "cur_cpu k = Some c" and "0 \<le> run_key k (k_current_threads k c)"
    and "sched_switch_thread yield do_switch k = Some kf"
  shows "\<exists>q nxt k4. sched_jump_to_thread yield do_switch nxt k4 = Some kf \<and> \<not> k_sched_lock k4 \<and>
    k_current_threads k4 = k_current_threads k \<and>
    k_threads k4 = wake_threads (woken k (k_tsc_reads k) ss) (requeued_threads c k) \<and>
    mset q = mset rs + (if requeues c k then {#k_current_threads k c#} else {#}) + mset (woken k (k_tsc_reads k) ss) \<and>
    nxt = (if q \<noteq> [] \<and> runnable k4 (hd q) then hd q else k_idle_threads k c) \<and>
    (\<forall>t \<in> set q. run_key k (hd q) \<le> run_key k t) \<and>
    sched_rep k4 (tl q) (drop (length (woken k (k_tsc_reads k) ss)) ss) \<and>
    (\<forall>sp now k5. k5 = account (k_current_threads k c) sp now k4 \<longrightarrow>
       (sched_rep k5 (tl q) (drop (length (woken k (k_tsc_reads k) ss)) ss) \<longleftrightarrow>
        sorted (map (run_key k5) (tl q)) \<and> (\<forall>t \<in> set (tl q). 0 \<le> run_key k5 t)))"
proof -
  let ?c = "k_current_threads k c" and ?w = "woken k (k_tsc_reads k) ss"
  let ?start = "if requeues c k then insert_after (run_key k) ?c rs else rs"
  let ?q = "fold (insert_after (run_key k)) ?w ?start"
  define k1 where eq1: "k1 = k\<lparr>k_sched_lock := True\<rparr>"
  obtain k2 n k3 nxt k4 where r: "requeue_current c k1 = Some k2"
    "atree_start (k_sleep_tree k2) k2 = Some n" "wake_sleepers n k2 = Some k3" "pick_next c k3 = Some (nxt, k4)"
    "sched_jump_to_thread yield do_switch nxt (sched_unlock k4) = Some kf"
    unfolding eq1 by (rule sched_switch_stages [OF assms(6,4)])
  have rep1: "sched_rep k1 rs ss" by (rule sched_rep_cong [OF assms(1)]) (auto simp: eq1 sched_thread_vruntime_def sched_thread_sleeptime_def)
  have key1: "run_key k1 = run_key k" by (rule run_key_cong) (simp_all add: eq1)
  have rq: "requeues c k1 = requeues c k" "requeued_threads c k1 = requeued_threads c k"
    "k_current_threads k1 = k_current_threads k" "k_tsc_reads k1 = k_tsc_reads k"
    by (simp_all add: eq1 requeues_def requeued_threads_def)
  from requeue_current_rep [OF rep1 _ r(1)] assms(5) have
    2: "sched_rep k2 ?start ss" "run_key k2 = run_key k" "sched_frame k1 k2" "k_tsc_reads k2 = k_tsc_reads k"
    "k_threads k2 = requeued_threads c k"
    unfolding rq key1 by simp_all
  have wk: "woken k2 (k_tsc_reads k2) ss = ?w" using 2(3,4,5) by (subst woken_cong [of k2 k]) (auto simp: sched_frame_def eq1 requeued_threads_def)
  have "wake_list ss k2 = Some k3" using wake_sleepers_list [OF 2(1) assms(2)] assms(3) 2(2) r(2,3) by simp
  from wake_list_rep [OF 2(1) assms(2) _ this] assms(3) 2(2) wk have
    3: "sched_rep k3 ?q (drop (length ?w) ss)" "sched_frame k2 k3" "k_threads k3 = wake_threads ?w (requeued_threads c k)"
    by (simp_all add: Let_def 2(5))
  from pick_next_rep [OF 3(1) r(4)] have
    4: "nxt = (if ?q \<noteq> [] \<and> runnable k3 (hd ?q) then hd ?q else k_idle_threads k3 c)" "sched_rep k4 (tl ?q) (drop (length ?w) ss)"
    "sched_frame k3 k4" "k_threads k4 = k_threads k3" by auto
  have fr: "sched_frame k1 k4" using sched_frame_trans [OF sched_frame_trans [OF 2(3) 3(2)] 4(3)] .
  have "sorted (map (run_key k) rs)" using sched_rep_sorted [OF assms(1)] by blast
  then have so: "sorted (map (run_key k) ?start)"
    using fold_insert_sorted [of "run_key k" rs "[?c]"] by simp
  note q = fold_insert_sorted [OF so, of ?w]
  have "run_key k (hd ?q) \<le> run_key k t" if "t \<in> set ?q" for t using q that by (cases ?q) auto
  moreover have "sched_rep (sched_unlock k4) (tl ?q) (drop (length ?w) ss)"
    by (rule sched_rep_cong [OF 4(2)]) (auto simp: sched_unlock_def sched_thread_vruntime_def sched_thread_sleeptime_def)
  moreover have "runnable (sched_unlock k4) (hd ?q) = runnable k3 (hd ?q)" using 4(4) by (simp add: runnable_def sched_unlock_def)
  moreover have "k_idle_threads k3 c = k_idle_threads k c" using 2(3) 3(2) by (simp add: sched_frame_def eq1)
  moreover have "k_threads (sched_unlock k4) = wake_threads ?w (requeued_threads c k)" using 3(3) 4(4) by (simp add: sched_unlock_def)
  moreover have "k_current_threads (sched_unlock k4) = k_current_threads k" "\<not> k_sched_lock (sched_unlock k4)"
    using fr by (simp_all add: sched_frame_def eq1 sched_unlock_def lock_unlock_def)
  moreover have "mset ?q = mset rs + (if requeues c k then {#?c#} else {#}) + mset ?w" using q by simp
  ultimately show ?thesis using 4(1) r(5) account_order [of "sched_unlock k4" "tl ?q"]
    by (intro exI [of _ ?q] exI [of _ nxt] exI [of _ "sched_unlock k4"]) simp
qed


text \<open>A thread that has run for a while, and one that sleeps.\<close>

definition busy_kernel :: kernel where
  "busy_kernel = boot_kernel\<lparr>k_threads := (k_threads boot_kernel)
     (0x5000 := (k_threads boot_kernel 0x5000)\<lparr>t_runtime := 4096\<rparr>,
      0x5100 := (k_threads boot_kernel 0x5100)\<lparr>t_state := SCHED_STATE_SLEEPING, t_sleep_target := 500\<rparr>),
     k_tsc_reads := 7\<rparr>"

definition sleeping_kernel :: kernel where
  "sleeping_kernel = the (sleep_tree_insert 0x5100 busy_kernel)"

lemma empty_queues: "sched_rep boot_kernel [] []"
proof -
  have "atree_rep g boot_kernel \<lparr>at_root = sentinel, at_nodes = 0\<rparr> []" for g
    unfolding atree_rep_def by (intro conjI exI [of _ Leaf]) (simp_all add: at_place_def boot_kernel_def boot_slab sentinel_ok_def)
  then show ?thesis by (simp add: sched_rep_def node_data_def) (simp add: boot_kernel_def)
qed


lemma busy_queues: "sched_rep busy_kernel [] []"
  by (rule sched_rep_cong [OF empty_queues]) (auto simp: busy_kernel_def)

lemma sleeping_insert: "sleep_tree_insert 0x5100 busy_kernel = Some sleeping_kernel"
proof -
  have "sleep_tree_insert 0x5100 busy_kernel \<noteq> None" by code_simp
  then show ?thesis by (auto simp: sleeping_kernel_def)
qed

lemma sleeping_queues: "sched_rep sleeping_kernel [] [0x5100]" "queues_only busy_kernel sleeping_kernel"
proof -
  have "sleep_key busy_kernel 0x5100 = 500" by code_simp
  with sleep_tree_insert_rep [OF busy_queues _ sleeping_insert]
  show "sched_rep sleeping_kernel [] [0x5100]" "queues_only busy_kernel sleeping_kernel" by (simp_all add: insert_after_def)
qed

lemma sleeping_fields:
  "k_threads sleeping_kernel = k_threads busy_kernel" "k_current_threads sleeping_kernel 0 = 0x5000"
  "k_idle_threads sleeping_kernel 0 = 0x5f00" "run_key sleeping_kernel 0x5100 = 0" "run_key sleeping_kernel 0x5000 = 2"
  "k_tsc_reads sleeping_kernel = 7" "k_tsc sleeping_kernel = of_nat" "k_cpu_frequency sleeping_kernel = 1000000"
  "cur_cpu sleeping_kernel = Some 0"
proof -
  note q = queues_only_fields [OF sleeping_queues(2)] and fr = queues_only_frame [OF sleeping_queues(2)]
  have "cur_cpu busy_kernel = Some 0" "run_key busy_kernel 0x5100 = 0" "run_key busy_kernel 0x5000 = 2" by code_simp+
  moreover have "cur_cpu sleeping_kernel = cur_cpu busy_kernel"
    using fr unfolding cur_cpu_def sched_current_cpu_def sched_num_cpus_def sched_frame_def by simp
  ultimately show "cur_cpu sleeping_kernel = Some 0" "run_key sleeping_kernel 0x5100 = 0" "run_key sleeping_kernel 0x5000 = 2"
    using q by simp_all
qed (use queues_only_fields [OF sleeping_queues(2)] in \<open>simp_all add: busy_kernel_def boot_kernel_def\<close>)

text \<open>C8: the sleeper is due and has run less, so it is switched to and the running thread queued.\<close>

theorem sched_switch_picks_least_witness:
  "\<exists>k4 kf. sched_switch_thread Some (\<lambda>_ _. Some) sleeping_kernel = Some kf \<and>
    sched_jump_to_thread Some (\<lambda>_ _. Some) 0x5100 k4 = Some kf \<and> sched_rep k4 [0x5000] []"
proof -
  have "sched_switch_thread Some (\<lambda>_ _. Some) sleeping_kernel \<noteq> None" by code_simp
  then obtain kf where kf: "sched_switch_thread Some (\<lambda>_ _. Some) sleeping_kernel = Some kf" by blast
  have th0: "k_threads sleeping_kernel 0x5100 = (k_threads boot_kernel 0x5100)\<lparr>t_state := SCHED_STATE_SLEEPING, t_sleep_target := 500\<rparr>"
    "t_state (k_threads sleeping_kernel 0x5000) = SCHED_STATE_RUNNING"
    by (simp_all add: sleeping_fields(1) busy_kernel_def) (simp add: boot_kernel_def zero_thread_def c4_enum)
  have "t_sleep_target (k_threads sleeping_kernel 0x5100) \<le> clock_ns sleeping_kernel 7"
    unfolding clock_ns_def sleeping_fields(6-8) using th0(1) by simp
  then have wk: "woken sleeping_kernel 7 [0x5100] = [0x5100]" by simp
  have rq: "requeues 0 sleeping_kernel = True" using th0 by (simp add: requeues_def sleeping_fields)
  note e = sleeping_fields(9,4,5,2) rq sleeping_fields(6) wk
  have d: "\<forall>s \<in> set [0x5100]. 0 \<le> run_key sleeping_kernel s" "0 \<le> run_key sleeping_kernel (k_current_threads sleeping_kernel 0)"
    using e by simp_all
  have th: "t_state (t 0x5100) = SCHED_STATE_RUNNING \<and> \<not> FLAG (t_flags (t 0x5100)) THREAD_FLAG_RUNNING"
    if "t = wake_threads [0x5100] (requeued_threads 0 sleeping_kernel)" for t 
    using that th0(1) by (simp add: wake_threads_def requeued_threads_def sleeping_fields awake_def boot_kernel_def zero_thread_def c4_enum FLAG_def)
  from sched_switch_picks_least [OF sleeping_queues(1) _ d(1) e(1) d(2) kf, unfolded e] obtain q nxt k4 where
    r: "sched_jump_to_thread Some (\<lambda>_ _. Some) nxt k4 = Some kf" "mset q = {#0x5000, 0x5100#}"
     "k_threads k4 = wake_threads [0x5100] (requeued_threads 0 sleeping_kernel)"
     "nxt = (if q \<noteq> [] \<and> runnable k4 (hd q) then hd q else k_idle_threads sleeping_kernel 0)"
     "\<forall>t \<in> set q. run_key sleeping_kernel (hd q) \<le> run_key sleeping_kernel t" "sched_rep k4 (tl q) []"
    by auto
  have "runnable k4 0x5100" using th [OF r(3)] by (simp add: runnable_def)
  have "set q = {0x5000, 0x5100}" "length q = 2"
    using arg_cong [OF r(2), of set_mset] arg_cong [OF r(2), of size] by auto
  moreover from this(2) obtain a b where "q = [a, b]" by (auto simp: length_Suc_conv numeral_2_eq_2)
  ultimately have "q = [0x5100, 0x5000]" using r(5) e(2,3) by (auto simp: doubleton_eq_iff)
  then show ?thesis using r \<open>runnable k4 0x5100\<close> kf by auto
qed

text \<open>
  C23. The wake-up loop of \<^verbatim>\<open>sched_switch_thread\<close> ends: started at the first sleeper it does exactly the
  passes of a recursion over the list of sleepers, one per thread at most. With the due sleepers
  \<open>ws\<close> it leaves the others asleep, and every thread of \<open>ws\<close> runnable on the run queue, behind the threads
  with at most its virtual runtime.
\<close>

theorem wake_sleepers_terminates:
  assumes "sched_rep k rs ss" and "distinct ss" and "\<forall>s \<in> set ss. 0 \<le> run_key k s"
  shows "do { n \<leftarrow> atree_start (k_sleep_tree k) k; wake_sleepers n k } = wake_list ss k \<and>
    (\<forall>k' ws. wake_list ss k = Some k' \<and> ws = woken k (k_tsc_reads k) ss \<longrightarrow>
      sched_rep k' (fold (insert_after (run_key k)) ws rs) (drop (length ws) ss) \<and>
      k_threads k' = wake_threads ws (k_threads k))"
  using wake_sleepers_list [OF assms] wake_list_rep [OF assms] by (simp add: Let_def)

text \<open>C23: the sleeper of the state above is woken.\<close>

theorem wake_sleepers_terminates_witness:
  "\<exists>n k'. atree_start (k_sleep_tree sleeping_kernel) sleeping_kernel = Some n \<and> wake_sleepers n sleeping_kernel = Some k' \<and>
    sched_rep k' [0x5100] []"
proof -
  have e: "\<forall>s \<in> set [0x5100]. 0 \<le> run_key sleeping_kernel s" "woken sleeping_kernel (k_tsc_reads sleeping_kernel) [0x5100] = [0x5100]"
    "wake_list [0x5100] sleeping_kernel \<noteq> None" by code_simp+
  then obtain k' where k': "wake_list [0x5100] sleeping_kernel = Some k'" by blast
  from wake_sleepers_terminates [OF sleeping_queues(1) _ e(1), unfolded e(2) k'] obtain n where
    "atree_start (k_sleep_tree sleeping_kernel) sleeping_kernel = Some n" "wake_sleepers n sleeping_kernel = Some k'"
    "sched_rep k' [0x5100] []" by (auto simp: insert_after_def elim!: bind_eq_SomeE)
  then show ?thesis by blast
qed

text \<open>
  \<^verbatim>\<open>sched_thread_sleep\<close> puts the running thread to sleep: when it gives up the CPU the thread is
  SLEEPING, its wake-up time is the given number of microseconds after now, and it is on the sleep
  queue behind the threads that wake up no later; a wait of 0 returns at once.
\<close>

theorem sched_thread_sleep_queues:
  assumes "sched_rep k rs ss" and "sched_current_thread k = Some cur" and "cur \<notin> set ss" and "\<not> k_sched_lock k"
    and "0 \<le> sint (clock_ns k (k_tsc_reads k) + ucast useconds * 1000)"
    and "sched_thread_sleep yield useconds k = Some kf"
  shows "if useconds = 0 then kf = k
    else \<exists>k1. yield k1 = Some kf \<and> \<not> k_sched_lock k1 \<and>
      k_threads k1 = (k_threads k)(cur := (k_threads k cur)\<lparr>t_state := SCHED_STATE_SLEEPING,
        t_sleep_target := clock_ns k (k_tsc_reads k) + ucast useconds * 1000\<rparr>) \<and>
      sched_rep k1 rs (insert_after (sleep_key k1) cur ss)"
proof (cases "useconds = 0")
  case True
  then show ?thesis using assms(2,6) by (simp add: sched_thread_sleep_def)
next
  case False
  let ?now = "clock_ns k (k_tsc_reads k)"
  let ?t = "(k_threads k cur)\<lparr>t_state := SCHED_STATE_SLEEPING, t_sleep_target := ?now + ucast useconds * 1000\<rparr>"
  let ?k4 = "k\<lparr>k_sched_lock := True, k_threads := (k_threads k)(cur := ?t), k_tsc_reads := Suc (k_tsc_reads k)\<rparr>"
  from assms(2,4,6) False obtain k3 now where nz: "cur \<noteq> NULL"
    and t: "timer_get_timestamp_ns (k\<lparr>k_sched_lock := True, k_threads := (k_threads k)(cur := (k_threads k cur)\<lparr>t_state := SCHED_STATE_SLEEPING\<rparr>)\<rparr>) = Some (now, k3)"
    and run: "do { k4 \<leftarrow> upd_thread cur (t_sleep_target_update (\<lambda>_. now + ucast useconds * 1000)) k3;
       k5 \<leftarrow> sleep_tree_insert cur k4; yield (sched_unlock k5) } = Some kf"
    by (auto simp: sched_thread_sleep_def sched_spinlock_def lock_spinlock_def lock_trylock_def upd_thread_def
        elim!: bind_eq_SomeE split: if_splits)
  have n: "now = ?now" using timer_cases [OF t] by (simp add: clock_ns_def)
  have "upd_thread cur (t_sleep_target_update (\<lambda>_. now + ucast useconds * 1000)) k3 = Some ?k4"
    using timer_cases [OF t] nz n by (simp add: upd_thread_def)
  with run obtain k5 where k5: "sleep_tree_insert cur ?k4 = Some k5" "yield (sched_unlock k5) = Some kf"
    by (auto elim!: bind_eq_SomeE)
  have rep4: "sched_rep ?k4 rs ss"
    by (rule sched_rep_cong [OF assms(1)]) (use assms(3) in \<open>auto simp: sched_thread_vruntime_def sched_thread_sleeptime_def\<close>)
  have "0 \<le> sleep_key ?k4 cur" using assms(5) by (simp add: sleep_key_def sched_thread_sleeptime_def)
  from sleep_tree_insert_rep [OF rep4 this k5(1)]
  have i: "sched_rep k5 rs (insert_after (sleep_key ?k4) cur ss)" "queues_only ?k4 k5" by auto
  note q = queues_only_fields [OF i(2)]
  have u: "sleep_key (sched_unlock k5) = sleep_key ?k4"
    using q(1) by (simp add: fun_eq_iff sched_unlock_def sleep_key_def sched_thread_sleeptime_def)
  have "sched_rep (sched_unlock k5) rs (insert_after (sleep_key ?k4) cur ss)"
    by (rule sched_rep_cong [OF i(1)]) (auto simp: sched_unlock_def sched_thread_vruntime_def sched_thread_sleeptime_def)
  then show ?thesis using False k5(2) q(1) u
    by (intro if_not_P [THEN iffD2, OF False] exI [of _ "sched_unlock k5"]) (simp add: sched_unlock_def lock_unlock_def)
qed

text \<open>An instance: the running thread sleeps for 3 microseconds.\<close>

theorem sched_thread_sleep_queues_witness:
  "\<exists>k1. sched_thread_sleep Some 3 busy_kernel = Some k1 \<and> t_state (k_threads k1 0x5000) = SCHED_STATE_SLEEPING \<and>
    t_sleep_target (k_threads k1 0x5000) = 10000 \<and> sched_rep k1 [] [0x5000]"
proof -
  have "sched_thread_sleep Some 3 busy_kernel \<noteq> None" by code_simp
  then obtain kf where kf: "sched_thread_sleep Some 3 busy_kernel = Some kf" by blast
  have e: "sched_current_thread busy_kernel = Some 0x5000" "\<not> k_sched_lock busy_kernel" "k_tsc_reads busy_kernel = 7"
    "clock_ns busy_kernel 7 + ucast (3 :: u32) * 1000 = (10000 :: u64)" "0 \<le> sint (10000 :: u64)" by code_simp+
  from sched_thread_sleep_queues [OF busy_queues e(1) _ e(2) _ kf, unfolded e(3,4)] e(5)
  show ?thesis using kf by (auto simp: insert_after_def)
qed

text \<open>
  C39. \<^verbatim>\<open>sched_thread_stop\<close> does not take the thread off the run queue: it only marks it STOPPED, so a later
  pass that finds it first switches to the idle thread. \<^verbatim>\<open>sched_thread_continue\<close> then queues the thread a
  second time.
\<close>

theorem sched_stop_continue_duplicates:
  assumes "sched_rep k rs ss" and "t \<in> set rs" and "t_state (k_threads k t) = SCHED_STATE_RUNNING"
    and "0 \<le> run_key k t" and "\<not> k_sched_lock k"
    and "sched_thread_stop t k = Some k1" and "sched_thread_continue t k1 = Some k2"
  shows "sched_rep k1 rs ss \<and> \<not> runnable k1 t \<and>
    (\<exists>rs2. sched_rep k2 rs2 ss \<and> mset rs2 = add_mset t (mset rs) \<and> t_state (k_threads k2 t) = SCHED_STATE_RUNNING)"
proof -
  from assms(3,6) have nz: "t \<noteq> NULL" and k1: "k1 = k\<lparr>k_threads := (k_threads k)(t := (k_threads k t)\<lparr>t_state := SCHED_STATE_STOPPED\<rparr>)\<rparr>"
    by (auto simp: sched_thread_stop_def get_thread_def upd_thread_def elim!: bind_eq_SomeE split: if_splits)
  have rep1: "sched_rep k1 rs ss"
    by (rule sched_rep_cong [OF assms(1)]) (auto simp: k1 sched_thread_vruntime_def sched_thread_sleeptime_def)
  let ?u = "(k_threads k t)\<lparr>t_state := SCHED_STATE_RUNNING, t_flags := UNSET_FLAG (t_flags (k_threads k t)) THREAD_FLAG_FAULTED\<rparr>"
  let ?k = "k1\<lparr>k_sched_lock := True, k_threads := (k_threads k1)(t := ?u)\<rparr>"
  from assms(5,7) nz obtain k3 where k3: "run_tree_insert t ?k = Some k3" and k2: "k2 = sched_unlock k3"
    by (auto simp: sched_thread_continue_def sched_spinlock_def lock_spinlock_def lock_trylock_def get_thread_def upd_thread_def k1
        elim!: bind_eq_SomeE)
  have rep: "sched_rep ?k rs ss"
    by (rule sched_rep_cong [OF rep1]) (auto simp: k1 sched_thread_vruntime_def sched_thread_sleeptime_def)
  have "run_key ?k = run_key k" by (rule run_key_cong) (simp_all add: k1)
  from run_tree_insert_rep [OF rep _ k3] this assms(4)
  have i: "sched_rep k3 (insert_after (run_key k) t rs) ss" "queues_only ?k k3" by simp_all
  have "sched_rep k2 (insert_after (run_key k) t rs) ss"
    by (rule sched_rep_cong [OF i(1)]) (auto simp: k2 sched_unlock_def sched_thread_vruntime_def sched_thread_sleeptime_def)
  moreover have "t_state (k_threads k2 t) = SCHED_STATE_RUNNING"
    using queues_only_fields(1) [OF i(2)] by (simp add: k2 sched_unlock_def)
  moreover have "\<not> runnable k1 t" by (simp add: runnable_def k1 c4_enum)
  ultimately show ?thesis using rep1 by (metis mset_insert_after)
qed

definition queued_kernel :: kernel where
  "queued_kernel = the (run_tree_insert 0x5000 boot_kernel)"

text \<open>C39: a queued thread is stopped and continued.\<close>

theorem sched_stop_continue_duplicates_witness:
  "\<exists>k1 k2. sched_thread_stop 0x5000 queued_kernel = Some k1 \<and> sched_thread_continue 0x5000 k1 = Some k2 \<and>
    sched_rep k2 [0x5000, 0x5000] []"
proof -
  have "run_tree_insert 0x5000 boot_kernel \<noteq> None" by code_simp
  then have run: "run_tree_insert 0x5000 boot_kernel = Some queued_kernel" by (auto simp: queued_kernel_def)
  have "0 \<le> run_key boot_kernel 0x5000" by code_simp
  with run_tree_insert_rep [OF empty_queues _ run] have rep: "sched_rep queued_kernel [0x5000] []" by (simp add: insert_after_def)
  have "do { k1 \<leftarrow> sched_thread_stop 0x5000 queued_kernel; sched_thread_continue 0x5000 k1 } \<noteq> None" by code_simp
  then obtain k1 k2 where k: "sched_thread_stop 0x5000 queued_kernel = Some k1" "sched_thread_continue 0x5000 k1 = Some k2"
    by (auto elim!: bind_eq_SomeE)
  have e: "0 \<le> run_key queued_kernel 0x5000" "\<not> k_sched_lock queued_kernel"
    "t_state (k_threads queued_kernel 0x5000) = SCHED_STATE_RUNNING" by code_simp+
  from sched_stop_continue_duplicates [OF rep _ e(3,1,2) k] obtain rs2 where
    r: "sched_rep k2 rs2 []" "mset rs2 = {#0x5000, 0x5000#}" by auto
  have "length rs2 = 2" "set rs2 = {0x5000}" using arg_cong [OF r(2), of size] arg_cong [OF r(2), of set_mset] by simp_all
  then have "rs2 = [0x5000, 0x5000]" using replicate_length_same [of rs2 "0x5000"] by (simp add: numeral_2_eq_2)
  then show ?thesis using k r(1) by blast
qed

end
