(* ===== verification/C4_Message.thy ===== *)
theory C4_Message
  imports C4_Scheduler
begin

text \<open>
  Inter-process communication (\<^verbatim>\<open>src/message.c\<close>): synchronous endpoints, where a sender hands its
  message to a waiting receiver or waits for one, and asynchronous endpoints, which keep a bounded
  list of messages; and the two users of it inside the kernel, interrupt notification
  (\<^verbatim>\<open>src/interrupts.c\<close>) and page-fault messages (\<^verbatim>\<open>src/paging.c\<close>).

  \<open>yield\<close> stands for \<^verbatim>\<open>sched_thread_yield\<close>. A \<^verbatim>\<open>message_t *\<close> argument points either to a buffer of
  the calling thread, a cell of \<open>k_usermsg\<close>, or to a local variable of \<^verbatim>\<open>message_send_capability\<close>,
  \<^verbatim>\<open>interrupt_callback\<close> or \<^verbatim>\<open>page_fault_message\<close>, which no other thread can reach. The \<^verbatim>\<open>goto retry\<close> loops of the
  blocking receives are partial functions into \<open>option\<close>.
\<close>

datatype msg_arg = Buffer ptr | Local message_t

fun read_msg :: "msg_arg \<Rightarrow> kernel \<Rightarrow> message_t" where
  "read_msg (Buffer p) k = k_usermsg k p"
| "read_msg (Local m) k = m"

fun write_msg :: "msg_arg \<Rightarrow> message_t \<Rightarrow> kernel \<Rightarrow> msg_arg \<times> kernel" where
  "write_msg (Buffer p) m k = (Buffer p, k\<lparr>k_usermsg := (k_usermsg k)(p := m)\<rparr>)"
| "write_msg (Local _) m k = (Local m, k)"

definition is_kernel_msg :: "message_t \<Rightarrow> bool" where
  "is_kernel_msg msg \<longleftrightarrow> m_type msg < MESSAGE_TYPE_END_RESERVED"

definition set_sender_state :: "ptr \<Rightarrow> kernel \<Rightarrow> kernel option" where
  "set_sender_state sender k = do {
     t \<leftarrow> get_thread sender k;
     if FLAG (t_flags t) THREAD_FLAG_FAULTED
     then upd_thread sender (t_state_update (\<lambda>_. SCHED_STATE_STOPPED)) k
     else upd_thread sender (t_state_update (\<lambda>_. SCHED_STATE_RUNNING)) k
   }"

definition message_thread_can_recieve :: "ptr \<Rightarrow> kernel \<Rightarrow> bool option" where
  "message_thread_can_recieve target k = do {
     t \<leftarrow> get_thread target k;
     Some (t_state t = SCHED_STATE_WAITING \<and> FLAG (t_flags t) THREAD_FLAG_PENDING_MSG = False)
   }"

section \<open>Kernel messages\<close>

text \<open>Which messages of kernel types are passed on to the receiver.\<close>

definition kernel_msg_handle_send :: "message_t \<Rightarrow> bool" where
  "kernel_msg_handle_send msg =
     (if m_type msg = MESSAGE_TYPE_DEBUG_PRINT then False
      else if m_type msg = MESSAGE_TYPE_GRANT_OBJECT then True
      else if m_type msg = MESSAGE_TYPE_PAGE_FAULT then True
      else False)"

text \<open>
  The receiving side: a granted capability is put into the capability space of the current
  thread, and the message carries its slot in \<^verbatim>\<open>data[5]\<close> instead of the object's address.
\<close>

definition kernel_msg_handle_recieve :: "message_t \<Rightarrow> kernel \<Rightarrow> (bool \<times> message_t \<times> kernel) option" where
  "kernel_msg_handle_recieve msg k =
     (if m_type msg = MESSAGE_TYPE_GRANT_OBJECT
      then do {
        cur \<leftarrow> sched_current_thread k;
        let msg1 = msg\<lparr>m_data5 := 0\<rparr>;
        t \<leftarrow> get_thread cur k;
        if t_cap_space t = NULL then Some (False, msg1, k)
        else do {
          let entry = \<lparr>ce_type = m_data0 msg1, ce_permissions = m_data1 msg1, ce_object = m_data2 msg1\<rparr>;
          (obj, k1) \<leftarrow> cap_space_insert (t_cap_space t) entry k;
          Some (True, msg1\<lparr>m_data5 := obj, m_data2 := 0\<rparr>, k1)
        }
      }
      else Some (True, msg, k))"

section \<open>Synchronous endpoints\<close>

definition pop_sender :: "ptr \<Rightarrow> kernel \<Rightarrow> (ptr \<times> kernel) option" where
  "pop_sender queue k = do {
     q \<leftarrow> get_msgq queue k;
     (t, s, k1) \<leftarrow> thread_queue_pop_front (mq_senders q) k;
     k2 \<leftarrow> set_msgq queue (q\<lparr>mq_senders := s\<rparr>) k1;
     Some (t, k2)
   }"

definition pop_reciever :: "ptr \<Rightarrow> kernel \<Rightarrow> (ptr \<times> kernel) option" where
  "pop_reciever queue k = do {
     q \<leftarrow> get_msgq queue k;
     (t, r, k1) \<leftarrow> thread_queue_pop_front (mq_recievers q) k;
     k2 \<leftarrow> set_msgq queue (q\<lparr>mq_recievers := r\<rparr>) k1;
     Some (t, k2)
   }"

definition push_sender :: "ptr \<Rightarrow> ptr \<Rightarrow> kernel \<Rightarrow> kernel option" where
  "push_sender queue t k = do {
     q \<leftarrow> get_msgq queue k;
     (s, k1) \<leftarrow> thread_queue_push_back (mq_senders q) t k;
     set_msgq queue (q\<lparr>mq_senders := s\<rparr>) k1
   }"

definition push_reciever :: "ptr \<Rightarrow> ptr \<Rightarrow> kernel \<Rightarrow> kernel option" where
  "push_reciever queue t k = do {
     q \<leftarrow> get_msgq queue k;
     (r, k1) \<leftarrow> thread_queue_push_back (mq_recievers q) t k;
     set_msgq queue (q\<lparr>mq_recievers := r\<rparr>) k1
   }"

text \<open>The end of \<^verbatim>\<open>message_recieve\<close>, once \<^verbatim>\<open>cur->message\<close> holds the message.\<close>

definition finish_recieve :: "yield \<Rightarrow> ptr \<Rightarrow> ptr \<Rightarrow> ptr \<Rightarrow> kernel \<Rightarrow> kernel option" where
  "finish_recieve yield queue cur buffer k = do {
     t \<leftarrow> get_thread cur k;
     k1 \<leftarrow> (if is_kernel_msg (t_message t)
            then do {
              (_, msg, k') \<leftarrow> kernel_msg_handle_recieve (t_message t) k;
              upd_thread cur (t_message_update (\<lambda>_. msg)) k'
            }
            else Some k);
     k2 \<leftarrow> upd_thread cur (\<lambda>t. t\<lparr>t_state := SCHED_STATE_RUNNING,
            t_flags := UNSET_FLAG (t_flags t) THREAD_FLAG_PENDING_MSG\<rparr>) k1;
     t2 \<leftarrow> get_thread cur k2;
     kobject_unlock yield queue (k2\<lparr>k_usermsg := (k_usermsg k2)(buffer := t_message t2)\<rparr>)
   }"

text \<open>One round of the loop of \<^verbatim>\<open>message_recieve\<close>: done, or blocked and to be retried.\<close>

datatype 'a round = Done 'a | Retry kernel

definition recieve_round :: "yield \<Rightarrow> ptr \<Rightarrow> ptr \<Rightarrow> ptr \<Rightarrow> kernel \<Rightarrow> kernel round option" where
  "recieve_round yield queue cur buffer k = do {
     k1 \<leftarrow> kobject_lock yield queue k;
     t \<leftarrow> get_thread cur k1;
     if \<not> FLAG (t_flags t) THREAD_FLAG_PENDING_MSG
     then do {
       (sender, k2) \<leftarrow> pop_sender queue k1;
       if sender \<noteq> NULL
       then do {
         k3 \<leftarrow> kobject_lock yield sender k2;
         s \<leftarrow> get_thread sender k3;
         k4 \<leftarrow> upd_thread cur (t_message_update (\<lambda>_. t_message s)) k3;
         k5 \<leftarrow> set_sender_state sender k4;
         k6 \<leftarrow> kobject_unlock yield sender k5;
         k7 \<leftarrow> sched_add_thread yield sender k6;
         k8 \<leftarrow> finish_recieve yield queue cur buffer k7;
         Some (Done k8)
       }
       else do {
         k3 \<leftarrow> upd_thread cur (t_state_update (\<lambda>_. SCHED_STATE_WAITING)) k2;
         k4 \<leftarrow> push_reciever queue cur k3;
         k5 \<leftarrow> kobject_unlock yield queue k4;
         k6 \<leftarrow> yield k5;
         Some (Retry k6)
       }
     }
     else do {
       k8 \<leftarrow> finish_recieve yield queue cur buffer k1;
       Some (Done k8)
     }
   }"

partial_function (option) recieve_loop :: "yield \<Rightarrow> ptr \<Rightarrow> ptr \<Rightarrow> ptr \<Rightarrow> kernel \<Rightarrow> kernel option" where [code]:
  "recieve_loop yield queue cur buffer k = do {
     r \<leftarrow> recieve_round yield queue cur buffer k;
     case r of
       Done k1 \<Rightarrow> Some k1
     | Retry k1 \<Rightarrow> recieve_loop yield queue cur buffer k1
   }"

definition message_recieve :: "yield \<Rightarrow> ptr \<Rightarrow> ptr \<Rightarrow> kernel \<Rightarrow> kernel option" where
  "message_recieve yield queue buffer k = do {
     cur \<leftarrow> sched_current_thread k;
     recieve_loop yield queue cur buffer k
   }"

text \<open>\<^verbatim>\<open>message_try_send\<close> returns whether a receiver was there.\<close>

definition message_try_send :: "yield \<Rightarrow> ptr \<Rightarrow> msg_arg \<Rightarrow> kernel \<Rightarrow> (bool \<times> msg_arg \<times> kernel) option" where
  "message_try_send yield queue msg k = do {
     cur \<leftarrow> sched_current_thread k;
     (thread, k1) \<leftarrow> pop_reciever queue k;
     if thread = NULL then Some (False, msg, k1)
     else do {
       k2 \<leftarrow> kobject_lock yield thread k1;
       if is_kernel_msg (read_msg msg k2) \<and> \<not> kernel_msg_handle_send (read_msg msg k2)
       then do {
         k3 \<leftarrow> kobject_unlock yield thread k2;
         Some (True, msg, k3)
       }
       else do {
         c \<leftarrow> get_thread cur k2;
         let (msg1, k3) = write_msg msg ((read_msg msg k2)\<lparr>m_sender := t_id c\<rparr>) k2;
         k4 \<leftarrow> upd_thread thread (\<lambda>t. t\<lparr>t_flags := SET_FLAG (t_flags t) THREAD_FLAG_PENDING_MSG,
                t_state := SCHED_STATE_RUNNING, t_message := read_msg msg1 k3\<rparr>) k3;
         k5 \<leftarrow> kobject_unlock yield thread k4;
         k6 \<leftarrow> sched_add_thread yield thread k5;
         Some (True, msg1, k6)
       }
     }
   }"

definition message_send :: "yield \<Rightarrow> ptr \<Rightarrow> msg_arg \<Rightarrow> kernel \<Rightarrow> kernel option" where
  "message_send yield queue msg k = do {
     cur \<leftarrow> sched_current_thread k;
     k1 \<leftarrow> kobject_lock yield queue k;
     (sent, msg1, k2) \<leftarrow> message_try_send yield queue msg k1;
     if \<not> sent
     then do {
       k3 \<leftarrow> upd_thread cur (\<lambda>t. t\<lparr>t_message := read_msg msg1 k2, t_state := SCHED_STATE_SENDING\<rparr>) k2;
       k4 \<leftarrow> push_sender queue cur k3;
       k5 \<leftarrow> kobject_unlock yield queue k4;
       yield k5
     }
     else do {
       k3 \<leftarrow> set_sender_state cur k2;
       kobject_unlock yield queue k3
     }
   }"

definition message_send_capability :: "yield \<Rightarrow> ptr \<Rightarrow> cap_entry_t \<Rightarrow> kernel \<Rightarrow> kernel option" where
  "message_send_capability yield queue cap k =
     message_send yield queue
       (Local (zero_message\<lparr>m_type := MESSAGE_TYPE_GRANT_OBJECT, m_data0 := ce_type cap,
          m_data1 := ce_permissions cap, m_data2 := ce_object cap\<rparr>)) k"

definition sizeof_msg_queue_t :: u32 where "sizeof_msg_queue_t = 52"

text \<open>\<^verbatim>\<open>message_queue_create\<close> writes the two queues only: the kobject keeps what the memory held.\<close>

definition message_queue_create :: "kernel \<Rightarrow> (ptr \<times> kernel) option" where
  "message_queue_create k = do {
     let k1 = (if \<not> k_msg_queue_init k
               then (k_slab_init message_queue_slab sizeof_msg_queue_t k)\<lparr>k_msg_queue_init := True\<rparr>
               else k);
     (ret, k2) \<leftarrow> k_slab_alloc message_queue_slab k1;
     k3 \<leftarrow> set_msgq ret \<lparr>mq_recievers = thread_queue_init, mq_senders = thread_queue_init\<rparr> k2;
     Some (ret, k3)
   }"

definition message_queue_free :: "ptr \<Rightarrow> kernel \<Rightarrow> kernel" where
  "message_queue_free queue k = k"

section \<open>Asynchronous endpoints\<close>

definition sizeof_message_node_t :: u32 where "sizeof_message_node_t = 36"

definition message_queue_async_insert :: "ptr \<Rightarrow> ptr \<Rightarrow> kernel \<Rightarrow> kernel option" where
  "message_queue_async_insert queue node k = do {
     q \<leftarrow> get_msgaq queue k;
     (q1, k1) \<leftarrow>
       (if maq_first q \<noteq> NULL
        then do {
          l \<leftarrow> get_msgnode (maq_last q) k;
          k' \<leftarrow> set_msgnode (maq_last q) (l\<lparr>mn_next := node\<rparr>) k;
          Some (q\<lparr>maq_last := node\<rparr>, k')
        }
        else Some (q\<lparr>maq_first := node, maq_last := node\<rparr>, k));
     k2 \<leftarrow> set_msgaq queue (q1\<lparr>maq_elements := maq_elements q1 + 1\<rparr>) k1;
     n \<leftarrow> get_msgnode node k2;
     set_msgnode node (n\<lparr>mn_next := NULL\<rparr>) k2
   }"

definition message_queue_async_remove :: "ptr \<Rightarrow> kernel \<Rightarrow> (ptr \<times> kernel) option" where
  "message_queue_async_remove queue k = do {
     q \<leftarrow> get_msgaq queue k;
     if maq_first q \<noteq> NULL
     then do {
       let ret = maq_first q;
       n \<leftarrow> get_msgnode ret k;
       let q1 = q\<lparr>maq_first := mn_next n\<rparr>;
       let q2 = (if maq_first q1 = NULL then q1\<lparr>maq_last := NULL\<rparr> else q1);
       k1 \<leftarrow> set_msgaq queue (q2\<lparr>maq_elements := maq_elements q2 - 1\<rparr>) k;
       Some (ret, k1)
     }
     else Some (NULL, k)
   }"

text \<open>
  \<^verbatim>\<open>message_queue_async_create\<close> sizes its slab by \<^verbatim>\<open>msg_queue_t\<close>, and writes the receiver queue
  only.
\<close>

definition message_queue_async_create :: "kernel \<Rightarrow> (ptr \<times> kernel) option" where
  "message_queue_async_create k = do {
     let k1 = (if \<not> k_msg_async_init k
               then (k_slab_init message_queue_async_slab sizeof_msg_queue_t k)\<lparr>k_msg_async_init := True\<rparr>
               else k);
     (ret, k2) \<leftarrow> k_slab_alloc message_queue_async_slab k1;
     q \<leftarrow> get_msgaq ret k2;
     k3 \<leftarrow> set_msgaq ret (q\<lparr>maq_recievers := thread_queue_init\<rparr>) k2;
     Some (ret, k3)
   }"

definition message_queue_async_free :: "ptr \<Rightarrow> kernel \<Rightarrow> kernel" where
  "message_queue_async_free queue k = k"

definition message_node_alloc :: "message_t \<Rightarrow> kernel \<Rightarrow> (ptr \<times> kernel) option" where
  "message_node_alloc msg k = do {
     let k1 = (if \<not> k_msg_node_init k
               then (k_slab_init message_node_slab sizeof_message_node_t k)\<lparr>k_msg_node_init := True\<rparr>
               else k);
     (ret, k2) \<leftarrow> k_slab_alloc message_node_slab k1;
     n \<leftarrow> get_msgnode ret k2;
     k3 \<leftarrow> set_msgnode ret (n\<lparr>mn_message := msg\<rparr>) k2;
     Some (ret, k3)
   }"

definition message_node_free :: "ptr \<Rightarrow> kernel \<Rightarrow> kernel option" where
  "message_node_free node k = k_slab_free message_node_slab node k"

definition pop_async_reciever :: "ptr \<Rightarrow> kernel \<Rightarrow> (ptr \<times> kernel) option" where
  "pop_async_reciever queue k = do {
     q \<leftarrow> get_msgaq queue k;
     (t, r, k1) \<leftarrow> thread_queue_pop_front (maq_recievers q) k;
     k2 \<leftarrow> set_msgaq queue (q\<lparr>maq_recievers := r\<rparr>) k1;
     Some (t, k2)
   }"

definition push_async_reciever :: "ptr \<Rightarrow> ptr \<Rightarrow> kernel \<Rightarrow> kernel option" where
  "push_async_reciever queue t k = do {
     q \<leftarrow> get_msgaq queue k;
     (r, k1) \<leftarrow> thread_queue_push_back (maq_recievers q) t k;
     set_msgaq queue (q\<lparr>maq_recievers := r\<rparr>) k1
   }"

text \<open>A full queue is reported with the id of the current thread, which is dereferenced.\<close>

definition message_send_async :: "yield \<Rightarrow> ptr \<Rightarrow> msg_arg \<Rightarrow> kernel \<Rightarrow> (bool \<times> kernel) option" where
  "message_send_async yield queue msg k = do {
     current \<leftarrow> sched_current_thread k;
     k1 \<leftarrow> kobject_lock yield queue k;
     q \<leftarrow> get_msgaq queue k1;
     if maq_elements q \<ge> MESSAGE_MAX_QUEUE_ELEMENTS
     then do {
       _ \<leftarrow> get_thread current k1;
       k2 \<leftarrow> kobject_unlock yield queue k1;
       Some (False, k2)
     }
     else do {
       (node, k2) \<leftarrow> message_node_alloc (read_msg msg k1) k1;
       k3 \<leftarrow> message_queue_async_insert queue node k2;
       (target, k4) \<leftarrow> pop_async_reciever queue k3;
       k5 \<leftarrow> (if target \<noteq> NULL
              then do {
                k' \<leftarrow> kobject_lock yield target k4;
                k'' \<leftarrow> upd_thread target (t_state_update (\<lambda>_. SCHED_STATE_RUNNING)) k';
                k''' \<leftarrow> kobject_unlock yield target k'';
                sched_add_thread yield target k'''
              }
              else Some k4);
       k6 \<leftarrow> kobject_unlock yield queue k5;
       Some (True, k6)
     }
   }"

text \<open>One round of the loop of \<^verbatim>\<open>message_recieve_async\<close>.\<close>

definition recieve_async_round ::
  "yield \<Rightarrow> ptr \<Rightarrow> ptr \<Rightarrow> ptr \<Rightarrow> u32 \<Rightarrow> kernel \<Rightarrow> (bool \<times> kernel) round option" where
  "recieve_async_round yield queue current buffer flags k = do {
     k1 \<leftarrow> kobject_lock yield queue k;
     (node, k2) \<leftarrow> message_queue_async_remove queue k1;
     if node \<noteq> NULL
     then do {
       n \<leftarrow> get_msgnode node k2;
       k3 \<leftarrow> message_node_free node (k2\<lparr>k_usermsg := (k_usermsg k2)(buffer := mn_message n)\<rparr>);
       k4 \<leftarrow> kobject_unlock yield queue k3;
       Some (Done (True, k4))
     }
     else if flags AND MESSAGE_ASYNC_BLOCK \<noteq> 0
     then do {
       k3 \<leftarrow> upd_thread current (t_state_update (\<lambda>_. SCHED_STATE_WAITING_ASYNC)) k2;
       k4 \<leftarrow> push_async_reciever queue current k3;
       k5 \<leftarrow> kobject_unlock yield queue k4;
       k6 \<leftarrow> yield k5;
       Some (Retry k6)
     }
     else do {
       k3 \<leftarrow> kobject_unlock yield queue k2;
       Some (Done (False, k3))
     }
   }"

partial_function (option) recieve_async_loop ::
  "yield \<Rightarrow> ptr \<Rightarrow> ptr \<Rightarrow> ptr \<Rightarrow> u32 \<Rightarrow> kernel \<Rightarrow> (bool \<times> kernel) option" where [code]:
  "recieve_async_loop yield queue current buffer flags k = do {
     r \<leftarrow> recieve_async_round yield queue current buffer flags k;
     case r of
       Done x \<Rightarrow> Some x
     | Retry k1 \<Rightarrow> recieve_async_loop yield queue current buffer flags k1
   }"

definition message_recieve_async :: "yield \<Rightarrow> ptr \<Rightarrow> ptr \<Rightarrow> u32 \<Rightarrow> kernel \<Rightarrow> (bool \<times> kernel) option" where
  "message_recieve_async yield queue buffer flags k = do {
     current \<leftarrow> sched_current_thread k;
     recieve_async_loop yield queue current buffer flags k
   }"

section \<open>Interrupts and page faults\<close>

definition INTERRUPT_MAX :: u32 where [c4_enum]: "INTERRUPT_MAX = 256"

definition interrupt_callback :: "yield \<Rightarrow> u32 \<Rightarrow> u32 \<Rightarrow> kernel \<Rightarrow> (bool \<times> kernel) option" where
  "interrupt_callback yield num flags k =
     (if \<not> num < INTERRUPT_MAX then None
      else if k_listening k num = NULL then Some (False, k)
      else do {
        (_, k1) \<leftarrow> message_send_async yield (k_listening k num)
                    (Local (zero_message\<lparr>m_type := MESSAGE_TYPE_INTERRUPT, m_data0 := num\<rparr>)) k;
        Some (True, k1)
      })"

definition interrupt_listen :: "u32 \<Rightarrow> ptr \<Rightarrow> kernel \<Rightarrow> int \<times> kernel" where
  "interrupt_listen num queue k =
     (if num \<ge> INTERRUPT_MAX then (-1, k)
      else (0, k\<lparr>k_listening := (k_listening k)(num := queue)\<rparr>))"

text \<open>Without a current thread \<^verbatim>\<open>page_fault_message\<close> loops forever.\<close>

definition page_fault_message :: "yield \<Rightarrow> u32 \<Rightarrow> u32 \<Rightarrow> u32 \<Rightarrow> kernel \<Rightarrow> kernel option" where
  "page_fault_message yield address ip perms k = do {
     cur \<leftarrow> sched_current_thread k;
     if cur = NULL then None
     else do {
       k1 \<leftarrow> upd_thread cur (t_flags_update (\<lambda>f. SET_FLAG f THREAD_FLAG_FAULTED)) k;
       t \<leftarrow> get_thread cur k1;
       k2 \<leftarrow> (if t_pager t \<noteq> NULL
              then message_send yield (t_pager t)
                     (Local (zero_message\<lparr>m_type := MESSAGE_TYPE_PAGE_FAULT, m_data0 := address,
                        m_data1 := ip, m_data2 := perms\<rparr>)) k1
              else Some k1);
       k3 \<leftarrow> sched_thread_stop cur k2;
       yield k3
     }
   }"

text \<open>\<^verbatim>\<open>page_fault_handler\<close>: a fault in supervisor mode prints and loops forever.\<close>

definition page_fault_handler :: "yield \<Rightarrow> u32 \<Rightarrow> u32 \<Rightarrow> u32 \<Rightarrow> kernel \<Rightarrow> kernel option" where
  "page_fault_handler yield err eip cr_2 k =
     (if err AND PAGE_ARCH_SUPERVISOR \<noteq> 0
      then page_fault_message yield cr_2 eip
             (if err AND PAGE_ARCH_WRITABLE \<noteq> 0 then PAGE_WRITE else PAGE_READ) k
      else None)"

section \<open>Properties of synchronous IPC\<close>

lemma pop_reciever_rep:
  assumes "queue_rep k (mq_recievers (k_msg_queues k q)) (n # ns) (t # ts)" "q \<noteq> NULL"
    "slab_free queue_slab n (k_mm k) \<noteq> None"
  obtains r k1 where "pop_reciever q k = Some (t, k1\<lparr>k_msg_queues := (k_msg_queues k)
      (q := (k_msg_queues k q)\<lparr>mq_recievers := r\<rparr>)\<rparr>)"
    and "queue_rep k1 r ns ts" and "kq.more k1 = kq.more k"
    and "slab_free queue_slab n (k_mm k) = Some (k_mm k1)"
proof -
  from queue_pop_front_None [OF assms(1)] assms(3) obtain z r k1 where
    pop: "queue_pop_front (mq_recievers (k_msg_queues k q)) k = Some (z, r, k1)"
    by (cases "queue_pop_front (mq_recievers (k_msg_queues k q)) k") auto
  from queue.pop_front_rep [OF assms(1) pop] have z: "z = t" "queue_rep k1 r ns ts" by blast+
  note m = queue_pop_front_more [OF pop]
  have "pop_reciever q k = Some (t, k1\<lparr>k_msg_queues := (k_msg_queues k)(q := (k_msg_queues k q)\<lparr>mq_recievers := r\<rparr>)\<rparr>)"
    using pop z assms(2) kq_moreD [OF m]
    by (simp add: pop_reciever_def get_msgq_def set_msgq_def thread_queue_pop_front_def)
  then show ?thesis using that z m queue_pop_front_mm [OF assms(1) pop] by blast
qed

lemma pop_sender_rep:
  assumes "queue_rep k (mq_senders (k_msg_queues k q)) (n # ns) (t # ts)" "q \<noteq> NULL"
    "slab_free queue_slab n (k_mm k) \<noteq> None"
  obtains r k1 where "pop_sender q k = Some (t, k1\<lparr>k_msg_queues := (k_msg_queues k)
      (q := (k_msg_queues k q)\<lparr>mq_senders := r\<rparr>)\<rparr>)"
    and "queue_rep k1 r ns ts" and "kq.more k1 = kq.more k"
proof -
  from queue_pop_front_None [OF assms(1)] assms(3) obtain z r k1 where
    pop: "queue_pop_front (mq_senders (k_msg_queues k q)) k = Some (z, r, k1)"
    by (cases "queue_pop_front (mq_senders (k_msg_queues k q)) k") auto
  from queue.pop_front_rep [OF assms(1) pop] have z: "z = t" "queue_rep k1 r ns ts" by blast+
  note m = queue_pop_front_more [OF pop]
  have "pop_sender q k = Some (t, k1\<lparr>k_msg_queues := (k_msg_queues k)(q := (k_msg_queues k q)\<lparr>mq_senders := r\<rparr>)\<rparr>)"
    using pop z assms(2) kq_moreD [OF m]
    by (simp add: pop_sender_def get_msgq_def set_msgq_def thread_queue_pop_front_def)
  then show ?thesis using that z m by blast
qed

lemma pop_empty:
  "q \<noteq> NULL \<Longrightarrow> mq_recievers (k_msg_queues k q) = queue_init \<Longrightarrow> pop_reciever q k = Some (NULL, k)"
  "q \<noteq> NULL \<Longrightarrow> mq_senders (k_msg_queues k q) = queue_init \<Longrightarrow> pop_sender q k = Some (NULL, k)"
  by (cases "k_msg_queues k q"; simp add: pop_reciever_def pop_sender_def get_msgq_def set_msgq_def
      thread_queue_pop_front_def queue_pop_front_def queue_init_def fun_upd_idem)+

lemma push_sender_rep:
  assumes "queue_rep k (mq_senders (k_msg_queues k q)) ns ts" "q \<noteq> NULL" "queue_node_create t k \<noteq> None"
  obtains n r k1 where "push_sender q t k = Some (k1\<lparr>k_msg_queues := (k_msg_queues k)
      (q := (k_msg_queues k q)\<lparr>mq_senders := r\<rparr>)\<rparr>)"
    and "queue_rep k1 r (ns @ [n]) (ts @ [t])" and "kq.more k1 = kq.more k"
proof -
  from queue_push_back_None [OF assms(1), of t] assms(3) obtain r k1 where
    push: "queue_push_back (mq_senders (k_msg_queues k q)) t k = Some (r, k1)" by auto
  from queue.push_back_rep [OF assms(1) push] obtain n where n: "queue_rep k1 r (ns @ [n]) (ts @ [t])" by blast
  note m = queue_push_back_more [OF push]
  have "push_sender q t k = Some (k1\<lparr>k_msg_queues := (k_msg_queues k)(q := (k_msg_queues k q)\<lparr>mq_senders := r\<rparr>)\<rparr>)"
    using push assms(2) kq_moreD [OF m]
    by (simp add: push_sender_def get_msgq_def set_msgq_def thread_queue_push_back_def)
  then show ?thesis using that n m by blast
qed

lemma push_reciever_rep:
  assumes "queue_rep k (mq_recievers (k_msg_queues k q)) ns ts" "q \<noteq> NULL" "queue_node_create t k \<noteq> None"
  obtains n r k1 where "push_reciever q t k = Some (k1\<lparr>k_msg_queues := (k_msg_queues k)
      (q := (k_msg_queues k q)\<lparr>mq_recievers := r\<rparr>)\<rparr>)"
    and "queue_rep k1 r (ns @ [n]) (ts @ [t])" and "kq.more k1 = kq.more k"
proof -
  from queue_push_back_None [OF assms(1), of t] assms(3) obtain r k1 where
    push: "queue_push_back (mq_recievers (k_msg_queues k q)) t k = Some (r, k1)" by auto
  from queue.push_back_rep [OF assms(1) push] obtain n where n: "queue_rep k1 r (ns @ [n]) (ts @ [t])" by blast
  note m = queue_push_back_more [OF push]
  have "push_reciever q t k = Some (k1\<lparr>k_msg_queues := (k_msg_queues k)(q := (k_msg_queues k q)\<lparr>mq_recievers := r\<rparr>)\<rparr>)"
    using push assms(2) kq_moreD [OF m]
    by (simp add: push_reciever_def get_msgq_def set_msgq_def thread_queue_push_back_def)
  then show ?thesis using that n m by blast
qed

lemma queue_rep_lock [simp]:
  "queue_rep (acquire c p k) = queue_rep k" "queue_rep (release p k) = queue_rep k"
  by (simp_all add: acquire_def release_def)

text \<open>Which messages reach a receiver.\<close>

definition deliverable :: "message_t \<Rightarrow> bool" where
  "deliverable m \<longleftrightarrow> \<not> is_kernel_msg m \<or> kernel_msg_handle_send m"

text \<open>
  Handing a message to the thread that has waited longest: the state in which it goes to the
  scheduler.
\<close>

lemma send_step_waiting:
  assumes cur: "sched_current_thread k = Some cur" "cur \<noteq> NULL"
    and q: "quiet q k" "quiet r k" "q \<noteq> r"
    and rep: "queue_rep k (mq_recievers (k_msg_queues k q)) (n # ns) (r # rs)"
    and free: "slab_free queue_slab n (k_mm k) \<noteq> None"
    and del: "deliverable (read_msg msg k)"
  obtains a k4 w where "message_try_send yield q msg (acquire cur q k) = do {
        k5 \<leftarrow> sched_add_thread yield r (release r k4);
        Some (True, a, k5)
      }"
    and "k_threads k4 = (k_threads k)(r := (k_threads k r)\<lparr>
        t_flags := SET_FLAG (t_flags (k_threads k r)) THREAD_FLAG_PENDING_MSG, t_state := SCHED_STATE_RUNNING,
        t_message := (read_msg msg k)\<lparr>m_sender := t_id (k_threads k cur)\<rparr>\<rparr>)"
    and "k_msg_queues k4 = (k_msg_queues k)(q := (k_msg_queues k q)\<lparr>mq_recievers := w\<rparr>)" and "queue_rep k4 w ns rs"
    and "k_kobjs (release r k4) = k_kobjs (release r (acquire cur r (acquire cur q k)))"
    and "k_caps k4 = k_caps k" "k_cap_spaces k4 = k_cap_spaces k"
    and "k_num_booted_cpus k4 = k_num_booted_cpus k" "k_apic_id k4 = k_apic_id k"
      "k_current_threads k4 = k_current_threads k" "k_sched_lock k4 = k_sched_lock k"
    and "k_anodes k4 = k_anodes k" "k_run_tree k4 = k_run_tree k" "k_sleep_tree k4 = k_sleep_tree k"
      "slab_free queue_slab n (k_mm k) = Some (k_mm k4)"
proof -
  have nz: "q \<noteq> NULL" "r \<noteq> NULL" using q by (auto simp: quiet_def)
  let ?k1 = "acquire cur q k"
  from rep free have "queue_rep ?k1 (mq_recievers (k_msg_queues ?k1 q)) (n # ns) (r # rs)"
    "slab_free queue_slab n (k_mm ?k1) \<noteq> None" by simp_all
  from pop_reciever_rep [OF this(1) nz(1) this(2)] obtain w kk where
    pop: "pop_reciever q ?k1 = Some (r, kk\<lparr>k_msg_queues := (k_msg_queues ?k1)(q := (k_msg_queues ?k1 q)\<lparr>mq_recievers := w\<rparr>)\<rparr>)"
    and w: "queue_rep kk w ns rs" and mr: "kq.more kk = kq.more ?k1" and mm: "slab_free queue_slab n (k_mm ?k1) = Some (k_mm kk)" .
  note kk = kq_moreD [OF mr]
  let ?k2 = "kk\<lparr>k_msg_queues := (k_msg_queues ?k1)(q := (k_msg_queues ?k1 q)\<lparr>mq_recievers := w\<rparr>)\<rparr>"
  let ?k3 = "acquire cur r ?k2"
  have "sched_current_thread ?k2 = Some cur" using cur(1) sched_current_thread_cong [of kk k] kk by simp
  moreover have "quiet r ?k1" using q by simp
  then have q2: "quiet r ?k2" using kk by (simp add: quiet_def)
  ultimately have lk: "kobject_lock yield r ?k2 = Some ?k3" using kobject_lock_quiet by blast
  have rd: "read_msg msg ?k3 = read_msg msg k" by (cases msg) (simp_all add: kk)
  let ?m = "(read_msg msg k)\<lparr>m_sender := t_id (k_threads k cur)\<rparr>"
  obtain a k3 where wr: "write_msg msg ?m ?k3 = (a, k3)" by fastforce
  then have k3: "k_threads k3 = k_threads k" "k_kobjs k3 = k_kobjs ?k3" "k_msg_queues k3 = k_msg_queues ?k2"
      "queue_rep k3 = queue_rep ?k3" "k_caps k3 = k_caps k" "k_cap_spaces k3 = k_cap_spaces k"
      "k_num_booted_cpus k3 = k_num_booted_cpus k" "k_apic_id k3 = k_apic_id k"
      "k_current_threads k3 = k_current_threads k" "k_sched_lock k3 = k_sched_lock k" "k_anodes k3 = k_anodes k"
      "k_run_tree k3 = k_run_tree k" "k_sleep_tree k3 = k_sleep_tree k" "k_mm k3 = k_mm kk"
    and rd': "read_msg a k3 = ?m"
    by (cases msg; auto simp: kk)+
  let ?k4 = "k3\<lparr>k_threads := (k_threads k)(r := (k_threads k r)\<lparr>
      t_flags := SET_FLAG (t_flags (k_threads k r)) THREAD_FLAG_PENDING_MSG, t_state := SCHED_STATE_RUNNING, t_message := ?m\<rparr>)\<rparr>"
  have un: "kobject_unlock yield r ?k4 = Some (release r ?k4)"
    by (rule kobject_unlock_empty [OF nz(2)]) (use q2 in \<open>simp add: k3 quiet_def\<close>)
  have nd: "(is_kernel_msg (read_msg msg k) \<and> \<not> kernel_msg_handle_send (read_msg msg k)) = False"
    using del by (auto simp: deliverable_def)
  have "message_try_send yield q msg ?k1 = do {
      k6 \<leftarrow> sched_add_thread yield r (release r ?k4);
      Some (True, a, k6)
    }"
    using cur nz pop lk nd rd wr un k3 kk rd'
    by (simp add: message_try_send_def get_thread_def upd_thread_def del: de_Morgan_conj)
  then show thesis
    by (rule that) (use w mm [unfolded acquire_fields] in \<open>auto simp: k3 kk release_def acquire_def\<close>)
qed

text \<open>
  The other reserved messages: the thread is taken off the queue all the same, and nothing else is
  done with it.
\<close>

lemma send_step_dropped:
  assumes cur: "sched_current_thread k = Some cur" "cur \<noteq> NULL"
    and q: "quiet q k" "quiet r k" "q \<noteq> r"
    and rep: "queue_rep k (mq_recievers (k_msg_queues k q)) (n # ns) (r # rs)"
    and free: "slab_free queue_slab n (k_mm k) \<noteq> None"
    and del: "\<not> deliverable (read_msg msg k)"
  obtains k4 w where "message_try_send yield q msg (acquire cur q k) = Some (True, msg, release r k4)"
    and "k_threads k4 = k_threads k" and "queue_rep k4 w ns rs"
    and "k_msg_queues k4 = (k_msg_queues k)(q := (k_msg_queues k q)\<lparr>mq_recievers := w\<rparr>)"
    and "k_run_tree k4 = k_run_tree k" and "k_anodes k4 = k_anodes k"
proof -
  have nz: "q \<noteq> NULL" "r \<noteq> NULL" using q by (auto simp: quiet_def)
  let ?k1 = "acquire cur q k"
  from rep free have "queue_rep ?k1 (mq_recievers (k_msg_queues ?k1 q)) (n # ns) (r # rs)"
    "slab_free queue_slab n (k_mm ?k1) \<noteq> None" by simp_all
  from pop_reciever_rep [OF this(1) nz(1) this(2)] obtain w kk where
    pop: "pop_reciever q ?k1 = Some (r, kk\<lparr>k_msg_queues := (k_msg_queues ?k1)(q := (k_msg_queues ?k1 q)\<lparr>mq_recievers := w\<rparr>)\<rparr>)"
    and w: "queue_rep kk w ns rs" and mr: "kq.more kk = kq.more ?k1" .
  note kk = kq_moreD [OF mr]
  let ?k2 = "kk\<lparr>k_msg_queues := (k_msg_queues ?k1)(q := (k_msg_queues ?k1 q)\<lparr>mq_recievers := w\<rparr>)\<rparr>"
  let ?k3 = "acquire cur r ?k2"
  have "sched_current_thread ?k2 = Some cur" using cur(1) sched_current_thread_cong [of kk k] kk by simp
  moreover have "quiet r ?k1" using q by simp
  then have q2: "quiet r ?k2" using kk by (simp add: quiet_def)
  ultimately have lk: "kobject_lock yield r ?k2 = Some ?k3" using kobject_lock_quiet by blast
  have rd: "read_msg msg ?k3 = read_msg msg k" by (cases msg) (simp_all add: kk)
  have un: "kobject_unlock yield r ?k3 = Some (release r ?k3)"
    by (rule kobject_unlock_empty [OF nz(2)]) (use q2 in \<open>simp add: quiet_def\<close>)
  have "is_kernel_msg (read_msg msg k)" "\<not> kernel_msg_handle_send (read_msg msg k)"
    using del by (simp_all add: deliverable_def)
  then have "message_try_send yield q msg ?k1 = Some (True, msg, release r ?k3)"
    using cur nz pop lk rd un kk by (simp add: message_try_send_def)
  then show thesis by (rule that) (use w in \<open>simp_all add: kk\<close>)
qed

text \<open>
  C7: \<^verbatim>\<open>message_send\<close> with a receiver waiting on the endpoint, endpoint and receiver unlocked. The receiver
  that has waited longest leaves the queue. If the message has a user type, or is a capability grant or
  a page fault report, that receiver gets it, stamped with the id of the sending thread; it is marked
  as having a pending message and made runnable, no other thread changes, and it goes to
  \<^verbatim>\<open>sched_add_thread\<close>; after that the sender's state is set and the endpoint unlocked. A message of any
  other reserved type is dropped: the receiver is off the queue and gets nothing, no thread is
  changed or made runnable, and the sender goes on as if it had sent.
\<close>

theorem message_send_to_waiting:
  assumes cur: "sched_current_thread k = Some cur" "cur \<noteq> NULL"
    and q: "quiet q k" "quiet r k" "q \<noteq> r"
    and rep: "queue_rep k (mq_recievers (k_msg_queues k q)) (n # ns) (r # rs)"
    and free: "slab_free queue_slab n (k_mm k) \<noteq> None"
    and ty: "ty = m_type (read_msg msg k)"
  shows "\<exists>k5. queue_rep k5 (mq_recievers (k_msg_queues k5 q)) ns rs \<and>
    mq_senders (k_msg_queues k5 q) = mq_senders (k_msg_queues k q) \<and>
    (if ty \<ge> MESSAGE_TYPE_END_RESERVED \<or> ty = MESSAGE_TYPE_GRANT_OBJECT \<or> ty = MESSAGE_TYPE_PAGE_FAULT
     then message_send yield q msg k = do {
         k6 \<leftarrow> sched_add_thread yield r k5;
         k7 \<leftarrow> set_sender_state cur k6;
         kobject_unlock yield q k7
       } \<and>
       k_threads k5 = (k_threads k)(r := (k_threads k r)\<lparr>
         t_flags := SET_FLAG (t_flags (k_threads k r)) THREAD_FLAG_PENDING_MSG,
         t_state := SCHED_STATE_RUNNING,
         t_message := (read_msg msg k)\<lparr>m_sender := t_id (k_threads k cur)\<rparr>\<rparr>)
     else message_send yield q msg k = do {
         k7 \<leftarrow> set_sender_state cur k5;
         kobject_unlock yield q k7
       } \<and>
       k_threads k5 = k_threads k \<and> k_run_tree k5 = k_run_tree k \<and> k_anodes k5 = k_anodes k)"
proof -
  have d: "deliverable (read_msg msg k) \<longleftrightarrow>
      ty \<ge> MESSAGE_TYPE_END_RESERVED \<or> ty = MESSAGE_TYPE_GRANT_OBJECT \<or> ty = MESSAGE_TYPE_PAGE_FAULT"
    unfolding ty deliverable_def is_kernel_msg_def kernel_msg_handle_send_def by (auto simp: c4_enum not_less)
  show ?thesis
  proof (cases "deliverable (read_msg msg k)")
    case True
    obtain a k4 w where s: "message_try_send yield q msg (acquire cur q k) = do {
          k5 \<leftarrow> sched_add_thread yield r (release r k4);
          Some (True, a, k5)
        }"
      and k4: "k_threads k4 = (k_threads k)(r := (k_threads k r)\<lparr>
          t_flags := SET_FLAG (t_flags (k_threads k r)) THREAD_FLAG_PENDING_MSG, t_state := SCHED_STATE_RUNNING,
          t_message := (read_msg msg k)\<lparr>m_sender := t_id (k_threads k cur)\<rparr>\<rparr>)"
        "k_msg_queues k4 = (k_msg_queues k)(q := (k_msg_queues k q)\<lparr>mq_recievers := w\<rparr>)" "queue_rep k4 w ns rs"
      by (rule send_step_waiting [OF cur q rep free True])
    have "message_send yield q msg k = do {
        k6 \<leftarrow> sched_add_thread yield r (release r k4);
        k7 \<leftarrow> set_sender_state cur k6;
        kobject_unlock yield q k7
      }"
      using cur(1) kobject_lock_quiet [OF q(1) cur(1)] s by (simp add: message_send_def)
    then show ?thesis using k4 True unfolding d by (intro exI [of _ "release r k4"]) simp
  next
    case False
    obtain k4 w where s: "message_try_send yield q msg (acquire cur q k) = Some (True, msg, release r k4)"
      and k4: "k_threads k4 = k_threads k" "queue_rep k4 w ns rs"
        "k_msg_queues k4 = (k_msg_queues k)(q := (k_msg_queues k q)\<lparr>mq_recievers := w\<rparr>)"
        "k_run_tree k4 = k_run_tree k" "k_anodes k4 = k_anodes k"
      by (rule send_step_dropped [OF cur q rep free False])
    have "message_send yield q msg k = do {
        k7 \<leftarrow> set_sender_state cur (release r k4);
        kobject_unlock yield q k7
      }"
      using cur(1) kobject_lock_quiet [OF q(1) cur(1)] s by (simp add: message_send_def)
    moreover have "k_run_tree (release r k4) = k_run_tree k4" "k_anodes (release r k4) = k_anodes k4"
      by (simp_all add: release_def)
    ultimately show ?thesis using k4 False unfolding d by (intro exI [of _ "release r k4"]) simp
  qed
qed

text \<open>
  C16: \<^verbatim>\<open>message_send\<close> with nobody waiting: the sender keeps its message as it is, is \<^verbatim>\<open>SENDING\<close>, and is
  the last thread on the endpoint's queue of senders; the endpoint is unlocked, and the call is then
  a yield.
\<close>

theorem message_send_waits:
  assumes cur: "sched_current_thread k = Some cur" "cur \<noteq> NULL" and q: "quiet q k"
    and none: "mq_recievers (k_msg_queues k q) = queue_init"
    and rep: "queue_rep k (mq_senders (k_msg_queues k q)) ns ss"
    and node: "queue_node_create cur k \<noteq> None"
  shows "\<exists>k5 n. message_send yield q msg k = yield k5 \<and>
    k_threads k5 = (k_threads k)(cur := (k_threads k cur)\<lparr>t_message := read_msg msg k,
      t_state := SCHED_STATE_SENDING\<rparr>) \<and>
    queue_rep k5 (mq_senders (k_msg_queues k5 q)) (ns @ [n]) (ss @ [cur]) \<and>
    mq_recievers (k_msg_queues k5 q) = queue_init \<and> \<not> mx_lock (ko_mutex (k_kobjs k5 q))"
proof -
  have nz: "q \<noteq> NULL" using q by (simp add: quiet_def)
  let ?k1 = "acquire cur q k"
  have ts: "message_try_send yield q msg ?k1 = Some (False, msg, ?k1)"
    using cur nz none pop_empty(1) [of q ?k1] by (simp add: message_try_send_def)
  let ?k3 = "?k1\<lparr>k_threads := (k_threads k)(cur := (k_threads k cur)\<lparr>t_message := read_msg msg k,
      t_state := SCHED_STATE_SENDING\<rparr>)\<rparr>"
  have rd: "read_msg msg ?k1 = read_msg msg k" by (cases msg) simp_all
  have r3: "queue_rep ?k3 (mq_senders (k_msg_queues ?k3 q)) ns ss" using rep by simp
  have "queue_node_create cur ?k3 \<noteq> None" using node queue_node_create_None [of ?k3 k cur] by simp
  from push_sender_rep [OF r3 nz this] obtain n w kk where
    push: "push_sender q cur ?k3 = Some (kk\<lparr>k_msg_queues := (k_msg_queues ?k3)(q := (k_msg_queues ?k3 q)\<lparr>mq_senders := w\<rparr>)\<rparr>)"
    and w: "queue_rep kk w (ns @ [n]) (ss @ [cur])" and mr: "kq.more kk = kq.more ?k3" .
  note kk = kq_moreD [OF mr]
  let ?k4 = "kk\<lparr>k_msg_queues := (k_msg_queues ?k3)(q := (k_msg_queues ?k3 q)\<lparr>mq_senders := w\<rparr>)\<rparr>"
  have "mx_sleep_waiting (ko_mutex (k_kobjs ?k4 q)) = queue_init" using q by (simp add: kk quiet_def)
  from kobject_unlock_empty [OF nz this] have un: "kobject_unlock yield q ?k4 = Some (release q ?k4)" .
  have "message_send yield q msg k = yield (release q ?k4)"
    using cur kobject_lock_quiet [OF q cur(1)] ts push un rd
    by (simp add: message_send_def upd_thread_def)
  moreover have "\<not> mx_lock (ko_mutex (k_kobjs (release q ?k4) q))" by (simp add: release_def)
  ultimately show ?thesis
    using w none by (intro exI [of _ "release q ?k4"] exI [of _ n]) (simp add: kk)
qed

subsection \<open>Witnesses\<close>

text \<open>The boot state with one thread on some queue.\<close>

lemma boot_one_waiter:
  obtains q k1 n where "queue_push_back queue_init 0x5100 boot_kernel = Some (q, k1)"
    and "queue_rep k1 q [n] [0x5100]" and "slab_free queue_slab n (k_mm k1) \<noteq> None"
    and "kq.more k1 = kq.more boot_kernel"
proof -
  have "do {
      (q, k1) \<leftarrow> queue_push_back queue_init 0x5100 boot_kernel;
      (x, r, k2) \<leftarrow> queue_pop_front q k1;
      Some ()
    } = Some ()" by code_simp
  then obtain q k1 r where q: "queue_push_back queue_init 0x5100 boot_kernel = Some (q, k1)"
    and r: "queue_pop_front q k1 = Some r" by (auto elim!: bind_eq_SomeE)
  from queue.push_back_rep [OF boot_kernel_rep q] obtain n where n: "queue_rep k1 q [n] [0x5100]" by auto
  show ?thesis using that [OF q n] queue_push_back_more [OF q] queue_pop_front_None [OF n] r by simp
qed

text \<open>
  C7: thread \<^verbatim>\<open>0x5100\<close> waits on an endpoint. A message of type 300 from the current thread reaches it;
  after one of the reserved type \<^verbatim>\<open>MESSAGE_TYPE_DEBUG_PRINT\<close> it still waits, but on no queue.
\<close>

theorem message_send_to_waiting_witness:
  "\<exists>(k :: kernel) (k5 :: kernel) k5' :: kernel.
     message_send (\<lambda>_. None) 0x9000 (Local (zero_message\<lparr>m_type := 300\<rparr>)) k = do {
       k6 \<leftarrow> sched_add_thread (\<lambda>_. None) 0x5100 k5;
       k7 \<leftarrow> set_sender_state 0x5000 k6;
       kobject_unlock (\<lambda>_. None) 0x9000 k7
     } \<and>
     t_message (k_threads k5 0x5100) = zero_message\<lparr>m_type := 300, m_sender := 1\<rparr> \<and>
     t_state (k_threads k5 0x5100) = SCHED_STATE_RUNNING \<and>
     message_send (\<lambda>_. None) 0x9000 (Local (zero_message\<lparr>m_type := MESSAGE_TYPE_DEBUG_PRINT\<rparr>)) k = do {
       k7 \<leftarrow> set_sender_state 0x5000 k5';
       kobject_unlock (\<lambda>_. None) 0x9000 k7
     } \<and>
     t_state (k_threads k5' 0x5100) = SCHED_STATE_WAITING \<and> queue_rep k5' (mq_recievers (k_msg_queues k5' 0x9000)) [] []"
proof (rule boot_one_waiter)
  fix q k1 n
  assume n: "queue_rep k1 q [n] [0x5100]" "slab_free queue_slab n (k_mm k1) \<noteq> None"
    "kq.more k1 = kq.more boot_kernel"
  let ?k = "k1\<lparr>k_msg_queues := (\<lambda>_. \<lparr>mq_recievers = q, mq_senders = queue_init\<rparr>)\<rparr>"
  note kk = kq_moreD [OF n(3)]
  have c: "sched_current_thread ?k = Some 0x5000"
    using boot_kernel_current sched_current_thread_cong [of k1 boot_kernel] kk by simp
  have qu: "quiet 0x9000 ?k" "quiet 0x5100 ?k"
    using boot_quiet [of "0x9000"] boot_quiet [of "0x5100"] kk by (simp_all add: quiet_def)
  have rep: "queue_rep ?k (mq_recievers (k_msg_queues ?k 0x9000)) [n] [0x5100]" using n by simp
  have fr: "slab_free queue_slab n (k_mm ?k) \<noteq> None" using n by simp
  have id: "t_id (k_threads ?k 0x5000) = 1" by (simp add: kk) (simp add: boot_kernel_def)
  have st: "t_state (k_threads ?k 0x5100) = SCHED_STATE_WAITING" by (simp add: kk) (simp add: boot_kernel_def)
  have nz: "(0x5000 :: ptr) \<noteq> NULL" "(0x9000 :: ptr) \<noteq> 0x5100" by simp_all
  note send = message_send_to_waiting [where yield = "\<lambda>_. None", OF c nz(1) qu nz(2) rep fr refl, unfolded id]
  have u: "m_type (read_msg (Local (zero_message\<lparr>m_type := 300\<rparr>)) ?k) \<ge> MESSAGE_TYPE_END_RESERVED"
    by (simp add: c4_enum)
  have d: "\<not> (m_type (read_msg (Local (zero_message\<lparr>m_type := MESSAGE_TYPE_DEBUG_PRINT\<rparr>)) ?k) \<ge> MESSAGE_TYPE_END_RESERVED \<or>
      m_type (read_msg (Local (zero_message\<lparr>m_type := MESSAGE_TYPE_DEBUG_PRINT\<rparr>)) ?k) = MESSAGE_TYPE_GRANT_OBJECT \<or>
      m_type (read_msg (Local (zero_message\<lparr>m_type := MESSAGE_TYPE_DEBUG_PRINT\<rparr>)) ?k) = MESSAGE_TYPE_PAGE_FAULT)"
    by (simp add: c4_enum word_le_nat_alt)
  note a = send [where msg = "Local (zero_message\<lparr>m_type := 300\<rparr>)", unfolded if_P [OF disjI1 [OF u]]]
  note b = send [where msg = "Local (zero_message\<lparr>m_type := MESSAGE_TYPE_DEBUG_PRINT\<rparr>)", unfolded if_not_P [OF d]]
  obtain k5 where k5: "message_send (\<lambda>_. None) 0x9000 (Local (zero_message\<lparr>m_type := 300\<rparr>)) ?k = do {
       k6 \<leftarrow> sched_add_thread (\<lambda>_. None) 0x5100 k5;
       k7 \<leftarrow> set_sender_state 0x5000 k6;
       kobject_unlock (\<lambda>_. None) 0x9000 k7
     }" "t_message (k_threads k5 0x5100) = zero_message\<lparr>m_type := 300, m_sender := 1\<rparr>"
     "t_state (k_threads k5 0x5100) = SCHED_STATE_RUNNING"
    using a by auto
  obtain k5' where k5': "message_send (\<lambda>_. None) 0x9000 (Local (zero_message\<lparr>m_type := MESSAGE_TYPE_DEBUG_PRINT\<rparr>)) ?k = do {
       k7 \<leftarrow> set_sender_state 0x5000 k5';
       kobject_unlock (\<lambda>_. None) 0x9000 k7
     }" "k_threads k5' = k_threads ?k" "queue_rep k5' (mq_recievers (k_msg_queues k5' 0x9000)) [] []"
    using b by auto
  show ?thesis
    by (rule exI [of _ ?k], rule exI [of _ k5], rule exI [of _ k5']) (intro conjI; (rule k5 k5')?; simp only: k5'(2) st)
qed

text \<open>C16: the current thread sends on an endpoint where nobody waits.\<close>

theorem message_send_waits_witness:
  "\<exists>(k5 :: kernel) n. message_send (\<lambda>_. None) 0x9000 (Local zero_message) boot_kernel = None \<and>
     queue_rep k5 (mq_senders (k_msg_queues k5 0x9000)) [n] [0x5000] \<and>
     t_state (k_threads k5 0x5000) = SCHED_STATE_SENDING"
proof -
  have q: "mq_recievers (k_msg_queues boot_kernel 0x9000) = queue_init"
    "mq_senders (k_msg_queues boot_kernel 0x9000) = queue_init" by (simp_all add: boot_kernel_def)
  then have rep: "queue_rep boot_kernel (mq_senders (k_msg_queues boot_kernel 0x9000)) [] []"
    using boot_kernel_rep by simp
  from message_send_waits [OF boot_kernel_current _ boot_quiet q(1) rep boot_node, of "\<lambda>_. None" "Local zero_message"]
  show ?thesis by auto
qed

section \<open>Receiving\<close>

text \<open>What receiving leaves in the thread and in the buffer, for a message that is passed on as it is.\<close>

definition recieved :: "ptr \<Rightarrow> ptr \<Rightarrow> ptr \<Rightarrow> message_t \<Rightarrow> kernel \<Rightarrow> kernel" where
  "recieved queue cur buffer m k = release queue (k\<lparr>
     k_threads := (k_threads k)(cur := (k_threads k cur)\<lparr>
       t_flags := UNSET_FLAG (t_flags (k_threads k cur)) THREAD_FLAG_PENDING_MSG,
       t_state := SCHED_STATE_RUNNING, t_message := m\<rparr>),
     k_usermsg := (k_usermsg k)(buffer := m)\<rparr>)"

lemma finish_recieve_user:
  assumes "cur \<noteq> NULL" "queue \<noteq> NULL" "mx_sleep_waiting (ko_mutex (k_kobjs k queue)) = queue_init"
    "\<not> is_kernel_msg (t_message (k_threads k cur))"
  shows "finish_recieve yield queue cur buffer k =
    Some (recieved queue cur buffer (t_message (k_threads k cur)) k)"
proof -
  let ?k = "k\<lparr>k_threads := (k_threads k)(cur := (k_threads k cur)\<lparr>
       t_flags := UNSET_FLAG (t_flags (k_threads k cur)) THREAD_FLAG_PENDING_MSG,
       t_state := SCHED_STATE_RUNNING\<rparr>),
     k_usermsg := (k_usermsg k)(buffer := t_message (k_threads k cur))\<rparr>"
  have "kobject_unlock yield queue ?k = Some (release queue ?k)"
    by (rule kobject_unlock_empty [OF assms(2)]) (simp add: assms)
  then show ?thesis
    using assms by (cases "k_threads k cur") (simp add: finish_recieve_def get_thread_def upd_thread_def recieved_def)
qed

text \<open>
  A granted capability is put into the space of the receiving thread, and the message names its
  entry there instead of its address.
\<close>

lemma finish_recieve_grant:
  assumes nz: "cur \<noteq> NULL" "queue \<noteq> NULL" "t_cap_space (k_threads k cur) \<noteq> NULL"
    and w: "mx_sleep_waiting (ko_mutex (k_kobjs k queue)) = queue_init"
    and c: "sched_current_thread k = Some cur"
    and m: "m = t_message (k_threads k cur)" "m_type m = MESSAGE_TYPE_GRANT_OBJECT"
    and ins: "cap_space_insert (t_cap_space (k_threads k cur))
        \<lparr>ce_type = m_data0 m, ce_permissions = m_data1 m, ce_object = m_data2 m\<rparr> k =
      Some (j, k\<lparr>k_caps := C\<rparr>)"
  shows "finish_recieve yield queue cur buffer k =
    Some (recieved queue cur buffer (m\<lparr>m_data5 := j, m_data2 := 0\<rparr>) (k\<lparr>k_caps := C\<rparr>))"
proof -
  let ?m = "m\<lparr>m_data5 := j, m_data2 := 0\<rparr>"
  let ?k = "k\<lparr>k_caps := C, k_threads := (k_threads k)(cur := (k_threads k cur)\<lparr>
       t_flags := UNSET_FLAG (t_flags (k_threads k cur)) THREAD_FLAG_PENDING_MSG,
       t_state := SCHED_STATE_RUNNING, t_message := ?m\<rparr>),
     k_usermsg := (k_usermsg k)(buffer := ?m)\<rparr>"
  have un: "kobject_unlock yield queue ?k = Some (release queue ?k)"
    by (rule kobject_unlock_empty [OF nz(2)]) (simp add: w)
  have "is_kernel_msg m" using m(2) by (simp add: is_kernel_msg_def c4_enum)
  moreover have "kernel_msg_handle_recieve m k = Some (True, m\<lparr>m_data5 := j, m_data2 := 0\<rparr>, k\<lparr>k_caps := C\<rparr>)"
    using c nz m ins by (cases m) (simp add: kernel_msg_handle_recieve_def get_thread_def)
  ultimately show ?thesis
    using un nz m(1) by (cases "k_threads k cur") (simp add: finish_recieve_def get_thread_def upd_thread_def recieved_def)
qed

lemma recieve_loop_pending:
  assumes cur: "sched_current_thread k = Some cur" "cur \<noteq> NULL" and q: "quiet queue k"
    and p: "FLAG (t_flags (k_threads k cur)) THREAD_FLAG_PENDING_MSG"
  shows "recieve_loop yield queue cur buffer k = finish_recieve yield queue cur buffer (acquire cur queue k)"
  using cur p kobject_lock_quiet [OF q cur(1)]
  by (cases "finish_recieve yield queue cur buffer (acquire cur queue k)")
     (simp_all add: recieve_loop.simps [of yield] recieve_round_def get_thread_def)

lemma recieve_pending:
  assumes cur: "sched_current_thread k = Some cur" "cur \<noteq> NULL" and q: "quiet queue k"
    and p: "FLAG (t_flags (k_threads k cur)) THREAD_FLAG_PENDING_MSG"
  shows "message_recieve yield queue buffer k = finish_recieve yield queue cur buffer (acquire cur queue k)"
    and "queue \<noteq> NULL" and "mx_sleep_waiting (ko_mutex (k_kobjs (acquire cur queue k) queue)) = queue_init"
  using cur(1) recieve_loop_pending [OF cur q p] q by (simp_all add: message_recieve_def quiet_def)

lemma recieve_pending_user:
  assumes cur: "sched_current_thread k = Some cur" "cur \<noteq> NULL" and q: "quiet queue k"
    and p: "FLAG (t_flags (k_threads k cur)) THREAD_FLAG_PENDING_MSG"
    and m: "m = t_message (k_threads k cur)" "\<not> is_kernel_msg m"
  shows "message_recieve yield queue buffer k = Some (recieved queue cur buffer m (acquire cur queue k))"
  using recieve_pending [OF cur q p] finish_recieve_user [OF cur(2)] m by simp

lemma cap_table_lookup_cong:
  fixes k k' :: kernel
  assumes "k_caps k' = k_caps k" "k_cap_spaces k' = k_cap_spaces k"
  shows "cap_table_lookup k' table object = cap_table_lookup k table object"
  using assms
proof (induction k table object rule: cap_table_lookup.induct)
  case (1 k table object)
  then show ?case
    by (subst (1 2) cap_table_lookup.simps) (auto simp: Let_def)
qed

lemma cap_space_lookup_cong:
  fixes k k' :: kernel
  assumes "k_caps k' = k_caps k" "k_cap_spaces k' = k_cap_spaces k"
  shows "cap_space_lookup k' sp object = cap_space_lookup k sp object"
  using assms cap_table_lookup_cong [OF assms] by (simp add: cap_space_lookup_def)

text \<open>
  A space that can take another capability, and what putting one there leaves: with room, the
  capability is in an entry that was free, under a number that names it (or, for a capability space,
  that names the space's own entry 0), and nothing else has changed; without, nothing has.
\<close>

definition cap_room :: "'a kcap_scheme \<Rightarrow> ptr \<Rightarrow> bool" where
  "cap_room k sp \<longleftrightarrow> ce_permissions (k_caps k (cap_tbl k sp)) AND CAP_MODIFY \<noteq> 0 \<and>
     (\<exists>j. unat j < 256 \<and> ce_type (k_caps k (cap_slot (cap_tbl k sp) j)) = CAP_TYPE_NULL)"

definition cap_arrived :: "kernel \<Rightarrow> ptr \<Rightarrow> cap_entry_t \<Rightarrow> u32 \<Rightarrow> (ptr \<Rightarrow> cap_entry_t) \<Rightarrow> bool" where
  "cap_arrived k sp entry j C \<longleftrightarrow> j \<noteq> CAP_INVALID_OBJECT \<and> unat j < 256 \<and>
     ce_type (k_caps k (cap_slot (cap_tbl k sp) j)) = CAP_TYPE_NULL \<and>
     C = (k_caps k)(cap_slot (cap_tbl k sp) j := entry) \<and>
     cap_space_lookup (k\<lparr>k_caps := C\<rparr>) sp j = Some (if ce_type entry = CAP_TYPE_CAP_SPACE
       then cap_tbl k (ce_object entry) else cap_slot (cap_tbl k sp) j)"

definition cap_put :: "kernel \<Rightarrow> ptr \<Rightarrow> cap_entry_t \<Rightarrow> u32 \<Rightarrow> (ptr \<Rightarrow> cap_entry_t) \<Rightarrow> bool" where
  "cap_put k sp entry j C \<longleftrightarrow> (if cap_room k sp then cap_arrived k sp entry j C
     else j = CAP_INVALID_OBJECT \<and> C = k_caps k)"

lemma cap_space_insert_put:
  fixes k :: kernel
  assumes wf: "caps_wf k S" "sp \<in> S" and ty: "ce_type entry = CAP_TYPE_CAP_SPACE \<longrightarrow> ce_object entry \<in> S"
  obtains j C where "cap_space_insert sp entry k = Some (j, k\<lparr>k_caps := C\<rparr>)" and "cap_put k sp entry j C"
  using wf ty
proof (cases rule: cap_space_insert_any)
  case refused
  then have "cap_put k sp entry CAP_INVALID_OBJECT (k_caps k)" by (auto simp: cap_put_def cap_room_def)
  then show thesis using that [of CAP_INVALID_OBJECT "k_caps k"] refused(1) by simp
next
  case (slot j)
  let ?C = "(k_caps k)(cap_slot (cap_tbl k sp) j := entry)"
  have eq: "upd_cap (cap_slot (cap_tbl k sp) j) (\<lambda>_. entry) k = k\<lparr>k_caps := ?C\<rparr>" by (simp add: upd_cap_def)
  note w = slot(7) [unfolded eq]
  have "cap_space_lookup (k\<lparr>k_caps := ?C\<rparr>) sp j = Some (if ce_type entry = CAP_TYPE_CAP_SPACE
       then cap_tbl k (ce_object entry) else cap_slot (cap_tbl k sp) j)"
    using cap_space_lookup_slot [OF w wf(2) slot(3)] cap_space_lookup_sub(2) [OF w wf(2) slot(3,4), of entry 0] by simp
  then have "cap_arrived k sp entry j ?C" using slot(3-5) by (simp add: cap_arrived_def CAP_INVALID_OBJECT_def)
  moreover have "cap_room k sp" using slot(2,3,5) by (auto simp: cap_room_def)
  ultimately show thesis using that [of j ?C] slot(1) by (simp add: cap_put_def eq)
qed

lemma cap_put_cong:
  assumes "k_caps k' = k_caps k" "k_cap_spaces k' = k_cap_spaces k"
  shows "cap_put k' sp entry j C = cap_put k sp entry j C" and "cap_room k' sp = cap_room k sp"
    and "cap_arrived k' sp entry j C = cap_arrived k sp entry j C"
proof -
  have l: "cap_space_lookup (k'\<lparr>k_caps := C\<rparr>) sp j = cap_space_lookup (k\<lparr>k_caps := C\<rparr>) sp j" for C
    by (rule cap_space_lookup_cong) (simp_all add: assms)
  show "cap_put k' sp entry j C = cap_put k sp entry j C" "cap_room k' sp = cap_room k sp"
    "cap_arrived k' sp entry j C = cap_arrived k sp entry j C"
    unfolding cap_put_def cap_room_def cap_arrived_def assms l by (rule refl)+
qed

lemma recieve_pending_grant:
  assumes cur: "sched_current_thread k = Some cur" "cur \<noteq> NULL" and q: "quiet queue k"
    and p: "FLAG (t_flags (k_threads k cur)) THREAD_FLAG_PENDING_MSG"
    and m: "m = t_message (k_threads k cur)" "m_type m = MESSAGE_TYPE_GRANT_OBJECT"
    and wf: "caps_wf k S" "t_cap_space (k_threads k cur) \<in> S"
    and ty: "m_data0 m = CAP_TYPE_CAP_SPACE \<longrightarrow> m_data2 m \<in> S"
  shows "\<exists>j C. message_recieve yield queue buffer k =
      Some (recieved queue cur buffer (m\<lparr>m_data5 := j, m_data2 := 0\<rparr>) (acquire cur queue k\<lparr>k_caps := C\<rparr>)) \<and>
    cap_put k (t_cap_space (k_threads k cur))
      \<lparr>ce_type = m_data0 m, ce_permissions = m_data1 m, ce_object = m_data2 m\<rparr> j C"
proof -
  let ?k1 = "acquire cur queue k" and ?sp = "t_cap_space (k_threads k cur)"
  let ?e = "\<lparr>ce_type = m_data0 m, ce_permissions = m_data1 m, ce_object = m_data2 m\<rparr>"
  note r = recieve_pending [OF cur q p]
  have fin: "message_recieve yield queue buffer k =
      Some (recieved queue cur buffer (m\<lparr>m_data5 := j, m_data2 := 0\<rparr>) (?k1\<lparr>k_caps := C\<rparr>))"
    if "cap_space_insert ?sp ?e ?k1 = Some (j, ?k1\<lparr>k_caps := C\<rparr>)" for j C
    using r(1) finish_recieve_grant [OF cur(2) r(2) _ r(3) _ _ m(2), of j C] that cur(1) m(1) caps_wfD(1) [OF wf] by simp
  have eq: "caps_wf ?k1 S" using wf(1) by (simp add: caps_wf_def space_ok_def)
  have "ce_type ?e = CAP_TYPE_CAP_SPACE \<longrightarrow> ce_object ?e \<in> S" using ty by simp
  with eq wf(2) obtain j C where ins: "cap_space_insert ?sp ?e ?k1 = Some (j, ?k1\<lparr>k_caps := C\<rparr>)"
    and put: "cap_put ?k1 ?sp ?e j C" by (rule cap_space_insert_put)
  have "cap_put ?k1 ?sp ?e j C = cap_put k ?sp ?e j C" by (rule cap_put_cong) simp_all
  then show ?thesis using fin [OF ins] put by blast
qed

text \<open>
  \<^verbatim>\<open>message_recieve\<close> by a thread a message is pending for: it returns at once with the message in
  the buffer, the thread is running and no longer has a pending message, the endpoint is unlocked
  and nothing else changes. If the message grants a capability, the capability is put into the
  thread's space and the last word of the message is its number there, \<^verbatim>\<open>CAP_INVALID_OBJECT\<close> if there is
  no room; the object's address is not passed on.
\<close>

theorem message_recieve_pending:
  assumes cur: "sched_current_thread k = Some cur" "cur \<noteq> NULL" and q: "quiet queue k"
    and p: "FLAG (t_flags (k_threads k cur)) THREAD_FLAG_PENDING_MSG"
    and m: "m = t_message (k_threads k cur)"
  shows "(\<not> is_kernel_msg m \<longrightarrow>
      message_recieve yield queue buffer k = Some (recieved queue cur buffer m (acquire cur queue k))) \<and>
    (m_type m = MESSAGE_TYPE_GRANT_OBJECT \<and> caps_wf k S \<and> t_cap_space (k_threads k cur) \<in> S \<and>
      (m_data0 m = CAP_TYPE_CAP_SPACE \<longrightarrow> m_data2 m \<in> S) \<longrightarrow>
      (\<exists>j C. message_recieve yield queue buffer k =
          Some (recieved queue cur buffer (m\<lparr>m_data5 := j, m_data2 := 0\<rparr>) (acquire cur queue k\<lparr>k_caps := C\<rparr>)) \<and>
        cap_put k (t_cap_space (k_threads k cur))
          \<lparr>ce_type = m_data0 m, ce_permissions = m_data1 m, ce_object = m_data2 m\<rparr> j C))"
  using recieve_pending_user [OF cur q p m] recieve_pending_grant [OF cur q p m] by blast

text \<open>
  C15: \<^verbatim>\<open>message_recieve\<close> with senders waiting: the one that has waited longest leaves the queue, its
  message is taken over as it is, and it is made runnable (stopped, if it had faulted) and handed
  to \<^verbatim>\<open>sched_add_thread\<close>; then the receive is finished with that message.
\<close>

theorem message_recieve_from_sender:
  assumes cur: "sched_current_thread k = Some cur" "cur \<noteq> NULL"
    and q: "quiet queue k" "quiet s k" "queue \<noteq> s" "s \<noteq> cur"
    and p: "\<not> FLAG (t_flags (k_threads k cur)) THREAD_FLAG_PENDING_MSG"
    and rep: "queue_rep k (mq_senders (k_msg_queues k queue)) (n # ns) (s # ss)"
    and free: "slab_free queue_slab n (k_mm k) \<noteq> None"
  shows "\<exists>k6. message_recieve yield queue buffer k = do {
      k7 \<leftarrow> sched_add_thread yield s k6;
      finish_recieve yield queue cur buffer k7
    } \<and>
    k_threads k6 = (k_threads k)(
      cur := (k_threads k cur)\<lparr>t_message := t_message (k_threads k s)\<rparr>,
      s := (k_threads k s)\<lparr>t_state := (if FLAG (t_flags (k_threads k s)) THREAD_FLAG_FAULTED
        then SCHED_STATE_STOPPED else SCHED_STATE_RUNNING)\<rparr>) \<and>
    queue_rep k6 (mq_senders (k_msg_queues k6 queue)) ns ss \<and>
    mq_recievers (k_msg_queues k6 queue) = mq_recievers (k_msg_queues k queue)"
proof -
  have nz: "queue \<noteq> NULL" "s \<noteq> NULL" using q by (auto simp: quiet_def)
  let ?k1 = "acquire cur queue k"
  from rep free nz have "queue_rep ?k1 (mq_senders (k_msg_queues ?k1 queue)) (n # ns) (s # ss)"
    "slab_free queue_slab n (k_mm ?k1) \<noteq> None" by simp_all
  from pop_sender_rep [OF this(1) nz(1) this(2)] obtain w kk where
    pop: "pop_sender queue ?k1 = Some (s, kk\<lparr>k_msg_queues := (k_msg_queues ?k1)(queue := (k_msg_queues ?k1 queue)\<lparr>mq_senders := w\<rparr>)\<rparr>)"
    and w: "queue_rep kk w ns ss" and mr: "kq.more kk = kq.more ?k1" .
  note kk = kq_moreD [OF mr]
  let ?k2 = "kk\<lparr>k_msg_queues := (k_msg_queues ?k1)(queue := (k_msg_queues ?k1 queue)\<lparr>mq_senders := w\<rparr>)\<rparr>"
  have c2: "sched_current_thread ?k2 = Some cur"
    using cur(1) sched_current_thread_cong [of kk k] kk by simp
  have "quiet s ?k1" using q by simp
  then have q2: "quiet s ?k2" using kk by (simp add: quiet_def)
  let ?k3 = "acquire cur s ?k2"
  let ?k5 = "?k3\<lparr>k_threads := (k_threads k)(
      cur := (k_threads k cur)\<lparr>t_message := t_message (k_threads k s)\<rparr>,
      s := (k_threads k s)\<lparr>t_state := (if FLAG (t_flags (k_threads k s)) THREAD_FLAG_FAULTED
        then SCHED_STATE_STOPPED else SCHED_STATE_RUNNING)\<rparr>)\<rparr>"
  have sl: "mx_sleep_waiting (ko_mutex (k_kobjs ?k5 s)) = queue_init" using q2 by (simp add: quiet_def)
  have un: "kobject_unlock yield s ?k5 = Some (release s ?k5)" by (rule kobject_unlock_empty [OF nz(2) sl])
  have st: "set_sender_state s (?k3\<lparr>k_threads := (k_threads k)(
      cur := (k_threads k cur)\<lparr>t_message := t_message (k_threads k s)\<rparr>)\<rparr>) = Some ?k5"
    using nz q by (simp add: set_sender_state_def get_thread_def upd_thread_def)
  have "recieve_round yield queue cur buffer k = do {
      k7 \<leftarrow> sched_add_thread yield s (release s ?k5);
      k8 \<leftarrow> finish_recieve yield queue cur buffer k7;
      Some (Done k8)
    }"
    using cur nz pop kobject_lock_quiet [OF q(1) cur(1)] kobject_lock_quiet [OF q2 c2] st un p kk q(4)
    by (simp add: recieve_round_def get_thread_def upd_thread_def)
  then have "message_recieve yield queue buffer k = do {
      k7 \<leftarrow> sched_add_thread yield s (release s ?k5);
      finish_recieve yield queue cur buffer k7
    }"
    using cur(1) by (simp add: message_recieve_def recieve_loop.simps [of yield] Option.bind_assoc)
  moreover have "queue_rep (release s ?k5) (mq_senders (k_msg_queues (release s ?k5) queue)) ns ss"
    using w by simp
  ultimately show ?thesis by (intro exI [of _ "release s ?k5"]) simp
qed

text \<open>
  C17: \<^verbatim>\<open>message_recieve\<close> with nobody sending: the thread is \<^verbatim>\<open>WAITING\<close> and the last one on the
  endpoint's queue of receivers, the endpoint is unlocked, and the thread yields. When it runs again
  with a message pending, as \<^verbatim>\<open>message_send\<close> leaves it, the call returns with that message.
\<close>

theorem message_recieve_blocks:
  assumes cur: "sched_current_thread k = Some cur" "cur \<noteq> NULL" and q: "quiet queue k"
    and p: "\<not> FLAG (t_flags (k_threads k cur)) THREAD_FLAG_PENDING_MSG"
    and none: "mq_senders (k_msg_queues k queue) = queue_init"
    and rep: "queue_rep k (mq_recievers (k_msg_queues k queue)) ns rs"
    and node: "queue_node_create cur k \<noteq> None"
  shows "\<exists>k5 n. message_recieve yield queue buffer k = do {
      k6 \<leftarrow> yield k5;
      recieve_loop yield queue cur buffer k6
    } \<and>
    k_threads k5 = (k_threads k)(cur := (k_threads k cur)\<lparr>t_state := SCHED_STATE_WAITING\<rparr>) \<and>
    queue_rep k5 (mq_recievers (k_msg_queues k5 queue)) (ns @ [n]) (rs @ [cur]) \<and>
    \<not> mx_lock (ko_mutex (k_kobjs k5 queue)) \<and>
    (\<forall>k6 m. yield k5 = Some k6 \<and> sched_current_thread k6 = Some cur \<and> quiet queue k6 \<and>
      FLAG (t_flags (k_threads k6 cur)) THREAD_FLAG_PENDING_MSG \<and>
      t_message (k_threads k6 cur) = m \<and> \<not> is_kernel_msg m \<longrightarrow>
      message_recieve yield queue buffer k = Some (recieved queue cur buffer m (acquire cur queue k6)))"
proof -
  have nz: "queue \<noteq> NULL" using q by (simp add: quiet_def)
  let ?k1 = "acquire cur queue k"
  let ?k3 = "?k1\<lparr>k_threads := (k_threads k)(cur := (k_threads k cur)\<lparr>t_state := SCHED_STATE_WAITING\<rparr>)\<rparr>"
  have pop: "pop_sender queue ?k1 = Some (NULL, ?k1)" using pop_empty(2) [OF nz] none by simp
  have r3: "queue_rep ?k3 (mq_recievers (k_msg_queues ?k3 queue)) ns rs" using rep by simp
  have "queue_node_create cur ?k3 \<noteq> None" using node queue_node_create_None [of ?k3 k cur] by simp
  from push_reciever_rep [OF r3 nz this] obtain n w kk where
    push: "push_reciever queue cur ?k3 = Some (kk\<lparr>k_msg_queues := (k_msg_queues ?k3)(queue := (k_msg_queues ?k3 queue)\<lparr>mq_recievers := w\<rparr>)\<rparr>)"
    and w: "queue_rep kk w (ns @ [n]) (rs @ [cur])" and mr: "kq.more kk = kq.more ?k3" .
  note kk = kq_moreD [OF mr]
  let ?k4 = "kk\<lparr>k_msg_queues := (k_msg_queues ?k3)(queue := (k_msg_queues ?k3 queue)\<lparr>mq_recievers := w\<rparr>)\<rparr>"
  have "mx_sleep_waiting (ko_mutex (k_kobjs ?k4 queue)) = queue_init" using q by (simp add: kk quiet_def)
  from kobject_unlock_empty [OF nz this] have un: "kobject_unlock yield queue ?k4 = Some (release queue ?k4)" .
  have "recieve_round yield queue cur buffer k = do {
      k6 \<leftarrow> yield (release queue ?k4);
      Some (Retry k6)
    }"
    using cur kobject_lock_quiet [OF q cur(1)] pop push un p
    by (simp add: recieve_round_def get_thread_def upd_thread_def)
  then have mr: "message_recieve yield queue buffer k = do {
      k6 \<leftarrow> yield (release queue ?k4);
      recieve_loop yield queue cur buffer k6
    }"
    using cur(1) by (simp add: message_recieve_def recieve_loop.simps [of yield queue cur buffer k] Option.bind_assoc)
  have pend: "recieve_loop yield queue cur buffer k6 = Some (recieved queue cur buffer m (acquire cur queue k6))"
    if "sched_current_thread k6 = Some cur" "quiet queue k6" "FLAG (t_flags (k_threads k6 cur)) THREAD_FLAG_PENDING_MSG"
      "t_message (k_threads k6 cur) = m" "\<not> is_kernel_msg m" for k6 m
    using recieve_loop_pending [OF that(1) cur(2) that(2,3)] that(4,5) nz that(2)
      finish_recieve_user [OF cur(2), of queue "acquire cur queue k6"] by (simp add: quiet_def)
  have "\<not> mx_lock (ko_mutex (k_kobjs (release queue ?k4) queue))" by (simp add: release_def)
  then show ?thesis
    using w mr pend by (intro exI [of _ "release queue ?k4"] exI [of _ n]) (simp add: kk)
qed

subsection \<open>Witnesses\<close>

lemma boot_kernel_caps_wf: "caps_wf boot_kernel {0x1000, 0x2000}"
  using boot_caps_wf by (simp add: caps_wf_def space_ok_def boot_kernel_def)

text \<open>The boot state with a message pending for the current thread.\<close>

definition pending_kernel :: "message_t \<Rightarrow> kernel" where
  "pending_kernel m = boot_kernel\<lparr>k_threads := (k_threads boot_kernel)(0x5000 := (k_threads boot_kernel 0x5000)\<lparr>
     t_flags := SET_FLAG 1 THREAD_FLAG_PENDING_MSG, t_message := m\<rparr>)\<rparr>"

lemma pending_kernel_simps:
  "sched_current_thread (pending_kernel m) = Some 0x5000"
  "FLAG (t_flags (k_threads (pending_kernel m) 0x5000)) THREAD_FLAG_PENDING_MSG"
  "t_message (k_threads (pending_kernel m) 0x5000) = m"
  "t_cap_space (k_threads (pending_kernel m) 0x5000) = 0x1000"
  "p \<noteq> NULL \<Longrightarrow> quiet p (pending_kernel m)"
  "caps_wf (pending_kernel m) {0x1000, 0x2000}"
proof -
  have "t_cap_space (k_threads boot_kernel 0x5000) = 0x1000" by (simp add: boot_kernel_def)
  then show "t_cap_space (k_threads (pending_kernel m) 0x5000) = 0x1000" by (simp add: pending_kernel_def)
qed (use boot_kernel_current boot_quiet [of p] boot_kernel_caps_wf in
  \<open>simp_all add: pending_kernel_def SET_FLAG_def FLAG_def c4_enum quiet_def caps_wf_def space_ok_def\<close>)

text \<open>An instance: a thread is granted to the current thread, which also receives an ordinary message.\<close>

theorem message_recieve_pending_witness:
  "\<exists>k1 k2 j C. message_recieve (\<lambda>_. None) 0x9000 0x400 (pending_kernel (zero_message\<lparr>m_type := 300\<rparr>)) = Some k1 \<and>
     k_usermsg k1 0x400 = zero_message\<lparr>m_type := 300\<rparr> \<and>
     message_recieve (\<lambda>_. None) 0x9000 0x400 (pending_kernel (zero_message\<lparr>m_type := MESSAGE_TYPE_GRANT_OBJECT,
       m_data0 := CAP_TYPE_THREAD, m_data1 := 1, m_data2 := 0x5100\<rparr>)) = Some k2 \<and>
     m_data5 (k_usermsg k2 0x400) = j \<and> m_data2 (k_usermsg k2 0x400) = 0 \<and> k_caps k2 = C"
proof -
  let ?m = "zero_message\<lparr>m_type := MESSAGE_TYPE_GRANT_OBJECT,
       m_data0 := CAP_TYPE_THREAD, m_data1 := 1, m_data2 := 0x5100\<rparr>"
  let ?n = "zero_message\<lparr>m_type := 300\<rparr>"
  have "\<not> is_kernel_msg ?n" by (simp add: is_kernel_msg_def c4_enum)
  then have 1: "message_recieve (\<lambda>_. None) 0x9000 0x400 (pending_kernel ?n) =
      Some (recieved 0x9000 0x5000 0x400 ?n (acquire 0x5000 0x9000 (pending_kernel ?n)))"
    using message_recieve_pending [OF pending_kernel_simps(1) _ pending_kernel_simps(5,2), of "0x9000" ?n ?n]
    by (simp add: pending_kernel_simps)
  obtain j C where 2: "message_recieve (\<lambda>_. None) 0x9000 0x400 (pending_kernel ?m) =
      Some (recieved 0x9000 0x5000 0x400 (?m\<lparr>m_data5 := j, m_data2 := 0\<rparr>)
        (acquire 0x5000 0x9000 (pending_kernel ?m)\<lparr>k_caps := C\<rparr>))"
    using message_recieve_pending [OF pending_kernel_simps(1) _ pending_kernel_simps(5,2), of "0x9000" ?m ?m
        "\<lambda>_. None" "0x400" "{0x1000, 0x2000}"] pending_kernel_simps(6) [of ?m]
    by (auto simp: pending_kernel_simps c4_enum)
  show ?thesis unfolding 1 2 by (simp add: recieved_def)
qed

text \<open>C15: thread \<^verbatim>\<open>0x5100\<close> waits to send.\<close>

theorem message_recieve_from_sender_witness:
  "\<exists>(k :: kernel) k6 :: kernel. message_recieve (\<lambda>_. None) 0x9000 0x400 k = do {
       k7 \<leftarrow> sched_add_thread (\<lambda>_. None) 0x5100 k6;
       finish_recieve (\<lambda>_. None) 0x9000 0x5000 0x400 k7
     } \<and>
     t_message (k_threads k6 0x5000) = t_message (k_threads k 0x5100) \<and>
     queue_rep k6 (mq_senders (k_msg_queues k6 0x9000)) [] []"
proof (rule boot_one_waiter)
  fix q k1 n
  assume n: "queue_rep k1 q [n] [0x5100]" "slab_free queue_slab n (k_mm k1) \<noteq> None"
    "kq.more k1 = kq.more boot_kernel"
  let ?k = "k1\<lparr>k_msg_queues := (\<lambda>_. \<lparr>mq_recievers = queue_init, mq_senders = q\<rparr>)\<rparr>"
  note kk = kq_moreD [OF n(3)]
  have c: "sched_current_thread ?k = Some 0x5000"
    using boot_kernel_current sched_current_thread_cong [of k1 boot_kernel] kk by simp
  have qu: "quiet 0x9000 ?k" "quiet 0x5100 ?k"
    using boot_quiet [of "0x9000"] boot_quiet [of "0x5100"] kk by (simp_all add: quiet_def)
  have rep: "queue_rep ?k (mq_senders (k_msg_queues ?k 0x9000)) [n] [0x5100]" using n by simp
  have fr: "slab_free queue_slab n (k_mm ?k) \<noteq> None" using n by simp
  have p: "\<not> FLAG (t_flags (k_threads ?k 0x5000)) THREAD_FLAG_PENDING_MSG"
    by (simp add: kk) (simp add: boot_kernel_def FLAG_def c4_enum)
  have "(0x5000 :: ptr) \<noteq> NULL" "(0x9000 :: ptr) \<noteq> 0x5100" "(0x5100 :: ptr) \<noteq> 0x5000" by simp_all
  from message_recieve_from_sender [OF c this(1) qu this(2,3) p rep fr, of "\<lambda>_. None" "0x400"] show ?thesis
    by - (elim exE conjE, rule exI [where x = ?k], intro exI conjI, assumption, simp_all)
qed

text \<open>C17: the current thread waits on an idle endpoint, and is resumed with a message of type 300.\<close>

theorem message_recieve_blocks_witness:
  "\<exists>k'. message_recieve (\<lambda>_. Some (pending_kernel (zero_message\<lparr>m_type := 300\<rparr>))) 0x9000 0x400 boot_kernel = Some k' \<and>
     k_usermsg k' 0x400 = zero_message\<lparr>m_type := 300\<rparr> \<and> t_state (k_threads k' 0x5000) = SCHED_STATE_RUNNING"
proof -
  let ?n = "zero_message\<lparr>m_type := 300\<rparr>"
  have q: "mq_recievers (k_msg_queues boot_kernel 0x9000) = queue_init"
    "mq_senders (k_msg_queues boot_kernel 0x9000) = queue_init" by (simp_all add: boot_kernel_def)
  then have rep: "queue_rep boot_kernel (mq_recievers (k_msg_queues boot_kernel 0x9000)) [] []"
    using boot_kernel_rep by simp
  have p: "\<not> FLAG (t_flags (k_threads boot_kernel 0x5000)) THREAD_FLAG_PENDING_MSG"
    by (simp add: boot_kernel_def FLAG_def c4_enum)
  have "\<not> is_kernel_msg ?n" by (simp add: is_kernel_msg_def c4_enum)
  then have "message_recieve (\<lambda>_. Some (pending_kernel ?n)) 0x9000 0x400 boot_kernel =
      Some (recieved 0x9000 0x5000 0x400 ?n (acquire 0x5000 0x9000 (pending_kernel ?n)))"
    using message_recieve_blocks [OF boot_kernel_current _ boot_quiet p q(2) rep boot_node,
        of "\<lambda>_. Some (pending_kernel ?n)" "0x400"]
    by (auto simp: pending_kernel_simps)
  then show ?thesis by (simp add: recieved_def)
qed

section \<open>Asynchronous endpoints as bounded lines\<close>

text \<open>The nodes of the slab the message nodes come from, which is set up by the first allocation.\<close>

definition mslab_inv :: "kernel \<Rightarrow> bool" where
  "mslab_inv k \<longleftrightarrow>
     (if k_msg_node_init k then slab_inv message_node_slab (k_mm k) else region_inv (mm_region (k_mm k)))"

definition mslab_live :: "kernel \<Rightarrow> ptr set" where
  "mslab_live k = (if k_msg_node_init k then slab_live message_node_slab (k_mm k) else {})"

text \<open>The chain of nodes from a pointer on.\<close>

fun msg_chain :: "(ptr \<Rightarrow> message_node_t) \<Rightarrow> ptr \<Rightarrow> ptr list \<Rightarrow> bool" where
  "msg_chain h p [] \<longleftrightarrow> p = NULL"
| "msg_chain h p (n # ns) \<longleftrightarrow> p = n \<and> n \<noteq> NULL \<and> msg_chain h (mn_next (h n)) ns"

text \<open>An endpoint with the nodes \<open>ns\<close>, which hold the messages \<open>ms\<close>.\<close>

definition async_rep :: "ptr \<Rightarrow> kernel \<Rightarrow> ptr list \<Rightarrow> message_t list \<Rightarrow> bool" where
  "async_rep queue k ns ms \<longleftrightarrow> queue \<noteq> NULL \<and> mslab_inv k \<and> distinct ns \<and> set ns \<subseteq> mslab_live k \<and>
     msg_chain (k_msg_nodes k) (maq_first (k_msg_async k queue)) ns \<and>
     (ns \<noteq> [] \<longrightarrow> maq_last (k_msg_async k queue) = last ns) \<and>
     maq_elements (k_msg_async k queue) = of_nat (length ns) \<and> ms = map (\<lambda>n. mn_message (k_msg_nodes k n)) ns"

lemma msg_chain_upd: "n \<notin> set ns \<Longrightarrow> msg_chain (h(n := x)) p ns = msg_chain h p ns"
  by (induction ns arbitrary: p) auto

lemma msg_chain_append:
  assumes "msg_chain h p ns" "distinct ns" "n \<notin> set ns" "n \<noteq> NULL" "ns \<noteq> []"
  shows "msg_chain (h(last ns := (h (last ns))\<lparr>mn_next := n\<rparr>, n := x\<lparr>mn_next := NULL\<rparr>)) p (ns @ [n])"
  using assms
proof (induction ns arbitrary: p)
  case (Cons m ns)
  show ?case
  proof (cases "ns = []")
    case False
    then have "last ns \<noteq> m" using Cons.prems(2) last_in_set [OF False] by auto
    with Cons False show ?thesis by auto
  qed (use Cons.prems in auto)
qed simp

lemma msg_chain_NULL: "msg_chain h p ns \<Longrightarrow> NULL \<notin> set ns"
  by (induction ns arbitrary: p) auto

lemma message_node_alloc_ok:
  assumes inv: "mslab_inv k" and a: "message_node_alloc m k = Some (n, k')"
  shows "n \<noteq> NULL" "n \<notin> mslab_live k" "mslab_inv k'" "mslab_live k' = insert n (mslab_live k)"
    "\<exists>mm b. k' = k\<lparr>k_mm := mm, k_msg_node_init := b,
      k_msg_nodes := (k_msg_nodes k)(n := (k_msg_nodes k n)\<lparr>mn_message := m\<rparr>)\<rparr>"
proof -
  let ?m = "if k_msg_node_init k then k_mm k else slab_init_at message_node_slab sizeof_message_node_t NULL NULL (k_mm k)"
  have s: "slab_inv message_node_slab ?m" "slab_live message_node_slab ?m = mslab_live k"
    using inv slab_init_ok [of "k_mm k" sizeof_message_node_t message_node_slab NULL NULL]
    by (simp_all add: mslab_inv_def mslab_live_def sizeof_message_node_t_def slab_adjust_size_def
        PAGE_SIZE_def BITMAP_BPS_def split: if_splits)
  from a obtain mm where al: "slab_alloc message_node_slab ?m = Some (n, mm)" and n: "n \<noteq> NULL"
    and k': "k' = k\<lparr>k_mm := mm, k_msg_node_init := True,
      k_msg_nodes := (k_msg_nodes k)(n := (k_msg_nodes k n)\<lparr>mn_message := m\<rparr>)\<rparr>"
    by (cases k) (auto simp: message_node_alloc_def k_slab_alloc_def k_slab_init_def get_msgnode_def set_msgnode_def
        Let_def elim!: bind_eq_SomeE split: if_splits)
  show "n \<noteq> NULL" by (rule n)
  from slab_alloc_ok [OF s(1) al] s(2) show "n \<notin> mslab_live k" "mslab_inv k'" "mslab_live k' = insert n (mslab_live k)"
    by (auto simp: k' mslab_inv_def mslab_live_def)
  show "\<exists>mm b. k' = k\<lparr>k_mm := mm, k_msg_node_init := b,
      k_msg_nodes := (k_msg_nodes k)(n := (k_msg_nodes k n)\<lparr>mn_message := m\<rparr>)\<rparr>" using k' by blast
qed

text \<open>Putting a message into an endpoint and taking one out, as sending and receiving do it.\<close>

definition async_put :: "ptr \<Rightarrow> message_t \<Rightarrow> kernel \<Rightarrow> kernel option" where
  "async_put queue m k = do {
     (node, k1) \<leftarrow> message_node_alloc m k;
     message_queue_async_insert queue node k1
   }"

definition async_get :: "ptr \<Rightarrow> kernel \<Rightarrow> (message_t \<times> kernel) option" where
  "async_get queue k = do {
     (node, k1) \<leftarrow> message_queue_async_remove queue k;
     n \<leftarrow> get_msgnode node k1;
     k2 \<leftarrow> message_node_free node k1;
     Some (mn_message n, k2)
   }"

lemma async_put_ok:
  assumes rep: "async_rep queue k ns ms" and p: "async_put queue m k = Some k'"
  shows "\<exists>n. async_rep queue k' (ns @ [n]) (ms @ [m])"
    and "k' = k\<lparr>k_mm := k_mm k', k_msg_node_init := k_msg_node_init k', k_msg_nodes := k_msg_nodes k',
      k_msg_async := (k_msg_async k)(queue := k_msg_async k' queue)\<rparr>"
    and "maq_recievers (k_msg_async k' queue) = maq_recievers (k_msg_async k queue)"
proof -
  from p obtain n k1 where a: "message_node_alloc m k = Some (n, k1)"
    and i: "message_queue_async_insert queue n k1 = Some k'" by (auto simp: async_put_def elim!: bind_eq_SomeE)
  have r: "queue \<noteq> NULL" "mslab_inv k" "distinct ns" "set ns \<subseteq> mslab_live k"
    "msg_chain (k_msg_nodes k) (maq_first (k_msg_async k queue)) ns" using rep by (auto simp: async_rep_def)
  note n = message_node_alloc_ok [OF r(2) a]
  from n(5) obtain mm b where k1: "k1 = k\<lparr>k_mm := mm, k_msg_node_init := b,
      k_msg_nodes := (k_msg_nodes k)(n := (k_msg_nodes k n)\<lparr>mn_message := m\<rparr>)\<rparr>" by blast
  have nn: "n \<notin> set ns" using n(2) r(4) by auto
  let ?q = "k_msg_async k queue"
  let ?h = "k_msg_nodes k1"
  let ?g = "if ns = [] then ?h else ?h(last ns := (?h (last ns))\<lparr>mn_next := n\<rparr>)"
  let ?q' = "\<lparr>maq_recievers = maq_recievers ?q, maq_first = (if ns = [] then n else maq_first ?q),
      maq_last = n, maq_elements = of_nat (Suc (length ns))\<rparr>"
  have ch1: "msg_chain ?h (maq_first ?q) ns" using r(5) nn by (simp add: k1 msg_chain_upd)
  have f: "maq_first ?q = NULL \<longleftrightarrow> ns = []" using ch1 by (cases ns) auto
  have l: "ns \<noteq> [] \<Longrightarrow> last ns \<noteq> NULL" using msg_chain_NULL [OF ch1] last_in_set by fastforce
  have el: "ns \<noteq> [] \<Longrightarrow> maq_last ?q = last ns" "maq_elements ?q = of_nat (length ns)"
    using rep by (auto simp: async_rep_def)
  have ln: "ns \<noteq> [] \<Longrightarrow> last ns \<noteq> n" using nn last_in_set by fastforce
  have gn: "?g n = ?h n" using ln by auto
  have k': "k' = k1\<lparr>k_msg_async := (k_msg_async k)(queue := ?q'), k_msg_nodes := ?g(n := (?h n)\<lparr>mn_next := NULL\<rparr>)\<rparr>"
  proof (cases "ns = []")
    case True
    then show ?thesis using i f r(1) n(1) el(2)
      by (cases ?q) (auto simp: message_queue_async_insert_def get_msgaq_def set_msgaq_def get_msgnode_def set_msgnode_def k1)
  next
    case False
    then show ?thesis using i f r(1) n(1) el l ln
      by (cases ?q) (auto simp: message_queue_async_insert_def get_msgaq_def set_msgaq_def get_msgnode_def set_msgnode_def k1
          fun_upd_twist add.commute)
  qed
  have "msg_chain (k_msg_nodes k') (maq_first ?q') (ns @ [n])"
    using msg_chain_append [OF ch1 r(3) nn n(1), of "?h n"] n(1) by (auto simp: k')
  moreover have "map (\<lambda>n. mn_message (k_msg_nodes k' n)) (ns @ [n]) = ms @ [m]"
    using rep nn by (auto simp: k' k1 async_rep_def)
  moreover have "mslab_inv k'" "mslab_live k' = insert n (mslab_live k)"
    using n(3) unfolding n(4) [symmetric] by (simp_all add: k' mslab_inv_def mslab_live_def)
  ultimately have "async_rep queue k' (ns @ [n]) (ms @ [m])"
    using r nn by (auto simp: async_rep_def k')
  then show "\<exists>n. async_rep queue k' (ns @ [n]) (ms @ [m])" ..
  show "k' = k\<lparr>k_mm := k_mm k', k_msg_node_init := k_msg_node_init k', k_msg_nodes := k_msg_nodes k',
      k_msg_async := (k_msg_async k)(queue := k_msg_async k' queue)\<rparr>"
    "maq_recievers (k_msg_async k' queue) = maq_recievers ?q" by (simp_all add: k' k1)
qed

lemma async_remove_cons:
  assumes rep: "async_rep queue k (n # ns) (m # ms)"
  obtains k1 where "message_queue_async_remove queue k = Some (n, k1)"
    and "k1 = k\<lparr>k_msg_async := (k_msg_async k)(queue := k_msg_async k1 queue)\<rparr>"
    and "maq_recievers (k_msg_async k1 queue) = maq_recievers (k_msg_async k queue)"
    and "n \<noteq> NULL" and "mn_message (k_msg_nodes k n) = m"
    and "\<And>k2. message_node_free n k1 = Some k2 \<Longrightarrow> k2 = k1\<lparr>k_mm := k_mm k2\<rparr> \<and> async_rep queue k2 ns ms"
proof -
  let ?q = "k_msg_async k queue"
  have r: "queue \<noteq> NULL" "mslab_inv k" "distinct (n # ns)" "set (n # ns) \<subseteq> mslab_live k" "maq_first ?q = n" "n \<noteq> NULL"
    "msg_chain (k_msg_nodes k) (mn_next (k_msg_nodes k n)) ns" "maq_last ?q = last (n # ns)"
    "maq_elements ?q = of_nat (Suc (length ns))"
    using rep by (auto simp: async_rep_def)
  have nx: "mn_next (k_msg_nodes k n) = NULL \<longleftrightarrow> ns = []" using r(7) by (cases ns) auto
  let ?k1 = "k\<lparr>k_msg_async := (k_msg_async k)(queue := \<lparr>maq_recievers = maq_recievers ?q,
      maq_first = mn_next (k_msg_nodes k n), maq_last = (if ns = [] then NULL else last ns),
      maq_elements = of_nat (length ns)\<rparr>)\<rparr>"
  have 1: "message_queue_async_remove queue k = Some (n, ?k1)"
    using r nx
    by (cases ?q) (auto simp: message_queue_async_remove_def get_msgaq_def set_msgaq_def get_msgnode_def Let_def)
  have 2: "k2 = ?k1\<lparr>k_mm := k_mm k2\<rparr> \<and> async_rep queue k2 ns ms" if "message_node_free n ?k1 = Some k2" for k2
  proof -
    from that obtain mm where mm: "slab_free message_node_slab n (k_mm k) = Some mm" "k2 = ?k1\<lparr>k_mm := mm\<rparr>"
      by (auto simp: message_node_free_def k_slab_free_def elim!: bind_eq_SomeE)
    have i: "k_msg_node_init k" "slab_inv message_node_slab (k_mm k)" "n \<in> slab_live message_node_slab (k_mm k)"
      using r(2,4) by (auto simp: mslab_inv_def mslab_live_def split: if_splits)
    from slab_free_ok [OF i(2,3) mm(1)] have "mslab_inv k2" "mslab_live k2 = mslab_live k - {n}"
      using i(1) by (simp_all add: mslab_inv_def mslab_live_def mm(2))
    moreover have "ms = map (\<lambda>n. mn_message (k_msg_nodes k n)) ns" using rep by (simp add: async_rep_def)
    ultimately show ?thesis using r by (auto simp: async_rep_def mm(2))
  qed
  have m: "mn_message (k_msg_nodes k n) = m" using rep by (simp add: async_rep_def)
  show thesis by (rule that [OF 1 _ _ r(6) m 2]) simp_all
qed

lemma async_remove_nil:
  "async_rep queue k [] [] \<Longrightarrow> message_queue_async_remove queue k = Some (NULL, k)"
  by (auto simp: async_rep_def message_queue_async_remove_def get_msgaq_def)

interpretation async: fifo "\<lambda>k ms. \<exists>ns. async_rep queue k ns ms" "async_put queue" "async_get queue" for queue
proof (unfold_locales, goal_cases)
  case (1 k ms m k')
  then show ?case using async_put_ok(1) by blast
next
  case (2 k m ms x k')
  then obtain ns where "async_rep queue k ns (m # ms)" by blast
  moreover from this obtain n ns' where "ns = n # ns'" by (cases ns) (auto simp: async_rep_def)
  ultimately have "async_rep queue k (n # ns') (m # ms)" by simp
  then show ?case
  proof (rule async_remove_cons)
    fix k1 assume k1: "message_queue_async_remove queue k = Some (n, k1)"
      "k1 = k\<lparr>k_msg_async := (k_msg_async k)(queue := k_msg_async k1 queue)\<rparr>" "n \<noteq> NULL"
      "mn_message (k_msg_nodes k n) = m"
      "\<And>k2. message_node_free n k1 = Some k2 \<Longrightarrow> k2 = k1\<lparr>k_mm := k_mm k2\<rparr> \<and> async_rep queue k2 ns' ms"
    have "k_msg_nodes k1 = k_msg_nodes k" by (subst k1(2)) simp
    with 2(2) k1 show ?case by (auto simp: async_get_def get_msgnode_def elim!: bind_eq_SomeE)
  qed
qed

lemma async_put_None:
  assumes "async_rep queue k ns ms"
  shows "async_put queue m k = None \<longleftrightarrow> message_node_alloc m k = None"
proof (cases "message_node_alloc m k")
  case (Some r)
  then obtain n k1 where a: "message_node_alloc m k = Some (n, k1)" by (cases r) auto
  have r: "mslab_inv k" "queue \<noteq> NULL" "msg_chain (k_msg_nodes k) (maq_first (k_msg_async k queue)) ns"
    using assms by (auto simp: async_rep_def)
  note n = message_node_alloc_ok [OF r(1) a]
  have q: "k_msg_async k1 = k_msg_async k" using n(5) by auto
  have "maq_first (k_msg_async k queue) \<noteq> NULL \<Longrightarrow> maq_last (k_msg_async k queue) \<noteq> NULL"
    using msg_chain_NULL [OF r(3)] r(3) assms by (cases ns rule: rev_cases) (auto simp: async_rep_def)
  then show ?thesis
    using a r(2) n(1) q by (auto simp: async_put_def message_queue_async_insert_def get_msgaq_def set_msgaq_def
        get_msgnode_def set_msgnode_def split: bind_splits)
qed (simp add: async_put_def)

lemma message_node_alloc_None:
  assumes "k_mm k' = k_mm k" "k_msg_node_init k' = k_msg_node_init k"
  shows "message_node_alloc m k' = None \<longleftrightarrow> message_node_alloc m k = None"
  using assms
  by (auto simp: message_node_alloc_def k_slab_init_def k_slab_alloc_def get_msgnode_def set_msgnode_def Let_def
      split: bind_splits if_splits)

lemma async_rep_cong:
  assumes "k_mm k' = k_mm k" "k_msg_node_init k' = k_msg_node_init k" "k_msg_nodes k' = k_msg_nodes k"
    "k_msg_async k' queue = k_msg_async k queue"
  shows "async_rep queue k' = async_rep queue k"
  by (intro ext) (simp add: assms async_rep_def mslab_inv_def mslab_live_def)

lemma async_rep_lock [simp]:
  "async_rep queue (acquire c p k) = async_rep queue k" "async_rep queue (release p k) = async_rep queue k"
  by (rule async_rep_cong; simp)+

lemma push_async_rep:
  assumes "queue_rep k (maq_recievers (k_msg_async k q)) ns ts" "q \<noteq> NULL" "queue_node_create t k \<noteq> None"
  obtains n r k1 where "push_async_reciever q t k = Some (k1\<lparr>k_msg_async := (k_msg_async k)
      (q := (k_msg_async k q)\<lparr>maq_recievers := r\<rparr>)\<rparr>)"
    and "queue_rep k1 r (ns @ [n]) (ts @ [t])" and "kq.more k1 = kq.more k"
proof -
  from queue_push_back_None [OF assms(1), of t] assms(3) obtain r k1 where
    push: "queue_push_back (maq_recievers (k_msg_async k q)) t k = Some (r, k1)" by auto
  from queue.push_back_rep [OF assms(1) push] obtain n where n: "queue_rep k1 r (ns @ [n]) (ts @ [t])" by blast
  note m = queue_push_back_more [OF push]
  have "push_async_reciever q t k = Some (k1\<lparr>k_msg_async := (k_msg_async k)(q := (k_msg_async k q)\<lparr>maq_recievers := r\<rparr>)\<rparr>)"
    using push assms(2) kq_moreD [OF m]
    by (simp add: push_async_reciever_def get_msgaq_def set_msgaq_def thread_queue_push_back_def)
  then show ?thesis using that n m by blast
qed

lemma pop_async_empty:
  "q \<noteq> NULL \<Longrightarrow> maq_recievers (k_msg_async k q) = queue_init \<Longrightarrow> pop_async_reciever q k = Some (NULL, k)"
  by (cases "k_msg_async k q") (simp add: pop_async_reciever_def get_msgaq_def set_msgaq_def
      thread_queue_pop_front_def queue_pop_front_def queue_init_def fun_upd_idem)

lemma message_send_async_idle:
  assumes cur: "sched_current_thread k = Some cur" "cur \<noteq> NULL" and q: "quiet queue k"
    and rep: "async_rep queue k ns ms" and len: "length ms \<le> unat MESSAGE_MAX_QUEUE_ELEMENTS"
    and none: "maq_recievers (k_msg_async k queue) = queue_init"
    and node: "message_node_alloc (read_msg msg k) k \<noteq> None"
  shows "\<exists>k' ns'. message_send_async yield queue msg k =
      Some (length ms < unat MESSAGE_MAX_QUEUE_ELEMENTS, k') \<and>
    async_rep queue k' ns' (if length ms < unat MESSAGE_MAX_QUEUE_ELEMENTS then ms @ [read_msg msg k] else ms) \<and>
    k_threads k' = k_threads k \<and> \<not> mx_lock (ko_mutex (k_kobjs k' queue))"
proof -
  let ?k1 = "acquire cur queue k"
  have nz: "queue \<noteq> NULL" and sl: "mx_sleep_waiting (ko_mutex (k_kobjs ?k1 queue)) = queue_init"
    using q by (auto simp: quiet_def)
  have lm: "length ns = length ms" "maq_elements (k_msg_async k queue) = of_nat (length ns)"
    using rep by (auto simp: async_rep_def)
  have full: "maq_elements (k_msg_async ?k1 queue) \<ge> MESSAGE_MAX_QUEUE_ELEMENTS \<longleftrightarrow>
      \<not> length ms < unat MESSAGE_MAX_QUEUE_ELEMENTS"
    using lm len by (simp add: word_le_nat_alt unat_of_nat c4_enum not_less)
  have unlocked: "\<not> mx_lock (ko_mutex (k_kobjs (release queue k') queue))" for k' by (simp add: release_def)
  have rd: "read_msg msg ?k1 = read_msg msg k" by (cases msg) simp_all
  show ?thesis
  proof (cases "length ms < unat MESSAGE_MAX_QUEUE_ELEMENTS")
    case False
    have "message_send_async yield queue msg k = Some (False, release queue ?k1)"
      using cur nz False full kobject_lock_quiet [OF q cur(1)] kobject_unlock_empty [OF nz sl]
      by (simp add: message_send_async_def get_msgaq_def get_thread_def)
    then show ?thesis
      using False rep unlocked by (intro exI [of _ "release queue ?k1"] exI [of _ ns]) simp
  next
    case True
    have "message_node_alloc (read_msg msg k) ?k1 \<noteq> None"
      using node message_node_alloc_None [of ?k1 k] by simp
    moreover from rep have rep1: "async_rep queue ?k1 ns ms" by simp
    ultimately obtain k3 where put: "async_put queue (read_msg msg k) ?k1 = Some k3"
      using async_put_None [OF rep1, of "read_msg msg k"] by fastforce
    note k3 = async_put_ok [OF rep1 put]
    have f: "k_kobjs k3 = k_kobjs ?k1" "k_threads k3 = k_threads k" by (subst k3(2), simp)+
    have pop: "pop_async_reciever queue k3 = Some (NULL, k3)" by (rule pop_async_empty [OF nz]) (simp add: k3(3) none)
    have un: "kobject_unlock yield queue k3 = Some (release queue k3)"
      by (rule kobject_unlock_empty [OF nz]) (use sl f in simp)
    have "message_send_async yield queue msg k = Some (True, release queue k3)"
      using cur nz True full kobject_lock_quiet [OF q cur(1)] put pop un rd
      by (auto simp: message_send_async_def async_put_def get_msgaq_def elim!: bind_eq_SomeE)
    then show ?thesis
      using True k3(1) f unlocked by (fastforce intro: exI [of _ "release queue k3"])
  qed
qed

text \<open>
  C24: \<^verbatim>\<open>message_send_async\<close> never blocks and never overruns the bound: on an endpoint that holds fewer
  than \<^verbatim>\<open>MESSAGE_MAX_QUEUE_ELEMENTS\<close> messages and where nobody waits, the message becomes the last one
  and the answer is true; at the bound the answer is false and the messages are as before. No thread
  changes, and the endpoint is unlocked.
\<close>

theorem message_send_async_bounded:
  assumes cur: "sched_current_thread k = Some cur" "cur \<noteq> NULL" and q: "quiet queue k"
    and rep: "async_rep queue k ns ms" and len: "length ms \<le> unat MESSAGE_MAX_QUEUE_ELEMENTS"
    and none: "maq_recievers (k_msg_async k queue) = queue_init"
    and node: "message_node_alloc (read_msg msg k) k \<noteq> None"
  shows "\<exists>k' ns'. message_send_async yield queue msg k =
      Some (length ms < unat MESSAGE_MAX_QUEUE_ELEMENTS, k') \<and>
    async_rep queue k' ns' (if length ms < unat MESSAGE_MAX_QUEUE_ELEMENTS then ms @ [read_msg msg k] else ms) \<and>
    k_threads k' = k_threads k \<and> \<not> mx_lock (ko_mutex (k_kobjs k' queue))"
  using message_send_async_idle [OF assms] .

lemma release_unlocked: "\<not> mx_lock (ko_mutex (k_kobjs (release queue k) queue))"
  by (simp add: release_def)

text \<open>One round of the loop, and what it does on an endpoint with a message and on an empty one.\<close>

lemma recieve_async_step:
  "sched_current_thread k = Some cur \<Longrightarrow> message_recieve_async yield queue buffer flags k = do {
      r \<leftarrow> recieve_async_round yield queue cur buffer flags k;
      case r of Done x \<Rightarrow> Some x | Retry k1 \<Rightarrow> recieve_async_loop yield queue cur buffer flags k1
    }"
  by (simp add: message_recieve_async_def recieve_async_loop.simps [of yield queue cur buffer flags k])

lemma recieve_async_first:
  assumes cur: "sched_current_thread k = Some cur" and q: "quiet queue k"
    and rep: "async_rep queue k (n # ns) (m # ms)" and free: "slab_free message_node_slab n (k_mm k) \<noteq> None"
  shows "\<exists>k'. message_recieve_async yield queue buffer flags k = Some (True, k') \<and>
    k_usermsg k' = (k_usermsg k)(buffer := m) \<and> async_rep queue k' ns ms \<and>
    k_threads k' = k_threads k \<and> \<not> mx_lock (ko_mutex (k_kobjs k' queue))"
proof -
  let ?k1 = "acquire cur queue k"
  have nz: "queue \<noteq> NULL" and sl: "mx_sleep_waiting (ko_mutex (k_kobjs ?k1 queue)) = queue_init"
    using q by (auto simp: quiet_def)
  from rep have "async_rep queue ?k1 (n # ns) (m # ms)" by simp
  then show ?thesis
  proof (rule async_remove_cons)
    fix k2 assume k2: "message_queue_async_remove queue ?k1 = Some (n, k2)"
      "k2 = ?k1\<lparr>k_msg_async := (k_msg_async ?k1)(queue := k_msg_async k2 queue)\<rparr>" "n \<noteq> NULL"
      "mn_message (k_msg_nodes ?k1 n) = m"
      "\<And>k3. message_node_free n k2 = Some k3 \<Longrightarrow> k3 = k2\<lparr>k_mm := k_mm k3\<rparr> \<and> async_rep queue k3 ns ms"
    have f: "k_msg_nodes k2 = k_msg_nodes k" "k_usermsg k2 = k_usermsg k" "k_mm k2 = k_mm k"
      "k_threads k2 = k_threads k" "k_kobjs k2 = k_kobjs ?k1"
      by (subst k2(2), simp)+
    from free obtain mm where mm: "slab_free message_node_slab n (k_mm k) = Some mm" by auto
    then have "message_node_free n k2 = Some (k2\<lparr>k_mm := mm\<rparr>)"
      using f by (simp add: message_node_free_def k_slab_free_def)
    from k2(5) [OF this] have r2: "async_rep queue (k2\<lparr>k_mm := mm\<rparr>) ns ms" by simp
    let ?k3 = "k2\<lparr>k_usermsg := (k_usermsg k)(buffer := m), k_mm := mm\<rparr>"
    have fr: "message_node_free n (k2\<lparr>k_usermsg := (k_usermsg k)(buffer := m)\<rparr>) = Some ?k3"
      using mm f by (simp add: message_node_free_def k_slab_free_def)
    have r3: "async_rep queue ?k3 ns ms" using r2 async_rep_cong [of ?k3 "k2\<lparr>k_mm := mm\<rparr>" queue] by simp
    have un: "kobject_unlock yield queue ?k3 = Some (release queue ?k3)"
      by (rule kobject_unlock_empty [OF nz]) (use sl f in simp)
    have "message_recieve_async yield queue buffer flags k = Some (True, release queue ?k3)"
      using recieve_async_step [OF cur] kobject_lock_quiet [OF q cur] k2(1,3,4) f fr un
      by (simp add: recieve_async_round_def get_msgnode_def)
    then show ?thesis using r3 f release_unlocked by simp
  qed
qed

lemma recieve_async_waits:
  assumes cur: "sched_current_thread k = Some cur" "cur \<noteq> NULL" and q: "quiet queue k"
    and rep: "async_rep queue k [] []" and block: "flags AND MESSAGE_ASYNC_BLOCK \<noteq> 0"
    and recs: "queue_rep k (maq_recievers (k_msg_async k queue)) xs ts" and node: "queue_node_create cur k \<noteq> None"
  shows "\<exists>k5 n. message_recieve_async yield queue buffer flags k = do {
      k6 \<leftarrow> yield k5;
      recieve_async_loop yield queue cur buffer flags k6
    } \<and>
    k_threads k5 = (k_threads k)(cur := (k_threads k cur)\<lparr>t_state := SCHED_STATE_WAITING_ASYNC\<rparr>) \<and>
    queue_rep k5 (maq_recievers (k_msg_async k5 queue)) (xs @ [n]) (ts @ [cur]) \<and>
    \<not> mx_lock (ko_mutex (k_kobjs k5 queue))"
proof -
  let ?k1 = "acquire cur queue k"
  let ?k3 = "?k1\<lparr>k_threads := (k_threads k)(cur := (k_threads k cur)\<lparr>t_state := SCHED_STATE_WAITING_ASYNC\<rparr>)\<rparr>"
  have nz: "queue \<noteq> NULL" and sl: "mx_sleep_waiting (ko_mutex (k_kobjs ?k1 queue)) = queue_init"
    using q by (auto simp: quiet_def)
  from rep have rep1: "async_rep queue ?k1 [] []" by simp
  have r3: "queue_rep ?k3 (maq_recievers (k_msg_async ?k3 queue)) xs ts" using recs by simp
  have "queue_node_create cur ?k3 \<noteq> None" using node queue_node_create_None [of ?k3 k cur] by simp
  from push_async_rep [OF r3 nz this] obtain n w kk where
    push: "push_async_reciever queue cur ?k3 = Some (kk\<lparr>k_msg_async := (k_msg_async ?k3)(queue := (k_msg_async ?k3 queue)\<lparr>maq_recievers := w\<rparr>)\<rparr>)"
    and w: "queue_rep kk w (xs @ [n]) (ts @ [cur])" and mr: "kq.more kk = kq.more ?k3" .
  note kk = kq_moreD [OF mr]
  let ?k4 = "kk\<lparr>k_msg_async := (k_msg_async ?k3)(queue := (k_msg_async ?k3 queue)\<lparr>maq_recievers := w\<rparr>)\<rparr>"
  have "mx_sleep_waiting (ko_mutex (k_kobjs ?k4 queue)) = queue_init" using sl by (simp add: kk)
  from kobject_unlock_empty [OF nz this] have un: "kobject_unlock yield queue ?k4 = Some (release queue ?k4)" .
  have "recieve_async_round yield queue cur buffer flags k = do {
      k6 \<leftarrow> yield (release queue ?k4);
      Some (Retry k6)
    }"
    using kobject_lock_quiet [OF q cur(1)] async_remove_nil [OF rep1] block push un cur
    by (simp add: recieve_async_round_def upd_thread_def)
  then have "message_recieve_async yield queue buffer flags k = do {
      k6 \<leftarrow> yield (release queue ?k4);
      recieve_async_loop yield queue cur buffer flags k6
    }"
    using recieve_async_step [OF cur(1)] by (simp add: Option.bind_assoc)
  then show ?thesis
    using w release_unlocked by (auto simp: kk intro!: exI [of _ "release queue ?k4"])
qed

text \<open>
  C25: \<^verbatim>\<open>message_recieve_async\<close> takes the first message: with a message there it is in the buffer, the
  others stay in order, and the answer is true. With none, a call that does not ask to block returns
  false and changes nothing but the lock's owner; one that does leaves the thread \<^verbatim>\<open>WAITING_ASYNC\<close> and
  last among the receivers, and yields.
\<close>

theorem message_recieve_async_takes:
  assumes cur: "sched_current_thread k = Some cur" "cur \<noteq> NULL" and q: "quiet queue k"
    and rep: "async_rep queue k ns ms"
    and free: "ns \<noteq> [] \<Longrightarrow> slab_free message_node_slab (hd ns) (k_mm k) \<noteq> None"
    and recs: "queue_rep k (maq_recievers (k_msg_async k queue)) xs ts" and node: "queue_node_create cur k \<noteq> None"
  shows "case ms of
      m # ms' \<Rightarrow> \<exists>k'. message_recieve_async yield queue buffer flags k = Some (True, k') \<and>
        k_usermsg k' = (k_usermsg k)(buffer := m) \<and> async_rep queue k' (tl ns) ms' \<and>
        k_threads k' = k_threads k \<and> \<not> mx_lock (ko_mutex (k_kobjs k' queue))
    | [] \<Rightarrow> if flags AND MESSAGE_ASYNC_BLOCK = 0
        then message_recieve_async yield queue buffer flags k = Some (False, release queue (acquire cur queue k))
        else \<exists>k5 n. message_recieve_async yield queue buffer flags k = do {
            k6 \<leftarrow> yield k5;
            recieve_async_loop yield queue cur buffer flags k6
          } \<and>
          k_threads k5 = (k_threads k)(cur := (k_threads k cur)\<lparr>t_state := SCHED_STATE_WAITING_ASYNC\<rparr>) \<and>
          queue_rep k5 (maq_recievers (k_msg_async k5 queue)) (xs @ [n]) (ts @ [cur]) \<and>
          \<not> mx_lock (ko_mutex (k_kobjs k5 queue))"
proof (cases ms)
  case Nil
  with rep have rep0: "async_rep queue k [] []" by (auto simp: async_rep_def)
  from rep0 have rep1: "async_rep queue (acquire cur queue k) [] []" by simp
  have nz: "queue \<noteq> NULL" and sl: "mx_sleep_waiting (ko_mutex (k_kobjs (acquire cur queue k) queue)) = queue_init"
    using q by (auto simp: quiet_def)
  have "message_recieve_async yield queue buffer flags k = Some (False, release queue (acquire cur queue k))"
    if "flags AND MESSAGE_ASYNC_BLOCK = 0"
    using that recieve_async_step [OF cur(1)] kobject_lock_quiet [OF q cur(1)] async_remove_nil [OF rep1] kobject_unlock_empty [OF nz sl]
    by (simp add: recieve_async_round_def)
  then show ?thesis
    using Nil recieve_async_waits [OF cur q rep0 _ recs node] by simp
next
  case (Cons m ms')
  with rep obtain n ns' where ns: "ns = n # ns'" by (cases ns) (auto simp: async_rep_def)
  then show ?thesis
    using Cons recieve_async_first [OF cur(1) q, of n ns' m ms'] rep free by simp
qed

text \<open>
  C26: an asynchronous endpoint is first in, first out: messages put into an empty one come out in the
  same order, and it is empty again. \<open>async_put\<close> and \<open>async_get\<close> are the node allocation with the
  insertion of \<^verbatim>\<open>message_send_async\<close>, and the removal with the release of \<^verbatim>\<open>message_recieve_async\<close>.
\<close>

theorem async_fifo:
  assumes "async_rep queue k [] []" and "async.put_all queue ms k = Some k1"
    and "async.get_many queue (length ms) k1 = Some (ms', k2)"
  shows "ms' = ms \<and> async_rep queue k2 [] []"
proof -
  have "\<exists>ns. async_rep queue k ns []" using assms(1) by blast
  from async.first_in_first_out [OF this assms(2,3)] show ?thesis by (auto simp: async_rep_def)
qed

text \<open>
  an interrupt reaches its listener. \<^verbatim>\<open>interrupt_callback\<close> with no endpoint registered for the number
  returns false and changes nothing. With one, it returns true, and the endpoint's last message is
  now of type \<^verbatim>\<open>INTERRUPT\<close> with the number in its first word, unless the endpoint was full: then the
  interrupt is lost. No thread changes.
\<close>

theorem interrupt_callback_notifies:
  assumes num: "num < INTERRUPT_MAX"
    and cur: "sched_current_thread k = Some cur" "cur \<noteq> NULL" and q: "quiet (k_listening k num) k"
    and rep: "async_rep (k_listening k num) k ns ms" and len: "length ms \<le> unat MESSAGE_MAX_QUEUE_ELEMENTS"
    and none: "maq_recievers (k_msg_async k (k_listening k num)) = queue_init"
    and m: "m = zero_message\<lparr>m_type := MESSAGE_TYPE_INTERRUPT, m_data0 := num\<rparr>"
    and node: "message_node_alloc m k \<noteq> None"
  shows "(\<exists>k' ns'. interrupt_callback yield num flags k = Some (True, k') \<and> k_threads k' = k_threads k \<and>
      async_rep (k_listening k num) k' ns' (if length ms < unat MESSAGE_MAX_QUEUE_ELEMENTS then ms @ [m] else ms)) \<and>
    (\<forall>n. n < INTERRUPT_MAX \<and> k_listening k n = NULL \<longrightarrow> interrupt_callback yield n flags k = Some (False, k))"
proof -
  let ?q = "k_listening k num"
  have node': "message_node_alloc (read_msg (Local m) k) k \<noteq> None" using node by simp
  have nz: "?q \<noteq> NULL" using q by (simp add: quiet_def)
  from message_send_async_idle [OF cur q rep len none node', of yield] obtain k' ns' where
    "message_send_async yield ?q (Local m) k = Some (length ms < unat MESSAGE_MAX_QUEUE_ELEMENTS, k')"
    "async_rep ?q k' ns' (if length ms < unat MESSAGE_MAX_QUEUE_ELEMENTS then ms @ [m] else ms)"
    "k_threads k' = k_threads k" unfolding read_msg.simps by blast
  then have "\<exists>k' ns'. interrupt_callback yield num flags k = Some (True, k') \<and> k_threads k' = k_threads k \<and>
      async_rep ?q k' ns' (if length ms < unat MESSAGE_MAX_QUEUE_ELEMENTS then ms @ [m] else ms)"
    using num nz m by (auto simp: interrupt_callback_def)
  moreover have "\<forall>n. n < INTERRUPT_MAX \<and> k_listening k n = NULL \<longrightarrow> interrupt_callback yield n flags k = Some (False, k)"
    by (simp add: interrupt_callback_def)
  ultimately show ?thesis by blast
qed

subsection \<open>Witnesses\<close>

lemma boot_async: "async_rep 0x9100 boot_kernel [] []"
  "maq_recievers (k_msg_async boot_kernel 0x9100) = queue_init"
  by (simp_all add: async_rep_def mslab_inv_def mslab_live_def boot_kernel_mm boot_slab boot_kernel_def)

lemma boot_msg_node: "message_node_alloc m boot_kernel \<noteq> None"
proof -
  have "\<exists>p mm. slab_alloc message_node_slab boot_mm = Some (p, mm) \<and> p \<noteq> NULL"
    using slab_alloc_total [OF boot_slab(1) boot_core] slab_alloc_ok [OF boot_slab(1)] by fastforce
  moreover have "k_msg_node_init boot_kernel" by (simp add: boot_kernel_def)
  ultimately show ?thesis
    by (auto simp: message_node_alloc_def boot_kernel_mm k_slab_alloc_def get_msgnode_def set_msgnode_def)
qed

text \<open>C24: an empty endpoint takes a message.\<close>

theorem message_send_async_bounded_witness:
  "\<exists>k' ns. message_send_async (\<lambda>_. None) 0x9100 (Local zero_message) boot_kernel = Some (True, k') \<and>
     async_rep 0x9100 k' ns [zero_message]"
proof -
  have "0 \<le> unat MESSAGE_MAX_QUEUE_ELEMENTS" by simp
  then show ?thesis
    using message_send_async_bounded [OF boot_kernel_current _ boot_quiet boot_async(1) _ boot_async(2) boot_msg_node,
        where msg = "Local zero_message" and yield = "\<lambda>_. None"] by (auto simp: c4_enum)
qed

text \<open>C25: a thread that blocks on an empty endpoint, and one that does not.\<close>

theorem message_recieve_async_takes_witness:
  "message_recieve_async (\<lambda>_. None) 0x9100 0x400 0 boot_kernel =
     Some (False, release 0x9100 (acquire 0x5000 0x9100 boot_kernel)) \<and>
   (\<exists>(k5 :: kernel) n. queue_rep k5 (maq_recievers (k_msg_async k5 0x9100)) [n] [0x5000] \<and>
     t_state (k_threads k5 0x5000) = SCHED_STATE_WAITING_ASYNC)"
proof -
  have rep: "queue_rep boot_kernel (maq_recievers (k_msg_async boot_kernel 0x9100)) [] []"
    using boot_kernel_rep boot_async(2) by simp
  have b: "MESSAGE_ASYNC_BLOCK AND MESSAGE_ASYNC_BLOCK \<noteq> (0 :: u32)" by (simp add: c4_enum)
  note t = message_recieve_async_takes [OF boot_kernel_current _ boot_quiet boot_async(1) _ rep boot_node, where yield = "\<lambda>_. None"]
  have "message_recieve_async (\<lambda>_. None) 0x9100 0x400 0 boot_kernel =
     Some (False, release 0x9100 (acquire 0x5000 0x9100 boot_kernel))"
    using t [where buffer = "0x400" and flags = 0] by simp
  moreover have "\<exists>(k5 :: kernel) n. queue_rep k5 (maq_recievers (k_msg_async k5 0x9100)) [n] [0x5000] \<and>
     t_state (k_threads k5 0x5000) = SCHED_STATE_WAITING_ASYNC"
    using t [where buffer = "0x400" and flags = MESSAGE_ASYNC_BLOCK] b
    by (auto simp del: and.idem)
  ultimately show ?thesis ..
qed

text \<open>C26: two messages through the endpoint of the boot state.\<close>

theorem async_fifo_witness:
  "\<exists>k1 k2. async.put_all 0x9100 [zero_message, zero_message\<lparr>m_type := 300\<rparr>] boot_kernel = Some k1 \<and>
     async.get_many 0x9100 2 k1 = Some ([zero_message, zero_message\<lparr>m_type := 300\<rparr>], k2)"
proof -
  have "do {
      k1 \<leftarrow> async_put 0x9100 zero_message boot_kernel;
      k2 \<leftarrow> async_put 0x9100 (zero_message\<lparr>m_type := 300\<rparr>) k1;
      (x, k3) \<leftarrow> async_get 0x9100 k2;
      (y, k4) \<leftarrow> async_get 0x9100 k3;
      Some ()
    } = Some ()" by code_simp
  then obtain k1 xs k2 where 1: "async.put_all 0x9100 [zero_message, zero_message\<lparr>m_type := 300\<rparr>] boot_kernel = Some k1"
    and 2: "async.get_many 0x9100 2 k1 = Some (xs, k2)"
    by (auto simp: numeral_2_eq_2 elim!: bind_eq_SomeE)
  from 2 have "async.get_many 0x9100 (length [zero_message, zero_message\<lparr>m_type := 300\<rparr>]) k1 = Some (xs, k2)"
    by (simp add: numeral_2_eq_2)
  with async_fifo [OF boot_async(1) 1] have "xs = [zero_message, zero_message\<lparr>m_type := 300\<rparr>]" by blast
  with 1 2 show ?thesis by blast
qed

text \<open>An instance: the endpoint listens to interrupt 33.\<close>

theorem interrupt_callback_notifies_witness:
  "\<exists>k' ns. interrupt_callback (\<lambda>_. None) 33 0 (boot_kernel\<lparr>k_listening := (\<lambda>_. NULL)(33 := 0x9100)\<rparr>) = Some (True, k') \<and>
     async_rep 0x9100 k' ns [zero_message\<lparr>m_type := MESSAGE_TYPE_INTERRUPT, m_data0 := 33\<rparr>]"
proof -
  let ?k = "boot_kernel\<lparr>k_listening := (\<lambda>_. NULL)(33 := 0x9100)\<rparr>"
  have c: "sched_current_thread ?k = Some 0x5000"
    using boot_kernel_current sched_current_thread_cong [of ?k boot_kernel] by simp
  have q: "quiet (k_listening ?k 33) ?k" using boot_quiet [of "0x9100"] by (simp add: quiet_def)
  have r: "async_rep (k_listening ?k 33) ?k [] []"
    using boot_async(1) async_rep_cong [of ?k boot_kernel "0x9100"] by simp
  have e: "maq_recievers (k_msg_async ?k (k_listening ?k 33)) = queue_init" using boot_async(2) by simp
  have n: "message_node_alloc m ?k \<noteq> None" for m
    using boot_msg_node [of m] message_node_alloc_None [of ?k boot_kernel m] by simp
  have "(33 :: u32) < INTERRUPT_MAX" by (simp add: c4_enum)
  from interrupt_callback_notifies [OF this c _ q r _ e refl n, of "\<lambda>_. None" 0] show ?thesis
    by (auto simp: c4_enum)
qed

end
