(* ===== verification/C4_Frames.thy ===== *)
theory C4_Frames
  imports C4_Message
begin

text \<open>
  What the operations of the kernel leave alone. An operation that returns a state is followed step
  by step along a preorder on states; the rules of \<open>step_order\<close> do this for any preorder, and the
  locale \<open>cap_preserving\<close> applies them to the preorders that hold between states with the same
  capabilities and that \<^verbatim>\<open>sched_thread_yield\<close> respects.
\<close>

section \<open>Operations along a preorder\<close>

text \<open>\<open>ends R st k m\<close>: when \<open>m\<close> returns, the state \<open>st\<close> of its result is related to \<open>k\<close>.\<close>

definition ends :: "('k \<Rightarrow> 'k \<Rightarrow> bool) \<Rightarrow> ('x \<Rightarrow> 'k) \<Rightarrow> 'k \<Rightarrow> 'x option \<Rightarrow> bool" where
  "ends R st k m \<longleftrightarrow> (\<forall>x. m = Some x \<longrightarrow> R k (st x))"

abbreviation st3 :: "'a \<times> 'b \<times> 'k \<Rightarrow> 'k" where
  "st3 x \<equiv> snd (snd x)"

lemma endsD: "ends R st k m \<Longrightarrow> m = Some x \<Longrightarrow> R k (st x)"
  by (simp add: ends_def)

lemma endsI: "(\<And>x. m = Some x \<Longrightarrow> R k (st x)) \<Longrightarrow> ends R st k m"
  by (simp add: ends_def)

lemma ends_None [intro!, simp]: "ends R st k None"
  by (simp add: ends_def)

lemma ends_if [intro!]:
  "(c \<Longrightarrow> ends R st k m) \<Longrightarrow> (\<not> c \<Longrightarrow> ends R st k n) \<Longrightarrow> ends R st k (if c then m else n)"
  by simp

lemma ends_let [intro!]: "(\<And>x. x = a \<Longrightarrow> ends R st k (f x)) \<Longrightarrow> ends R st k (Let a f)"
  by simp

lemma ends_prod: "(\<And>a b. x = (a, b) \<Longrightarrow> ends R st k (f a b)) \<Longrightarrow> ends R st k (case x of (a, b) \<Rightarrow> f a b)"
  by (cases x) simp

text \<open>
  The rules follow the operation in the monad: a step returns a state, a value with a state, two
  values with a state, or it only reads.
\<close>

locale step_order =
  fixes R :: "'k \<Rightarrow> 'k \<Rightarrow> bool"
  assumes refl: "R k k"
    and trans: "R k k' \<Longrightarrow> R k' k'' \<Longrightarrow> R k k''"
begin

lemma bind_state:
  assumes "ends R (\<lambda>k. k) k m" and "\<And>k1. ends R st k1 (f k1)"
  shows "ends R st k (Option.bind m f)"
  using assms by (fastforce simp: ends_def elim!: bind_eq_SomeE intro: trans)

lemma bind_pair:
  assumes "ends R snd k m" and "\<And>a k1. ends R st k1 (f a k1)"
  shows "ends R st k (Option.bind m (\<lambda>(a, k1). f a k1))"
  using assms by (fastforce simp: ends_def elim!: bind_eq_SomeE intro: trans)

lemma bind_pair_from:
  assumes "ends R snd k m" and "\<And>a k1. R k k1 \<Longrightarrow> ends R st k1 (f a k1)"
  shows "ends R st k (Option.bind m (\<lambda>(a, k1). f a k1))"
  using assms by (fastforce simp: ends_def elim!: bind_eq_SomeE intro: trans)

lemma bind_triple:
  assumes "ends R st3 k m" and "\<And>a b k1. ends R st k1 (f a b k1)"
  shows "ends R st k (Option.bind m (\<lambda>(a, b, k1). f a b k1))"
  using assms by (fastforce simp: ends_def elim!: bind_eq_SomeE intro: trans)

lemma bind_read: "(\<And>x. m = Some x \<Longrightarrow> ends R st k (f x)) \<Longrightarrow> ends R st k (Option.bind m f)"
  by (auto simp: ends_def elim!: bind_eq_SomeE)

lemma return:
  "ends R (\<lambda>k. k) k (Some k)" "ends R snd k (Some (a, k))" "ends R st3 k (Some (a, b, k))"
  by (simp_all add: ends_def refl)

lemma ends_from: "R k k' \<Longrightarrow> ends R st k' m \<Longrightarrow> ends R st k m"
  by (auto simp: ends_def intro: trans)

lemmas steps = return ends_None ends_if ends_let ends_prod bind_state bind_pair bind_triple

end

section \<open>The trees\<close>

text \<open>The tree operations change the memory and the nodes, and nothing else.\<close>

definition anodes_only :: "'a katree_scheme \<Rightarrow> 'a katree_scheme \<Rightarrow> bool" where
  "anodes_only k k' \<longleftrightarrow> k' = k\<lparr>k_mm := k_mm k', k_anodes := k_anodes k'\<rparr>"

interpretation tree: step_order "anodes_only :: 'a katree_scheme \<Rightarrow> 'a katree_scheme \<Rightarrow> bool"
proof
  fix k k' k'' :: "'a katree_scheme"
  show "anodes_only k k" by (simp add: anodes_only_def)
  assume "anodes_only k k'" and b: "anodes_only k' k''"
  then have a: "k' = k\<lparr>k_mm := k_mm k', k_anodes := k_anodes k'\<rparr>" by (simp add: anodes_only_def)
  from b have "k'' = k'\<lparr>k_mm := k_mm k'', k_anodes := k_anodes k''\<rparr>" by (simp add: anodes_only_def)
  also have "\<dots> = k\<lparr>k_mm := k_mm k'', k_anodes := k_anodes k''\<rparr>" by (subst a) simp
  finally show "anodes_only k k''" by (simp add: anodes_only_def)
qed

abbreviation tree_ends :: "('x \<Rightarrow> 'a katree_scheme) \<Rightarrow> 'a katree_scheme \<Rightarrow> 'x option \<Rightarrow> bool" where
  "tree_ends \<equiv> ends anodes_only"

lemma upd_anode_only: "tree_ends (\<lambda>k. k) k (upd_anode p f k)"
  by (simp add: ends_def upd_anode_def anodes_only_def)

lemma slab_only:
  "tree_ends snd k (k_slab_alloc s k)" "tree_ends (\<lambda>k. k) k (k_slab_free s p k)"
  by (auto simp: ends_def k_slab_alloc_def k_slab_free_def anodes_only_def elim!: bind_eq_SomeE)

lemma replace_in_parent_only: "tree_ends (\<lambda>k. k) k (replace_in_parent node val k)"
  unfolding replace_in_parent_def by (rule upd_anode_only tree.steps | rule tree.bind_read)+

lemma rotate_only: "tree_ends st3 k (rotate node dir tree k)"
  unfolding rotate_def by (rule upd_anode_only replace_in_parent_only tree.steps | rule tree.bind_read)+

lemma skew_only: "tree_ends st3 k (atree_skew node tree k)"
  apply (rule endsI)
  apply (erule atree_skew.raw_induct [where P = "\<lambda>_ _ k x. anodes_only k (st3 x)", rotated])
  apply (erule endsD [where R = anodes_only and st = st3, rotated])
  by (rule rotate_only tree.steps | (rule endsI, blast) | rule tree.bind_read)+

lemma split_only: "tree_ends st3 k (atree_split node tree k)"
  apply (rule endsI)
  apply (erule atree_split.raw_induct [where P = "\<lambda>_ _ k x. anodes_only k (st3 x)", rotated])
  apply (erule endsD [where R = anodes_only and st = st3, rotated])
  by (rule rotate_only upd_anode_only tree.steps | (rule endsI, blast) | rule tree.bind_read)+

lemma bin_insert_only: "tree_ends (\<lambda>k. k) k (bin_insert_from get_key temp node k)"
  apply (rule endsI)
  apply (erule bin_insert_from.raw_induct [where P = "\<lambda>_ _ _ k k'. anodes_only k k'", rotated])
  apply (erule endsD [where R = anodes_only and st = "\<lambda>k. k", rotated])
  by (rule upd_anode_only tree.steps | (rule endsI, blast) | rule tree.bind_read)+

lemma insert_repair_only: "tree_ends snd k (atree_insert_repair tree temp k)"
  apply (rule endsI)
  apply (erule atree_insert_repair.raw_induct [where P = "\<lambda>_ _ k x. anodes_only k (snd x)", rotated])
  apply (erule endsD [where R = anodes_only and st = snd, rotated])
  by (rule skew_only split_only tree.steps | (rule endsI, blast) | rule tree.bind_read)+

lemma remove_repair_only: "tree_ends snd k (remove_repair_from repair tree k)"
  apply (rule endsI)
  apply (erule remove_repair_from.raw_induct [where P = "\<lambda>_ _ k x. anodes_only k (snd x)", rotated])
  apply (erule endsD [where R = anodes_only and st = snd, rotated])
  by (rule skew_only split_only upd_anode_only tree.steps | (rule endsI, blast) | rule tree.bind_read)+

lemma do_remove_node_only: "tree_ends snd k (do_remove_node node replacement tree k)"
  unfolding do_remove_node_def
  by (rule replace_in_parent_only slab_only tree.steps | rule tree.bind_read)+

lemma atree_insert_only: "tree_ends st3 k (atree_insert get_key tree data k)"
  unfolding atree_insert_def make_anode_def atree_bin_insert_def
  by (rule slab_only upd_anode_only bin_insert_only insert_repair_only tree.steps | rule tree.bind_read)+

lemma atree_remove_only: "tree_ends snd k (atree_remove tree node k)"
  unfolding atree_remove_def atree_remove_repair_def
  by (rule upd_anode_only do_remove_node_only remove_repair_only tree.steps | rule tree.bind_read)+

section \<open>Capabilities\<close>

text \<open>Two states with the same capabilities: tables, spaces, and the space of every thread.\<close>

definition caps_same :: "kernel \<Rightarrow> kernel \<Rightarrow> bool" where
  "caps_same k k' \<longleftrightarrow> k_caps k' = k_caps k \<and> k_cap_spaces k' = k_cap_spaces k \<and>
     (\<forall>t. t_cap_space (k_threads k' t) = t_cap_space (k_threads k t))"

lemma anodes_only_caps:
  fixes k k' :: kernel
  assumes "anodes_only k k'" shows "caps_same k k'"
  unfolding caps_same_def by (subst (1 2 3) assms [unfolded anodes_only_def]) simp

lemma kq_more_caps:
  fixes k k' :: kernel
  assumes "kq.more k' = kq.more k" shows "caps_same k k'"
  using kq_moreD [OF assms] by (simp add: caps_same_def)

lemma anodes_only_tree:
  fixes k k' :: kernel
  shows "anodes_only k k' \<Longrightarrow> caps_same k (k'\<lparr>k_run_tree := t\<rparr>)"
    "anodes_only k k' \<Longrightarrow> caps_same k (k'\<lparr>k_sleep_tree := t\<rparr>)"
  by (drule anodes_only_caps, simp add: caps_same_def)+

lemma caps_same_refl [simp]: "caps_same k k"
  by (simp add: caps_same_def)

lemma caps_same_unlock [simp]: "caps_same k (sched_unlock k') = caps_same k k'"
  by (simp add: caps_same_def sched_unlock_def)

lemma notify_caps [simp]: "caps_same k (snd (notify_idle_cpu k))"
  by (auto simp: notify_idle_cpu_def apic_send_ipi_def apic_write_def Let_def caps_same_def split: option.splits)

lemma upd_thread_caps:
  "(\<And>t. t_cap_space (f t) = t_cap_space t) \<Longrightarrow> ends caps_same (\<lambda>k. k) k (upd_thread p f k)"
  by (simp add: ends_def upd_thread_def caps_same_def)

lemma set_caps:
  "ends caps_same (\<lambda>k. k) k (set_mutex p mf k)"
  "ends caps_same (\<lambda>k. k) k (upd_frame p ff k)"
  "ends caps_same (\<lambda>k. k) k (set_addr_map p mp k)"
  "ends caps_same (\<lambda>k. k) k (set_addr_space p s k)"
  "ends caps_same (\<lambda>k. k) k (set_msgq p q k)"
  "ends caps_same (\<lambda>k. k) k (set_msgaq p aq k)"
  "ends caps_same (\<lambda>k. k) k (set_msgnode p mn k)"
  "ends caps_same (\<lambda>k. k) k (kobject_init p ty k)"
  "ends caps_same (\<lambda>k. k) k (with_paging pf k)"
  "ends caps_same (\<lambda>k. k) k (sched_spinlock k)"
  "ends caps_same (\<lambda>k. k) k (kernel_stack_set a k)"
  "ends caps_same snd k (timer_get_timestamp_ns k)"
  by (auto simp: ends_def c4_access kobject_init_def with_paging_def sched_spinlock_def kernel_stack_set_def
      timer_get_timestamp_ns_def timer_get_timestamp_def caps_same_def elim!: bind_eq_SomeE split: if_splits)

lemma slab_caps:
  "ends caps_same snd k (k_slab_alloc s k)" "ends caps_same (\<lambda>k. k) k (k_slab_free s p k)"
  by (auto simp: ends_def k_slab_alloc_def k_slab_free_def caps_same_def elim!: bind_eq_SomeE)

lemma queue_caps:
  "ends caps_same snd k (queue_push_back q x k)" "ends caps_same st3 k (queue_pop_front q k)"
  "ends caps_same snd k (thread_queue_push_back q x k)" "ends caps_same st3 k (thread_queue_pop_front q k)"
  by (auto simp: ends_def thread_queue_push_back_def thread_queue_pop_front_def
      intro: kq_more_caps queue_push_back_more queue_pop_front_more)

lemma tree_caps:
  "ends caps_same (\<lambda>k. k) k (run_tree_insert t k)" "ends caps_same (\<lambda>k. k) k (sleep_tree_insert t k)"
  using endsD [OF atree_insert_only, of _ _ _ k]
  by (fastforce simp: ends_def run_tree_insert_def sleep_tree_insert_def elim!: bind_eq_SomeE intro: anodes_only_tree)+

lemma atree_remove_caps:
  fixes k :: kernel
  shows "ends caps_same snd k (atree_remove tree node k)"
  using endsD [OF atree_remove_only, of _ _ k] by (auto simp: ends_def intro: anodes_only_caps)

lemmas caps_ops = set_caps slab_caps queue_caps tree_caps atree_remove_caps

lemma message_node_caps: "ends caps_same snd k (message_node_alloc m k)"
  by (auto simp: ends_def message_node_alloc_def k_slab_alloc_def k_slab_init_def c4_access caps_same_def Let_def
      elim!: bind_eq_SomeE split: if_splits)

text \<open>
  The preorders \<open>R\<close> of interest: they relate states with the same capabilities, and the state in
  which a thread yields to the one in which it runs again.
\<close>

locale cap_preserving = step_order R for R :: "kernel \<Rightarrow> kernel \<Rightarrow> bool" +
  fixes yield :: yield
  assumes same: "caps_same k k' \<Longrightarrow> R k k'"
    and yields: "yield k = Some k' \<Longrightarrow> R k k'"
begin

lemma basic: "ends caps_same st k m \<Longrightarrow> ends R st k m"
  by (auto simp: ends_def intro: same)

lemma return_same: "caps_same k k' \<Longrightarrow> ends R (\<lambda>k. k) k (Some k')"
  by (auto simp: ends_def intro: same)

lemma yield_ends: "caps_same k k' \<Longrightarrow> ends R (\<lambda>k. k) k (yield k')"
  by (auto simp: ends_def intro: same yields trans)

lemma same_from: "ends R st k' m \<Longrightarrow> caps_same k k' \<Longrightarrow> ends R st k m"
  by (rule ends_from [OF same])

lemma pair_ends:
  assumes "caps_same k (snd x)" and "\<And>a k1. ends R st k1 (f a k1)"
  shows "ends R st k (case x of (a, k1) \<Rightarrow> f a k1)"
proof (cases x)
  case (Pair a k1)
  then show ?thesis using same_from [OF assms(2) [of k1 a]] assms(1) by simp
qed

lemmas run = yield_ends [OF caps_same_refl] steps

lemma sched_add_thread_ends: "ends R (\<lambda>k. k) k (sched_add_thread yield t k)"
  unfolding sched_add_thread_def Let_def
  by (rule pair_ends [OF notify_caps] steps | (rule yield_ends return_same, simp) | (rule basic, rule caps_ops) | rule bind_read)+

lemma mutex_wait_ends: "ends R (\<lambda>k. k) k (mutex_wait yield m k)"
proof -
  have "y = yield \<longrightarrow> R k k'" if "mutex_wait y m k = Some k'" for y k'
    using that
    apply (rule mutex_wait.raw_induct [where P = "\<lambda>y _ k k'. y = yield \<longrightarrow> R k k'", rotated])
    apply (rule impI, hypsubst, erule endsD [where R = R and st = "\<lambda>k. k", rotated])
    by (rule run | (rule basic, rule caps_ops) | (rule basic, rule upd_thread_caps, simp) | (rule endsI, blast) | rule bind_read)+
  then show ?thesis by (simp add: ends_def)
qed

lemma mutex_do_spinlock_ends: "ends R (\<lambda>k. k) k (mutex_do_spinlock m k)"
  unfolding mutex_do_spinlock_def by (rule run | (rule basic, rule caps_ops) | rule bind_read)+

lemma mutex_lock_ends: "ends R (\<lambda>k. k) k (mutex_lock yield m k)"
  unfolding mutex_lock_def
  by (rule mutex_wait_ends mutex_do_spinlock_ends run | (rule basic, rule caps_ops) | rule bind_read)+

lemma mutex_unlock_ends: "ends R (\<lambda>k. k) k (mutex_unlock yield m k)"
  unfolding mutex_unlock_def
  by (rule sched_add_thread_ends run | (rule basic, rule caps_ops)
      | (rule basic, rule upd_thread_caps, simp) | rule bind_read)+

lemmas locking = mutex_lock_ends mutex_unlock_ends sched_add_thread_ends

lemma kobject_ends:
  "ends R (\<lambda>k. k) k (kobject_lock yield m k)" "ends R (\<lambda>k. k) k (kobject_unlock yield m k)"
  unfolding kobject_lock_def kobject_unlock_def by (rule locking)+

subsubsection \<open>Address spaces\<close>

lemma addr_space_insert_map_ends: "ends R snd k (addr_space_insert_map yield space ent k)"
  unfolding addr_space_insert_map_def phys_frame_map_def addr_map_insert_def Let_def
  by (rule kobject_ends run | (rule basic, rule caps_ops) | rule bind_read)+

lemma addr_space_unmap_ends: "ends R snd k (addr_space_unmap yield space address k)"
  unfolding addr_space_unmap_def addr_space_remove_map_def phys_frame_unmap_def addr_map_remove_def Let_def
  by (rule kobject_ends run | (rule basic, rule caps_ops) | rule bind_read)+

lemma addr_space_set_ends: "ends R (\<lambda>k. k) k (addr_space_set space k)"
  unfolding addr_space_set_def by (rule run | (rule basic, rule caps_ops) | rule bind_read)+

subsubsection \<open>Messages\<close>

lemma message_queue_ends:
  "ends R snd k (pop_sender queue k)" "ends R snd k (pop_reciever queue k)"
  "ends R (\<lambda>k. k) k (push_sender queue t k)" "ends R (\<lambda>k. k) k (push_reciever queue t k)"
  "ends R snd k (pop_async_reciever queue k)" "ends R (\<lambda>k. k) k (push_async_reciever queue t k)"
  unfolding pop_sender_def pop_reciever_def push_sender_def push_reciever_def pop_async_reciever_def
    push_async_reciever_def
  by (rule run | (rule basic, rule caps_ops) | rule bind_read)+

lemma write_msg_caps: "caps_same k (snd (write_msg a m k))"
  by (cases a) (simp_all add: caps_same_def)

lemma set_sender_state_ends: "ends R (\<lambda>k. k) k (set_sender_state t k)"
  unfolding set_sender_state_def by (rule run | (rule basic, rule upd_thread_caps, simp) | rule bind_read)+

lemma message_try_send_ends: "ends R st3 k (message_try_send yield queue msg k)"
  unfolding message_try_send_def Let_def
  by (rule kobject_ends message_queue_ends sched_add_thread_ends pair_ends [OF write_msg_caps] run
      | (rule basic, rule upd_thread_caps, simp) | rule bind_read)+

lemma message_send_ends: "ends R (\<lambda>k. k) k (message_send yield queue msg k)"
  unfolding message_send_def
  by (rule kobject_ends message_queue_ends message_try_send_ends set_sender_state_ends run
      | (rule basic, rule upd_thread_caps, simp) | rule bind_read)+

lemma message_send_async_ends: "ends R snd k (message_send_async yield queue msg k)"
  unfolding message_send_async_def message_queue_async_insert_def
  by (rule kobject_ends message_queue_ends sched_add_thread_ends run
      | (rule basic, rule caps_ops message_node_caps)
      | (rule basic, rule upd_thread_caps, simp) | rule bind_read)+

lemma message_queue_async_remove_ends: "ends R snd k (message_queue_async_remove queue k)"
  unfolding message_queue_async_remove_def by (rule run | (rule basic, rule caps_ops) | rule bind_read)+

lemma recieve_async_round_ends:
  "ends R (case_round snd (\<lambda>k. k)) k (recieve_async_round yield queue current buffer flags k)"
proof -
  have d: "ends R (case_round snd (\<lambda>k. k)) k (Some (Done (b, k)))" "ends R (case_round snd (\<lambda>k. k)) k (Some (Retry k))"
    for b :: bool and k by (simp_all add: ends_def refl)
  have f: "ends R (\<lambda>k. k) k (message_node_free node (k\<lparr>k_usermsg := u\<rparr>))" for node u k
    by (rule basic) (auto simp: ends_def message_node_free_def k_slab_free_def caps_same_def elim!: bind_eq_SomeE)
  show ?thesis
    unfolding recieve_async_round_def
    by (rule d f kobject_ends message_queue_ends message_queue_async_remove_ends run
        | (rule basic, rule upd_thread_caps, simp) | rule bind_read)+
qed

lemma message_recieve_async_ends: "ends R snd k (message_recieve_async yield queue buffer flags k)"
proof -
  have "y = yield \<longrightarrow> R k (snd x)" if "recieve_async_loop y queue current buffer flags k = Some x" for y current x
    using that
    apply (rule recieve_async_loop.raw_induct [where P = "\<lambda>y _ _ _ _ k x. y = yield \<longrightarrow> R k (snd x)", rotated])
    apply (rule impI, hypsubst)
    apply (erule bind_eq_SomeE)
    apply (drule endsD [OF recieve_async_round_ends])
    by (auto split: round.splits intro: trans)
  then show ?thesis unfolding message_recieve_async_def by (intro bind_read) (simp add: ends_def)
qed

subsubsection \<open>Switching threads\<close>

lemma sched_thread_sleep_ends: "ends R (\<lambda>k. k) k (sched_thread_sleep yield useconds k)"
  unfolding sched_thread_sleep_def
  by (rule steps | (rule yield_ends, simp) | (rule basic, rule caps_ops) | (rule basic, rule upd_thread_caps, simp) | rule bind_read)+

lemma requeue_current_ends: "ends R (\<lambda>k. k) k (requeue_current c k)"
  unfolding requeue_current_def
  by (rule steps | (rule basic, rule caps_ops) | (rule basic, rule upd_thread_caps, simp) | rule bind_read)+

lemma wake_sleepers_ends: "ends R (\<lambda>k. k) k (wake_sleepers node k)"
proof -
  have u: "ends R (\<lambda>k. k) k (upd_thread t f (k\<lparr>k_sleep_tree := tr\<rparr>))" if "\<And>t. t_cap_space (f t) = t_cap_space t" for k t f tr
    by (rule basic) (simp add: ends_def upd_thread_def caps_same_def that)
  show ?thesis
    apply (rule endsI)
    apply (erule wake_sleepers.raw_induct [where P = "\<lambda>_ k k'. R k k'", rotated])
    apply (erule endsD [where R = R and st = "\<lambda>k. k", rotated])
    by (rule steps | (rule u, simp) | (rule basic, rule caps_ops) | (rule endsI, blast) | rule bind_read)+
qed

lemma pick_next_ends: "ends R snd k (pick_next c k)"
proof -
  have r: "ends R snd k (Some (x, k\<lparr>k_run_tree := t\<rparr>))" for x :: ptr and k t
    by (rule basic) (simp add: ends_def caps_same_def)
  show ?thesis
    unfolding pick_next_def Let_def
    by (rule r steps | (rule basic, rule caps_ops) | rule bind_read)+
qed

lemma sched_jump_ends:
  assumes "\<And>c t k k'. do_switch c t k = Some k' \<Longrightarrow> R k k'"
  shows "ends R (\<lambda>k. k) k (sched_jump_to_thread yield do_switch thread k)"
proof -
  have d: "ends R (\<lambda>k. k) k (do_switch c t k)" for c t k using assms by (simp add: ends_def)
  have c: "caps_same k (k\<lparr>k_current_threads := x\<rparr>)" for k x by (simp add: caps_same_def)
  show ?thesis
    unfolding sched_jump_to_thread_def Let_def
    apply (rule bind_read, rule ends_from [OF same [OF c]])
    by (rule steps d kobject_ends addr_space_set_ends | (rule basic, rule caps_ops)
        | (rule basic, rule upd_thread_caps, simp) | rule bind_read)+
qed

lemma sched_switch_ends:
  assumes "\<And>c t k k'. do_switch c t k = Some k' \<Longrightarrow> R k k'"
  shows "ends R (\<lambda>k. k) k (sched_switch_thread yield do_switch k)"
proof -
  have j: "ends R (\<lambda>k. k) k (sched_jump_to_thread yield do_switch t (sched_unlock k))" for k t
    by (rule same_from [OF sched_jump_ends]) (simp_all add: assms)
  show ?thesis
    unfolding sched_switch_thread_def
    by (rule j requeue_current_ends wake_sleepers_ends pick_next_ends steps | (rule basic, rule caps_ops) | rule bind_read)+
qed

lemma sched_thread_continue_ends: "ends R (\<lambda>k. k) k (sched_thread_continue t k)"
  unfolding sched_thread_continue_def
  by (rule steps | (rule return_same, simp; fail) | (rule basic, rule caps_ops) | (rule basic, rule upd_thread_caps, simp) | rule bind_read)+

lemma sched_thread_stop_ends: "ends R (\<lambda>k. k) k (sched_thread_stop t k)"
  unfolding sched_thread_stop_def
  by (rule steps | (rule basic, rule upd_thread_caps, simp) | rule bind_read)+

end

text \<open>
  The scheduler: \<^verbatim>\<open>sched_thread_yield\<close> respects every such preorder that the switches to another thread
  and back respect.
\<close>

locale switching = step_order R for R :: "kernel \<Rightarrow> kernel \<Rightarrow> bool" +
  fixes do_switch :: do_switch
  assumes unchanged: "caps_same k k' \<Longrightarrow> R k k'"
    and switch: "do_switch cur thread k = Some k' \<Longrightarrow> R k k'"
begin

lemma yields_respected: "sched_thread_yield n do_switch k = Some k' \<Longrightarrow> R k k'"
proof (induction n arbitrary: k k')
  case (Suc n)
  have "cap_preserving R (sched_thread_yield n do_switch)"
    by unfold_locales (use unchanged Suc.IH in auto)
  from cap_preserving.sched_switch_ends [OF this switch] Suc.prems show ?case by (auto simp: ends_def)
qed simp

end

sublocale switching \<subseteq> cap_preserving R "sched_thread_yield n do_switch" for n
  by unfold_locales (fact unchanged, fact yields_respected)

text \<open>
  The runs of the kernel that change capabilities only while another thread runs: the least such
  preorder.
\<close>

inductive cap_run :: "do_switch \<Rightarrow> kernel \<Rightarrow> kernel \<Rightarrow> bool" for do_switch where
  start: "cap_run do_switch k k"
| keep: "cap_run do_switch k k' \<Longrightarrow> caps_same k' k'' \<Longrightarrow> cap_run do_switch k k''"
| switched: "cap_run do_switch k k' \<Longrightarrow> do_switch cur thread k' = Some k'' \<Longrightarrow> cap_run do_switch k k''"

lemma cap_run_trans:
  assumes "cap_run do_switch k k'" and "cap_run do_switch k' k''" shows "cap_run do_switch k k''"
  using assms(2,1) by (induction rule: cap_run.induct) (auto intro: cap_run.intros)

interpretation kernel_run: switching "cap_run do_switch" do_switch for do_switch
  by unfold_locales (auto intro: cap_run.intros cap_run_trans)

end
