(* ===== verification/C4_Syscall.thy ===== *)
theory C4_Syscall
  imports C4_Message
begin

text \<open>
  The system calls (\<^verbatim>\<open>src/syscall.c\<close>, \<^verbatim>\<open>arch/x86/syscall.c\<close>): the capability checks, every handler, the
  dispatch table, and the entry from the interrupt frame.

  A handler takes its four arguments and returns the \<^verbatim>\<open>int\<close> the caller sees, with the new kernel
  state; \<open>None\<close> is a call that does not return or faults. \<open>yield\<close> is \<^verbatim>\<open>sched_thread_yield\<close>.
\<close>

type_synonym arg_t = u32
type_synonym syscall_ret = "(int \<times> kernel) option"
type_synonym syscall_func_t = "arg_t \<Rightarrow> arg_t \<Rightarrow> arg_t \<Rightarrow> arg_t \<Rightarrow> kernel \<Rightarrow> syscall_ret"

section \<open>Capability checks\<close>

text \<open>
  \<^verbatim>\<open>do_cap_check\<close>: the error code and the entry found. A type mismatch is reported with the name of
  the type from a table of nine strings; a type outside it is read out of bounds.
\<close>

definition do_cap_check :: "ptr \<Rightarrow> u32 \<Rightarrow> u32 \<Rightarrow> u32 \<Rightarrow> kernel \<Rightarrow> (int \<times> ptr) option" where
  "do_cap_check thread object type permissions k = do {
     t \<leftarrow> get_thread thread k;
     if t_cap_space t = NULL then Some (- C4_ERROR_PERMISSION_DENIED, NULL)
     else do {
       cap \<leftarrow> cap_space_lookup k (t_cap_space t) object;
       if cap = NULL then Some (- C4_ERROR_INVALID_OBJECT, NULL)
       else if ce_type (k_caps k cap) \<noteq> type \<and> type \<noteq> CAP_TYPE_NULL
       then (if ce_type (k_caps k cap) \<le> CAP_TYPE_RESERVED
             then Some (- C4_ERROR_INVALID_OBJECT, NULL) else None)
       else if ce_permissions (k_caps k cap) AND permissions \<noteq> permissions
       then Some (- C4_ERROR_PERMISSION_DENIED, NULL)
       else Some (C4_ERROR_NONE, cap)
     }
   }"

text \<open>The macro \<^verbatim>\<open>CAP_CHECK\<close>: the rest of the handler gets the entry and its object.\<close>

definition CAP_CHECK :: "u32 \<Rightarrow> u32 \<Rightarrow> u32 \<Rightarrow> (ptr \<Rightarrow> ptr \<Rightarrow> kernel \<Rightarrow> syscall_ret) \<Rightarrow> kernel \<Rightarrow> syscall_ret" where
  "CAP_CHECK x type perms rest k = do {
     cur \<leftarrow> sched_current_thread k;
     (cap_check, cap_ent) \<leftarrow> do_cap_check cur x type perms k;
     if cap_check \<noteq> C4_ERROR_NONE then Some (cap_check, k)
     else rest cap_ent (ce_object (k_caps k cap_ent)) k
   }"

definition do_newobj_cap_check :: "ptr \<Rightarrow> kernel \<Rightarrow> syscall_ret" where
  "do_newobj_cap_check thread k = do {
     t \<leftarrow> get_thread thread k;
     if t_cap_space t = NULL then Some (- C4_ERROR_PERMISSION_DENIED, k)
     else do {
       e \<leftarrow> cap_space_root_entry k (t_cap_space t);
       root_entry \<leftarrow> read_cap k e;
       if ce_permissions root_entry AND CAP_MODIFY = 0
       then Some (- C4_ERROR_PERMISSION_DENIED, k)
       else do {
         (object, k1) \<leftarrow> cap_space_insert (t_cap_space t)
           \<lparr>ce_type = CAP_TYPE_RESERVED, ce_permissions = 0, ce_object = NULL\<rparr> k;
         if object = CAP_INVALID_OBJECT then Some (- C4_ERROR_ENTITY_FULL, k1)
         else Some (sint object, k1)
       }
     }
   }"

text \<open>
  The common end of the creating calls: the new object replaces the reserved entry of the current
  thread's capability space.
\<close>

definition replace_reserved :: "ptr \<Rightarrow> u32 \<Rightarrow> cap_entry_t \<Rightarrow> kernel \<Rightarrow> kernel option" where
  "replace_reserved cur object entry k = do {
     t \<leftarrow> get_thread cur k;
     (_, k1) \<leftarrow> cap_space_replace (t_cap_space t) object entry k;
     Some k1
   }"

definition full_rights :: u32 where
  "full_rights = CAP_ACCESS OR CAP_MODIFY OR CAP_SHARE OR CAP_MULTI_USE"

section \<open>Thread calls\<close>

definition syscall_thread_exit :: "yield \<Rightarrow> syscall_func_t" where
  "syscall_thread_exit yield a b c d k = do {
     cur \<leftarrow> sched_current_thread k;
     _ \<leftarrow> get_thread cur k;
     k1 \<leftarrow> sched_thread_exit yield k;
     Some (0, k1)
   }"

definition syscall_thread_sleep :: "yield \<Rightarrow> syscall_func_t" where
  "syscall_thread_sleep yield useconds b c d k = do {
     k1 \<leftarrow> sched_thread_sleep yield useconds k;
     Some (C4_ERROR_NONE, k1)
   }"

definition syscall_thread_create :: "yield \<Rightarrow> syscall_func_t" where
  "syscall_thread_create yield user_entry user_stack flags d k = do {
     cur \<leftarrow> sched_current_thread k;
     if \<not> is_user_address user_entry \<or> \<not> is_user_address user_stack
     then Some (- C4_ERROR_INVALID_ARGUMENT, k)
     else do {
       (check, k1) \<leftarrow> do_newobj_cap_check cur k;
       if check < 0 then Some (check, k1)
       else do {
         c \<leftarrow> get_thread cur k1;
         (thread, k2) \<leftarrow> thread_create user_entry (t_addr_space c) user_stack THREAD_FLAG_USER k1;
         k3 \<leftarrow> sched_thread_stop thread k2;
         let object = word_of_int check;
         k4 \<leftarrow> replace_reserved cur object
                \<lparr>ce_type = CAP_TYPE_THREAD, ce_permissions = full_rights, ce_object = thread\<rparr> k3;
         k5 \<leftarrow> sched_add_thread yield thread k4;
         Some (sint object, k5)
       }
     }
   }"

definition syscall_thread_set_addrspace :: syscall_func_t where
  "syscall_thread_set_addrspace thread aspace c d k =
     CAP_CHECK thread CAP_TYPE_THREAD CAP_MODIFY (\<lambda>_ target.
     CAP_CHECK aspace CAP_TYPE_ADDR_SPACE CAP_ACCESS (\<lambda>_ new_aspace k'. do {
       k1 \<leftarrow> thread_set_addrspace target new_aspace k';
       Some (C4_ERROR_NONE, k1)
     })) k"

definition syscall_thread_set_pager :: syscall_func_t where
  "syscall_thread_set_pager thread queue c d k =
     CAP_CHECK thread CAP_TYPE_THREAD CAP_MODIFY (\<lambda>_ target.
     CAP_CHECK queue CAP_TYPE_IPC_SYNC_ENDPOINT (CAP_ACCESS OR CAP_MODIFY) (\<lambda>_ endpoint k'. do {
       k1 \<leftarrow> upd_thread target (t_pager_update (\<lambda>_. endpoint)) k';
       Some (C4_ERROR_NONE, k1)
     })) k"

definition syscall_thread_continue :: syscall_func_t where
  "syscall_thread_continue thread b c d k =
     CAP_CHECK thread CAP_TYPE_THREAD CAP_MODIFY (\<lambda>_ target k'. do {
       k1 \<leftarrow> sched_thread_continue target k';
       Some (C4_ERROR_NONE, k1)
     }) k"

definition syscall_thread_stop :: syscall_func_t where
  "syscall_thread_stop thread b c d k =
     CAP_CHECK thread CAP_TYPE_THREAD CAP_MODIFY (\<lambda>_ target k'. do {
       k1 \<leftarrow> sched_thread_stop target k';
       Some (C4_ERROR_NONE, k1)
     }) k"

definition syscall_thread_set_capspace :: syscall_func_t where
  "syscall_thread_set_capspace thread aspace c d k =
     CAP_CHECK thread CAP_TYPE_THREAD CAP_MODIFY (\<lambda>_ target.
     CAP_CHECK aspace CAP_TYPE_CAP_SPACE CAP_ACCESS (\<lambda>_ new_cspace k'. do {
       k1 \<leftarrow> thread_set_capspace target new_cspace k';
       Some (C4_ERROR_NONE, k1)
     })) k"

definition syscall_not_implemented :: syscall_func_t where
  "syscall_not_implemented a b c d k = Some (- C4_ERROR_NOT_IMPLEMENTED, k)"

definition syscall_thread_set_stack :: syscall_func_t where
  "syscall_thread_set_stack = syscall_not_implemented"

definition syscall_thread_set_ip :: syscall_func_t where
  "syscall_thread_set_ip = syscall_not_implemented"

definition syscall_thread_set_priority :: syscall_func_t where
  "syscall_thread_set_priority = syscall_not_implemented"

section \<open>IPC calls\<close>

definition syscall_sync_create :: syscall_func_t where
  "syscall_sync_create a b c d k = do {
     cur \<leftarrow> sched_current_thread k;
     (check, k1) \<leftarrow> do_newobj_cap_check cur k;
     if check < 0 then Some (check, k1)
     else do {
       let object = word_of_int check;
       (msgq, k2) \<leftarrow> message_queue_create k1;
       k3 \<leftarrow> replace_reserved cur object
              \<lparr>ce_type = CAP_TYPE_IPC_SYNC_ENDPOINT, ce_permissions = full_rights, ce_object = msgq\<rparr> k2;
       Some (sint object, k3)
     }
   }"

definition syscall_sync_send :: "yield \<Rightarrow> syscall_func_t" where
  "syscall_sync_send yield buffer target c d k =
     CAP_CHECK target CAP_TYPE_IPC_SYNC_ENDPOINT CAP_MODIFY (\<lambda>_ queue k'.
       if \<not> is_user_address buffer then Some (- C4_ERROR_INVALID_ARGUMENT, k')
       else do {
         k1 \<leftarrow> message_send yield queue (Buffer buffer) k';
         Some (0, k1)
       }) k"

definition syscall_sync_recieve :: "yield \<Rightarrow> syscall_func_t" where
  "syscall_sync_recieve yield buffer from c d k =
     CAP_CHECK from CAP_TYPE_IPC_SYNC_ENDPOINT CAP_ACCESS (\<lambda>_ queue k'.
       if \<not> is_user_address buffer then Some (- C4_ERROR_INVALID_ARGUMENT, k')
       else do {
         k1 \<leftarrow> message_recieve yield queue buffer k';
         Some (0, k1)
       }) k"

definition syscall_async_create :: syscall_func_t where
  "syscall_async_create a b c d k = do {
     cur \<leftarrow> sched_current_thread k;
     (check, k1) \<leftarrow> do_newobj_cap_check cur k;
     if check < 0 then Some (check, k1)
     else do {
       let object = word_of_int check;
       (msgq, k2) \<leftarrow> message_queue_async_create k1;
       k3 \<leftarrow> replace_reserved cur object
              \<lparr>ce_type = CAP_TYPE_IPC_ASYNC_ENDPOINT, ce_permissions = full_rights, ce_object = msgq\<rparr> k2;
       Some (sint object, k3)
     }
   }"

definition syscall_async_send :: "yield \<Rightarrow> syscall_func_t" where
  "syscall_async_send yield buffer to c d k =
     CAP_CHECK to CAP_TYPE_IPC_ASYNC_ENDPOINT CAP_MODIFY (\<lambda>_ queue k'.
       if \<not> is_user_address buffer then Some (- C4_ERROR_INVALID_ARGUMENT, k')
       else do {
         (sent, k1) \<leftarrow> message_send_async yield queue (Buffer buffer) k';
         Some (of_bool sent, k1)
       }) k"

definition syscall_async_recieve :: "yield \<Rightarrow> syscall_func_t" where
  "syscall_async_recieve yield buffer from flags d k =
     CAP_CHECK from CAP_TYPE_IPC_ASYNC_ENDPOINT CAP_ACCESS (\<lambda>_ queue k'.
       if \<not> is_user_address buffer then Some (0, k')
       else do {
         (got, k1) \<leftarrow> message_recieve_async yield queue buffer flags k';
         Some (of_bool got, k1)
       }) k"

section \<open>Memory calls\<close>

definition syscall_addrspace_create :: "yield \<Rightarrow> syscall_func_t" where
  "syscall_addrspace_create yield a b c d k = do {
     cur \<leftarrow> sched_current_thread k;
     (check, k1) \<leftarrow> do_newobj_cap_check cur k;
     if check < 0 then Some (check, k1)
     else do {
       let object = word_of_int check;
       (addr, k2) \<leftarrow> addr_space_clone yield (addr_space_kernel k1) k1;
       k3 \<leftarrow> replace_reserved cur object
              \<lparr>ce_type = CAP_TYPE_ADDR_SPACE, ce_permissions = full_rights, ce_object = addr\<rparr> k2;
       Some (sint object, k3)
     }
   }"

definition syscall_addrspace_map :: "yield \<Rightarrow> syscall_func_t" where
  "syscall_addrspace_map yield addrspace phys_frame address permissions k = do {
     cur \<leftarrow> sched_current_thread k;
     CAP_CHECK addrspace CAP_TYPE_ADDR_SPACE CAP_MODIFY (\<lambda>_ space.
     CAP_CHECK phys_frame CAP_TYPE_PHYS_MEMORY CAP_ACCESS (\<lambda>_ frame k'. do {
       k1 \<leftarrow> addr_space_set space k';
       let ent = addr_space_make_ent address permissions frame;
       (_, k2) \<leftarrow> addr_space_insert_map yield space ent k1;
       c \<leftarrow> get_thread cur k2;
       k3 \<leftarrow> addr_space_set (t_addr_space c) k2;
       Some (C4_ERROR_NONE, k3)
     })) k
   }"

definition syscall_addrspace_unmap :: "yield \<Rightarrow> syscall_func_t" where
  "syscall_addrspace_unmap yield addrspace address c d k =
     CAP_CHECK addrspace CAP_TYPE_ADDR_SPACE CAP_MODIFY (\<lambda>_ space k'.
       addr_space_unmap yield space address k') k"

definition syscall_phys_frame_create :: syscall_func_t where
  "syscall_phys_frame_create phys_addr sz context d k = do {
     cur \<leftarrow> sched_current_thread k;
     (check, k1) \<leftarrow> do_newobj_cap_check cur k;
     if check < 0 then Some (check, k1)
     else do {
       let object = word_of_int check;
       (newframe, k2) \<leftarrow> phys_frame_create phys_addr sz PHYS_FRAME_FLAG_NONFREEABLE k1;
       if newframe = NULL then Some (- C4_ERROR_INVALID_ARGUMENT, k2)
       else do {
         k3 \<leftarrow> replace_reserved cur object
                \<lparr>ce_type = CAP_TYPE_PHYS_MEMORY, ce_permissions = full_rights, ce_object = newframe\<rparr> k2;
         Some (sint object, k3)
       }
     }
   }"

definition syscall_phys_frame_split :: "yield \<Rightarrow> syscall_func_t" where
  "syscall_phys_frame_split yield phys_frame offset c d k = do {
     cur \<leftarrow> sched_current_thread k;
     CAP_CHECK phys_frame CAP_TYPE_PHYS_MEMORY CAP_MODIFY (\<lambda>cap_ent frame k'. do {
       (check, k1) \<leftarrow> do_newobj_cap_check cur k';
       if check < 0 then Some (check, k1)
       else do {
         let object = word_of_int check;
         (newframe, k2) \<leftarrow> phys_frame_split yield frame offset k1;
         if newframe = NULL then Some (- C4_ERROR_INVALID_ARGUMENT, k2)
         else do {
           k3 \<leftarrow> replace_reserved cur object
                  \<lparr>ce_type = CAP_TYPE_PHYS_MEMORY, ce_permissions = ce_permissions (k_caps k2 cap_ent),
                   ce_object = newframe\<rparr> k2;
           Some (sint object, k3)
         }
       }
     }) k
   }"

definition syscall_phys_frame_join :: syscall_func_t where
  "syscall_phys_frame_join = syscall_not_implemented"

section \<open>Capability space calls\<close>

definition syscall_cspace_create :: syscall_func_t where
  "syscall_cspace_create a b c d k = do {
     cur \<leftarrow> sched_current_thread k;
     (check, k1) \<leftarrow> do_newobj_cap_check cur k;
     if check < 0 then Some (check, k1)
     else do {
       let object = word_of_int check;
       (cspace, k2) \<leftarrow> cap_space_create k1;
       k3 \<leftarrow> replace_reserved cur object
              \<lparr>ce_type = CAP_TYPE_CAP_SPACE, ce_permissions = full_rights, ce_object = cspace\<rparr> k2;
       Some (sint object, k3)
     }
   }"

text \<open>
  \<^verbatim>\<open>syscall_cspace_cap_move\<close> and \<^verbatim>\<open>syscall_cspace_cap_copy\<close>. The two objects are looked up in the
  capability space of the current thread, while the replacement and the removal act on the given
  spaces; their results are ignored.
\<close>

definition syscall_cspace_cap_move :: syscall_func_t where
  "syscall_cspace_cap_move src srcobj dest destobj k =
     CAP_CHECK src CAP_TYPE_CAP_SPACE (CAP_MODIFY OR CAP_SHARE) (\<lambda>_ srcspace.
     CAP_CHECK dest CAP_TYPE_CAP_SPACE CAP_MODIFY (\<lambda>_ destspace.
     CAP_CHECK destobj CAP_TYPE_NULL 0 (\<lambda>_ _.
     CAP_CHECK srcobj CAP_TYPE_NULL CAP_SHARE (\<lambda>srcent _ k'. do {
       (_, k1) \<leftarrow> cap_space_replace destspace destobj (k_caps k' srcent) k';
       (_, k2) \<leftarrow> cap_space_remove srcspace srcobj k1;
       Some (C4_ERROR_NONE, k2)
     })))) k"

definition syscall_cspace_cap_copy :: syscall_func_t where
  "syscall_cspace_cap_copy src srcobj dest destobj k =
     CAP_CHECK src CAP_TYPE_CAP_SPACE (CAP_MODIFY OR CAP_SHARE) (\<lambda>_ srcspace.
     CAP_CHECK dest CAP_TYPE_CAP_SPACE CAP_MODIFY (\<lambda>_ destspace.
     CAP_CHECK destobj CAP_TYPE_NULL 0 (\<lambda>_ _.
     CAP_CHECK srcobj CAP_TYPE_NULL CAP_SHARE (\<lambda>srcent _ k'. do {
       (_, k1) \<leftarrow> cap_space_replace destspace destobj (k_caps k' srcent) k';
       Some (C4_ERROR_NONE, k1)
     })))) k"

definition syscall_cspace_cap_remove :: syscall_func_t where
  "syscall_cspace_cap_remove capspace object c d k =
     CAP_CHECK capspace CAP_TYPE_CAP_SPACE CAP_MODIFY (\<lambda>_ cspace.
     CAP_CHECK object CAP_TYPE_NULL 0 (\<lambda>_ _ k'. do {
       (removed, k1) \<leftarrow> cap_space_remove cspace object k';
       if \<not> removed then Some (- C4_ERROR_PERMISSION_DENIED, k1)
       else Some (C4_ERROR_NONE, k1)
     })) k"

definition syscall_cspace_cap_restrict :: syscall_func_t where
  "syscall_cspace_cap_restrict capspace object permissions d k =
     CAP_CHECK capspace CAP_TYPE_CAP_SPACE CAP_MODIFY (\<lambda>_ cspace k'. do {
       (ok, k1) \<leftarrow> cap_space_restrict cspace object permissions k';
       if \<not> ok then Some (- C4_ERROR_PERMISSION_DENIED, k1)
       else Some (C4_ERROR_NONE, k1)
     }) k"

definition syscall_cspace_cap_share :: syscall_func_t where
  "syscall_cspace_cap_share = syscall_not_implemented"

definition syscall_cspace_cap_grant :: "yield \<Rightarrow> syscall_func_t" where
  "syscall_cspace_cap_grant yield object queue permissions d k = do {
     cur \<leftarrow> sched_current_thread k;
     (check, cap) \<leftarrow> do_cap_check cur queue CAP_TYPE_IPC_SYNC_ENDPOINT CAP_MODIFY k;
     if check \<noteq> C4_ERROR_NONE then Some (check, k)
     else do {
       let endpoint = ce_object (k_caps k cap);
       (check, cap) \<leftarrow> do_cap_check cur object CAP_TYPE_NULL (permissions OR CAP_SHARE) k;
       if check \<noteq> C4_ERROR_NONE then Some (check, k)
       else do {
         k1 \<leftarrow> message_send_capability yield endpoint
                ((k_caps k cap)\<lparr>ce_permissions := permissions\<rparr>) k;
         Some (- C4_ERROR_NONE, k1)
       }
     }
   }"

section \<open>Other calls\<close>

definition syscall_interrupt_subscribe :: syscall_func_t where
  "syscall_interrupt_subscribe interrupt endpoint c d k =
     CAP_CHECK endpoint CAP_TYPE_IPC_ASYNC_ENDPOINT CAP_MODIFY (\<lambda>_ queue k'.
       let (_, k1) = interrupt_listen interrupt queue k'
       in Some (C4_ERROR_NONE, k1)) k"

definition syscall_interrupt_unsubscribe :: syscall_func_t where
  "syscall_interrupt_unsubscribe = syscall_not_implemented"

text \<open>Port numbers are truncated to 16 bits, values to the width of the access.\<close>

definition port_read :: "nat \<Rightarrow> u32 \<Rightarrow> kernel \<Rightarrow> u32" where
  "port_read w port k = take_bit w (k_port_in k (ucast port))"

definition port_write :: "nat \<Rightarrow> u32 \<Rightarrow> u32 \<Rightarrow> kernel \<Rightarrow> kernel" where
  "port_write w port v k = k\<lparr>k_port_log := k_port_log k @ [(w, ucast port, take_bit w v)]\<rparr>"

definition IO_PORT_IN_BYTE :: u32 where [c4_enum]: "IO_PORT_IN_BYTE = 0"
definition IO_PORT_IN_WORD :: u32 where [c4_enum]: "IO_PORT_IN_WORD = 1"
definition IO_PORT_IN_DWORD :: u32 where [c4_enum]: "IO_PORT_IN_DWORD = 2"
definition IO_PORT_OUT_BYTE :: u32 where [c4_enum]: "IO_PORT_OUT_BYTE = 3"
definition IO_PORT_OUT_WORD :: u32 where [c4_enum]: "IO_PORT_OUT_WORD = 4"
definition IO_PORT_OUT_DWORD :: u32 where [c4_enum]: "IO_PORT_OUT_DWORD = 5"

definition syscall_ioport :: syscall_func_t where
  "syscall_ioport action port v d k =
     (if action = IO_PORT_IN_BYTE then Some (sint (port_read 8 port k), k)
      else if action = IO_PORT_IN_WORD then Some (sint (port_read 16 port k), k)
      else if action = IO_PORT_IN_DWORD then Some (sint (port_read 32 port k), k)
      else if action = IO_PORT_OUT_BYTE then Some (0, port_write 8 port v k)
      else if action = IO_PORT_OUT_WORD then Some (0, port_write 16 port v k)
      else if action = IO_PORT_OUT_DWORD then Some (0, port_write 32 port v k)
      else Some (-1, k))"

definition SYSCALL_INFO_GET_ID :: u32 where [c4_enum]: "SYSCALL_INFO_GET_ID = 0"

definition syscall_info :: syscall_func_t where
  "syscall_info action b c d k = do {
     current \<leftarrow> sched_current_thread k;
     if action = SYSCALL_INFO_GET_ID
     then do {
       t \<leftarrow> get_thread current k;
       Some (sint (t_id t), k)
     }
     else Some (-1, k)
   }"

definition syscall_debug_putchar :: syscall_func_t where
  "syscall_debug_putchar character b c d k = Some (0, k\<lparr>k_console := k_console k @ [character]\<rparr>)"

section \<open>Dispatch\<close>

definition syscall_table :: "yield \<Rightarrow> syscall_func_t list" where
  "syscall_table yield = [
     syscall_thread_exit yield,
     syscall_thread_sleep yield,
     syscall_thread_create yield,
     syscall_thread_set_addrspace,
     syscall_thread_set_capspace,
     syscall_thread_set_stack,
     syscall_thread_set_ip,
     syscall_thread_set_priority,
     syscall_thread_set_pager,
     syscall_thread_continue,
     syscall_thread_stop,
     syscall_sync_create,
     syscall_sync_send yield,
     syscall_sync_recieve yield,
     syscall_async_create,
     syscall_async_send yield,
     syscall_async_recieve yield,
     syscall_addrspace_create yield,
     syscall_addrspace_map yield,
     syscall_addrspace_unmap yield,
     syscall_phys_frame_create,
     syscall_phys_frame_split yield,
     syscall_phys_frame_join,
     syscall_cspace_create,
     syscall_cspace_cap_move,
     syscall_cspace_cap_copy,
     syscall_cspace_cap_remove,
     syscall_cspace_cap_restrict,
     syscall_cspace_cap_share,
     syscall_cspace_cap_grant yield,
     syscall_interrupt_subscribe,
     syscall_interrupt_unsubscribe,
     syscall_ioport,
     syscall_info,
     syscall_debug_putchar]"

text \<open>The numbers of the calls (\<^verbatim>\<open>include/c4/syscall.h\<close>).\<close>

definition SYSCALL_THREAD_EXIT :: u32 where [c4_enum]: "SYSCALL_THREAD_EXIT = 0"
definition SYSCALL_THREAD_SLEEP :: u32 where [c4_enum]: "SYSCALL_THREAD_SLEEP = 1"
definition SYSCALL_THREAD_CREATE :: u32 where [c4_enum]: "SYSCALL_THREAD_CREATE = 2"
definition SYSCALL_THREAD_SET_ADDRSPACE :: u32 where [c4_enum]: "SYSCALL_THREAD_SET_ADDRSPACE = 3"
definition SYSCALL_THREAD_SET_CAPSPACE :: u32 where [c4_enum]: "SYSCALL_THREAD_SET_CAPSPACE = 4"
definition SYSCALL_THREAD_SET_STACK :: u32 where [c4_enum]: "SYSCALL_THREAD_SET_STACK = 5"
definition SYSCALL_THREAD_SET_IP :: u32 where [c4_enum]: "SYSCALL_THREAD_SET_IP = 6"
definition SYSCALL_THREAD_SET_PRIORITY :: u32 where [c4_enum]: "SYSCALL_THREAD_SET_PRIORITY = 7"
definition SYSCALL_THREAD_SET_PAGER :: u32 where [c4_enum]: "SYSCALL_THREAD_SET_PAGER = 8"
definition SYSCALL_THREAD_CONTINUE :: u32 where [c4_enum]: "SYSCALL_THREAD_CONTINUE = 9"
definition SYSCALL_THREAD_STOP :: u32 where [c4_enum]: "SYSCALL_THREAD_STOP = 10"
definition SYSCALL_SYNC_CREATE :: u32 where [c4_enum]: "SYSCALL_SYNC_CREATE = 11"
definition SYSCALL_SYNC_SEND :: u32 where [c4_enum]: "SYSCALL_SYNC_SEND = 12"
definition SYSCALL_SYNC_RECIEVE :: u32 where [c4_enum]: "SYSCALL_SYNC_RECIEVE = 13"
definition SYSCALL_ASYNC_CREATE :: u32 where [c4_enum]: "SYSCALL_ASYNC_CREATE = 14"
definition SYSCALL_ASYNC_SEND :: u32 where [c4_enum]: "SYSCALL_ASYNC_SEND = 15"
definition SYSCALL_ASYNC_RECIEVE :: u32 where [c4_enum]: "SYSCALL_ASYNC_RECIEVE = 16"
definition SYSCALL_ADDRSPACE_CREATE :: u32 where [c4_enum]: "SYSCALL_ADDRSPACE_CREATE = 17"
definition SYSCALL_ADDRSPACE_MAP :: u32 where [c4_enum]: "SYSCALL_ADDRSPACE_MAP = 18"
definition SYSCALL_ADDRSPACE_UNMAP :: u32 where [c4_enum]: "SYSCALL_ADDRSPACE_UNMAP = 19"
definition SYSCALL_PHYS_FRAME_CREATE :: u32 where [c4_enum]: "SYSCALL_PHYS_FRAME_CREATE = 20"
definition SYSCALL_PHYS_FRAME_SPLIT :: u32 where [c4_enum]: "SYSCALL_PHYS_FRAME_SPLIT = 21"
definition SYSCALL_PHYS_FRAME_JOIN :: u32 where [c4_enum]: "SYSCALL_PHYS_FRAME_JOIN = 22"
definition SYSCALL_CSPACE_CREATE :: u32 where [c4_enum]: "SYSCALL_CSPACE_CREATE = 23"
definition SYSCALL_CSPACE_CAP_MOVE :: u32 where [c4_enum]: "SYSCALL_CSPACE_CAP_MOVE = 24"
definition SYSCALL_CSPACE_CAP_COPY :: u32 where [c4_enum]: "SYSCALL_CSPACE_CAP_COPY = 25"
definition SYSCALL_CSPACE_CAP_REMOVE :: u32 where [c4_enum]: "SYSCALL_CSPACE_CAP_REMOVE = 26"
definition SYSCALL_CSPACE_CAP_RESTRICT :: u32 where [c4_enum]: "SYSCALL_CSPACE_CAP_RESTRICT = 27"
definition SYSCALL_CSPACE_CAP_SHARE :: u32 where [c4_enum]: "SYSCALL_CSPACE_CAP_SHARE = 28"
definition SYSCALL_CSPACE_CAP_GRANT :: u32 where [c4_enum]: "SYSCALL_CSPACE_CAP_GRANT = 29"
definition SYSCALL_INTERRUPT_SUBSCRIBE :: u32 where [c4_enum]: "SYSCALL_INTERRUPT_SUBSCRIBE = 30"
definition SYSCALL_INTERRUPT_UNSUBSCRIBE :: u32 where [c4_enum]: "SYSCALL_INTERRUPT_UNSUBSCRIBE = 31"
definition SYSCALL_IOPORT :: u32 where [c4_enum]: "SYSCALL_IOPORT = 32"
definition SYSCALL_INFO :: u32 where [c4_enum]: "SYSCALL_INFO = 33"
definition SYSCALL_DEBUG_PUTCHAR :: u32 where [c4_enum]: "SYSCALL_DEBUG_PUTCHAR = 34"

definition SYSCALL_MAX :: u32 where [c4_enum]: "SYSCALL_MAX = 35"

definition syscall_dispatch :: "yield \<Rightarrow> u32 \<Rightarrow> syscall_func_t" where
  "syscall_dispatch yield num a b c d k =
     (if num \<ge> SYSCALL_MAX then Some (-1, k)
      else (syscall_table yield ! unat num) a b c d k)"

record interrupt_frame_t =
  fr_edi :: u32
  fr_esi :: u32
  fr_ebp :: u32
  fr_esp :: u32
  fr_ebx :: u32
  fr_edx :: u32
  fr_ecx :: u32
  fr_eax :: u32
  fr_intr_num :: u32
  fr_error_num :: u32
  fr_eip :: u32

definition syscall_handler :: "yield \<Rightarrow> interrupt_frame_t \<Rightarrow> kernel \<Rightarrow> (interrupt_frame_t \<times> kernel) option" where
  "syscall_handler yield frame k = do {
     (r, k1) \<leftarrow> syscall_dispatch yield (fr_eax frame) (fr_edi frame) (fr_esi frame)
                  (fr_edx frame) (fr_ebx frame) k;
     Some (frame\<lparr>fr_eax := word_of_int r\<rparr>, k1)
   }"

text \<open>
  The dispatch table and the numbering agree: a call by its number of the interface header runs
  the handler of that name, for all 35 calls.
\<close>

theorem syscall_numbers_agree:
  "map (syscall_dispatch yield)
    [SYSCALL_THREAD_EXIT, SYSCALL_THREAD_SLEEP, SYSCALL_THREAD_CREATE,
     SYSCALL_THREAD_SET_ADDRSPACE, SYSCALL_THREAD_SET_CAPSPACE, SYSCALL_THREAD_SET_STACK,
     SYSCALL_THREAD_SET_IP, SYSCALL_THREAD_SET_PRIORITY, SYSCALL_THREAD_SET_PAGER,
     SYSCALL_THREAD_CONTINUE, SYSCALL_THREAD_STOP, SYSCALL_SYNC_CREATE,
     SYSCALL_SYNC_SEND, SYSCALL_SYNC_RECIEVE, SYSCALL_ASYNC_CREATE,
     SYSCALL_ASYNC_SEND, SYSCALL_ASYNC_RECIEVE, SYSCALL_ADDRSPACE_CREATE,
     SYSCALL_ADDRSPACE_MAP, SYSCALL_ADDRSPACE_UNMAP, SYSCALL_PHYS_FRAME_CREATE,
     SYSCALL_PHYS_FRAME_SPLIT, SYSCALL_PHYS_FRAME_JOIN, SYSCALL_CSPACE_CREATE,
     SYSCALL_CSPACE_CAP_MOVE, SYSCALL_CSPACE_CAP_COPY, SYSCALL_CSPACE_CAP_REMOVE,
     SYSCALL_CSPACE_CAP_RESTRICT, SYSCALL_CSPACE_CAP_SHARE, SYSCALL_CSPACE_CAP_GRANT,
     SYSCALL_INTERRUPT_SUBSCRIBE, SYSCALL_INTERRUPT_UNSUBSCRIBE, SYSCALL_IOPORT,
     SYSCALL_INFO, SYSCALL_DEBUG_PUTCHAR] =
    [syscall_thread_exit yield, syscall_thread_sleep yield, syscall_thread_create yield,
     syscall_thread_set_addrspace, syscall_thread_set_capspace, syscall_thread_set_stack,
     syscall_thread_set_ip, syscall_thread_set_priority, syscall_thread_set_pager,
     syscall_thread_continue, syscall_thread_stop, syscall_sync_create,
     syscall_sync_send yield, syscall_sync_recieve yield, syscall_async_create,
     syscall_async_send yield, syscall_async_recieve yield, syscall_addrspace_create yield,
     syscall_addrspace_map yield, syscall_addrspace_unmap yield, syscall_phys_frame_create,
     syscall_phys_frame_split yield, syscall_phys_frame_join, syscall_cspace_create,
     syscall_cspace_cap_move, syscall_cspace_cap_copy, syscall_cspace_cap_remove,
     syscall_cspace_cap_restrict, syscall_cspace_cap_share, syscall_cspace_cap_grant yield,
     syscall_interrupt_subscribe, syscall_interrupt_unsubscribe, syscall_ioport,
     syscall_info, syscall_debug_putchar]"
  by (simp add: syscall_dispatch_def syscall_table_def c4_enum fun_eq_iff) (simp add: word_le_nat_alt)

section \<open>Access control\<close>

text \<open>
  What a thread must hold for each call, as the system call interface has it: the number of the
  object, its type (\<^verbatim>\<open>CAP_TYPE_NULL\<close> for any) and the rights, in the order of the dispatch table.
\<close>

definition syscall_guards :: "u32 \<Rightarrow> u32 \<Rightarrow> u32 \<Rightarrow> u32 \<Rightarrow> (u32 \<times> u32 \<times> u32) list list" where
  "syscall_guards a b c d = [
     [], [], [],
     [(a, CAP_TYPE_THREAD, CAP_MODIFY), (b, CAP_TYPE_ADDR_SPACE, CAP_ACCESS)],
     [(a, CAP_TYPE_THREAD, CAP_MODIFY), (b, CAP_TYPE_CAP_SPACE, CAP_ACCESS)],
     [], [], [],
     [(a, CAP_TYPE_THREAD, CAP_MODIFY), (b, CAP_TYPE_IPC_SYNC_ENDPOINT, CAP_ACCESS OR CAP_MODIFY)],
     [(a, CAP_TYPE_THREAD, CAP_MODIFY)],
     [(a, CAP_TYPE_THREAD, CAP_MODIFY)],
     [],
     [(b, CAP_TYPE_IPC_SYNC_ENDPOINT, CAP_MODIFY)],
     [(b, CAP_TYPE_IPC_SYNC_ENDPOINT, CAP_ACCESS)],
     [],
     [(b, CAP_TYPE_IPC_ASYNC_ENDPOINT, CAP_MODIFY)],
     [(b, CAP_TYPE_IPC_ASYNC_ENDPOINT, CAP_ACCESS)],
     [],
     [(a, CAP_TYPE_ADDR_SPACE, CAP_MODIFY), (b, CAP_TYPE_PHYS_MEMORY, CAP_ACCESS)],
     [(a, CAP_TYPE_ADDR_SPACE, CAP_MODIFY)],
     [],
     [(a, CAP_TYPE_PHYS_MEMORY, CAP_MODIFY)],
     [], [],
     [(a, CAP_TYPE_CAP_SPACE, CAP_MODIFY OR CAP_SHARE), (c, CAP_TYPE_CAP_SPACE, CAP_MODIFY),
      (d, CAP_TYPE_NULL, 0), (b, CAP_TYPE_NULL, CAP_SHARE)],
     [(a, CAP_TYPE_CAP_SPACE, CAP_MODIFY OR CAP_SHARE), (c, CAP_TYPE_CAP_SPACE, CAP_MODIFY),
      (d, CAP_TYPE_NULL, 0), (b, CAP_TYPE_NULL, CAP_SHARE)],
     [(a, CAP_TYPE_CAP_SPACE, CAP_MODIFY), (b, CAP_TYPE_NULL, 0)],
     [(a, CAP_TYPE_CAP_SPACE, CAP_MODIFY)],
     [],
     [(b, CAP_TYPE_IPC_SYNC_ENDPOINT, CAP_MODIFY), (a, CAP_TYPE_NULL, c OR CAP_SHARE)],
     [(b, CAP_TYPE_IPC_ASYNC_ENDPOINT, CAP_MODIFY)],
     [], [], [], []]"

text \<open>The thread's space names, under that number, a capability of the type with all the rights.\<close>

definition has_cap :: "kernel \<Rightarrow> ptr \<Rightarrow> u32 \<times> u32 \<times> u32 \<Rightarrow> bool" where
  "has_cap k cur g \<longleftrightarrow> (case g of (object, type, rights) \<Rightarrow>
     t_cap_space (k_threads k cur) \<noteq> NULL \<and>
     (\<exists>e. cap_space_lookup k (t_cap_space (k_threads k cur)) object = Some e \<and> e \<noteq> NULL \<and>
        (type = CAP_TYPE_NULL \<or> ce_type (k_caps k e) = type) \<and>
        ce_permissions (k_caps k e) AND rights = rights))"

text \<open>A thread with a well-formed capability space, or with none.\<close>

definition cspace_ok :: "kernel \<Rightarrow> ptr \<Rightarrow> bool" where
  "cspace_ok k cur \<longleftrightarrow> cur \<noteq> NULL \<and> (\<forall>e. ce_type (k_caps k e) \<le> CAP_TYPE_RESERVED) \<and>
     (t_cap_space (k_threads k cur) = NULL \<or>
      (\<exists>S. caps_wf k S \<and> t_cap_space (k_threads k cur) \<in> S))"

lemma do_cap_check_cases:
  assumes "cspace_ok k cur"
  obtains (held) e where "has_cap k cur (x, type, perms)" and "do_cap_check cur x type perms k = Some (C4_ERROR_NONE, e)"
  | (denied) r where "\<not> has_cap k cur (x, type, perms)" and "r < 0" and "do_cap_check cur x type perms k = Some (r, NULL)"
proof (cases "t_cap_space (k_threads k cur) = NULL")
  case True
  then show thesis
    using denied [of "- C4_ERROR_PERMISSION_DENIED"] assms
    by (simp add: has_cap_def do_cap_check_def get_thread_def cspace_ok_def c4_enum)
next
  case False
  with assms obtain S where S: "caps_wf k S" "t_cap_space (k_threads k cur) \<in> S" by (auto simp: cspace_ok_def)
  from S obtain e where e: "cap_space_lookup k (t_cap_space (k_threads k cur)) x = Some e"
    by (cases rule: cap_space_lookup_cases [where object = x]) auto
  show thesis
  proof (cases "has_cap k cur (x, type, perms)")
    case True
    then show thesis using held [of e] e assms False
      by (auto simp: has_cap_def do_cap_check_def get_thread_def cspace_ok_def)
  next
    case nh: False
    have "\<exists>r < 0. do_cap_check cur x type perms k = Some (r, NULL)"
      using nh e assms False
      by (auto simp: has_cap_def do_cap_check_def get_thread_def cspace_ok_def C4_ERROR_PERMISSION_DENIED_def
          C4_ERROR_INVALID_OBJECT_def)
    then show thesis using nh denied by blast
  qed
qed

lemma CAP_CHECK_denied:
  assumes "cspace_ok k cur" and "sched_current_thread k = Some cur"
    and "\<not> has_cap k cur (x, type, perms) \<or> (\<forall>e obj. \<exists>r < 0. rest e obj k = Some (r, k))"
  shows "\<exists>r < 0. CAP_CHECK x type perms rest k = Some (r, k)"
  using assms(1)
proof (cases rule: do_cap_check_cases [where x = x and type = type and perms = perms])
  case (held e)
  then show ?thesis using assms by (simp add: CAP_CHECK_def C4_ERROR_NONE_def)
next
  case (denied r)
  then show ?thesis using assms by (auto simp: CAP_CHECK_def C4_ERROR_NONE_def)
qed

lemma cap_grant_denied:
  assumes "cspace_ok k cur" and c: "sched_current_thread k = Some cur"
    and d: "\<not> has_cap k cur (b, CAP_TYPE_IPC_SYNC_ENDPOINT, CAP_MODIFY) \<or> \<not> has_cap k cur (a, CAP_TYPE_NULL, p OR CAP_SHARE)"
  shows "\<exists>r < 0. syscall_cspace_cap_grant yield a b p q k = Some (r, k)"
  using assms(1)
proof (cases rule: do_cap_check_cases [where x = b and type = CAP_TYPE_IPC_SYNC_ENDPOINT and perms = CAP_MODIFY])
  case first: (held e)
  from assms(1) show ?thesis
  proof (cases rule: do_cap_check_cases [where x = a and type = CAP_TYPE_NULL and perms = "p OR CAP_SHARE"])
    case (held e)
    then show ?thesis using d first by simp
  next
    case (denied r)
    then show ?thesis using first c by (auto simp: syscall_cspace_cap_grant_def C4_ERROR_NONE_def)
  qed
next
  case (denied r)
  then show ?thesis using c by (auto simp: syscall_cspace_cap_grant_def C4_ERROR_NONE_def)
qed

definition refuses :: "kernel \<Rightarrow> ptr \<Rightarrow> syscall_ret \<Rightarrow> (u32 \<times> u32 \<times> u32) list \<Rightarrow> bool" where
  "refuses k cur res gs \<longleftrightarrow> (\<forall>g \<in> set gs. \<not> has_cap k cur g \<longrightarrow> (\<exists>r < 0. res = Some (r, k)))"

lemma refuses_intros:
  assumes "cspace_ok k cur" and "sched_current_thread k = Some cur"
  shows "refuses k cur res []"
    and "refuses k cur (CAP_CHECK x t p rest k) [(x, t, p)]"
    and "(\<And>e obj. refuses k cur (rest e obj k) (g # gs)) \<Longrightarrow>
      refuses k cur (CAP_CHECK x t p rest k) ((x, t, p) # g # gs)"
  using CAP_CHECK_denied [OF assms] by (auto simp: refuses_def)

lemma syscall_table_guarded:
  assumes ok: "cspace_ok k cur" and c: "sched_current_thread k = Some cur"
  shows "list_all2 (\<lambda>f gs. refuses k cur (f a b c d k) gs) (syscall_table yield) (syscall_guards a b c d)"
  unfolding syscall_table_def syscall_guards_def
  using cap_grant_denied [OF ok c]
  by (simp add: syscall_thread_set_addrspace_def syscall_thread_set_capspace_def syscall_thread_set_pager_def
      syscall_thread_continue_def syscall_thread_stop_def syscall_sync_send_def syscall_sync_recieve_def
      syscall_async_send_def syscall_async_recieve_def syscall_addrspace_map_def syscall_addrspace_unmap_def
      syscall_phys_frame_split_def syscall_cspace_cap_move_def syscall_cspace_cap_copy_def
      syscall_cspace_cap_remove_def syscall_cspace_cap_restrict_def syscall_interrupt_subscribe_def c
      refuses_intros [OF ok c])
     (simp add: refuses_def)

text \<open>
  C3: access control. A system call that names objects of the caller is refused with a negative
  result, and changes nothing at all, unless the caller's capability space holds every capability
  the call needs, with the type and the rights it needs. This covers all calls of the dispatch table
  that take objects.
\<close>

theorem syscall_access_control:
  assumes "cspace_ok k cur" and "sched_current_thread k = Some cur" and "num < SYSCALL_MAX"
    and "g \<in> set (syscall_guards a b c d ! unat num)" and "\<not> has_cap k cur g"
  shows "\<exists>r < 0. syscall_dispatch yield num a b c d k = Some (r, k)"
proof -
  have l: "length (syscall_table yield) = 35" by (simp add: syscall_table_def)
  have n: "unat num < 35" using assms(3) by (simp add: word_less_nat_alt c4_enum)
  from list_all2_nthD [OF syscall_table_guarded [OF assms(1,2)], of "unat num" yield a b c d] l n
  have "refuses k cur ((syscall_table yield ! unat num) a b c d k) (syscall_guards a b c d ! unat num)" by simp
  then show ?thesis using assms(3-5) by (auto simp: syscall_dispatch_def refuses_def)
qed

section \<open>Creating objects\<close>

lemma sint_small: "unat (j :: u32) < 256 \<Longrightarrow> sint j = int (unat j)"
proof -
  assume "unat j < 256"
  then have "uint j < 256" by (metis of_nat_less_iff of_nat_numeral uint_nat)
  then have "sint j = uint j"
    unfolding sint_uint by (intro signed_take_bit_int_eq_self) (simp_all add: order_trans [OF _ uint_ge_0])
  then show ?thesis by simp
qed

lemma do_newobj_cases:
  assumes wf: "caps_wf k S" "t_cap_space (k_threads k cur) \<in> S" and cur: "cur \<noteq> NULL"
  obtains (refused) r where "do_newobj_cap_check cur k = Some (r, k)" and "r < 0"
      and "ce_permissions (k_caps k (cap_tbl k (t_cap_space (k_threads k cur)))) AND CAP_MODIFY = 0 \<or>
        (\<forall>j. unat j < 256 \<longrightarrow> ce_type (k_caps k (cap_slot (cap_tbl k (t_cap_space (k_threads k cur))) j)) \<noteq> CAP_TYPE_NULL)"
  | (slot) j where "do_newobj_cap_check cur k = Some (int (unat j),
        upd_cap (cap_slot (cap_tbl k (t_cap_space (k_threads k cur))) j)
          (\<lambda>_. \<lparr>ce_type = CAP_TYPE_RESERVED, ce_permissions = 0, ce_object = NULL\<rparr>) k)"
      and "unat j < 256" and "j \<noteq> 0"
      and "ce_type (k_caps k (cap_slot (cap_tbl k (t_cap_space (k_threads k cur))) j)) = CAP_TYPE_NULL"
      and "ce_permissions (k_caps k (cap_tbl k (t_cap_space (k_threads k cur)))) AND CAP_MODIFY \<noteq> 0"
proof -
  let ?sp = "t_cap_space (k_threads k cur)"
  let ?e = "\<lparr>ce_type = CAP_TYPE_RESERVED, ce_permissions = 0, ce_object = NULL\<rparr>"
  note w = caps_wfD [OF wf]
  show thesis
  proof (cases "ce_permissions (k_caps k (cap_tbl k ?sp)) AND CAP_MODIFY = 0")
    case True
    then show thesis
      using refused [of "- C4_ERROR_PERMISSION_DENIED"] w(1,2) cur
      by (simp add: do_newobj_cap_check_def get_thread_def cap_space_root_entry_def read_cap_def c4_enum)
  next
    case False
    have d: "do_newobj_cap_check cur k = do {
        (object, k1) \<leftarrow> cap_space_insert ?sp ?e k;
        if object = CAP_INVALID_OBJECT then Some (- C4_ERROR_ENTITY_FULL, k1) else Some (sint object, k1)
      }"
      using False w(1,2) cur
      by (simp add: do_newobj_cap_check_def get_thread_def cap_space_root_entry_def read_cap_def)
    have "ce_type ?e \<noteq> CAP_TYPE_NULL" "ce_type ?e \<noteq> CAP_TYPE_CAP_SPACE" by (simp_all add: c4_enum)
    with wf show thesis
    proof (cases rule: cap_space_insert_cases)
      case r: refused
      show thesis
        by (rule refused [of "- C4_ERROR_ENTITY_FULL"]) (use r d in \<open>simp_all add: c4_enum\<close>)
    next
      case (slot j)
      have "sint j = int (unat j)" by (rule sint_small [OF slot(3)])
      then show thesis using that(2) [of j] slot d False by (simp add: c4_enum)
    qed
  qed
qed

lemma replace_reserved_ok:
  assumes wf: "caps_wf k S" "t_cap_space (k_threads k cur) \<in> S" and cur: "cur \<noteq> NULL" and j: "unat j < 256"
    and ty: "ce_type (k_caps k (cap_slot (cap_tbl k (t_cap_space (k_threads k cur))) j)) \<noteq> CAP_TYPE_CAP_SPACE"
    and md: "ce_permissions (k_caps k (cap_tbl k (t_cap_space (k_threads k cur)))) AND CAP_MODIFY \<noteq> 0"
  shows "replace_reserved cur j entry k =
    Some (upd_cap (cap_slot (cap_tbl k (t_cap_space (k_threads k cur))) j) (\<lambda>_. entry) k)"
proof -
  let ?sp = "t_cap_space (k_threads k cur)"
  note w = caps_wfD [OF wf]
  have "cap_space_lookup k ?sp j = Some (cap_slot (cap_tbl k ?sp) j)" by (rule cap_space_lookup_slot [OF wf j ty])
  moreover have "cap_slot (cap_tbl k ?sp) j \<noteq> NULL" by (rule cap_slot_nonnull [OF w(3,2) j])
  moreover have "cap_owner_entry k (cap_slot (cap_tbl k ?sp) j) = Some (k_caps k (cap_tbl k ?sp))"
    using page_of_slot [OF w(3) j] w
    by (simp add: cap_owner_entry_def cap_entry_root_space_def cap_space_root_entry_def read_cap_def)
  ultimately show ?thesis
    using cur md by (simp add: replace_reserved_def get_thread_def cap_space_replace_def)
qed

lemma caps_wf_cong:
  assumes "k_caps k' = k_caps k" "k_cap_spaces k' = k_cap_spaces k"
  shows "caps_wf k' S = caps_wf k S"
  by (simp add: caps_wf_def space_ok_def assms)

text \<open>
  The shape the creating calls share: an entry of the caller's space is reserved, the object is
  created without touching capabilities or threads, and then fills the entry.
\<close>

lemma create_object:
  fixes create :: "kernel \<Rightarrow> (ptr \<times> kernel) option"
  assumes wf: "caps_wf k S" "t_cap_space (k_threads k cur) \<in> S" and cur: "cur \<noteq> NULL"
    and ok: "\<And>C. \<exists>obj k2. create (k\<lparr>k_caps := C\<rparr>) = Some (obj, k2) \<and> k_caps k2 = C \<and>
      k_cap_spaces k2 = k_cap_spaces k \<and> k_threads k2 = k_threads k \<and> Q obj k2"
    and Q: "\<And>obj k2 C. Q obj k2 \<Longrightarrow> Q obj (k2\<lparr>k_caps := C\<rparr>)"
    and ty: "type \<noteq> CAP_TYPE_NULL" "type \<noteq> CAP_TYPE_CAP_SPACE"
    and call: "call = do {
      (check, k1) \<leftarrow> do_newobj_cap_check cur k;
      if check < 0 then Some (check, k1)
      else do {
        let object = word_of_int check;
        (obj, k2) \<leftarrow> create k1;
        k3 \<leftarrow> replace_reserved cur object \<lparr>ce_type = type, ce_permissions = full_rights, ce_object = obj\<rparr> k2;
        Some (sint object, k3)
      }
    }"
  shows "if \<not> cap_room k (t_cap_space (k_threads k cur)) then \<exists>r < 0. call = Some (r, k)
    else (\<exists>j e obj k'. call = Some (int (unat j), k') \<and> unat j < 256 \<and> j \<noteq> 0 \<and>
      cap_space_lookup k' (t_cap_space (k_threads k cur)) j = Some e \<and> ce_type (k_caps k e) = CAP_TYPE_NULL \<and>
      k_caps k' = (k_caps k)(e := \<lparr>ce_type = type, ce_permissions = full_rights, ce_object = obj\<rparr>) \<and>
      k_cap_spaces k' = k_cap_spaces k \<and> k_threads k' = k_threads k \<and> caps_wf k' S \<and> e \<noteq> NULL \<and> Q obj k')"
proof -
  let ?sp = "t_cap_space (k_threads k cur)"
  let ?r = "\<lparr>ce_type = CAP_TYPE_RESERVED, ce_permissions = 0, ce_object = NULL\<rparr>"
  from wf cur show ?thesis
  proof (cases rule: do_newobj_cases)
    case (refused r)
    then have "\<not> cap_room k ?sp" by (auto simp: cap_room_def)
    then show ?thesis using refused(1,2) by (auto simp: call)
  next
    case (slot j)
    let ?s = "cap_slot (cap_tbl k ?sp) j"
    let ?k1 = "k\<lparr>k_caps := (k_caps k)(?s := ?r)\<rparr>"
    note w = caps_wfD [OF wf]
    have wf1: "caps_wf ?k1 S"
      using caps_wf_upd [OF wf slot(2,3), of "\<lambda>_. ?r"] by (simp add: upd_cap_def c4_enum)
    from ok [of "(k_caps k)(?s := ?r)"] obtain obj k2 where k2: "create ?k1 = Some (obj, k2)"
      "k_caps k2 = (k_caps k)(?s := ?r)" "k_cap_spaces k2 = k_cap_spaces k" "k_threads k2 = k_threads k" "Q obj k2"
      by blast
    let ?e = "\<lparr>ce_type = type, ce_permissions = full_rights, ce_object = obj\<rparr>"
    have wf2: "caps_wf k2 S" using wf1 caps_wf_cong [of k2 ?k1] k2 by simp
    have "?s \<noteq> cap_tbl k ?sp" using cap_slot_eq_iff [OF w(3) slot(2) w(3), of 0] slot(3) by simp
    then have md: "ce_permissions (k_caps k2 (cap_tbl k2 (t_cap_space (k_threads k2 cur)))) AND CAP_MODIFY \<noteq> 0"
      using slot(5) k2 by simp
    have rr: "replace_reserved cur j ?e k2 = Some (upd_cap ?s (\<lambda>_. ?e) k2)"
      using replace_reserved_ok [of k2 S cur j ?e] wf2 wf(2) cur slot(2) md k2 by (simp add: c4_enum)
    let ?k3 = "upd_cap ?s (\<lambda>_. ?e) k2"
    have wf3: "caps_wf ?k3 S"
      using caps_wf_upd [of k2 S ?sp j "\<lambda>_. ?e"] wf2 wf(2) slot(2,3) k2 ty by simp
    have sj: "sint j = int (unat j)" by (rule sint_small [OF slot(2)])
    have "call = Some (int (unat j), ?k3)"
      using slot(1) k2(1) rr sj by (simp add: call upd_cap_def Let_def)
    moreover have "cap_space_lookup ?k3 ?sp j = Some ?s"
      using cap_space_lookup_slot [OF wf3 wf(2) slot(2)] k2 ty by simp
    moreover have "k_caps ?k3 = (k_caps k)(?s := ?e)" using k2 by simp
    moreover have "?s \<noteq> NULL" by (rule cap_slot_nonnull [OF w(3,2) slot(2)])
    moreover have "k_threads ?k3 = k_threads k" "Q obj ?k3" using k2 Q by (simp_all add: upd_cap_def)
    ultimately have "\<exists>j e obj k'. call = Some (int (unat j), k') \<and> unat j < 256 \<and> j \<noteq> 0 \<and>
      cap_space_lookup k' ?sp j = Some e \<and> ce_type (k_caps k e) = CAP_TYPE_NULL \<and>
      k_caps k' = (k_caps k)(e := \<lparr>ce_type = type, ce_permissions = full_rights, ce_object = obj\<rparr>) \<and>
      k_cap_spaces k' = k_cap_spaces k \<and> k_threads k' = k_threads k \<and> caps_wf k' S \<and> e \<noteq> NULL \<and> Q obj k'"
      using slot(2-4) wf3 k2(3) by (intro exI [of _ j] exI [of _ ?s] exI [of _ obj] exI [of _ ?k3]) simp
    moreover have "cap_room k ?sp" using slot(2,4,5) by (auto simp: cap_room_def)
    ultimately show ?thesis by simp
  qed
qed

lemma message_queue_create_fresh:
  assumes "k_msg_queue_init k" "slab_inv message_queue_slab (k_mm k)" "slab_alloc message_queue_slab (k_mm k) \<noteq> None"
  shows "\<exists>obj k2. message_queue_create (k\<lparr>k_caps := C\<rparr>) = Some (obj, k2) \<and> k_caps k2 = C \<and>
    k_cap_spaces k2 = k_cap_spaces k \<and> k_threads k2 = k_threads k \<and> k_kobjs k2 = k_kobjs k \<and>
    obj \<notin> slab_live message_queue_slab (k_mm k) \<and> obj \<in> slab_live message_queue_slab (k_mm k2) \<and>
    k_msg_queues k2 = (k_msg_queues k)(obj := \<lparr>mq_recievers = queue_init, mq_senders = queue_init\<rparr>)"
proof -
  from assms(3) obtain obj m where a: "slab_alloc message_queue_slab (k_mm k) = Some (obj, m)" by auto
  from slab_alloc_ok [OF assms(2) a] have "obj \<noteq> NULL" "obj \<notin> slab_live message_queue_slab (k_mm k)"
    "obj \<in> slab_live message_queue_slab m" by auto
  then show ?thesis
    using a assms(1)
    by (auto simp: message_queue_create_def k_slab_alloc_def set_msgq_def thread_queue_init_def)
qed

text \<open>
  C20: \<^verbatim>\<open>syscall_sync_create\<close>, with memory for an endpoint. If the caller may not modify its capability
  space, or the space is full, it refuses with a negative result and no change. Otherwise it succeeds
  and returns the number of a capability that was unused before. That number then names, in the
  caller's space, a new endpoint with both queues empty, with every right, so that the caller passes
  every check for it; no other capability changes, and no thread. The kernel object of the endpoint,
  with its lock, is not initialised: it is left as the memory held it.
\<close>

theorem syscall_sync_create_usable:
  assumes wf: "caps_wf k S" "t_cap_space (k_threads k cur) \<in> S"
    and cur: "sched_current_thread k = Some cur" "cur \<noteq> NULL"
    and slab: "k_msg_queue_init k" "slab_inv message_queue_slab (k_mm k)" "slab_alloc message_queue_slab (k_mm k) \<noteq> None"
  shows "if \<not> cap_room k (t_cap_space (k_threads k cur)) then \<exists>r < 0. syscall_sync_create a b c d k = Some (r, k)
    else \<exists>j e obj k'. syscall_sync_create a b c d k = Some (int (unat j), k') \<and> 0 < j \<and> unat j < 256 \<and>
      cap_space_lookup k' (t_cap_space (k_threads k cur)) j = Some e \<and> ce_type (k_caps k e) = CAP_TYPE_NULL \<and>
      k_caps k' = (k_caps k)(e := \<lparr>ce_type = CAP_TYPE_IPC_SYNC_ENDPOINT, ce_permissions = full_rights, ce_object = obj\<rparr>) \<and>
      obj \<notin> slab_live message_queue_slab (k_mm k) \<and> obj \<in> slab_live message_queue_slab (k_mm k') \<and>
      k_msg_queues k' = (k_msg_queues k)(obj := \<lparr>mq_recievers = queue_init, mq_senders = queue_init\<rparr>) \<and>
      k_threads k' = k_threads k \<and> caps_wf k' S \<and> has_cap k' cur (j, CAP_TYPE_IPC_SYNC_ENDPOINT, full_rights) \<and>
      k_kobjs k' = k_kobjs k"
proof -
  let ?Q = "\<lambda>obj k'. k_kobjs k' = k_kobjs k \<and>
    obj \<notin> slab_live message_queue_slab (k_mm k) \<and> obj \<in> slab_live message_queue_slab (k_mm k') \<and>
    k_msg_queues k' = (k_msg_queues k)(obj := \<lparr>mq_recievers = queue_init, mq_senders = queue_init\<rparr>)"
  have ty: "CAP_TYPE_IPC_SYNC_ENDPOINT \<noteq> CAP_TYPE_NULL" "CAP_TYPE_IPC_SYNC_ENDPOINT \<noteq> CAP_TYPE_CAP_SPACE"
    by (simp_all add: c4_enum)
  have call: "syscall_sync_create a b c d k = do {
      (check, k1) \<leftarrow> do_newobj_cap_check cur k;
      if check < 0 then Some (check, k1)
      else do {
        let object = word_of_int check;
        (obj, k2) \<leftarrow> message_queue_create k1;
        k3 \<leftarrow> replace_reserved cur object
          \<lparr>ce_type = CAP_TYPE_IPC_SYNC_ENDPOINT, ce_permissions = full_rights, ce_object = obj\<rparr> k2;
        Some (sint object, k3)
      }
    }" using cur(1) by (simp add: syscall_sync_create_def)
  note made = create_object [OF wf cur(2), of message_queue_create ?Q, OF message_queue_create_fresh [OF slab] _ ty call]
  show ?thesis
  proof (cases "cap_room k (t_cap_space (k_threads k cur))")
    case False
    then show ?thesis using made by simp
  next
    case True
    with made obtain j e obj k' where yes: "syscall_sync_create a b c d k = Some (int (unat j), k')" "unat j < 256" "j \<noteq> 0"
      "cap_space_lookup k' (t_cap_space (k_threads k cur)) j = Some e" "ce_type (k_caps k e) = CAP_TYPE_NULL"
      "k_caps k' = (k_caps k)(e := \<lparr>ce_type = CAP_TYPE_IPC_SYNC_ENDPOINT, ce_permissions = full_rights, ce_object = obj\<rparr>)"
      "k_threads k' = k_threads k" "caps_wf k' S" "e \<noteq> NULL" "?Q obj k'" by auto
    have "has_cap k' cur (j, CAP_TYPE_IPC_SYNC_ENDPOINT, full_rights)"
      using yes caps_wfD(1) [OF wf] by (simp add: has_cap_def)
    moreover have "0 < j" using yes(3) by (simp add: word_gt_0)
    ultimately have "\<exists>j e obj k'. syscall_sync_create a b c d k = Some (int (unat j), k') \<and> 0 < j \<and> unat j < 256 \<and>
      cap_space_lookup k' (t_cap_space (k_threads k cur)) j = Some e \<and> ce_type (k_caps k e) = CAP_TYPE_NULL \<and>
      k_caps k' = (k_caps k)(e := \<lparr>ce_type = CAP_TYPE_IPC_SYNC_ENDPOINT, ce_permissions = full_rights, ce_object = obj\<rparr>) \<and>
      obj \<notin> slab_live message_queue_slab (k_mm k) \<and> obj \<in> slab_live message_queue_slab (k_mm k') \<and>
      k_msg_queues k' = (k_msg_queues k)(obj := \<lparr>mq_recievers = queue_init, mq_senders = queue_init\<rparr>) \<and>
      k_threads k' = k_threads k \<and> caps_wf k' S \<and> has_cap k' cur (j, CAP_TYPE_IPC_SYNC_ENDPOINT, full_rights) \<and>
      k_kobjs k' = k_kobjs k"
      using yes by blast
    then show ?thesis using True by simp
  qed
qed

text \<open>
  C18: \<^verbatim>\<open>syscall_cspace_cap_grant\<close> cannot amplify rights: when it gets as far as sending, the message
  carries the type and the object of a capability the caller holds and may share, and of its rights
  only those asked for, all of which the caller has.
\<close>

theorem cap_grant_no_amplification:
  assumes "cspace_ok k cur" and "sched_current_thread k = Some cur"
  shows "(\<exists>r < 0. syscall_cspace_cap_grant yield object queue rights d k = Some (r, k)) \<or>
    (\<exists>e q. cap_space_lookup k (t_cap_space (k_threads k cur)) object = Some e \<and>
      cap_space_lookup k (t_cap_space (k_threads k cur)) queue = Some q \<and>
      ce_type (k_caps k q) = CAP_TYPE_IPC_SYNC_ENDPOINT \<and> ce_permissions (k_caps k q) AND CAP_MODIFY \<noteq> 0 \<and>
      ce_permissions (k_caps k e) AND rights = rights \<and> ce_permissions (k_caps k e) AND CAP_SHARE \<noteq> 0 \<and>
      syscall_cspace_cap_grant yield object queue rights d k = do {
        k1 \<leftarrow> message_send yield (ce_object (k_caps k q)) (Local (zero_message\<lparr>m_type := MESSAGE_TYPE_GRANT_OBJECT,
          m_data0 := ce_type (k_caps k e), m_data1 := rights, m_data2 := ce_object (k_caps k e)\<rparr>)) k;
        Some (0, k1)
      })"
proof (cases "has_cap k cur (queue, CAP_TYPE_IPC_SYNC_ENDPOINT, CAP_MODIFY) \<and> has_cap k cur (object, CAP_TYPE_NULL, rights OR CAP_SHARE)")
  case False
  then show ?thesis using cap_grant_denied [OF assms] by blast
next
  case True
  have cur: "cur \<noteq> NULL" using assms(1) by (simp add: cspace_ok_def)
  from True obtain q e where q: "cap_space_lookup k (t_cap_space (k_threads k cur)) queue = Some q" "q \<noteq> NULL"
      "ce_type (k_caps k q) = CAP_TYPE_IPC_SYNC_ENDPOINT" "ce_permissions (k_caps k q) AND CAP_MODIFY = CAP_MODIFY"
    and e: "cap_space_lookup k (t_cap_space (k_threads k cur)) object = Some e" "e \<noteq> NULL"
      "ce_permissions (k_caps k e) AND (rights OR CAP_SHARE) = rights OR CAP_SHARE"
    and sp: "t_cap_space (k_threads k cur) \<noteq> NULL"
    by (auto simp: has_cap_def CAP_TYPE_IPC_SYNC_ENDPOINT_def CAP_TYPE_NULL_def)
  have "do_cap_check cur queue CAP_TYPE_IPC_SYNC_ENDPOINT CAP_MODIFY k = Some (C4_ERROR_NONE, q)"
    "do_cap_check cur object CAP_TYPE_NULL (rights OR CAP_SHARE) k = Some (C4_ERROR_NONE, e)"
    using q e sp cur by (simp_all add: do_cap_check_def get_thread_def)
  then have "syscall_cspace_cap_grant yield object queue rights d k = do {
      k1 \<leftarrow> message_send yield (ce_object (k_caps k q)) (Local (zero_message\<lparr>m_type := MESSAGE_TYPE_GRANT_OBJECT,
        m_data0 := ce_type (k_caps k e), m_data1 := rights, m_data2 := ce_object (k_caps k e)\<rparr>)) k;
      Some (0, k1)
    }"
    using assms(2) by (simp add: syscall_cspace_cap_grant_def message_send_capability_def C4_ERROR_NONE_def)
  moreover have "ce_permissions (k_caps k e) AND rights = rights" "ce_permissions (k_caps k e) AND CAP_SHARE = CAP_SHARE"
    using e(3) by (auto simp: bit_eq_iff bit_simps)
  ultimately show ?thesis using q e by (auto simp: CAP_MODIFY_def CAP_SHARE_def)
qed

subsection \<open>Witnesses\<close>

lemma boot_cspace:
  "t_cap_space (k_threads boot_kernel 0x5000) = 0x1000" "k_caps boot_kernel = k_caps boot_kcap"
  "cap_tbl boot_kernel 0x1000 = 0xd0010000"
  by (simp_all add: boot_kernel_def boot_kcap_simps)

lemma boot_cspace_ok: "cspace_ok boot_kernel 0x5000"
  using boot_kernel_caps_wf by (auto simp: cspace_ok_def boot_cspace boot_caps c4_enum)

text \<open>Number 1 names a thread, with the rights to access and modify it only.\<close>

lemma boot_cap_1: "cap_space_lookup boot_kernel 0x1000 1 = Some 0xd0010010"
  "k_caps boot_kernel 0xd0010010 = \<lparr>ce_type = CAP_TYPE_THREAD, ce_permissions = 3, ce_object = 0x5000\<rparr>"
proof -
  have s: "cap_slot 0xd0010000 1 = 0xd0010010" by (simp add: cap_slot_def sizeof_cap_entry_t_def)
  show c: "k_caps boot_kernel 0xd0010010 = \<lparr>ce_type = CAP_TYPE_THREAD, ce_permissions = 3, ce_object = 0x5000\<rparr>"
    by (simp add: boot_cspace boot_caps)
  show "cap_space_lookup boot_kernel 0x1000 1 = Some 0xd0010010"
    using cap_space_lookup_slot [OF boot_kernel_caps_wf, of "0x1000" 1] s c by (simp add: boot_cspace c4_enum)
qed

text \<open>C3: number 1 is a thread, so \<^verbatim>\<open>addrspace_unmap\<close> on it is refused.\<close>

theorem syscall_access_control_witness:
  "\<exists>r < 0. syscall_dispatch (\<lambda>_. None) 19 1 0x400000 0 0 boot_kernel = Some (r, boot_kernel)"
proof -
  have "\<not> has_cap boot_kernel 0x5000 (1, CAP_TYPE_ADDR_SPACE, CAP_MODIFY)"
    by (simp add: has_cap_def boot_cspace(1) boot_cap_1 c4_enum)
  moreover have "(1, CAP_TYPE_ADDR_SPACE, CAP_MODIFY) \<in> set (syscall_guards 1 0x400000 0 0 ! unat (19 :: u32))"
    by (simp add: syscall_guards_def)
  moreover have "(19 :: u32) < SYSCALL_MAX" by (simp add: c4_enum)
  ultimately show ?thesis
    using syscall_access_control [OF boot_cspace_ok boot_kernel_current] by blast
qed

text \<open>C20: in the boot state the call succeeds, and the new endpoint is in the table of the caller's space.\<close>

theorem syscall_sync_create_usable_witness:
  "\<exists>j obj k'. syscall_sync_create 0 0 0 0 boot_kernel = Some (int (unat j), k') \<and> 0 < j \<and>
     has_cap k' 0x5000 (j, CAP_TYPE_IPC_SYNC_ENDPOINT, full_rights) \<and>
     k_msg_queues k' obj = \<lparr>mq_recievers = queue_init, mq_senders = queue_init\<rparr> \<and>
     obj \<in> slab_live message_queue_slab (k_mm k') \<and> k_threads k' = k_threads boot_kernel"
proof -
  have s: "k_msg_queue_init boot_kernel" "slab_inv message_queue_slab (k_mm boot_kernel)"
    by (simp_all add: boot_kernel_mm boot_slab) (simp add: boot_kernel_def)
  have al: "slab_alloc message_queue_slab (k_mm boot_kernel) \<noteq> None"
    using slab_alloc_total [OF boot_slab(1) boot_core, of message_queue_slab] by (auto simp: boot_kernel_mm)
  have "ce_type (k_caps boot_kernel (cap_slot (cap_tbl boot_kernel 0x1000) 3)) = CAP_TYPE_NULL" "unat (3 :: u32) < 256"
    by (simp_all add: boot_cspace boot_caps cap_slot_def sizeof_cap_entry_t_def)
  moreover have "ce_permissions (k_caps boot_kernel (cap_tbl boot_kernel 0x1000)) AND CAP_MODIFY \<noteq> 0"
    by (simp add: boot_cspace boot_caps c4_enum)
  ultimately have room: "\<not> \<not> cap_room boot_kernel 0x1000" unfolding cap_room_def by blast
  have "t_cap_space (k_threads boot_kernel 0x5000) \<in> {0x1000, 0x2000}" "(0x5000 :: ptr) \<noteq> NULL"
    by (simp_all add: boot_cspace)
  from syscall_sync_create_usable [OF boot_kernel_caps_wf this(1) boot_kernel_current this(2) s al, of 0 0 0 0,
      unfolded boot_cspace(1) if_not_P [OF room]]
  show ?thesis by fastforce
qed

text \<open>C18: the thread may not be shared, so it is not granted.\<close>

theorem cap_grant_no_amplification_witness:
  "\<exists>r < 0. syscall_cspace_cap_grant (\<lambda>_. None) 1 3 1 0 boot_kernel = Some (r, boot_kernel)"
  using cap_grant_no_amplification [OF boot_cspace_ok boot_kernel_current, of "\<lambda>_. None" 1 3 1 0]
  by (auto simp: boot_cspace(1) boot_cap_1 CAP_SHARE_def)

end
