(* ===== verification/C4_Confinement.thy ===== *)
theory C4_Confinement
  imports C4_Frames C4_Syscall
begin

text \<open>
  Confinement of capabilities. A set of capability spaces that names no space outside itself bounds
  what the threads that live in it can do: whatever sequence of system calls they make, short of
  creating objects and receiving messages, every capability in these spaces stays one that was there
  at the start, with the same or fewer rights. The proof goes along the sequence, with
  \<open>C4_Frames\<close> for the calls that only lock, queue and switch.
\<close>

section \<open>Authority\<close>

text \<open>The entries of the tables of a set of spaces.\<close>

definition slots :: "kernel \<Rightarrow> ptr set \<Rightarrow> ptr set" where
  "slots k S = {cap_slot (cap_tbl k sp) i | sp i. sp \<in> S \<and> unat i < 256}"

text \<open>Every space these entries name is one of the set.\<close>

definition cap_closed :: "kernel \<Rightarrow> ptr set \<Rightarrow> bool" where
  "cap_closed k S \<longleftrightarrow> (\<forall>e \<in> slots k S. ce_type (k_caps k e) = CAP_TYPE_CAP_SPACE \<longrightarrow> ce_object (k_caps k e) \<in> S)"

text \<open>An empty entry, or the same object with no right that \<open>f\<close> does not have.\<close>

definition weaker :: "cap_entry_t \<Rightarrow> cap_entry_t \<Rightarrow> bool" where
  "weaker e f \<longleftrightarrow> ce_type e = CAP_TYPE_NULL \<or>
     ce_type e = ce_type f \<and> ce_object e = ce_object f \<and> ce_permissions e AND ce_permissions f = ce_permissions e"

definition authority_within :: "ptr set \<Rightarrow> kernel \<Rightarrow> kernel \<Rightarrow> bool" where
  "authority_within S k k' \<longleftrightarrow> (\<forall>e \<in> slots k' S. \<exists>f \<in> slots k S. weaker (k_caps k' e) (k_caps k f))"

lemma weaker_refl [simp]: "weaker e e"
  by (simp add: weaker_def)

lemma weaker_trans: "weaker e f \<Longrightarrow> weaker f g \<Longrightarrow> weaker e g"
  unfolding weaker_def by (metis and.assoc)

lemma authority_refl [simp]: "authority_within S k k"
  unfolding authority_within_def using weaker_refl by blast

lemma authority_same:
  assumes "k_caps k' = k_caps k" "k_cap_spaces k' = k_cap_spaces k" shows "authority_within S k k'"
proof -
  have "authority_within S k k' = authority_within S k k"
    using assms by (simp only: authority_within_def slots_def)
  then show ?thesis by simp
qed

lemma authority_trans: "authority_within S k k' \<Longrightarrow> authority_within S k' k'' \<Longrightarrow> authority_within S k k''"
  unfolding authority_within_def by (meson weaker_trans)

lemma slots_cong: "(\<And>sp. sp \<in> S \<Longrightarrow> cap_tbl k' sp = cap_tbl k sp) \<Longrightarrow> slots k' S = slots k S"
  by (auto simp: slots_def) metis+

text \<open>From a space of a closed set, a lookup ends in one of its entries.\<close>

lemma cap_table_lookup_inside:
  assumes "cap_closed k S"
  shows "sp \<in> S \<Longrightarrow> cap_table_lookup k (cap_tbl k sp) object = Some e \<Longrightarrow> e = NULL \<or> e \<in> slots k S"
proof (induction "unat object" arbitrary: sp object rule: less_induct)
  case less
  let ?o = "object mod 256" and ?e = "cap_slot (cap_tbl k sp) (object mod 256)"
  have o: "unat ?o < 256" by (simp add: unat_mod)
  have in_slots: "?e \<in> slots k S" using less.prems(1) o by (auto simp: slots_def)
  show ?case
  proof (cases "object div 256 = 0 \<and> ?o = 0")
    case True
    then show ?thesis
      using less.prems(2) in_slots by (subst (asm) cap_table_lookup.simps) (simp add: Let_def split: if_splits)
  next
    case False
    then have "object \<noteq> 0" by auto
    then have "unat object \<noteq> 0" by (simp add: unat_eq_zero)
    then have dec: "unat (object div 256) < unat object" by (simp add: unat_div)
    have sub: "ce_object (k_caps k ?e) \<in> S" if "ce_type (k_caps k ?e) = CAP_TYPE_CAP_SPACE"
      using assms in_slots that by (auto simp: cap_closed_def)
    show ?thesis
      using less.prems(2) in_slots False less.hyps [OF dec sub]
      by (subst (asm) cap_table_lookup.simps) (auto simp: Let_def split: if_splits)
  qed
qed

lemma cap_space_lookup_inside:
  assumes "cap_closed k S" and "sp \<in> S" and "cap_space_lookup k sp object = Some e" and "e \<noteq> NULL"
  shows "e \<in> slots k S"
  using cap_table_lookup_inside [OF assms(1,2)] assms(3,4) by (auto simp: cap_space_lookup_def split: if_splits)

section \<open>Writes inside a closed set\<close>

definition writes_inside :: "ptr set \<Rightarrow> kernel \<Rightarrow> kernel \<Rightarrow> bool" where
  "writes_inside S k k' \<longleftrightarrow> k_cap_spaces k' = k_cap_spaces k \<and>
     (\<forall>e. e \<notin> slots k S \<longrightarrow> k_caps k' e = k_caps k e) \<and> authority_within S k k' \<and>
     (\<forall>t. t_cap_space (k_threads k' t) = t_cap_space (k_threads k t) \<or> t_cap_space (k_threads k' t) \<in> S)"

lemma writes_inside_slots: "writes_inside S k k' \<Longrightarrow> slots k' S = slots k S"
  by (rule slots_cong) (simp add: writes_inside_def)

interpretation inside: step_order "writes_inside S" for S
proof
  fix k k' k''
  show "writes_inside S k k" by (simp add: writes_inside_def)
  assume a: "writes_inside S k k'" and b: "writes_inside S k' k''"
  show "writes_inside S k k''"
    using a b writes_inside_slots [OF a] authority_trans unfolding writes_inside_def by metis
qed

lemma writes_inside_same: "caps_same k k' \<Longrightarrow> writes_inside S k k'"
  by (simp add: caps_same_def writes_inside_def authority_same)

lemma authority_closed:
  assumes "cap_closed k S" and "authority_within S k k'"
  shows "cap_closed k' S"
  unfolding cap_closed_def
proof (intro ballI impI)
  fix e assume "e \<in> slots k' S" and t: "ce_type (k_caps k' e) = CAP_TYPE_CAP_SPACE"
  then obtain f where f: "f \<in> slots k S" "weaker (k_caps k' e) (k_caps k f)"
    using assms(2) by (auto simp: authority_within_def)
  then have "ce_type (k_caps k f) = CAP_TYPE_CAP_SPACE" "ce_object (k_caps k' e) = ce_object (k_caps k f)"
    using t by (auto simp: weaker_def c4_enum)
  then show "ce_object (k_caps k' e) \<in> S" using f(1) assms(1) by (auto simp: cap_closed_def)
qed

lemma upd_cap_inside:
  assumes "e \<in> slots k S" and "f \<in> slots k S" and "weaker (h (k_caps k e)) (k_caps k f)"
  shows "writes_inside S k (upd_cap e h k)"
proof -
  have s: "slots (upd_cap e h k) S = slots k S" by (rule slots_cong) (simp add: upd_cap_def)
  have "\<exists>f \<in> slots k S. weaker (k_caps (upd_cap e h k) d) (k_caps k f)" if "d \<in> slots k S" for d
  proof (cases "d = e")
    case False
    then show ?thesis using that by (intro bexI [of _ d]) (simp_all add: upd_cap_def)
  qed (use assms(2,3) in \<open>auto simp: upd_cap_def\<close>)
  then have "authority_within S k (upd_cap e h k)" by (simp add: authority_within_def s)
  then show ?thesis using assms(1) by (auto simp: writes_inside_def upd_cap_def)
qed

lemma cap_space_replace_inside:
  assumes "cap_closed k S" "sp \<in> S" "f \<in> slots k S"
  shows "ends (writes_inside S) snd k (cap_space_replace sp object (k_caps k f) k)"
proof (rule endsI)
  fix x assume "cap_space_replace sp object (k_caps k f) k = Some x"
  then consider "snd x = k"
    | e where "cap_space_lookup k sp object = Some e" "e \<noteq> NULL" "snd x = upd_cap e (\<lambda>_. k_caps k f) k"
    by (auto simp: cap_space_replace_def elim!: bind_eq_SomeE split: if_splits)
  then show "writes_inside S k (snd x)"
    by cases (use inside.refl upd_cap_inside cap_space_lookup_inside assms in auto)
qed

lemma cap_space_remove_inside:
  assumes "cap_closed k S" "sp \<in> S"
  shows "ends (writes_inside S) snd k (cap_space_remove sp object k)"
proof (rule endsI)
  fix x assume "cap_space_remove sp object k = Some x"
  then consider "snd x = k"
    | e where "cap_space_lookup k sp object = Some e" "e \<noteq> NULL"
      "snd x = upd_cap e (ce_type_update (\<lambda>_. CAP_TYPE_NULL)) k"
    by (auto simp: cap_space_remove_def elim!: bind_eq_SomeE split: if_splits)
  then show "writes_inside S k (snd x)"
  proof cases
    case 2
    then have "e \<in> slots k S" using cap_space_lookup_inside assms by blast
    then show ?thesis using upd_cap_inside 2(3) by (auto simp: weaker_def)
  qed (simp add: inside.refl)
qed

lemma cap_space_restrict_inside:
  assumes "cap_closed k S" "sp \<in> S"
  shows "ends (writes_inside S) snd k (cap_space_restrict sp object rights k)"
proof (rule endsI)
  fix x assume "cap_space_restrict sp object rights k = Some x"
  then consider "snd x = k"
    | e where "cap_space_lookup k sp object = Some e" "e \<noteq> NULL" "ce_permissions (k_caps k e) AND rights = rights"
      "snd x = upd_cap e (ce_permissions_update (\<lambda>_. rights)) k"
    by (auto simp: cap_space_restrict_def elim!: bind_eq_SomeE split: if_splits)
  then show "writes_inside S k (snd x)"
  proof cases
    case 2
    then have "e \<in> slots k S" using cap_space_lookup_inside assms by blast
    then show ?thesis using upd_cap_inside [of e k S e] 2(3,4) by (simp add: weaker_def and.commute)
  qed (simp add: inside.refl)
qed

section \<open>The calls\<close>

text \<open>The threads of \<open>A\<close> live in the closed set \<open>S\<close>.\<close>

definition lives_in :: "ptr set \<Rightarrow> ptr set \<Rightarrow> kernel \<Rightarrow> bool" where
  "lives_in A S k \<longleftrightarrow> cap_closed k S \<and> (\<forall>t \<in> A. t_cap_space (k_threads k t) \<in> insert NULL S)"

lemma lives_inD:
  assumes "lives_in A S k" shows "cap_closed k S" "t \<in> A \<Longrightarrow> t_cap_space (k_threads k t) \<in> insert NULL S"
  using assms by (simp_all add: lives_in_def)

lemma writes_inside_lives: "lives_in A S k \<Longrightarrow> writes_inside S k k' \<Longrightarrow> lives_in A S k'"
  unfolding lives_in_def writes_inside_def by (metis authority_closed insertCI)

lemma do_cap_check_inside:
  assumes l: "lives_in A S k" and "cur \<in> A" and "do_cap_check cur x type perms k = Some (C4_ERROR_NONE, e)"
  shows "e \<in> slots k S \<and> (type \<noteq> CAP_TYPE_NULL \<longrightarrow> ce_type (k_caps k e) = type)"
proof -
  from assms(3) have e: "t_cap_space (k_threads k cur) \<noteq> NULL" "cap_space_lookup k (t_cap_space (k_threads k cur)) x = Some e"
      "e \<noteq> NULL" "ce_type (k_caps k e) = type \<or> type = CAP_TYPE_NULL"
    by (auto simp: do_cap_check_def get_thread_def c4_enum elim!: bind_eq_SomeE split: if_splits)
  have "t_cap_space (k_threads k cur) \<in> S" using lives_inD(2) [OF l assms(2)] e(1) by simp
  with cap_space_lookup_inside [OF lives_inD(1) [OF l]] e show ?thesis by blast
qed

lemma CAP_CHECK_inside:
  assumes "lives_in A S k" and "sched_current_thread k = Some cur" "cur \<in> A"
    and "\<And>e. e \<in> slots k S \<Longrightarrow> type \<noteq> CAP_TYPE_NULL \<longrightarrow> ce_type (k_caps k e) = type \<Longrightarrow>
      ends (writes_inside S) snd k (rest e (ce_object (k_caps k e)) k)"
  shows "ends (writes_inside S) snd k (CAP_CHECK x type perms rest k)"
proof (rule endsI)
  fix y assume "CAP_CHECK x type perms rest k = Some y"
  then consider "snd y = k" | e where "do_cap_check cur x type perms k = Some (C4_ERROR_NONE, e)"
      "rest e (ce_object (k_caps k e)) k = Some y"
    using assms(2) by (auto simp: CAP_CHECK_def elim!: bind_eq_SomeE split: if_splits)
  then show "writes_inside S k (snd y)"
  proof cases
    case 2
    then show ?thesis using endsD [OF assms(4)] do_cap_check_inside [OF assms(1,3)] by blast
  qed (simp add: inside.refl)
qed

lemma CAP_CHECK_space:
  assumes l: "lives_in A S k" and c: "sched_current_thread k = Some cur" "cur \<in> A"
    and "\<And>e sp. sp \<in> S \<Longrightarrow> ends (writes_inside S) snd k (rest e sp k)"
  shows "ends (writes_inside S) snd k (CAP_CHECK x CAP_TYPE_CAP_SPACE perms rest k)"
proof (rule CAP_CHECK_inside [OF l c])
  fix e assume "e \<in> slots k S" and "CAP_TYPE_CAP_SPACE \<noteq> CAP_TYPE_NULL \<longrightarrow> ce_type (k_caps k e) = CAP_TYPE_CAP_SPACE"
  then have "ce_object (k_caps k e) \<in> S" using lives_inD(1) [OF l] by (simp add: cap_closed_def c4_enum)
  then show "ends (writes_inside S) snd k (rest e (ce_object (k_caps k e)) k)" by (rule assms(4))
qed

lemma cspace_calls_inside:
  assumes l: "lives_in A S k" and c: "sched_current_thread k = Some cur" "cur \<in> A"
  shows "ends (writes_inside S) snd k (syscall_cspace_cap_move p q r s k)"
    "ends (writes_inside S) snd k (syscall_cspace_cap_copy p q r s k)"
    "ends (writes_inside S) snd k (syscall_cspace_cap_remove p q r s k)"
    "ends (writes_inside S) snd k (syscall_cspace_cap_restrict p q r s k)"
    "ends (writes_inside S) snd k (syscall_thread_set_capspace p q r s k)"
proof -
  note cl = lives_inD(1) [OF l] and cl' = writes_inside_lives [OF l, THEN lives_inD(1)]
  note go = CAP_CHECK_space [OF l c] CAP_CHECK_inside [OF l c] inside.return cap_space_replace_inside [OF cl]
    cap_space_remove_inside [OF cl] cap_space_restrict_inside [OF cl] ends_if
  show "ends (writes_inside S) snd k (syscall_cspace_cap_move p q r s k)"
    unfolding syscall_cspace_cap_move_def
    by (rule go cap_space_remove_inside [OF cl'] inside.bind_pair_from | assumption)+
  show "ends (writes_inside S) snd k (syscall_cspace_cap_copy p q r s k)"
    unfolding syscall_cspace_cap_copy_def by (rule go inside.bind_pair | assumption)+
  show "ends (writes_inside S) snd k (syscall_cspace_cap_remove p q r s k)"
    unfolding syscall_cspace_cap_remove_def by (rule go inside.bind_pair | assumption)+
  show "ends (writes_inside S) snd k (syscall_cspace_cap_restrict p q r s k)"
    unfolding syscall_cspace_cap_restrict_def by (rule go inside.bind_pair | assumption)+
  have t: "ends (writes_inside S) (\<lambda>k. k) k (thread_set_capspace t sp k)" if "sp \<in> S" for t sp
    using that by (auto simp: ends_def thread_set_capspace_def upd_thread_def writes_inside_def authority_same)
  show "ends (writes_inside S) snd k (syscall_thread_set_capspace p q r s k)"
    unfolding syscall_thread_set_capspace_def by (rule go inside.bind_state t | assumption)+
qed

section \<open>Quiet calls\<close>

text \<open>The other calls change capabilities only while other threads run.\<close>

lemma CAP_CHECK_run:
  assumes "\<And>e obj. ends (cap_run ds) snd k (rest e obj k)"
  shows "ends (cap_run ds) snd k (CAP_CHECK x type perms rest k)"
  unfolding CAP_CHECK_def
  by (rule assms kernel_run.steps | rule kernel_run.bind_read)+

lemma quiet_calls_run:
  fixes ds n
  defines "y \<equiv> sched_thread_yield n ds"
  shows "ends (cap_run ds) snd k (syscall_thread_exit y p q r s k)"
    and "ends (cap_run ds) snd k (syscall_thread_sleep y p q r s k)"
    and "ends (cap_run ds) snd k (syscall_thread_set_addrspace p q r s k)"
    and "ends (cap_run ds) snd k (syscall_thread_set_pager p q r s k)"
    and "ends (cap_run ds) snd k (syscall_thread_continue p q r s k)"
    and "ends (cap_run ds) snd k (syscall_thread_stop p q r s k)"
    and "ends (cap_run ds) snd k (syscall_sync_send y p q r s k)"
    and "ends (cap_run ds) snd k (syscall_async_send y p q r s k)"
    and "ends (cap_run ds) snd k (syscall_async_recieve y p q r s k)"
    and "ends (cap_run ds) snd k (syscall_addrspace_map y p q r s k)"
    and "ends (cap_run ds) snd k (syscall_addrspace_unmap y p q r s k)"
    and "ends (cap_run ds) snd k (syscall_cspace_cap_grant y p q r s k)"
proof -
  note go = kernel_run.steps CAP_CHECK_run kernel_run.message_send_ends kernel_run.message_send_async_ends
    kernel_run.message_recieve_async_ends kernel_run.addr_space_insert_map_ends kernel_run.addr_space_unmap_ends
    kernel_run.addr_space_set_ends kernel_run.sched_thread_sleep_ends kernel_run.sched_thread_continue_ends
    kernel_run.sched_thread_stop_ends
  show "ends (cap_run ds) snd k (syscall_thread_exit y p q r s k)"
    by (auto simp: ends_def syscall_thread_exit_def sched_thread_exit_def elim!: bind_eq_SomeE)
  show "ends (cap_run ds) snd k (syscall_thread_sleep y p q r s k)"
    and "ends (cap_run ds) snd k (syscall_thread_set_addrspace p q r s k)"
    and "ends (cap_run ds) snd k (syscall_thread_set_pager p q r s k)"
    and "ends (cap_run ds) snd k (syscall_thread_continue p q r s k)"
    and "ends (cap_run ds) snd k (syscall_thread_stop p q r s k)"
    and "ends (cap_run ds) snd k (syscall_sync_send y p q r s k)"
    and "ends (cap_run ds) snd k (syscall_async_send y p q r s k)"
    and "ends (cap_run ds) snd k (syscall_async_recieve y p q r s k)"
    and "ends (cap_run ds) snd k (syscall_addrspace_map y p q r s k)"
    and "ends (cap_run ds) snd k (syscall_addrspace_unmap y p q r s k)"
    and "ends (cap_run ds) snd k (syscall_cspace_cap_grant y p q r s k)"
    unfolding syscall_thread_sleep_def syscall_thread_set_addrspace_def thread_set_addrspace_def
      syscall_thread_set_pager_def syscall_thread_continue_def syscall_thread_stop_def syscall_sync_send_def
      syscall_async_send_def syscall_async_recieve_def syscall_addrspace_map_def syscall_addrspace_unmap_def
      syscall_cspace_cap_grant_def message_send_capability_def y_def
    by (rule go | (rule kernel_run.basic, rule upd_thread_caps, simp) | rule kernel_run.bind_read)+
qed

lemma plain_calls_run:
  "ends (cap_run ds) snd k (syscall_interrupt_subscribe p q r s k)"
  "ends (cap_run ds) snd k (syscall_ioport p q r s k)"
  "ends (cap_run ds) snd k (syscall_info p q r s k)"
  "ends (cap_run ds) snd k (syscall_debug_putchar p q r s k)"
  "ends (cap_run ds) snd k (syscall_not_implemented p q r s k)"
proof -
  show "ends (cap_run ds) snd k (syscall_interrupt_subscribe p q r s k)"
    unfolding syscall_interrupt_subscribe_def
    by (intro CAP_CHECK_run kernel_run.basic) (simp add: ends_def interrupt_listen_def caps_same_def)
qed (rule kernel_run.basic; auto simp: ends_def syscall_ioport_def syscall_info_def syscall_debug_putchar_def
    syscall_not_implemented_def port_write_def caps_same_def elim!: bind_eq_SomeE split: if_splits)+

section \<open>Confinement\<close>

text \<open>
  The calls that bring capabilities in: those that create an object, and the reception of a message,
  which may carry one.
\<close>

definition cap_sources :: "u32 set" where
  "cap_sources = {SYSCALL_THREAD_CREATE, SYSCALL_SYNC_CREATE, SYSCALL_SYNC_RECIEVE, SYSCALL_ASYNC_CREATE,
     SYSCALL_ADDRSPACE_CREATE, SYSCALL_PHYS_FRAME_CREATE, SYSCALL_PHYS_FRAME_SPLIT, SYSCALL_CSPACE_CREATE}"

text \<open>Every other entry of the dispatch table writes inside the closed set or is quiet.\<close>

definition tame :: "do_switch \<Rightarrow> ptr set \<Rightarrow> kernel \<Rightarrow> syscall_ret \<Rightarrow> bool" where
  "tame ds S k res \<longleftrightarrow> ends (writes_inside S) snd k res \<or> ends (cap_run ds) snd k res"

lemma syscall_table_tame:
  assumes l: "lives_in A S k" and c: "sched_current_thread k = Some cur" "cur \<in> A"
  shows "list_all2 (\<lambda>f num. num \<notin> cap_sources \<longrightarrow> tame ds S k (f p q r s k))
    (syscall_table (sched_thread_yield n ds)) (map of_nat [0..<35])"
proof -
  have inside: "ends (writes_inside S) snd k res \<Longrightarrow> tame ds S k res" for res by (simp add: tame_def)
  have quiet: "ends (cap_run ds) snd k res \<Longrightarrow> tame ds S k res" for res by (simp add: tame_def)
  show ?thesis
    unfolding syscall_table_def cap_sources_def
    by (simp add: upt_rec c4_enum inside cspace_calls_inside [OF l c] quiet quiet_calls_run plain_calls_run syscall_thread_set_stack_def
        syscall_thread_set_ip_def syscall_thread_set_priority_def syscall_phys_frame_join_def
        syscall_cspace_cap_share_def syscall_interrupt_unsubscribe_def)
qed

lemma syscall_tame:
  assumes l: "lives_in A S k" and c: "sched_current_thread k = Some cur" "cur \<in> A" and n: "num \<notin> cap_sources"
  shows "tame ds S k (syscall_dispatch (sched_thread_yield m ds) num p q r s k)"
proof (cases "num \<ge> SYSCALL_MAX")
  case True
  then show ?thesis by (simp add: syscall_dispatch_def tame_def inside.return)
next
  case False
  then have u: "unat num < 35" by (simp add: c4_enum word_le_nat_alt)
  from list_all2_nthD [OF syscall_table_tame [OF l c], of "unat num" m ds p q r s] u n
  have "tame ds S k ((syscall_table (sched_thread_yield m ds) ! unat num) p q r s k)"
    by (simp add: syscall_table_def)
  then show ?thesis using False by (simp add: syscall_dispatch_def)
qed

text \<open>
  The guarantee, which the switches to other threads also have to give: the threads of \<open>A\<close> go on
  living in \<open>S\<close>, and the authority of \<open>S\<close> does not grow.
\<close>

definition confined :: "ptr set \<Rightarrow> ptr set \<Rightarrow> kernel \<Rightarrow> kernel \<Rightarrow> bool" where
  "confined A S k k' \<longleftrightarrow> (lives_in A S k \<longrightarrow> lives_in A S k' \<and> authority_within S k k')"

interpretation confining: step_order "confined A S" for A S
  by unfold_locales (auto simp: confined_def intro: authority_trans)

lemma writes_inside_confined: "writes_inside S k k' \<Longrightarrow> confined A S k k'"
  using writes_inside_lives by (auto simp: confined_def writes_inside_def)

lemma cap_run_confined:
  assumes "cap_run ds k k'" and "\<And>cur t k k'. ds cur t k = Some k' \<Longrightarrow> confined A S k k'"
  shows "confined A S k k'"
  using assms(1)
proof induction
  case (keep k k' k'')
  then show ?case using confining.trans writes_inside_confined writes_inside_same by blast
qed (use assms(2) confining.trans confining.refl in blast)+

text \<open>
  A session: calls of threads of \<open>A\<close>, other than those that bring capabilities in, and switches
  between threads, in any order.
\<close>

inductive session :: "do_switch \<Rightarrow> ptr set \<Rightarrow> kernel \<Rightarrow> kernel \<Rightarrow> bool" for ds A where
  begins: "session ds A k k"
| call: "session ds A k k' \<Longrightarrow> sched_current_thread k' = Some cur \<Longrightarrow> cur \<in> A \<Longrightarrow> num \<notin> cap_sources \<Longrightarrow>
    syscall_dispatch (sched_thread_yield n ds) num a b c d k' = Some (res, k'') \<Longrightarrow> session ds A k k''"
| preempted: "session ds A k k' \<Longrightarrow> sched_thread_yield n ds k' = Some k'' \<Longrightarrow> session ds A k k''"

lemma session_confined:
  assumes "session ds A k k'" and rely: "\<And>cur t k k'. ds cur t k = Some k' \<Longrightarrow> confined A S k k'" and "lives_in A S k"
  shows "lives_in A S k' \<and> authority_within S k k'"
proof -
  have run: "cap_run ds k k' \<Longrightarrow> confined A S k k'" for k k' by (erule cap_run_confined) (rule rely)
  show ?thesis
    using assms(1,3)
proof induction
  case (call k k' cur num n a b c d res k'')
  then have l: "lives_in A S k'" and a: "authority_within S k k'" by auto
  from syscall_tame [OF l call.hyps(2-4)] call.hyps(5) have "writes_inside S k' k'' \<or> cap_run ds k' k''"
    by (fastforce simp: tame_def ends_def)
  then have "confined A S k' k''" using writes_inside_confined run by blast
  then show ?case using l a by (auto simp: confined_def intro: authority_trans)
next
  case (preempted k k' n k'')
  have "confined A S k' k''" by (rule run [OF kernel_run.yields_respected [OF preempted.hyps(2)]])
  then show ?case using preempted by (auto simp: confined_def intro: authority_trans)
qed simp
qed

text \<open>
  C1: confinement. Take a set \<open>S\<close> of capability spaces that names no space outside itself, and
  threads \<open>A\<close> that live in it. After any sequence of system calls of these threads (other than those
  that create an object or receive a message), with preemptions in between, \<open>S\<close> still names no space
  outside itself, the threads still live in it, and every capability in \<open>S\<close> is for an object for which
  \<open>S\<close> held a capability of the same type at the start, with no right that one did not have. The
  condition on the context switch is that the threads that run in the meantime keep to the same.
\<close>

theorem cap_confinement:
  assumes "session do_switch A k k'" and "lives_in A S k"
    and "\<forall>cur thread k k'. do_switch cur thread k = Some k' \<longrightarrow> confined A S k k'"
  shows "cap_closed k' S \<and> (\<forall>t \<in> A. t_cap_space (k_threads k' t) \<in> insert NULL S) \<and>
    (\<forall>e \<in> slots k' S. ce_type (k_caps k' e) \<noteq> CAP_TYPE_NULL \<longrightarrow>
      (\<exists>f \<in> slots k S. ce_type (k_caps k f) = ce_type (k_caps k' e) \<and>
        ce_object (k_caps k f) = ce_object (k_caps k' e) \<and>
        ce_permissions (k_caps k' e) AND NOT (ce_permissions (k_caps k f)) = 0))"
proof -
  have "lives_in A S k' \<and> authority_within S k k'"
    using session_confined [OF assms(1) _ assms(2)] assms(3) by blast
  moreover have "x AND NOT y = 0" if "x AND y = x" for x y :: u32
    using that by (metis and.assoc and.commute and_zero_eq bit.conj_cancel_right)
  ultimately show ?thesis by (fastforce simp: lives_in_def authority_within_def weaker_def)
qed

text \<open>
  C19: integrity. A system call of such a thread, other than those that create an object or receive a
  message, either writes capability entries of \<open>S\<close> only and creates no authority there, or changes
  capabilities only while other threads run.
\<close>

theorem syscall_cap_integrity:
  assumes "lives_in A S k" and "sched_current_thread k = Some cur" "cur \<in> A" and "num \<notin> cap_sources"
    and "syscall_dispatch (sched_thread_yield n do_switch) num a b c d k = Some (res, k')"
  shows "cap_run do_switch k k' \<or>
    k_cap_spaces k' = k_cap_spaces k \<and> (\<forall>e. e \<notin> slots k S \<longrightarrow> k_caps k' e = k_caps k e) \<and> authority_within S k k'"
  using syscall_tame [OF assms(1-4), of do_switch n a b c d] assms(5)
  by (auto simp: tame_def ends_def writes_inside_def)

subsection \<open>An instance\<close>

text \<open>
  The first boot thread restricts the thread capability in entry 1 of its space to read access; a
  switch to another thread comes straight back.
\<close>

lemma boot_lives_in: "lives_in {0x5000} {0x1000, 0x2000} boot_kernel"
  by (auto simp: lives_in_def cap_closed_def boot_cspace boot_caps c4_enum split: if_splits)

lemma boot_restrict:
  obtains k' where "syscall_dispatch yield SYSCALL_CSPACE_CAP_RESTRICT 0 1 CAP_ACCESS 0 boot_kernel = Some (0, k')"
    and "ce_permissions (k_caps k' 0xd0010010) = CAP_ACCESS"
proof -
  have l0: "cap_space_lookup boot_kernel 0x1000 0 = Some 0xd0010000"
    by (simp add: cap_space_lookup_def cap_table_lookup.simps [of _ _ 0] boot_cspace)
  have own: "cap_owner_entry boot_kernel 0xd0010010 = Some (k_caps boot_kcap 0xd0010000)"
    by (simp add: cap_owner_entry_def cap_entry_root_space_def cap_space_root_entry_def read_cap_def PAGE_SIZE_def
        boot_cspace boot_caps)
  have "cap_space_restrict 0x1000 1 CAP_ACCESS boot_kernel =
      Some (True, upd_cap 0xd0010010 (ce_permissions_update (\<lambda>_. CAP_ACCESS)) boot_kernel)"
    using own boot_cap_1 by (simp add: cap_space_restrict_def boot_caps c4_enum)
  then have "syscall_dispatch yield SYSCALL_CSPACE_CAP_RESTRICT 0 1 CAP_ACCESS 0 boot_kernel =
      Some (0, upd_cap 0xd0010010 (ce_permissions_update (\<lambda>_. CAP_ACCESS)) boot_kernel)"
    using l0 by (simp add: syscall_dispatch_def syscall_table_def c4_enum syscall_cspace_cap_restrict_def CAP_CHECK_def
        boot_kernel_current do_cap_check_def get_thread_def boot_cspace boot_caps)
  then show thesis using that by (simp add: upd_cap_def)
qed

text \<open>C1: the boot thread's restriction is a session of its own.\<close>

theorem cap_confinement_witness:
  "\<exists>k'. session (\<lambda>_ _ k. Some k) {0x5000} boot_kernel k' \<and> ce_permissions (k_caps k' 0xd0010010) = CAP_ACCESS \<and>
    cap_closed k' {0x1000, 0x2000}"
proof -
  obtain k' where k': "syscall_dispatch (sched_thread_yield 1 (\<lambda>_ _ k. Some k)) SYSCALL_CSPACE_CAP_RESTRICT 0 1 CAP_ACCESS 0
      boot_kernel = Some (0, k')" "ce_permissions (k_caps k' 0xd0010010) = CAP_ACCESS"
    by (rule boot_restrict)
  have "SYSCALL_CSPACE_CAP_RESTRICT \<notin> cap_sources" by (simp add: cap_sources_def c4_enum)
  with k'(1) have s: "session (\<lambda>_ _ k. Some k) {0x5000} boot_kernel k'"
    by (intro session.call [OF session.begins boot_kernel_current]) auto
  have "\<forall>cur thread k k'. (\<lambda>_ _ k. Some k) cur thread k = Some k' \<longrightarrow> confined {0x5000} {0x1000, 0x2000} k k'"
    using confining.refl by auto
  from cap_confinement [OF s boot_lives_in this] s k'(2) show ?thesis by blast
qed

text \<open>C19: the same call leaves the entries of other spaces alone.\<close>

theorem syscall_cap_integrity_witness:
  "\<exists>k'. syscall_dispatch (sched_thread_yield 1 (\<lambda>_ _ k. None)) SYSCALL_CSPACE_CAP_RESTRICT 0 1 CAP_ACCESS 0 boot_kernel = Some (0, k') \<and>
    (cap_run (\<lambda>_ _ k. None) boot_kernel k' \<or> authority_within {0x1000, 0x2000} boot_kernel k')"
proof -
  obtain k' where k': "syscall_dispatch (sched_thread_yield 1 (\<lambda>_ _ k. None)) SYSCALL_CSPACE_CAP_RESTRICT 0 1 CAP_ACCESS 0
      boot_kernel = Some (0, k')" by (rule boot_restrict)
  have "SYSCALL_CSPACE_CAP_RESTRICT \<notin> cap_sources" by (simp add: cap_sources_def c4_enum)
  from syscall_cap_integrity [OF boot_lives_in boot_kernel_current _ this k'] k' show ?thesis by auto
qed

end
