(* ===== verification/C4_Bitfield.thy ===== *)
theory C4_Bitfield
  imports C4_Prelude
begin

text \<open>
  C bit-fields. The packed structures of the x86 tables (segment descriptors, interrupt gates,
  I/O APIC redirections) are 64-bit words; a bit-field of \<open>w\<close> bits at offset \<open>i\<close> is read with
  \<open>bf_get i w\<close> and assigned with \<open>bf_set i w\<close>, which keeps the low \<open>w\<close> bits of the value. Fields are laid
  out from the least significant bit up, in the order of their declaration.
\<close>

unbundle bit_operations_syntax

definition bf_get :: "nat \<Rightarrow> nat \<Rightarrow> u64 \<Rightarrow> u64" where
  "bf_get i w x = take_bit w (drop_bit i x)"

definition bf_set :: "nat \<Rightarrow> nat \<Rightarrow> u64 \<Rightarrow> u64 \<Rightarrow> u64" where
  "bf_set i w v x = (x AND NOT (push_bit i (mask w))) OR push_bit i (take_bit w v)"

named_theorems bitfield

lemma bit_bf_set:
  "bit (bf_set i w v x) n \<longleftrightarrow> n < 64 \<and> (if i \<le> n \<and> n < i + w then bit v (n - i) else bit x n)"
  by (auto simp: bf_set_def bit_simps dest: bit_imp_le_length)

lemma bit_bf_get: "bit (bf_get i w x) n \<longleftrightarrow> n < w \<and> bit x (i + n)"
  by (simp add: bf_get_def bit_simps)

lemma bf_get_set_same [bitfield]: "i + w \<le> 64 \<Longrightarrow> bf_get i w (bf_set i w v x) = take_bit w v"
  by (rule bit_eqI) (auto simp: bit_bf_set bit_bf_get bit_simps)

lemma bf_get_set_other [bitfield]: "i + w \<le> j \<or> j + u \<le> i \<Longrightarrow> bf_get i w (bf_set j u v x) = bf_get i w x"
  by (rule bit_eqI) (auto simp: bit_bf_set bit_bf_get bit_simps dest: bit_imp_le_length)

lemma bf_get_zero [bitfield]: "bf_get i w 0 = 0"
  by (simp add: bf_get_def)

text \<open>Two adjacent parts of a value make it up.\<close>

lemma take_bit_join: "take_bit a v OR push_bit a (take_bit b (drop_bit a v)) = take_bit (a + b) (v :: u64)"
  by (rule bit_eqI) (auto simp: bit_simps dest: bit_imp_le_length)

lemma bf_get_join: "bf_get i a x OR push_bit a (bf_get (i + a) b x) = bf_get i (a + b) x"
  by (rule bit_eqI) (auto simp: bit_bf_get bit_simps add.assoc dest: bit_imp_le_length)

lemma take_bit_ucast_32: "take_bit 32 (ucast (v :: u32) :: u64) = ucast v"
  by (rule bit_eqI) (auto simp: bit_simps dest: bit_imp_le_length)

text \<open>Words that agree on fields that cover them are equal.\<close>

lemma bf_get_full: "bf_get 0 64 x = x"
  by (rule bit_eqI) (auto simp: bit_bf_get dest: bit_imp_le_length)

end
