(* ===== verification/C4_Segments.thy ===== *)
theory C4_Segments
  imports C4_Syscall C4_Bitfield
begin

text \<open>
  Segmentation (\<^verbatim>\<open>arch/x86/segments.c\<close>, \<^verbatim>\<open>segments.h\<close>): the descriptor table that defines the kernel and user
  segments and one task state segment per CPU, and the selectors.

  A descriptor is a 64-bit word with the bit-fields of \<^verbatim>\<open>segment_desc_t\<close>; \<^verbatim>\<open>define_task_descriptor\<close> writes the
  same memory through \<^verbatim>\<open>task_state_desc_t\<close>. The field \<^verbatim>\<open>esp_p0\<close> of the task segments is the component
  \<open>k_esp_p0\<close> of the kernel state. The reader of the table is the processor: \<open>desc_base\<close>, \<open>desc_limit\<close> and
  \<open>desc_dpl\<close> are the fields as the architecture defines them, against which the code's two layouts are
  checked. \<^verbatim>\<open>load_gdt\<close> and \<^verbatim>\<open>load_tss\<close> (\<^verbatim>\<open>gdt.s\<close>) set the registers of the CPU.
\<close>

section \<open>Constants and structures\<close>

definition SEG_GRANULARITY_BYTE :: u32 where [c4_enum]: "SEG_GRANULARITY_BYTE = 0"
definition SEG_GRANULARITY_PAGE :: u32 where [c4_enum]: "SEG_GRANULARITY_PAGE = 1"
definition SEG_OP_SIZE_32BIT :: u32 where [c4_enum]: "SEG_OP_SIZE_32BIT = 1"
definition SEG_DATA :: u32 where [c4_enum]: "SEG_DATA = 0"
definition SEG_CODE :: u32 where [c4_enum]: "SEG_CODE = 8"
definition SEG_CODE_READ :: u32 where [c4_enum]: "SEG_CODE_READ = 2"
definition SEG_DATA_WRITE :: u32 where [c4_enum]: "SEG_DATA_WRITE = 2"
definition SEG_TASK_DESC :: u32 where [c4_enum]: "SEG_TASK_DESC = 9"
definition SEG_TABLE_GDT :: u32 where [c4_enum]: "SEG_TABLE_GDT = 0"

type_synonym segment_desc_t = u64

text \<open>The fields of \<^verbatim>\<open>segment_desc_t\<close>, then those of \<^verbatim>\<open>task_state_desc_t\<close> that the code assigns.\<close>

datatype seg_field = limit_low | base_low | base_mid | type_field | is_data | priv_level | present
  | limit_high | unused | is_longmode | op_size | granularity | base_high

primrec seg_layout :: "seg_field \<Rightarrow> nat \<times> nat" where
  "seg_layout limit_low = (0, 16)"
| "seg_layout base_low = (16, 16)"
| "seg_layout base_mid = (32, 8)"
| "seg_layout type_field = (40, 4)"
| "seg_layout is_data = (44, 1)"
| "seg_layout priv_level = (45, 2)"
| "seg_layout present = (47, 1)"
| "seg_layout limit_high = (48, 4)"
| "seg_layout unused = (52, 1)"
| "seg_layout is_longmode = (53, 1)"
| "seg_layout op_size = (54, 1)"
| "seg_layout granularity = (55, 1)"
| "seg_layout base_high = (56, 8)"

datatype task_field = ts_limit_low | ts_base_low | ts_type | ts_priv_level | ts_present | ts_limit_high
  | ts_granularity | ts_base_high

primrec task_layout :: "task_field \<Rightarrow> nat \<times> nat" where
  "task_layout ts_limit_low = (0, 16)"
| "task_layout ts_base_low = (16, 24)"
| "task_layout ts_type = (40, 4)"
| "task_layout ts_priv_level = (45, 2)"
| "task_layout ts_present = (47, 1)"
| "task_layout ts_limit_high = (48, 4)"
| "task_layout ts_granularity = (55, 1)"
| "task_layout ts_base_high = (56, 8)"

definition set_seg :: "seg_field \<Rightarrow> u32 \<Rightarrow> segment_desc_t \<Rightarrow> segment_desc_t" where
  "set_seg f v d = bf_set (fst (seg_layout f)) (snd (seg_layout f)) (ucast v) d"

definition set_task :: "task_field \<Rightarrow> u32 \<Rightarrow> segment_desc_t \<Rightarrow> segment_desc_t" where
  "set_task f v d = bf_set (fst (task_layout f)) (snd (task_layout f)) (ucast v) d"

record gdt_ptr_t =
  gp_limit :: u16
  gp_base :: u32

record task_seg_t =
  ts_ss_p0 :: u16
  ts_cs :: u16
  ts_ds :: u16
  ts_ss :: u16
  ts_es :: u16
  ts_fs :: u16
  ts_gs :: u16
  ts_iomap_base :: u16

definition sizeof_task_seg_t :: u32 where "sizeof_task_seg_t = 104"

definition selector :: "u32 \<Rightarrow> u32 \<Rightarrow> u32 \<Rightarrow> u16" where
  "selector index table priv = ucast (push_bit 3 index OR push_bit 2 table OR priv)"

definition ring :: "u32 \<Rightarrow> u32" where
  "ring n = n"

section \<open>Descriptors\<close>

definition define_descriptor :: "u32 \<Rightarrow> u32 \<Rightarrow> u32 \<Rightarrow> u32 \<Rightarrow> segment_desc_t \<Rightarrow> segment_desc_t" where
  "define_descriptor base limit ty privilege desc =
     (let d1 = set_seg limit_low limit desc;
          d2 = set_seg limit_high (drop_bit 16 limit) d1;
          d3 = set_seg base_low base d2;
          d4 = set_seg base_mid (drop_bit 16 base) d3;
          d5 = set_seg base_high (drop_bit 24 base) d4;
          d6 = set_seg granularity SEG_GRANULARITY_PAGE d5;
          d7 = set_seg op_size SEG_OP_SIZE_32BIT d6;
          d8 = set_seg present 1 d7;
          d9 = set_seg is_data 1 d8;
          d10 = set_seg is_longmode 0 d9;
          d11 = set_seg type_field ty d10
      in set_seg priv_level privilege d11)"

definition define_task_descriptor :: "u32 \<Rightarrow> u32 \<Rightarrow> segment_desc_t \<Rightarrow> segment_desc_t" where
  "define_task_descriptor base limit desc =
     (let d1 = set_task ts_base_low base desc;
          d2 = set_task ts_base_high (drop_bit 24 base) d1;
          d3 = set_task ts_limit_low limit d2;
          d4 = set_task ts_limit_high (drop_bit 16 limit) d3;
          d5 = set_task ts_present 1 d4;
          d6 = set_task ts_granularity SEG_GRANULARITY_BYTE d5;
          d7 = set_task ts_type SEG_TASK_DESC d6
      in set_task ts_priv_level (ring 0) d7)"

section \<open>The tables\<close>

text \<open>
  The static variables of the file, the registers the table loads set, and the kernel state.
  \<open>task_segments\<close> and \<open>descripts\<close> are the addresses of the arrays, in the kernel image.
\<close>

record segments =
  sg_kernel :: kernel
  sg_task_segments :: "task_seg_t list"
  sg_descripts :: "segment_desc_t list"
  sg_gdt :: gdt_ptr_t
  sg_gdtr :: gdt_ptr_t
  sg_tr :: u16

definition task_segments :: ptr where "task_segments = 0xfd032000"
definition descripts :: ptr where "descripts = 0xfd033000"

definition zero_task_seg :: task_seg_t where
  "zero_task_seg = \<lparr>ts_ss_p0 = 0, ts_cs = 0, ts_ds = 0, ts_ss = 0, ts_es = 0, ts_fs = 0, ts_gs = 0, ts_iomap_base = 0\<rparr>"

definition init_task_segment :: "nat \<Rightarrow> 'a segments_scheme \<Rightarrow> 'a segments_scheme" where
  "init_task_segment i s =
     (let ds = selector 4 SEG_TABLE_GDT (ring 3)
      in s\<lparr>sg_kernel := (sg_kernel s)\<lparr>k_esp_p0 := (k_esp_p0 (sg_kernel s))(of_nat i := 0)\<rparr>,
           sg_task_segments := (sg_task_segments s)[i := (sg_task_segments s ! i)
             \<lparr>ts_ss_p0 := selector 2 SEG_TABLE_GDT (ring 0), ts_cs := selector 3 SEG_TABLE_GDT (ring 3),
              ts_ds := ds, ts_ss := ds, ts_es := ds, ts_fs := ds, ts_gs := ds, ts_iomap_base := 0xffff\<rparr>]\<rparr>)"

definition load_gdt :: "gdt_ptr_t \<Rightarrow> 'a segments_scheme \<Rightarrow> 'a segments_scheme" where
  "load_gdt p s = s\<lparr>sg_gdtr := p\<rparr>"

definition load_tss :: "u16 \<Rightarrow> 'a segments_scheme \<Rightarrow> 'a segments_scheme" where
  "load_tss sel s = s\<lparr>sg_tr := sel\<rparr>"

definition set_descript :: "nat \<Rightarrow> (segment_desc_t \<Rightarrow> segment_desc_t) \<Rightarrow> 'a segments_scheme \<Rightarrow> 'a segments_scheme" where
  "set_descript i f s = s\<lparr>sg_descripts := (sg_descripts s)[i := f (sg_descripts s ! i)]\<rparr>"

text \<open>The body of the loop of \<^verbatim>\<open>init_segment_descs\<close>.\<close>

definition init_task :: "nat \<Rightarrow> 'a segments_scheme \<Rightarrow> 'a segments_scheme" where
  "init_task i s =
     init_task_segment i (set_descript (5 + i)
       (define_task_descriptor (task_segments + of_nat i * sizeof_task_seg_t) sizeof_task_seg_t) s)"

definition init_segment_descs :: "'a segments_scheme \<Rightarrow> 'a segments_scheme" where
  "init_segment_descs s0 =
     (let n = 5 + unat SCHED_MAX_CPUS;
          s = s0\<lparr>sg_descripts := replicate n 0,
                 sg_task_segments := replicate (unat SCHED_MAX_CPUS) zero_task_seg,
                 sg_kernel := (sg_kernel s0)\<lparr>k_esp_p0 := (\<lambda>_. 0)\<rparr>\<rparr>;
          s1 = set_descript 1 (define_descriptor 0 0xfffff (SEG_CODE OR SEG_CODE_READ) (ring 0)) s;
          s2 = set_descript 2 (define_descriptor 0 0xfffff (SEG_DATA OR SEG_DATA_WRITE) (ring 0)) s1;
          s3 = set_descript 3 (define_descriptor 0 0xfffff (SEG_CODE OR SEG_CODE_READ) (ring 3)) s2;
          s4 = set_descript 4 (define_descriptor 0 0xfffff (SEG_DATA OR SEG_DATA_WRITE) (ring 3)) s3;
          s5 = fold init_task [0..<unat SCHED_MAX_CPUS] s4;
          s6 = s5\<lparr>sg_gdt := \<lparr>gp_limit = of_nat (8 * n - 1), gp_base = descripts\<rparr>\<rparr>
      in load_tss (selector 5 SEG_TABLE_GDT (ring 0)) (load_gdt (sg_gdt s6) s6))"

definition init_cpu_segment_descs :: "u32 \<Rightarrow> 'a segments_scheme \<Rightarrow> 'a segments_scheme" where
  "init_cpu_segment_descs cpu_num s =
     load_tss (selector (5 + sched_current_cpu (sg_kernel s)) SEG_TABLE_GDT (ring 0)) (load_gdt (sg_gdt s) s)"

section \<open>What the processor reads\<close>

definition desc_base :: "segment_desc_t \<Rightarrow> u64" where
  "desc_base d = bf_get 16 24 d OR push_bit 24 (bf_get 56 8 d)"

text \<open>
  The last offset in the segment: the 20-bit limit counts bytes, or pages of 4 KB if the granularity bit
  is set, and then the low 12 bits of an offset are not checked.
\<close>

definition desc_limit :: "segment_desc_t \<Rightarrow> u64" where
  "desc_limit d = (let l = bf_get 0 16 d OR push_bit 16 (bf_get 48 4 d)
     in if bf_get 55 1 d = 1 then push_bit 12 l OR 0xfff else l)"

definition desc_32bit :: "segment_desc_t \<Rightarrow> bool" where
  "desc_32bit d \<longleftrightarrow> bf_get 53 1 d = 0 \<and> bf_get 54 1 d = 1"

definition desc_dpl :: "segment_desc_t \<Rightarrow> u64" where
  "desc_dpl d = bf_get 45 2 d"

definition desc_type :: "segment_desc_t \<Rightarrow> u64" where
  "desc_type d = bf_get 40 4 d"

definition desc_present :: "segment_desc_t \<Rightarrow> bool" where
  "desc_present d \<longleftrightarrow> bf_get 47 1 d = 1"

definition desc_segment :: "segment_desc_t \<Rightarrow> bool" where
  "desc_segment d \<longleftrightarrow> bf_get 44 1 d = 1"

lemmas desc_defs = desc_base_def desc_limit_def desc_dpl_def desc_type_def desc_present_def desc_segment_def desc_32bit_def

lemma drop_ucast: "(ucast (drop_bit n (v :: u32)) :: u64) = drop_bit n (ucast v)"
  by (rule bit_eqI) (auto simp: bit_simps dest: bit_imp_le_length)

lemma base_24: "bf_get 16 24 d = bf_get 16 16 d OR push_bit 16 (bf_get 32 8 d)"
  using bf_get_join [of 16 16 d 8] by simp

lemma join_16_8_8:
  "(take_bit 16 v OR push_bit 16 (take_bit 8 (drop_bit 16 v))) OR push_bit 24 (take_bit 8 (drop_bit 24 v)) = take_bit 32 (v :: u64)"
  unfolding take_bit_join using take_bit_join [of 24 v 8] by simp

lemma join_24_8: "take_bit 24 v OR push_bit 24 (take_bit 8 (drop_bit 24 v)) = take_bit 32 (v :: u64)"
  using take_bit_join [of 24 v 8] by simp

lemma join_16_4: "take_bit 16 v OR push_bit 16 (take_bit 4 (drop_bit 16 v)) = take_bit 20 (v :: u64)"
  using take_bit_join [of 16 v 4] by simp

lemma define_descriptor_reads:
  "desc_base (define_descriptor base limit ty privilege d) = ucast base"
  "desc_limit (define_descriptor base limit ty privilege d) = push_bit 12 (take_bit 20 (ucast limit)) OR 0xfff"
  "desc_dpl (define_descriptor base limit ty privilege d) = take_bit 2 (ucast privilege)"
  "desc_type (define_descriptor base limit ty privilege d) = take_bit 4 (ucast ty)"
  "desc_present (define_descriptor base limit ty privilege d)" "desc_segment (define_descriptor base limit ty privilege d)"
  "desc_32bit (define_descriptor base limit ty privilege d)"
  by (simp_all add: define_descriptor_def desc_defs base_24 set_seg_def Let_def bitfield drop_ucast join_16_8_8 join_16_4 take_bit_ucast_32
      SEG_GRANULARITY_PAGE_def SEG_OP_SIZE_32BIT_def)

lemma define_task_descriptor_reads:
  "desc_base (define_task_descriptor base limit d) = ucast base"
  "desc_limit (define_task_descriptor base limit d) = take_bit 20 (ucast limit)"
  "desc_dpl (define_task_descriptor base limit d) = 0"
  "desc_type (define_task_descriptor base limit d) = 9"
  "desc_present (define_task_descriptor base limit d)"
  "desc_segment (define_task_descriptor base limit d) = desc_segment d"
  by (simp_all add: define_task_descriptor_def desc_defs set_task_def Let_def bitfield drop_ucast join_24_8 join_16_4 take_bit_ucast_32
      c4_enum ring_def)

section \<open>The table after initialisation\<close>

definition task_base :: "nat \<Rightarrow> u32" where
  "task_base i = task_segments + of_nat i * sizeof_task_seg_t"

definition user_task_seg :: task_seg_t where
  "user_task_seg = \<lparr>ts_ss_p0 = selector 2 SEG_TABLE_GDT (ring 0), ts_cs = selector 3 SEG_TABLE_GDT (ring 3),
     ts_ds = selector 4 SEG_TABLE_GDT (ring 3), ts_ss = selector 4 SEG_TABLE_GDT (ring 3), ts_es = selector 4 SEG_TABLE_GDT (ring 3),
     ts_fs = selector 4 SEG_TABLE_GDT (ring 3), ts_gs = selector 4 SEG_TABLE_GDT (ring 3), ts_iomap_base = 0xffff\<rparr>"

lemma user_task_seg_upd:
  "t\<lparr>ts_ss_p0 := selector 2 SEG_TABLE_GDT (ring 0), ts_cs := selector 3 SEG_TABLE_GDT (ring 3),
     ts_ds := selector 4 SEG_TABLE_GDT (ring 3), ts_ss := selector 4 SEG_TABLE_GDT (ring 3), ts_es := selector 4 SEG_TABLE_GDT (ring 3),
     ts_fs := selector 4 SEG_TABLE_GDT (ring 3), ts_gs := selector 4 SEG_TABLE_GDT (ring 3), ts_iomap_base := 0xffff\<rparr> = user_task_seg"
  by (cases t) (simp add: user_task_seg_def)

lemma init_task_fields:
  "sg_descripts (init_task n t) = (sg_descripts t)[5 + n := define_task_descriptor (task_base n) sizeof_task_seg_t (sg_descripts t ! (5 + n))]"
  "sg_task_segments (init_task n t) = (sg_task_segments t)[n := user_task_seg]"
  "sg_kernel (init_task n t) = (sg_kernel t)\<lparr>k_esp_p0 := (k_esp_p0 (sg_kernel t))(of_nat n := 0)\<rparr>"
  by (simp_all add: init_task_def set_descript_def init_task_segment_def user_task_seg_upd task_base_def Let_def)

lemma init_tasks:
  assumes "length (sg_descripts s) = 37" "length (sg_task_segments s) = 32" "k_esp_p0 (sg_kernel s) = (\<lambda>_. 0)" and "n \<le> 32"
  shows "sg_descripts (fold init_task [0..<n] s) =
      take 5 (sg_descripts s) @ map (\<lambda>i. define_task_descriptor (task_base i) sizeof_task_seg_t (sg_descripts s ! (5 + i))) [0..<n]
        @ drop (5 + n) (sg_descripts s) \<and>
    sg_task_segments (fold init_task [0..<n] s) = replicate n user_task_seg @ drop n (sg_task_segments s) \<and>
    sg_kernel (fold init_task [0..<n] s) = sg_kernel s"
  using assms(4)
proof (induction n)
  case 0
  then show ?case by simp
next
  case (Suc n)
  let ?s = "fold init_task [0..<n] s"
  have n: "n < 32" using Suc.prems by simp
  note IH = Suc.IH [OF less_imp_le [OF n], THEN conjunct1] Suc.IH [OF less_imp_le [OF n], THEN conjunct2]
  have len: "length (sg_descripts ?s) = 37" "length (sg_task_segments ?s) = 32" using IH assms(1,2) n by simp_all
  have d: "drop (5 + n) (sg_descripts s) = sg_descripts s ! (5 + n) # drop (5 + Suc n) (sg_descripts s)"
    using assms(1) n by (simp add: Cons_nth_drop_Suc [symmetric])
  have e: "drop n (sg_task_segments s) = sg_task_segments s ! n # drop (Suc n) (sg_task_segments s)"
    using assms(2) n by (simp add: Cons_nth_drop_Suc)
  have k: "(sg_kernel s)\<lparr>k_esp_p0 := (\<lambda>_. 0)\<rparr> = sg_kernel s" by (rule kernel.equality) (use assms(3) in simp_all)
  have f: "fold init_task [0..<Suc n] s = init_task n ?s" by simp
  show ?case unfolding f init_task_fields
  proof (intro conjI)
    show "(sg_descripts ?s)[5 + n := define_task_descriptor (task_base n) sizeof_task_seg_t (sg_descripts ?s ! (5 + n))] =
      take 5 (sg_descripts s) @ map (\<lambda>i. define_task_descriptor (task_base i) sizeof_task_seg_t (sg_descripts s ! (5 + i))) [0..<Suc n]
        @ drop (5 + Suc n) (sg_descripts s)"
      unfolding IH(1) d using assms(1) n by (simp add: list_update_append nth_append)
    show "(sg_task_segments ?s)[n := user_task_seg] = replicate (Suc n) user_task_seg @ drop (Suc n) (sg_task_segments s)"
      unfolding IH(2) [THEN conjunct1] e by (simp add: list_update_append replicate_app_Cons_same)
    show "(sg_kernel ?s)\<lparr>k_esp_p0 := (k_esp_p0 (sg_kernel ?s))(of_nat n := 0)\<rparr> = sg_kernel s"
      unfolding IH(2) [THEN conjunct2] assms(3) by (simp add: fun_upd_idem k)
  qed
qed

text \<open>
  C28. After \<^verbatim>\<open>init_segment_descs\<close>, as the processor reads the table: it has the null descriptor, flat
  32-bit code and data segments from 0 to the last of 4 GB for the kernel at privilege level 0 and for
  user programs at level 3, and 32 task state segments that no user program can load (level 0), each
  at the address of its task segment, with a last offset of 104, one more than the segment has. Every
  task segment switches to the kernel's stack segment and has the user's selectors; the kernel state
  changes only in the stack pointers, which are cleared.
\<close>

theorem gdt_separates_rings:
  "map desc_dpl (sg_descripts (init_segment_descs s)) = [0, 0, 0, 3, 3] @ replicate 32 0 \<and>
   map desc_base (sg_descripts (init_segment_descs s)) = replicate 5 0 @ map (\<lambda>i. ucast (task_base i)) [0..<32] \<and>
   map desc_limit (sg_descripts (init_segment_descs s)) = 0 # replicate 4 0xffffffff @ replicate 32 104 \<and>
   map desc_32bit (take 5 (sg_descripts (init_segment_descs s))) = [False, True, True, True, True] \<and>
   map desc_type (sg_descripts (init_segment_descs s)) = [0, 10, 2, 10, 2] @ replicate 32 9 \<and>
   map desc_present (sg_descripts (init_segment_descs s)) = False # replicate 36 True \<and>
   map desc_segment (sg_descripts (init_segment_descs s)) = False # replicate 4 True @ replicate 32 False \<and>
   sg_task_segments (init_segment_descs s) = replicate 32 user_task_seg \<and>
   sg_gdtr (init_segment_descs s) = \<lparr>gp_limit = 37 * 8 - 1, gp_base = descripts\<rparr> \<and> sg_tr (init_segment_descs s) = 40 \<and>
   sg_kernel (init_segment_descs s) = (sg_kernel s)\<lparr>k_esp_p0 := (\<lambda>_. 0)\<rparr>"
proof -
  let ?c = "\<lambda>t p. define_descriptor 0 0xfffff t (ring p) 0"
  let ?ds = "[0, ?c (SEG_CODE OR SEG_CODE_READ) 0, ?c (SEG_DATA OR SEG_DATA_WRITE) 0, ?c (SEG_CODE OR SEG_CODE_READ) 3,
    ?c (SEG_DATA OR SEG_DATA_WRITE) 3]"
  let ?b = "s\<lparr>sg_descripts := replicate 37 0, sg_task_segments := replicate 32 zero_task_seg,
    sg_kernel := (sg_kernel s)\<lparr>k_esp_p0 := (\<lambda>_. 0)\<rparr>\<rparr>\<lparr>sg_descripts := ?ds @ replicate 32 0\<rparr>"
  define f where "f = fold init_task [0..<32] ?b"
  have cpus: "unat SCHED_MAX_CPUS = 32" by (simp add: c4_enum)
  have r37: "replicate 37 (0 :: u64) = [0, 0, 0, 0, 0] @ replicate 32 0" by (simp add: numeral_eq_Suc)
  have i: "init_segment_descs s = load_tss (selector 5 SEG_TABLE_GDT (ring 0))
      (load_gdt \<lparr>gp_limit = of_nat 295, gp_base = descripts\<rparr> (f\<lparr>sg_gdt := \<lparr>gp_limit = of_nat 295, gp_base = descripts\<rparr>\<rparr>))"
    by (simp add: init_segment_descs_def cpus Let_def set_descript_def r37 f_def)
  from init_tasks [of ?b 32, folded f_def] have f: "sg_descripts f = ?ds @ map (\<lambda>i. define_task_descriptor (task_base i) sizeof_task_seg_t 0) [0..<32]"
    "sg_task_segments f = replicate 32 user_task_seg" "sg_kernel f = (sg_kernel s)\<lparr>k_esp_p0 := (\<lambda>_. 0)\<rparr>"
    by (simp_all add: nth_append cong: map_cong)
  have z: "desc_dpl 0 = 0" "desc_base 0 = 0" "desc_limit 0 = 0" "desc_type 0 = 0" "\<not> desc_present 0" "\<not> desc_segment 0" "\<not> desc_32bit 0"
    by (simp_all add: desc_defs bitfield)
  have rep: "replicate 36 True = [True, True, True, True] @ replicate 32 True" "replicate 4 x = [x, x, x, x]"
    "replicate 5 y = [y, y, y, y, y]" for x :: 'x and y :: 'y by (simp_all add: numeral_eq_Suc)
  show ?thesis unfolding i rep
    by (simp add: load_tss_def load_gdt_def f define_descriptor_reads define_task_descriptor_reads z c4_enum ring_def
        sizeof_task_seg_t_def selector_def comp_def map_replicate_const)
qed

end
