(* ===== verification/C4_Devices.thy ===== *)
theory C4_Devices
  imports C4_Segments
begin

text \<open>
  The interrupt controllers and timers of the platform: the 8259 PIC (\<^verbatim>\<open>arch/x86/pic.c\<close>), the PIT
  (\<^verbatim>\<open>arch/x86/pit.c\<close>), the CMOS (\<^verbatim>\<open>cmos.h\<close>), the local APIC (\<^verbatim>\<open>arch/x86/apic.c\<close>) and the clock
  (\<^verbatim>\<open>arch/x86/timer.c\<close>).

  Port accesses use the input function and the log of the kernel state, APIC writes its log of
  register writes. What a read of an APIC register returns is the component \<open>dv_apic_in\<close>, what the
  processor reports as features \<open>dv_cpuid_edx\<close>, both arbitrary; the APIC base is a model-specific register.
  The APIC is addressed by register: its base address is the one \<^verbatim>\<open>apic_get_base\<close> gives in every access.
  Polling a port that never changes does not end, which is the value \<open>None\<close>. Diagnostic output is left
  out.
\<close>

record devices = segments +
  dv_apic_in :: "u32 \<Rightarrow> u32"
  dv_cpuid_edx :: u32
  dv_msr_apic_base :: u32
  dv_ticks_per_10ms :: u64
  dv_starting_cpu :: u32

definition on_kernel :: "(kernel \<Rightarrow> kernel) \<Rightarrow> 'a segments_scheme \<Rightarrow> 'a segments_scheme" where
  "on_kernel f s = s\<lparr>sg_kernel := f (sg_kernel s)\<rparr>"

definition outb :: "u32 \<Rightarrow> u32 \<Rightarrow> 'a segments_scheme \<Rightarrow> 'a segments_scheme" where
  "outb port v s = on_kernel (port_write 8 port v) s"

definition inb :: "u32 \<Rightarrow> 'a segments_scheme \<Rightarrow> u32" where
  "inb port s = port_read 8 port (sg_kernel s)"

section \<open>The PIC\<close>

definition PIC_MASTER :: u32 where [c4_enum]: "PIC_MASTER = 0x20"
definition PIC_SLAVE :: u32 where [c4_enum]: "PIC_SLAVE = 0xa0"
definition PIC_COMMAND :: u32 where [c4_enum]: "PIC_COMMAND = 0"
definition PIC_DATA :: u32 where [c4_enum]: "PIC_DATA = 1"
definition PIC_WORD_PW4 :: u32 where [c4_enum]: "PIC_WORD_PW4 = 1"
definition PIC_WORD_INIT :: u32 where [c4_enum]: "PIC_WORD_INIT = 16"
definition PIC_WORD_8086 :: u32 where [c4_enum]: "PIC_WORD_8086 = 1"
definition PIC_COM_END_OF_INTR :: u32 where [c4_enum]: "PIC_COM_END_OF_INTR = 0x20"

definition remap_pic_vectors :: "u32 \<Rightarrow> u32 \<Rightarrow> 'a segments_scheme \<Rightarrow> 'a segments_scheme" where
  "remap_pic_vectors master slave s =
     (let mask0 = inb (PIC_MASTER OR PIC_DATA) s;
          mask1 = inb (PIC_SLAVE OR PIC_DATA) s;
          s1 = outb (PIC_MASTER OR PIC_COMMAND) (PIC_WORD_INIT OR PIC_WORD_PW4) s;
          s2 = outb (PIC_SLAVE OR PIC_COMMAND) (PIC_WORD_INIT OR PIC_WORD_PW4) s1;
          s3 = outb (PIC_MASTER OR PIC_DATA) master s2;
          s4 = outb (PIC_SLAVE OR PIC_DATA) slave s3;
          s5 = outb (PIC_MASTER OR PIC_DATA) 4 s4;
          s6 = outb (PIC_SLAVE OR PIC_DATA) 2 s5;
          s7 = outb (PIC_MASTER OR PIC_DATA) PIC_WORD_8086 s6;
          s8 = outb (PIC_SLAVE OR PIC_DATA) PIC_WORD_8086 s7;
          s9 = outb (PIC_MASTER OR PIC_DATA) mask0 s8
      in outb (PIC_SLAVE OR PIC_DATA) mask1 s9)"

definition remap_pic_vectors_default :: "'a segments_scheme \<Rightarrow> 'a segments_scheme" where
  "remap_pic_vectors_default s = remap_pic_vectors 0x20 0x28 s"

definition clear_pic_interrupt :: "'a segments_scheme \<Rightarrow> 'a segments_scheme" where
  "clear_pic_interrupt s =
     outb (PIC_SLAVE OR PIC_COMMAND) PIC_COM_END_OF_INTR (outb (PIC_MASTER OR PIC_COMMAND) PIC_COM_END_OF_INTR s)"

definition disable_pic :: "'a segments_scheme \<Rightarrow> 'a segments_scheme" where
  "disable_pic s = outb 0x21 0xff (outb 0xa1 0xff s)"

section \<open>The PIT\<close>

definition PIT_CHAN0 :: u32 where [c4_enum]: "PIT_CHAN0 = 0x40"
definition PIT_COMMAND :: u32 where [c4_enum]: "PIT_COMMAND = 0x43"
definition PIT_CMD_READ_BACK :: u32 where [c4_enum]: "PIT_CMD_READ_BACK = 0xc0"
definition PIT_CMD_HILOBYTE :: u32 where [c4_enum]: "PIT_CMD_HILOBYTE = 0x30"
definition PIT_READ_LATCH_COUNT :: u32 where [c4_enum]: "PIT_READ_LATCH_COUNT = 0x20"
definition PIT_READ_CHAN0 :: u32 where [c4_enum]: "PIT_READ_CHAN0 = 2"
definition PIT_STATUS_STATE :: u32 where [c4_enum]: "PIT_STATUS_STATE = 0x80"
definition PIT_WAIT_10MS :: u32 where [c4_enum]: "PIT_WAIT_10MS = 11932"

partial_function (option) pit_poll :: "u32 \<Rightarrow> 'a segments_scheme \<Rightarrow> 'a segments_scheme option" where [code]:
  "pit_poll status s =
     (if status AND PIT_STATUS_STATE = 0
      then let s1 = outb PIT_COMMAND (PIT_CMD_READ_BACK OR PIT_READ_LATCH_COUNT OR PIT_READ_CHAN0) s
           in pit_poll (inb PIT_CHAN0 s1) s1
      else Some s)"

definition pit_wait_poll :: "u16 \<Rightarrow> 'a segments_scheme \<Rightarrow> 'a segments_scheme option" where
  "pit_wait_poll v s =
     (let s1 = outb PIT_COMMAND PIT_CMD_HILOBYTE s;
          s2 = outb PIT_CHAN0 (ucast v AND 0xff) s1;
          s3 = outb PIT_CHAN0 (ucast (drop_bit 8 v)) s2
      in pit_poll 0 s3)"

section \<open>The CMOS\<close>

definition CMOS_PORT_SELECT :: u32 where [c4_enum]: "CMOS_PORT_SELECT = 0x70"
definition CMOS_PORT_DATA :: u32 where [c4_enum]: "CMOS_PORT_DATA = 0x71"
definition CMOS_REG_RESET :: u32 where [c4_enum]: "CMOS_REG_RESET = 0xf"
definition CMOS_RESET_POWERON :: u32 where [c4_enum]: "CMOS_RESET_POWERON = 0"
definition CMOS_RESET_JUMP :: u32 where [c4_enum]: "CMOS_RESET_JUMP = 0xa"

definition cmos_select :: "u32 \<Rightarrow> bool \<Rightarrow> 'a segments_scheme \<Rightarrow> 'a segments_scheme" where
  "cmos_select reg disable_nmi s = outb CMOS_PORT_SELECT (push_bit 7 (of_bool disable_nmi) OR reg) s"

definition cmos_read :: "u32 \<Rightarrow> 'a segments_scheme \<Rightarrow> u32 \<times> 'a segments_scheme" where
  "cmos_read reg s = (let s1 = cmos_select reg False s in (inb CMOS_PORT_DATA s1, s1))"

definition cmos_write :: "u32 \<Rightarrow> u32 \<Rightarrow> 'a segments_scheme \<Rightarrow> 'a segments_scheme" where
  "cmos_write reg v s = outb CMOS_PORT_DATA v (cmos_select reg False s)"

section \<open>The local APIC\<close>

definition CPUID_GET_FEATURES :: u32 where [c4_enum]: "CPUID_GET_FEATURES = 1"
definition CPUID_FEATURE_APIC :: u32 where [c4_enum]: "CPUID_FEATURE_APIC = 0x200"
definition IA32_MSR_APIC_BASE :: u32 where [c4_enum]: "IA32_MSR_APIC_BASE = 0x1b"
definition IA32_MSR_APIC_BASE_ENABLE :: u32 where [c4_enum]: "IA32_MSR_APIC_BASE_ENABLE = 0x800"

definition APIC_REG_ID :: u32 where [c4_enum]: "APIC_REG_ID = 0x20"
definition APIC_REG_VERSION :: u32 where [c4_enum]: "APIC_REG_VERSION = 0x30"
definition APIC_REG_END_OF_INTR :: u32 where [c4_enum]: "APIC_REG_END_OF_INTR = 0xb0"
definition APIC_REG_SPURIOUS_INTR_VEC :: u32 where [c4_enum]: "APIC_REG_SPURIOUS_INTR_VEC = 0xf0"
definition APIC_REG_LOCAL_TIMER :: u32 where [c4_enum]: "APIC_REG_LOCAL_TIMER = 0x320"
definition APIC_REG_TIMER_INIT_COUNT :: u32 where [c4_enum]: "APIC_REG_TIMER_INIT_COUNT = 0x380"
definition APIC_REG_TIMER_CUR_COUNT :: u32 where [c4_enum]: "APIC_REG_TIMER_CUR_COUNT = 0x390"
definition APIC_REG_TIMER_DIV_CONF :: u32 where [c4_enum]: "APIC_REG_TIMER_DIV_CONF = 0x3e0"
definition APIC_ICR_DELIVERY_STATUS :: u32 where [c4_enum]: "APIC_ICR_DELIVERY_STATUS = 0x1000"
definition APIC_ICR_LEVEL_ASSERT :: u32 where [c4_enum]: "APIC_ICR_LEVEL_ASSERT = 0x4000"
definition APIC_ICR_LEVEL :: u32 where [c4_enum]: "APIC_ICR_LEVEL = 0x8000"
definition APIC_IPI_INIT :: u32 where [c4_enum]: "APIC_IPI_INIT = 0x500"
definition APIC_IPI_START :: u32 where [c4_enum]: "APIC_IPI_START = 0x600"
definition APIC_TIMER_DIV_16 :: u32 where [c4_enum]: "APIC_TIMER_DIV_16 = 3"
definition APIC_TIMER_PERIODIC :: u32 where [c4_enum]: "APIC_TIMER_PERIODIC = 0x20000"
definition APIC_TIMER_ONE_SHOT :: u32 where [c4_enum]: "APIC_TIMER_ONE_SHOT = 0"
definition timer_vector :: u32 where [c4_enum]: "timer_vector = 32"

definition apic_read :: "u32 \<Rightarrow> 'a devices_scheme \<Rightarrow> u32" where
  "apic_read reg s = dv_apic_in s reg"

definition apic_out :: "u32 \<Rightarrow> u32 \<Rightarrow> 'a segments_scheme \<Rightarrow> 'a segments_scheme" where
  "apic_out reg v s = on_kernel (apic_write reg v) s"

definition apic_ipi_recieved :: "'a devices_scheme \<Rightarrow> bool" where
  "apic_ipi_recieved s \<longleftrightarrow> apic_read APIC_REG_INTR_COMMAND_LOWER s AND APIC_ICR_DELIVERY_STATUS = 0"

definition apic_supported :: "'a devices_scheme \<Rightarrow> bool" where
  "apic_supported s \<longleftrightarrow> dv_cpuid_edx s AND CPUID_FEATURE_APIC \<noteq> 0"

definition apic_set_base :: "u32 \<Rightarrow> 'a devices_scheme \<Rightarrow> 'a devices_scheme" where
  "apic_set_base apic s = s\<lparr>dv_msr_apic_base := (io_virt_to_phys apic AND NOT 0xfff) OR IA32_MSR_APIC_BASE_ENABLE\<rparr>"

definition apic_get_base :: "'a devices_scheme \<Rightarrow> u32" where
  "apic_get_base s = io_phys_to_virt (dv_msr_apic_base s AND NOT 0xfff)"

definition apic_end_of_interrupt :: "'a segments_scheme \<Rightarrow> 'a segments_scheme" where
  "apic_end_of_interrupt s = apic_out APIC_REG_END_OF_INTR 0 s"

definition apic_enable :: "'a devices_scheme \<Rightarrow> 'a devices_scheme" where
  "apic_enable s =
     (let s1 = apic_set_base (apic_get_base s) s;
          spiv = apic_read APIC_REG_SPURIOUS_INTR_VEC s1;
          s2 = apic_out APIC_REG_SPURIOUS_INTR_VEC (spiv OR 0x100) s1;
          s3 = apic_end_of_interrupt s2
      in on_kernel (\<lambda>k. k\<lparr>k_apic_enabled := True\<rparr>) s3)"

definition apic_version :: "'a devices_scheme \<Rightarrow> u32" where
  "apic_version s = apic_read APIC_REG_VERSION s"

definition apic_get_id :: "'a devices_scheme \<Rightarrow> u32" where
  "apic_get_id s = drop_bit 24 (apic_read APIC_REG_ID s)"

definition apic_timer_stop :: "'a segments_scheme \<Rightarrow> 'a segments_scheme" where
  "apic_timer_stop s = apic_out APIC_REG_TIMER_INIT_COUNT 0 s"

definition apic_timer_periodic :: "u32 \<Rightarrow> 'a segments_scheme \<Rightarrow> 'a segments_scheme" where
  "apic_timer_periodic initial_count s =
     apic_out APIC_REG_TIMER_INIT_COUNT 0x8000000
       (apic_out APIC_REG_TIMER_DIV_CONF APIC_TIMER_DIV_16
         (apic_out APIC_REG_LOCAL_TIMER (APIC_TIMER_PERIODIC OR timer_vector) s))"

definition apic_timer_one_shot :: "u32 \<Rightarrow> 'a segments_scheme \<Rightarrow> 'a segments_scheme" where
  "apic_timer_one_shot initial_count s =
     apic_out APIC_REG_TIMER_INIT_COUNT initial_count
       (apic_out APIC_REG_TIMER_DIV_CONF APIC_TIMER_DIV_16
         (apic_out APIC_REG_LOCAL_TIMER (APIC_TIMER_ONE_SHOT OR timer_vector) s))"

definition apic_timer_measure :: "u32 \<Rightarrow> 'a devices_scheme \<Rightarrow> (u32 \<times> 'a devices_scheme) option" where
  "apic_timer_measure pit_time s = do {
     let s1 = apic_out APIC_REG_TIMER_DIV_CONF APIC_TIMER_DIV_16 s;
     let s2 = apic_out APIC_REG_TIMER_INIT_COUNT 0xffffffff s1;
     s3 \<leftarrow> pit_wait_poll (ucast pit_time) s2;
     let counter = apic_read APIC_REG_TIMER_CUR_COUNT s3;
     let s4 = apic_out APIC_REG_TIMER_INIT_COUNT 0 s3;
     Some (0xffffffff - counter, s4)
   }"

definition apic_timer_usec_to_ticks :: "u32 \<Rightarrow> 'a devices_scheme \<Rightarrow> (u32 \<times> 'a devices_scheme) option" where
  "apic_timer_usec_to_ticks useconds s = do {
     s1 \<leftarrow> (if dv_ticks_per_10ms s = 0
            then do {
              (t, s') \<leftarrow> apic_timer_measure PIT_WAIT_10MS s;
              Some (s'\<lparr>dv_ticks_per_10ms := ucast t\<rparr>)
            }
            else Some s);
     Some (ucast ((dv_ticks_per_10ms s1 * ucast useconds) div 10000), s1)
   }"

section \<open>The clock\<close>

definition on_clock :: "(kernel \<Rightarrow> 'b \<times> kernel) \<Rightarrow> 'a segments_scheme \<Rightarrow> 'b \<times> 'a segments_scheme" where
  "on_clock f s = (let (r, k) = f (sg_kernel s) in (r, s\<lparr>sg_kernel := k\<rparr>))"

definition measure_cpu_freq :: "'a segments_scheme \<Rightarrow> (u64 \<times> 'a segments_scheme) option" where
  "measure_cpu_freq s = do {
     let (start, s1) = on_clock timer_get_timestamp s;
     s2 \<leftarrow> pit_wait_poll (ucast PIT_WAIT_10MS) s1;
     let (stop, s3) = on_clock timer_get_timestamp s2;
     Some ((stop - start) * 100, s3)
   }"

definition timers_init :: "'a devices_scheme \<Rightarrow> 'a devices_scheme option" where
  "timers_init s = do {
     let s1 = s\<lparr>dv_starting_cpu := sched_current_cpu (sg_kernel s)\<rparr>;
     (f, s2) \<leftarrow> measure_cpu_freq s1;
     Some (on_kernel (\<lambda>k. k\<lparr>k_cpu_frequency := f\<rparr>) s2)
   }"

section \<open>Properties\<close>

lemma on_kernel_simps [simp]:
  "sg_kernel (on_kernel f s) = f (sg_kernel s)" "sg_descripts (on_kernel f s) = sg_descripts s"
  "sg_task_segments (on_kernel f s) = sg_task_segments s"
  "devices.more (on_kernel f d) = devices.more d" "dv_apic_in (on_kernel f d) = dv_apic_in d"
  "dv_ticks_per_10ms (on_kernel f d) = dv_ticks_per_10ms d" "dv_msr_apic_base (on_kernel f d) = dv_msr_apic_base d"
  "dv_cpuid_edx (on_kernel f d) = dv_cpuid_edx d"
  by (simp_all add: on_kernel_def)

lemma on_kernel_on_kernel [simp]: "on_kernel f (on_kernel g s) = on_kernel (f \<circ> g) s"
  by (simp add: on_kernel_def)

lemma port_write_in [simp]: "k_port_in (port_write w p v k) = k_port_in k"
  by (simp add: port_write_def)

lemma apic_write_in [simp]: "k_port_in (apic_write r v k) = k_port_in k"
  by (simp add: apic_write_def)

text \<open>The poll ends at its first reading, if the channel's output is high.\<close>

lemma pit_poll_ready:
  assumes "k_port_in (sg_kernel s) (ucast PIT_CHAN0) AND 0x80 \<noteq> 0"
  shows "pit_poll 0 s = Some (outb PIT_COMMAND (PIT_CMD_READ_BACK OR PIT_READ_LATCH_COUNT OR PIT_READ_CHAN0) s)"
proof -
  let ?s = "outb PIT_COMMAND (PIT_CMD_READ_BACK OR PIT_READ_LATCH_COUNT OR PIT_READ_CHAN0) s"
  have "take_bit 8 x AND 0x80 = x AND (0x80 :: u32)" for x
    by (simp add: take_bit_eq_mask ac_simps) (simp flip: and.assoc add: mask_eq_exp_minus_1)
  then have "inb PIT_CHAN0 ?s AND PIT_STATUS_STATE \<noteq> 0" using assms by (simp add: inb_def outb_def port_read_def PIT_STATUS_STATE_def)
  then show ?thesis by (simp add: pit_poll.simps [of 0] pit_poll.simps [of _ ?s] Let_def)
qed

end
