(* ===== verification/C4_Interrupts.thy ===== *)
theory C4_Interrupts
  imports C4_Devices
begin

text \<open>
  Interrupt gates and dispatch (\<^verbatim>\<open>arch/x86/interrupts.c\<close>) and the timer interrupt (\<^verbatim>\<open>timer_handler\<close> of
  \<^verbatim>\<open>arch/x86/init.c\<close>).

  A gate is a 64-bit word with the bit-fields of \<^verbatim>\<open>interrupt_gate_t\<close>. The entry stubs of \<^verbatim>\<open>idt.s\<close>, whose
  addresses \<^verbatim>\<open>init_interrupts\<close> puts into the gates, are the parameter \<open>stubs\<close>. A handler is one of the
  functions the kernel registers; the page-fault address \<^verbatim>\<open>cr2\<close> is a parameter of the dispatch. Handlers
  that end in \<^verbatim>\<open>for (;;)\<close> have the value \<open>None\<close>. Diagnostic output is left out.
\<close>

section \<open>Gates\<close>

definition INTR_DESC_TYPE_INTERRUPT :: u32 where [c4_enum]: "INTR_DESC_TYPE_INTERRUPT = 6"
definition INTR_SIZE_32BIT :: u32 where [c4_enum]: "INTR_SIZE_32BIT = 1"
definition INTERRUPT_DEBUG :: u32 where [c4_enum]: "INTERRUPT_DEBUG = 1"
definition INTERRUPT_DOUBLE_FAULT :: u32 where [c4_enum]: "INTERRUPT_DOUBLE_FAULT = 8"
definition INTERRUPT_GEN_PROTECT :: u32 where [c4_enum]: "INTERRUPT_GEN_PROTECT = 13"
definition INTERRUPT_PAGE_FAULT :: u32 where [c4_enum]: "INTERRUPT_PAGE_FAULT = 14"
definition INTERRUPT_TIMER :: u32 where [c4_enum]: "INTERRUPT_TIMER = 0x20"
definition INTERRUPT_SYSCALL :: u32 where [c4_enum]: "INTERRUPT_SYSCALL = 0x60"

type_synonym interrupt_gate_t = u64

datatype gate_field = offset_low | code_select | zeroes | gate_type | gate_size | a_zero | gate_priv_level
  | gate_present | offset_high

primrec gate_layout :: "gate_field \<Rightarrow> nat \<times> nat" where
  "gate_layout offset_low = (0, 16)"
| "gate_layout code_select = (16, 16)"
| "gate_layout zeroes = (32, 8)"
| "gate_layout gate_type = (40, 3)"
| "gate_layout gate_size = (43, 1)"
| "gate_layout a_zero = (44, 1)"
| "gate_layout gate_priv_level = (45, 2)"
| "gate_layout gate_present = (47, 1)"
| "gate_layout offset_high = (48, 16)"

definition set_gate :: "gate_field \<Rightarrow> u32 \<Rightarrow> interrupt_gate_t \<Rightarrow> interrupt_gate_t" where
  "set_gate f v g = bf_set (fst (gate_layout f)) (snd (gate_layout f)) (ucast v) g"

text \<open>The gate is cleared first, so the result does not depend on what it was.\<close>

definition define_intr_descript :: "u32 \<Rightarrow> u32 \<Rightarrow> interrupt_gate_t" where
  "define_intr_descript offset priv =
     (let g1 = set_gate offset_low offset 0;
          g2 = set_gate offset_high (drop_bit 16 offset) g1;
          g3 = set_gate code_select (ucast (selector 1 SEG_TABLE_GDT (ring 0))) g2;
          g4 = set_gate gate_type INTR_DESC_TYPE_INTERRUPT g3;
          g5 = set_gate gate_size INTR_SIZE_32BIT g4;
          g6 = set_gate gate_priv_level priv g5
      in set_gate gate_present 1 g6)"

section \<open>The tables\<close>

datatype intr_handler_t = NO_HANDLER | test_handler | gen_protect_fault | double_fault_handler
  | SYSCALL_HANDLER | PAGE_FAULT_HANDLER | TIMER_HANDLER

record idt_ptr_t =
  ip_limit :: u16
  ip_base :: u32

record interrupts = devices +
  in_table :: "interrupt_gate_t list"
  in_handlers :: "intr_handler_t list"
  in_stats :: "u32 list"
  in_idtr :: idt_ptr_t
  in_idt_reg :: idt_ptr_t
  in_timer_counter :: u32
  in_timer_called :: "u32 \<Rightarrow> bool"
  in_timer_lock :: lock_t

text \<open>The address of the array \<^verbatim>\<open>intr_table\<close>.\<close>

definition intr_table :: ptr where "intr_table = 0xfd034000"

text \<open>A number outside the table is a write beyond the array.\<close>

definition register_interrupt :: "u32 \<Rightarrow> intr_handler_t \<Rightarrow> 'a interrupts_scheme \<Rightarrow> 'a interrupts_scheme option" where
  "register_interrupt num func s =
     (if unat num < length (in_handlers s) then Some (s\<lparr>in_handlers := (in_handlers s)[unat num := func]\<rparr>) else None)"

definition load_idt :: "idt_ptr_t \<Rightarrow> 'a interrupts_scheme \<Rightarrow> 'a interrupts_scheme" where
  "load_idt p s = s\<lparr>in_idt_reg := p\<rparr>"

definition init_interrupts :: "(nat \<Rightarrow> u32) \<Rightarrow> 'a interrupts_scheme \<Rightarrow> 'a interrupts_scheme option" where
  "init_interrupts stubs s = do {
     let s1 = s\<lparr>in_table := map (\<lambda>i. define_intr_descript (stubs i) (ring 0)) [0..<unat INTERRUPT_MAX],
                in_handlers := replicate (unat INTERRUPT_MAX) NO_HANDLER\<rparr>;
     let n = unat INTERRUPT_SYSCALL;
     let s2 = s1\<lparr>in_table := (in_table s1)[n := define_intr_descript (stubs n) (ring 3)]\<rparr>;
     s3 \<leftarrow> register_interrupt INTERRUPT_DEBUG test_handler s2;
     s4 \<leftarrow> register_interrupt INTERRUPT_GEN_PROTECT gen_protect_fault s3;
     s5 \<leftarrow> register_interrupt INTERRUPT_DOUBLE_FAULT double_fault_handler s4;
     s6 \<leftarrow> register_interrupt INTERRUPT_SYSCALL SYSCALL_HANDLER s5;
     let s7 = s6\<lparr>in_idtr := \<lparr>ip_limit = of_nat (8 * unat INTERRUPT_MAX - 1), ip_base = intr_table\<rparr>\<rparr>;
     Some (load_idt (in_idtr s7) s7)
   }"

definition init_cpu_interrupts :: "'a interrupts_scheme \<Rightarrow> 'a interrupts_scheme" where
  "init_cpu_interrupts s = load_idt (in_idtr s) s"

text \<open>
  The handlers are registered in three places, in this order of \<^verbatim>\<open>arch_init\<close>: \<^verbatim>\<open>init_interrupts\<close>,
  \<^verbatim>\<open>init_paging\<close> (through \<^verbatim>\<open>init_memory\<close>), and \<^verbatim>\<open>arch_init\<close> itself for the timer.
\<close>

definition arch_init_handlers :: "(nat \<Rightarrow> u32) \<Rightarrow> 'a interrupts_scheme \<Rightarrow> 'a interrupts_scheme option" where
  "arch_init_handlers stubs s = do {
     s1 \<leftarrow> init_interrupts stubs s;
     s2 \<leftarrow> register_interrupt INTERRUPT_PAGE_FAULT PAGE_FAULT_HANDLER s1;
     register_interrupt INTERRUPT_TIMER TIMER_HANDLER s2
   }"

section \<open>Dispatch\<close>

text \<open>
  \<^verbatim>\<open>timer_handler\<close>. The lock is the spin lock of the static mutex \<^verbatim>\<open>asdf\<close>, which \<^verbatim>\<open>mutex_init\<close> clears on the
  first call; \<open>yield\<close> is \<^verbatim>\<open>sched_switch_thread\<close>.
\<close>

definition timer_handler :: "yield \<Rightarrow> 'a interrupts_scheme \<Rightarrow> 'a interrupts_scheme option" where
  "timer_handler yield s = do {
     let s1 = (if in_timer_counter s = 0 then s\<lparr>in_timer_counter := 1, in_timer_lock := False\<rparr> else s);
     l \<leftarrow> lock_spinlock (in_timer_lock s1);
     let s2 = s1\<lparr>in_timer_lock := l, in_timer_counter := in_timer_counter s1 + 1\<rparr>;
     s3 \<leftarrow> (if apic_is_enabled (sg_kernel s2)
            then let cpu = apic_get_id s2
                 in if cpu < SCHED_MAX_CPUS
                    then do {
                      let s' = s2\<lparr>in_timer_called := (in_timer_called s2)(cpu := True)\<rparr>;
                      (ticks, s'') \<leftarrow> apic_timer_usec_to_ticks 10000 s';
                      Some (apic_timer_one_shot ticks s'')
                    }
                    else None
            else Some s2);
     let s4 = s3\<lparr>in_timer_lock := lock_unlock (in_timer_lock s3)\<rparr>;
     k \<leftarrow> yield (sg_kernel s4);
     Some (s4\<lparr>sg_kernel := k\<rparr>)
   }"

text \<open>The call through a handler pointer. \<^verbatim>\<open>cr2\<close> is the register the page-fault handler reads.\<close>

definition call_handler :: "yield \<Rightarrow> u32 \<Rightarrow> intr_handler_t \<Rightarrow> interrupt_frame_t \<Rightarrow> 'a interrupts_scheme
    \<Rightarrow> (interrupt_frame_t \<times> 'a interrupts_scheme) option" where
  "call_handler yield cr2 h frame s =
     (case h of
        NO_HANDLER \<Rightarrow> None
      | test_handler \<Rightarrow> Some (frame, s)
      | gen_protect_fault \<Rightarrow> None
      | double_fault_handler \<Rightarrow> None
      | SYSCALL_HANDLER \<Rightarrow> do {
          (frame', k) \<leftarrow> syscall_handler yield frame (sg_kernel s);
          Some (frame', s\<lparr>sg_kernel := k\<rparr>)
        }
      | PAGE_FAULT_HANDLER \<Rightarrow> do {
          k \<leftarrow> page_fault_handler yield (fr_error_num frame) (fr_eip frame) cr2 (sg_kernel s);
          Some (frame, s\<lparr>sg_kernel := k\<rparr>)
        }
      | TIMER_HANDLER \<Rightarrow> do {
          s' \<leftarrow> timer_handler yield s;
          Some (frame, s')
        })"

definition isr_dispatch :: "yield \<Rightarrow> u32 \<Rightarrow> interrupt_frame_t \<Rightarrow> 'a interrupts_scheme
    \<Rightarrow> (interrupt_frame_t \<times> 'a interrupts_scheme) option" where
  "isr_dispatch yield cr2 frame s = do {
     let num = unat (fr_intr_num frame);
     if num < length (in_stats s)
     then do {
       let s1 = s\<lparr>in_stats := (in_stats s)[num := in_stats s ! num + 1]\<rparr>;
       (handled, k) \<leftarrow> interrupt_callback yield (fr_intr_num frame) 0 (sg_kernel s1);
       let s2 = s1\<lparr>sg_kernel := k\<rparr>;
       if in_handlers s2 ! num \<noteq> NO_HANDLER
       then call_handler yield cr2 (in_handlers s2 ! num) frame s2
       else Some (frame, s2)
     }
     else None
   }"

definition irq_dispatch :: "yield \<Rightarrow> u32 \<Rightarrow> interrupt_frame_t \<Rightarrow> 'a interrupts_scheme
    \<Rightarrow> (interrupt_frame_t \<times> 'a interrupts_scheme) option" where
  "irq_dispatch yield cr2 frame s =
     isr_dispatch yield cr2 frame
       (if apic_is_enabled (sg_kernel s) then apic_end_of_interrupt s else clear_pic_interrupt s)"

section \<open>What the processor reads\<close>

definition gate_offset :: "interrupt_gate_t \<Rightarrow> u64" where
  "gate_offset g = bf_get 0 16 g OR push_bit 16 (bf_get 48 16 g)"

definition gate_dpl :: "interrupt_gate_t \<Rightarrow> u64" where
  "gate_dpl g = bf_get 45 2 g"

definition gate_selector :: "interrupt_gate_t \<Rightarrow> u64" where
  "gate_selector g = bf_get 16 16 g"

text \<open>Present, with the type bits of a 32-bit interrupt gate: interrupts are off in the handler.\<close>

definition gate_interrupt :: "interrupt_gate_t \<Rightarrow> bool" where
  "gate_interrupt g \<longleftrightarrow> bf_get 47 1 g = 1 \<and> bf_get 40 5 g = 14"

lemma join_16_16: "take_bit 16 v OR push_bit 16 (take_bit 16 (drop_bit 16 v)) = take_bit 32 (v :: u64)"
  using take_bit_join [of 16 v 16] by simp

lemma gate_type_bits: "bf_get 40 5 g = bf_get 40 3 g OR push_bit 3 (bf_get 43 1 g OR push_bit 1 (bf_get 44 1 g))"
  using bf_get_join [of 40 3 g 2] bf_get_join [of 43 1 g 1] by (simp add: numeral_2_eq_2)

lemma define_intr_descript_reads:
  "gate_offset (define_intr_descript offset priv) = ucast offset"
  "gate_dpl (define_intr_descript offset priv) = take_bit 2 (ucast priv)"
  "gate_selector (define_intr_descript offset priv) = 8"
  "gate_interrupt (define_intr_descript offset priv)"
  by (simp_all add: define_intr_descript_def gate_offset_def gate_dpl_def gate_selector_def gate_interrupt_def gate_type_bits
      set_gate_def Let_def bitfield drop_ucast join_16_16 take_bit_ucast_32 c4_enum ring_def selector_def)

section \<open>Properties\<close>

lemma intr_max: "unat INTERRUPT_MAX = 256"
  by (simp add: c4_enum)

text \<open>The handlers \<^verbatim>\<open>init_interrupts\<close> registers.\<close>

definition boot_handler :: "nat \<Rightarrow> intr_handler_t" where
  "boot_handler i = (if i = 1 then test_handler else if i = 8 then double_fault_handler else if i = 13 then gen_protect_fault
     else if i = 96 then SYSCALL_HANDLER else NO_HANDLER)"

lemma init_interrupts_eq:
  "\<exists>s'. init_interrupts stubs s = Some s' \<and>
     in_table s' = (map (\<lambda>i. define_intr_descript (stubs i) 0) [0..<256])[96 := define_intr_descript (stubs 96) 3] \<and>
     in_handlers s' = map boot_handler [0..<256] \<and> in_stats s' = in_stats s \<and> sg_kernel s' = sg_kernel s \<and>
     in_idt_reg s' = \<lparr>ip_limit = 2047, ip_base = intr_table\<rparr>"
proof -
  have "(replicate 256 NO_HANDLER)[1 := test_handler, 13 := gen_protect_fault, 8 := double_fault_handler, 96 := SYSCALL_HANDLER] =
      map boot_handler [0..<256]"
    by (rule nth_equalityI) (auto simp: boot_handler_def nth_list_update)
  then show ?thesis
    by (simp add: init_interrupts_def register_interrupt_def load_idt_def intr_max Let_def ring_def
        INTERRUPT_SYSCALL_def INTERRUPT_DEBUG_def INTERRUPT_GEN_PROTECT_def INTERRUPT_DOUBLE_FAULT_def)
qed

text \<open>
  C27. \<^verbatim>\<open>init_interrupts\<close> sets up all 256 gates: each leads to its own entry stub in the kernel's code segment,
  with interrupts disabled on entry, and the system call gate \<^verbatim>\<open>0x60\<close> is the only one a user program
  can invoke. The handlers registered are those of the debug exception, the general protection
  and double faults and the system call.
\<close>

theorem idt_only_syscall_is_user:
  "\<exists>s'. init_interrupts stubs s = Some s' \<and> in_idt_reg s' = \<lparr>ip_limit = 8 * 256 - 1, ip_base = intr_table\<rparr> \<and>
     map gate_offset (in_table s') = map (\<lambda>i. ucast (stubs i)) [0..<256] \<and>
     map gate_dpl (in_table s') = map (\<lambda>i. if i = 0x60 then 3 else 0) [0..<256] \<and>
     map gate_selector (in_table s') = replicate 256 8 \<and> list_all gate_interrupt (in_table s') \<and>
     in_handlers s' = map boot_handler [0..<256] \<and> sg_kernel s' = sg_kernel s"
proof -
  let ?t = "(map (\<lambda>i. define_intr_descript (stubs i) 0) [0..<256])[96 := define_intr_descript (stubs 96) 3]"
  have t: "?t = map (\<lambda>i. define_intr_descript (stubs i) (if i = 96 then 3 else 0)) [0..<256]"
    by (rule nth_equalityI) (auto simp: nth_list_update)
  have "map gate_offset (map (\<lambda>i. define_intr_descript (stubs i) (if i = 96 then 3 else 0)) xs) = map (\<lambda>i. ucast (stubs i)) xs"
    "map gate_selector (map (\<lambda>i. define_intr_descript (stubs i) (if i = 96 then 3 else 0)) xs) = replicate (length xs) 8"
    "map gate_dpl (map (\<lambda>i. define_intr_descript (stubs i) (if i = 96 then 3 else 0)) xs) = map (\<lambda>i. if i = 96 then 3 else 0) xs"
    "list_all gate_interrupt (map (\<lambda>i. define_intr_descript (stubs i) (if i = 96 then 3 else 0)) xs)" for xs :: "nat list"
    by (induction xs) (simp_all add: define_intr_descript_reads)
  from this [of "[0..<256]", folded t] show ?thesis using init_interrupts_eq [of stubs s] by auto
qed

text \<open>The handlers of the running kernel.\<close>

definition running_handler :: "nat \<Rightarrow> intr_handler_t" where
  "running_handler i = (if i = 14 then PAGE_FAULT_HANDLER else if i = 32 then TIMER_HANDLER else boot_handler i)"

lemma arch_init_handlers_eq:
  "\<exists>s'. arch_init_handlers stubs s = Some s' \<and> in_handlers s' = map running_handler [0..<256]"
proof -
  have "(map boot_handler [0..<256])[14 := PAGE_FAULT_HANDLER, 32 := TIMER_HANDLER] = map running_handler [0..<256]"
    by (rule nth_equalityI) (auto simp: running_handler_def nth_list_update)
  then show ?thesis
    using init_interrupts_eq [of stubs s]
    by (auto simp: arch_init_handlers_def register_interrupt_def INTERRUPT_PAGE_FAULT_def INTERRUPT_TIMER_def)
qed

text \<open>
  C29. \<^verbatim>\<open>isr_dispatch\<close> in the running kernel, with the handlers that \<^verbatim>\<open>arch_init\<close> has registered by the time
  interrupts are enabled. The interrupt is counted. If an endpoint listens to it, a message of type
  \<^verbatim>\<open>MESSAGE_TYPE_INTERRUPT\<close> with its number goes there first; then its handler runs. For the system call
  interrupt the result is that of \<^verbatim>\<open>syscall_dispatch\<close> for the registers of the frame, with the answer in
  \<^verbatim>\<open>eax\<close>; a page fault goes to \<^verbatim>\<open>page_fault_handler\<close> with the error, the instruction and the faulting
  address, and the timer to \<^verbatim>\<open>timer_handler\<close>; for a general protection or double fault the CPU stays in the
  handler; the debug exception and every other number return with nothing further done.
\<close>

theorem isr_dispatch_routes:
  assumes "arch_init_handlers stubs s0 = Some s1" and "in_handlers s = in_handlers s1" and "length (in_stats s) = 256"
    and "fr_intr_num frame = num" and "num < INTERRUPT_MAX"
    and "t = s\<lparr>in_stats := (in_stats s)[unat num := in_stats s ! unat num + 1]\<rparr>"
  shows "isr_dispatch yield cr2 frame s = do {
      k \<leftarrow> (if k_listening (sg_kernel s) num = NULL then Some (sg_kernel s)
           else map_option snd (message_send_async yield (k_listening (sg_kernel s) num)
             (Local (zero_message\<lparr>m_type := MESSAGE_TYPE_INTERRUPT, m_data0 := num\<rparr>)) (sg_kernel s)));
      if num = INTERRUPT_SYSCALL
      then map_option (\<lambda>(r, k'). (frame\<lparr>fr_eax := word_of_int r\<rparr>, t\<lparr>sg_kernel := k'\<rparr>))
        (syscall_dispatch yield (fr_eax frame) (fr_edi frame) (fr_esi frame) (fr_edx frame) (fr_ebx frame) k)
      else if num = INTERRUPT_PAGE_FAULT
      then map_option (\<lambda>k'. (frame, t\<lparr>sg_kernel := k'\<rparr>))
        (page_fault_handler yield (fr_error_num frame) (fr_eip frame) cr2 k)
      else if num = INTERRUPT_TIMER then map_option (\<lambda>t'. (frame, t')) (timer_handler yield (t\<lparr>sg_kernel := k\<rparr>))
      else if num \<in> {INTERRUPT_GEN_PROTECT, INTERRUPT_DOUBLE_FAULT} then None
      else Some (frame, t\<lparr>sg_kernel := k\<rparr>)
    }"
proof -
  have n: "unat num < 256" using assms(5) by (simp add: c4_enum word_less_nat_alt)
  have "in_handlers s = map running_handler [0..<256]" using arch_init_handlers_eq [of stubs s0] assms(1,2) by auto
  then have h: "in_handlers s ! unat num = running_handler (unat num)" using n by simp
  let ?cb = "if k_listening (sg_kernel s) num = NULL then Some (sg_kernel s)
           else map_option snd (message_send_async yield (k_listening (sg_kernel s) num)
             (Local (zero_message\<lparr>m_type := MESSAGE_TYPE_INTERRUPT, m_data0 := num\<rparr>)) (sg_kernel s))"
  have cb: "map_option snd (interrupt_callback yield num 0 (sg_kernel s)) = ?cb"
    using assms(5) by (auto simp: interrupt_callback_def map_conv_bind_option case_prod_beta' o_def)
  have run: "isr_dispatch yield cr2 frame s = do {
      k \<leftarrow> map_option snd (interrupt_callback yield num 0 (sg_kernel s));
      if running_handler (unat num) \<noteq> NO_HANDLER
      then call_handler yield cr2 (running_handler (unat num)) frame (t\<lparr>sg_kernel := k\<rparr>) else Some (frame, t\<lparr>sg_kernel := k\<rparr>) }"
    using n assms(3,4,6) h
    by (cases "interrupt_callback yield num 0 (sg_kernel s)") (auto simp: isr_dispatch_def Let_def)
  have u: "num = INTERRUPT_SYSCALL \<longleftrightarrow> unat num = 96" "num = INTERRUPT_GEN_PROTECT \<longleftrightarrow> unat num = 13"
    "num = INTERRUPT_DOUBLE_FAULT \<longleftrightarrow> unat num = 8" "num = INTERRUPT_PAGE_FAULT \<longleftrightarrow> unat num = 14"
    "num = INTERRUPT_TIMER \<longleftrightarrow> unat num = 32" by (simp_all add: c4_enum word_unat_eq_iff)
  have "(if running_handler (unat num) \<noteq> NO_HANDLER
      then call_handler yield cr2 (running_handler (unat num)) frame (t\<lparr>sg_kernel := k\<rparr>) else Some (frame, t\<lparr>sg_kernel := k\<rparr>)) =
     (if num = INTERRUPT_SYSCALL
      then map_option (\<lambda>(r, k'). (frame\<lparr>fr_eax := word_of_int r\<rparr>, t\<lparr>sg_kernel := k'\<rparr>))
        (syscall_dispatch yield (fr_eax frame) (fr_edi frame) (fr_esi frame) (fr_edx frame) (fr_ebx frame) k)
      else if num = INTERRUPT_PAGE_FAULT
      then map_option (\<lambda>k'. (frame, t\<lparr>sg_kernel := k'\<rparr>))
        (page_fault_handler yield (fr_error_num frame) (fr_eip frame) cr2 k)
      else if num = INTERRUPT_TIMER then map_option (\<lambda>t'. (frame, t')) (timer_handler yield (t\<lparr>sg_kernel := k\<rparr>))
      else if num \<in> {INTERRUPT_GEN_PROTECT, INTERRUPT_DOUBLE_FAULT} then None
      else Some (frame, t\<lparr>sg_kernel := k\<rparr>))" for k
    unfolding u by (auto simp: running_handler_def boot_handler_def call_handler_def syscall_handler_def u
        map_conv_bind_option o_def case_prod_beta')
  then show ?thesis unfolding run cb by (rule arg_cong [of _ _ "Option.bind ?cb", OF ext])
qed

text \<open>A machine after boot: the kernel of the previous theories, and an APIC and a PIT that are ready.\<close>

definition boot_machine :: interrupts where
  "boot_machine = \<lparr>sg_kernel = boot_kernel, sg_task_segments = [], sg_descripts = [], sg_gdt = \<lparr>gp_limit = 0, gp_base = 0\<rparr>,
     sg_gdtr = \<lparr>gp_limit = 0, gp_base = 0\<rparr>, sg_tr = 0, dv_apic_in = (\<lambda>_. 0), dv_cpuid_edx = CPUID_FEATURE_APIC,
     dv_msr_apic_base = 0xfee00000, dv_ticks_per_10ms = 1000, dv_starting_cpu = 0, in_table = [],
     in_handlers = map running_handler [0..<256], in_stats = replicate 256 0, in_idtr = \<lparr>ip_limit = 0, ip_base = 0\<rparr>,
     in_idt_reg = \<lparr>ip_limit = 0, ip_base = 0\<rparr>, in_timer_counter = 0, in_timer_called = (\<lambda>_. False), in_timer_lock = False\<rparr>"

definition null_frame :: interrupt_frame_t where
  "null_frame = \<lparr>fr_edi = 0, fr_esi = 0, fr_ebp = 0, fr_esp = 0, fr_ebx = 0, fr_edx = 0, fr_ecx = 0, fr_eax = 0,
     fr_intr_num = 0, fr_error_num = 0, fr_eip = 0\<rparr>"

text \<open>
  C29: a system call with a number outside the table answers -1, a double fault does not return, and an
  interrupt nobody listens to only counts.
\<close>

theorem isr_dispatch_routes_witness:
  "\<exists>s'. isr_dispatch Some 0 (null_frame\<lparr>fr_intr_num := 0x60, fr_eax := 1000\<rparr>) boot_machine =
      Some (null_frame\<lparr>fr_intr_num := 0x60, fr_eax := -1\<rparr>, s') \<and> sg_kernel s' = boot_kernel \<and>
    isr_dispatch Some 0 (null_frame\<lparr>fr_intr_num := 8\<rparr>) boot_machine = None \<and>
    isr_dispatch Some 0 (null_frame\<lparr>fr_intr_num := 40\<rparr>) boot_machine = Some (null_frame\<lparr>fr_intr_num := 40\<rparr>,
      boot_machine\<lparr>in_stats := (replicate 256 0)[40 := 1]\<rparr>)"
proof -
  obtain s1 where s1: "arch_init_handlers (\<lambda>_. 0) boot_machine = Some s1" "in_handlers s1 = map running_handler [0..<256]"
    using arch_init_handlers_eq by blast
  have b: "in_handlers boot_machine = in_handlers s1" "length (in_stats boot_machine) = 256" "sg_kernel boot_machine = boot_kernel"
    "in_stats boot_machine = replicate 256 0"
    unfolding s1(2) by (simp_all add: boot_machine_def)
  have l: "k_listening boot_kernel n = NULL" for n by (simp add: boot_kernel_def)
  have e: "fr_intr_num (null_frame\<lparr>fr_intr_num := 0x60, fr_eax := 1000\<rparr>) = 0x60" "fr_intr_num (null_frame\<lparr>fr_intr_num := 8\<rparr>) = 8"
    "fr_intr_num (null_frame\<lparr>fr_intr_num := 40\<rparr>) = 40"
    "(0x60 :: u32) < INTERRUPT_MAX" "(8 :: u32) < INTERRUPT_MAX" "(40 :: u32) < INTERRUPT_MAX" by (simp_all add: c4_enum)
  note d = isr_dispatch_routes [OF s1(1) b(1,2), where yield = Some and ?cr2.0 = 0, unfolded b(3) l]
  have "isr_dispatch Some 0 (null_frame\<lparr>fr_intr_num := 8\<rparr>) boot_machine = None"
    using d [OF e(2,5) refl] by (simp add: c4_enum)
  moreover have "boot_machine\<lparr>in_stats := x, sg_kernel := boot_kernel\<rparr> = boot_machine\<lparr>in_stats := x\<rparr>" for x
    using b(3) by (cases boot_machine) simp
  then have "isr_dispatch Some 0 (null_frame\<lparr>fr_intr_num := 40\<rparr>) boot_machine = Some (null_frame\<lparr>fr_intr_num := 40\<rparr>,
      boot_machine\<lparr>in_stats := (replicate 256 0)[40 := 1]\<rparr>)"
    using d [OF e(3,6) refl] by (simp add: c4_enum b(4))
  moreover have "(1000 :: u32) \<ge> SYSCALL_MAX" "(0x60 :: u32) = INTERRUPT_SYSCALL" by (simp_all add: c4_enum)
  then have "\<exists>s'. isr_dispatch Some 0 (null_frame\<lparr>fr_intr_num := 0x60, fr_eax := 1000\<rparr>) boot_machine =
      Some (null_frame\<lparr>fr_intr_num := 0x60, fr_eax := -1\<rparr>, s') \<and> sg_kernel s' = boot_kernel"
    using d [OF e(1,4) refl] by (simp add: syscall_dispatch_def)
  ultimately show ?thesis by blast
qed

text \<open>
  The timer interrupt on the bootstrap CPU with the APIC running: \<^verbatim>\<open>timer_handler\<close> arms the local timer in
  one-shot mode for 10 ms by the measured rate, releases its lock, and enters the scheduler.
\<close>

theorem timer_handler_rearms:
  assumes "in_timer_lock s = False" and "apic_is_enabled (sg_kernel s)" and "apic_get_id s < SCHED_MAX_CPUS"
    and "dv_ticks_per_10ms s = ucast (t :: u32)" and "t \<noteq> 0"
    and "k = (sg_kernel s)\<lparr>k_apic_log := k_apic_log (sg_kernel s) @
      [(APIC_REG_LOCAL_TIMER, 32), (APIC_REG_TIMER_DIV_CONF, APIC_TIMER_DIV_16), (APIC_REG_TIMER_INIT_COUNT, t)]\<rparr>"
  shows "\<exists>s'. timer_handler yield s = map_option (\<lambda>k'. s'\<lparr>sg_kernel := k'\<rparr>) (yield k) \<and> sg_kernel s' = k \<and>
    in_timer_lock s' = False \<and> in_handlers s' = in_handlers s"
proof -
  have tb: "unat t < 4294967296" by (rule unat_u32_less)
  moreover from this have "unat t < 18446744073709551616" by linarith
  ultimately have [simp]: "take_bit 64 (unat t) = unat t" "take_bit 32 (unat t) = unat t" by (simp_all add: take_bit_nat_def)
  have "unat t * 10000 < 18446744073709551616" using tb by linarith
  then have p: "unat (ucast t * 10000 :: u64) = unat t * 10000"
    by (simp add: unat_word_ariths unsigned_ucast_eq)
  have tz: "ucast t \<noteq> (0 :: u64)" using assms(5) unat_u32_less [of t] by (simp add: word_unat_eq_iff unsigned_ucast_eq)
  have q: "(ucast ((ucast t * 10000 :: u64) div 10000) :: u32) = t"
    by (simp add: word_unat_eq_iff unsigned_ucast_eq unat_div p)
  have v: "APIC_TIMER_ONE_SHOT OR timer_vector = 32" by (simp add: c4_enum)
  let ?s = "s\<lparr>in_timer_counter := (if in_timer_counter s = 0 then 2 else in_timer_counter s + 1),
    in_timer_called := (in_timer_called s)(apic_get_id s := True), in_timer_lock := False, sg_kernel := k\<rparr>"
  have "timer_handler yield s = do { k' \<leftarrow> yield k; Some (?s\<lparr>sg_kernel := k'\<rparr>) }"
    using assms(1-4) tz q v unfolding assms(6)
    by (simp add: timer_handler_def Let_def lock_spinlock_def lock_trylock_def lock_unlock_def apic_timer_usec_to_ticks_def
       apic_timer_one_shot_def apic_out_def apic_write_def apic_get_id_def apic_read_def on_kernel_def)
  then have "timer_handler yield s = map_option (\<lambda>k'. ?s\<lparr>sg_kernel := k'\<rparr>) (yield k)"
    by (cases "yield k") simp_all
  then show ?thesis by (intro exI [of _ ?s]) simp
qed

text \<open>An instance: with 1000 ticks in 10 ms and a scheduler that returns at once.\<close>

theorem timer_handler_rearms_witness:
  "\<exists>s' t. timer_handler Some (boot_machine\<lparr>sg_kernel := boot_kernel\<lparr>k_apic_enabled := True\<rparr>\<rparr>) = Some s' \<and>
     k_apic_log (sg_kernel s') = t @ [(APIC_REG_TIMER_INIT_COUNT, 1000)]"
proof -
  let ?s = "boot_machine\<lparr>sg_kernel := boot_kernel\<lparr>k_apic_enabled := True\<rparr>\<rparr>"
  have "in_timer_lock ?s = False" "apic_is_enabled (sg_kernel ?s)" "apic_get_id ?s < SCHED_MAX_CPUS" "dv_ticks_per_10ms ?s = ucast (1000 :: u32)"
    by (simp_all add: boot_machine_def apic_is_enabled_def apic_get_id_def apic_read_def c4_enum)
  from timer_handler_rearms [OF this _ refl, of Some] show ?thesis by auto
qed

end
