(* ===== verification/C4_Ioapic.thy ===== *)
theory C4_Ioapic
  imports C4_Interrupts
begin

text \<open>
  The I/O interrupt controllers (\<^verbatim>\<open>arch/x86/ioapic.c\<close>, \<^verbatim>\<open>ioapic.h\<close>).

  An I/O APIC is reached through a register window: a register is selected by a write at the device's
  address and read or written at the next one. Every access selects its register first, so the window
  itself is not kept; the registers are \<open>io_regs\<close>, by device address and register number. What a device keeps of
  a write is its own matter: \<open>io_store reg old v\<close> is the content of register \<open>reg\<close> after a write of \<open>v\<close> over \<open>old\<close>,
  and arbitrary. The redirection entry is a 64-bit word with the bit-fields of \<^verbatim>\<open>ioapic_redirect_t\<close>.
\<close>

definition MAX_IOAPICS :: u32 where [c4_enum]: "MAX_IOAPICS = 32"
definition IOAPIC_REG_VERSION :: u32 where [c4_enum]: "IOAPIC_REG_VERSION = 1"
definition IOAPIC_REG_REDIRECT :: u32 where [c4_enum]: "IOAPIC_REG_REDIRECT = 0x10"
definition IOAPIC_DELIVERY_FIXED :: u32 where [c4_enum]: "IOAPIC_DELIVERY_FIXED = 0"
definition IOAPIC_DESTINATION_PHYSICAL :: u32 where [c4_enum]: "IOAPIC_DESTINATION_PHYSICAL = 0"

record ioapics = interrupts +
  io_apics :: "ptr list"
  io_regs :: "ptr \<Rightarrow> u32 \<Rightarrow> u32"
  io_store :: "u32 \<Rightarrow> u32 \<Rightarrow> u32 \<Rightarrow> u32"

type_synonym ioapic_t = u32
type_synonym ioapic_redirect_t = u64

datatype redirect_field = rd_vector | rd_delivery | rd_destination_mode | rd_status | rd_polarity | rd_remote_irr
  | rd_trigger | rd_mask | rd_reserved | rd_destination

primrec redirect_layout :: "redirect_field \<Rightarrow> nat \<times> nat" where
  "redirect_layout rd_vector = (0, 8)"
| "redirect_layout rd_delivery = (8, 3)"
| "redirect_layout rd_destination_mode = (11, 1)"
| "redirect_layout rd_status = (12, 1)"
| "redirect_layout rd_polarity = (13, 1)"
| "redirect_layout rd_remote_irr = (14, 1)"
| "redirect_layout rd_trigger = (15, 1)"
| "redirect_layout rd_mask = (16, 1)"
| "redirect_layout rd_reserved = (17, 39)"
| "redirect_layout rd_destination = (56, 8)"

definition set_rd :: "redirect_field \<Rightarrow> u32 \<Rightarrow> ioapic_redirect_t \<Rightarrow> ioapic_redirect_t" where
  "set_rd f v r = bf_set (fst (redirect_layout f)) (snd (redirect_layout f)) (ucast v) r"

definition get_rd :: "redirect_field \<Rightarrow> ioapic_redirect_t \<Rightarrow> u64" where
  "get_rd f r = bf_get (fst (redirect_layout f)) (snd (redirect_layout f)) r"

text \<open>The two halves of the union.\<close>

definition rd_lower :: "ioapic_redirect_t \<Rightarrow> u32" where
  "rd_lower r = ucast r"

definition rd_upper :: "ioapic_redirect_t \<Rightarrow> u32" where
  "rd_upper r = ucast (drop_bit 32 r)"

definition rd_make :: "u32 \<Rightarrow> u32 \<Rightarrow> ioapic_redirect_t" where
  "rd_make lo hi = ucast lo OR push_bit 32 (ucast hi)"

section \<open>Operations\<close>

definition ioapic_read :: "ptr \<Rightarrow> u32 \<Rightarrow> 'a ioapics_scheme \<Rightarrow> u32" where
  "ioapic_read addr reg s = io_regs s addr (reg AND 0xff)"

definition ioapic_write :: "ptr \<Rightarrow> u32 \<Rightarrow> u32 \<Rightarrow> 'a ioapics_scheme \<Rightarrow> 'a ioapics_scheme" where
  "ioapic_write addr reg v s =
     (let r = reg AND 0xff
      in s\<lparr>io_regs := (io_regs s)(addr := (io_regs s addr)(r := io_store s r (io_regs s addr r) v))\<rparr>)"

definition ioapic_add :: "ptr \<Rightarrow> u32 \<Rightarrow> 'a ioapics_scheme \<Rightarrow> 'a ioapics_scheme" where
  "ioapic_add ioapic ident s =
     (if ident \<ge> MAX_IOAPICS then s
      else if io_apics s ! unat ident \<noteq> NULL then s
      else s\<lparr>io_apics := (io_apics s)[unat ident := ioapic]\<rparr>)"

definition ioapic_get :: "ioapic_t \<Rightarrow> 'a ioapics_scheme \<Rightarrow> ptr" where
  "ioapic_get ident s =
     (if ident < MAX_IOAPICS \<and> io_apics s ! unat ident \<noteq> NULL then io_apics s ! unat ident else NULL)"

definition ioapic_version_raw :: "ioapic_t \<Rightarrow> 'a ioapics_scheme \<Rightarrow> u32" where
  "ioapic_version_raw ident s =
     (let ioapic = ioapic_get ident s
      in if ioapic = NULL then 0 else ioapic_read ioapic IOAPIC_REG_VERSION s)"

definition ioapic_version :: "ioapic_t \<Rightarrow> 'a ioapics_scheme \<Rightarrow> u32" where
  "ioapic_version ident s = ioapic_version_raw ident s AND 0xff"

definition ioapic_max_redirects :: "ioapic_t \<Rightarrow> 'a ioapics_scheme \<Rightarrow> u32" where
  "ioapic_max_redirects ident s = drop_bit 16 (ioapic_version_raw ident s) AND 0xff"

definition is_valid_redirect :: "ioapic_t \<Rightarrow> u32 \<Rightarrow> 'a ioapics_scheme \<Rightarrow> bool" where
  "is_valid_redirect ident entry s =
     (if ioapic_get ident s = NULL then False else entry < ioapic_max_redirects ident s)"

text \<open>For an entry that does not exist the function returns its uninitialised local variable, \<open>junk\<close>.\<close>

definition ioapic_get_redirect :: "ioapic_redirect_t \<Rightarrow> ioapic_t \<Rightarrow> u32 \<Rightarrow> 'a ioapics_scheme \<Rightarrow> ioapic_redirect_t" where
  "ioapic_get_redirect junk ident entry s =
     (if \<not> is_valid_redirect ident entry s then junk
      else let ioapic = ioapic_get ident s; index = IOAPIC_REG_REDIRECT + entry * 2
           in rd_make (ioapic_read ioapic index s) (ioapic_read ioapic (index + 1) s))"

definition ioapic_set_redirect :: "ioapic_t \<Rightarrow> u32 \<Rightarrow> ioapic_redirect_t \<Rightarrow> 'a ioapics_scheme \<Rightarrow> 'a ioapics_scheme" where
  "ioapic_set_redirect ident entry redirect s =
     (if \<not> is_valid_redirect ident entry s then s
      else let ioapic = ioapic_get ident s; index = IOAPIC_REG_REDIRECT + entry * 2;
               s1 = ioapic_write ioapic index (rd_lower redirect) s
           in ioapic_write ioapic (index + 1) (rd_upper redirect) s1)"

definition ioapic_set_mask :: "ioapic_redirect_t \<Rightarrow> ioapic_t \<Rightarrow> u32 \<Rightarrow> bool \<Rightarrow> 'a ioapics_scheme \<Rightarrow> 'a ioapics_scheme" where
  "ioapic_set_mask junk ident entry masked s =
     (if ioapic_get ident s = NULL then s
      else let redirect = ioapic_get_redirect junk ident entry s;
               redirect1 = set_rd rd_mask (of_bool masked) redirect
           in ioapic_set_redirect ident entry redirect1 s)"

definition ioapic_unmask :: "ioapic_redirect_t \<Rightarrow> ioapic_t \<Rightarrow> u32 \<Rightarrow> 'a ioapics_scheme \<Rightarrow> 'a ioapics_scheme" where
  "ioapic_unmask junk ident entry s = ioapic_set_mask junk ident entry False s"

definition ioapic_mask :: "ioapic_redirect_t \<Rightarrow> ioapic_t \<Rightarrow> u32 \<Rightarrow> 'a ioapics_scheme \<Rightarrow> 'a ioapics_scheme" where
  "ioapic_mask junk ident entry s = ioapic_set_mask junk ident entry True s"

section \<open>Properties\<close>

lemma rd_make_halves: "rd_make (rd_lower r) (rd_upper r) = r"
  by (rule bit_eqI) (auto simp: rd_make_def rd_lower_def rd_upper_def bit_simps dest: bit_imp_le_length)

lemma rd_halves_make [simp]: "rd_lower (rd_make lo hi) = lo" "rd_upper (rd_make lo hi) = hi"
  by (rule bit_eqI; auto simp: rd_make_def rd_lower_def rd_upper_def bit_simps dest: bit_imp_le_length)+

text \<open>
  What the data sheet promises of the redirection registers: a write is kept, except for the delivery status and the
  remote interrupt request, bits 12 and 14 of the lower half, which are read-only.
\<close>

definition redirect_store :: "u32 \<Rightarrow> u32 \<Rightarrow> u32 \<Rightarrow> u32" where
  "redirect_store reg old v = (if even (unat reg) then (v AND NOT 0x5000) OR (old AND 0x5000) else v)"

definition redirects_kept :: "'a ioapics_scheme \<Rightarrow> bool" where
  "redirects_kept s \<longleftrightarrow> (\<forall>reg old v. IOAPIC_REG_REDIRECT \<le> reg \<longrightarrow> io_store s reg old v = redirect_store reg old v)"

text \<open>The register numbers of an entry within the window's 256 registers.\<close>

lemma redirect_regs:
  assumes "entry < 120"
  shows "(IOAPIC_REG_REDIRECT + entry * 2) AND 0xff = IOAPIC_REG_REDIRECT + entry * 2"
    "(IOAPIC_REG_REDIRECT + entry * 2 + 1) AND 0xff = IOAPIC_REG_REDIRECT + entry * 2 + 1"
    "unat (IOAPIC_REG_REDIRECT + entry * 2) = 16 + 2 * unat entry"
    "unat (IOAPIC_REG_REDIRECT + entry * 2 + 1) = 17 + 2 * unat entry"
proof -
  have e: "unat entry < 120" using assms by (simp add: word_less_nat_alt)
  have m: "unat (entry * 2) = 2 * unat entry" using e by (subst unat_mult_u32) auto
  show a: "unat (IOAPIC_REG_REDIRECT + entry * 2) = 16 + 2 * unat entry"
    using e m by (subst unat_add_u32) (auto simp: c4_enum)
  show b: "unat (IOAPIC_REG_REDIRECT + entry * 2 + 1) = 17 + 2 * unat entry"
    using e a by (subst unat_add_u32) auto
  have mask: "x AND 0xff = x" if "unat x < 256" for x :: u32
  proof -
    have "x AND 0xff = take_bit 8 x" by (simp add: take_bit_eq_mask mask_eq_exp_minus_1)
    also have "\<dots> = x" using that by (simp add: word_unat_eq_iff unsigned_take_bit_eq take_bit_nat_def)
    finally show ?thesis .
  qed
  show "(IOAPIC_REG_REDIRECT + entry * 2) AND 0xff = IOAPIC_REG_REDIRECT + entry * 2" using a e by (intro mask) simp
  show "(IOAPIC_REG_REDIRECT + entry * 2 + 1) AND 0xff = IOAPIC_REG_REDIRECT + entry * 2 + 1" using b e by (intro mask) simp
qed

text \<open>A write over an entry with the same read-only bits is kept as it is.\<close>

lemma redirect_store_same:
  assumes "even (unat reg)" and "bit v 12 = bit old 12" and "bit v 14 = bit old 14"
  shows "redirect_store reg old v = v"
proof -
  obtain w :: u32 where w: "w = 0x5000" "\<And>n. bit w n \<longleftrightarrow> n = 12 \<or> n = 14"
  proof
    show "(push_bit 12 1 OR push_bit 14 1 :: u32) = 0x5000" by simp
    show "bit (push_bit 12 1 OR push_bit 14 1 :: u32) n \<longleftrightarrow> n = 12 \<or> n = 14" for n
      by (simp only: bit_or_iff bit_push_bit_iff) (auto simp: bit_1_iff)
  qed
  have "(v AND NOT w) OR (old AND w) = v"
    using assms(2,3) by (intro bit_word_eqI) (auto simp: bit_or_iff bit_and_iff bit_not_iff w(2))
  then show ?thesis using assms(1) by (simp add: redirect_store_def w(1))
qed

lemma set_redirect_get:
  assumes "redirects_kept s" and "is_valid_redirect ident entry s" and "entry < 120"
    and "bit r 12 = bit (ioapic_get_redirect j ident entry s) 12"
    and "bit r 14 = bit (ioapic_get_redirect j ident entry s) 14"
    and "s' = ioapic_set_redirect ident entry r s"
  shows "ioapic_get_redirect junk ident entry s' = r \<and> io_apics s' = io_apics s \<and> io_store s' = io_store s \<and>
    (\<forall>a reg. a \<noteq> ioapic_get ident s \<or> (reg \<noteq> IOAPIC_REG_REDIRECT + entry * 2 \<and> reg \<noteq> IOAPIC_REG_REDIRECT + entry * 2 + 1)
        \<longrightarrow> io_regs s' a reg = io_regs s a reg) \<and> s'\<lparr>io_regs := io_regs s\<rparr> = s"
proof -
  define a i where "a = ioapic_get ident s" and "i = IOAPIC_REG_REDIRECT + entry * 2"
  note regs = redirect_regs [OF assms(3), folded i_def]
  have i1: "i \<noteq> i + 1" "i \<noteq> 1" "i + 1 \<noteq> 1" "even (unat i)" "odd (unat (i + 1))"
    using regs by (auto simp: word_unat_eq_iff)
  have ge: "IOAPIC_REG_REDIRECT \<le> i" "IOAPIC_REG_REDIRECT \<le> i + 1"
    using regs by (auto simp: word_le_nat_alt c4_enum)
  have rd: "ioapic_get_redirect j ident entry s = rd_make (io_regs s a i) (io_regs s a (i + 1))"
    using assms(2) regs by (simp add: ioapic_get_redirect_def ioapic_read_def a_def i_def Let_def)
  have bits: "bit (rd_lower r) n = bit (io_regs s a i) n" if "n = 12 \<or> n = 14" for n
    using that assms(4,5) by (auto simp: rd rd_lower_def rd_make_def bit_simps)
  have lo: "redirect_store i (io_regs s a i) (rd_lower r) = rd_lower r"
    using bits by (intro redirect_store_same) (auto simp: i1)
  have hi: "redirect_store (i + 1) old (rd_upper r) = rd_upper r" for old
    using i1 by (simp add: redirect_store_def)
  have s': "s' = s\<lparr>io_regs := (io_regs s)(a := (io_regs s a)(i := rd_lower r, i + 1 := rd_upper r))\<rparr>"
    using assms(1,2,6) regs ge i1 lo hi
    by (simp add: ioapic_set_redirect_def ioapic_write_def Let_def redirects_kept_def flip: a_def i_def)
  have same: "ioapic_get ident s' = a" "ioapic_max_redirects ident s' = ioapic_max_redirects ident s"
    using i1 by (auto simp: s' ioapic_get_def a_def ioapic_max_redirects_def ioapic_version_raw_def ioapic_read_def
        IOAPIC_REG_VERSION_def Let_def)
  then have "is_valid_redirect ident entry s'"
    using assms(2) by (auto simp: is_valid_redirect_def a_def split: if_splits)
  then have "ioapic_get_redirect junk ident entry s' = rd_make (io_regs s' a i) (io_regs s' a (i + 1))"
    using regs same by (simp add: ioapic_get_redirect_def ioapic_read_def Let_def flip: i_def)
  then have "ioapic_get_redirect junk ident entry s' = r"
    using i1 by (simp add: s' rd_make_halves)
  then show ?thesis unfolding a_def [symmetric] i_def [symmetric] by (auto simp: s')
qed

lemma bit_set_rd: "bit (set_rd f v r) n \<longleftrightarrow> n < 64 \<and>
    (if fst (redirect_layout f) \<le> n \<and> n < fst (redirect_layout f) + snd (redirect_layout f)
     then bit (ucast v :: u64) (n - fst (redirect_layout f)) else bit r n)"
  by (simp add: set_rd_def bit_bf_set)

text \<open>
  C32. \<^verbatim>\<open>ioapic_set_mask\<close> on an entry that exists changes its mask bit and nothing else: the entry reads back as it was with
  the new mask, every other register of this and of all other controllers is as before. On an entry or a
  controller that does not exist it does nothing.
\<close>

theorem ioapic_set_mask_exact:
  assumes "redirects_kept s" and "entry < 120" and "s' = ioapic_set_mask junk ident entry masked s"
  shows "if is_valid_redirect ident entry s
    then ioapic_get_redirect junk' ident entry s' =
           set_rd rd_mask (of_bool masked) (ioapic_get_redirect junk ident entry s) \<and>
         (\<forall>a reg. a \<noteq> ioapic_get ident s \<or> (reg \<noteq> IOAPIC_REG_REDIRECT + entry * 2 \<and> reg \<noteq> IOAPIC_REG_REDIRECT + entry * 2 + 1)
            \<longrightarrow> io_regs s' a reg = io_regs s a reg) \<and> s'\<lparr>io_regs := io_regs s\<rparr> = s
    else s' = s"
proof (cases "is_valid_redirect ident entry s")
  case True
  let ?r = "set_rd rd_mask (of_bool masked) (ioapic_get_redirect junk ident entry s)"
  have "s' = ioapic_set_redirect ident entry ?r s"
    using True assms(3) by (simp add: ioapic_set_mask_def is_valid_redirect_def Let_def split: if_splits)
  from set_redirect_get [OF assms(1) True assms(2) _ _ this, of junk junk'] True show ?thesis
    by (simp add: bit_set_rd)
next
  case False
  then show ?thesis
    using assms(3) by (simp add: ioapic_set_mask_def ioapic_set_redirect_def Let_def)
qed

text \<open>One controller with 24 entries, all of them masked, behind the data sheet's registers.\<close>

definition boot_ioapics :: ioapics where
  "boot_ioapics = interrupts.extend boot_machine
     \<lparr>io_apics = (replicate 32 NULL)[0 := 0xff000000],
      io_regs = (\<lambda>_ reg. if reg = 1 then 0x170011 else if even (unat reg) then 0x10000 else 0), io_store = redirect_store\<rparr>"

lemma boot_ioapics_valid: "is_valid_redirect 0 2 boot_ioapics" "redirects_kept boot_ioapics" "ioapic_get 0 boot_ioapics = 0xff000000"
  by (simp_all add: is_valid_redirect_def ioapic_get_def ioapic_max_redirects_def ioapic_version_raw_def ioapic_read_def
      boot_ioapics_def interrupts.defs redirects_kept_def c4_enum Let_def)

text \<open>C32: unmasking entry 2 of a controller.\<close>

theorem ioapic_set_mask_exact_witness:
  "ioapic_get_redirect 0 0 2 (ioapic_unmask 0 0 2 boot_ioapics) = 0"
proof -
  have "ioapic_get_redirect 0 0 2 (ioapic_set_mask 0 0 2 False boot_ioapics) =
      set_rd rd_mask (of_bool False) (ioapic_get_redirect 0 0 2 boot_ioapics)"
    using ioapic_set_mask_exact [OF boot_ioapics_valid(2) _ refl, of 2 0 0 0 False] boot_ioapics_valid(1) by simp
  also have "ioapic_get_redirect 0 0 2 boot_ioapics = 0x10000"
    using boot_ioapics_valid
    by (simp add: ioapic_get_redirect_def ioapic_read_def rd_make_def Let_def)
       (simp add: boot_ioapics_def interrupts.defs c4_enum)
  also have "set_rd rd_mask (of_bool False) 0x10000 = 0" by code_simp
  finally show ?thesis by (simp add: ioapic_unmask_def)
qed

end
