(* ===== verification/C4_Klib.thy ===== *)
theory C4_Klib
  imports C4_Prelude
begin

text \<open>
  The freestanding library: memory and string functions (\<^verbatim>\<open>src/klib/string.c\<close>), number and format
  output (\<^verbatim>\<open>src/debug.c\<close>), the search for a BIOS signature (\<^verbatim>\<open>arch/x86/bios.c\<close>) and the early heap
  (\<^verbatim>\<open>arch/x86/earlyheap.c\<close>).

  Memory is a function from addresses to bytes; addresses wrap. Loops over a length are recursions on
  the remaining count, in the order of the code, so that overlapping copies behave as in C. A loop
  that only a byte in memory ends is a partial function.
\<close>

type_synonym memory = "ptr \<Rightarrow> u8"

section \<open>Memory and strings\<close>

text \<open>The loop of \<^verbatim>\<open>memcpy\<close> from index \<open>i\<close> on.\<close>

primrec memcpy_loop :: "nat \<Rightarrow> ptr \<Rightarrow> ptr \<Rightarrow> nat \<Rightarrow> memory \<Rightarrow> memory" where
  "memcpy_loop 0 to from i m = m"
| "memcpy_loop (Suc r) to from i m =
     memcpy_loop r to from (Suc i) (m(to + of_nat i := m (from + of_nat i)))"

definition memcpy :: "ptr \<Rightarrow> ptr \<Rightarrow> u32 \<Rightarrow> memory \<Rightarrow> ptr \<times> memory" where
  "memcpy dest src n m = (dest, memcpy_loop (unat n) dest src 0 m)"

primrec memset_loop :: "nat \<Rightarrow> ptr \<Rightarrow> u8 \<Rightarrow> nat \<Rightarrow> memory \<Rightarrow> memory" where
  "memset_loop 0 s c i m = m"
| "memset_loop (Suc r) s c i m = memset_loop r s c (Suc i) (m(s + of_nat i := c))"

definition memset :: "ptr \<Rightarrow> u32 \<Rightarrow> u32 \<Rightarrow> memory \<Rightarrow> ptr \<times> memory" where
  "memset s c n m = (s, memset_loop (unat n) s (ucast c) 0 m)"

partial_function (option) strlen_from :: "ptr \<Rightarrow> u32 \<Rightarrow> memory \<Rightarrow> u32 option" where [code]:
  "strlen_from s i m = (if m (s + i) \<noteq> 0 then strlen_from s (i + 1) m else Some i)"

definition strlen :: "ptr \<Rightarrow> memory \<Rightarrow> u32 option" where
  "strlen s m = strlen_from s 0 m"

text \<open>The loop of \<^verbatim>\<open>strncpy\<close>: at most \<open>r\<close> more characters.\<close>

primrec strncpy_loop :: "nat \<Rightarrow> ptr \<Rightarrow> ptr \<Rightarrow> nat \<Rightarrow> memory \<Rightarrow> nat \<times> memory" where
  "strncpy_loop 0 dest src i m = (i, m)"
| "strncpy_loop (Suc r) dest src i m =
     (if m (src + of_nat i) \<noteq> 0
      then strncpy_loop r dest src (Suc i) (m(dest + of_nat i := m (src + of_nat i)))
      else (i, m))"

definition strncpy :: "ptr \<Rightarrow> ptr \<Rightarrow> u32 \<Rightarrow> memory \<Rightarrow> ptr \<times> memory" where
  "strncpy dest src n m =
     (let (i, m1) = strncpy_loop (unat (n - 1)) dest src 0 m
      in (dest, m1(dest + of_nat i := 0)))"

text \<open>
  Functions that only read take the bytes behind a pointer: \<open>at m p\<close> are those of a memory from \<open>p\<close> on, \<open>lit\<close> those of
  a string literal, and \<open>bytes\<close> those of an array.
\<close>

definition at :: "memory \<Rightarrow> ptr \<Rightarrow> u32 \<Rightarrow> u8" where
  "at m p i = m (p + i)"

definition bytes :: "u8 list \<Rightarrow> u32 \<Rightarrow> u8" where
  "bytes bs i = (if unat i < length bs then bs ! unat i else 0)"

definition lit :: "string \<Rightarrow> u32 \<Rightarrow> u8" where
  "lit str = bytes (map of_char str)"

text \<open>The loop of \<^verbatim>\<open>strncmp\<close>: its condition tests the first characters of both strings, whatever the index.\<close>

primrec strncmp_loop :: "nat \<Rightarrow> (u32 \<Rightarrow> u8) \<Rightarrow> (u32 \<Rightarrow> u8) \<Rightarrow> nat \<Rightarrow> int" where
  "strncmp_loop 0 s1 s2 i = 0"
| "strncmp_loop (Suc r) s1 s2 i =
     (if s1 0 \<noteq> 0 \<and> s2 0 \<noteq> 0
      then let a = s1 (of_nat i); b = s2 (of_nat i)
           in if a = b then strncmp_loop r s1 s2 (Suc i)
              else if sint a < sint b then -1 else 1
      else 0)"

definition strncmp :: "(u32 \<Rightarrow> u8) \<Rightarrow> (u32 \<Rightarrow> u8) \<Rightarrow> u32 \<Rightarrow> int" where
  "strncmp s1 s2 n = strncmp_loop (unat n) s1 s2 0"

section \<open>Searching the BIOS\<close>

primrec asdf_loop :: "nat \<Rightarrow> (u32 \<Rightarrow> u8) \<Rightarrow> (u32 \<Rightarrow> u8) \<Rightarrow> nat \<Rightarrow> bool" where
  "asdf_loop 0 a b n = True"
| "asdf_loop (Suc r) a b n = (if a (of_nat n) \<noteq> b (of_nat n) then False else asdf_loop r a b (Suc n))"

definition asdf :: "(u32 \<Rightarrow> u8) \<Rightarrow> (u32 \<Rightarrow> u8) \<Rightarrow> u32 \<Rightarrow> bool" where
  "asdf a b sz = asdf_loop (unat sz) a b 0"

text \<open>
  The loop of \<^verbatim>\<open>find_bios_key\<close> with \<open>r\<close> positions left: \<open>n\<close> bytes have \<open>n - 3\<close> positions, none when \<open>n\<close> is
  below 4. The wrap-around of \<open>i + 3\<close> needs \<open>i\<close> near \<open>2^32\<close>, which \<open>n\<close> does not reach.
\<close>

primrec find_bios_loop :: "nat \<Rightarrow> (u32 \<Rightarrow> u8) \<Rightarrow> ptr \<Rightarrow> nat \<Rightarrow> memory \<Rightarrow> ptr" where
  "find_bios_loop 0 s p i m = NULL"
| "find_bios_loop (Suc r) s p i m =
     (if asdf s (at m (p + of_nat i)) 4 then p + of_nat i else find_bios_loop r s p (Suc i) m)"

definition find_bios_key :: "(u32 \<Rightarrow> u8) \<Rightarrow> ptr \<Rightarrow> u32 \<Rightarrow> memory \<Rightarrow> ptr" where
  "find_bios_key s mem n m = find_bios_loop (unat n - 3) s mem 0 m"

section \<open>The early heap\<close>

text \<open>\<^verbatim>\<open>heap_ptr\<close> is the static variable of \<^verbatim>\<open>kealloc\<close>, which starts at the end of the kernel image.\<close>

definition kealloc :: "u32 \<Rightarrow> ptr \<Rightarrow> ptr \<times> ptr" where
  "kealloc sz heap_ptr = (heap_ptr, heap_ptr + (sz + (8 - sz mod 8)))"

section \<open>Formatted output\<close>

definition hexadecimal :: string where "hexadecimal = ''0123456789abcdef''"
definition decimal :: string where "decimal = ''0123456789''"
definition binary :: string where "binary = ''01''"

text \<open>
  The loop of \<^verbatim>\<open>debug_print_num\<close> with \<open>r\<close> places of \<^verbatim>\<open>stack\<close> left; \<open>st\<close> holds the digits stored so far, the last
  one first, which is the order they are printed in. Storing beyond the buffer is \<open>None\<close>.
\<close>

primrec digit_loop :: "nat \<Rightarrow> u32 \<Rightarrow> string \<Rightarrow> string \<Rightarrow> string option" where
  "digit_loop 0 n base_str st = (if n = 0 then Some st else None)"
| "digit_loop (Suc r) n base_str st =
     (if n = 0 then Some st
      else digit_loop r (n div of_nat (length base_str)) base_str (base_str ! (unat (n mod of_nat (length base_str))) # st))"

definition debug_print_num :: "u32 \<Rightarrow> string \<Rightarrow> string option" where
  "debug_print_num n base_str =
     (if n = 0 \<or> length base_str = 0 then Some ''0'' else digit_loop 33 n base_str [])"

text \<open>The arguments of \<^verbatim>\<open>debug_printf\<close>: words, and the characters of a string up to its terminator.\<close>

datatype va_arg = Word_arg u32 | String_arg string

text \<open>
  What \<^verbatim>\<open>debug_printf\<close> prints for a format (the characters before its terminator) and its arguments. An
  argument that is missing or of the wrong type, and a \<^verbatim>\<open>%\<close> at the end, after which the code reads beyond
  the terminator, are undefined: \<open>None\<close>.
\<close>

fun print_arg :: "char \<Rightarrow> va_arg \<Rightarrow> string option" where
  "print_arg d (String_arg t) = (if d = CHR ''s'' then Some t else None)"
| "print_arg d (Word_arg v) =
     (if d = CHR ''u'' then debug_print_num v decimal
      else if d = CHR ''x'' then debug_print_num v hexadecimal
      else if d = CHR ''b'' then debug_print_num v binary
      else if d = CHR ''p'' then map_option ((@) ''0x'') (debug_print_num v hexadecimal)
      else None)"

fun debug_printf :: "string \<Rightarrow> va_arg list \<Rightarrow> string option" where
  "debug_printf [] args = Some []"
| "debug_printf [c] args = (if c = CHR ''%'' then None else Some [c])"
| "debug_printf (c # d # cs) args =
     (if c \<noteq> CHR ''%'' then map_option ((#) c) (debug_printf (d # cs) args)
      else if d \<notin> set ''suxbp'' then debug_printf cs args
      else case args of
          [] \<Rightarrow> None
        | a # as \<Rightarrow> do { t \<leftarrow> print_arg d a; rest \<leftarrow> debug_printf cs as; Some (t @ rest) })"

section \<open>Properties\<close>

text \<open>The bytes of the destination are written in order, each from the source byte of its index.\<close>

lemma of_nat_u32_inject: "i < 4294967296 \<Longrightarrow> j < 4294967296 \<Longrightarrow> (of_nat i :: u32) = of_nat j \<longleftrightarrow> i = j"
  by (metis unat_of_nat_u32)

lemma interval_Suc:
  "(\<forall>j. i \<le> j \<and> j < i + Suc r \<longrightarrow> P j) \<longleftrightarrow> P i \<and> (\<forall>j. Suc i \<le> j \<and> j < Suc i + r \<longrightarrow> P j)"
  by (auto simp: Suc_le_eq) (metis le_eq_less_or_eq)

lemma memcpy_loop_spec:
  assumes "i + r \<le> 4294967296"
    and "\<And>j l. i \<le> j \<Longrightarrow> j < l \<Longrightarrow> l < i + r \<Longrightarrow> to + of_nat j \<noteq> from + of_nat l"
  shows "(\<forall>j. i \<le> j \<and> j < i + r \<longrightarrow> memcpy_loop r to from i m (to + of_nat j) = m (from + of_nat j)) \<and>
         (\<forall>a. (\<forall>j. i \<le> j \<and> j < i + r \<longrightarrow> a \<noteq> to + of_nat j) \<longrightarrow> memcpy_loop r to from i m a = m a)"
  using assms
proof (induction r arbitrary: i m)
  case 0
  then show ?case by auto
next
  case (Suc r)
  let ?m = "m(to + of_nat i := m (from + of_nat i))"
  have IH: "(\<forall>j. Suc i \<le> j \<and> j < Suc i + r \<longrightarrow> memcpy_loop r to from (Suc i) ?m (to + of_nat j) = ?m (from + of_nat j)) \<and>
         (\<forall>a. (\<forall>j. Suc i \<le> j \<and> j < Suc i + r \<longrightarrow> a \<noteq> to + of_nat j) \<longrightarrow> memcpy_loop r to from (Suc i) ?m a = ?m a)"
    by (rule Suc.IH) (use Suc.prems in auto)
  have first: "memcpy_loop r to from (Suc i) ?m (to + of_nat i) = m (from + of_nat i)"
  proof -
    have "\<forall>j. Suc i \<le> j \<and> j < Suc i + r \<longrightarrow> to + of_nat i \<noteq> to + of_nat j"
      using Suc.prems(1) by (auto simp: of_nat_u32_inject)
    then show ?thesis using IH by simp
  qed
  have later: "?m (from + of_nat j) = m (from + of_nat j)" if "Suc i \<le> j" "j < Suc i + r" for j
    using Suc.prems(2) [of i j] that by simp
  show ?case
    unfolding interval_Suc memcpy_loop.simps using IH first later by simp
qed

lemma strncpy_loop_spec:
  assumes "i + r \<le> 4294967296"
    and "\<And>j l. i \<le> j \<Longrightarrow> j < l \<Longrightarrow> l \<le> i + r \<Longrightarrow> dest + of_nat j \<noteq> src + of_nat l"
    and "strncpy_loop r dest src i m = (i', m')"
  shows "i \<le> i' \<and> i' \<le> i + r \<and> (\<forall>j. i \<le> j \<and> j < i' \<longrightarrow> m' (dest + of_nat j) = m (src + of_nat j) \<and> m (src + of_nat j) \<noteq> 0) \<and>
         (i' < i + r \<longrightarrow> m (src + of_nat i') = 0) \<and>
         (\<forall>a. (\<forall>j. i \<le> j \<and> j < i' \<longrightarrow> a \<noteq> dest + of_nat j) \<longrightarrow> m' a = m a)"
  using assms
proof (induction r arbitrary: i m)
  case 0
  then show ?case by auto
next
  case (Suc r)
  show ?case
  proof (cases "m (src + of_nat i) = 0")
    case True
    then show ?thesis using Suc.prems(3) by auto
  next
    case False
    let ?m = "m(dest + of_nat i := m (src + of_nat i))"
    have IH: "Suc i \<le> i' \<and> i' \<le> Suc i + r \<and>
       (\<forall>j. Suc i \<le> j \<and> j < i' \<longrightarrow> m' (dest + of_nat j) = ?m (src + of_nat j) \<and> ?m (src + of_nat j) \<noteq> 0) \<and>
       (i' < Suc i + r \<longrightarrow> ?m (src + of_nat i') = 0) \<and>
       (\<forall>a. (\<forall>j. Suc i \<le> j \<and> j < i' \<longrightarrow> a \<noteq> dest + of_nat j) \<longrightarrow> m' a = ?m a)"
      by (rule Suc.IH) (use Suc.prems False in \<open>auto simp del: fun_upd_apply\<close>)
    have first: "m' (dest + of_nat i) = m (src + of_nat i)"
    proof -
      have "\<forall>j. Suc i \<le> j \<and> j < i' \<longrightarrow> dest + of_nat i \<noteq> dest + of_nat j"
        using Suc.prems(1) IH by (auto simp: of_nat_u32_inject)
      then show ?thesis using IH by simp
    qed
    have later: "?m (src + of_nat j) = m (src + of_nat j)" if "Suc i \<le> j" "j \<le> Suc i + r" for j
      using Suc.prems(2) [of i j] that by simp
    have copied: "m' (dest + of_nat j) = m (src + of_nat j) \<and> m (src + of_nat j) \<noteq> 0" if "i \<le> j" "j < i'" for j
      using that IH first later [of j] False by (cases "j = i") auto
    have end_zero: "m (src + of_nat i') = 0" if "i' < i + Suc r"
      using that IH later [of i'] by simp
    have frame: "m' a = m a" if a: "\<And>j. i \<le> j \<Longrightarrow> j < i' \<Longrightarrow> a \<noteq> dest + of_nat j" for a
      using IH a by simp
    show ?thesis using IH copied end_zero frame by simp
  qed
qed

text \<open>
  \<^verbatim>\<open>strncpy\<close> into a buffer of \<open>n > 0\<close> bytes that does not overlap its source writes a terminated string: a prefix
  of the source without zero bytes, cut at its terminator or after \<open>n - 1\<close> characters, and then a zero byte
  inside the buffer. No byte outside the buffer changes.
\<close>

theorem strncpy_terminates:
  assumes "n \<noteq> 0" and "\<And>j l. j < unat n \<Longrightarrow> l < unat n \<Longrightarrow> dest + of_nat j \<noteq> src + of_nat l"
    and "strncpy dest src n m = (r, m')"
  shows "r = dest \<and>
    (\<exists>i < unat n. m' (dest + of_nat i) = 0 \<and>
      (\<forall>j < i. m' (dest + of_nat j) = m (src + of_nat j) \<and> m (src + of_nat j) \<noteq> 0) \<and>
      (i < unat n - 1 \<longrightarrow> m (src + of_nat i) = 0)) \<and>
    (\<forall>a. (\<forall>j < unat n. a \<noteq> dest + of_nat j) \<longrightarrow> m' a = m a)"
proof -
  have n1: "unat (n - 1) = unat n - 1" using assms(1) by (simp add: unat_minus_one)
  have pos: "0 < unat n" using assms(1) by (simp add: unat_gt_0)
  obtain i m1 where loop: "strncpy_loop (unat n - 1) dest src 0 m = (i, m1)" by fastforce
  have m': "m' = m1(dest + of_nat i := 0)" "r = dest"
    using assms(3) loop n1 by (auto simp: strncpy_def)
  have spec: "i \<le> unat n - 1 \<and> (\<forall>j. j < i \<longrightarrow> m1 (dest + of_nat j) = m (src + of_nat j) \<and> m (src + of_nat j) \<noteq> 0) \<and>
      (i < unat n - 1 \<longrightarrow> m (src + of_nat i) = 0) \<and> (\<forall>a. (\<forall>j. j < i \<longrightarrow> a \<noteq> dest + of_nat j) \<longrightarrow> m1 a = m a)"
  proof -
    have "unat n - 1 \<le> 4294967296" using unat_u32_less [of n] by linarith
    moreover have "dest + of_nat j \<noteq> src + of_nat l" if "j < l" "l \<le> unat n - 1" for j l
      using assms(2) [of j l] that pos by simp
    ultimately show ?thesis using strncpy_loop_spec [OF _ _ loop] by simp
  qed
  have inj: "dest + of_nat j \<noteq> dest + of_nat i" if "j < i" for j
  proof -
    have "i < 4294967296" using spec unat_u32_less [of n] by linarith
    then show ?thesis using that by (simp add: of_nat_u32_inject)
  qed
  have "i < unat n" using spec pos by linarith
  moreover have "m' a = m a" if "\<forall>j < unat n. a \<noteq> dest + of_nat j" for a
    using that spec m'(1) \<open>i < unat n\<close> by simp
  ultimately show ?thesis
    using spec m' inj by (intro conjI exI [of _ i]) auto
qed

text \<open>
  An instance on a buffer of three bytes at 16 and the string of the bytes 97, 98, 99, 100 at 32: the buffer receives
  97, 98 and the terminator.
\<close>

lemma strncpy_terminates_witness:
  "\<exists>(m :: memory) m'. strncpy 16 32 3 m = (16, m') \<and> m' 16 = 97 \<and> m' 17 = 98 \<and> m' 18 = 0 \<and> m' 19 = m 19"
proof -
  define m :: memory where "m = (\<lambda>a. 0)(32 := 97, 33 := 98, 34 := 99, 35 := 100)"
  obtain m' where m': "strncpy 16 32 3 m = (16, m')" "m' 16 = 97" "m' 17 = 98" "m' 18 = 0"
  proof -
    have "strncpy_loop (Suc (Suc 0)) 16 32 0 m = (2, m(16 := 97, 17 := 98))" by (simp add: m_def)
    moreover have "unat (3 - 1 :: u32) = Suc (Suc 0)" by simp
    ultimately show ?thesis using that [of "m(16 := 97, 17 := 98, 18 := 0)"]
      unfolding strncpy_def by (simp only: Let_def prod.case) (simp add: m_def)
  qed
  have three: "unat (3 :: u32) = Suc (Suc (Suc 0))" by simp
  have "(16 :: u32) + of_nat j \<noteq> 32 + of_nat l" if "j < unat (3 :: u32)" "l < unat (3 :: u32)" for j l :: nat
    using that unfolding three by (auto simp: less_Suc_eq)
  then have "\<forall>a. (\<forall>j < unat (3 :: u32). a \<noteq> 16 + of_nat j) \<longrightarrow> m' a = m a"
    using strncpy_terminates [OF _ _ m'(1)] by simp
  moreover have "\<forall>j < unat (3 :: u32). (19 :: u32) \<noteq> 16 + of_nat j"
    unfolding three by (auto simp: less_Suc_eq)
  ultimately have "m' 19 = m 19" by blast
  with m' show ?thesis by blast
qed

text \<open>
  \<^verbatim>\<open>strncmp\<close> looks for the end of a string only at its first byte, so the empty string compares as equal to every
  string.
\<close>

lemma strncmp_empty: "s1 0 = 0 \<or> s2 0 = 0 \<Longrightarrow> strncmp s1 s2 n = 0"
  by (cases "unat n") (auto simp: strncmp_def)

text \<open>On two strings that are not empty it returns 0 only when all \<open>n\<close> bytes agree, terminators or not.\<close>

lemma strncmp_loop_zero:
  "s1 0 \<noteq> 0 \<Longrightarrow> s2 0 \<noteq> 0 \<Longrightarrow>
    strncmp_loop r s1 s2 i = 0 \<longleftrightarrow> (\<forall>j. i \<le> j \<and> j < i + r \<longrightarrow> s1 (of_nat j) = s2 (of_nat j))"
proof (induction r arbitrary: i)
  case 0
  then show ?case by auto
next
  case (Suc r)
  then show ?case unfolding interval_Suc by (auto simp: Let_def)
qed

text \<open>The search returns the first position at which the four bytes of the key stand.\<close>

lemma asdf_loop_iff: "asdf_loop r a b n \<longleftrightarrow> (\<forall>j. n \<le> j \<and> j < n + r \<longrightarrow> a (of_nat j) = b (of_nat j))"
proof (induction r arbitrary: n)
  case 0
  then show ?case by auto
next
  case (Suc r)
  then show ?case unfolding interval_Suc by auto
qed

lemma find_bios_loop_first:
  "(find_bios_loop r s p i m = NULL \<and> (\<forall>j. i \<le> j \<and> j < i + r \<longrightarrow> \<not> asdf s (at m (p + of_nat j)) 4)) \<or>
   (\<exists>j. i \<le> j \<and> j < i + r \<and> find_bios_loop r s p i m = p + of_nat j \<and> asdf s (at m (p + of_nat j)) 4 \<and>
      (\<forall>l. i \<le> l \<and> l < j \<longrightarrow> \<not> asdf s (at m (p + of_nat l)) 4))"
proof (induction r arbitrary: i)
  case 0
  then show ?case by auto
next
  case (Suc r)
  show ?case
  proof (cases "asdf s (at m (p + of_nat i)) 4")
    case True
    then show ?thesis by (intro disjI2 exI [of _ i]) auto
  next
    case False
    then have step: "find_bios_loop (Suc r) s p i m = find_bios_loop r s p (Suc i) m" by simp
    have skip: "(\<forall>l. i \<le> l \<and> l < j \<longrightarrow> \<not> asdf s (at m (p + of_nat l)) 4) \<longleftrightarrow> (\<forall>l. Suc i \<le> l \<and> l < j \<longrightarrow> \<not> asdf s (at m (p + of_nat l)) 4)" for j
      using False by (metis Suc_leD Suc_le_eq le_neq_implies_less)
    show ?thesis using Suc [of "Suc i"] unfolding step skip by (metis Suc_leD add_Suc_shift)
  qed
qed

text \<open>Two allocations from the early heap do not overlap, and the second one is aligned as the first.\<close>

lemma kealloc_advances:
  assumes "unat h + unat sz + 8 < 4294967296" and "kealloc sz h = (p, h')"
  shows "p = h \<and> unat p + unat sz < unat h' \<and> unat h' mod 8 = unat h mod 8"
proof -
  have m: "unat (sz mod 8) = unat sz mod 8" by (simp add: unat_mod)
  have "unat (8 - sz mod 8) = 8 - unat sz mod 8"
    using m by (subst unat_sub) (simp_all add: word_le_nat_alt)
  moreover have "unat (sz + (8 - sz mod 8)) = unat sz + (8 - unat sz mod 8)"
    using calculation assms(1) by (subst unat_add_u32) auto
  ultimately have "unat h' = unat h + (unat sz + (8 - unat sz mod 8))"
    using assms by (auto simp: kealloc_def unat_add_u32)
  moreover have "b + (8 - b mod 8) = 8 * (b div 8 + 1)" for b :: nat
  proof -
    have "q * 8 + r + (8 - r) = 8 * (q + 1)" if "r < 8" for q r :: nat using that by simp
    from this [of "b mod 8" "b div 8"] show ?thesis by (simp add: div_mult_mod_eq)
  qed
  then have "(unat h + (unat sz + (8 - unat sz mod 8))) mod 8 = unat h mod 8"
    by (metis mod_mult_self2)
  moreover have "0 < 8 - unat sz mod 8" by simp
  ultimately show ?thesis
    using assms(2) by (simp add: kealloc_def)
qed

text \<open>Reading a numeral: the value of its digits in a base given by the characters of its digits.\<close>

fun index_of :: "char \<Rightarrow> string \<Rightarrow> nat" where
  "index_of c [] = 0"
| "index_of c (d # ds) = (if c = d then 0 else Suc (index_of c ds))"

definition read_num :: "string \<Rightarrow> string \<Rightarrow> nat" where
  "read_num base_str ds = foldl (\<lambda>v c. v * length base_str + index_of c base_str) 0 ds"

lemma index_of_nth: "distinct bs \<Longrightarrow> i < length bs \<Longrightarrow> index_of (bs ! i) bs = i"
  by (induction bs arbitrary: i) (auto simp: nth_Cons split: nat.splits)

lemma foldl_read_num:
  "foldl (\<lambda>v c. v * b + f c) a ds = a * b ^ length ds + foldl (\<lambda>v c. v * b + f c) 0 ds" for a b :: nat
proof (induction ds arbitrary: a)
  case (Cons d ds)
  show ?case using Cons [of "a * b + f d"] Cons [of "f d"] by (simp add: algebra_simps)
qed simp

lemma digit_loop_value:
  assumes "distinct bs" and "2 \<le> length bs" and "length bs < 4294967296" and "unat n < 2 ^ r"
  shows "\<exists>ds. digit_loop r n bs st = Some (ds @ st) \<and> read_num bs ds = unat n \<and> length ds \<le> r \<and>
           set ds \<subseteq> set bs \<and> (n \<noteq> 0 \<longrightarrow> ds \<noteq> [])"
  using assms(4)
proof (induction r arbitrary: n st)
  case 0
  then show ?case by (auto simp: read_num_def unat_eq_0)
next
  case (Suc r)
  show ?case
  proof (cases "n = 0")
    case True
    then show ?thesis by (auto simp: read_num_def)
  next
    case False
    let ?b = "length bs" and ?n = "n div of_nat (length bs)"
    have q: "unat ?n = unat n div ?b" and r: "unat (n mod of_nat ?b) = unat n mod ?b"
      using assms(3) by (simp_all add: unat_div unat_mod unat_of_nat_u32)
    have "unat n div ?b \<le> unat n div 2" by (rule div_le_mono2) (use assms(2) in auto)
    then have "unat ?n < 2 ^ r" using Suc.prems q by (simp add: div_less_iff_less_mult)
    let ?d = "bs ! (unat n mod ?b)"
    from Suc.IH [OF \<open>unat ?n < 2 ^ r\<close>, of "?d # st"] obtain ds where
      ds: "digit_loop r ?n bs (?d # st) = Some (ds @ ?d # st)" "read_num bs ds = unat ?n" "length ds \<le> r" "set ds \<subseteq> set bs"
      by auto
    have lt: "unat n mod ?b < ?b" using assms(2) by (intro mod_less_divisor) linarith
    have "read_num bs (ds @ [?d]) = unat n"
      using ds(2) q by (simp add: read_num_def index_of_nth [OF assms(1) lt])
    moreover have "?d \<in> set bs" using lt by simp
    ultimately show ?thesis using False ds r by (intro exI [of _ "ds @ [?d]"]) auto
  qed
qed

text \<open>
  C34. \<^verbatim>\<open>debug_print_num\<close> prints every 32-bit number in every base from 2 on without running over its buffer, and what it
  prints reads back as the number.
\<close>

theorem debug_print_num_roundtrip:
  assumes "distinct base_str" and "2 \<le> length base_str"
  shows "\<exists>ds. debug_print_num n base_str = Some ds \<and> (n \<noteq> 0 \<longrightarrow> read_num base_str ds = unat n \<and> set ds \<subseteq> set base_str) \<and>
           ds \<noteq> [] \<and> length ds \<le> 33"
proof (cases "n = 0")
  case True
  then show ?thesis by (simp add: debug_print_num_def)
next
  case False
  have "length base_str = card (set base_str)" using assms(1) by (simp add: distinct_card)
  also have "\<dots> \<le> card (UNIV :: char set)" by (intro card_mono) auto
  also have "\<dots> < 4294967296" by (simp add: card_UNIV_char)
  finally have "length base_str < 4294967296" .
  moreover have "unat n < 2 ^ 33" using unat_u32_less [of n] by (simp del: unat_u32_less)
  ultimately show ?thesis
    using digit_loop_value [OF assms, of n 33 "[]"] False assms(2)
    by (auto simp: debug_print_num_def)
qed

text \<open>C34 for the number 48879 in hexadecimal.\<close>

lemma debug_print_num_roundtrip_witness:
  "debug_print_num 48879 hexadecimal = Some ''beef'' \<and> read_num hexadecimal ''beef'' = 48879"
proof -
  have d: "distinct hexadecimal" "2 \<le> length hexadecimal" by (simp_all add: hexadecimal_def)
  have p: "debug_print_num 48879 hexadecimal = Some ''beef''" by code_simp
  show ?thesis using debug_print_num_roundtrip [OF d, of 48879] p by simp
qed

end
