(* ===== verification/C4_Mp.thy ===== *)
theory C4_Mp
  imports C4_Ioapic C4_Klib
begin

text \<open>
  The multiprocessor tables (\<^verbatim>\<open>arch/x86/mp.c\<close>, \<^verbatim>\<open>mp.h\<close>): the walk over the entries the BIOS left in memory, which
  registers buses and I/O APICs, routes the I/O interrupts and starts the other processors.

  The tables are bytes of \<open>mp_mem\<close>, the memory by virtual address, and the fields of the packed structures are read at
  their offsets. The array \<^verbatim>\<open>buses\<close> is \<open>mp_buses\<close>; an access beyond it is \<open>None\<close>. What the other processors do while
  this one waits is the parameter \<open>others\<close>, applied at every wait. All local APICs have the same address, so an
  access through \<^verbatim>\<open>lapic\<close> is one to the APIC of the CPU; diagnostic output is left out.
\<close>

definition MP_MAX_BUSES :: u32 where [c4_enum]: "MP_MAX_BUSES = 32"
definition BUS_TYPE_UNKNOWN :: u32 where [c4_enum]: "BUS_TYPE_UNKNOWN = 0"
definition BUS_TYPE_ISA :: u32 where [c4_enum]: "BUS_TYPE_ISA = 1"
definition BUS_TYPE_PCI :: u32 where [c4_enum]: "BUS_TYPE_PCI = 2"
definition MP_TYPE_CPU :: u8 where [c4_enum]: "MP_TYPE_CPU = 0"
definition MP_TYPE_BUS :: u8 where [c4_enum]: "MP_TYPE_BUS = 1"
definition MP_TYPE_IOAPIC :: u8 where [c4_enum]: "MP_TYPE_IOAPIC = 2"
definition MP_TYPE_INTERRUPT :: u8 where [c4_enum]: "MP_TYPE_INTERRUPT = 3"
definition MP_TYPE_INTERRUPT_A :: u8 where [c4_enum]: "MP_TYPE_INTERRUPT_A = 4"
definition MP_CPU_FLAG_BOOTSTRAPPER :: u8 where [c4_enum]: "MP_CPU_FLAG_BOOTSTRAPPER = 2"
definition BIOS_RESET_VECTOR :: u32 where [c4_enum]: "BIOS_RESET_VECTOR = 0x467"

text \<open>\<^verbatim>\<open>sizeof(mp_config_t)\<close>, and the offsets in the packed structures.\<close>

definition sizeof_mp_config_t :: u32 where "sizeof_mp_config_t = 44"

record mp_bus_t =
  bus_ty :: u8
  bus_id :: u8
  bus_str :: "u8 list"

record mp = ioapics +
  mp_mem :: memory
  mp_buses :: "mp_bus_t list"
  mp_cpu_count :: u32

section \<open>Little-endian access\<close>

definition load16 :: "memory \<Rightarrow> ptr \<Rightarrow> u32" where
  "load16 m p = ucast (m p) OR push_bit 8 (ucast (m (p + 1)))"

definition load32 :: "memory \<Rightarrow> ptr \<Rightarrow> u32" where
  "load32 m p = load16 m p OR push_bit 16 (load16 m (p + 2))"

definition store32 :: "ptr \<Rightarrow> u32 \<Rightarrow> memory \<Rightarrow> memory" where
  "store32 p v m = m(p := ucast v, p + 1 := ucast (drop_bit 8 v), p + 2 := ucast (drop_bit 16 v), p + 3 := ucast (drop_bit 24 v))"

section \<open>Buses\<close>

definition load_bus :: "memory \<Rightarrow> ptr \<Rightarrow> mp_bus_t" where
  "load_bus m p = \<lparr>bus_ty = m p, bus_id = m (p + 1), bus_str = map (\<lambda>i. m (p + 2 + of_nat i)) [0..<6]\<rparr>"

definition bus_register :: "mp_bus_t \<Rightarrow> 'a mp_scheme \<Rightarrow> 'a mp_scheme" where
  "bus_register bus s =
     (if ucast (bus_id bus) \<ge> MP_MAX_BUSES then s
      else s\<lparr>mp_buses := (mp_buses s)[unat (bus_id bus) := bus]\<rparr>)"

text \<open>Both branches of \<^verbatim>\<open>bus_get_by_id\<close> return the same pointer, which for a large number is beyond the array.\<close>

definition bus_get_by_id :: "u32 \<Rightarrow> 'a mp_scheme \<Rightarrow> mp_bus_t option" where
  "bus_get_by_id ident s = (if ident < MP_MAX_BUSES then Some (mp_buses s ! unat ident) else None)"

definition bus_type :: "u32 \<Rightarrow> 'a mp_scheme \<Rightarrow> u32 option" where
  "bus_type ident s = do {
     bus \<leftarrow> bus_get_by_id ident s;
     if strncmp (bytes (bus_str bus)) (lit ''ISA'') 3 = 0 then Some BUS_TYPE_ISA
     else if strncmp (bytes (bus_str bus)) (lit ''PCI'') 3 = 0 then Some BUS_TYPE_PCI
     else Some BUS_TYPE_UNKNOWN
   }"

definition bus_default_polarity :: "u32 \<Rightarrow> bool \<Rightarrow> 'a mp_scheme \<Rightarrow> bool option" where
  "bus_default_polarity ident level_triggered s = do {
     ty \<leftarrow> bus_type ident s;
     if ty = BUS_TYPE_ISA then Some (\<not> level_triggered)
     else if ty = BUS_TYPE_PCI then Some False
     else Some True
   }"

definition bus_default_trigger :: "u32 \<Rightarrow> 'a mp_scheme \<Rightarrow> bool option" where
  "bus_default_trigger ident s = do {
     ty \<leftarrow> bus_type ident s;
     if ty = BUS_TYPE_ISA then Some False
     else if ty = BUS_TYPE_PCI then Some True
     else Some True
   }"

section \<open>Processors\<close>

definition wait_10ms :: "('a mp_scheme \<Rightarrow> 'a mp_scheme) \<Rightarrow> u32 \<Rightarrow> 'a mp_scheme \<Rightarrow> 'a mp_scheme option" where
  "wait_10ms others time s = map_option others (pit_wait_poll (ucast time) s)"

definition set_reset_vector :: "u32 \<Rightarrow> 'a mp_scheme \<Rightarrow> 'a mp_scheme" where
  "set_reset_vector v s = s\<lparr>mp_mem := store32 (low_phys_to_virt BIOS_RESET_VECTOR) v (mp_mem s)\<rparr>"

definition send_ipi :: "u32 \<Rightarrow> u32 \<Rightarrow> 'a mp_scheme \<Rightarrow> 'a mp_scheme" where
  "send_ipi ty lapic_id s = on_kernel (apic_send_ipi ty lapic_id) s"

definition mp_boot_cpu :: "('a mp_scheme \<Rightarrow> 'a mp_scheme) \<Rightarrow> ptr \<Rightarrow> ptr \<Rightarrow> u32 \<Rightarrow> 'a mp_scheme \<Rightarrow> 'a mp_scheme option" where
  "mp_boot_cpu others lapic cpu cpu_num s = do {
     let flags = mp_mem s (cpu + 3);
     if flags AND MP_CPU_FLAG_BOOTSTRAPPER \<noteq> 0
     then Some (on_kernel (cpu_register cpu_num) s)
     else do {
       let bootaddr = 0xa000;
       let s1 = cmos_write CMOS_REG_RESET CMOS_RESET_JUMP s;
       let s2 = set_reset_vector (push_bit 12 (bootaddr AND 0xff000)) s1;
       let s3 = send_ipi (APIC_ICR_LEVEL OR APIC_ICR_LEVEL_ASSERT OR APIC_IPI_INIT) (ucast (mp_mem s2 (cpu + 1))) s2;
       s4 \<leftarrow> wait_10ms others PIT_WAIT_10MS s3;
       let s5 = send_ipi (APIC_ICR_LEVEL OR APIC_IPI_INIT) (ucast (mp_mem s4 (cpu + 1))) s4;
       s6 \<leftarrow> wait_10ms others PIT_WAIT_10MS s5;
       let start = APIC_IPI_START OR (drop_bit 12 bootaddr AND 0xff);
       let s7 = send_ipi start (ucast (mp_mem s6 (cpu + 1))) s6;
       s8 \<leftarrow> wait_10ms others (PIT_WAIT_10MS * 3) s7;
       s9 \<leftarrow> (if \<not> cpu_is_booted cpu_num (sg_kernel s8)
              then wait_10ms others PIT_WAIT_10MS (send_ipi start (ucast (mp_mem s8 (cpu + 1))) s8)
              else Some s8);
       let s10 = cmos_write CMOS_REG_RESET CMOS_RESET_POWERON s9;
       Some (set_reset_vector (push_bit 12 (bootaddr AND 0xff000)) s10)
     }
   }"

definition mp_handle_cpu :: "('a mp_scheme \<Rightarrow> 'a mp_scheme) \<Rightarrow> ptr \<Rightarrow> ptr \<Rightarrow> 'a mp_scheme \<Rightarrow> 'a mp_scheme option" where
  "mp_handle_cpu others lapic entry s =
     mp_boot_cpu others lapic entry (mp_cpu_count s) (s\<lparr>mp_cpu_count := mp_cpu_count s + 1\<rparr>)"

section \<open>Buses, controllers and interrupts\<close>

definition mp_handle_bus :: "ptr \<Rightarrow> ptr \<Rightarrow> 'a mp_scheme \<Rightarrow> 'a mp_scheme" where
  "mp_handle_bus lapic bus s = bus_register (load_bus (mp_mem s) bus) s"

definition mp_handle_ioapic :: "ptr \<Rightarrow> ptr \<Rightarrow> 'a mp_scheme \<Rightarrow> 'a mp_scheme" where
  "mp_handle_ioapic lapic ioapic s =
     ioapic_add (io_phys_to_virt (load32 (mp_mem s) (ioapic + 4))) (ucast (mp_mem s (ioapic + 1))) s"

text \<open>The entry the code writes for an interrupt: the fields it assigns, in its order.\<close>

definition irq_redirect :: "u32 \<Rightarrow> bool \<Rightarrow> bool \<Rightarrow> ioapic_redirect_t \<Rightarrow> ioapic_redirect_t" where
  "irq_redirect intin active_high level_triggered r =
     (let r1 = set_rd rd_vector (intin + 32) r;
          r2 = set_rd rd_delivery IOAPIC_DELIVERY_FIXED r1;
          r3 = set_rd rd_destination_mode IOAPIC_DESTINATION_PHYSICAL r2;
          r4 = set_rd rd_polarity (of_bool (\<not> active_high)) r3;
          r5 = set_rd rd_trigger (of_bool level_triggered) r4;
          r6 = set_rd rd_mask (of_bool False) r5;
          r7 = set_rd rd_reserved 0 r6
      in set_rd rd_destination 0 r7)"

definition mp_handle_io_interrupt :: "ioapic_redirect_t \<Rightarrow> ptr \<Rightarrow> ptr \<Rightarrow> 'a mp_scheme \<Rightarrow> 'a mp_scheme option" where
  "mp_handle_io_interrupt junk lapic intr s = do {
     let int_type = (ucast (mp_mem s (intr + 1)) :: u32);
     let source_bus_id = (ucast (mp_mem s (intr + 4)) :: u32);
     let dest_apic_id = (ucast (mp_mem s (intr + 6)) :: u32);
     let dest_apic_intin = (ucast (mp_mem s (intr + 7)) :: u32);
     ty \<leftarrow> bus_type source_bus_id s;
     if ty = BUS_TYPE_UNKNOWN then Some s
     else do {
       let destination = (if dest_apic_id = 0xff then 0 else dest_apic_id);
       let redirect = ioapic_get_redirect junk destination dest_apic_intin s;
       let trigger_bits = drop_bit 2 int_type AND 3;
       let polarity_bits = int_type AND 3;
       level_triggered \<leftarrow> (if trigger_bits \<noteq> 0 then Some (trigger_bits = 3) else bus_default_trigger source_bus_id s);
       active_high \<leftarrow> (if polarity_bits \<noteq> 0 then Some (polarity_bits = 1)
                       else bus_default_polarity source_bus_id level_triggered s);
       if get_rd rd_mask redirect = 0 then Some s
       else Some (ioapic_set_redirect destination dest_apic_intin
              (irq_redirect dest_apic_intin active_high level_triggered redirect) s)
     }
   }"

text \<open>\<^verbatim>\<open>mp_handle_interrupt\<close> only prints the entry.\<close>

definition mp_handle_interrupt :: "ptr \<Rightarrow> ptr \<Rightarrow> 'a mp_scheme \<Rightarrow> 'a mp_scheme" where
  "mp_handle_interrupt lapic intr s = s"

section \<open>The tables\<close>

definition mp_find :: "'a mp_scheme \<Rightarrow> ptr" where
  "mp_find s = find_bios_key (lit ''_MP_'') (low_phys_to_virt 0xf0000) (1024 * 64) (mp_mem s)"

text \<open>The switch in the loop of \<^verbatim>\<open>mp_enumerate\<close>.\<close>

definition mp_entry :: "('a mp_scheme \<Rightarrow> 'a mp_scheme) \<Rightarrow> ioapic_redirect_t \<Rightarrow> ptr \<Rightarrow> ptr \<Rightarrow> 'a mp_scheme \<Rightarrow> 'a mp_scheme option" where
  "mp_entry others junk lapic entry s =
     (let ty = mp_mem s entry
      in if ty = MP_TYPE_CPU then mp_handle_cpu others lapic entry s
         else if ty = MP_TYPE_BUS then Some (mp_handle_bus lapic entry s)
         else if ty = MP_TYPE_IOAPIC then Some (mp_handle_ioapic lapic entry s)
         else if ty = MP_TYPE_INTERRUPT then mp_handle_io_interrupt junk lapic entry s
         else if ty = MP_TYPE_INTERRUPT_A then Some (mp_handle_interrupt lapic entry s)
         else Some s)"

text \<open>
  The loop with \<open>r\<close> rounds of fuel. The count is read again in every round; it is a 16-bit number, so 65536 rounds
  are enough whatever the memory holds.
\<close>

primrec mp_entries_loop :: "nat \<Rightarrow> ('a mp_scheme \<Rightarrow> 'a mp_scheme) \<Rightarrow> ioapic_redirect_t \<Rightarrow> ptr \<Rightarrow> ptr \<Rightarrow> u32 \<Rightarrow> ptr
    \<Rightarrow> 'a mp_scheme \<Rightarrow> 'a mp_scheme option" where
  "mp_entries_loop 0 others junk lapic config i entry s = None"
| "mp_entries_loop (Suc r) others junk lapic config i entry s =
     (if i < load16 (mp_mem s) (config + 34)
      then do {
        let is_cpu = (mp_mem s entry = 0);
        s' \<leftarrow> mp_entry others junk lapic entry s;
        mp_entries_loop r others junk lapic config (i + 1) (entry + (if is_cpu then 20 else 8)) s'
      }
      else Some s)"

definition mp_enumerate :: "('a mp_scheme \<Rightarrow> 'a mp_scheme) \<Rightarrow> ioapic_redirect_t \<Rightarrow> ptr \<Rightarrow> 'a mp_scheme \<Rightarrow> 'a mp_scheme option" where
  "mp_enumerate others junk mp s =
     (if mp = NULL then Some s
      else if \<not> apic_supported s then Some s
      else let config = low_phys_to_virt (load32 (mp_mem s) (mp + 4));
               lapic = io_phys_to_virt (load32 (mp_mem s) (config + 36))
           in mp_entries_loop 65536 others junk lapic config 0 (config + sizeof_mp_config_t) s)"

section \<open>Routing\<close>

text \<open>
  Only a registered bus has a name. The entry of a bus that was never registered is all zero, and by
  \<^verbatim>\<open>strncmp_empty\<close> its name compares as equal to \<^verbatim>\<open>"ISA"\<close>.
\<close>

lemma bus_type_range: "ident < MP_MAX_BUSES \<Longrightarrow> \<exists>ty. bus_type ident s = Some ty"
  by (simp add: bus_type_def bus_get_by_id_def)

text \<open>
  A bus that the tables do not mention is an ISA bus to \<^verbatim>\<open>bus_type\<close>, not one of unknown type, and a number beyond
  the array is not caught: the code reads outside it.
\<close>

theorem unregistered_bus_is_isa:
  assumes "ident < MP_MAX_BUSES" and "bus_str (mp_buses s ! unat ident) = replicate 6 0" and "other \<ge> MP_MAX_BUSES"
  shows "bus_type ident s = Some BUS_TYPE_ISA \<and> bus_default_trigger ident s = Some False \<and> bus_type other s = None"
  using assms strncmp_empty [of "bytes (replicate 6 0)" "lit ''ISA''" 3]
  by (auto simp: bus_type_def bus_get_by_id_def bus_default_trigger_def bytes_def)

text \<open>A machine with one controller and no buses registered yet.\<close>

definition boot_mp :: mp where
  "boot_mp = ioapics.extend boot_ioapics
     \<lparr>mp_mem = (\<lambda>_. 0), mp_buses = replicate 32 \<lparr>bus_ty = 0, bus_id = 0, bus_str = replicate 6 0\<rparr>, mp_cpu_count = 0\<rparr>"

text \<open>An instance on a machine on which no bus is registered, for bus 7 and bus 32.\<close>

theorem unregistered_bus_is_isa_witness:
  "bus_type 7 boot_mp = Some BUS_TYPE_ISA \<and> bus_type 32 boot_mp = None"
  using unregistered_bus_is_isa [of 7 boot_mp 32] by (simp add: boot_mp_def ioapics.defs c4_enum)

lemma irq_redirect_fields:
  fixes r intin active_high level defines "q \<equiv> irq_redirect intin active_high level r"
  shows "get_rd rd_vector q = take_bit 8 (ucast (intin + 32))" "get_rd rd_delivery q = 0" "get_rd rd_destination_mode q = 0"
    "get_rd rd_polarity q = of_bool (\<not> active_high)" "get_rd rd_trigger q = of_bool level" "get_rd rd_mask q = 0"
    "get_rd rd_destination q = 0" "bit q 12 = bit r 12" "bit q 14 = bit r 14"
  unfolding q_def irq_redirect_def Let_def get_rd_def set_rd_def
  by (simp_all add: bitfield c4_enum bit_bf_set)

text \<open>
  C31. An I/O interrupt entry of the tables for an existing pin of a controller (controller 0, if the entry says
  \<^verbatim>\<open>0xff\<close> for all of them) and a bus of known type. If the pin is
  still masked, it is routed: \<^verbatim>\<open>mp_handle_io_interrupt\<close> makes it raise vector 32 plus the number of the pin at CPU 0,
  unmasked. Trigger and polarity come from the entry's second byte where its bits 2-3 and 0-1 are not zero (3 is
  level, 1 is active high), and else from the bus: ISA is edge-triggered and PCI level-triggered, and without a
  polarity of its own a PCI line is active low and an ISA line active high exactly if it is edge-triggered. A pin
  that is already routed is left as it is. (The second byte of an entry is its interrupt type; the MP
  specification has the flags in the two bytes after it.)
\<close>

theorem mp_io_interrupt_routes:
  assumes "redirects_kept s" and "is_valid_redirect apic pin s" and "pin < 120" and "apic = (if d = 0xff then 0 else d)"
    and "ucast (mp_mem s (e + 1)) = it" and "ucast (mp_mem s (e + 4)) = src" and "ucast (mp_mem s (e + 6)) = d"
    and "ucast (mp_mem s (e + 7)) = pin" and "bus_type src s = Some ty" and "ty \<in> {BUS_TYPE_ISA, BUS_TYPE_PCI}"
    and "r = ioapic_get_redirect junk apic pin s"
    and "level = (if drop_bit 2 it AND 3 \<noteq> 0 then drop_bit 2 it AND 3 = (3 :: u32) else ty = BUS_TYPE_PCI)"
    and "high = (if it AND 3 \<noteq> 0 then it AND 3 = (1 :: u32) else ty = BUS_TYPE_ISA \<and> \<not> level)"
  shows "\<exists>s'. mp_handle_io_interrupt junk lapic e s = Some s' \<and>
    (if get_rd rd_mask r = 0 then s' = s
     else let q = ioapic_get_redirect junk apic pin s'
          in get_rd rd_vector q = 32 + ucast pin \<and> get_rd rd_mask q = 0 \<and> get_rd rd_destination q = 0 \<and>
             get_rd rd_delivery q = 0 \<and> get_rd rd_trigger q = of_bool level \<and> get_rd rd_polarity q = of_bool (\<not> high))"
proof -
  have ne: "ty \<noteq> BUS_TYPE_UNKNOWN" "BUS_TYPE_PCI \<noteq> BUS_TYPE_ISA" using assms(10) by (auto simp: c4_enum)
  have bt: "bus_default_trigger src s = Some (ty = BUS_TYPE_PCI)"
    "bus_default_polarity src l s = Some (ty = BUS_TYPE_ISA \<and> \<not> l)" for l
    using assms(9,10) ne by (auto simp: bus_default_trigger_def bus_default_polarity_def)
  have run: "mp_handle_io_interrupt junk lapic e s =
      Some (if get_rd rd_mask r = 0 then s else ioapic_set_redirect apic pin (irq_redirect pin high level r) s)"
    using assms(4,9,11) ne(1) unfolding assms(12,13)
    by (simp add: mp_handle_io_interrupt_def Let_def assms(5-8) bt)
  define q where "q = irq_redirect pin high level r"
  define s' where "s' = ioapic_set_redirect apic pin q s"
  have "ioapic_get_redirect junk apic pin s' = q"
    using set_redirect_get [OF assms(1-3) _ _ s'_def] irq_redirect_fields(8,9) [of pin high level r]
    by (auto simp: q_def assms(11))
  moreover have "take_bit 8 (ucast (pin + 32) :: u64) = 32 + ucast pin"
  proof -
    have p: "unat pin < 120" using assms(3) by (simp add: word_less_nat_alt)
    then have "unat (pin + 32) = unat pin + 32" by (subst unat_add_u32) auto
    then have "unat (ucast (pin + 32) :: u64) = unat pin + 32" using p
      by (simp add: unsigned_ucast_eq take_bit_nat_eq_self)
    moreover have "unat (32 + ucast pin :: u64) = 32 + unat pin"
      using p by (subst unat_add_lem [THEN iffD1]) (auto simp: unsigned_ucast_eq take_bit_nat_eq_self)
    ultimately show ?thesis using p by (simp add: word_unat_eq_iff unsigned_take_bit_eq take_bit_nat_eq_self)
  qed
  ultimately show ?thesis
    using run irq_redirect_fields [of pin high level r]
    by (cases "get_rd rd_mask r = 0") (simp_all add: q_def s'_def Let_def)
qed

text \<open>A table entry for pin 2 of controller 0 and an interrupt of bus 1, a PCI bus.\<close>

definition pci_mp :: mp where
  "pci_mp = boot_mp\<lparr>mp_mem := (\<lambda>_. 0)(0x1000 := 3, 0x1004 := 1, 0x1007 := 2),
     mp_buses := (mp_buses boot_mp)[1 := \<lparr>bus_ty = 1, bus_id = 1, bus_str = map of_char ''PCI   ''\<rparr>]\<rparr>"

text \<open>C31 for that entry, and for the same entry with type byte 13: level-triggered, active high.\<close>

theorem mp_io_interrupt_routes_witness:
  "\<exists>s' q s'' q'. mp_handle_io_interrupt 0 0 0x1000 pci_mp = Some s' \<and> q = ioapic_get_redirect 0 0 2 s' \<and>
     get_rd rd_vector q = 34 \<and> get_rd rd_trigger q = 1 \<and> get_rd rd_polarity q = 1 \<and> get_rd rd_mask q = 0 \<and>
     mp_handle_io_interrupt 0 0 0x1000 (pci_mp\<lparr>mp_mem := (mp_mem pci_mp)(0x1001 := 13)\<rparr>) = Some s'' \<and>
     q' = ioapic_get_redirect 0 0 2 s'' \<and> get_rd rd_trigger q' = 1 \<and> get_rd rd_polarity q' = 0"
proof -
  have str: "strncmp (bytes (map of_char ''PCI   '')) (lit ''ISA'') 3 = 1" "strncmp (bytes (map of_char ''PCI   '')) (lit ''PCI'') 3 = 0"
    by code_simp+
  have route: "\<exists>s'. mp_handle_io_interrupt 0 0 0x1000 s = Some s' \<and>
      (let q = ioapic_get_redirect 0 0 2 s' in get_rd rd_vector q = 34 \<and> get_rd rd_mask q = 0 \<and>
        get_rd rd_trigger q = of_bool (if drop_bit 2 it AND 3 \<noteq> 0 then drop_bit 2 it AND 3 = (3 :: u32) else True) \<and>
        get_rd rd_polarity q = of_bool (\<not> (if it AND 3 \<noteq> 0 then it AND 3 = (1 :: u32) else False)))"
    if s: "s = pci_mp\<lparr>mp_mem := (mp_mem pci_mp)(0x1001 := b)\<rparr>" and b: "ucast b = it" for s b it
  proof -
    have ty: "bus_type 1 s = Some BUS_TYPE_PCI"
      using str by (simp add: s bus_type_def bus_get_by_id_def MP_MAX_BUSES_def pci_mp_def boot_mp_def ioapics.defs)
    have mem: "ucast (mp_mem s (0x1000 + 1)) = it" "(ucast (mp_mem s (0x1000 + 4)) :: u32) = 1"
      "(ucast (mp_mem s (0x1000 + 6)) :: u32) = 0" "(ucast (mp_mem s (0x1000 + 7)) :: u32) = 2"
      using b by (simp_all add: s pci_mp_def)
    have io: "io_apics s = io_apics boot_ioapics" "io_regs s = io_regs boot_ioapics" "io_store s = io_store boot_ioapics"
      by (simp_all add: s pci_mp_def boot_mp_def ioapics.defs)
    have get: "ioapic_get i s = ioapic_get i boot_ioapics" for i by (simp add: ioapic_get_def io)
    have "ioapic_max_redirects i s = ioapic_max_redirects i boot_ioapics" for i
      by (simp add: ioapic_max_redirects_def ioapic_version_raw_def ioapic_read_def get io Let_def)
    then have valid: "is_valid_redirect 0 2 s" and kept: "redirects_kept s"
      using boot_ioapics_valid by (simp_all add: is_valid_redirect_def redirects_kept_def get io)
    have "ioapic_get_redirect 0 0 2 s = 0x10000"
      using valid boot_ioapics_valid(3)
      by (simp add: ioapic_get_redirect_def ioapic_read_def rd_make_def Let_def get io)
         (simp add: boot_ioapics_def interrupts.defs c4_enum)
    moreover have "get_rd rd_mask 0x10000 \<noteq> 0" by code_simp
    ultimately have m: "get_rd rd_mask (ioapic_get_redirect 0 0 2 s) \<noteq> 0" by simp
    have pi: "BUS_TYPE_PCI \<in> {BUS_TYPE_ISA, BUS_TYPE_PCI}" "BUS_TYPE_PCI \<noteq> BUS_TYPE_ISA" by (simp_all add: c4_enum)
    have d: "(0 :: u32) = (if (0 :: u32) = 0xff then 0 else 0)" by simp
    from mp_io_interrupt_routes [OF kept valid _ d mem ty pi(1) refl refl refl, of 0 0] m show ?thesis
      using pi(2) by (auto simp: Let_def)
  qed
  have same: "pci_mp = pci_mp\<lparr>mp_mem := (mp_mem pci_mp)(0x1001 := 0)\<rparr>"
    by (simp add: pci_mp_def fun_upd_twist fun_upd_idem)
  from route [OF same, of 0] obtain s' where s': "mp_handle_io_interrupt 0 0 0x1000 pci_mp = Some s'"
    "let q = ioapic_get_redirect 0 0 2 s' in get_rd rd_vector q = 34 \<and> get_rd rd_mask q = 0 \<and>
       get_rd rd_trigger q = 1 \<and> get_rd rd_polarity q = 1" by (auto simp: Let_def)
  have it: "drop_bit 2 (13 :: u32) AND 3 = 3" "(13 :: u32) AND 3 = 1" by (simp_all add: drop_bit_eq_div)
  from route [OF refl, of 13 13] obtain s'' where
    "mp_handle_io_interrupt 0 0 0x1000 (pci_mp\<lparr>mp_mem := (mp_mem pci_mp)(0x1001 := 13)\<rparr>) = Some s''"
    "let q = ioapic_get_redirect 0 0 2 s'' in get_rd rd_trigger q = 1 \<and> get_rd rd_polarity q = 0"
    unfolding it by (auto simp: Let_def)
  with s' show ?thesis by (auto simp: Let_def)
qed

section \<open>The walk ends\<close>

text \<open>The timer is ready, and a byte is not one of the four of the BIOS reset vector, which the walk writes.\<close>

definition pit_ready :: "'a segments_scheme \<Rightarrow> bool" where
  "pit_ready s \<longleftrightarrow> k_port_in (sg_kernel s) (ucast PIT_CHAN0) AND 0x80 \<noteq> 0"

definition untouched :: "ptr \<Rightarrow> bool" where
  "untouched p \<longleftrightarrow> (let v = low_phys_to_virt BIOS_RESET_VECTOR in p \<noteq> v \<and> p \<noteq> v + 1 \<and> p \<noteq> v + 2 \<and> p \<noteq> v + 3)"

text \<open>
  The entries a walk of \<open>n\<close> steps meets name buses inside the array and do not lie over the reset vector; how many of
  them are processors, and which of those are to be started: the number each gets, counted from \<open>c\<close>, and its APIC id.
\<close>

primrec entries_ok :: "nat \<Rightarrow> memory \<Rightarrow> ptr \<Rightarrow> bool" where
  "entries_ok 0 m e = True"
| "entries_ok (Suc n) m e \<longleftrightarrow>
     untouched e \<and> untouched (e + 1) \<and> untouched (e + 3) \<and> untouched (e + 4) \<and>
     (m e = MP_TYPE_INTERRUPT \<longrightarrow> ucast (m (e + 4)) < MP_MAX_BUSES) \<and>
     entries_ok n m (e + (if m e = 0 then 20 else 8))"

primrec cpu_entries :: "nat \<Rightarrow> memory \<Rightarrow> ptr \<Rightarrow> nat" where
  "cpu_entries 0 m e = 0"
| "cpu_entries (Suc n) m e = (if m e = 0 then 1 else 0) + cpu_entries n m (e + (if m e = 0 then 20 else 8))"

primrec start_cpus :: "nat \<Rightarrow> memory \<Rightarrow> ptr \<Rightarrow> u32 \<Rightarrow> (u32 \<times> u8) list" where
  "start_cpus 0 m e c = []"
| "start_cpus (Suc n) m e c =
     (if m e = 0 \<and> m (e + 3) AND MP_CPU_FLAG_BOOTSTRAPPER = 0 then [(c, m (e + 1))] else []) @
     start_cpus n m (e + (if m e = 0 then 20 else 8)) (if m e = 0 then c + 1 else c)"

text \<open>
  The writes to the APIC that start the processor with APIC id \<open>x\<close>: an INIT, its release, and a START at page
  \<^verbatim>\<open>0xa\<close>, where the startup code is; and once more the START.
\<close>

definition ipi :: "u32 \<Rightarrow> u8 \<Rightarrow> (u32 \<times> u32) list" where
  "ipi ty x = [(APIC_REG_INTR_COMMAND_LOWER, push_bit 24 (ucast x)), (APIC_REG_INTR_COMMAND_UPPER, ty)]"

definition boot_ipis :: "u8 \<Rightarrow> bool \<Rightarrow> (u32 \<times> u32) list" where
  "boot_ipis x again = ipi (APIC_ICR_LEVEL OR APIC_ICR_LEVEL_ASSERT OR APIC_IPI_INIT) x @
     ipi (APIC_ICR_LEVEL OR APIC_IPI_INIT) x @ ipi (APIC_IPI_START OR 0xa) x @
     (if again then ipi (APIC_IPI_START OR 0xa) x else [])"

definition started :: "kernel \<Rightarrow> u32 \<times> u8 \<Rightarrow> (u32 \<times> u32) list \<Rightarrow> bool" where
  "started k = (\<lambda>(c, x) log. log = boot_ipis x True \<or> log = boot_ipis x False \<and> cpu_is_booted c k)"

text \<open>
  What an entry's handler does: the timer, the number of processors started but for its own, the tables and the
  processors already booted stay, and the APIC gets the writes \<open>L\<close>.
\<close>

definition booted_stay :: "kernel \<Rightarrow> kernel \<Rightarrow> bool" where
  "booted_stay k k' \<longleftrightarrow> (\<forall>c. cpu_is_booted c k \<longrightarrow> cpu_is_booted c k')"

definition walk_keeps :: "u32 \<Rightarrow> (u32 \<times> u32) list \<Rightarrow> 'a mp_scheme \<Rightarrow> 'a mp_scheme \<Rightarrow> bool" where
  "walk_keeps n L s s' \<longleftrightarrow> pit_ready s' \<and> mp_cpu_count s' = mp_cpu_count s + n \<and>
     (\<forall>p. untouched p \<longrightarrow> mp_mem s' p = mp_mem s p) \<and>
     k_apic_log (sg_kernel s') = k_apic_log (sg_kernel s) @ L \<and> booted_stay (sg_kernel s) (sg_kernel s')"

text \<open>
  The other processors, while this one waits, leave its timer, the tables, its count and its APIC alone, and do not
  take back that they have booted.
\<close>

definition others_keep :: "('a mp_scheme \<Rightarrow> 'a mp_scheme) \<Rightarrow> bool" where
  "others_keep others \<longleftrightarrow>
     (\<forall>s. pit_ready s \<longrightarrow> pit_ready (others s) \<and> mp_mem (others s) = mp_mem s \<and> mp_cpu_count (others s) = mp_cpu_count s \<and>
        k_apic_log (sg_kernel (others s)) = k_apic_log (sg_kernel s) \<and> booted_stay (sg_kernel s) (sg_kernel (others s)))"

lemma walk_keeps_trans: "walk_keeps a L s s1 \<Longrightarrow> walk_keeps b M s1 s2 \<Longrightarrow> walk_keeps (a + b) (L @ M) s s2"
  by (auto simp: walk_keeps_def booted_stay_def)

lemma walk_keeps_trans0: "walk_keeps 0 L s s1 \<Longrightarrow> walk_keeps 0 M s1 s2 \<Longrightarrow> walk_keeps 0 (L @ M) s s2"
  using walk_keeps_trans [of 0 L s s1 0 M s2] by simp

lemma walk_keeps_ready: "walk_keeps n L s s' \<Longrightarrow> pit_ready s'"
  by (simp add: walk_keeps_def)

lemma walk_keeps_mem: "walk_keeps n L s s' \<Longrightarrow> untouched p \<Longrightarrow> mp_mem s' p = mp_mem s p"
  by (simp add: walk_keeps_def)

lemma booted_stay_eq: "k_booted_cpus k' = k_booted_cpus k \<Longrightarrow> booted_stay k k'"
  by (simp add: booted_stay_def cpu_is_booted_def)

lemma on_kernel_mp [simp]: "mp_mem (on_kernel f s) = mp_mem s" "mp_cpu_count (on_kernel f s) = mp_cpu_count s"
  by (simp_all add: on_kernel_def)

lemma pit_ready_on_kernel: "(\<And>k. k_port_in (f k) = k_port_in k) \<Longrightarrow> pit_ready (on_kernel f s) = pit_ready s"
  by (simp add: pit_ready_def)

lemma walk_on_kernel:
  "(\<And>k. k_port_in (f k) = k_port_in k) \<Longrightarrow> (\<And>k. k_apic_log (f k) = k_apic_log k @ L) \<Longrightarrow>
   (\<And>k. k_booted_cpus (f k) = k_booted_cpus k) \<Longrightarrow> pit_ready s \<Longrightarrow> walk_keeps 0 L s (on_kernel f s)"
  by (simp add: walk_keeps_def pit_ready_on_kernel booted_stay_eq)

lemma ucast_byte: "(ucast (x :: u8) :: u32) AND 0xff = ucast x"
proof -
  have "(0xff :: u32) = mask 8" by (simp add: mask_eq_exp_minus_1)
  then show ?thesis by (simp add: bit_eq_iff bit_simps) (auto dest: bit_imp_le_length)
qed

lemma walk_send_ipi: "pit_ready s \<Longrightarrow> walk_keeps 0 (ipi ty x) s (send_ipi ty (ucast x) s)"
  unfolding send_ipi_def
  by (rule walk_on_kernel) (simp_all add: apic_send_ipi_def Let_def ipi_def apic_write_def ucast_byte)

lemma port_write_frame [simp]: "k_apic_log (port_write w p v k) = k_apic_log k" "k_booted_cpus (port_write w p v k) = k_booted_cpus k"
  by (simp_all add: port_write_def)

lemma walk_cmos_write: "pit_ready s \<Longrightarrow> walk_keeps 0 [] s (cmos_write r v s)"
  unfolding cmos_write_def cmos_select_def outb_def on_kernel_on_kernel by (rule walk_on_kernel) simp_all

lemma walk_reset_vector: "pit_ready s \<Longrightarrow> walk_keeps 0 [] s (set_reset_vector v s)"
  by (simp add: walk_keeps_def set_reset_vector_def pit_ready_def untouched_def store32_def Let_def booted_stay_eq)

lemma walk_wait:
  assumes "pit_ready s" and "others_keep others"
  shows "\<exists>s'. wait_10ms others t s = Some s' \<and> walk_keeps 0 [] s s'"
proof -
  let ?s = "outb PIT_CHAN0 (ucast (drop_bit 8 (ucast t :: u16))) (outb PIT_CHAN0 (ucast (ucast t :: u16) AND 0xff) (outb PIT_COMMAND PIT_CMD_HILOBYTE s))"
  have "k_port_in (sg_kernel ?s) (ucast PIT_CHAN0) AND 0x80 \<noteq> 0"
    using assms(1) by (simp add: outb_def pit_ready_def)
  from pit_poll_ready [OF this] have w: "pit_wait_poll (ucast t) s =
      Some (outb PIT_COMMAND (PIT_CMD_READ_BACK OR PIT_READ_LATCH_COUNT OR PIT_READ_CHAN0) ?s)"
    by (simp add: pit_wait_poll_def Let_def)
  have "walk_keeps 0 [] s (outb PIT_COMMAND (PIT_CMD_READ_BACK OR PIT_READ_LATCH_COUNT OR PIT_READ_CHAN0) ?s)"
    unfolding outb_def on_kernel_on_kernel by (rule walk_on_kernel) (simp_all add: assms(1))
  then show ?thesis using assms(2) by (auto simp: wait_10ms_def w walk_keeps_def others_keep_def booted_stay_def)
qed

text \<open>One interrupt to another processor and the wait after it.\<close>

lemma walk_ipi:
  assumes "pit_ready s" and "others_keep others"
  obtains s' where "wait_10ms others t (send_ipi ty (ucast x) s) = Some s'" and "walk_keeps 0 (ipi ty x) s s'"
  using walk_wait [OF walk_keeps_ready [OF walk_send_ipi [OF assms(1)]] assms(2)]
    walk_keeps_trans0 [OF walk_send_ipi [OF assms(1)]] by fastforce

lemma walk_boot_cpu:
  assumes "pit_ready s" and keep: "others_keep others" and u: "untouched (cpu + 1)"
  shows "\<exists>s' L. mp_boot_cpu others lapic cpu num s = Some s' \<and> walk_keeps 0 L s s' \<and>
    (if mp_mem s (cpu + 3) AND MP_CPU_FLAG_BOOTSTRAPPER = 0 then started (sg_kernel s') (num, mp_mem s (cpu + 1)) L else L = [])"
proof (cases "mp_mem s (cpu + 3) AND MP_CPU_FLAG_BOOTSTRAPPER = 0")
  case False
  have "booted_stay k (cpu_register num k)" for k
    by (auto simp: booted_stay_def cpu_is_booted_def cpu_register_def bit_eq_iff bit_simps)
  then have "walk_keeps 0 [] s (on_kernel (cpu_register num) s)"
    using assms(1) by (simp add: walk_keeps_def pit_ready_on_kernel cpu_register_def)
  then show ?thesis using False by (simp add: mp_boot_cpu_def)
next
  case True
  define rv where "rv = push_bit 12 (0xa000 AND 0xff000 :: u32)"
  define x where "x = mp_mem s (cpu + 1)"
  have start: "APIC_IPI_START OR (drop_bit 12 0xa000 AND 0xff) = APIC_IPI_START OR 0xa" by (simp add: drop_bit_eq_div)
  have reset: "walk_keeps 0 [] s (set_reset_vector rv (cmos_write r v s))" if "pit_ready s" for r v s
    using walk_keeps_trans0 [OF walk_cmos_write [OF that] walk_reset_vector [OF walk_keeps_ready [OF walk_cmos_write [OF that]]]]
    by simp
  define s2 where "s2 = set_reset_vector rv (cmos_write CMOS_REG_RESET CMOS_RESET_JUMP s)"
  have k2: "walk_keeps 0 [] s s2" unfolding s2_def by (rule reset [OF assms(1)])
  have x2: "mp_mem s2 (cpu + 1) = x" using walk_keeps_mem [OF k2 u] by (simp add: x_def)
  obtain s4 where s4: "wait_10ms others PIT_WAIT_10MS
      (send_ipi (APIC_ICR_LEVEL OR APIC_ICR_LEVEL_ASSERT OR APIC_IPI_INIT) (ucast x) s2) = Some s4"
    and k4: "walk_keeps 0 (ipi (APIC_ICR_LEVEL OR APIC_ICR_LEVEL_ASSERT OR APIC_IPI_INIT) x) s2 s4"
    by (rule walk_ipi [OF walk_keeps_ready [OF k2] keep])
  have x4: "mp_mem s4 (cpu + 1) = x" using walk_keeps_mem [OF k4 u] x2 by simp
  obtain s6 where s6: "wait_10ms others PIT_WAIT_10MS (send_ipi (APIC_ICR_LEVEL OR APIC_IPI_INIT) (ucast x) s4) = Some s6"
    and k6: "walk_keeps 0 (ipi (APIC_ICR_LEVEL OR APIC_IPI_INIT) x) s4 s6"
    by (rule walk_ipi [OF walk_keeps_ready [OF k4] keep])
  have x6: "mp_mem s6 (cpu + 1) = x" using walk_keeps_mem [OF k6 u] x4 by simp
  obtain s8 where s8: "wait_10ms others (PIT_WAIT_10MS * 3) (send_ipi (APIC_IPI_START OR 0xa) (ucast x) s6) = Some s8"
    and k8: "walk_keeps 0 (ipi (APIC_IPI_START OR 0xa) x) s6 s8"
    by (rule walk_ipi [OF walk_keeps_ready [OF k6] keep])
  have x8: "mp_mem s8 (cpu + 1) = x" using walk_keeps_mem [OF k8 u] x6 by simp
  define again where "again \<longleftrightarrow> \<not> cpu_is_booted num (sg_kernel s8)"
  obtain s9 where s9: "(if again then wait_10ms others PIT_WAIT_10MS (send_ipi (APIC_IPI_START OR 0xa) (ucast x) s8) else Some s8) = Some s9"
    and k9: "walk_keeps 0 (if again then ipi (APIC_IPI_START OR 0xa) x else []) s8 s9"
  proof (cases again)
    case False
    then show ?thesis using that [of s8] walk_keeps_ready [OF k8] by (simp add: walk_keeps_def booted_stay_eq)
  next
    case True
    obtain s9 where "wait_10ms others PIT_WAIT_10MS (send_ipi (APIC_IPI_START OR 0xa) (ucast x) s8) = Some s9"
      "walk_keeps 0 (ipi (APIC_IPI_START OR 0xa) x) s8 s9" by (rule walk_ipi [OF walk_keeps_ready [OF k8] keep])
    then show ?thesis using that True by simp
  qed
  let ?s' = "set_reset_vector rv (cmos_write CMOS_REG_RESET CMOS_RESET_POWERON s9)"
  have k': "walk_keeps 0 [] s9 ?s'" by (rule reset [OF walk_keeps_ready [OF k9]])
  have "mp_boot_cpu others lapic cpu num s = Some ?s'"
    using True s4 s6 s8 s9 x2 x4 x6 x8
    unfolding mp_boot_cpu_def Let_def rv_def [symmetric] start s2_def [symmetric] again_def
    by (cases "cpu_is_booted num (sg_kernel s8)") simp_all
  moreover have "walk_keeps 0 (boot_ipis x again) s ?s'"
    using walk_keeps_trans0 [OF k2 walk_keeps_trans0 [OF k4 walk_keeps_trans0 [OF k6 walk_keeps_trans0 [OF k8
      walk_keeps_trans0 [OF k9 k']]]]] by (simp add: boot_ipis_def)
  moreover have "started (sg_kernel ?s') (num, x) (boot_ipis x again)"
    using walk_keeps_trans0 [OF k9 k'] by (cases again) (auto simp: started_def again_def walk_keeps_def booted_stay_def)
  ultimately show ?thesis using True by (auto simp: x_def)
qed

lemma walk_set_redirect:
  "mp_mem (ioapic_set_redirect i p r s) = mp_mem s" "mp_cpu_count (ioapic_set_redirect i p r s) = mp_cpu_count s"
  "sg_kernel (ioapic_set_redirect i p r s) = sg_kernel s"
  by (simp_all add: ioapic_set_redirect_def ioapic_write_def Let_def)

lemma walk_io_interrupt:
  assumes "pit_ready s" and "ucast (mp_mem s (e + 4)) < MP_MAX_BUSES"
  shows "\<exists>s'. mp_handle_io_interrupt junk lapic e s = Some s' \<and> walk_keeps 0 [] s s'"
proof -
  obtain ty where ty: "bus_type (ucast (mp_mem s (e + 4))) s = Some ty" using bus_type_range [OF assms(2)] by blast
  have "bus_default_trigger (ucast (mp_mem s (e + 4))) s = Some (ty \<noteq> BUS_TYPE_ISA)"
    and "bus_default_polarity (ucast (mp_mem s (e + 4))) l s =
      Some (if ty = BUS_TYPE_ISA then \<not> l else ty \<noteq> BUS_TYPE_PCI)" for l
    by (simp_all add: ty bus_default_trigger_def bus_default_polarity_def)
  with ty assms(1) show ?thesis
    by (auto simp: mp_handle_io_interrupt_def Let_def walk_keeps_def pit_ready_def walk_set_redirect booted_stay_eq)
qed

lemma walk_entry:
  assumes "pit_ready s" and "others_keep others" and "untouched (e + 1)"
    and "mp_mem s e = MP_TYPE_INTERRUPT \<longrightarrow> ucast (mp_mem s (e + 4)) < MP_MAX_BUSES"
  shows "\<exists>s' L. mp_entry others junk lapic e s = Some s' \<and> walk_keeps (if mp_mem s e = 0 then 1 else 0) L s s' \<and>
    (if mp_mem s e = 0 \<and> mp_mem s (e + 3) AND MP_CPU_FLAG_BOOTSTRAPPER = 0
     then started (sg_kernel s') (mp_cpu_count s, mp_mem s (e + 1)) L else L = [])"
proof -
  consider (cpu) "mp_mem s e = 0" | (intr) "mp_mem s e = MP_TYPE_INTERRUPT" | (other) "mp_mem s e \<noteq> 0" "mp_mem s e \<noteq> MP_TYPE_INTERRUPT"
    by blast
  then show ?thesis
  proof cases
    case cpu
    let ?s = "s\<lparr>mp_cpu_count := mp_cpu_count s + 1\<rparr>"
    have k: "walk_keeps 1 [] s ?s" using assms(1) by (simp add: walk_keeps_def pit_ready_def booted_stay_eq)
    have m: "mp_mem ?s = mp_mem s" by simp
    from walk_boot_cpu [OF walk_keeps_ready [OF k] assms(2,3), of lapic "mp_cpu_count s", unfolded m] obtain s' L where
      s': "mp_boot_cpu others lapic e (mp_cpu_count s) ?s = Some s'" "walk_keeps 0 L ?s s'"
      "if mp_mem s (e + 3) AND MP_CPU_FLAG_BOOTSTRAPPER = 0 then started (sg_kernel s') (mp_cpu_count s, mp_mem s (e + 1)) L else L = []"
      by blast
    have "walk_keeps 1 L s s'" using walk_keeps_trans [OF k s'(2)] by simp
    then show ?thesis using cpu s' by (auto simp: mp_entry_def mp_handle_cpu_def c4_enum)
  next
    case intr
    then show ?thesis using walk_io_interrupt [OF assms(1)] assms(4) by (simp add: mp_entry_def c4_enum)
  next
    case other
    have "walk_keeps 0 [] s (bus_register b s)" "walk_keeps 0 [] s (ioapic_add a i s)" for b a i
      using assms(1) by (simp_all add: bus_register_def ioapic_add_def walk_keeps_def pit_ready_def booted_stay_eq)
    moreover have "walk_keeps 0 [] s s" using assms(1) by (simp add: walk_keeps_def booted_stay_eq)
    ultimately show ?thesis using other
      by (simp add: mp_entry_def c4_enum mp_handle_bus_def mp_handle_ioapic_def mp_handle_interrupt_def Let_def)
  qed
qed

lemma entries_ok_cong:
  "(\<And>p. untouched p \<Longrightarrow> m' p = m p) \<Longrightarrow> entries_ok n m e \<Longrightarrow>
    entries_ok n m' e \<and> cpu_entries n m' e = cpu_entries n m e \<and> start_cpus n m' e c = start_cpus n m e c"
  by (induction n arbitrary: e c) auto

lemma started_stay: "booted_stay k k' \<Longrightarrow> started k y L \<Longrightarrow> started k' y L"
  by (auto simp: started_def booted_stay_def split: prod.splits)

lemma mp_entries_loop_returns:
  assumes "others_keep others" and "untouched (config + 34)" and "untouched (config + 35)"
    and "pit_ready s" and "load16 (mp_mem s) (config + 34) = cnt" and "unat cnt = unat i + n" and "n < r"
    and "entries_ok n (mp_mem s) e"
  shows "\<exists>s' Ls. mp_entries_loop r others junk lapic config i e s = Some s' \<and>
    walk_keeps (of_nat (cpu_entries n (mp_mem s) e)) (concat Ls) s s' \<and>
    list_all2 (started (sg_kernel s')) (start_cpus n (mp_mem s) e (mp_cpu_count s)) Ls"
  using assms(4-)
proof (induction n arbitrary: r s i e)
  case 0
  then obtain r' where "r = Suc r'" by (cases r) auto
  with 0 show ?case by (simp add: word_less_nat_alt walk_keeps_def booted_stay_eq)
next
  case (Suc n)
  then obtain r' where r: "r = Suc r'" by (cases r) auto
  let ?e = "e + (if mp_mem s e = 0 then 20 else 8)" and ?c = "if mp_mem s e = 0 then 1 else 0 :: u32"
  have lt: "i < cnt" using Suc.prems(3) by (simp add: word_less_nat_alt)
  let ?boot = "mp_mem s e = 0 \<and> mp_mem s (e + 3) AND MP_CPU_FLAG_BOOTSTRAPPER = 0"
  have "untouched (e + 1)" "mp_mem s e = MP_TYPE_INTERRUPT \<longrightarrow> ucast (mp_mem s (e + 4)) < MP_MAX_BUSES"
    using Suc.prems(5) by auto
  from walk_entry [OF Suc.prems(1) assms(1) this] obtain s1 L where
    s1: "mp_entry others junk lapic e s = Some s1" "walk_keeps ?c L s s1"
    and L: "if ?boot then started (sg_kernel s1) (mp_cpu_count s, mp_mem s (e + 1)) L else L = []" by blast
  have mem: "\<And>p. untouched p \<Longrightarrow> mp_mem s1 p = mp_mem s p" and ready: "pit_ready s1"
    and cc: "mp_cpu_count s1 = mp_cpu_count s + ?c" using s1(2) by (simp_all add: walk_keeps_def)
  note ok = entries_ok_cong [of "mp_mem s1" "mp_mem s" n ?e "mp_cpu_count s1", OF mem]
  have "\<exists>s' Ls. mp_entries_loop r' others junk lapic config (i + 1) ?e s1 = Some s' \<and>
      walk_keeps (of_nat (cpu_entries n (mp_mem s1) ?e)) (concat Ls) s1 s' \<and>
      list_all2 (started (sg_kernel s')) (start_cpus n (mp_mem s1) ?e (mp_cpu_count s1)) Ls"
  proof (rule Suc.IH [OF ready])
    show "load16 (mp_mem s1) (config + 34) = cnt"
      using mem assms(2,3) Suc.prems(2) by (simp add: load16_def add.assoc)
    show "unat cnt = unat (i + 1) + n" using Suc.prems(3) unat_Suc_u32 [OF lt] by simp
    show "n < r'" using Suc.prems(4) r by simp
    show "entries_ok n (mp_mem s1) ?e" using ok Suc.prems(5) by simp
  qed
  then obtain s' Ls where s': "mp_entries_loop r' others junk lapic config (i + 1) ?e s1 = Some s'"
    "walk_keeps (of_nat (cpu_entries n (mp_mem s) ?e)) (concat Ls) s1 s'"
    "list_all2 (started (sg_kernel s')) (start_cpus n (mp_mem s) ?e (mp_cpu_count s1)) Ls" using ok Suc.prems(5) by auto
  let ?Ls = "(if ?boot then [L] else []) @ Ls"
  have k': "walk_keeps (of_nat (cpu_entries (Suc n) (mp_mem s) e)) (concat ?Ls) s s'"
    using walk_keeps_trans [OF s1(2) s'(2)] L by (simp split: if_splits)
  have "booted_stay (sg_kernel s1) (sg_kernel s')" using s'(2) by (simp add: walk_keeps_def)
  then have "?boot \<Longrightarrow> started (sg_kernel s') (mp_cpu_count s, mp_mem s (e + 1)) L" using L started_stay by auto
  moreover have "mp_cpu_count s1 = (if mp_mem s e = 0 then mp_cpu_count s + 1 else mp_cpu_count s)" using cc by simp
  ultimately have "list_all2 (started (sg_kernel s')) (start_cpus (Suc n) (mp_mem s) e (mp_cpu_count s)) ?Ls"
    using s'(3) by (auto intro!: list_all2_appendI)
  moreover have "mp_entries_loop r others junk lapic config i e s = Some s'"
    using s'(1) s1(1) lt Suc.prems(2) by (auto simp: r Let_def)
  ultimately show ?case using k' by blast
qed

text \<open>
  C30. The walk over the tables ends, whatever number of entries they hold, and starts the processors. The conditions:
  the timer answers; every interrupt entry names a bus inside the array of 32; the tables do not lie over the BIOS
  reset vector, which the walk writes; and the other processors, while this one waits, leave its timer, the
  tables and its APIC alone. Then \<^verbatim>\<open>mp_enumerate\<close> returns, having counted every processor of the tables, and the writes
  to the APIC are exactly these: for every processor entry in turn that is not the bootstrap processor's, an INIT,
  its release and a START for page \<^verbatim>\<open>0xa\<close> to the APIC id of the entry, and a second START unless the processor has
  reported as booted. Outside the reset vector the memory is as it was.
\<close>

theorem mp_enumerate_returns:
  assumes "mp \<noteq> NULL" and "apic_supported s" and "pit_ready s" and "others_keep others"
    and "config = low_phys_to_virt (load32 (mp_mem s) (mp + 4))"
    and "untouched (config + 34)" and "untouched (config + 35)"
    and "n = unat (load16 (mp_mem s) (config + 34))" and "entries_ok n (mp_mem s) (config + 44)"
  shows "\<exists>s' Ls. mp_enumerate others junk mp s = Some s' \<and> pit_ready s' \<and>
    mp_cpu_count s' = mp_cpu_count s + of_nat (cpu_entries n (mp_mem s) (config + 44)) \<and>
    k_apic_log (sg_kernel s') = k_apic_log (sg_kernel s) @ concat Ls \<and>
    list_all2 (started (sg_kernel s')) (start_cpus n (mp_mem s) (config + 44) (mp_cpu_count s)) Ls \<and>
    (\<forall>p. untouched p \<longrightarrow> mp_mem s' p = mp_mem s p)"
proof -
  have "n < 65536"
  proof -
    have "load16 m p = take_bit 16 (load16 m p)" for m p
      by (rule bit_word_eqI) (auto simp: load16_def bit_simps dest: bit_imp_le_length)
    then have "unat (load16 m p) < 2 ^ 16" for m p by (metis take_bit_nat_less_exp unsigned_take_bit_eq)
    then show ?thesis using assms(8) by simp
  qed
  from mp_entries_loop_returns [OF assms(4,6,7,3) refl _ this assms(9), where i = 0 and junk = junk and
      lapic = "io_phys_to_virt (load32 (mp_mem s) (config + 36))"] assms(8)
  obtain s' Ls where "mp_entries_loop 65536 others junk (io_phys_to_virt (load32 (mp_mem s) (config + 36))) config 0 (config + 44) s = Some s'"
    "walk_keeps (of_nat (cpu_entries n (mp_mem s) (config + 44))) (concat Ls) s s'"
    "list_all2 (started (sg_kernel s')) (start_cpus n (mp_mem s) (config + 44) (mp_cpu_count s)) Ls" by fastforce
  then show ?thesis using assms(1,2)
    by (auto simp: mp_enumerate_def Let_def sizeof_mp_config_t_def walk_keeps_def simp flip: assms(5))
qed

text \<open>
  Tables with three entries: the bootstrap processor, one with APIC id 5, and an interrupt of bus 0. The floating
  pointer is at 0x900 and the configuration table at the virtual address of 0x1000.
\<close>

definition table_mp :: mp where
  "table_mp = boot_mp\<lparr>sg_kernel := boot_kernel\<lparr>k_port_in := (\<lambda>_. 0xff)\<rparr>,
     mp_mem := (\<lambda>_. 0)(0x905 := 0x10, 0xfd001022 := 3, 0xfd00102f := 2, 0xfd001041 := 5, 0xfd001054 := 3)\<rparr>"

text \<open>C30 on these tables, with a second processor that does not answer: it gets a second START.\<close>

theorem mp_enumerate_returns_witness:
  "\<exists>s' again. mp_enumerate id 0 0x900 table_mp = Some s' \<and> mp_cpu_count s' = 2 \<and>
    k_apic_log (sg_kernel s') = boot_ipis 5 again \<and> (\<not> again \<longrightarrow> cpu_is_booted 1 (sg_kernel s'))"
proof -
  have cfg: "low_phys_to_virt (load32 (mp_mem table_mp) (0x900 + 4)) = 0xfd001000"
    by (simp add: table_mp_def load32_def load16_def low_phys_to_virt_def KERNEL_BASE_def)
  have n: "unat (load16 (mp_mem table_mp) (0xfd001000 + 34)) = Suc (Suc (Suc 0))"
    by (simp add: table_mp_def load16_def)
  have u: "untouched (0xfd001000 + 34)" "untouched (0xfd001000 + 35)"
    by (simp_all add: untouched_def low_phys_to_virt_def KERNEL_BASE_def BIOS_RESET_VECTOR_def)
  have ok: "entries_ok (Suc (Suc (Suc 0))) (mp_mem table_mp) (0xfd001000 + 44)"
    by (simp add: table_mp_def MP_TYPE_INTERRUPT_def MP_MAX_BUSES_def untouched_def low_phys_to_virt_def KERNEL_BASE_def
        BIOS_RESET_VECTOR_def)
  have c: "cpu_entries (Suc (Suc (Suc 0))) (mp_mem table_mp) (0xfd001000 + 44) = 2" by (simp add: table_mp_def)
  have t: "start_cpus (Suc (Suc (Suc 0))) (mp_mem table_mp) (0xfd001000 + 44) 0 = [(1, 5)]"
    by (simp add: table_mp_def MP_CPU_FLAG_BOOTSTRAPPER_def)
  have b: "apic_supported table_mp" "pit_ready table_mp" "mp_cpu_count table_mp = 0" "k_apic_log (sg_kernel table_mp) = []"
    by (simp_all add: apic_supported_def pit_ready_def table_mp_def boot_mp_def boot_ioapics_def boot_machine_def
        ioapics.defs interrupts.defs CPUID_FEATURE_APIC_def) (simp add: boot_kernel_def)
  have o: "others_keep (id :: mp \<Rightarrow> mp)" by (simp add: others_keep_def booted_stay_eq)
  have "(0x900 :: ptr) \<noteq> NULL" by simp
  from mp_enumerate_returns [OF this b(1,2) o cfg [symmetric] u n [symmetric] ok, of 0, unfolded b(3,4) t c]
  show ?thesis by (auto simp: list_all2_Cons1 started_def)
qed

end
