(* ===== verification/C4_Boot.thy ===== *)
theory C4_Boot
  imports C4_Mp
begin

text \<open>
  Booting (\<^verbatim>\<open>arch/x86/init.c\<close>, and the CPU start-up of \<^verbatim>\<open>arch/x86/apic-utils.c\<close>): the boot information and the memory map
  handed over by the boot loader, the set-up of memory, processors and interrupts, and the first user program
  \<^verbatim>\<open>sigma0\<close>, which receives the memory of the machine as capabilities.

  The structures of the boot loader (\<^verbatim>\<open>multiboot.h\<close>) and the boot information (\<^verbatim>\<open>bootinfo.h\<close>) are bytes of \<open>mp_mem\<close>,
  read and written at their offsets; \<^verbatim>\<open>BOOTINFO_ADDR\<close> and the addresses of \<^verbatim>\<open>sigma0\<close>'s code there are those of its
  address space. The list of physical memory maps, which \<^verbatim>\<open>kealloc\<close> places behind the kernel, is the typed heap
  \<open>bo_maps\<close>. A failing \<^verbatim>\<open>KASSERT\<close> only prints, so it is left out like all diagnostic output.
\<close>

section \<open>Structures\<close>

definition BOOTINFO_MAGIC :: u32 where [c4_enum]: "BOOTINFO_MAGIC = 0xc0ffee"
definition BOOTINFO_ADDR :: u32 where "BOOTINFO_ADDR = KERNEL_BASE - PAGE_SIZE"
definition MULTIBOOT_FLAG_CMDLINE :: u32 where [c4_enum]: "MULTIBOOT_FLAG_CMDLINE = 4"
definition MULTIBOOT_FLAG_MMAP :: u32 where [c4_enum]: "MULTIBOOT_FLAG_MMAP = 0x40"
definition MULTIBOOT_FLAG_VBE :: u32 where [c4_enum]: "MULTIBOOT_FLAG_VBE = 0x800"
definition MULTIBOOT_MEM_AVAILABLE :: u32 where [c4_enum]: "MULTIBOOT_MEM_AVAILABLE = 1"

text \<open>Offsets in \<^verbatim>\<open>multiboot_header_t\<close>, \<^verbatim>\<open>multiboot_mem_map_t\<close>, \<^verbatim>\<open>vbe_mode_t\<close> and \<^verbatim>\<open>bootinfo_t\<close>.\<close>

definition mb_flags :: u32 where "mb_flags = 0"
definition mb_cmdline :: u32 where "mb_cmdline = 16"
definition mb_mods_count :: u32 where "mb_mods_count = 20"
definition mb_mods_addr :: u32 where "mb_mods_addr = 24"
definition mb_mmap_length :: u32 where "mb_mmap_length = 44"
definition mb_mmap_addr :: u32 where "mb_mmap_addr = 48"
definition mb_vbe_mode_info :: u32 where "mb_vbe_mode_info = 76"

definition mm_size :: u32 where "mm_size = 0"
definition mm_addr_high :: u32 where "mm_addr_high = 4"
definition mm_len_high :: u32 where "mm_len_high = 12"
definition mm_type :: u32 where "mm_type = 20"

definition vbe_x_res :: u32 where "vbe_x_res = 18"
definition vbe_y_res :: u32 where "vbe_y_res = 20"
definition vbe_bpp :: u32 where "vbe_bpp = 25"
definition vbe_physbase :: u32 where "vbe_physbase = 40"

definition bi_magic :: u32 where "bi_magic = 0"
definition bi_major :: u32 where "bi_major = 4"
definition bi_minor :: u32 where "bi_minor = 8"
definition bi_patch :: u32 where "bi_patch = 12"
definition bi_cmdline :: u32 where "bi_cmdline = 16"
definition bi_num_pages :: u32 where "bi_num_pages = 272"
definition bi_fb_exists :: u32 where "bi_fb_exists = 276"
definition bi_fb_addr :: u32 where "bi_fb_addr = 280"
definition bi_fb_width :: u32 where "bi_fb_width = 284"
definition bi_fb_height :: u32 where "bi_fb_height = 288"
definition bi_fb_bpp :: u32 where "bi_fb_bpp = 292"
definition sizeof_bootinfo_t :: u32 where "sizeof_bootinfo_t = 296"

record phys_memmap_t =
  pm_next :: ptr
  pm_addr :: u32
  pm_length :: u32

definition sizeof_phys_memmap_t :: u32 where "sizeof_phys_memmap_t = 12"

text \<open>
  The static variables: \<^verbatim>\<open>heap_ptr\<close> of \<^verbatim>\<open>kealloc\<close>, the memory maps, and the two globals the worker thread reads. The
  addresses \<^verbatim>\<open>smp_boot_start\<close> and \<^verbatim>\<open>smp_boot_end\<close> come from the linker.
\<close>

record boot = mp +
  bo_heap_ptr :: ptr
  bo_maps :: "ptr \<Rightarrow> phys_memmap_t"
  bo_sigma0_maps :: ptr
  bo_sigma0_msgq :: ptr
  bo_smp_start :: ptr
  bo_smp_end :: ptr

text \<open>Addresses in the kernel image: the static \<^verbatim>\<open>bootinfo\<close>, the literal \<^verbatim>\<open>"c4"\<close>, the page directory and the worker thread.\<close>

definition bootinfo :: ptr where "bootinfo = 0xfd035000"
definition str_c4 :: ptr where "str_c4 = 0xfd036000"
definition boot_page_dir :: ptr where "boot_page_dir = 0xfd037000"
definition send_memmaps_entry :: ptr where "send_memmaps_entry = 0xfd038000"

definition with_kernel :: "(kernel \<Rightarrow> ('b \<times> kernel) option) \<Rightarrow> 'a segments_scheme \<Rightarrow> ('b \<times> 'a segments_scheme) option" where
  "with_kernel f s = do { (r, k) \<leftarrow> f (sg_kernel s); Some (r, s\<lparr>sg_kernel := k\<rparr>) }"

definition in_kernel :: "(kernel \<Rightarrow> kernel option) \<Rightarrow> 'a segments_scheme \<Rightarrow> 'a segments_scheme option" where
  "in_kernel f s = do { k \<leftarrow> f (sg_kernel s); Some (s\<lparr>sg_kernel := k\<rparr>) }"

definition on_mem :: "(memory \<Rightarrow> memory) \<Rightarrow> 'a mp_scheme \<Rightarrow> 'a mp_scheme" where
  "on_mem f s = s\<lparr>mp_mem := f (mp_mem s)\<rparr>"

definition early_alloc :: "u32 \<Rightarrow> boot \<Rightarrow> ptr \<times> boot" where
  "early_alloc sz s = (let (p, h) = kealloc sz (bo_heap_ptr s) in (p, s\<lparr>bo_heap_ptr := h\<rparr>))"

section \<open>Boot information\<close>

definition is_valid_vbe :: "memory \<Rightarrow> ptr \<Rightarrow> bool" where
  "is_valid_vbe m mode \<longleftrightarrow>
     load32 m (mode + vbe_physbase) \<noteq> 0 \<and> m (mode + vbe_bpp) \<noteq> 0 \<and> m (mode + vbe_bpp) \<noteq> 0xff"

definition store_framebuffer :: "ptr \<Rightarrow> ptr \<Rightarrow> memory \<Rightarrow> memory" where
  "store_framebuffer info mode m =
     (let m1 = m(info + bi_fb_exists := 1);
          m2 = store32 (info + bi_fb_width) (load16 m1 (mode + vbe_x_res)) m1;
          m3 = store32 (info + bi_fb_height) (load16 m2 (mode + vbe_y_res)) m2;
          m4 = store32 (info + bi_fb_addr) (load32 m3 (mode + vbe_physbase)) m3
      in store32 (info + bi_fb_bpp) (ucast (m4 (mode + vbe_bpp))) m4)"

text \<open>The assignments up to \<^verbatim>\<open>framebuffer.exists\<close>, then the framebuffer.\<close>

definition bootinfo_base :: "ptr \<Rightarrow> ptr \<Rightarrow> memory \<Rightarrow> memory" where
  "bootinfo_base info header m =
     (let m1 = store32 (info + bi_magic) BOOTINFO_MAGIC m;
          m2 = store32 (info + bi_num_pages) 0 m1;
          m3 = store32 (info + bi_major) 0 m2;
          m4 = store32 (info + bi_minor) 0 m3;
          m5 = store32 (info + bi_patch) 0 m4;
          cmd = (if FLAG (load32 m5 (header + mb_flags)) MULTIBOOT_FLAG_CMDLINE
                 then low_phys_to_virt (load32 m5 (header + mb_cmdline)) else str_c4);
          m6 = snd (strncpy (info + bi_cmdline) cmd 256 m5)
      in m6(info + bi_fb_exists := 0))"

definition bootinfo_init :: "ptr \<Rightarrow> ptr \<Rightarrow> memory \<Rightarrow> memory" where
  "bootinfo_init info header m =
     (let m7 = bootinfo_base info header m
      in if FLAG (load32 m7 (header + mb_flags)) MULTIBOOT_FLAG_VBE
         then let mode = low_phys_to_virt (load32 m7 (header + mb_vbe_mode_info))
              in if is_valid_vbe m7 mode then store_framebuffer info mode m7 else m7
         else m7)"

section \<open>The memory map\<close>

text \<open>
  The loop of \<^verbatim>\<open>memmaps_init\<close>, with the list built so far and the kernel's map. An entry whose size field makes the
  offset stand still would keep it from ending, so it is a partial function.
\<close>

definition add_memmap :: "u32 \<Rightarrow> u32 \<Rightarrow> ptr \<Rightarrow> ptr \<Rightarrow> boot \<Rightarrow> ptr \<times> ptr \<times> boot" where
  "add_memmap addr len ret kmem s =
     (let (nmap, s1) = early_alloc sizeof_phys_memmap_t s;
          s2 = s1\<lparr>bo_maps := (bo_maps s1)(nmap := \<lparr>pm_next = ret, pm_addr = addr, pm_length = len\<rparr>)\<rparr>
      in if pm_addr (bo_maps s2 nmap) = 0x100000
         then let (kmap, s3) = early_alloc sizeof_phys_memmap_t s2;
                  s4 = s3\<lparr>bo_maps := (bo_maps s3)(kmap := \<lparr>pm_next = NULL, pm_addr = 0x400000, pm_length = 0x800000\<rparr>)\<rparr>;
                  n = bo_maps s4 nmap
              in (nmap, kmap, s4\<lparr>bo_maps := (bo_maps s4)(nmap :=
                    n\<lparr>pm_addr := pm_addr n + 0x800000, pm_length := pm_length n - 0x800000\<rparr>)\<rparr>)
         else (nmap, kmem, s2))"

partial_function (option) memmaps_loop :: "ptr \<Rightarrow> ptr \<Rightarrow> u32 \<Rightarrow> ptr \<Rightarrow> ptr \<Rightarrow> boot \<Rightarrow> (ptr \<times> ptr \<times> boot) option" where [code]:
  "memmaps_loop mboot mp offset ret kmem s =
     (if offset < load32 (mp_mem s) (mboot + mb_mmap_length)
      then let foo = mp + offset;
               offset' = offset + (load32 (mp_mem s) (foo + mm_size) + 4);
               addr = load32 (mp_mem s) (foo + mm_addr_high);
               (ret', kmem', s') =
                 (if load32 (mp_mem s) (foo + mm_type) = MULTIBOOT_MEM_AVAILABLE \<and> addr \<ge> 0x100000
                  then add_memmap addr (load32 (mp_mem s) (foo + mm_len_high)) ret kmem s
                  else (ret, kmem, s))
           in memmaps_loop mboot mp offset' ret' kmem' s'
      else Some (ret, kmem, s))"

text \<open>The result is the list, the kernel's map (\<^verbatim>\<open>*kmemptr\<close>) and the state.\<close>

definition memmaps_init :: "ptr \<Rightarrow> ptr \<Rightarrow> boot \<Rightarrow> (ptr \<times> ptr \<times> boot) option" where
  "memmaps_init mboot kmem s =
     (if \<not> FLAG (load32 (mp_mem s) (mboot + mb_flags)) MULTIBOOT_FLAG_MMAP then Some (NULL, kmem, s)
      else memmaps_loop mboot (low_phys_to_virt (load32 (mp_mem s) (mboot + mb_mmap_addr))) 0 NULL kmem s)"

text \<open>
  \<^verbatim>\<open>init_memory\<close>. The last statement of \<^verbatim>\<open>init_paging\<close>, which registers the page-fault handler, stands here: the table of
  handlers is above the paging theory.
\<close>

definition init_memory :: "ptr \<Rightarrow> boot \<Rightarrow> boot option" where
  "init_memory mem s = do {
     (len, addr) \<leftarrow> (if mem = NULL then None else Some (pm_length (bo_maps s mem), pm_addr (bo_maps s mem)));
     let npages = len div PAGE_SIZE;
     let (mp, s1) = early_alloc (npages div 8) s;
     let bits = map (\<lambda>i. load32 (mp_mem s1) (mp + 4 * of_nat i)) [0..<unat (npages div 8) div 4];
     r \<leftarrow> region_init_at addr bits npages (PAGE_READ OR PAGE_WRITE OR PAGE_SUPERVISOR) REGION_MODE_PHYSICAL;
     s2 \<leftarrow> in_kernel (with_paging (init_paging boot_page_dir r)) s1;
     s3 \<leftarrow> register_interrupt INTERRUPT_PAGE_FAULT PAGE_FAULT_HANDLER s2;
     in_kernel (\<lambda>k. do { m \<leftarrow> region_init_global (KERNEL_BASE + 0x400000) (k_mm k); Some (k\<lparr>k_mm := m\<rparr>) }) s3
   }"

section \<open>Sigma0\<close>

definition boot_rights :: u32 where
  "boot_rights = CAP_ACCESS OR CAP_MODIFY OR CAP_SHARE OR CAP_MULTI_USE"

definition map_frame :: "yield \<Rightarrow> ptr \<Rightarrow> u32 \<Rightarrow> u32 \<Rightarrow> ptr \<Rightarrow> boot \<Rightarrow> boot option" where
  "map_frame yield space addr perms frame s = do {
     (_, s1) \<leftarrow> with_kernel (addr_space_insert_map yield space (addr_space_make_ent addr perms frame)) s;
     Some s1
   }"

definition give_cap :: "ptr \<Rightarrow> u32 \<Rightarrow> u32 \<Rightarrow> u32 \<Rightarrow> ptr \<Rightarrow> boot \<Rightarrow> boot option" where
  "give_cap thread idx ty perms object s = do {
     (_, s1) \<leftarrow> with_kernel (\<lambda>k. do {
         t \<leftarrow> get_thread thread k;
         cap_space_replace (t_cap_space t) idx \<lparr>ce_type = ty, ce_permissions = perms, ce_object = object\<rparr> k
       }) s;
     Some s1
   }"

definition sigma0_load :: "yield \<Rightarrow> ptr \<Rightarrow> ptr \<Rightarrow> boot \<Rightarrow> (ptr \<times> boot) option" where
  "sigma0_load yield module info s = do {
     (new_space, s1) \<leftarrow> with_kernel (\<lambda>k. addr_space_clone yield (addr_space_kernel k) k) s;
     s2 \<leftarrow> in_kernel (addr_space_set new_space) s1;
     let start = load32 (mp_mem s2) module;
     let func_size = load32 (mp_mem s2) (module + 4) - start + 0x200;
     let sigma0_addr = low_phys_to_virt start;
     let code_start = 0xc0000000;
     let data_start = 0xd0000000;
     (info_frame, s3) \<leftarrow> with_kernel (phys_frame_create 0x200000 1 0) s2;
     (code, s4) \<leftarrow> with_kernel (phys_frame_create 0x201000 255 0) s3;
     (data, s5) \<leftarrow> with_kernel (phys_frame_create 0x300000 256 0) s4;
     s6 \<leftarrow> map_frame yield new_space BOOTINFO_ADDR PAGE_READ info_frame s5;
     let s7 = on_mem (\<lambda>m. snd (memcpy BOOTINFO_ADDR info sizeof_bootinfo_t m)) s6;
     s8 \<leftarrow> map_frame yield new_space code_start (PAGE_READ OR PAGE_WRITE) code s7;
     s9 \<leftarrow> map_frame yield new_space data_start (PAGE_READ OR PAGE_WRITE) data s8;
     let s10 = on_mem (\<lambda>m. snd (memcpy code_start sigma0_addr func_size m)) s9;
     (new_thread, s11) \<leftarrow> with_kernel (thread_create code_start new_space (data_start + 0xff8) THREAD_FLAG_USER) s10;
     (cspace, s12) \<leftarrow> with_kernel cap_space_create s11;
     s13 \<leftarrow> in_kernel (upd_thread new_thread (t_cap_space_update (\<lambda>_. cspace))) s12;
     (msgq, s14) \<leftarrow> with_kernel message_queue_create s13;
     s15 \<leftarrow> give_cap new_thread 1 CAP_TYPE_IPC_SYNC_ENDPOINT boot_rights msgq s14;
     s16 \<leftarrow> give_cap new_thread 2 CAP_TYPE_ADDR_SPACE boot_rights new_space s15;
     s17 \<leftarrow> give_cap new_thread 3 CAP_TYPE_PHYS_MEMORY (CAP_ACCESS OR CAP_SHARE OR CAP_MULTI_USE) info_frame s16;
     s18 \<leftarrow> in_kernel (with_paging (\<lambda>pg. set_page_dir (pg_kernel_dir pg) pg)) s17;
     s19 \<leftarrow> in_kernel (sched_add_thread yield new_thread) s18;
     Some (msgq, s19)
   }"

definition sigma0_find_module :: "ptr \<Rightarrow> boot \<Rightarrow> ptr" where
  "sigma0_find_module header s =
     (if load32 (mp_mem s) (header + mb_mods_count) > 0
      then low_phys_to_virt (load32 (mp_mem s) (header + mb_mods_addr)) else NULL)"

text \<open>The thread that sends the memory maps: its loop, and the message that ends the sequence.\<close>

partial_function (option) send_memmaps_loop :: "yield \<Rightarrow> ptr \<Rightarrow> boot \<Rightarrow> boot option" where [code]:
  "send_memmaps_loop yield m s =
     (if m = NULL then Some s
      else do {
        let e = bo_maps s m;
        (frame, s1) \<leftarrow> with_kernel (phys_frame_create (pm_addr e) (pm_length e div PAGE_SIZE) 0) s;
        s2 \<leftarrow> in_kernel (message_send_capability yield (bo_sigma0_msgq s1)
                \<lparr>ce_type = CAP_TYPE_PHYS_MEMORY, ce_permissions = boot_rights, ce_object = frame\<rparr>) s1;
        send_memmaps_loop yield (pm_next (bo_maps s2 m)) s2
      })"

definition send_memmaps_thread :: "yield \<Rightarrow> boot \<Rightarrow> boot option" where
  "send_memmaps_thread yield s = do {
     s1 \<leftarrow> send_memmaps_loop yield (bo_sigma0_maps s) s;
     s2 \<leftarrow> in_kernel (message_send yield (bo_sigma0_msgq s1) (Local (zero_message\<lparr>m_type := 1234\<rparr>))) s1;
     in_kernel (sched_thread_exit yield) s2
   }"

definition sigma0_send_memmaps :: "yield \<Rightarrow> ptr \<Rightarrow> ptr \<Rightarrow> boot \<Rightarrow> boot option" where
  "sigma0_send_memmaps yield maps queue s = do {
     let s1 = s\<lparr>bo_sigma0_maps := maps, bo_sigma0_msgq := queue\<rparr>;
     (t, s2) \<leftarrow> with_kernel (thread_create_kthread send_memmaps_entry) s1;
     in_kernel (sched_add_thread yield t) s2
   }"

section \<open>Processors\<close>

definition smp_copy_boot_code :: "boot \<Rightarrow> boot" where
  "smp_copy_boot_code s =
     on_mem (\<lambda>m. snd (memcpy (low_phys_to_virt 0xa000) (bo_smp_start s) (bo_smp_end s - bo_smp_start s) m)) s"

text \<open>What a started CPU does before it idles.\<close>

definition smp_thing :: "u32 \<Rightarrow> boot \<Rightarrow> boot option" where
  "smp_thing cpu_num s = do {
     let s1 = on_kernel (cpu_register cpu_num) s;
     let s2 = apic_enable s1;
     let s3 = init_cpu_segment_descs cpu_num s2;
     let s4 = init_cpu_interrupts s3;
     s5 \<leftarrow> in_kernel sched_init_cpu s4;
     Some (apic_timer_one_shot 0x8000000 s5)
   }"

text \<open>The loop that maps the I/O memory, from \<^verbatim>\<open>IO_PHYS_BASE\<close> until the address wraps to 0.\<close>

partial_function (option) map_io_loop :: "u32 \<Rightarrow> kernel \<Rightarrow> kernel option" where [code]:
  "map_io_loop p k =
     (if p = 0 then Some k
      else do {
        k1 \<leftarrow> with_paging (map_phys_page_4mb (PAGE_READ OR PAGE_WRITE OR PAGE_SUPERVISOR) (io_phys_to_virt p) p) k;
        map_io_loop (p + 0x400000) k1
      })"

definition smp_init :: "(boot \<Rightarrow> boot) \<Rightarrow> ioapic_redirect_t \<Rightarrow> boot \<Rightarrow> boot option" where
  "smp_init others junk s = do {
     s1 \<leftarrow> in_kernel (map_io_loop IO_PHYS_BASE) s;
     s2 \<leftarrow> (if \<not> apic_supported s1 then Some s1
            else do {
              (ticks, s') \<leftarrow> apic_timer_usec_to_ticks 1000000 s1;
              let s'' = apic_enable (smp_copy_boot_code (disable_pic s'));
              let mp = mp_find s'';
              if mp \<noteq> NULL then mp_enumerate others junk mp s'' else Some s''
            });
     Some (apic_timer_one_shot 0x800000 s2)
   }"

section \<open>Start-up\<close>

text \<open>\<^verbatim>\<open>arch_init\<close> up to the point where it enables interrupts and waits, or gives up without a \<^verbatim>\<open>sigma0\<close> module.\<close>

definition arch_init :: "yield \<Rightarrow> (nat \<Rightarrow> u32) \<Rightarrow> (boot \<Rightarrow> boot) \<Rightarrow> ioapic_redirect_t \<Rightarrow> ptr \<Rightarrow> boot \<Rightarrow> boot option" where
  "arch_init yield stubs others junk header s = do {
     s1 \<leftarrow> timers_init s;
     let s2 = on_mem (bootinfo_init bootinfo header) s1;
     (memmaps, kernel_mem, s3) \<leftarrow> memmaps_init header NULL s2;
     let s4 = init_segment_descs s3;
     let s5 = remap_pic_vectors_default s4;
     s6 \<leftarrow> init_interrupts stubs s5;
     s7 \<leftarrow> init_memory kernel_mem s6;
     let s8 = on_kernel cap_space_init s7;
     let s9 = on_kernel phys_frame_init s8;
     s10 \<leftarrow> in_kernel addr_space_init s9;
     let s11 = on_kernel init_threading s10;
     let s12 = on_kernel sched_init s11;
     s13 \<leftarrow> in_kernel sched_init_cpu s12;
     s14 \<leftarrow> register_interrupt INTERRUPT_TIMER TIMER_HANDLER s13;
     s15 \<leftarrow> smp_init others junk s14;
     let sigma0 = sigma0_find_module header s15;
     if sigma0 = NULL then Some s15
     else do {
       (msgq, s16) \<leftarrow> sigma0_load yield sigma0 bootinfo s15;
       sigma0_send_memmaps yield memmaps msgq s16
     }
   }"

section \<open>Properties\<close>

subsection \<open>What boot information overwrites\<close>

text \<open>An address is behind another by a distance, taken modulo \<open>2^32\<close>; writes near an address leave distant ones alone.\<close>

lemma ne_by_distance: "n \<le> p - q \<Longrightarrow> k < n \<Longrightarrow> p \<noteq> q + (k :: u32)"
  by auto

lemma store32_frame: "p \<noteq> q \<Longrightarrow> p \<noteq> q + 1 \<Longrightarrow> p \<noteq> q + 2 \<Longrightarrow> p \<noteq> q + 3 \<Longrightarrow> store32 q v m p = m p"
  by (simp add: store32_def)

lemma strncpy_loop_frame:
  "strncpy_loop r dest src i m = (i', m') \<Longrightarrow> i \<le> i' \<and> i' \<le> i + r \<and>
     (\<forall>a. (\<forall>j. i \<le> j \<and> j < i + r \<longrightarrow> a \<noteq> dest + of_nat j) \<longrightarrow> m' a = m a)"
proof (induction r arbitrary: i m)
  case (Suc r)
  show ?case
  proof (cases "m (src + of_nat i) = 0")
    case False
    then have "strncpy_loop r dest src (Suc i) (m(dest + of_nat i := m (src + of_nat i))) = (i', m')"
      using Suc.prems by simp
    from Suc.IH [OF this] show ?thesis unfolding interval_Suc by auto
  qed (use Suc.prems in auto)
qed auto

lemma strncpy_frame:
  assumes "n \<noteq> 0"
  shows "n \<le> a - dest \<Longrightarrow> snd (strncpy dest src n m) a = m a"
    and "\<exists>i < n. snd (strncpy dest src n m) (dest + i) = 0"
proof -
  obtain i m1 where loop: "strncpy_loop (unat (n - 1)) dest src 0 m = (i, m1)" by fastforce
  have n1: "unat (n - 1) = unat n - 1" "0 < unat n" using assms by (simp_all add: unat_minus_one unat_gt_0)
  note fr = strncpy_loop_frame [OF loop]
  have lt: "(of_nat j :: u32) < n" if "j \<le> unat n - 1" for j
  proof -
    have "j < unat n" using that n1(2) by linarith
    then show ?thesis using unat_u32_less [of n] by (simp add: word_less_nat_alt unat_of_nat_u32 order.strict_trans)
  qed
  have i: "of_nat i < n" using fr n1 lt by simp
  show "snd (strncpy dest src n m) a = m a" if "n \<le> a - dest"
  proof -
    have "a \<noteq> dest + of_nat j" if "j \<le> unat n - 1" for j
      using ne_by_distance [OF \<open>n \<le> a - dest\<close> lt [OF that]] .
    then show ?thesis using fr n1(1) unfolding strncpy_def loop by simp
  qed
  show "\<exists>i < n. snd (strncpy dest src n m) (dest + i) = 0"
    using i by (intro exI [of _ "of_nat i"]) (simp add: strncpy_def loop)
qed

lemmas bi_offsets = bi_magic_def bi_major_def bi_minor_def bi_patch_def bi_cmdline_def bi_num_pages_def bi_fb_exists_def
  bi_fb_addr_def bi_fb_width_def bi_fb_height_def bi_fb_bpp_def

text \<open>The header before and the framebuffer behind the command line; the rest of the memory.\<close>

lemma store_framebuffer_frame:
  assumes "p - info < 276 \<or> 296 \<le> p - info" shows "store_framebuffer info mode m p = m p"
proof -
  have "p \<noteq> info + k" if "276 \<le> k" "k < 296" for k :: u32 using assms that by auto
  then show ?thesis by (simp add: store_framebuffer_def Let_def store32_def bi_offsets add.assoc)
qed

lemma bootinfo_base_frame:
  assumes "296 \<le> p - info" shows "bootinfo_base info header m p = m p"
proof -
  have ne: "p \<noteq> info + k" if "k < 296" for k using ne_by_distance [OF assms that] .
  from this [of 0] have "p \<noteq> info" by simp
  moreover have "256 \<le> p - (info + 16)"
  proof -
    have "unat ((p - info) - 16) = unat (p - info) - 16"
      using assms unat_sub [of 16 "p - info"] by (simp add: word_le_nat_alt)
    then have "256 \<le> (p - info) - 16" using assms by (simp add: word_le_nat_alt)
    then show ?thesis by (simp add: diff_diff_eq)
  qed
  ultimately show ?thesis using ne
    by (simp add: bootinfo_base_def Let_def store32_def bi_offsets add.assoc strncpy_frame(1))
qed

lemma bootinfo_init_cases:
  "bootinfo_init info header m = bootinfo_base info header m \<or>
   (\<exists>mode. is_valid_vbe (bootinfo_base info header m) mode \<and>
      bootinfo_init info header m = store_framebuffer info mode (bootinfo_base info header m))"
  by (auto simp: bootinfo_init_def Let_def)

lemma bootinfo_init_frame: "296 \<le> p - info \<Longrightarrow> bootinfo_init info header m p = m p"
  using bootinfo_init_cases [of info header m] by (auto simp: store_framebuffer_frame bootinfo_base_frame)

lemma bootinfo_base_magic: "load32 (bootinfo_base info header m) info = BOOTINFO_MAGIC"
  by (simp add: bootinfo_base_def Let_def load32_def load16_def strncpy_frame(1) bi_offsets add.assoc)
     (simp add: store32_def c4_enum)

lemma cmdline_offset: "(i :: u32) < 256 \<Longrightarrow> 16 + i < 276"
  using unat_add_u32 [of 16 i] by (simp add: word_less_nat_alt)

lemma bootinfo_base_cmdline: "\<exists>i < 256. bootinfo_base info header m (info + 16 + i) = 0"
proof -
  have "16 + i \<noteq> 276" if "i < 256" for i :: u32 using cmdline_offset [OF that] by auto
  then show ?thesis
    using strncpy_frame(2) [of 256 "info + 16"] by (fastforce simp: bootinfo_base_def Let_def bi_offsets add.assoc)
qed

lemma bootinfo_base_exists: "bootinfo_base info header m (info + 276) = 0"
  by (simp add: bootinfo_base_def Let_def bi_offsets)

lemma store_framebuffer_exists: "store_framebuffer info mode m (info + 276) = 1"
  by (simp add: store_framebuffer_def Let_def store32_def bi_offsets add.assoc)

text \<open>
  The \<open>n\<close> bytes at \<open>p\<close> lie outside the boot information, so that its assignments do not change them; what the
  framebuffer fields hold then.
\<close>

definition clear_of :: "ptr \<Rightarrow> ptr \<Rightarrow> u32 \<Rightarrow> bool" where
  "clear_of info p n \<longleftrightarrow> (\<forall>k < n. 296 \<le> p + k - info)"

lemma clear_ofI:
  assumes "296 \<le> p - info" and "unat (p - info) + unat n < 2 ^ 32"
  shows "clear_of info p n"
  unfolding clear_of_def
proof (intro allI impI)
  fix k assume "k < n"
  then have "unat ((p - info) + k) = unat (p - info) + unat k" using assms(2) by (subst unat_add_u32) (auto simp: word_less_nat_alt)
  then show "296 \<le> p + k - info" using assms(1) by (simp add: word_le_nat_alt algebra_simps)
qed

lemma load32_store32: "load32 (store32 p v m) p = v"
proof (rule bit_word_eqI)
  fix n :: nat
  have "n < 24 \<or> 24 + (n - 24) = n" by arith
  then show "bit (load32 (store32 p v m) p) n = bit v n" if "n < LENGTH(32)"
    using that by (auto simp: load32_def load16_def store32_def bit_simps add.assoc)
qed

lemma load32_store32_far:
  assumes "4 \<le> p - q" and "4 \<le> q - p"
  shows "load32 (store32 q v m) p = load32 m p"
proof -
  have near: "p + i \<noteq> q + j" if "i < 4" "j < 4" for i j
  proof
    assume eq: "p + i = q + j"
    then have "p - q = j - i" "q - p = i - j" by (auto simp: algebra_simps)
    moreover have "j - i \<le> j \<or> i - j \<le> i" by (metis linear word_sub_le)
    ultimately show False using assms that by (metis leD le_less_trans)
  qed
  from near [of 0 0] near [of 0] near [of _ 0] show ?thesis
    by (simp add: load32_def load16_def store32_frame near add.assoc)
qed

lemma clear_of_agree:
  assumes "\<forall>q. 296 \<le> q - info \<longrightarrow> f q = m q" and "clear_of info p n"
  shows "k < n \<Longrightarrow> f (p + k) = m (p + k)"
    and "k < n \<Longrightarrow> k + 1 < n \<Longrightarrow> load16 f (p + k) = load16 m (p + k)"
    and "k < n \<Longrightarrow> k + 1 < n \<Longrightarrow> k + 2 < n \<Longrightarrow> k + 3 < n \<Longrightarrow> load32 f (p + k) = load32 m (p + k)"
proof -
  have *: "f (p + k) = m (p + k)" if "k < n" for k using assms that by (simp add: clear_of_def)
  from * [of k] * [of "k + 1"] * [of "k + 2"] * [of "k + 3"]
  show "k < n \<Longrightarrow> f (p + k) = m (p + k)" "k < n \<Longrightarrow> k + 1 < n \<Longrightarrow> load16 f (p + k) = load16 m (p + k)"
    "k < n \<Longrightarrow> k + 1 < n \<Longrightarrow> k + 2 < n \<Longrightarrow> k + 3 < n \<Longrightarrow> load32 f (p + k) = load32 m (p + k)"
    by (simp_all add: load32_def load16_def add.assoc)
qed

lemma store_framebuffer_fields:
  fixes m :: memory
  assumes "clear_of info mode 44"
  defines "f \<equiv> store_framebuffer info mode m"
  shows "load32 f (info + 280) = load32 m (mode + 40)" and "load32 f (info + 284) = load16 m (mode + 18)"
    and "load32 f (info + 288) = load16 m (mode + 20)" and "load32 f (info + 292) = ucast (m (mode + 25))"
proof -
  define m1 where "m1 = m(info + 276 := 1)"
  define m2 where "m2 = store32 (info + 284) (load16 m1 (mode + 18)) m1"
  define m3 where "m3 = store32 (info + 288) (load16 m2 (mode + 20)) m2"
  define m4 where "m4 = store32 (info + 280) (load32 m3 (mode + 40)) m3"
  have f: "f = store32 (info + 292) (ucast (m4 (mode + 25))) m4"
    by (simp add: f_def store_framebuffer_def bi_offsets m1_def m2_def m3_def m4_def Let_def
        vbe_x_res_def vbe_y_res_def vbe_physbase_def vbe_bpp_def)
  have "m1 q = m q" "m2 q = m q" "m3 q = m q" "m4 q = m q" if "296 \<le> q - info" for q
    using ne_by_distance [OF that] by (simp_all add: m1_def m2_def m3_def m4_def store32_def add.assoc)
  then have "\<forall>q. 296 \<le> q - info \<longrightarrow> m1 q = m q" "\<forall>q. 296 \<le> q - info \<longrightarrow> m2 q = m q"
    "\<forall>q. 296 \<le> q - info \<longrightarrow> m3 q = m q" "\<forall>q. 296 \<le> q - info \<longrightarrow> m4 q = m q" by blast+
  note agree = clear_of_agree [OF this(1) assms(1)] clear_of_agree [OF this(2) assms(1)]
    clear_of_agree [OF this(3) assms(1)] clear_of_agree [OF this(4) assms(1)]
  have r: "load16 m1 (mode + 18) = load16 m (mode + 18)" "load16 m2 (mode + 20) = load16 m (mode + 20)"
    "load32 m3 (mode + 40) = load32 m (mode + 40)" "m4 (mode + 25) = m (mode + 25)"
    by (rule agree; simp)+
  show "load32 f (info + 280) = load32 m (mode + 40)" "load32 f (info + 284) = load16 m (mode + 18)"
    "load32 f (info + 288) = load16 m (mode + 20)" "load32 f (info + 292) = ucast (m (mode + 25))"
    unfolding f [unfolded r] m4_def [unfolded r] m3_def [unfolded r] m2_def [unfolded r] by (simp_all add: load32_store32_far load32_store32)
qed


lemma bootinfo_init_mode:
  assumes "clear_of info header 80" and "mode = low_phys_to_virt (load32 m (header + 76))" and "clear_of info mode 44"
    and "b = bootinfo_base info header m"
  shows "bootinfo_init info header m =
     (if FLAG (load32 m header) MULTIBOOT_FLAG_VBE \<and> is_valid_vbe m mode then store_framebuffer info mode b else b)"
proof -
  have agree: "\<forall>q. 296 \<le> q - info \<longrightarrow> b q = m q" using bootinfo_base_frame by (simp add: assms(4))
  note hd = clear_of_agree(3) [OF agree assms(1)] and md = clear_of_agree [OF agree assms(3)]
  have "load32 b header = load32 m header" "load32 b (header + 76) = load32 m (header + 76)"
    using hd [where k = 0] hd [where k = 76] by simp_all
  moreover have "is_valid_vbe b mode = is_valid_vbe m mode"
    using md(1) [where k = 25] md(3) [where k = 40] by (simp add: is_valid_vbe_def vbe_physbase_def vbe_bpp_def)
  ultimately show ?thesis
    by (simp add: bootinfo_init_def Let_def mb_flags_def mb_vbe_mode_info_def assms(2) flip: assms(4))
qed

lemma bootinfo_init_framebuffer:
  assumes "m' = bootinfo_init info header m" and mode: "mode = low_phys_to_virt (load32 m (header + 76))"
    and c: "clear_of info header 80" "clear_of info mode 44"
  shows "m' (info + 276) = 1 \<longleftrightarrow> FLAG (load32 m header) MULTIBOOT_FLAG_VBE \<and>
      load32 m (mode + 40) \<noteq> 0 \<and> m (mode + 25) \<noteq> 0 \<and> m (mode + 25) \<noteq> 0xff"
    and "m' (info + 276) = 1 \<longrightarrow>
      load32 m' (info + 280) = load32 m (mode + 40) \<and> load32 m' (info + 284) = load16 m (mode + 18) \<and>
      load32 m' (info + 288) = load16 m (mode + 20) \<and> load32 m' (info + 292) = ucast (m (mode + 25))"
proof -
  let ?b = "bootinfo_base info header m"
  note eq = bootinfo_init_mode [OF c(1) mode c(2) refl, folded assms(1)]
  have "\<forall>q. 296 \<le> q - info \<longrightarrow> ?b q = m q" using bootinfo_base_frame by blast
  note md = clear_of_agree [OF this c(2)]
  show "m' (info + 276) = 1 \<longleftrightarrow> FLAG (load32 m header) MULTIBOOT_FLAG_VBE \<and>
      load32 m (mode + 40) \<noteq> 0 \<and> m (mode + 25) \<noteq> 0 \<and> m (mode + 25) \<noteq> 0xff"
    unfolding eq is_valid_vbe_def vbe_physbase_def vbe_bpp_def by (auto simp: bootinfo_base_exists store_framebuffer_exists)
  then show "m' (info + 276) = 1 \<longrightarrow>
      load32 m' (info + 280) = load32 m (mode + 40) \<and> load32 m' (info + 284) = load16 m (mode + 18) \<and>
      load32 m' (info + 288) = load16 m (mode + 20) \<and> load32 m' (info + 292) = ucast (m (mode + 25))"
    using eq store_framebuffer_fields [OF c(2), of ?b] md(1) [where k = 25] md(2) [where k = 18] md(2) [where k = 20]
      md(3) [where k = 40] by (auto simp: is_valid_vbe_def vbe_physbase_def vbe_bpp_def)
qed

text \<open>
  C33. Whatever the boot loader passes, \<^verbatim>\<open>bootinfo_init\<close> produces boot information with the magic number and a command
  line that is terminated inside its 256 bytes, its framebuffer flag is 0 or 1, and nothing outside the structure
  changes. When the loader's header and the video mode at its field \<^verbatim>\<open>vbe_mode_info\<close> (offset 76) lie outside the structure,
  the flag is 1 exactly if the header announces a mode that has a base address and a colour depth other than 0 and
  255, and then address, width, height and depth are the ones of that mode.
\<close>

theorem bootinfo_init_wellformed:
  assumes "m' = bootinfo_init info header m" and "mode = low_phys_to_virt (load32 m (header + 76))"
  shows "load32 m' info = BOOTINFO_MAGIC \<and> (\<exists>i < 256. m' (info + 16 + i) = 0) \<and> m' (info + 276) \<in> {0, 1} \<and>
    (\<forall>p. 296 \<le> p - info \<longrightarrow> m' p = m p) \<and>
    (clear_of info header 80 \<and> clear_of info mode 44 \<longrightarrow>
      (m' (info + 276) = 1 \<longleftrightarrow> FLAG (load32 m header) MULTIBOOT_FLAG_VBE \<and>
         load32 m (mode + 40) \<noteq> 0 \<and> m (mode + 25) \<noteq> 0 \<and> m (mode + 25) \<noteq> 0xff) \<and>
      (m' (info + 276) = 1 \<longrightarrow>
         load32 m' (info + 280) = load32 m (mode + 40) \<and> load32 m' (info + 284) = load16 m (mode + 18) \<and>
         load32 m' (info + 288) = load16 m (mode + 20) \<and> load32 m' (info + 292) = ucast (m (mode + 25))))"
proof -
  let ?b = "bootinfo_base info header m"
  have low: "m' p = ?b p" if "p - info < 276" for p
    using bootinfo_init_cases [of info header m] that by (auto simp: assms(1) store_framebuffer_frame)
  obtain i where i: "i < 256" "?b (info + 16 + i) = 0" using bootinfo_base_cmdline by blast
  have "m' (info + 16 + i) = 0" using low [of "info + 16 + i"] i(2) cmdline_offset [OF i(1)] by (simp add: add.assoc)
  moreover have "load32 m' info = BOOTINFO_MAGIC"
    using bootinfo_base_magic [of info header m] by (simp add: load32_def load16_def low add.assoc)
  moreover have "m' (info + 276) \<in> {0, 1}"
    using bootinfo_init_cases [of info header m] bootinfo_base_exists [of info header m] store_framebuffer_exists
    unfolding assms(1) by auto
  moreover have "\<forall>p. 296 \<le> p - info \<longrightarrow> m' p = m p" using bootinfo_init_frame by (simp add: assms(1))
  ultimately show ?thesis
    using i(1) bootinfo_init_framebuffer [OF assms] by (intro conjI) (blast+)
qed

text \<open>A header at 0x9000 that announces a video mode at 0x8000: 1024 by 768 with 32 bits, at \<open>0xe0000000\<close>.\<close>

definition vbe_mem :: memory where
  "vbe_mem = (\<lambda>_. 0)(0x9001 := 8, 0x904d := 0x80,
     0xfd008013 := 4, 0xfd008015 := 3, 0xfd008019 := 32, 0xfd00802b := 0xe0)"

text \<open>C33 for that header.\<close>

theorem bootinfo_init_wellformed_witness:
  "\<exists>m'. m' = bootinfo_init bootinfo 0x9000 vbe_mem \<and> load32 m' bootinfo = BOOTINFO_MAGIC \<and> m' (bootinfo + 276) = 1 \<and>
     load32 m' (bootinfo + 280) = 0xe0000000 \<and> load32 m' (bootinfo + 284) = 1024 \<and> load32 m' (bootinfo + 288) = 768 \<and>
     load32 m' (bootinfo + 292) = 32 \<and> m' 0x9001 = 8"
proof -
  have mode: "0xfd008000 = low_phys_to_virt (load32 vbe_mem (0x9000 + 76))"
    by (simp add: vbe_mem_def load32_def load16_def low_phys_to_virt_def KERNEL_BASE_def)
  have c: "clear_of bootinfo 0x9000 80" "clear_of bootinfo 0xfd008000 44" by (rule clear_ofI; simp add: bootinfo_def)+
  have v: "load32 vbe_mem 0x9000 = 0x800" "load32 vbe_mem (0xfd008000 + 40) = 0xe0000000" "vbe_mem (0xfd008000 + 25) = 32"
    "load16 vbe_mem (0xfd008000 + 18) = 1024" "load16 vbe_mem (0xfd008000 + 20) = 768" "vbe_mem 0x9001 = 8"
    by (simp_all add: vbe_mem_def load32_def load16_def)
  have "296 \<le> 0x9001 - bootinfo" by (simp add: bootinfo_def)
  with bootinfo_init_wellformed [OF refl mode, of bootinfo, unfolded v] c v(6)
  show ?thesis by (simp add: MULTIBOOT_FLAG_VBE_def FLAG_def)
qed

subsection \<open>Memory\<close>

lemma pit_poll_mem: "pit_poll status s = Some s' \<Longrightarrow> mp_mem (s' :: boot) = mp_mem s"
proof (rule pit_poll.raw_induct [where P = "\<lambda>_ (s :: boot) s'. mp_mem s' = mp_mem s"])
  fix poll status and s s' :: boot
  let ?s = "outb PIT_COMMAND (PIT_CMD_READ_BACK OR PIT_READ_LATCH_COUNT OR PIT_READ_CHAN0) s"
  assume IH: "\<And>status (s :: boot) s'. poll status s = Some s' \<Longrightarrow> mp_mem s' = mp_mem s"
    and run: "(if status AND PIT_STATUS_STATE = 0 then let s1 = ?s in poll (inb PIT_CHAN0 s1) s1 else Some s) = Some s'"
  show "mp_mem s' = mp_mem s"
  proof (cases "status AND PIT_STATUS_STATE = 0")
    case True
    then have "mp_mem s' = mp_mem ?s" using run by (intro IH) (simp add: Let_def)
    then show ?thesis by (simp add: outb_def)
  qed (use run in simp)
qed

lemma timers_init_mem: "timers_init s = Some s' \<Longrightarrow> mp_mem (s' :: boot) = mp_mem s"
  by (auto simp: timers_init_def measure_cpu_freq_def on_clock_def pit_wait_poll_def outb_def Let_def
      dest!: pit_poll_mem elim!: bind_eq_SomeE split: prod.splits)

text \<open>
  A machine whose boot loader gives no memory map: \<^verbatim>\<open>memmaps_init\<close> reports it and returns, the kernel's map stays
  \<^verbatim>\<open>NULL\<close>, and \<^verbatim>\<open>init_memory\<close> dereferences it, so \<^verbatim>\<open>arch_init\<close> faults on every such machine.
\<close>

theorem arch_init_without_memmap:
  assumes "\<not> FLAG (load32 (mp_mem s) header) MULTIBOOT_FLAG_MMAP"
    and "\<And>i. i < 4 \<Longrightarrow> sizeof_bootinfo_t \<le> header + i - bootinfo"
  shows "arch_init yield stubs others junk header s = None"
proof (cases "timers_init s")
  case (Some s1)
  have "bootinfo_init bootinfo header (mp_mem s1) (header + i) = mp_mem s (header + i)" if "i < 4" for i
    using assms(2) [OF that] timers_init_mem [OF Some] by (simp add: bootinfo_init_frame sizeof_bootinfo_t_def)
  from this [of 0] this [of 1] this [of 2] this [of 3]
  have "load32 (bootinfo_init bootinfo header (mp_mem s1)) header = load32 (mp_mem s) header"
    by (simp add: load32_def load16_def add.assoc)
  then show ?thesis
    using Some assms(1) by (simp add: arch_init_def memmaps_init_def init_memory_def on_mem_def mb_flags_def Let_def bind_eq_None_conv)
qed (simp add: arch_init_def)

text \<open>The machine at the start of the kernel: a memory of zero bytes and an early heap at the end of the image.\<close>

definition boot_boot :: boot where
  "boot_boot = mp.extend boot_mp
     \<lparr>bo_heap_ptr = 0xfd100000, bo_maps = (\<lambda>_. \<lparr>pm_next = NULL, pm_addr = 0, pm_length = 0\<rparr>), bo_sigma0_maps = NULL,
      bo_sigma0_msgq = NULL, bo_smp_start = 0xfd039000, bo_smp_end = 0xfd039100\<rparr>"

text \<open>An instance for a header of zero bytes at 0x9000.\<close>

theorem arch_init_without_memmap_witness: "arch_init Some (\<lambda>_. 0) id 0 0x9000 boot_boot = None"
proof (rule arch_init_without_memmap)
  show "\<not> FLAG (load32 (mp_mem boot_boot) 0x9000) MULTIBOOT_FLAG_MMAP"
    by (simp add: boot_boot_def boot_mp_def mp.defs ioapics.defs load32_def load16_def FLAG_def)
  show "sizeof_bootinfo_t \<le> 0x9000 + i - bootinfo" if "i < 4" for i
  proof -
    have "0x9000 + i - bootinfo = i + (0x9000 - bootinfo)" by (simp only: add.commute add_diff_eq)
    also have "\<dots> = i + 0x2fd4000" by (simp add: bootinfo_def)
    finally have d: "0x9000 + i - bootinfo = i + 0x2fd4000" .
    have u: "unat (i + 0x2fd4000) = unat i + 0x2fd4000" using that by (subst unat_add_u32) (auto simp: word_less_nat_alt)
    show ?thesis unfolding d u sizeof_bootinfo_t_def word_le_nat_alt by simp
  qed
qed

text \<open>
  C38. \<^verbatim>\<open>memmaps_init\<close> on a map whose one entry is the memory from 1 MB on, of \<open>len\<close> bytes: the kernel takes the 8 MB
  from 4 MB on as its own page memory, and the map that \<^verbatim>\<open>sigma0\<close> is given starts at 9 MB. The pages from
  9 MB up to 12 MB are in both.
\<close>

theorem memmaps_overlap:
  assumes "FLAG (load32 (mp_mem s) mboot) MULTIBOOT_FLAG_MMAP" and "load32 (mp_mem s) (mboot + 44) = 24"
    and "e = low_phys_to_virt (load32 (mp_mem s) (mboot + 48))"
    and "load32 (mp_mem s) e = 20" and "load32 (mp_mem s) (e + 4) = 0x100000" and "load32 (mp_mem s) (e + 12) = len"
    and "load32 (mp_mem s) (e + 20) = MULTIBOOT_MEM_AVAILABLE" and "len > 0xc00000"
  shows "\<exists>n k s'. memmaps_init mboot NULL s = Some (n, k, s') \<and>
    bo_maps s' k = \<lparr>pm_next = NULL, pm_addr = 0x400000, pm_length = 0x800000\<rparr> \<and>
    bo_maps s' n = \<lparr>pm_next = NULL, pm_addr = 0x900000, pm_length = len - 0x800000\<rparr> \<and>
    (\<forall>a. 0x900000 \<le> a \<and> a < 0xc00000 \<longrightarrow>
       a - pm_addr (bo_maps s' k) < pm_length (bo_maps s' k) \<and> a - pm_addr (bo_maps s' n) < pm_length (bo_maps s' n))"
proof -
  let ?n = "bo_heap_ptr s" and ?k = "bo_heap_ptr s + 16"
  define s' where "s' = s\<lparr>bo_heap_ptr := ?k + 16, bo_maps := (bo_maps s)
    (?k := \<lparr>pm_next = NULL, pm_addr = 0x400000, pm_length = 0x800000\<rparr>,
     ?n := \<lparr>pm_next = NULL, pm_addr = 0x900000, pm_length = len - 0x800000\<rparr>)\<rparr>"
  have add: "add_memmap 0x100000 len NULL NULL s = (?n, ?k, s')"
    by (simp add: add_memmap_def early_alloc_def kealloc_def sizeof_phys_memmap_t_def Let_def s'_def fun_upd_twist)
  have "memmaps_init mboot NULL s = memmaps_loop mboot e 0 NULL NULL s"
    using assms(1,3) by (simp add: memmaps_init_def mb_flags_def mb_mmap_addr_def)
  also have "\<dots> = memmaps_loop mboot e 24 ?n ?k s'"
    using assms add by (subst memmaps_loop.simps)
      (simp add: mb_mmap_length_def mm_size_def mm_addr_high_def mm_len_high_def mm_type_def Let_def)
  also have "\<dots> = Some (?n, ?k, s')"
    using assms(2) by (subst memmaps_loop.simps) (simp add: mb_mmap_length_def s'_def)
  finally have run: "memmaps_init mboot NULL s = Some (?n, ?k, s')" .
  have "a - 0x400000 < 0x800000 \<and> a - 0x900000 < len - 0x800000" if "0x900000 \<le> a" "a < 0xc00000" for a :: u32
  proof -
    have "unat (a - 0x400000) = unat a - 0x400000" "unat (a - 0x900000) = unat a - 0x900000" "unat (len - 0x800000) = unat len - 0x800000"
      using that assms(8) by (subst unat_sub; simp add: word_le_nat_alt word_less_nat_alt)+
    moreover have "x - 4194304 < 8388608 \<and> x - 9437184 < y - 8388608"
      if "9437184 \<le> x" "x < 12582912" "12582912 < y" for x y :: nat using that by linarith
    ultimately show ?thesis using that assms(8) by (simp add: word_le_nat_alt word_less_nat_alt)
  qed
  then show ?thesis by (intro exI [of _ ?n] exI [of _ ?k] exI [of _ s']) (simp add: run s'_def)
qed

text \<open>A machine with 64 MB.\<close>

definition memmap_boot :: boot where
  "memmap_boot = boot_boot\<lparr>mp_mem := (\<lambda>_. 0)(0x9000 := 0x40, 0x902c := 24, 0x9031 := 0x80,
     0xfd008000 := 20, 0xfd008006 := 0x10, 0xfd00800f := 4, 0xfd008014 := 1)\<rparr>"

text \<open>C38 on that machine.\<close>

theorem memmaps_overlap_witness:
  "\<exists>n k s'. memmaps_init 0x9000 NULL memmap_boot = Some (n, k, s') \<and> pm_addr (bo_maps s' n) = 0x900000 \<and>
     pm_length (bo_maps s' n) = 0x3800000"
proof -
  let ?m = "mp_mem memmap_boot"
  have l: "load32 ?m 0x9000 = 0x40" "load32 ?m (0x9000 + 44) = 24" "load32 ?m (0x9000 + 48) = 0x8000"
    "load32 ?m 0xfd008000 = 20" "load32 ?m (0xfd008000 + 4) = 0x100000" "load32 ?m (0xfd008000 + 12) = 0x4000000"
    "load32 ?m (0xfd008000 + 20) = MULTIBOOT_MEM_AVAILABLE"
    by (simp_all add: memmap_boot_def load32_def load16_def MULTIBOOT_MEM_AVAILABLE_def)
  have "FLAG (load32 ?m 0x9000) MULTIBOOT_FLAG_MMAP" "0xfd008000 = low_phys_to_virt (load32 ?m (0x9000 + 48))"
    by (simp_all only: l) (simp_all add: FLAG_def MULTIBOOT_FLAG_MMAP_def low_phys_to_virt_def KERNEL_BASE_def)
  from memmaps_overlap [OF this(1) l(2) this(2) l(4-7)] show ?thesis by auto
qed

end
