(* ===== verification/C4_Dump.thy ===== *)
theory C4_Dump
  imports C4_Boot C4_AATree
begin

text \<open>
  The functions that print kernel structures (\<^verbatim>\<open>atree_print\<close>, \<^verbatim>\<open>addr_map_dump\<close>, \<^verbatim>\<open>dump_raw_memmaps\<close>,
  \<^verbatim>\<open>dump_cooked_memmaps\<close>, \<^verbatim>\<open>ioapic_print_redirects\<close>, \<^verbatim>\<open>apic_debug_isr\<close>, \<^verbatim>\<open>interrupt_print_frame\<close>), as the text they pass to
  \<^verbatim>\<open>debug_printf\<close>. A dump that follows a null pointer, misuses \<^verbatim>\<open>debug_printf\<close> or never ends is \<open>None\<close>. The lemma
  \<open>debug_printf_fits\<close> is the contract of \<^verbatim>\<open>debug_printf\<close>: a format whose directives fit its arguments is printed. With it
  the dumps are shown to return on well-formed structures; \<^verbatim>\<open>atree_print\<close> lists the nodes in the order of their
  keys, without the keys.
\<close>

section \<open>The dumps\<close>

definition newline :: string where "newline = [CHR 0x0A]"

text \<open>What a sequence of calls prints.\<close>

definition printed :: "string option list \<Rightarrow> string option" where
  "printed ts = map_option concat (those ts)"

text \<open>\<^verbatim>\<open>get_key\<close> returns 64 bits, which take two argument words.\<close>

definition key_args :: "u64 \<Rightarrow> va_arg list" where
  "key_args v = [Word_arg (ucast v), Word_arg (ucast (drop_bit 32 v))]"

definition node_line :: "get_key_t \<Rightarrow> ptr \<Rightarrow> u32 \<Rightarrow> 'a katree_scheme \<Rightarrow> string option" where
  "node_line get_key node indent k =
     (let n = k_anodes k node
      in printed (replicate (unat indent) (debug_printf ''  |'' []) @
           [debug_printf ''- (%u) %p : %p : %d''
              ([Word_arg (an_level n), Word_arg node, Word_arg (an_data n)] @ key_args (get_key (an_data n))),
            debug_printf newline []]))"

partial_function (option) do_node_print :: "get_key_t \<Rightarrow> ptr \<Rightarrow> u32 \<Rightarrow> 'a katree_scheme \<Rightarrow> string option" where [code]:
  "do_node_print get_key node indent k = do {
     n \<leftarrow> deref node k;
     if an_level n \<noteq> 0
     then do {
       left \<leftarrow> do_node_print get_key (leaves n LEFT) (indent + 1) k;
       line \<leftarrow> node_line get_key node indent k;
       right \<leftarrow> do_node_print get_key (leaves n RIGHT) (indent + 1) k;
       Some (left @ line @ right)
     }
     else Some []
   }"

definition atree_print :: "get_key_t \<Rightarrow> c4_atree_t \<Rightarrow> 'a katree_scheme \<Rightarrow> string option" where
  "atree_print get_key tree k = do_node_print get_key (at_root tree) 0 k"

definition entry_dump :: "nat \<Rightarrow> addr_map_t \<Rightarrow> kernel \<Rightarrow> string option" where
  "entry_dump i m k =
     (if i < length (am_map m)
      then do {
        let e = am_map m ! i;
        f \<leftarrow> get_frame (ae_frame e) k;
        let start = ae_addr e;
        let end_addr = start + pf_size f * PAGE_SIZE;
        let p_start = pf_address f;
        let p_end = p_start + pf_size f * PAGE_SIZE;
        printed [debug_printf (''  entry %u : %x -> %x'' @ newline) [Word_arg (of_nat i), Word_arg start, Word_arg end_addr],
                 debug_printf (''          : %x -> %x'' @ newline) [Word_arg p_start, Word_arg p_end]]
      }
      else None)"

definition addr_map_dump :: "ptr \<Rightarrow> kernel \<Rightarrow> string option" where
  "addr_map_dump p k = do {
     m \<leftarrow> get_addr_map p k;
     printed (debug_printf (''address map @ %p:'' @ newline) [Word_arg p] #
              map (\<lambda>i. entry_dump i m k) [0..<unat (am_used m)])
   }"

definition raw_memmap_line :: "ptr \<Rightarrow> memory \<Rightarrow> string option" where
  "raw_memmap_line foo m =
     (let a = load32 m (foo + mm_addr_high);
          b = a + load32 m (foo + mm_len_high);
          s = (if load32 m (foo + mm_type) = MULTIBOOT_MEM_AVAILABLE then ''available'' else ''reserved'')
      in debug_printf (''%p (%u)> %p -> %p (%u: %s)'' @ newline)
           [Word_arg foo, Word_arg (load32 m (foo + mm_size)), Word_arg a, Word_arg b,
            Word_arg (load32 m (foo + mm_type)), String_arg s])"

partial_function (option) raw_memmaps_from :: "ptr \<Rightarrow> u32 \<Rightarrow> u32 \<Rightarrow> memory \<Rightarrow> string option" where [code]:
  "raw_memmaps_from mp len offset m =
     (if offset < len
      then do {
        line \<leftarrow> raw_memmap_line (mp + offset) m;
        rest \<leftarrow> raw_memmaps_from mp len (offset + (load32 m (mp + offset + mm_size) + 4)) m;
        Some (line @ rest)
      }
      else Some [])"

definition dump_raw_memmaps :: "ptr \<Rightarrow> u32 \<Rightarrow> memory \<Rightarrow> string option" where
  "dump_raw_memmaps mp len m = raw_memmaps_from mp len 0 m"

partial_function (option) dump_cooked_memmaps :: "ptr \<Rightarrow> boot \<Rightarrow> string option" where [code]:
  "dump_cooked_memmaps mp s =
     (if mp = NULL then Some []
      else do {
        let e = bo_maps s mp;
        line \<leftarrow> debug_printf (''map %p > %p, %u bytes'' @ newline)
                  [Word_arg (pm_addr e), Word_arg (pm_addr e + pm_length e), Word_arg (pm_length e)];
        rest \<leftarrow> dump_cooked_memmaps (pm_next e) s;
        Some (line @ rest)
      })"

definition rd_arg :: "redirect_field \<Rightarrow> ioapic_redirect_t \<Rightarrow> va_arg" where
  "rd_arg f r = Word_arg (ucast (get_rd f r))"

definition ioapic_print_redirect :: "ioapic_redirect_t \<Rightarrow> ioapic_t \<Rightarrow> u32 \<Rightarrow> 'a ioapics_scheme \<Rightarrow> string option" where
  "ioapic_print_redirect junk ident entry s =
     (if \<not> is_valid_redirect ident entry s
      then debug_printf ('' - ioapic %u: invalid redirect %u'' @ newline) [Word_arg ident, Word_arg entry]
      else let redirect = ioapic_get_redirect junk ident entry s
        in debug_printf
          (''    - lower: %x, upper: %x'' @ newline @ ''    - vector: %x'' @ newline @ ''    - delivery: %x'' @ newline @
           ''    - destination mode: %x'' @ newline @ ''    - delivery status: %x'' @ newline @ ''    - polarity: %x'' @ newline @
           ''    - remote irr: %x'' @ newline @ ''    - trigger mode: %x'' @ newline @ ''    - mask: %x'' @ newline @
           ''    - destination: %x'' @ newline)
          ([Word_arg (rd_lower redirect), Word_arg (rd_upper redirect)] @
           map (\<lambda>f. rd_arg f redirect)
             [rd_vector, rd_delivery, rd_destination_mode, rd_status, rd_polarity, rd_remote_irr, rd_trigger, rd_mask,
              rd_destination]))"

definition ioapic_print_redirects :: "ioapic_redirect_t \<Rightarrow> ioapic_t \<Rightarrow> 'a ioapics_scheme \<Rightarrow> string option" where
  "ioapic_print_redirects junk ident s =
     (let max_entries = ioapic_max_redirects ident s
      in if ioapic_get ident s = NULL then debug_printf ('' - WARNING: Invalid ioapic %u!'' @ newline) [Word_arg ident]
         else printed (debug_printf ('' - ioapic %u redirection table:'' @ newline) [Word_arg ident] #
           map (\<lambda>i. printed [debug_printf ('' > entry %u/%u:'' @ newline) [Word_arg (of_nat i), Word_arg max_entries],
                             ioapic_print_redirect junk ident (of_nat i) s]) [0..<unat max_entries] @
           [debug_printf newline []]))"

definition APIC_REG_IN_SERVICE :: u32 where "APIC_REG_IN_SERVICE = 0x100"
definition APIC_REG_INTR_REQUEST :: u32 where "APIC_REG_INTR_REQUEST = 0x200"

text \<open>The loop of the two functions, over the registers from \<open>i\<close> on: \<open>n\<close> of them, 16 bytes apart.\<close>

primrec apic_registers :: "nat \<Rightarrow> u32 \<Rightarrow> 'a devices_scheme \<Rightarrow> string option list" where
  "apic_registers 0 i s = []"
| "apic_registers (Suc n) i s =
     debug_printf ('' > 0x%x : 0x%x'' @ newline) [Word_arg i, Word_arg (apic_read i s)] # apic_registers n (i + 0x10) s"

definition apic_debug_isr :: "'a devices_scheme \<Rightarrow> string option" where
  "apic_debug_isr s =
     printed (debug_printf ('' = APIC ISR:'' @ newline) [] #
              apic_registers (unat (0x180 - APIC_REG_IN_SERVICE) div 0x10) APIC_REG_IN_SERVICE s)"

definition apic_debug_irr :: "'a devices_scheme \<Rightarrow> string option" where
  "apic_debug_irr s =
     printed (debug_printf ('' = APIC IRR:'' @ newline) [] #
              apic_registers (unat (0x280 - APIC_REG_INTR_REQUEST) div 0x10) APIC_REG_INTR_REQUEST s)"

definition interrupt_print_frame :: "interrupt_frame_t \<Rightarrow> string option" where
  "interrupt_print_frame frame =
     debug_printf
       ('' => edi: 0x%x '' @ newline @ '' => esi: 0x%x '' @ newline @ '' => ebp: 0x%x '' @ newline @
        '' => esp: 0x%x '' @ newline @ '' => ebx: 0x%x '' @ newline @ '' => edx: 0x%x '' @ newline @
        '' => ecx: 0x%x '' @ newline @ '' => eax: 0x%x '' @ newline @ '' => eip: 0x%x '' @ newline @
        '' => interrupt: %u '' @ newline @ '' => error:     %u '' @ newline)
       (map Word_arg [fr_edi frame, fr_esi frame, fr_ebp frame, fr_esp frame, fr_ebx frame, fr_edx frame, fr_ecx frame,
          fr_eax frame, fr_eip frame, fr_intr_num frame, fr_error_num frame])"

text \<open>
  \<^verbatim>\<open>timer_uptime\<close>: the division is unsigned. Its assertion, compiled in unless \<^verbatim>\<open>KNDEBUG\<close> is defined, only prints.
\<close>

definition timer_uptime :: "kernel \<Rightarrow> (u64 \<times> kernel) option" where
  "timer_uptime k =
     (let (uptime, k1) = timer_get_timestamp k
      in if k_cpu_frequency k div 1000 = 0 then None
         else Some ((uptime * 1000000) div (k_cpu_frequency k div 1000), k1))"

definition page_get_kernel_dir :: "paging \<Rightarrow> ptr" where
  "page_get_kernel_dir pg = pg_kernel_dir pg"

section \<open>The contract of formatted output\<close>

text \<open>The directives of a format that take an argument; \<open>None\<close> for a \<^verbatim>\<open>%\<close> at its end.\<close>

fun directives :: "string \<Rightarrow> string option" where
  "directives [] = Some []"
| "directives [c] = (if c = CHR ''%'' then None else Some [])"
| "directives (c # d # cs) =
     (if c \<noteq> CHR ''%'' then directives (d # cs)
      else if d \<in> set ''suxbp'' then map_option ((#) d) (directives cs)
      else directives cs)"

fun fits :: "char \<Rightarrow> va_arg \<Rightarrow> bool" where
  "fits d (String_arg t) \<longleftrightarrow> d = CHR ''s''"
| "fits d (Word_arg v) \<longleftrightarrow> d \<in> set ''uxbp''"

lemma debug_print_num_returns:
  assumes "distinct bs" and "2 \<le> length bs" and "length bs < 4294967296"
  shows "\<exists>ds. debug_print_num n bs = Some ds"
proof -
  have "unat n < 2 ^ 33" using unat_u32_less [of n] by (simp del: unat_u32_less)
  then show ?thesis using digit_loop_value [OF assms, of n 33 "[]"] by (auto simp: debug_print_num_def)
qed

lemma print_arg_fits: "fits d a \<Longrightarrow> \<exists>t. print_arg d a = Some t"
  using debug_print_num_returns [of decimal] debug_print_num_returns [of hexadecimal] debug_print_num_returns [of binary]
  by (cases a) (auto simp: decimal_def hexadecimal_def binary_def)

lemma debug_printf_fits:
  "directives f = Some ds \<Longrightarrow> list_all2 fits ds args \<Longrightarrow> \<exists>t. debug_printf f (args @ rest) = Some t"
proof (induction f arbitrary: ds args rule: directives.induct)
  case (3 c d cs)
  show ?case
  proof (cases "c = CHR ''%'' \<and> d \<in> set ''suxbp''")
    case True
    with "3.prems"(1) obtain es where es: "directives cs = Some es" "ds = d # es" by auto
    with "3.prems"(2) obtain a as where as: "args = a # as" "fits d a" "list_all2 fits es as"
      by (auto simp: list_all2_Cons1)
    from True have "\<exists>t. debug_printf cs (as @ rest) = Some t" using "3.IH"(2) es as by blast
    then show ?thesis using True as print_arg_fits [OF as(2)] by auto
  next
    case False
    then show ?thesis using "3.IH"(1,3) "3.prems" by (auto split: if_splits)
  qed
qed (auto split: if_splits)

text \<open>A call whose arguments are those its format asks for.\<close>

definition well_formatted :: "string \<Rightarrow> va_arg list \<Rightarrow> bool" where
  "well_formatted f args \<longleftrightarrow> (case directives f of None \<Rightarrow> False | Some ds \<Rightarrow> list_all2 fits ds args)"

lemma printf_returns: "well_formatted f args \<Longrightarrow> debug_printf f (args @ rest) \<noteq> None"
  using debug_printf_fits by (fastforce simp: well_formatted_def split: option.splits)

lemmas printf_ok = printf_returns [where rest = "[]", unfolded append_Nil2]

lemma printed_simps:
  "printed [] = Some []"
  "printed (t # ts) = do { a \<leftarrow> t; b \<leftarrow> printed ts; Some (a @ b) }"
  by (cases "those ts"; auto simp: printed_def split: option.splits)+

lemma printed_Nil: "printed [] \<noteq> None"
  by (simp add: printed_simps)

lemma printed_Cons: "t \<noteq> None \<Longrightarrow> printed ts \<noteq> None \<Longrightarrow> printed (t # ts) \<noteq> None"
  by (auto simp: printed_simps)

lemma printed_map: "(\<And>x. x \<in> set xs \<Longrightarrow> f x \<noteq> None) \<Longrightarrow> printed ts \<noteq> None \<Longrightarrow> printed (map f xs @ ts) \<noteq> None"
proof (induction xs)
  case (Cons x xs)
  then have "f x \<noteq> None" "printed (map f xs @ ts) \<noteq> None" by auto
  then show ?case by (simp only: list.map append.simps printed_Cons not_False_eq_True)
qed simp

lemma printed_replicate: "t \<noteq> None \<Longrightarrow> printed ts \<noteq> None \<Longrightarrow> printed (replicate n t @ ts) \<noteq> None"
  using printed_map [of "replicate n t" "\<lambda>x. x" ts] by auto

lemmas printed_ok = printed_map printed_map [where ts = "[]", unfolded append_Nil2] printed_Cons printed_Nil

lemmas print_eval = well_formatted_def newline_def

section \<open>The dumps return\<close>

text \<open>Whatever the frame, the registers of the APIC or the redirections hold, they are printed.\<close>

lemma interrupt_print_frame_returns: "interrupt_print_frame frame \<noteq> None"
  unfolding interrupt_print_frame_def by (rule printf_ok) (simp add: print_eval)

lemma ioapic_print_redirect_returns: "ioapic_print_redirect junk ident entry s \<noteq> None"
  unfolding ioapic_print_redirect_def Let_def
  by (split if_split, intro conjI impI; rule printf_ok; simp add: print_eval rd_arg_def)

lemma ioapic_print_redirects_returns: "ioapic_print_redirects junk ident s \<noteq> None"
  unfolding ioapic_print_redirects_def Let_def
  by (split if_split, intro conjI impI printed_ok printf_ok ioapic_print_redirect_returns) (simp_all add: print_eval)

lemma apic_registers_ok: "printed (apic_registers n i s) \<noteq> None"
  by (induction n arbitrary: i)
    (simp only: apic_registers.simps printed_Nil not_False_eq_True,
     simp only: apic_registers.simps, intro printed_Cons printf_ok, simp_all add: print_eval)

lemma apic_debug_returns: "apic_debug_isr s \<noteq> None" "apic_debug_irr s \<noteq> None"
  unfolding apic_debug_isr_def apic_debug_irr_def
  by (intro printed_Cons apic_registers_ok printf_ok, simp add: print_eval)+

text \<open>An address map with its frames is printed.\<close>

lemma addr_map_dump_returns:
  assumes "p \<noteq> NULL" and "am_ok (k_addr_maps k p)" and "am_frames (k_addr_maps k p)"
  shows "addr_map_dump p k \<noteq> None"
proof -
  let ?m = "k_addr_maps k p"
  have "entry_dump i ?m k \<noteq> None" if "i < unat (am_used ?m)" for i
  proof -
    have i: "i < length (am_map ?m)" using that assms(2) by (simp add: am_ok_def)
    have "am_map ?m ! i \<in> set (am_list ?m)"
      using that i am_list_nth [OF assms(2) that] by (metis am_list_def length_take min_less_iff_conj nth_mem)
    then have f: "get_frame (ae_frame (am_map ?m ! i)) k = Some (k_phys_frames k (ae_frame (am_map ?m ! i)))"
      using assms(3) by (simp add: am_frames_def get_frame_def)
    show ?thesis
      unfolding entry_dump_def Let_def if_P [OF i] f Option.bind.bind_lunit
      by (intro printed_ok printf_ok) (simp_all add: print_eval)
  qed
  moreover have m: "get_addr_map p k = Some ?m" using assms(1) by (simp add: get_addr_map_def)
  ultimately show ?thesis
    unfolding addr_map_dump_def m Option.bind.bind_lunit
    by (intro printed_Cons printed_map [where ts = "[]", unfolded append_Nil2] printf_ok printed_Nil) (simp_all add: print_eval)
qed

text \<open>
  The memory maps of the boot loader: the loop ends if every entry moves it on, that is, no size makes the
  offset wrap.
\<close>

lemma raw_memmaps_from_returns:
  assumes "\<And>offset. offset < len \<Longrightarrow> offset < offset + (load32 m (mp + offset + mm_size) + 4)"
  shows "raw_memmaps_from mp len offset m \<noteq> None"
proof (induction "unat (len - offset)" arbitrary: offset rule: less_induct)
  case less
  show ?case
  proof (cases "offset < len")
    case True
    let ?o = "offset + (load32 m (mp + offset + mm_size) + 4)"
    have line: "raw_memmap_line (mp + offset) m \<noteq> None"
      unfolding raw_memmap_line_def Let_def by (rule printf_ok) (simp add: print_eval)
    have "raw_memmaps_from mp len ?o m \<noteq> None"
    proof (cases "?o < len")
      case True
      with assms [OF \<open>offset < len\<close>] have "unat (len - ?o) < unat (len - offset)"
        by (simp add: unat_sub word_less_nat_alt word_le_nat_alt less_imp_le)
      then show ?thesis by (rule less)
    qed (simp add: raw_memmaps_from.simps)
    with line show ?thesis by (subst raw_memmaps_from.simps) auto
  qed (simp add: raw_memmaps_from.simps)
qed

text \<open>The maps the kernel keeps: a chain of structures, each printed on its line.\<close>

fun memmap_chain :: "boot \<Rightarrow> ptr \<Rightarrow> ptr list \<Rightarrow> bool" where
  "memmap_chain s p [] \<longleftrightarrow> p = NULL"
| "memmap_chain s p (a # as) \<longleftrightarrow> p = a \<and> a \<noteq> NULL \<and> memmap_chain s (pm_next (bo_maps s a)) as"

lemma dump_cooked_memmaps_returns: "memmap_chain s p as \<Longrightarrow> dump_cooked_memmaps p s \<noteq> None"
proof (induction as arbitrary: p)
  case (Cons a as)
  let ?e = "bo_maps s a"
  have line: "debug_printf (''map %p > %p, %u bytes'' @ newline)
      [Word_arg (pm_addr ?e), Word_arg (pm_addr ?e + pm_length ?e), Word_arg (pm_length ?e)] \<noteq> None"
    by (rule printf_ok) (simp add: print_eval)
  have "dump_cooked_memmaps (pm_next ?e) s \<noteq> None" using Cons by simp
  with line Cons.prems show ?case
    by (subst dump_cooked_memmaps.simps) (auto simp del: append.simps debug_printf.simps)
qed (simp add: dump_cooked_memmaps.simps)

section \<open>The tree as it is printed\<close>

text \<open>The depths of the nodes from left to right.\<close>

fun depths :: "u32 \<Rightarrow> atree \<Rightarrow> u32 list" where
  "depths d Leaf = []"
| "depths d (Node l v r) = depths (d + 1) l @ d # depths (d + 1) r"

lemma length_depths [simp]: "length (depths d t) = length (addrs t)"
  by (induction d t rule: depths.induct) auto

lemma printed_append: "printed (xs @ ys) = do { a \<leftarrow> printed xs; b \<leftarrow> printed ys; Some (a @ b) }"
  by (induction xs) (auto simp: printed_simps bind_eq_Some_conv split: option.splits bind_splits)

lemma node_line_returns: "node_line get_key node indent k \<noteq> None"
proof -
  have bar: "debug_printf ''  |'' [] \<noteq> None" and nl: "debug_printf newline [] \<noteq> None"
    by (rule printf_ok; simp add: print_eval)+
  have "debug_printf ''- (%u) %p : %p : %d'' ([Word_arg a, Word_arg b, Word_arg c] @ more) \<noteq> None" for a b c more
    by (rule printf_returns) (simp add: print_eval)
  then show ?thesis
    unfolding node_line_def Let_def
    by (intro printed_replicate printed_Cons printed_Nil bar nl)
qed

lemma do_node_print_tr:
  assumes "tr (k_anodes k) par p t" and "sentinel_ok (k_anodes k)"
  shows "do_node_print get_key p d k = printed (map2 (\<lambda>a i. node_line get_key a i k) (addrs t) (depths d t))"
  using assms(1)
proof (induction t arbitrary: par p d)
  case Leaf
  then show ?case
    using assms(2) by (subst do_node_print.simps) (simp add: deref_def sentinel_ok_def printed_simps)
next
  case (Node l v r)
  obtain a lv where v: "v = (a, lv)" by (cases v)
  have "an_level (k_anodes k a) \<noteq> 0" "a \<noteq> NULL" "p = a" using Node.prems by (auto simp: v)
  moreover have "do_node_print get_key (leaves (k_anodes k a) LEFT) (d + 1) k =
      printed (map2 (\<lambda>a i. node_line get_key a i k) (addrs l) (depths (d + 1) l))"
    "do_node_print get_key (leaves (k_anodes k a) RIGHT) (d + 1) k =
      printed (map2 (\<lambda>a i. node_line get_key a i k) (addrs r) (depths (d + 1) r))"
    using Node.prems by (auto simp: v intro!: Node.IH)
  ultimately show ?case
    by (subst do_node_print.simps) (simp add: deref_def v printed_append printed_simps)
qed

text \<open>
  \<^verbatim>\<open>atree_print\<close> returns on every tree of the kernel, and prints one line for each node, from left to right, which
  is the order of the keys. The line does not show the key: \<^verbatim>\<open>debug_printf\<close> has no \<^verbatim>\<open>%d\<close> and skips it.
\<close>

theorem atree_print_inorder:
  assumes "atree_rep get_key k tree ns"
  shows "\<exists>ds out. length ds = length ns \<and> atree_print get_key tree k = Some out \<and>
           printed (map2 (\<lambda>a i. node_line get_key a i k) ns ds) = Some out \<and> sorted (map (node_key get_key k) ns)"
proof -
  from assms obtain t par where t: "tr (k_anodes k) par (at_root tree) t" "sentinel_ok (k_anodes k)" "addrs t = ns"
    by (auto simp: atree_rep_def at_place_def)
  let ?lines = "map2 (\<lambda>a i. node_line get_key a i k) ns (depths 0 t)"
  have "printed ?lines \<noteq> None"
    by (rule printed_map [where ts = "[]", unfolded append_Nil2])
      (auto simp: printed_simps node_line_returns [unfolded not_None_eq])
  then show ?thesis
    using do_node_print_tr [OF t(1,2), of get_key 0] t(3) assms
    by (auto simp: atree_print_def atree_rep_def intro!: exI [of _ "depths 0 t"])
qed

lemma atree_print_hides_keys: "node_line get_key node indent k = node_line get_key' node indent k"
  by (simp add: node_line_def Let_def)

text \<open>The checks that \<^verbatim>\<open>ATREE_CHECK_OPS\<close> compiles in accept every Andersson tree.\<close>

lemma tr_nonnull: "tr h par p t \<Longrightarrow> p \<noteq> NULL"
  by (cases t) auto

lemma tr_right: "tr h par p t \<Longrightarrow> sentinel_ok h \<Longrightarrow> tr h (if t = Leaf then par else p) (an_right (h p)) (right t)"
  by (cases t) (auto simp: sentinel_ok_def)

lemma check_tree_accepts:
  assumes "tr (k_anodes k) par p t" and "sentinel_ok (k_anodes k)" and "aa_inv t"
  shows "check_tree p k = Some True"
  using assms(1,3)
proof (induction t arbitrary: par p)
  case Leaf
  then show ?case using assms(2) by (subst check_tree.simps) (simp add: is_nil_def sentinel_ok_def)
next
  case (Node l v r)
  obtain a lv where v: "v = (a, lv)" by (cases v)
  let ?n = "k_anodes k a"
  have p: "p = a" "a \<noteq> NULL" "unat (an_level ?n) = lv" "lv \<noteq> 0"
    and l: "tr (k_anodes k) a (an_left ?n) l" and r: "tr (k_anodes k) a (an_right ?n) r"
    using Node.prems by (auto simp: v)
  let ?l = "an_left ?n" and ?r = "an_right ?n"
  let ?rr = "an_right (k_anodes k ?r)"
  have nonnull: "?l \<noteq> NULL" "?r \<noteq> NULL" "?rr \<noteq> NULL"
    using tr_nonnull l r tr_right [OF r assms(2)] by blast+
  have levels: "unat (an_level (k_anodes k ?l)) = lvl l" "unat (an_level (k_anodes k ?r)) = lvl r"
    "unat (an_level (k_anodes k ?rr)) = lvl (right r)"
    using tr_level [OF l assms(2)] tr_level [OF r assms(2)] tr_level [OF tr_right [OF r assms(2)] assms(2)] by simp_all
  have inv: "lv = Suc (lvl l)" "lv = Suc (lvl r) \<or> (lv = lvl r \<and> lvl r = Suc (lvl (right r)))" "lvl (right r) \<le> lvl r"
    using Node.prems(2) aa_right by (auto simp: v)
  have pred: "unat (an_level ?n - 1) = lv - 1"
    using p by (simp add: unat_sub word_le_nat_alt)
  have "check_tree ?l k = Some True" "check_tree ?r k = Some True"
    using Node.IH(1) [OF l] Node.IH(2) [OF r] Node.prems(2) by simp_all
  moreover have "is_nil ?l k \<longleftrightarrow> l = Leaf" "is_nil ?r k \<longleftrightarrow> r = Leaf" "\<not> is_nil a k"
    using nil_iff [OF l refl assms(2)] nil_iff [OF r refl assms(2)] p by (auto simp: is_nil_def)
  moreover have "l = Leaf \<longleftrightarrow> lvl l = 0" using Node.prems(2) leaf_level_0 by auto
  moreover have "an_level (k_anodes k ?l) \<noteq> an_level ?n" "an_level (k_anodes k ?rr) \<noteq> an_level ?n"
    using levels inv p(3) by (auto dest: arg_cong [of _ _ unat])
  ultimately show ?case
    using p nonnull inv by (subst check_tree.simps) (auto simp: deref_def Let_def word_less_nat_alt levels pred)
qed

lemma atree_check_accepts: "atree_rep get_key k tree ns \<Longrightarrow> atree_check tree k = Some True"
  by (auto simp: atree_rep_def at_place_def atree_check_def intro: check_tree_accepts)

text \<open>\<^verbatim>\<open>timer_uptime\<close> and \<^verbatim>\<open>timer_get_timestamp_ns\<close> are the same clock.\<close>

lemma timer_uptime_eq: "timer_uptime k = timer_get_timestamp_ns k"
  by (simp add: timer_uptime_def timer_get_timestamp_ns_def)

end
