(* ===== verification/C4_Rendezvous.thy ===== *)
theory C4_Rendezvous
  imports C4_Frames C4_Syscall
begin

text \<open>
  Sending and receiving put together: what the sender's call leaves in the kernel is what the
  receiver's call picks up once the receiver runs.
\<close>

section \<open>What a send leaves behind\<close>

text \<open>
  Putting a thread on the run queue that the current thread need not make way for: it returns, and
  changes the scheduler's own state only.
\<close>

definition sched_internal :: "kernel \<Rightarrow> kernel \<Rightarrow> bool" where
  "sched_internal k k' \<longleftrightarrow> k_threads k' = k_threads k \<and> k_kobjs k' = k_kobjs k \<and> k_caps k' = k_caps k \<and>
     k_cap_spaces k' = k_cap_spaces k \<and> k_current_threads k' = k_current_threads k \<and>
     k_num_booted_cpus k' = k_num_booted_cpus k \<and> k_apic_id k' = k_apic_id k"

interpretation sched_internal: step_order sched_internal
  by unfold_locales (auto simp: sched_internal_def)

lemma sched_internalD:
  assumes "sched_internal k k'"
  shows "k_threads k' = k_threads k" "k_kobjs k' = k_kobjs k" "k_caps k' = k_caps k" "k_cap_spaces k' = k_cap_spaces k"
    "sched_current_thread k' = sched_current_thread k" "cur_cpu k' = cur_cpu k" "run_key k' = run_key k"
proof -
  from assms show "k_threads k' = k_threads k" "k_kobjs k' = k_kobjs k" "k_caps k' = k_caps k" "k_cap_spaces k' = k_cap_spaces k"
    "sched_current_thread k' = sched_current_thread k"
    by (auto simp: sched_internal_def intro: sched_current_thread_cong)
  from assms show "cur_cpu k' = cur_cpu k" "run_key k' = run_key k"
    by (simp_all add: sched_internal_def cur_cpu_def sched_current_cpu_def sched_num_cpus_def run_key_def [abs_def]
        sched_thread_vruntime_def)
qed

lemma anodes_only_internal:
  fixes k k' :: kernel
  assumes "anodes_only k k'" shows "sched_internal k (k'\<lparr>k_run_tree := t\<rparr>)"
  unfolding sched_internal_def
  by (intro conjI; subst assms [unfolded anodes_only_def]; simp)

lemma notify_internal: "sched_internal k (snd (notify_idle_cpu k))"
  by (auto simp: notify_idle_cpu_def apic_send_ipi_def apic_write_def Let_def sched_internal_def split: option.splits)

lemma run_tree_insert_returns:
  assumes rep: "sched_rep k ts ss" and al: "slab_alloc atree_slab (k_mm k) \<noteq> None" and key: "0 \<le> run_key k t"
  obtains k' where "run_tree_insert t k = Some k'" and "sched_internal k k'"
proof -
  from rep obtain ns where r: "atree_rep (sched_thread_vruntime k) k (k_run_tree k) ns" by (auto simp: sched_rep_def)
  then have "slab_inv atree_slab (k_mm k)" by (simp add: atree_rep_def)
  moreover from al obtain n m where a: "slab_alloc atree_slab (k_mm k) = Some (n, m)" by auto
  ultimately have "n \<noteq> sentinel" by (rule slab_alloc_not_sentinel)
  from atree_insert_rep [OF r a this key [unfolded run_key_def]] obtain tree k' where
    i: "atree_insert (sched_thread_vruntime k) (k_run_tree k) t k = Some (n, tree, k')" by blast
  show thesis
    using that [of "k'\<lparr>k_run_tree := tree\<rparr>"] i endsD [OF atree_insert_only i]
    by (simp add: run_tree_insert_def anodes_only_internal)
qed

text \<open>
  A yield after which this thread goes on with threads, objects and capabilities as they were: the
  threads that run in between touch only the scheduler's own state.
\<close>

definition undisturbed :: "yield \<Rightarrow> bool" where
  "undisturbed yield \<longleftrightarrow> (\<forall>k. \<exists>k'. yield k = Some k' \<and> sched_internal k k')"

lemma sched_add_thread_returns:
  assumes rep: "sched_rep k ts ss" and lk: "\<not> k_sched_lock k" and r: "r \<noteq> NULL" "t_state (k_threads k r) = SCHED_STATE_RUNNING"
    and al: "slab_alloc atree_slab (k_mm k) \<noteq> None" and key: "0 \<le> run_key k r"
    and cur: "sched_current_thread k = Some cur" "run_key k r \<le> run_key k cur \<or> undisturbed yield"
  obtains k' where "sched_add_thread yield r k = Some k'" and "sched_internal k k'"
proof -
  let ?k1 = "k\<lparr>k_sched_lock := True\<rparr>"
  have rep1: "sched_rep ?k1 ts ss"
    by (rule sched_rep_cong [OF rep]) (auto simp: sched_thread_vruntime_def sched_thread_sleeptime_def)
  have i1: "sched_internal k ?k1" by (simp add: sched_internal_def)
  obtain k2 where k2: "run_tree_insert r ?k1 = Some k2" "sched_internal ?k1 k2"
    by (rule run_tree_insert_returns [OF rep1, of r]) (use al key sched_internalD(7) [OF i1] in auto)
  obtain sent k3 where n: "notify_idle_cpu k2 = (sent, k3)" by fastforce
  have i3: "sched_internal k k3"
    using sched_internal.trans [OF sched_internal.trans [OF i1 k2(2)] notify_internal [of k2]] n by simp
  note f = sched_internalD [OF i3]
  have i4: "sched_internal k (sched_unlock k3)" using i3 by (simp add: sched_internal_def sched_unlock_def)
  let ?later = "\<not> sent \<and> cur \<noteq> NULL \<and> sint (sched_thread_vruntime k3 cur) < sint (sched_thread_vruntime k3 r)"
  have run: "sched_add_thread yield r k = (if ?later then yield (sched_unlock k3) else Some (sched_unlock k3))"
    using lk r k2(1) n f(5) cur(1) by (simp add: sched_add_thread_def sched_spinlock_def get_thread_def)
  show thesis
  proof (cases ?later)
    case True
    then have "undisturbed yield" using cur(2) fun_cong [OF f(7)] by (auto simp: run_key_def)
    then obtain k' where "yield (sched_unlock k3) = Some k'" "sched_internal (sched_unlock k3) k'"
      unfolding undisturbed_def by blast
    then show thesis using that run True sched_internal.trans [OF i4] by simp
  next
    case False
    show thesis by (rule that [OF run [unfolded if_not_P [OF False]] i4])
  qed
qed

text \<open>What happens in another slab does not disturb the trees.\<close>

lemma sched_rep_kept:
  assumes rep: "sched_rep k ts ss" and k: "kept s m0 m" "region_inv (mm_region m)" "m0 = k_mm k" "s \<noteq> atree_slab"
  shows "sched_rep (k\<lparr>k_mm := m\<rparr>) ts ss"
proof -
  have "slab_inv atree_slab (k_mm k)" using rep by (auto simp: sched_rep_def atree_rep_def)
  from kept_slab [OF k(1,2), of atree_slab] this k(3,4) have s: "slab_inv atree_slab m" "slab_live atree_slab m = slab_live atree_slab (k_mm k)"
    by auto
  have t: "atree_rep g (k\<lparr>k_mm := m\<rparr>) tree as" if "atree_rep g k tree as" for g tree as
    using that s by (simp add: atree_rep_def at_place_def)
  have v: "sched_thread_vruntime (k\<lparr>k_mm := m\<rparr>) = sched_thread_vruntime k"
    "sched_thread_sleeptime (k\<lparr>k_mm := m\<rparr>) = sched_thread_sleeptime k"
    by (rule vruntime_cong sleeptime_cong, simp)+
  from rep obtain as bs where "atree_rep (sched_thread_vruntime k) k (k_run_tree k) as"
    "atree_rep (sched_thread_sleeptime k) k (k_sleep_tree k) bs" "ts = node_data k as" "ss = node_data k bs" "set as \<inter> set bs = {}"
    unfolding sched_rep_def by blast
  then show ?thesis
    unfolding sched_rep_def v by (intro exI [of _ as] exI [of _ bs]) (simp add: t node_data_def)
qed

lemma sched_rep_queue_free:
  assumes "sched_rep k ts ss" and q: "queue_rep k q (n # ns) xs" and m: "slab_free queue_slab n (k_mm k) = Some m"
  shows "sched_rep (k\<lparr>k_mm := m\<rparr>) ts ss"
proof -
  have "slab_inv queue_slab (k_mm k)" "n \<in> slab_live queue_slab (k_mm k)"
    using q by (auto simp: queue_rep_def qslab_inv_def qslab_live_def split: if_splits)
  from slab_free_ok [OF this m] show ?thesis using sched_rep_kept [OF assms(1), of queue_slab] by simp
qed

text \<open>
  Thread \<open>cur\<close> runs on CPU \<open>c\<close>, and \<open>r\<close> is the thread that has waited longest at the endpoint \<open>q\<close>. Nobody
  holds or waits for the two objects or the scheduler lock, the scheduler's queues are in order, there is
  memory for another entry in the run queue. \<open>r\<close> has run no longer than \<open>cur\<close>; otherwise
  \<^verbatim>\<open>sched_add_thread\<close> yields with the endpoint locked, and then that yield must leave things undisturbed.
\<close>

definition rendezvous :: "yield \<Rightarrow> kernel \<Rightarrow> u32 \<Rightarrow> ptr \<Rightarrow> ptr \<Rightarrow> ptr \<Rightarrow> bool" where
  "rendezvous yield k c cur q r \<longleftrightarrow> cur_cpu k = Some c \<and> k_current_threads k c = cur \<and> cur \<noteq> NULL \<and> cur \<noteq> r \<and>
     quiet q k \<and> quiet r k \<and> q \<noteq> r \<and> \<not> k_sched_lock k \<and> 0 \<le> run_key k r \<and>
     (run_key k r \<le> run_key k cur \<or> undisturbed yield) \<and>
     (\<exists>ts ss. sched_rep k ts ss) \<and>
     (\<exists>n ns rs m. queue_rep k (mq_recievers (k_msg_queues k q)) (n # ns) (r # rs) \<and>
        slab_free queue_slab n (k_mm k) = Some m \<and> slab_alloc atree_slab m \<noteq> None)"

lemma rendezvous_current: "rendezvous yield k c cur q r \<Longrightarrow> sched_current_thread k = Some cur"
  by (auto simp: rendezvous_def sched_current_thread_def)

text \<open>The state after the send: nothing but the receiver, the state of the sender and the scheduler has changed.\<close>

definition sent :: "kernel \<Rightarrow> message_t \<Rightarrow> ptr \<Rightarrow> ptr \<Rightarrow> kernel \<Rightarrow> bool" where
  "sent k m q r k' \<longleftrightarrow> quiet q k' \<and> k_threads k' r = (k_threads k r)\<lparr>
       t_flags := SET_FLAG (t_flags (k_threads k r)) THREAD_FLAG_PENDING_MSG, t_state := SCHED_STATE_RUNNING, t_message := m\<rparr> \<and>
     k_caps k' = k_caps k \<and> k_cap_spaces k' = k_cap_spaces k \<and> cur_cpu k' = cur_cpu k"

lemma send_returns:
  assumes rdv: "rendezvous yield k c cur q r" and del: "deliverable (read_msg msg k)"
  obtains k' where "message_send yield q msg k = Some k'"
    and "sent k ((read_msg msg k)\<lparr>m_sender := t_id (k_threads k cur)\<rparr>) q r k'"
proof -
  from rdv obtain n ns rs m ts ss where
      h: "cur \<noteq> NULL" "cur \<noteq> r" "quiet q k" "quiet r k" "q \<noteq> r" "\<not> k_sched_lock k" "0 \<le> run_key k r" "run_key k r \<le> run_key k cur \<or> undisturbed yield"
      "sched_rep k ts ss" "queue_rep k (mq_recievers (k_msg_queues k q)) (n # ns) (r # rs)"
      "slab_free queue_slab n (k_mm k) = Some m" "slab_alloc atree_slab m \<noteq> None"
    unfolding rendezvous_def by blast
  note cur = rendezvous_current [OF rdv]
  let ?m = "(read_msg msg k)\<lparr>m_sender := t_id (k_threads k cur)\<rparr>"
  have nz: "q \<noteq> NULL" "r \<noteq> NULL" using h(3,4) by (simp_all add: quiet_def)
  have "slab_free queue_slab n (k_mm k) \<noteq> None" using h(11) by simp
  note step = send_step_waiting [where yield = yield, OF cur h(1,3,4,5,10) this del]
  obtain a k4 w where s: "message_try_send yield q msg (acquire cur q k) = do {
        k5 \<leftarrow> sched_add_thread yield r (release r k4);
        Some (True, a, k5)
      }"
    and t4: "k_threads k4 = (k_threads k)(r := (k_threads k r)\<lparr>
        t_flags := SET_FLAG (t_flags (k_threads k r)) THREAD_FLAG_PENDING_MSG, t_state := SCHED_STATE_RUNNING, t_message := ?m\<rparr>)"
    and o4: "k_kobjs (release r k4) = k_kobjs (release r (acquire cur r (acquire cur q k)))"
    and f4: "k_caps k4 = k_caps k" "k_cap_spaces k4 = k_cap_spaces k"
      "k_num_booted_cpus k4 = k_num_booted_cpus k" "k_apic_id k4 = k_apic_id k" "k_current_threads k4 = k_current_threads k"
      "k_sched_lock k4 = k_sched_lock k" "k_anodes k4 = k_anodes k" "k_run_tree k4 = k_run_tree k" "k_sleep_tree k4 = k_sleep_tree k"
    and m4: "slab_free queue_slab n (k_mm k) = Some (k_mm k4)"
    by (rule step)
  let ?k4 = "release r k4"
  have key: "run_key ?k4 t = run_key k t" for t by (simp add: run_key_def sched_thread_vruntime_def t4)
  have rep4: "sched_rep ?k4 ts ss"
    by (rule sched_rep_cong [OF sched_rep_queue_free [OF h(9,10) m4]])
       (auto simp: f4 t4 sched_thread_vruntime_def sched_thread_sleeptime_def)
  have c4: "sched_current_thread ?k4 = Some cur" using cur sched_current_thread_cong [of k4 k] f4 by simp
  obtain k5 where k5: "sched_add_thread yield r ?k4 = Some k5" "sched_internal ?k4 k5"
    by (rule sched_add_thread_returns [OF rep4 _ nz(2) _ _ _ c4]) (use h(6-8,11,12) m4 f4 t4 key in auto)
  note f5 = sched_internalD [OF k5(2)]
  obtain st where k6: "set_sender_state cur k5 = Some (k5\<lparr>k_threads := (k_threads k5)(cur := (k_threads k5 cur)\<lparr>t_state := st\<rparr>)\<rparr>)"
    (is "_ = Some ?k6")
    by (cases "FLAG (t_flags (k_threads k5 cur)) THREAD_FLAG_FAULTED")
       (use h(1) in \<open>simp_all add: set_sender_state_def get_thread_def upd_thread_def\<close>)
  have ob: "k_kobjs ?k6 q = k_kobjs (acquire cur q k) q" using f5(2) o4 h(5) by simp
  have u: "kobject_unlock yield q ?k6 = Some (release q ?k6)"
    by (rule kobject_unlock_empty [OF nz(1)]) (use ob h(3) in \<open>simp add: quiet_def\<close>)
  have cc: "cur_cpu (release q ?k6) = cur_cpu k"
    using k5(2) f4(3,4) by (simp add: sched_internal_def cur_cpu_def sched_current_cpu_def sched_num_cpus_def)
  have qq: "quiet q (release q ?k6)" unfolding quiet_def release_def using nz(1) ob h(3) by (simp add: quiet_def)
  have "message_send yield q msg k = Some (release q ?k6)"
    using cur kobject_lock_quiet [OF h(3) cur] s k5(1) k6 u by (simp add: message_send_def)
  moreover have "sent k ?m q r (release q ?k6)"
    unfolding sent_def using qq cc h(2) f5(1,3,4) f4(1,2) t4 by simp
  ultimately show thesis by (rule that)
qed

section \<open>From the sender to the receiver\<close>

text \<open>The receiver has been switched to on the CPU \<open>c\<close>.\<close>

definition switched_to :: "u32 \<Rightarrow> ptr \<Rightarrow> kernel \<Rightarrow> kernel" where
  "switched_to c t k = k\<lparr>k_current_threads := (k_current_threads k)(c := t)\<rparr>"

lemma switched_to_fields [simp]:
  "k_threads (switched_to c t k) = k_threads k" "k_caps (switched_to c t k) = k_caps k"
  "k_cap_spaces (switched_to c t k) = k_cap_spaces k" "quiet q (switched_to c t k) = quiet q k"
  "cur_cpu (switched_to c t k) = cur_cpu k"
  by (simp_all add: switched_to_def quiet_def cur_cpu_def sched_current_cpu_def sched_num_cpus_def)

lemma switched_to_current: "cur_cpu k = Some c \<Longrightarrow> sched_current_thread (switched_to c t k) = Some t"
  using switched_to_fields(5) [of c t k] by (simp add: sched_current_thread_def) (simp add: switched_to_def)

lemma recieved_fields [simp]:
  "k_usermsg (recieved q r b m k) b = m" "k_caps (recieved q r b m k) = k_caps k"
  "k_cap_spaces (recieved q r b m k) = k_cap_spaces k"
  "t_state (k_threads (recieved q r b m k) r) = SCHED_STATE_RUNNING"
  "FLAG (t_flags (k_threads (recieved q r b m k) r)) THREAD_FLAG_PENDING_MSG = False"
  by (simp_all add: recieved_def)

lemma sent_pending:
  assumes "rendezvous yield k c cur q r" and "sent k m q r k'"
  shows "sched_current_thread (switched_to c r k') = Some r" "r \<noteq> NULL" "quiet q (switched_to c r k')"
    "FLAG (t_flags (k_threads (switched_to c r k') r)) THREAD_FLAG_PENDING_MSG"
    "m = t_message (k_threads (switched_to c r k') r)"
proof -
  have "quiet r k" "cur_cpu k = Some c" using assms(1) by (simp_all add: rendezvous_def)
  then show "sched_current_thread (switched_to c r k') = Some r" "r \<noteq> NULL" "quiet q (switched_to c r k')"
    "FLAG (t_flags (k_threads (switched_to c r k') r)) THREAD_FLAG_PENDING_MSG"
    "m = t_message (k_threads (switched_to c r k') r)"
    using assms(2) by (simp_all add: sent_def switched_to_current THREAD_FLAG_PENDING_MSG_def) (simp add: quiet_def)
qed

text \<open>
  C6: a message arrives. A thread sends a message that is not of a reserved type to an endpoint where
  another thread waits, and that thread has run no longer than the sender, or else the switch that
  \<^verbatim>\<open>sched_add_thread\<close> makes at once leaves threads, objects and capabilities as they are. Then the send
  returns; and when the waiting thread then runs and repeats its receive, the receive returns as well:
  its buffer holds the words of the message with the id of the sender filled in, the receiver is
  running with nothing pending, and no capability has changed.
\<close>

theorem ipc_delivers:
  assumes "rendezvous yield k c cur q r" and "m_type (read_msg msg k) \<ge> MESSAGE_TYPE_END_RESERVED"
  shows "\<exists>k1 k2. message_send yield q msg k = Some k1 \<and>
    message_recieve yield' q buffer (switched_to c r k1) = Some k2 \<and>
    k_usermsg k2 buffer = (read_msg msg k)\<lparr>m_sender := t_id (k_threads k cur)\<rparr> \<and>
    t_state (k_threads k2 r) = SCHED_STATE_RUNNING \<and> \<not> FLAG (t_flags (k_threads k2 r)) THREAD_FLAG_PENDING_MSG \<and>
    k_caps k2 = k_caps k"
proof -
  let ?m = "(read_msg msg k)\<lparr>m_sender := t_id (k_threads k cur)\<rparr>"
  have u: "\<not> is_kernel_msg (read_msg msg k)" using assms(2) by (simp add: is_kernel_msg_def not_less)
  then have "deliverable (read_msg msg k)" by (simp add: deliverable_def)
  then obtain k1 where k1: "message_send yield q msg k = Some k1" "sent k ?m q r k1" by (rule send_returns [OF assms(1)])
  have "\<not> is_kernel_msg ?m" using u by (simp add: is_kernel_msg_def)
  from recieve_pending_user [OF sent_pending [OF assms(1) k1(2)] this, of yield' buffer] k1
  show ?thesis by (simp add: sent_def)
qed

text \<open>A message that grants a capability ends up as an entry of the receiver's space.\<close>

lemma grant_arrives:
  assumes rdv: "rendezvous yield k c cur q r" and m: "m = read_msg msg k" "m_type m = MESSAGE_TYPE_GRANT_OBJECT"
    and wf: "caps_wf k S" "t_cap_space (k_threads k r) \<in> S"
    and ty: "m_data0 m = CAP_TYPE_CAP_SPACE \<longrightarrow> m_data2 m \<in> S"
  shows "\<exists>k1 k2. message_send yield q msg k = Some k1 \<and> message_recieve yield' q buffer (switched_to c r k1) = Some k2 \<and>
    m_data2 (k_usermsg k2 buffer) = 0 \<and> k_cap_spaces k2 = k_cap_spaces k \<and>
    cap_put k (t_cap_space (k_threads k r)) \<lparr>ce_type = m_data0 m, ce_permissions = m_data1 m, ce_object = m_data2 m\<rparr>
      (m_data5 (k_usermsg k2 buffer)) (k_caps k2)"
proof -
  let ?m = "m\<lparr>m_sender := t_id (k_threads k cur)\<rparr>" and ?sp = "t_cap_space (k_threads k r)"
  have "deliverable (read_msg msg k)" using m by (simp add: deliverable_def kernel_msg_handle_send_def c4_enum)
  then obtain k1 where k1: "message_send yield q msg k = Some k1" "sent k ?m q r k1"
    unfolding m(1) by (rule send_returns [OF rdv])
  let ?k1 = "switched_to c r k1"
  have same: "k_caps ?k1 = k_caps k" "k_cap_spaces ?k1 = k_cap_spaces k" "t_cap_space (k_threads ?k1 r) = ?sp"
    using k1(2) by (simp_all add: sent_def)
  have w: "caps_wf ?k1 S" "t_cap_space (k_threads ?k1 r) \<in> S" using wf same by (simp_all add: caps_wf_def space_ok_def)
  have "m_type ?m = MESSAGE_TYPE_GRANT_OBJECT" "m_data0 ?m = CAP_TYPE_CAP_SPACE \<longrightarrow> m_data2 ?m \<in> S" using m(2) ty by simp_all
  from recieve_pending_grant [OF sent_pending [OF rdv k1(2)] this(1) w this(2), of yield' buffer, unfolded same]
  obtain j C where "message_recieve yield' q buffer ?k1 =
      Some (recieved q r buffer (?m\<lparr>m_data5 := j, m_data2 := 0\<rparr>) (acquire r q ?k1\<lparr>k_caps := C\<rparr>))"
    "cap_put ?k1 ?sp \<lparr>ce_type = m_data0 ?m, ce_permissions = m_data1 ?m, ce_object = m_data2 ?m\<rparr> j C" by blast
  then show ?thesis using k1(1) same cap_put_cong(1) [OF same(1,2)] by simp
qed

text \<open>
  C5: granting a capability, from one thread to the other, under the conditions of a rendezvous as in
  C6 and with room in the receiver's space: the receiver has the modify right on it and a free entry.
  \<^verbatim>\<open>syscall_cspace_cap_grant\<close> succeeds; and when the waiting thread then runs and repeats its receive,
  the receive returns: the last word of the message in its buffer is a valid number, under which
  its own space now holds a capability of the same type for the same object, with exactly the rights
  that were asked for, in an entry that was free before, and no other entry has changed. The address
  of the object does not reach the receiver. Without room the grant reports success all the same, the
  number is \<^verbatim>\<open>CAP_INVALID_OBJECT\<close>, and no entry has changed.
\<close>

theorem cap_grant_transfers:
  assumes rdv: "rendezvous yield k c cur (ce_object (k_caps k qe)) r"
    and q: "do_cap_check cur queue CAP_TYPE_IPC_SYNC_ENDPOINT CAP_MODIFY k = Some (C4_ERROR_NONE, qe)"
    and o: "do_cap_check cur object CAP_TYPE_NULL (rights OR CAP_SHARE) k = Some (C4_ERROR_NONE, oe)"
    and wf: "caps_wf k S" "t_cap_space (k_threads k r) \<in> S"
      "ce_type (k_caps k oe) = CAP_TYPE_CAP_SPACE \<longrightarrow> ce_object (k_caps k oe) \<in> S"
  shows "\<exists>k1 k2 j. syscall_cspace_cap_grant yield object queue rights d k = Some (0, k1) \<and>
    message_recieve yield' (ce_object (k_caps k qe)) buffer (switched_to c r k1) = Some k2 \<and>
    m_data2 (k_usermsg k2 buffer) = 0 \<and> m_data5 (k_usermsg k2 buffer) = j \<and> k_cap_spaces k2 = k_cap_spaces k \<and>
    (if cap_room k (t_cap_space (k_threads k r))
     then cap_arrived k (t_cap_space (k_threads k r)) ((k_caps k oe)\<lparr>ce_permissions := rights\<rparr>) j (k_caps k2)
     else j = CAP_INVALID_OBJECT \<and> k_caps k2 = k_caps k)"
proof -
  let ?msg = "zero_message\<lparr>m_type := MESSAGE_TYPE_GRANT_OBJECT, m_data0 := ce_type (k_caps k oe),
      m_data1 := rights, m_data2 := ce_object (k_caps k oe)\<rparr>"
  have e: "\<lparr>ce_type = m_data0 ?msg, ce_permissions = m_data1 ?msg, ce_object = m_data2 ?msg\<rparr> = (k_caps k oe)\<lparr>ce_permissions := rights\<rparr>"
    by simp
  have ty: "m_type ?msg = MESSAGE_TYPE_GRANT_OBJECT" "m_data0 ?msg = CAP_TYPE_CAP_SPACE \<longrightarrow> m_data2 ?msg \<in> S"
    using wf(3) by simp_all
  from grant_arrives [OF rdv _ ty(1) wf(1,2) ty(2), of "Local ?msg" yield' buffer, unfolded e cap_put_def] obtain k1 k2 where
    "message_send yield (ce_object (k_caps k qe)) (Local ?msg) k = Some k1"
    "message_recieve yield' (ce_object (k_caps k qe)) buffer (switched_to c r k1) = Some k2"
    "m_data2 (k_usermsg k2 buffer) = 0" "k_cap_spaces k2 = k_cap_spaces k"
    "if cap_room k (t_cap_space (k_threads k r))
     then cap_arrived k (t_cap_space (k_threads k r)) ((k_caps k oe)\<lparr>ce_permissions := rights\<rparr>) (m_data5 (k_usermsg k2 buffer)) (k_caps k2)
     else m_data5 (k_usermsg k2 buffer) = CAP_INVALID_OBJECT \<and> k_caps k2 = k_caps k"
    by auto
  then show ?thesis
    using q o rendezvous_current [OF rdv]
    by (simp add: syscall_cspace_cap_grant_def message_send_capability_def C4_ERROR_NONE_def)
qed

text \<open>
  C37: the kernel does not tell a grant from a message that looks like one. Under the conditions of C5,
  with room in the receiver's space: when a user program sends with \<^verbatim>\<open>syscall_sync_send\<close> a message of the
  type of a grant, with a type other than that of a capability space, rights and an address of its own
  choice in the first three words, the receiver's space ends up with exactly that capability under the
  valid number it is told, whether or not the sender held it.
\<close>

theorem forged_grant_accepted:
  assumes rdv: "rendezvous yield k c cur (ce_object (k_caps k qe)) r"
    and q: "do_cap_check cur queue CAP_TYPE_IPC_SYNC_ENDPOINT CAP_MODIFY k = Some (C4_ERROR_NONE, qe)"
    and m: "is_user_address from" "m = k_usermsg k from" "m_type m = MESSAGE_TYPE_GRANT_OBJECT"
      "m_data0 m \<noteq> CAP_TYPE_CAP_SPACE"
    and wf: "caps_wf k S" "t_cap_space (k_threads k r) \<in> S" and room: "cap_room k (t_cap_space (k_threads k r))"
  shows "\<exists>k1 k2. syscall_sync_send yield from queue a d k = Some (0, k1) \<and>
    message_recieve yield' (ce_object (k_caps k qe)) buffer (switched_to c r k1) = Some k2 \<and>
    cap_arrived k (t_cap_space (k_threads k r)) \<lparr>ce_type = m_data0 m, ce_permissions = m_data1 m, ce_object = m_data2 m\<rparr>
      (m_data5 (k_usermsg k2 buffer)) (k_caps k2)"
proof -
  have "m_data0 m = CAP_TYPE_CAP_SPACE \<longrightarrow> m_data2 m \<in> S" using m(4) by simp
  from grant_arrives [OF rdv _ m(3) wf this, of "Buffer from" yield' buffer] m(2) room obtain k1 k2 where
    "message_send yield (ce_object (k_caps k qe)) (Buffer from) k = Some k1"
    "message_recieve yield' (ce_object (k_caps k qe)) buffer (switched_to c r k1) = Some k2"
    "cap_arrived k (t_cap_space (k_threads k r)) \<lparr>ce_type = m_data0 m, ce_permissions = m_data1 m, ce_object = m_data2 m\<rparr>
      (m_data5 (k_usermsg k2 buffer)) (k_caps k2)" by (auto simp: cap_put_def)
  then show ?thesis
    using q m(1) rendezvous_current [OF rdv] by (simp add: syscall_sync_send_def CAP_CHECK_def C4_ERROR_NONE_def)
qed

subsection \<open>Instances\<close>

text \<open>
  The boot system with thread \<^verbatim>\<open>0x5100\<close> waiting at the endpoint \<^verbatim>\<open>0x9000\<close>, for which thread
  \<^verbatim>\<open>0x5000\<close> has a capability in entry 3 of its space; every user buffer holds \<open>m\<close>.
\<close>

definition waiting_kernel :: "message_t \<Rightarrow> kernel option" where
  "waiting_kernel m = do {
     (q, k) \<leftarrow> queue_push_back queue_init 0x5100 boot_kernel;
     Some (k\<lparr>k_msg_queues := (\<lambda>_. \<lparr>mq_recievers = q, mq_senders = queue_init\<rparr>), k_usermsg := (\<lambda>_. m),
       k_caps := (k_caps boot_kernel)(0xd0010030 :=
         \<lparr>ce_type = CAP_TYPE_IPC_SYNC_ENDPOINT, ce_permissions = CAP_MODIFY, ce_object = 0x9000\<rparr>)\<rparr>)
   }"

lemma queue_rep_caps: "queue_rep ((k :: kernel)\<lparr>k_caps := c\<rparr>) = queue_rep k"
  by (simp add: fun_eq_iff queue_rep_def qslab_inv_def qslab_live_def)

lemma boot_kernel_init: "k_queue_init boot_kernel"
  by (simp add: boot_kernel_def)

lemma boot_waiter_mm:
  assumes "queue_push_back queue_init 0x5100 boot_kernel = Some (q, k1)"
  shows "\<exists>n. slab_alloc queue_slab (k_mm boot_kernel) = Some (n, k_mm k1)"
  using assms
  by (auto simp: queue_push_back_def queue_node_create_def k_slab_alloc_def upd_node_def queue_slab_init_def boot_kernel_init
      Let_def elim!: bind_eq_SomeE split: if_splits)

lemma boot_waiter_runs:
  "do {
     (q, k1) \<leftarrow> queue_push_back queue_init 0x5100 boot_kernel;
     (x, r, k2) \<leftarrow> queue_pop_front q k1;
     (p, m) \<leftarrow> slab_alloc atree_slab (k_mm k2);
     Some ()
   } = Some ()"
  by code_simp

lemma waiting_kernel_ok:
  obtains k where "waiting_kernel m = Some k" "rendezvous (\<lambda>_. None) k 0 0x5000 0x9000 0x5100" "\<forall>b. k_usermsg k b = m"
    "k_threads k = k_threads boot_kernel" "k_cap_spaces k = k_cap_spaces boot_kernel" "k_caps k = (k_caps boot_kernel)(0xd0010030 :=
       \<lparr>ce_type = CAP_TYPE_IPC_SYNC_ENDPOINT, ce_permissions = CAP_MODIFY, ce_object = 0x9000\<rparr>)"
proof -
  obtain q k1 n where push: "queue_push_back queue_init 0x5100 boot_kernel = Some (q, k1)"
    and n: "queue_rep k1 q [n] [0x5100]" "slab_free queue_slab n (k_mm k1) \<noteq> None" "kq.more k1 = kq.more boot_kernel"
    by (rule boot_one_waiter)
  note kk = kq_moreD [OF n(3)]
  define k where k: "k = k1\<lparr>k_msg_queues := (\<lambda>_. \<lparr>mq_recievers = q, mq_senders = queue_init\<rparr>), k_usermsg := (\<lambda>_. m),
       k_caps := (k_caps boot_kernel)(0xd0010030 :=
         \<lparr>ce_type = CAP_TYPE_IPC_SYNC_ENDPOINT, ce_permissions = CAP_MODIFY, ce_object = 0x9000\<rparr>)\<rparr>"
  from boot_waiter_runs push obtain x r k2 where pop: "queue_pop_front q k1 = Some (x, r, k2)"
    and al: "slab_alloc atree_slab (k_mm k2) \<noteq> None" by (auto elim!: bind_eq_SomeE)
  have quiet: "quiet p k" if "p \<noteq> NULL" for p using boot_quiet [OF that] kk by (simp add: quiet_def k)
  have cpu: "cur_cpu k = Some 0" "k_current_threads k 0 = 0x5000" "\<not> k_sched_lock k"
    by (simp_all add: k kk cur_cpu_def sched_current_cpu_def sched_num_cpus_def)
       (simp_all add: boot_kernel_def SCHED_MAX_CPUS_def)
  have key: "run_key k t = run_key boot_kernel t" for t by (simp add: run_key_def sched_thread_vruntime_def k kk)
  have key0: "run_key boot_kernel 0x5100 = 0" "run_key boot_kernel 0x5000 = 0" by code_simp+
  from boot_waiter_mm [OF push] obtain p where "slab_alloc queue_slab (k_mm boot_kernel) = Some (p, k_mm k1)" by blast
  from slab_alloc_ok [OF _ this] have "sched_rep (boot_kernel\<lparr>k_mm := k_mm k1\<rparr>) [] []"
    using sched_rep_kept [OF empty_queues, of queue_slab] boot_slab(1) by (simp add: boot_kernel_mm)
  then have "sched_rep k [] []"
    by (rule sched_rep_cong) (simp_all add: k kk)
  moreover have "queue_rep k (mq_recievers (k_msg_queues k 0x9000)) [n] [0x5100]"
    using n(1) by (simp add: k queue_rep_caps)
  moreover have "slab_free queue_slab n (k_mm k) = Some (k_mm k2)" using queue_pop_front_mm [OF n(1) pop] by (simp add: k)
  ultimately have rdv: "rendezvous (\<lambda>_. None) k 0 0x5000 0x9000 0x5100"
    unfolding rendezvous_def using quiet cpu key key0 al by fastforce
  have "waiting_kernel m = Some k" using push by (simp add: waiting_kernel_def k)
  from that [OF this rdv] show thesis by (simp add: k kk)
qed

lemma waiting_caps:
  assumes "k_threads k = k_threads boot_kernel" "k_cap_spaces k = k_cap_spaces boot_kernel"
    "k_caps k = (k_caps boot_kernel)(0xd0010030 :=
       \<lparr>ce_type = CAP_TYPE_IPC_SYNC_ENDPOINT, ce_permissions = CAP_MODIFY, ce_object = 0x9000\<rparr>)"
  shows "do_cap_check 0x5000 3 CAP_TYPE_IPC_SYNC_ENDPOINT CAP_MODIFY k = Some (C4_ERROR_NONE, 0xd0010030)"
    "ce_object (k_caps k 0xd0010030) = 0x9000"
    "do_cap_check 0x5000 0x102 CAP_TYPE_NULL (CAP_ACCESS OR CAP_SHARE) k = Some (C4_ERROR_NONE, 0xd0011010)"
    "k_caps k 0xd0011010 = \<lparr>ce_type = CAP_TYPE_PHYS_MEMORY, ce_permissions = 7, ce_object = 0x6000\<rparr>"
    "caps_wf k {0x1000, 0x2000}" "t_cap_space (k_threads k 0x5100) = 0x2000" "cap_room k 0x2000" "cap_tbl k 0x2000 = 0xd0011000"
proof -
  have t: "cap_tbl k 0x1000 = 0xd0010000" "cap_tbl k 0x2000 = 0xd0011000" "t_cap_space (k_threads k 0x5000) = 0x1000"
    using assms boot_cspace by simp_all (simp add: boot_kernel_def boot_kcap_simps)
  have c: "k_caps k e = (if e = 0xd0010030 then \<lparr>ce_type = CAP_TYPE_IPC_SYNC_ENDPOINT, ce_permissions = CAP_MODIFY, ce_object = 0x9000\<rparr>
      else k_caps boot_kcap e)" for e using assms(3) by (simp add: boot_cspace)
  show "do_cap_check 0x5000 3 CAP_TYPE_IPC_SYNC_ENDPOINT CAP_MODIFY k = Some (C4_ERROR_NONE, 0xd0010030)"
    "do_cap_check 0x5000 0x102 CAP_TYPE_NULL (CAP_ACCESS OR CAP_SHARE) k = Some (C4_ERROR_NONE, 0xd0011010)"
    by (simp_all add: do_cap_check_def get_thread_def t cap_space_lookup_def cap_table_lookup.simps Let_def c boot_caps
        cap_slot_def sizeof_cap_entry_t_def c4_enum)
  show "ce_object (k_caps k 0xd0010030) = 0x9000"
    "k_caps k 0xd0011010 = \<lparr>ce_type = CAP_TYPE_PHYS_MEMORY, ce_permissions = 7, ce_object = 0x6000\<rparr>"
    by (simp_all add: c boot_caps)
  show "t_cap_space (k_threads k 0x5100) = 0x2000" by (simp add: assms(1)) (simp add: boot_kernel_def)
  show "cap_tbl k 0x2000 = 0xd0011000" by (rule t)
  have "ce_type (k_caps k (cap_slot (cap_tbl k 0x2000) 2)) = CAP_TYPE_NULL" "unat (2 :: u32) < 256"
    by (simp_all add: t c boot_caps cap_slot_def sizeof_cap_entry_t_def)
  moreover have "ce_permissions (k_caps k (cap_tbl k 0x2000)) AND CAP_MODIFY \<noteq> 0" by (simp add: t c boot_caps c4_enum)
  ultimately show "cap_room k 0x2000" unfolding cap_room_def by blast
  show "caps_wf k {0x1000, 0x2000}"
    using boot_caps_wf by (auto simp: caps_wf_def space_ok_def t c boot_caps boot_kcap_simps c4_enum split: if_splits)
qed

text \<open>C6: a message of type 300 from thread 1 to the waiting thread.\<close>

theorem ipc_delivers_witness:
  "\<exists>k k1 k2. waiting_kernel zero_message = Some k \<and>
    message_send (\<lambda>_. None) 0x9000 (Local (zero_message\<lparr>m_type := 300\<rparr>)) k = Some k1 \<and>
    message_recieve (\<lambda>_. None) 0x9000 0x400000 (switched_to 0 0x5100 k1) = Some k2 \<and>
    k_usermsg k2 0x400000 = zero_message\<lparr>m_type := 300, m_sender := 1\<rparr>"
proof -
  obtain k where k: "waiting_kernel zero_message = Some k" "rendezvous (\<lambda>_. None) k 0 0x5000 0x9000 0x5100"
    and t: "k_threads k = k_threads boot_kernel" by (rule waiting_kernel_ok)
  have "t_id (k_threads k 0x5000) = 1" using t by (simp add: boot_kernel_def)
  moreover have "m_type (read_msg (Local (zero_message\<lparr>m_type := 300\<rparr>)) k) \<ge> MESSAGE_TYPE_END_RESERVED" by (simp add: c4_enum)
  ultimately show ?thesis
    using ipc_delivers [OF k(2), of "Local (zero_message\<lparr>m_type := 300\<rparr>)" "\<lambda>_. None" "0x400000"] k(1) by auto
qed

text \<open>C5: the frame in entry \<^verbatim>\<open>0x102\<close> goes to the waiting thread with read access only.\<close>

theorem cap_grant_transfers_witness:
  "\<exists>k k1 k2 j. waiting_kernel zero_message = Some k \<and>
    syscall_cspace_cap_grant (\<lambda>_. None) 0x102 3 CAP_ACCESS 0 k = Some (0, k1) \<and>
    message_recieve (\<lambda>_. None) 0x9000 0x400000 (switched_to 0 0x5100 k1) = Some k2 \<and>
    m_data5 (k_usermsg k2 0x400000) = j \<and> j \<noteq> CAP_INVALID_OBJECT \<and>
    ce_type (k_caps k (cap_slot 0xd0011000 j)) = CAP_TYPE_NULL \<and>
    k_caps k2 (cap_slot 0xd0011000 j) = \<lparr>ce_type = CAP_TYPE_PHYS_MEMORY, ce_permissions = CAP_ACCESS, ce_object = 0x6000\<rparr>"
proof -
  obtain k where k: "waiting_kernel zero_message = Some k" "rendezvous (\<lambda>_. None) k 0 0x5000 0x9000 0x5100"
    and s: "k_threads k = k_threads boot_kernel" "k_cap_spaces k = k_cap_spaces boot_kernel" "k_caps k = (k_caps boot_kernel)(0xd0010030 :=
       \<lparr>ce_type = CAP_TYPE_IPC_SYNC_ENDPOINT, ce_permissions = CAP_MODIFY, ce_object = 0x9000\<rparr>)" by (rule waiting_kernel_ok)
  note c = waiting_caps [OF s]
  have r: "rendezvous (\<lambda>_. None) k 0 0x5000 (ce_object (k_caps k 0xd0010030)) 0x5100" using k(2) c(2) by simp
  have ty: "ce_type (k_caps k 0xd0011010) = CAP_TYPE_CAP_SPACE \<longrightarrow> ce_object (k_caps k 0xd0011010) \<in> {0x1000, 0x2000}"
    by (simp add: c(4) c4_enum)
  have sp: "t_cap_space (k_threads k 0x5100) \<in> {0x1000, 0x2000}" by (simp add: c(6))
  from cap_grant_transfers [OF r c(1,3,5) sp ty, of 0 "\<lambda>_. None" "0x400000", unfolded c(2,6) if_P [OF c(7)]]
  obtain k1 k2 j where "syscall_cspace_cap_grant (\<lambda>_. None) 0x102 3 CAP_ACCESS 0 k = Some (0, k1)"
    "message_recieve (\<lambda>_. None) 0x9000 0x400000 (switched_to 0 0x5100 k1) = Some k2"
    "m_data5 (k_usermsg k2 0x400000) = j"
    "cap_arrived k 0x2000 ((k_caps k 0xd0011010)\<lparr>ce_permissions := CAP_ACCESS\<rparr>) j (k_caps k2)" by blast
  then show ?thesis using k(1) by (auto simp: cap_arrived_def c(4,8))
qed

text \<open>C37: full rights to the frame object \<^verbatim>\<open>0x6100\<close>, which the sender has no capability for.\<close>

theorem forged_grant_accepted_witness:
  "\<exists>k k1 k2 j. waiting_kernel (zero_message\<lparr>m_type := MESSAGE_TYPE_GRANT_OBJECT, m_data0 := 7, m_data1 := 15, m_data2 := 0x6100\<rparr>) = Some k \<and>
    syscall_sync_send (\<lambda>_. None) 0x400000 3 0 0 k = Some (0, k1) \<and>
    message_recieve (\<lambda>_. None) 0x9000 0x400000 (switched_to 0 0x5100 k1) = Some k2 \<and>
    m_data5 (k_usermsg k2 0x400000) = j \<and> j \<noteq> CAP_INVALID_OBJECT \<and>
    k_caps k2 (cap_slot 0xd0011000 j) = \<lparr>ce_type = 7, ce_permissions = 15, ce_object = 0x6100\<rparr> \<and>
    (\<forall>e. ce_object (k_caps k e) \<noteq> 0x6100)"
proof -
  let ?m = "zero_message\<lparr>m_type := MESSAGE_TYPE_GRANT_OBJECT, m_data0 := 7, m_data1 := 15, m_data2 := 0x6100\<rparr>"
  obtain k where k: "waiting_kernel ?m = Some k" "rendezvous (\<lambda>_. None) k 0 0x5000 0x9000 0x5100" "\<forall>b. k_usermsg k b = ?m"
    and s: "k_threads k = k_threads boot_kernel" "k_cap_spaces k = k_cap_spaces boot_kernel" "k_caps k = (k_caps boot_kernel)(0xd0010030 :=
       \<lparr>ce_type = CAP_TYPE_IPC_SYNC_ENDPOINT, ce_permissions = CAP_MODIFY, ce_object = 0x9000\<rparr>)" by (rule waiting_kernel_ok [of ?m])
  note c = waiting_caps [OF s]
  have r: "rendezvous (\<lambda>_. None) k 0 0x5000 (ce_object (k_caps k 0xd0010030)) 0x5100" using k(2) c(2) by simp
  have u: "is_user_address 0x400000" by (simp add: is_user_address_def is_kernel_address_def KERNEL_BASE_def)
  have m: "?m = k_usermsg k 0x400000" "m_type ?m = MESSAGE_TYPE_GRANT_OBJECT" "m_data0 ?m \<noteq> CAP_TYPE_CAP_SPACE"
    using k(3) by (simp_all add: c4_enum)
  have sp: "t_cap_space (k_threads k 0x5100) \<in> {0x1000, 0x2000}" "cap_room k (t_cap_space (k_threads k 0x5100))"
    by (simp_all add: c(6,7))
  have none: "ce_object (k_caps k e) \<noteq> 0x6100" for e by (simp add: s(3) boot_cspace boot_caps)
  from forged_grant_accepted [OF r c(1) u m c(5) sp, of 0 0 "\<lambda>_. None" "0x400000", unfolded c(2,6)]
  obtain k1 k2 where "syscall_sync_send (\<lambda>_. None) 0x400000 3 0 0 k = Some (0, k1)"
    "message_recieve (\<lambda>_. None) 0x9000 0x400000 (switched_to 0 0x5100 k1) = Some k2"
    "cap_arrived k 0x2000 \<lparr>ce_type = m_data0 ?m, ce_permissions = m_data1 ?m, ce_object = m_data2 ?m\<rparr>
      (m_data5 (k_usermsg k2 0x400000)) (k_caps k2)" by blast
  then show ?thesis using k(1) none by (auto simp: cap_arrived_def c(8))
qed

end
