(* ===== verification/C4_Serial.thy ===== *)
theory C4_Serial
  imports C4_Interrupts C4_Klib
begin

text \<open>
  The serial console (\<^verbatim>\<open>arch/x86/debug.c\<close>), on which the output functions of \<^verbatim>\<open>src/debug.c\<close> print. The static
  \<^verbatim>\<open>initialized\<close> of \<^verbatim>\<open>debug_putchar\<close> is passed and returned; the wait for the transmitter does not end while the
  line status says it is busy.
\<close>

definition SERIAL_DEFAULT :: u32 where [c4_enum]: "SERIAL_DEFAULT = 0x3f8"
definition SERIAL_DATA :: u32 where [c4_enum]: "SERIAL_DATA = 0"
definition SERIAL_INTERRUPT_ENABLE :: u32 where [c4_enum]: "SERIAL_INTERRUPT_ENABLE = 1"
definition SERIAL_DIVISOR_UPPER :: u32 where [c4_enum]: "SERIAL_DIVISOR_UPPER = 0"
definition SERIAL_DIVISOR_LOWER :: u32 where [c4_enum]: "SERIAL_DIVISOR_LOWER = 1"
definition SERIAL_LINE_CONTROL :: u32 where [c4_enum]: "SERIAL_LINE_CONTROL = 3"
definition SERIAL_LINE_STATUS :: u32 where [c4_enum]: "SERIAL_LINE_STATUS = 5"
definition SERIAL_LINECTRL_DLAB :: u32 where [c4_enum]: "SERIAL_LINECTRL_DLAB = 0x80"
definition SERIAL_LINESTAT_HAVE_DATA :: u32 where [c4_enum]: "SERIAL_LINESTAT_HAVE_DATA = 1"
definition SERIAL_LINESTAT_TRANSMIT_EMPTY :: u32 where [c4_enum]: "SERIAL_LINESTAT_TRANSMIT_EMPTY = 0x20"

definition read_register :: "u32 \<Rightarrow> u32 \<Rightarrow> 'a segments_scheme \<Rightarrow> u32" where
  "read_register port reg s = inb (port + reg) s"

definition write_register :: "u32 \<Rightarrow> u32 \<Rightarrow> u32 \<Rightarrow> 'a segments_scheme \<Rightarrow> 'a segments_scheme" where
  "write_register port reg v s = outb (port + reg) v s"

definition set_divisor :: "u32 \<Rightarrow> 'a segments_scheme \<Rightarrow> 'a segments_scheme" where
  "set_divisor d s =
     (let linectrl = read_register SERIAL_DEFAULT SERIAL_LINE_CONTROL s OR SERIAL_LINECTRL_DLAB;
          s1 = write_register SERIAL_DEFAULT SERIAL_DIVISOR_UPPER (drop_bit 8 d) s;
          s2 = write_register SERIAL_DEFAULT SERIAL_DIVISOR_LOWER (d AND 0xff) s1
      in write_register SERIAL_DEFAULT SERIAL_LINE_CONTROL (linectrl AND NOT SERIAL_LINECTRL_DLAB) s2)"

definition set_charsize :: "u32 \<Rightarrow> 'a segments_scheme \<Rightarrow> 'a segments_scheme" where
  "set_charsize charsize s =
     (let linectrl = read_register SERIAL_DEFAULT SERIAL_LINE_CONTROL s OR (charsize - 5)
      in write_register SERIAL_DEFAULT SERIAL_LINE_CONTROL linectrl s)"

definition set_interrupts :: "u32 \<Rightarrow> 'a segments_scheme \<Rightarrow> 'a segments_scheme" where
  "set_interrupts interrupts s = write_register SERIAL_DEFAULT SERIAL_INTERRUPT_ENABLE interrupts s"

definition serial_has_data :: "'a segments_scheme \<Rightarrow> bool" where
  "serial_has_data s \<longleftrightarrow> read_register SERIAL_DEFAULT SERIAL_LINE_STATUS s AND SERIAL_LINESTAT_HAVE_DATA \<noteq> 0"

definition serial_can_transmit :: "'a segments_scheme \<Rightarrow> bool" where
  "serial_can_transmit s \<longleftrightarrow> read_register SERIAL_DEFAULT SERIAL_LINE_STATUS s AND SERIAL_LINESTAT_TRANSMIT_EMPTY \<noteq> 0"

partial_function (option) transmit_wait :: "'a segments_scheme \<Rightarrow> 'a segments_scheme option" where [code]:
  "transmit_wait s = (if \<not> serial_can_transmit s then transmit_wait s else Some s)"

definition debug_putchar :: "u8 \<Rightarrow> bool \<times> 'a segments_scheme \<Rightarrow> (bool \<times> 'a segments_scheme) option" where
  "debug_putchar c = (\<lambda>(initialized, s). do {
     let s1 = (if \<not> initialized then set_interrupts 0 (set_divisor 1 (set_charsize 8 s)) else s);
     s2 \<leftarrow> transmit_wait s1;
     Some (True, write_register SERIAL_DEFAULT SERIAL_DATA (ucast c) s2)
   })"

text \<open>\<^verbatim>\<open>debug_puts\<close> on the characters of a string.\<close>

primrec debug_puts :: "string \<Rightarrow> bool \<times> 'a segments_scheme \<Rightarrow> (bool \<times> 'a segments_scheme) option" where
  "debug_puts [] s = Some s"
| "debug_puts (c # cs) s = do {
     s1 \<leftarrow> debug_putchar (of_char c) s;
     debug_puts cs s1
   }"

section \<open>Properties\<close>

text \<open>What appears at the data port is the log of its 8-bit writes.\<close>

definition sent :: "string \<Rightarrow> (nat \<times> u16 \<times> u32) list" where
  "sent cs = map (\<lambda>c. (8, 0x3f8, of_char c)) cs"

lemma transmit_wait_ready: "serial_can_transmit s \<Longrightarrow> transmit_wait s = Some s"
  by (simp add: transmit_wait.simps [of s])

lemma can_transmit_on_kernel: "(\<And>k. k_port_in (f k) = k_port_in k) \<Longrightarrow> serial_can_transmit (on_kernel f s) = serial_can_transmit s"
  by (simp add: serial_can_transmit_def read_register_def inb_def port_read_def)

lemma debug_putchar_ready:
  assumes "serial_can_transmit s"
  shows "debug_putchar c (True, s) = Some (True, on_kernel (\<lambda>k. k\<lparr>k_port_log := k_port_log k @ [(8, 0x3f8, ucast c)]\<rparr>) s)"
proof -
  have "take_bit 8 (ucast c :: u32) = ucast c"
    by (rule bit_eqI) (auto simp: bit_simps dest: bit_imp_le_length)
  then show ?thesis
    using transmit_wait_ready [OF assms]
    by (simp add: debug_putchar_def write_register_def outb_def port_write_def [abs_def] SERIAL_DEFAULT_def SERIAL_DATA_def)
qed

text \<open>
  On an initialised console whose transmitter is ready, \<^verbatim>\<open>debug_puts\<close> returns and has written the characters of
  the string to the data port, all of them, in order, and nothing else.
\<close>

theorem debug_puts_writes:
  assumes "serial_can_transmit s"
  shows "debug_puts cs (True, s) = Some (True, on_kernel (\<lambda>k. k\<lparr>k_port_log := k_port_log k @ sent cs\<rparr>) s)"
  using assms
proof (induction cs arbitrary: s)
  case Nil
  then show ?case by (simp add: sent_def on_kernel_def)
next
  case (Cons c cs)
  have [simp]: "ucast (of_char c :: u8) = (of_char c :: u32)"
    by (simp add: of_char_def unsigned_of_nat take_bit_nat_eq_self flip: of_nat_of_char)
  from Cons.IH [unfolded can_transmit_on_kernel] Cons.prems show ?case
    by (simp add: debug_putchar_ready can_transmit_on_kernel comp_def sent_def)
qed

text \<open>A machine whose ports all read 0x20.\<close>

definition serial_machine :: interrupts where
  "serial_machine = boot_machine\<lparr>sg_kernel := boot_kernel\<lparr>k_port_in := (\<lambda>_. 0x20)\<rparr>\<rparr>"

lemma serial_machine_ready:
  "serial_can_transmit serial_machine" "read_register SERIAL_DEFAULT SERIAL_LINE_CONTROL serial_machine = 0x20"
  by (simp_all add: serial_can_transmit_def read_register_def inb_def port_read_def serial_machine_def
      SERIAL_LINESTAT_TRANSMIT_EMPTY_def)

text \<open>An instance for the text "ok".\<close>

theorem debug_puts_writes_witness:
  "\<exists>s'. debug_puts ''ok'' (True, serial_machine) = Some (True, s') \<and>
     k_port_log (sg_kernel s') = [(8, 0x3f8, 111), (8, 0x3f8, 107)]"
  using debug_puts_writes [OF serial_machine_ready(1), of "''ok''"]
  by (simp add: sent_def) (simp add: serial_machine_def boot_kernel_def)

text \<open>
  The first character: \<^verbatim>\<open>set_divisor\<close> computes the line control value with the divisor latch bit but does not
  write it, so when the line starts with the latch closed, every line control write leaves it closed and the
  divisor bytes 0 and 1 go to the data and the interrupt enable register instead.
\<close>

theorem debug_putchar_divisor_lost:
  assumes "serial_can_transmit s" and "read_register SERIAL_DEFAULT SERIAL_LINE_CONTROL s = lc" and "\<not> bit lc 7"
  shows "\<exists>a b. debug_putchar c (False, s) = Some (True, on_kernel (\<lambda>k. k\<lparr>k_port_log := k_port_log k @
      [(8, 0x3fb, a), (8, 0x3f8, 0), (8, 0x3f9, 1), (8, 0x3fb, b), (8, 0x3f9, 0), (8, 0x3f8, ucast c)]\<rparr>) s) \<and>
    \<not> bit a 7 \<and> \<not> bit b 7"
proof -
  have t: "take_bit 8 (ucast c :: u32) = ucast c"
    by (rule bit_eqI) (auto simp: bit_simps dest: bit_imp_le_length)
  let ?a = "take_bit 8 (lc OR 3)" and ?b = "take_bit 8 ((lc OR 0x80) AND NOT 0x80)"
  let ?s = "set_interrupts 0 (set_divisor 1 (set_charsize 8 s))"
  have s: "?s = on_kernel (\<lambda>k. k\<lparr>k_port_log := k_port_log k @
      [(8, 0x3fb, ?a), (8, 0x3f8, 0), (8, 0x3f9, 1), (8, 0x3fb, ?b), (8, 0x3f9, 0)]\<rparr>) s"
    using assms(2)
    by (simp add: set_interrupts_def set_divisor_def set_charsize_def write_register_def read_register_def Let_def outb_def inb_def
        port_write_def [abs_def] port_read_def comp_def SERIAL_DEFAULT_def SERIAL_LINE_CONTROL_def SERIAL_DIVISOR_UPPER_def
        SERIAL_DIVISOR_LOWER_def SERIAL_INTERRUPT_ENABLE_def SERIAL_LINECTRL_DLAB_def)
  have "serial_can_transmit ?s" unfolding s using assms(1) by (subst can_transmit_on_kernel) simp_all
  then have "debug_putchar c (False, s) = debug_putchar c (True, ?s)"
    by (simp add: debug_putchar_def)
  also have "\<dots> = Some (True, on_kernel (\<lambda>k. k\<lparr>k_port_log := k_port_log k @
      [(8, 0x3fb, ?a), (8, 0x3f8, 0), (8, 0x3f9, 1), (8, 0x3fb, ?b), (8, 0x3f9, 0), (8, 0x3f8, ucast c)]\<rparr>) s)"
    using debug_putchar_ready [OF \<open>serial_can_transmit ?s\<close>, of c] unfolding s by (simp add: comp_def)
  finally have run: "debug_putchar c (False, s) = \<dots>" .
  have "\<not> bit ?a 7" using assms(3) by (simp add: bit_take_bit_iff bit_or_iff)
  moreover have "\<not> bit ?b 7" by (simp add: bit_take_bit_iff bit_or_iff bit_and_iff bit_not_iff)
  ultimately show ?thesis using run by blast
qed

text \<open>An instance for the letter "A" on that machine.\<close>

theorem debug_putchar_divisor_lost_witness:
  "\<exists>a b s'. debug_putchar 65 (False, serial_machine) = Some (True, s') \<and>
     k_port_log (sg_kernel s') = [(8, 0x3fb, a), (8, 0x3f8, 0), (8, 0x3f9, 1), (8, 0x3fb, b), (8, 0x3f9, 0), (8, 0x3f8, 65)]"
proof -
  have "\<not> bit (0x20 :: u32) 7" by simp
  from debug_putchar_divisor_lost [OF serial_machine_ready this, of 65] obtain a b where
    run: "debug_putchar 65 (False, serial_machine) = Some (True, on_kernel (\<lambda>k. k\<lparr>k_port_log := k_port_log k @
      [(8, 0x3fb, a), (8, 0x3f8, 0), (8, 0x3f9, 1), (8, 0x3fb, b), (8, 0x3f9, 0), (8, 0x3f8, ucast (65 :: u8))]\<rparr>) serial_machine)"
    by blast
  have "k_port_log (sg_kernel serial_machine) = []" by (simp add: serial_machine_def boot_kernel_def)
  then show ?thesis unfolding run by simp
qed

end
