(* ===== verification/Spec2Isabelle.thy ===== *)
theory Spec2Isabelle
  imports C4_Confinement C4_Dump C4_Rendezvous C4_Serial
begin

text \<open>
  A model of the C4 microkernel for x86 (\<^verbatim>\<open>src/\<close>, \<^verbatim>\<open>include/\<close> and \<^verbatim>\<open>arch/x86/\<close> of the repository) with its
  correctness theorems. The kernel multiplexes processors and memory among user programs; programs hold capabilities to
  kernel objects (threads, address spaces, physical frames, endpoints, capability spaces), exchange messages
  through endpoints, and enter the kernel by system calls, page faults and interrupts.

  \<^bold>\<open>Conventions.\<close> Machine integers are words of their width and wrap. Structures are records, kept in typed
  heaps indexed by address; packed structures whose layout the hardware or the firmware fixes are words with
  bit-fields or bytes at offsets. Every function passes its state explicitly. A function that can dereference
  \<^verbatim>\<open>NULL\<close>, leave an array, or wait forever returns an option, and \<open>None\<close> stands for that. Loops whose end depends
  on the data are partial functions into options, and that they return is proved where it is claimed. Switching
  to another thread is the parameter \<open>yield\<close>: what runs until the caller runs again; the assembler context switch
  (\<^verbatim>\<open>scheduler.s\<close>) is the parameter \<open>do_switch\<close>. Hardware is what the accessors of the code see of it: port reads and
  APIC reads are arbitrary functions, writes are logged. Diagnostic output between other statements is left out; the
  functions whose work is to print return their text.

  \<^bold>\<open>The theories, from the bottom up.\<close>
  \<^item> \<open>C4_Prelude\<close>: machine types, flags (\<^verbatim>\<open>common.h\<close>), error codes, spin locks; lemmas on words, options and
    doubly linked lists.
  \<^item> \<open>C4_Bitmap\<close> (\<^verbatim>\<open>klib/bitmap.h\<close>), \<open>C4_Region\<close> (\<^verbatim>\<open>mm/region.c\<close>): page allocation. The locale \<open>allocator\<close> states what
    an allocator promises; regions and slabs interpret it.
  \<^item> \<open>C4_Paging\<close> (\<^verbatim>\<open>paging.c\<close>): page tables in physical memory, reached through the recursive mapping; mapping a page
    makes it translate to its frame and changes no other translation, except where it makes a new table, whose other
    entries are what the frame held. Translation means the tables; of the processor's cache of translations the
    model has the flushes, as a log.
  \<^item> \<open>C4_Slab\<close> (\<^verbatim>\<open>mm/slab.c\<close>): object allocation; fresh and disjoint addresses, for any sequence of allocations
    and releases.
  \<^item> \<open>C4_Queue\<close> (\<^verbatim>\<open>klib/queue.c\<close>): linked queues; the locales \<open>deque\<close> and \<open>fifo\<close>, which the asynchronous endpoints
    interpret as well.
  \<^item> \<open>C4_Capability\<close> (\<^verbatim>\<open>capability.c\<close>): tables and spaces; lookup refines the abstract map from paths to
    capabilities, rights only shrink.
  \<^item> \<open>C4_Andtree\<close> and \<open>C4_AATree\<close> (\<^verbatim>\<open>klib/andtree.c\<close>): the balanced tree of the scheduler, its pointer operations and
    their proofs; the locale \<open>prio_line\<close> is its priority-queue contract.
  \<^item> \<open>C4_State\<close>: the record of the whole kernel state, processor queries and the clock.
  \<^item> \<open>C4_Sync\<close> (\<^verbatim>\<open>syncronization.c\<close>), \<open>C4_AddrSpace\<close> (\<^verbatim>\<open>mm/addrspace.c\<close>), \<open>C4_Scheduler\<close> (\<^verbatim>\<open>thread.c\<close>, \<^verbatim>\<open>scheduler.c\<close>),
    \<open>C4_Message\<close> (\<^verbatim>\<open>message.c\<close>), \<open>C4_Syscall\<close> (\<^verbatim>\<open>syscall.c\<close>, \<^verbatim>\<open>interrupts.c\<close>, \<^verbatim>\<open>paging.c\<close>): the kernel proper, on that
    state. Mutual exclusion and wake-up order of mutexes; sorted address maps and mapped frames; the choice of
    the next thread, for a run queue in order, and when the accounting of the time used keeps that order; delivery,
    waiting and queueing of messages, and the reserved types that are dropped together with their receiver; the
    capability checks of all system calls.
  \<^item> \<open>C4_Frames\<close>: what each function of the kernel leaves alone. The locale \<open>step_order\<close> turns a preorder on states into
    rules for functions composed with options; it is interpreted for the nodes of the tree and extended by
    \<open>cap_preserving\<close>, for functions that do not change capabilities, and \<open>switching\<close>, where they may switch to other
    threads; both are interpreted here or in the two theories that follow.
  \<^item> \<open>C4_Confinement\<close>: authority over whole sessions. Threads whose capability spaces name no space outside a set, and
    that neither create objects nor receive messages, gain no capability and no right, whatever other calls they
    make in whatever order; each such call writes entries of those spaces only, or lets other threads run.
  \<^item> \<open>C4_Rendezvous\<close>: communication as seen from both threads. A message sent to a waiting thread is the one that thread
    receives; a granted capability arrives in its table with the rights asked for, if there is room; and a message of
    the grant type that a program makes up is accepted as well. The predicate \<open>rendezvous\<close> has the conditions: the
    endpoint is unlocked, the receiver waits, and the switch that \<^verbatim>\<open>sched_add_thread\<close> makes if the receiver has run
    longer than the sender does not disturb the two. \<open>switched_to\<close> is the moment at which the receiver runs.
  \<^item> \<open>C4_Bitfield\<close>, \<open>C4_Segments\<close> (\<^verbatim>\<open>segments.c\<close>), \<open>C4_Devices\<close> (\<^verbatim>\<open>pic.c\<close>, \<^verbatim>\<open>pit.c\<close>, \<^verbatim>\<open>apic.c\<close>, \<^verbatim>\<open>timer.c\<close>),
    \<open>C4_Interrupts\<close> (\<^verbatim>\<open>arch/x86/interrupts.c\<close>): the descriptor tables as the processor reads them, with the unit of
    the limits, and the dispatch of interrupts, with the handlers of the running kernel, down to system calls.
  \<^item> \<open>C4_Klib\<close> (\<^verbatim>\<open>klib/string.c\<close>, \<^verbatim>\<open>debug.c\<close>, \<^verbatim>\<open>bios.c\<close>, \<^verbatim>\<open>earlyheap.c\<close>), \<open>C4_Serial\<close> (\<^verbatim>\<open>arch/x86/debug.c\<close>): memory and
    string functions, formatted output, the console.
  \<^item> \<open>C4_Ioapic\<close> (\<^verbatim>\<open>ioapic.c\<close>), \<open>C4_Mp\<close> (\<^verbatim>\<open>mp.c\<close>), \<open>C4_Boot\<close> (\<^verbatim>\<open>init.c\<close>, \<^verbatim>\<open>apic-utils.c\<close>): interrupt routing, the walk over
    the multiprocessor tables with the interrupts that start the other processors, and the boot sequence up to the
    first user program.
  \<^item> \<open>C4_Dump\<close> (\<^verbatim>\<open>atree_print\<close>, \<^verbatim>\<open>addr_map_dump\<close>, \<^verbatim>\<open>ioapic_print_redirects\<close> and others): the text the dump functions print.
    They return on well-formed structures, because their formats fit their arguments; a tree is printed in the order
    of its keys, and its own check (\<^verbatim>\<open>atree_check\<close>) accepts it.

  The state grows with the theories: each of \<open>segments\<close>, \<open>devices\<close>, \<open>interrupts\<close>, \<open>ioapics\<close>, \<open>mp\<close> and \<open>boot\<close> extends
  the record before it, so that the functions of a lower theory apply to the state of a higher one.

  \<^bold>\<open>Bounds and fuel.\<close> \<^verbatim>\<open>sched_thread_yield\<close> nests as often as its fuel says, since every switch may run another
  thread that switches again. The walk over the multiprocessor tables has 65536 rounds, more than its 16-bit
  count. The printing of a number has 33 digits, the size of its buffer. Other loops are structural on the data
  or partial functions.

  \<^bold>\<open>Where the code deviates from its intent.\<close> Theorems also state what the code does where that is not what it
  means to: \<open>mutex_relock_unprotected\<close>, \<open>sched_stop_continue_duplicates\<close>, \<open>addr_map_remove_full_overruns\<close>,
  \<open>cap_remove_clears_subspace_root\<close>, \<open>memmaps_overlap\<close>, \<open>arch_init_without_memmap\<close>, \<open>unregistered_bus_is_isa\<close>,
  \<open>debug_putchar_divisor_lost\<close>, \<open>forged_grant_accepted\<close>. Other theorems have such behaviour among their cases: the
  uncleared page table (\<open>map_phys_page_translates\<close>), the flush of the wrong page (\<open>unmap_page_releases\<close>), the receiver lost
  with a dropped message (\<open>message_send_to_waiting\<close>), the endpoint with an uninitialised lock
  (\<open>syscall_sync_create_usable\<close>), the grant that reports success without room (\<open>cap_grant_transfers\<close>), and the accounting
  that can break the order of the run queue (\<open>sched_switch_picks_least\<close>).

  \<^bold>\<open>Definitions that are not code.\<close> Invariants, abstractions and the words of the theorems are definitions too:
  among them \<open>cap_room\<close>, \<open>cap_arrived\<close>, \<open>rendezvous\<close>, \<open>switched_to\<close>, \<open>async_put\<close> (an allocation followed by an insertion,
  for the \<open>fifo\<close> locale), \<open>account\<close>, \<open>mappable\<close>, \<open>new_tables\<close>, \<open>arch_init_handlers\<close> (the registrations of \<^verbatim>\<open>arch_init\<close> and what
  it calls), \<open>started\<close>, \<open>clear_of\<close>, and the readers of descriptors \<open>desc_limit\<close>, \<open>desc_base\<close> and so on.

  \<^bold>\<open>Not modelled.\<close> The assembler files, but for what their callers see; \<^verbatim>\<open>test_thread_client\<close>, which nothing calls, and
  \<^verbatim>\<open>timer_elapsed\<close> and \<^verbatim>\<open>timer_reset\<close>, which are declared only; interleavings of several processors inside one kernel
  function: \<open>yield\<close> and, at boot, \<open>others\<close> are the points at which something else runs, and a lock held by another
  processor is waited for without end. Memory behind user addresses appears where the kernel copies to it at boot,
  and as the message buffers of system calls.

  \<^bold>\<open>Open.\<close> The boot sequence as one theorem: that \<^verbatim>\<open>arch_init\<close> returns on a machine with a good memory map, and with
  which capabilities \<^verbatim>\<open>sigma0\<close> starts; an invariant of the whole kernel state, beyond its capabilities, kept by every
  system call.
\<close>

end
